(* ===== verification/Nachos_Prelude.thy ===== *)
theory Nachos_Prelude
  imports Main "HOL-Library.Word"
begin

text \<open>
  Shared vocabulary of the development. A Nachos routine that can abort the simulator
  (the \<^verbatim>\<open>ASSERT\<close> macro of \<^verbatim>\<open>threads/utility.h\<close>), run into undefined behaviour of C++, loop
  for ever or shut the machine down (\<^verbatim>\<open>Interrupt::Halt\<close>) returns a value of the sum type
  \<open>'a res\<close>; the left summand names the reason it did not return. The collections
  \<open>res_simps\<close>, \<open>model_defs\<close> and \<open>inv_intros\<close> gather the facts the component proofs share.
\<close>

named_theorems res_simps \<open>inversion of computations that may fault\<close>
named_theorems model_defs \<open>definitions of the model that proofs unfold together\<close>
named_theorems inv_intros \<open>preservation of invariants\<close>

section \<open>Faults and sequencing\<close>

datatype fault =
    AssertFail \<comment> \<open>\<^verbatim>\<open>ASSERT\<close> failed: message on stderr, then \<^verbatim>\<open>Abort()\<close>\<close>
  | Undefined  \<comment> \<open>undefined behaviour: null or dangling pointer, access out of bounds\<close>
  | Diverges   \<comment> \<open>a loop that never ends\<close>
  | Halted     \<comment> \<open>\<^verbatim>\<open>Interrupt::Halt\<close>: clean shutdown of the machine\<close>

type_synonym 'a res = "fault + 'a"

definition andThen :: "'e + 'a \<Rightarrow> ('a \<Rightarrow> 'e + 'b) \<Rightarrow> 'e + 'b" where
  "andThen m f = (case m of Inl e \<Rightarrow> Inl e | Inr x \<Rightarrow> f x)"

definition ASSERT :: "bool \<Rightarrow> unit res" where
  "ASSERT condition = (if condition then Inr () else Inl AssertFail)"

lemma andThen_Inr [simp]: "andThen (Inr x) f = f x"
  by (simp add: andThen_def)

lemma andThen_Inl [simp]: "andThen (Inl e) f = Inl e"
  by (simp add: andThen_def)

lemma andThen_eq_Inr [res_simps]:
  "andThen m f = Inr y \<longleftrightarrow> (\<exists>x. m = Inr x \<and> f x = Inr y)"
  by (cases m) simp_all

lemma andThen_eq_Inl [res_simps]:
  "andThen m f = Inl e \<longleftrightarrow> m = Inl e \<or> (\<exists>x. m = Inr x \<and> f x = Inl e)"
  by (cases m) simp_all

lemma andThen_assoc: "andThen (andThen m f) g = andThen m (\<lambda>x. andThen (f x) g)"
  by (cases m) simp_all

lemma andThen_cong [fundef_cong]:
  "m = m' \<Longrightarrow> (\<And>x. m' = Inr x \<Longrightarrow> f x = f' x) \<Longrightarrow> andThen m f = andThen m' f'"
  by (cases m') simp_all

lemma ASSERT_True [simp]: "ASSERT True = Inr ()"
  by (simp add: ASSERT_def)

lemma ASSERT_False [simp]: "ASSERT False = Inl AssertFail"
  by (simp add: ASSERT_def)

lemma ASSERT_eq_Inr [res_simps]: "ASSERT c = Inr u \<longleftrightarrow> c"
  by (simp add: ASSERT_def)

lemma ASSERT_eq_Inl [res_simps]: "ASSERT c = Inl e \<longleftrightarrow> \<not> c \<and> e = AssertFail"
  by (auto simp: ASSERT_def)

section \<open>Integer helpers of \<^verbatim>\<open>utility.h\<close>\<close>

text \<open>
  C's \<^verbatim>\<open>/\<close> and \<^verbatim>\<open>%\<close> truncate towards zero; \<open>cdiv\<close> and \<open>cmod\<close> are these operations on
  the mathematical integers. The macros divide by a positive constant everywhere in the sources.
\<close>

definition cdiv :: "int \<Rightarrow> int \<Rightarrow> int" where
  "cdiv n s = sgn n * sgn s * (\<bar>n\<bar> div \<bar>s\<bar>)"

definition cmod :: "int \<Rightarrow> int \<Rightarrow> int" where
  "cmod n s = n - cdiv n s * s"

definition divRoundDown :: "int \<Rightarrow> int \<Rightarrow> int" where
  "divRoundDown n s = cdiv n s"

definition divRoundUp :: "int \<Rightarrow> int \<Rightarrow> int" where
  "divRoundUp n s = cdiv n s + (if cmod n s > 0 then 1 else 0)"

lemma cdiv_nonneg [simp]: "0 \<le> n \<Longrightarrow> 0 < s \<Longrightarrow> cdiv n s = n div s"
  by (cases "n = 0") (simp_all add: cdiv_def)

lemma cmod_nonneg [simp]: "0 \<le> n \<Longrightarrow> 0 < s \<Longrightarrow> cmod n s = n mod s"
  by (simp add: cmod_def minus_div_mult_eq_mod)

lemma cmod_neg: "n < 0 \<Longrightarrow> 0 < s \<Longrightarrow> cmod n s = - ((- n) mod s)"
  by (simp add: cmod_def cdiv_def minus_div_mult_eq_mod [symmetric] algebra_simps)

lemma cmod_bounds: "0 < s \<Longrightarrow> - s < cmod n s \<and> cmod n s < s"
proof -
  assume s: "0 < s"
  have b: "0 \<le> m mod s" "m mod s < s" for m using s by simp_all
  show ?thesis
  proof (cases "0 \<le> n")
    case True
    then have "cmod n s = n mod s" using s by simp
    with s b [of n] show ?thesis by linarith
  next
    case False
    with s b [of "- n"] show ?thesis by (simp add: cmod_neg)
  qed
qed

lemma divRoundUp_bounds:
  assumes "0 \<le> n" "0 < s"
  shows "n \<le> divRoundUp n s * s" and "divRoundUp n s * s < n + s"
proof -
  have eq: "n = (n div s) * s + n mod s" by simp
  have m: "0 \<le> n mod s" "n mod s < s" using assms(2) by simp_all
  have "n \<le> divRoundUp n s * s \<and> divRoundUp n s * s < n + s"
  proof (cases "n mod s = 0")
    case True
    then show ?thesis using assms eq by (simp add: divRoundUp_def)
  next
    case False
    then have "divRoundUp n s = n div s + 1"
      using assms m by (simp add: divRoundUp_def)
    then have "divRoundUp n s * s = (n div s) * s + s"
      by (simp add: algebra_simps)
    moreover have "0 < n mod s" using False m(1) by simp
    ultimately show ?thesis using eq m(2) by linarith
  qed
  then show "n \<le> divRoundUp n s * s" and "divRoundUp n s * s < n + s" by simp_all
qed

section \<open>Disk geometry of \<^verbatim>\<open>disk.h\<close>\<close>

definition SectorSize :: int where "SectorSize = 128"
definition SectorsPerTrack :: int where "SectorsPerTrack = 32"
definition NumTracks :: int where "NumTracks = 32"
definition NumSectors :: int where "NumSectors = SectorsPerTrack * NumTracks"

lemma NumSectors_eq [simp]: "NumSectors = 1024"
  by (simp add: NumSectors_def SectorsPerTrack_def NumTracks_def)

section \<open>Lists, options and the 32-bit \<^verbatim>\<open>int\<close>\<close>

definition to_int32 :: "int \<Rightarrow> int" where
  "to_int32 n = sint (word_of_int n :: 32 word)"

lemma to_int32_range: "- (2 ^ 31) \<le> to_int32 n \<and> to_int32 n < 2 ^ 31"
  using sint_range_size [of "word_of_int n :: 32 word"]
  by (simp add: to_int32_def word_size)

lemma to_int32_id: "- (2 ^ 31) \<le> n \<Longrightarrow> n < 2 ^ 31 \<Longrightarrow> to_int32 n = n"
  by (simp add: to_int32_def sint_sbintrunc' signed_take_bit_int_eq_self)

lemma distinct_append_single [simp]:
  "distinct (xs @ [x]) \<longleftrightarrow> distinct xs \<and> x \<notin> set xs"
  by auto

end
