(* ===== verification/Nachos_List.thy ===== *)
theory Nachos_List
  imports Nachos_Prelude "HOL-Library.Multiset"
begin

text \<open>
  \<^verbatim>\<open>threads/list.cc\<close>, \<^verbatim>\<open>threads/list.h\<close>: the singly linked list every queue of the kernel is
  made of. The model keeps the pointers: list elements live in an explicit heap of cells, a
  \<^verbatim>\<open>List\<close> object is its pair of \<^verbatim>\<open>first\<close>/\<^verbatim>\<open>last\<close> pointers, and every operation updates the
  cells the C++ updates. The predicate \<open>lrep\<close> says which sequence of (item, key) pairs a list
  object represents; each operation is shown to refine the operation on sequences, which the
  scheduler, the semaphores and the interrupt queue then use.
\<close>

section \<open>Cells, heap and list objects\<close>

record 'a ListElement =
  le_next :: "nat option" \<comment> \<open>\<^verbatim>\<open>NULL\<close> is \<open>None\<close>\<close>
  le_key :: int
  le_item :: 'a

record 'a heap =
  cells :: "nat \<rightharpoonup> 'a ListElement"
  brk :: nat \<comment> \<open>addresses from here on have never been allocated\<close>

record ListObj =
  lfirst :: "nat option"
  llast :: "nat option"

type_synonym 'a list_state = "'a heap \<times> ListObj"

definition empty_heap :: "'a heap" where
  "empty_heap = \<lparr>cells = Map.empty, brk = 0\<rparr>"

definition load :: "'a heap \<Rightarrow> nat option \<Rightarrow> 'a ListElement res" where
  "load h p = (case p of None \<Rightarrow> Inl Undefined
     | Some a \<Rightarrow> (case cells h a of None \<Rightarrow> Inl Undefined | Some c \<Rightarrow> Inr c))"

definition set_next :: "nat option \<Rightarrow> nat option \<Rightarrow> 'a heap \<Rightarrow> 'a heap res" where
  "set_next p q h = (case p of None \<Rightarrow> Inl Undefined
     | Some a \<Rightarrow> (case cells h a of None \<Rightarrow> Inl Undefined
       | Some c \<Rightarrow> Inr (h\<lparr>cells := (cells h)(a \<mapsto> c\<lparr>le_next := q\<rparr>)\<rparr>)))"

definition delete_cell :: "nat option \<Rightarrow> 'a heap \<Rightarrow> 'a heap res" where
  "delete_cell p h = (case p of None \<Rightarrow> Inr h
     | Some a \<Rightarrow> (case cells h a of None \<Rightarrow> Inl Undefined
       | Some _ \<Rightarrow> Inr (h\<lparr>cells := (cells h)(a := None)\<rparr>)))"

definition ListElement_new :: "'a \<Rightarrow> int \<Rightarrow> 'a heap \<Rightarrow> nat \<times> 'a heap" where
  "ListElement_new itemPtr sortKey h =
     (brk h, h\<lparr>cells := (cells h)(brk h \<mapsto> \<lparr>le_next = None, le_key = sortKey, le_item = itemPtr\<rparr>),
               brk := Suc (brk h)\<rparr>)"

section \<open>The operations of \<^verbatim>\<open>list.cc\<close>\<close>

definition List_new :: ListObj where
  "List_new = \<lparr>lfirst = None, llast = None\<rparr>"

definition IsEmpty :: "ListObj \<Rightarrow> bool" where
  "IsEmpty l \<longleftrightarrow> lfirst l = None"

fun Append :: "'a \<Rightarrow> 'a list_state \<Rightarrow> 'a list_state res" where
  "Append item (h, l) =
     (let (element, h1) = ListElement_new item 0 h in
      if IsEmpty l then Inr (h1, l\<lparr>lfirst := Some element, llast := Some element\<rparr>)
      else andThen (set_next (llast l) (Some element) h1)
             (\<lambda>h2. Inr (h2, l\<lparr>llast := Some element\<rparr>)))"

fun Prepend :: "'a \<Rightarrow> 'a list_state \<Rightarrow> 'a list_state res" where
  "Prepend item (h, l) =
     (let (element, h1) = ListElement_new item 0 h in
      if IsEmpty l then Inr (h1, l\<lparr>lfirst := Some element, llast := Some element\<rparr>)
      else andThen (set_next (Some element) (lfirst l) h1)
             (\<lambda>h2. Inr (h2, l\<lparr>lfirst := Some element\<rparr>)))"

text \<open>
  The search loop of \<^verbatim>\<open>SortedInsert\<close>. It only follows \<^verbatim>\<open>next\<close> pointers until it leaves, so a
  walk of more steps than there are allocated addresses has met a cell twice and never ends:
  the fuel \<open>brk h\<close> given by \<open>SortedInsert\<close> loses nothing.
\<close>

fun SortedInsert_loop ::
    "nat \<Rightarrow> nat \<Rightarrow> int \<Rightarrow> nat option \<Rightarrow> 'a list_state \<Rightarrow> 'a list_state res" where
  "SortedInsert_loop 0 element sortKey ptr st = Inl Diverges"
| "SortedInsert_loop (Suc fuel) element sortKey ptr (h, l) =
     andThen (load h ptr) (\<lambda>c.
       case le_next c of
         None \<Rightarrow> andThen (set_next (llast l) (Some element) h)
                   (\<lambda>h2. Inr (h2, l\<lparr>llast := Some element\<rparr>))
       | Some nx \<Rightarrow> andThen (load h (Some nx)) (\<lambda>d.
           if sortKey < le_key d then
             andThen (set_next (Some element) (Some nx) h) (\<lambda>h2.
             andThen (set_next ptr (Some element) h2) (\<lambda>h3. Inr (h3, l)))
           else SortedInsert_loop fuel element sortKey (Some nx) (h, l)))"

fun SortedInsert :: "'a \<Rightarrow> int \<Rightarrow> 'a list_state \<Rightarrow> 'a list_state res" where
  "SortedInsert item sortKey (h, l) =
     (let (element, h1) = ListElement_new item sortKey h in
      if IsEmpty l then Inr (h1, l\<lparr>lfirst := Some element, llast := Some element\<rparr>)
      else andThen (load h1 (lfirst l)) (\<lambda>c.
        if sortKey < le_key c then
          andThen (set_next (Some element) (lfirst l) h1)
            (\<lambda>h2. Inr (h2, l\<lparr>lfirst := Some element\<rparr>))
        else SortedInsert_loop (brk h1) element sortKey (lfirst l) (h1, l)))"

text \<open>\<^verbatim>\<open>SortedRemove\<close> returns the item and, through \<^verbatim>\<open>keyPtr\<close>, its key; \<open>None\<close> is \<^verbatim>\<open>NULL\<close>.\<close>

fun SortedRemove :: "'a list_state \<Rightarrow> (('a \<times> int) option \<times> 'a list_state) res" where
  "SortedRemove (h, l) =
     (if IsEmpty l then Inr (None, (h, l))
      else andThen (load h (lfirst l)) (\<lambda>element.
        let l' = (if lfirst l = llast l then l\<lparr>lfirst := None, llast := None\<rparr>
                  else l\<lparr>lfirst := le_next element\<rparr>)
        in andThen (delete_cell (lfirst l) h) (\<lambda>h'.
             Inr (Some (le_item element, le_key element), (h', l')))))"

definition Remove :: "'a list_state \<Rightarrow> ('a option \<times> 'a list_state) res" where
  "Remove st = andThen (SortedRemove st) (\<lambda>(r, st'). Inr (map_option fst r, st'))"

text \<open>
  \<^verbatim>\<open>Mapcar\<close> calls \<^verbatim>\<open>func\<close> on the items in order; the model returns the sequence of items it is
  called on. The fuel is as above, plus one step to see the final \<^verbatim>\<open>NULL\<close>.
\<close>

fun Mapcar_loop :: "nat \<Rightarrow> 'a heap \<Rightarrow> nat option \<Rightarrow> 'a list res" where
  "Mapcar_loop 0 h ptr = Inl Diverges"
| "Mapcar_loop (Suc fuel) h ptr =
     (case ptr of None \<Rightarrow> Inr []
      | Some a \<Rightarrow> andThen (load h ptr) (\<lambda>c.
          andThen (Mapcar_loop fuel h (le_next c)) (\<lambda>xs. Inr (le_item c # xs))))"

fun Mapcar :: "'a list_state \<Rightarrow> 'a list res" where
  "Mapcar (h, l) = Mapcar_loop (Suc (brk h)) h (lfirst l)"

text \<open>The destructor removes until \<^verbatim>\<open>Remove\<close> returns \<^verbatim>\<open>NULL\<close>.\<close>

fun List_delete_loop :: "nat \<Rightarrow> 'a list_state \<Rightarrow> 'a list_state res" where
  "List_delete_loop 0 st = Inl Diverges"
| "List_delete_loop (Suc fuel) st =
     andThen (Remove st) (\<lambda>(r, st').
       case r of None \<Rightarrow> Inr st' | Some _ \<Rightarrow> List_delete_loop fuel st')"

fun List_delete :: "'a list_state \<Rightarrow> 'a list_state res" where
  "List_delete (h, l) = List_delete_loop (Suc (brk h)) (h, l)"

section \<open>The sequence a list represents\<close>

fun lseg :: "'a heap \<Rightarrow> nat option \<Rightarrow> nat list \<Rightarrow> nat option \<Rightarrow> ('a \<times> int) list \<Rightarrow> bool" where
  "lseg h p [] q xs \<longleftrightarrow> p = q \<and> xs = []"
| "lseg h p (a # as) q xs \<longleftrightarrow> p = Some a \<and>
     (\<exists>c ys. cells h a = Some c \<and> xs = (le_item c, le_key c) # ys \<and> lseg h (le_next c) as q ys)"

definition lrep :: "'a list_state \<Rightarrow> nat list \<Rightarrow> ('a \<times> int) list \<Rightarrow> bool" where
  "lrep st as xs \<longleftrightarrow> (case st of (h, l) \<Rightarrow>
     lseg h (lfirst l) as None xs \<and> distinct as \<and> dom (cells h) \<subseteq> {..<brk h} \<and>
     llast l = (if as = [] then None else Some (last as)))"

definition list_frame :: "nat set \<Rightarrow> 'a heap \<Rightarrow> 'a heap \<Rightarrow> bool" where
  "list_frame A h h' \<longleftrightarrow> (\<forall>a. a < brk h \<longrightarrow> a \<notin> A \<longrightarrow> cells h' a = cells h a)"

text \<open>The operations on sequences that the pointer operations implement.\<close>

definition seq_insert :: "'a \<Rightarrow> int \<Rightarrow> ('a \<times> int) list \<Rightarrow> ('a \<times> int) list" where
  "seq_insert x k xs =
     takeWhile (\<lambda>e. snd e \<le> k) xs @ (x, k) # dropWhile (\<lambda>e. snd e \<le> k) xs"

lemma lseg_append:
  "lseg h p (as @ bs) q xs \<longleftrightarrow>
     (\<exists>m ys zs. xs = ys @ zs \<and> lseg h p as m ys \<and> lseg h m bs q zs)"
proof (induction as arbitrary: p xs)
  case Nil
  then show ?case by simp
next
  case (Cons a as)
  show ?case
  proof (cases "cells h a")
    case None
    then show ?thesis by simp
  next
    case (Some c)
    have "lseg h p ((a # as) @ bs) q xs \<longleftrightarrow> p = Some a \<and>
        (\<exists>ys. xs = (le_item c, le_key c) # ys \<and>
          (\<exists>m us vs. ys = us @ vs \<and> lseg h (le_next c) as m us \<and> lseg h m bs q vs))"
      using Some Cons.IH by simp
    also have "\<dots> \<longleftrightarrow> (\<exists>m us vs. xs = us @ vs \<and> lseg h p (a # as) m us \<and> lseg h m bs q vs)"
      using Some by simp (metis append_Cons)
    finally show ?thesis .
  qed
qed

lemma lseg_length: "lseg h p as q xs \<Longrightarrow> length as = length xs"
  by (induction as arbitrary: p xs) auto

lemma lseg_dom: "lseg h p as q xs \<Longrightarrow> set as \<subseteq> dom (cells h)"
  by (induction as arbitrary: p xs) fastforce+

lemma lseg_cong:
  "(\<And>a. a \<in> set as \<Longrightarrow> cells h' a = cells h a) \<Longrightarrow> lseg h' p as q xs = lseg h p as q xs"
  by (induction as arbitrary: p xs) auto

lemma load_Some [simp]: "cells h a = Some c \<Longrightarrow> load h (Some a) = Inr c"
  by (simp add: load_def)

lemma set_next_Some [simp]:
  "cells h a = Some c \<Longrightarrow>
   set_next (Some a) q h = Inr (h\<lparr>cells := (cells h)(a \<mapsto> c\<lparr>le_next := q\<rparr>)\<rparr>)"
  by (simp add: set_next_def)

lemma lrepI:
  assumes "lseg h (lfirst l) as None xs" "distinct as" "dom (cells h) \<subseteq> {..<brk h}"
    and "llast l = (if as = [] then None else Some (last as))"
  shows "lrep (h, l) as xs"
  using assms by (simp add: lrep_def)

lemma lrepD:
  assumes "lrep (h, l) as xs"
  shows "lseg h (lfirst l) as None xs" "distinct as" "dom (cells h) \<subseteq> {..<brk h}"
    and "llast l = (if as = [] then None else Some (last as))"
    and "set as \<subseteq> dom (cells h)" "length as = length xs" "brk h \<notin> set as"
proof -
  show seg: "lseg h (lfirst l) as None xs" and "distinct as"
    and dom: "dom (cells h) \<subseteq> {..<brk h}"
    and "llast l = (if as = [] then None else Some (last as))"
    using assms by (simp_all add: lrep_def)
  show sub: "set as \<subseteq> dom (cells h)" using seg by (rule lseg_dom)
  show "length as = length xs" using seg by (rule lseg_length)
  show "brk h \<notin> set as" using sub dom by auto
qed

lemma lrep_IsEmpty: "lrep (h, l) as xs \<Longrightarrow> IsEmpty l \<longleftrightarrow> xs = []"
  by (cases as) (auto simp: lrep_def IsEmpty_def)

lemma lrep_Nil_iff: "lrep (h, l) [] xs \<longleftrightarrow>
    xs = [] \<and> lfirst l = None \<and> llast l = None \<and> dom (cells h) \<subseteq> {..<brk h}"
  by (auto simp: lrep_def)

section \<open>Every operation refines the operation on sequences\<close>

lemma ListElement_new_cells [simp]:
  "cells (snd (ListElement_new x k h)) =
     (cells h)(brk h \<mapsto> \<lparr>le_next = None, le_key = k, le_item = x\<rparr>)"
  "brk (snd (ListElement_new x k h)) = Suc (brk h)"
  "fst (ListElement_new x k h) = brk h"
  by (simp_all add: ListElement_new_def)

lemma lseg_new_cell:
  "brk h \<notin> set as \<Longrightarrow> lseg (snd (ListElement_new x k h)) p as q xs = lseg h p as q xs"
  by (rule lseg_cong) auto

lemma lseg_unrelated:
  "a \<notin> set as \<Longrightarrow> lseg (h\<lparr>cells := (cells h)(a \<mapsto> c)\<rparr>) p as q xs = lseg h p as q xs"
  by (rule lseg_cong) auto

lemma lseg_relink:
  assumes "lseg h p (bs @ [a]) m ys" "a \<notin> set bs" "cells h a = Some c"
  shows "lseg (h\<lparr>cells := (cells h)(a \<mapsto> c\<lparr>le_next := q\<rparr>)\<rparr>) p (bs @ [a]) q ys"
proof -
  let ?h' = "h\<lparr>cells := (cells h)(a \<mapsto> c\<lparr>le_next := q\<rparr>)\<rparr>"
  from assms(1,3) obtain us where "ys = us @ [(le_item c, le_key c)]"
    and us: "lseg h p bs (Some a) us"
    by (auto simp: lseg_append)
  moreover have "lseg ?h' p bs (Some a) us"
    unfolding lseg_unrelated [OF assms(2)] by (rule us)
  ultimately show ?thesis by (auto simp: lseg_append)
qed

text \<open>
  The common end of \<^verbatim>\<open>Append\<close> and \<^verbatim>\<open>SortedInsert\<close>: linking a fresh cell behind the last one.
\<close>

lemma lrep_link_last:
  assumes rep: "lrep (h, l) as xs" and ne: "xs \<noteq> []"
    and h1: "h1 = snd (ListElement_new x k h)"
  shows "\<exists>h2. set_next (llast l) (Some (brk h)) h1 = Inr h2 \<and>
    lrep (h2, l\<lparr>llast := Some (brk h)\<rparr>) (as @ [brk h]) (xs @ [(x, k)]) \<and>
    list_frame (set as) h h2 \<and> brk h2 = Suc (brk h)"
proof -
  note R = lrepD [OF rep]
  from ne R(6) obtain bs a where as: "as = bs @ [a]" by (cases as rule: rev_cases) auto
  with R(5) obtain c where c: "cells h a = Some c" by auto
  have ne2: "a \<noteq> brk h" "brk h \<notin> set bs" "a \<notin> set bs" using R(7) R(2) as by auto
  have c1: "cells h1 a = Some c" using c h1 ne2 by simp
  let ?h2 = "h1\<lparr>cells := (cells h1)(a \<mapsto> c\<lparr>le_next := Some (brk h)\<rparr>)\<rparr>"
  have "lseg h1 (lfirst l) (bs @ [a]) None xs"
    unfolding h1 as [symmetric] lseg_new_cell [OF R(7)] by (rule R(1))
  then have "lseg ?h2 (lfirst l) (bs @ [a]) (Some (brk h)) xs"
    by (rule lseg_relink) (use ne2 c1 in auto)
  moreover have "lseg ?h2 (Some (brk h)) [brk h] None [(x, k)]"
    using ne2 h1 by simp
  ultimately have "lseg ?h2 (lfirst l) (as @ [brk h]) None (xs @ [(x, k)])"
    unfolding as lseg_append [of _ _ "bs @ [a]"] by blast
  moreover have "dom (cells ?h2) \<subseteq> {..<brk ?h2}"
    using R(3) c h1 by auto
  ultimately have "lrep (?h2, l\<lparr>llast := Some (brk h)\<rparr>) (as @ [brk h]) (xs @ [(x, k)])"
    using R(2,7) by (intro lrepI) auto
  moreover have "set_next (llast l) (Some (brk h)) h1 = Inr ?h2"
    using R(4) as c1 by simp
  moreover have "list_frame (set as) h ?h2"
    using as h1 by (auto simp: list_frame_def)
  ultimately show ?thesis using h1 by simp
qed

lemma lrep_first_cell:
  assumes rep: "lrep (h, l) [] []" and h1: "h1 = snd (ListElement_new x k h)"
  shows "lrep (h1, l\<lparr>lfirst := Some (brk h), llast := Some (brk h)\<rparr>) [brk h] [(x, k)] \<and>
    list_frame {} h h1 \<and> brk h1 = Suc (brk h)"
  using lrepD(3) [OF rep] h1 by (auto simp: lrep_def list_frame_def)

text \<open>Putting a fresh cell in front, as \<^verbatim>\<open>Prepend\<close> and \<^verbatim>\<open>SortedInsert\<close> do.\<close>

lemma lrep_link_first:
  assumes rep: "lrep (h, l) as xs" and ne: "xs \<noteq> []"
    and h1: "h1 = snd (ListElement_new x k h)"
  shows "\<exists>h2. set_next (Some (brk h)) (lfirst l) h1 = Inr h2 \<and>
    lrep (h2, l\<lparr>lfirst := Some (brk h)\<rparr>) (brk h # as) ((x, k) # xs) \<and>
    list_frame {} h h2 \<and> brk h2 = Suc (brk h)"
proof -
  note R = lrepD [OF rep]
  let ?c = "\<lparr>le_next = lfirst l, le_key = k, le_item = x\<rparr>"
  let ?h2 = "h1\<lparr>cells := (cells h1)(brk h \<mapsto> ?c)\<rparr>"
  have "lseg ?h2 (lfirst l) as None xs"
    unfolding h1 lseg_unrelated [OF R(7)] lseg_new_cell [OF R(7)] by (rule R(1))
  then have "lrep (?h2, l\<lparr>lfirst := Some (brk h)\<rparr>) (brk h # as) ((x, k) # xs)"
    using R ne h1 by (intro lrepI) auto
  moreover have "set_next (Some (brk h)) (lfirst l) h1 = Inr ?h2"
    using h1 by (simp add: set_next_def)
  moreover have "list_frame {} h ?h2" "brk ?h2 = Suc (brk h)"
    using h1 by (auto simp: list_frame_def)
  ultimately show ?thesis by blast
qed

lemma Append_refines:
  assumes "lrep (h, l) as xs"
  shows "\<exists>h' l'. Append x (h, l) = Inr (h', l') \<and> lrep (h', l') (as @ [brk h]) (xs @ [(x, 0)]) \<and>
    list_frame (set as) h h' \<and> brk h' = Suc (brk h)"
proof (cases "xs = []")
  case True
  then have "as = []" using lrepD(6) [OF assms] by simp
  then show ?thesis
    using assms True lrep_first_cell [of h l _ x 0] lrep_IsEmpty [OF assms]
    by (auto simp: split_beta Let_def)
next
  case False
  then show ?thesis
    using lrep_link_last [OF assms False refl, of x 0] lrep_IsEmpty [OF assms]
    by (auto simp: split_beta Let_def)
qed

lemma Prepend_refines:
  assumes "lrep (h, l) as xs"
  shows "\<exists>h' l'. Prepend x (h, l) = Inr (h', l') \<and> lrep (h', l') (brk h # as) ((x, 0) # xs) \<and>
    list_frame {} h h' \<and> brk h' = Suc (brk h)"
proof (cases "xs = []")
  case True
  then have "as = []" using lrepD(6) [OF assms] by simp
  then show ?thesis
    using assms True lrep_first_cell [of h l _ x 0] lrep_IsEmpty [OF assms]
    by (auto simp: split_beta Let_def)
next
  case False
  then show ?thesis
    using lrep_link_first [OF assms False refl, of x 0] lrep_IsEmpty [OF assms]
    by (auto simp: split_beta Let_def)
qed

lemma seq_insert_split:
  assumes "\<forall>y \<in> set ys. snd y \<le> k" "zs = [] \<or> k < snd (hd zs)"
  shows "seq_insert x k (ys @ zs) = ys @ (x, k) # zs"
  using assms by (cases zs) (auto simp: seq_insert_def)

lemma lrep_link_middle:
  assumes rep: "lrep (h, l) (bs @ p # q # cs) (ys @ zs)" and len: "length ys = Suc (length bs)"
    and h1: "h1 = snd (ListElement_new x k h)" and cp: "cells h p = Some c"
  shows "\<exists>h2 h3. set_next (Some (brk h)) (Some q) h1 = Inr h2 \<and>
    set_next (Some p) (Some (brk h)) h2 = Inr h3 \<and>
    lrep (h3, l) (bs @ p # brk h # q # cs) (ys @ (x, k) # zs) \<and>
    list_frame (set (bs @ p # q # cs)) h h3 \<and> brk h3 = Suc (brk h)"
proof -
  note R = lrepD [OF rep]
  have ne: "p \<noteq> brk h" "brk h \<notin> set (bs @ [p])" "brk h \<notin> set (q # cs)" "p \<notin> set bs" "p \<notin> set (q # cs)"
    using R(2,7) by auto
  have "lseg h (lfirst l) ((bs @ [p]) @ (q # cs)) None (ys @ zs)" using R(1) by simp
  then obtain m us vs where split: "ys @ zs = us @ vs"
    and us: "lseg h (lfirst l) (bs @ [p]) m us" and vs: "lseg h m (q # cs) None vs"
    unfolding lseg_append [of _ _ "bs @ [p]"] by blast
  have "length us = length ys" using lseg_length [OF us] len by simp
  with split have eq: "us = ys" "vs = zs" by simp_all
  have m: "m = Some q" using vs by simp
  let ?ce = "\<lparr>le_next = Some q, le_key = k, le_item = x\<rparr>"
  let ?h2 = "h1\<lparr>cells := (cells h1)(brk h \<mapsto> ?ce)\<rparr>"
  let ?h3 = "?h2\<lparr>cells := (cells ?h2)(p \<mapsto> c\<lparr>le_next := Some (brk h)\<rparr>)\<rparr>"
  have cp2: "cells ?h2 p = Some c" using cp ne h1 by simp
  have "lseg ?h2 (lfirst l) (bs @ [p]) m us"
    unfolding h1 lseg_unrelated [OF ne(2)] lseg_new_cell [OF ne(2)] by (rule us)
  then have s1: "lseg ?h3 (lfirst l) (bs @ [p]) (Some (brk h)) ys"
    unfolding eq by (rule lseg_relink) (use ne cp2 in auto)
  have "lseg ?h3 m (q # cs) None vs"
    unfolding h1 lseg_unrelated [OF ne(5)] lseg_unrelated [OF ne(3)] lseg_new_cell [OF ne(3)]
    by (rule vs)
  then have s2: "lseg ?h3 (Some (brk h)) (brk h # q # cs) None ((x, k) # zs)"
    using ne m eq by simp
  have "lseg ?h3 (lfirst l) ((bs @ [p]) @ brk h # q # cs) None (ys @ (x, k) # zs)"
    unfolding lseg_append [of _ _ "bs @ [p]"] using s1 s2 by blast
  then have "lseg ?h3 (lfirst l) (bs @ p # brk h # q # cs) None (ys @ (x, k) # zs)"
    by (simp only: append_assoc append_Cons append_Nil)
  moreover have "distinct (bs @ p # brk h # q # cs)" using R(2,7) by auto
  moreover have "dom (cells ?h3) \<subseteq> {..<brk ?h3}"
    using R(3) cp unfolding h1 by auto
  moreover have "llast l = (if bs @ p # brk h # q # cs = [] then None
      else Some (last (bs @ p # brk h # q # cs)))"
    using R(4) by simp
  ultimately have "lrep (?h3, l) (bs @ p # brk h # q # cs) (ys @ (x, k) # zs)"
    by (rule lrepI)
  moreover have "set_next (Some (brk h)) (Some q) h1 = Inr ?h2"
    using h1 by (simp add: set_next_def)
  moreover have "set_next (Some p) (Some (brk h)) ?h2 = Inr ?h3"
    using cp2 by simp
  moreover have "list_frame (set (bs @ p # q # cs)) h ?h3" "brk ?h3 = Suc (brk h)"
    using h1 by (auto simp: list_frame_def)
  ultimately show ?thesis by blast
qed

lemma lseg_cell:
  assumes "lseg h s (bs @ p # cs) None xs" "length ys = length bs" "xs = ys @ z # zs"
  shows "\<exists>c. cells h p = Some c \<and> z = (le_item c, le_key c) \<and>
    le_next c = (case cs of [] \<Rightarrow> None | q # _ \<Rightarrow> Some q)"
proof -
  from assms(1) obtain m us vs where xs: "xs = us @ vs" and us: "lseg h s bs m us"
    and vs: "lseg h m (p # cs) None vs"
    unfolding lseg_append by blast
  have "length us = length ys" using assms(2) lseg_length [OF us] by simp
  then have "vs = z # zs" using xs unfolding assms(3) by (simp add: append_eq_append_conv)
  with vs show ?thesis by (cases cs) auto
qed

lemma SortedInsert_loop_refines:
  assumes rep: "lrep (h, l) (bs @ p # cs) (ys @ zs)" and len: "length ys = Suc (length bs)"
    and le: "\<forall>y \<in> set ys. snd y \<le> k" and fuel: "length cs < fuel"
    and h1: "h1 = snd (ListElement_new x k h)"
  shows "\<exists>h2 l2 as2. SortedInsert_loop fuel (brk h) k (Some p) (h1, l) = Inr (h2, l2) \<and>
    lrep (h2, l2) as2 (seq_insert x k (ys @ zs)) \<and>
    list_frame (set (bs @ p # cs)) h h2 \<and> brk h2 = Suc (brk h)"
  using assms(1-4)
proof (induction cs arbitrary: bs p ys zs fuel)
  case Nil
  note R = lrepD [OF Nil.prems(1)]
  obtain n where n: "fuel = Suc n" using Nil.prems(4) by (cases fuel) auto
  obtain ys' y where ys: "ys = ys' @ [y]" "length ys' = length bs"
    using Nil.prems(2) by (cases ys rule: rev_cases) auto
  have zs: "zs = []" using R(6) Nil.prems(2) by simp
  obtain c where c: "cells h p = Some c" "le_next c = None"
    using lseg_cell [OF R(1) ys(2), of y zs] ys zs by auto
  have c1: "cells h1 p = Some c" using c R(7) h1 by auto
  have ne: "ys @ zs \<noteq> []" using ys by simp
  show ?case
    using lrep_link_last [OF Nil.prems(1) ne h1] c1 c n zs
      seq_insert_split [of ys k "[]" x] Nil.prems(3)
    by auto
next
  case (Cons q cs)
  note R = lrepD [OF Cons.prems(1)]
  obtain n where n: "fuel = Suc n" "length cs < n" using Cons.prems(4) by (cases fuel) auto
  obtain ys' y where ys: "ys = ys' @ [y]" "length ys' = length bs"
    using Cons.prems(2) by (cases ys rule: rev_cases) auto
  obtain z zs' where zs: "zs = z # zs'" using R(6) Cons.prems(2) by (cases zs) auto
  obtain c where c: "cells h p = Some c" "le_next c = Some q"
    using lseg_cell [OF R(1) ys(2), of y zs] ys by auto
  obtain d where d: "cells h q = Some d" "z = (le_item d, le_key d)"
    using lseg_cell [of h "lfirst l" "bs @ [p]" q cs _ ys z zs'] R(1) zs Cons.prems(2) by auto
  have cd: "cells h1 p = Some c" "cells h1 q = Some d" using c d R(7) h1 by auto
  show ?case
  proof (cases "k < le_key d")
    case True
    then have "seq_insert x k (ys @ zs) = ys @ (x, k) # zs"
      using Cons.prems(3) zs d by (intro seq_insert_split) auto
    then show ?thesis
      using lrep_link_middle [OF Cons.prems(1,2) h1 c(1)] True n cd c by auto
  next
    case False
    have "\<exists>h2 l2 as2. SortedInsert_loop n (brk h) k (Some q) (h1, l) = Inr (h2, l2) \<and>
      lrep (h2, l2) as2 (seq_insert x k ((ys @ [z]) @ zs')) \<and>
      list_frame (set ((bs @ [p]) @ q # cs)) h h2 \<and> brk h2 = Suc (brk h)"
      using Cons.prems zs d False n by (intro Cons.IH) auto
    then show ?thesis using False n cd c zs by simp
  qed
qed

lemma SortedInsert_refines:
  assumes rep: "lrep (h, l) as xs"
  shows "\<exists>h' l' as'. SortedInsert x k (h, l) = Inr (h', l') \<and> lrep (h', l') as' (seq_insert x k xs) \<and>
    list_frame (set as) h h' \<and> brk h' = Suc (brk h)"
proof (cases xs)
  case Nil
  then have "as = []" using lrepD(6) [OF rep] by simp
  then show ?thesis
    using rep Nil lrep_first_cell [of h l _ x k] lrep_IsEmpty [OF rep]
    by (auto simp: split_beta Let_def seq_insert_def)
next
  case (Cons y ys)
  note R = lrepD [OF rep]
  obtain p cs where as: "as = p # cs" using Cons R(6) by (cases as) auto
  obtain c where c: "cells h p = Some c" "lfirst l = Some p" "y = (le_item c, le_key c)"
    using R(1) as Cons by auto
  have c1: "cells (snd (ListElement_new x k h)) p = Some c" using c R(7) as by auto
  have E: "\<not> IsEmpty l" using Cons lrep_IsEmpty [OF rep] by simp
  show ?thesis
  proof (cases "k < le_key c")
    case True
    have "seq_insert x k xs = (x, k) # xs"
      using seq_insert_split [of "[]" k xs x] True Cons c by simp
    moreover have "list_frame (set as) h h2" if "list_frame {} h h2" for h2
      using that by (auto simp: list_frame_def)
    ultimately show ?thesis
      using lrep_link_first [OF rep _ refl, of x k] True Cons c c1 E
      by (auto simp: split_beta Let_def)
  next
    case False
    have "length cs < Suc (brk h)"
    proof -
      have "card (set cs) \<le> card {..<brk h}" using R(3,5) as by (intro card_mono) auto
      then show ?thesis using R(2) as by (simp add: distinct_card)
    qed
    then obtain h2 l2 as2 where
      "SortedInsert_loop (Suc (brk h)) (brk h) k (Some p) (snd (ListElement_new x k h), l) = Inr (h2, l2)"
      "lrep (h2, l2) as2 (seq_insert x k xs)" "list_frame (set as) h h2" "brk h2 = Suc (brk h)"
      using SortedInsert_loop_refines [of h l "[]" p cs "[y]" ys k "Suc (brk h)" _ x]
        rep False Cons c as by auto
    then show ?thesis
      using False c c1 E
      by (auto simp: split_beta Let_def simp del: SortedInsert_loop.simps)
  qed
qed

lemma SortedRemove_Nil:
  "lrep (h, l) as [] \<Longrightarrow> SortedRemove (h, l) = Inr (None, (h, l))"
  using lrep_IsEmpty [of h l as "[]"] by simp

lemma SortedRemove_Cons:
  assumes rep: "lrep (h, l) as (y # ys)"
  shows "\<exists>h' l'. SortedRemove (h, l) = Inr (Some y, (h', l')) \<and> lrep (h', l') (tl as) ys \<and>
    list_frame (set as) h h' \<and> brk h' = brk h \<and> dom (cells h') = dom (cells h) - {hd as}"
proof -
  note R = lrepD [OF rep]
  obtain p cs where as: "as = p # cs" using R(6) by (cases as) auto
  obtain c where c: "cells h p = Some c" "lfirst l = Some p" "y = (le_item c, le_key c)"
    and seg: "lseg h (le_next c) cs None ys"
    using R(1) as by auto
  let ?h' = "h\<lparr>cells := (cells h)(p := None)\<rparr>"
  let ?l' = "if lfirst l = llast l then l\<lparr>lfirst := None, llast := None\<rparr>
             else l\<lparr>lfirst := le_next c\<rparr>"
  have "p \<notin> set cs" using R(2) as by simp
  then have "lseg ?h' (le_next c) cs None ys = lseg h (le_next c) cs None ys"
    by (intro lseg_cong) auto
  with seg have seg': "lseg ?h' (le_next c) cs None ys" by simp
  have one: "lfirst l = llast l \<longleftrightarrow> cs = []"
    using c R(4) as \<open>p \<notin> set cs\<close> last_in_set [of cs] by auto
  have "lrep (?h', ?l') cs ys"
    using seg' one R(2,3,4) as by (intro lrepI) (auto split: if_splits)
  moreover have "SortedRemove (h, l) = Inr (Some y, (?h', ?l'))"
    using c lrep_IsEmpty [OF rep] by (simp add: delete_cell_def Let_def)
  ultimately show ?thesis using as by (auto simp: list_frame_def)
qed

lemma Remove_Nil: "lrep (h, l) as [] \<Longrightarrow> Remove (h, l) = Inr (None, (h, l))"
  by (simp add: Remove_def SortedRemove_Nil del: SortedRemove.simps)

lemma Remove_Cons:
  assumes "lrep (h, l) as (y # ys)"
  shows "\<exists>h' l'. Remove (h, l) = Inr (Some (fst y), (h', l')) \<and> lrep (h', l') (tl as) ys \<and>
    list_frame (set as) h h' \<and> brk h' = brk h \<and> dom (cells h') = dom (cells h) - {hd as}"
  using SortedRemove_Cons [OF assms] by (auto simp: Remove_def simp del: SortedRemove.simps)

lemma lrep_length_bound: "lrep (h, l) as xs \<Longrightarrow> length xs \<le> brk h"
proof -
  assume rep: "lrep (h, l) as xs"
  note R = lrepD [OF rep]
  have "card (set as) \<le> card {..<brk h}" using R(3,5) by (intro card_mono) auto
  then show ?thesis using R(2,6) by (simp add: distinct_card)
qed

lemma Mapcar_loop_items:
  "lseg h p as None xs \<Longrightarrow> length as < fuel \<Longrightarrow> Mapcar_loop fuel h p = Inr (map fst xs)"
proof (induction as arbitrary: p xs fuel)
  case Nil
  then show ?case by (cases fuel) auto
next
  case (Cons a as)
  then show ?case by (cases fuel) auto
qed

lemma List_delete_loop_empties:
  "lrep (h, l) as xs \<Longrightarrow> length xs < fuel \<Longrightarrow>
   \<exists>h' l'. List_delete_loop fuel (h, l) = Inr (h', l') \<and> lrep (h', l') [] [] \<and>
     dom (cells h') = dom (cells h) - set as \<and> list_frame (set as) h h'"
proof (induction xs arbitrary: h l as fuel)
  case Nil
  then obtain n where "fuel = Suc n" by (cases fuel) auto
  moreover have "as = []" using lrepD(6) [OF Nil.prems(1)] by simp
  ultimately show ?case
    using Nil.prems Remove_Nil [OF Nil.prems(1)] by (auto simp: list_frame_def)
next
  case (Cons y ys)
  obtain n where n: "fuel = Suc n" "length ys < n" using Cons.prems(2) by (cases fuel) auto
  obtain p cs where as: "as = p # cs" using lrepD(6) [OF Cons.prems(1)] by (cases as) auto
  obtain h1 l1 where r: "Remove (h, l) = Inr (Some (fst y), (h1, l1))" "lrep (h1, l1) cs ys"
    "list_frame (set as) h h1" "brk h1 = brk h" "dom (cells h1) = dom (cells h) - {p}"
    using Remove_Cons [OF Cons.prems(1)] as by auto
  obtain h2 l2 where "List_delete_loop n (h1, l1) = Inr (h2, l2)" "lrep (h2, l2) [] []"
    "dom (cells h2) = dom (cells h1) - set cs" "list_frame (set cs) h1 h2"
    using Cons.IH [OF r(2) n(2)] by auto
  with r n as show ?case by (auto simp: list_frame_def)
qed

section \<open>The interface the kernel relies on\<close>

text \<open>
  What the clients of the list (ready list, semaphore queues, pending interrupts) rely on:
  a representation relation and the effect of each operation on the represented sequence.
\<close>

locale kernel_queue =
  fixes rep :: "'s \<Rightarrow> ('a \<times> int) list \<Rightarrow> bool"
    and append :: "'a \<Rightarrow> 's \<Rightarrow> 's res"
    and sorted_insert :: "'a \<Rightarrow> int \<Rightarrow> 's \<Rightarrow> 's res"
    and sorted_remove :: "'s \<Rightarrow> (('a \<times> int) option \<times> 's) res"
  assumes append_rep: "rep s xs \<Longrightarrow> \<exists>s'. append x s = Inr s' \<and> rep s' (xs @ [(x, 0)])"
    and insert_rep: "rep s xs \<Longrightarrow> \<exists>s'. sorted_insert x k s = Inr s' \<and> rep s' (seq_insert x k xs)"
    and remove_Nil_rep: "rep s [] \<Longrightarrow> \<exists>s'. sorted_remove s = Inr (None, s') \<and> rep s' []"
    and remove_Cons_rep: "rep s (y # ys) \<Longrightarrow> \<exists>s'. sorted_remove s = Inr (Some y, s') \<and> rep s' ys"

text \<open>Client programs over the interface: a run of inserts and a run of removals.\<close>

fun append_all :: "('a \<Rightarrow> 's \<Rightarrow> 's res) \<Rightarrow> 'a list \<Rightarrow> 's \<Rightarrow> 's res" where
  "append_all app [] s = Inr s"
| "append_all app (x # xs) s = andThen (app x s) (append_all app xs)"

fun insert_all :: "('a \<Rightarrow> int \<Rightarrow> 's \<Rightarrow> 's res) \<Rightarrow> ('a \<times> int) list \<Rightarrow> 's \<Rightarrow> 's res" where
  "insert_all ins [] s = Inr s"
| "insert_all ins (e # es) s = andThen (ins (fst e) (snd e) s) (insert_all ins es)"

fun remove_n :: "('s \<Rightarrow> (('a \<times> int) option \<times> 's) res) \<Rightarrow> nat \<Rightarrow> 's \<Rightarrow> ('a \<times> int) option list res" where
  "remove_n rem 0 s = Inr []"
| "remove_n rem (Suc n) s = andThen (rem s) (\<lambda>(r, s').
     andThen (remove_n rem n s') (\<lambda>rs. Inr (r # rs)))"

lemma seq_insert_keys: "sorted (map snd xs) \<Longrightarrow> sorted (map snd (seq_insert x k xs))"
proof (induction xs)
  case Nil
  then show ?case by (simp add: seq_insert_def)
next
  case (Cons e xs)
  have set_eq: "set (seq_insert x k xs) = insert (x, k) (set xs)"
    unfolding seq_insert_def using set_takeWhileD takeWhile_dropWhile_id [of "\<lambda>e. snd e \<le> k" xs]
    by (metis Un_insert_right list.simps(15) set_append)
  show ?case
  proof (cases "snd e \<le> k")
    case True
    then have "seq_insert x k (e # xs) = e # seq_insert x k xs" by (simp add: seq_insert_def)
    then show ?thesis using Cons True set_eq by auto
  next
    case False
    then have "seq_insert x k (e # xs) = (x, k) # e # xs" by (simp add: seq_insert_def)
    then show ?thesis using Cons.prems False by auto
  qed
qed

lemma mset_seq_insert: "mset (seq_insert x k xs) = add_mset (x, k) (mset xs)"
  unfolding seq_insert_def
  using arg_cong [OF takeWhile_dropWhile_id [of "\<lambda>e. snd e \<le> k" xs], of mset]
  by (simp add: union_code)

lemma filter_seq_insert:
  assumes "sorted (map snd xs)"
  shows "filter (\<lambda>e. j = snd e) (seq_insert x k xs) =
    filter (\<lambda>e. j = snd e) xs @ (if j = k then [(x, k)] else [])"
  using assms
proof (induction xs)
  case Nil
  then show ?case by (simp add: seq_insert_def)
next
  case (Cons e xs)
  show ?case
  proof (cases "snd e \<le> k")
    case True
    then have "seq_insert x k (e # xs) = e # seq_insert x k xs" by (simp add: seq_insert_def)
    then show ?thesis using Cons by auto
  next
    case False
    have "filter (\<lambda>e. k = snd e) (e # xs) = []"
      using Cons.prems False by (auto simp: filter_empty_conv)
    then show ?thesis using False by (auto simp: seq_insert_def)
  qed
qed

text \<open>Inserting one after the other is a stable sort by key.\<close>

lemma fold_seq_insert_stable:
  "fold (\<lambda>e. seq_insert (fst e) (snd e)) es [] = sort_key snd es"
proof -
  let ?ins = "\<lambda>es. fold (\<lambda>e. seq_insert (fst e) (snd e)) es []"
  have P: "sorted (map snd (?ins es)) \<and> mset (?ins es) = mset es \<and>
      (\<forall>j. filter (\<lambda>e. j = snd e) (?ins es) = filter (\<lambda>e. j = snd e) es)"
  proof (induction es rule: rev_induct)
    case Nil
    then show ?case by simp
  next
    case (snoc e es)
    then show ?case by (auto simp: seq_insert_keys mset_seq_insert filter_seq_insert)
  qed
  then show ?thesis by (intro properties_for_sort_key [symmetric]) auto
qed

context kernel_queue begin

lemma append_all_rep:
  "rep s xs \<Longrightarrow> \<exists>s'. append_all append ys s = Inr s' \<and> rep s' (xs @ map (\<lambda>y. (y, 0)) ys)"
proof (induction ys arbitrary: s xs)
  case Nil
  then show ?case by simp
next
  case (Cons y ys)
  obtain s1 where "append y s = Inr s1" "rep s1 (xs @ [(y, 0)])"
    using append_rep [OF Cons.prems] by blast
  with Cons.IH [of s1] show ?case by fastforce
qed

lemma insert_all_rep:
  "rep s xs \<Longrightarrow> \<exists>s'. insert_all sorted_insert es s = Inr s' \<and>
     rep s' (fold (\<lambda>e. seq_insert (fst e) (snd e)) es xs)"
proof (induction es arbitrary: s xs)
  case Nil
  then show ?case by simp
next
  case (Cons e es)
  obtain s1 where "sorted_insert (fst e) (snd e) s = Inr s1" "rep s1 (seq_insert (fst e) (snd e) xs)"
    using insert_rep [OF Cons.prems] by blast
  with Cons.IH [of s1] show ?case by fastforce
qed

lemma remove_n_rep:
  "rep s xs \<Longrightarrow> remove_n sorted_remove n s =
     Inr (map Some (take n xs) @ replicate (n - length xs) None)"
proof (induction n arbitrary: s xs)
  case 0
  then show ?case by simp
next
  case (Suc n)
  show ?case
  proof (cases xs)
    case Nil
    then obtain s1 where "sorted_remove s = Inr (None, s1)" "rep s1 []"
      using Suc.prems remove_Nil_rep by blast
    with Suc.IH [of s1 "[]"] Nil show ?thesis by simp
  next
    case (Cons y ys)
    then obtain s1 where "sorted_remove s = Inr (Some y, s1)" "rep s1 ys"
      using Suc.prems remove_Cons_rep by blast
    with Suc.IH [of s1 ys] Cons show ?thesis by simp
  qed
qed

lemma fifo_order:
  assumes "rep s xs"
  shows "\<exists>s'. append_all append ys s = Inr s' \<and>
    remove_n sorted_remove (length xs + length ys) s' =
      Inr (map Some (xs @ map (\<lambda>y. (y, 0)) ys))"
proof -
  obtain s' where s': "append_all append ys s = Inr s'" "rep s' (xs @ map (\<lambda>y. (y, 0)) ys)"
    using append_all_rep [OF assms] by blast
  then show ?thesis using remove_n_rep [OF s'(2), of "length xs + length ys"] by simp
qed

lemma priority_order:
  assumes "rep s []"
  shows "\<exists>s'. insert_all sorted_insert es s = Inr s' \<and>
    remove_n sorted_remove (length es) s' = Inr (map Some (sort_key snd es))"
proof -
  obtain s' where s': "insert_all sorted_insert es s = Inr s'" "rep s' (sort_key snd es)"
    using insert_all_rep [OF assms, of es] by (auto simp: fold_seq_insert_stable)
  then show ?thesis using remove_n_rep [OF s'(2), of "length es"] by simp
qed

end

text \<open>The pointer implementation satisfies the interface.\<close>

definition heap_rep :: "'a list_state \<Rightarrow> ('a \<times> int) list \<Rightarrow> bool" where
  "heap_rep st xs \<longleftrightarrow> (\<exists>as. lrep st as xs)"

lemma heap_rep_new: "heap_rep (empty_heap, List_new) []"
  unfolding heap_rep_def by (rule exI [of _ "[]"]) (simp add: empty_heap_def List_new_def lrep_Nil_iff)

lemma heap_repE:
  assumes "heap_rep s xs"
  obtains h l as where "s = (h, l)" "lrep (h, l) as xs"
  using assms by (cases s) (auto simp: heap_rep_def)

lemma heap_repI: "lrep st as xs \<Longrightarrow> heap_rep st xs"
  by (auto simp: heap_rep_def)

interpretation heap_list: kernel_queue heap_rep Append SortedInsert SortedRemove
proof unfold_locales
  show "\<exists>s'. Append x s = Inr s' \<and> heap_rep s' (xs @ [(x, 0)])"
    if "heap_rep s xs" for s :: "'a list_state" and xs x
    using that by (rule heap_repE) (metis Append_refines heap_repI)
  show "\<exists>s'. SortedInsert x k s = Inr s' \<and> heap_rep s' (seq_insert x k xs)"
    if "heap_rep s xs" for s :: "'a list_state" and xs x k
    using that by (rule heap_repE) (metis SortedInsert_refines heap_repI)
  show "\<exists>s'. SortedRemove s = Inr (None, s') \<and> heap_rep s' []"
    if "heap_rep s []" for s :: "'a list_state"
    using that by (rule heap_repE) (metis SortedRemove_Nil heap_repI)
  show "\<exists>s'. SortedRemove s = Inr (Some y, s') \<and> heap_rep s' ys"
    if "heap_rep s (y # ys)" for s :: "'a list_state" and y ys
    using that by (rule heap_repE) (metis SortedRemove_Cons heap_repI)
qed

text \<open>
  The sequence operations themselves, total, for the components that keep a queue as the
  sequence it represents.
\<close>

definition seq_append :: "'a \<Rightarrow> ('a \<times> int) list \<Rightarrow> ('a \<times> int) list" where
  "seq_append x q = q @ [(x, 0)]"

fun seq_remove :: "('a \<times> int) list \<Rightarrow> ('a \<times> int) option \<times> ('a \<times> int) list" where
  "seq_remove [] = (None, [])"
| "seq_remove (y # ys) = (Some y, ys)"

interpretation seq_list: kernel_queue "(=)"
  "\<lambda>x q. Inr (seq_append x q)" "\<lambda>x k q. Inr (seq_insert x k q)" "\<lambda>q. Inr (seq_remove q)"
  by unfold_locales (auto simp: seq_append_def)

section \<open>Properties\<close>

text \<open>
  FIFO order of the linked list: starting from the constructor, any run of
  \<^verbatim>\<open>Append\<close>s succeeds, and removing as many items returns exactly the appended items in the
  order they were appended.
\<close>

theorem list_fifo:
  "\<exists>st. append_all Append ys (empty_heap, List_new) = Inr st \<and>
     remove_n SortedRemove (length ys) st = Inr (map (\<lambda>y. Some (y, 0)) ys)"
  using heap_list.fifo_order [OF heap_rep_new, of ys] by (simp add: comp_def)

text \<open>
  Property C27. The sorted list is a stable priority queue: any run of \<^verbatim>\<open>SortedInsert\<close>s on the
  linked list succeeds, and \<^verbatim>\<open>SortedRemove\<close> then returns the items in increasing order of key,
  items with equal keys in the order they were inserted.
\<close>

theorem sorted_list_stable_sort:
  "\<exists>st. insert_all SortedInsert es (empty_heap, List_new) = Inr st \<and>
     remove_n SortedRemove (length es) st = Inr (map Some (sort_key snd es))"
  by (rule heap_list.priority_order [OF heap_rep_new])

text \<open>
  \<^verbatim>\<open>SortedInsert\<close> on the pointer structure terminates without a fault on every
  well-formed list, places the item before the first element with a larger key, and touches no
  cell outside the list.
\<close>

theorem SortedInsert_correct:
  assumes "lrep (h, l) as xs"
  shows "\<exists>h' l' as'. SortedInsert x k (h, l) = Inr (h', l') \<and>
    lrep (h', l') as' (takeWhile (\<lambda>e. snd e \<le> k) xs @ (x, k) # dropWhile (\<lambda>e. snd e \<le> k) xs) \<and>
    (\<forall>a < brk h. a \<notin> set as \<longrightarrow> cells h' a = cells h a)"
  using SortedInsert_refines [OF assms, of x k] by (auto simp: seq_insert_def list_frame_def)

theorem SortedInsert_correct_witness:
  "\<exists>h' l' as'. SortedInsert CHR ''b'' 5
      (\<lparr>cells = [0 \<mapsto> \<lparr>le_next = Some 2, le_key = 5, le_item = CHR ''a''\<rparr>,
                 2 \<mapsto> \<lparr>le_next = None, le_key = 9, le_item = CHR ''c''\<rparr>], brk = 3\<rparr>,
       \<lparr>lfirst = Some 0, llast = Some 2\<rparr>) = Inr (h', l') \<and>
    lrep (h', l') as' [(CHR ''a'', 5), (CHR ''b'', 5), (CHR ''c'', 9)]"
proof -
  have "lrep (\<lparr>cells = [0 \<mapsto> \<lparr>le_next = Some 2, le_key = 5, le_item = CHR ''a''\<rparr>,
                 2 \<mapsto> \<lparr>le_next = None, le_key = 9, le_item = CHR ''c''\<rparr>], brk = 3\<rparr>,
       \<lparr>lfirst = Some 0, llast = Some 2\<rparr>) [0, 2] [(CHR ''a'', 5), (CHR ''c'', 9)]"
    by (rule lrepI) auto
  from SortedInsert_correct [OF this, of "CHR ''b''" 5] show ?thesis by simp blast
qed

text \<open>
  The destructor terminates: from every well-formed list it frees all the cells of
  the list, no others, and leaves the list empty.
\<close>

theorem List_delete_frees_all:
  assumes "lrep (h, l) as xs"
  shows "\<exists>h' l'. List_delete (h, l) = Inr (h', l') \<and> lrep (h', l') [] [] \<and>
    dom (cells h') = dom (cells h) - set as"
  using List_delete_loop_empties [OF assms, of "Suc (brk h)"] lrep_length_bound [OF assms]
  by (auto simp: less_Suc_eq_le simp del: List_delete_loop.simps)

theorem List_delete_frees_all_witness:
  "\<exists>h' l'. List_delete
      (\<lparr>cells = [0 \<mapsto> \<lparr>le_next = None, le_key = 5, le_item = CHR ''a''\<rparr>], brk = 1\<rparr>,
       \<lparr>lfirst = Some 0, llast = Some 0\<rparr>) = Inr (h', l') \<and>
    lrep (h', l') [] [] \<and> dom (cells h') = {}"
proof -
  have "lrep (\<lparr>cells = [0 \<mapsto> \<lparr>le_next = None, le_key = 5, le_item = CHR ''a''\<rparr>], brk = 1\<rparr>,
       \<lparr>lfirst = Some 0, llast = Some 0\<rparr>) [0] [(CHR ''a'', 5)]"
    by (rule lrepI) auto
  from List_delete_frees_all [OF this] show ?thesis by simp
qed

text \<open>\<^verbatim>\<open>Mapcar\<close> calls its argument on every item, in list order.\<close>

lemma Mapcar_items:
  assumes "lrep (h, l) as xs"
  shows "Mapcar (h, l) = Inr (map fst xs)"
  using lrepD(1,6) [OF assms] lrep_length_bound [OF assms]
  by (simp add: Mapcar_loop_items less_Suc_eq_le del: Mapcar_loop.simps)

end
