(* ===== verification/Nachos_Interrupt.thy ===== *)
theory Nachos_Interrupt
  imports Nachos_List
begin

text \<open>
  \<^verbatim>\<open>machine/interrupt.cc\<close>, \<^verbatim>\<open>machine/interrupt.h\<close>, \<^verbatim>\<open>machine/stats.cc\<close>, \<^verbatim>\<open>machine/stats.h\<close> and
  \<^verbatim>\<open>machine/timer.cc\<close>: the simulated interrupt controller, the clock and its accounting, and the
  timer device. The pending list is kept as the sequence the sorted linked list of
  \<open>Nachos_List\<close> represents. The state is an extensible record, so that the devices and the
  kernel that run on top of it extend it; the device handlers and \<^verbatim>\<open>Thread::Yield\<close>, which the
  controller calls back, are arguments. The times are the mathematical integers: the 64-bit
  counters of the simulator advance by at most 1000 per step.
\<close>

section \<open>Data\<close>

datatype IntStatus = IntOff | IntOn

datatype MachineStatus = IdleMode | SystemMode | UserMode

datatype IntType = TimerInt | DiskInt | ConsoleWriteInt | ConsoleReadInt | NetworkSendInt | NetworkRecvInt

type_synonym VoidFunctionPtr = nat \<comment> \<open>address of a handler\<close>

record PendingInterrupt =
  pi_handler :: VoidFunctionPtr
  pi_arg :: int
  pi_when :: int
  pi_type :: IntType

record Statistics =
  totalTicks :: int
  idleTicks :: int
  systemTicks :: int
  userTicks :: int
  numDiskReads :: int
  numDiskWrites :: int
  numConsoleCharsRead :: int
  numConsoleCharsWritten :: int
  numPageFaults :: int
  numPacketsSent :: int
  numPacketsRecvd :: int

record Interrupt =
  level :: IntStatus
  pending :: "(PendingInterrupt \<times> int) list"
  inHandler :: bool
  yieldOnReturn :: bool
  status :: MachineStatus
  stats :: Statistics

definition UserTick :: int where "UserTick = 1"
definition SystemTick :: int where "SystemTick = 10"
definition RotationTime :: int where "RotationTime = 500"
definition SeekTime :: int where "SeekTime = 500"
definition ConsoleTime :: int where "ConsoleTime = 100"
definition NetworkTime :: int where "NetworkTime = 100"
definition TimerTicks :: int where "TimerTicks = 100"

lemmas tick_defs = UserTick_def SystemTick_def RotationTime_def SeekTime_def ConsoleTime_def
  NetworkTime_def TimerTicks_def

definition Statistics_new :: Statistics where
  "Statistics_new = \<lparr>totalTicks = 0, idleTicks = 0, systemTicks = 0, userTicks = 0,
     numDiskReads = 0, numDiskWrites = 0, numConsoleCharsRead = 0, numConsoleCharsWritten = 0,
     numPageFaults = 0, numPacketsSent = 0, numPacketsRecvd = 0\<rparr>"

definition PendingInterrupt_new :: "VoidFunctionPtr \<Rightarrow> int \<Rightarrow> int \<Rightarrow> IntType \<Rightarrow> PendingInterrupt" where
  "PendingInterrupt_new func param time kind =
     \<lparr>pi_handler = func, pi_arg = param, pi_when = time, pi_type = kind\<rparr>"

definition Interrupt_new :: "Statistics \<Rightarrow> Interrupt" where
  "Interrupt_new st = \<lparr>level = IntOff, pending = [], inHandler = False, yieldOnReturn = False,
     status = SystemMode, stats = st\<rparr>"

abbreviation now :: "'x Interrupt_scheme \<Rightarrow> int" where
  "now s \<equiv> totalTicks (stats s)"

section \<open>Operations\<close>

definition ChangeLevel :: "IntStatus \<Rightarrow> IntStatus \<Rightarrow> 'x Interrupt_scheme \<Rightarrow> 'x Interrupt_scheme" where
  "ChangeLevel old nowl s = s\<lparr>level := nowl\<rparr>"

definition Schedule ::
    "VoidFunctionPtr \<Rightarrow> int \<Rightarrow> int \<Rightarrow> IntType \<Rightarrow> 'x Interrupt_scheme \<Rightarrow> 'x Interrupt_scheme res" where
  "Schedule handler arg fromNow type s =
     (let when = now s + fromNow; toOccur = PendingInterrupt_new handler arg when type
      in andThen (ASSERT (fromNow > 0)) (\<lambda>_.
           Inr (s\<lparr>pending := seq_insert toOccur when (pending s)\<rparr>)))"

text \<open>
  \<open>run\<close> calls the handler of a pending interrupt; \<open>delayed\<close> is the call of
  \<^verbatim>\<open>machine->DelayedLoad(0, 0)\<close> that precedes it when user programs are compiled in.
\<close>

definition call_handler ::
    "(PendingInterrupt \<Rightarrow> 'x Interrupt_scheme \<Rightarrow> 'x Interrupt_scheme res) \<Rightarrow>
     ('x Interrupt_scheme \<Rightarrow> 'x Interrupt_scheme res) \<Rightarrow>
     PendingInterrupt \<Rightarrow> 'x Interrupt_scheme \<Rightarrow> 'x Interrupt_scheme res" where
  "call_handler run delayed toOccur s =
     andThen (delayed s) (\<lambda>s1.
     andThen (run toOccur (s1\<lparr>inHandler := True, status := SystemMode\<rparr>)) (\<lambda>s2.
       Inr (s2\<lparr>status := status s, inHandler := False\<rparr>)))"

definition advance_clock :: "int \<Rightarrow> 'x Interrupt_scheme \<Rightarrow> 'x Interrupt_scheme" where
  "advance_clock when s =
     (if when > now s then
        s\<lparr>stats := (stats s)\<lparr>idleTicks := idleTicks (stats s) + (when - now s), totalTicks := when\<rparr>\<rparr>
      else s)"

definition CheckIfDue ::
    "(PendingInterrupt \<Rightarrow> 'x Interrupt_scheme \<Rightarrow> 'x Interrupt_scheme res) \<Rightarrow>
     ('x Interrupt_scheme \<Rightarrow> 'x Interrupt_scheme res) \<Rightarrow>
     bool \<Rightarrow> 'x Interrupt_scheme \<Rightarrow> (bool \<times> 'x Interrupt_scheme) res" where
  "CheckIfDue run delayed advanceClock s =
     andThen (ASSERT (level s = IntOff)) (\<lambda>_.
       case seq_remove (pending s) of
         (None, _) \<Rightarrow> Inr (False, s)
       | (Some (toOccur, when), rest) \<Rightarrow>
           (let s1 = s\<lparr>pending := rest\<rparr>;
                put_back = (\<lambda>s. s\<lparr>pending := seq_insert toOccur when (pending s)\<rparr>) in
            if \<not> advanceClock \<and> when > now s1 then Inr (False, put_back s1)
            else
              let s2 = (if advanceClock then advance_clock when s1 else s1) in
              if status s2 = IdleMode \<and> pi_type toOccur = TimerInt \<and> pending s2 = [] then
                Inr (False, put_back s2)
              else andThen (call_handler run delayed toOccur s2) (\<lambda>s3. Inr (True, s3))))"

text \<open>
  The loop \<^verbatim>\<open>while (CheckIfDue(FALSE));\<close>. Handlers only schedule interrupts for the future, so
  the interrupts that are due when the loop starts bound its length: see \<open>fire_due_total\<close>.
\<close>

fun fire_due ::
    "(PendingInterrupt \<Rightarrow> 'x Interrupt_scheme \<Rightarrow> 'x Interrupt_scheme res) \<Rightarrow>
     ('x Interrupt_scheme \<Rightarrow> 'x Interrupt_scheme res) \<Rightarrow>
     nat \<Rightarrow> 'x Interrupt_scheme \<Rightarrow> 'x Interrupt_scheme res" where
  "fire_due run delayed 0 s = Inl Diverges"
| "fire_due run delayed (Suc fuel) s =
     andThen (CheckIfDue run delayed False s) (\<lambda>(fired, s').
       if fired then fire_due run delayed fuel s' else Inr s')"

definition count_tick :: "'x Interrupt_scheme \<Rightarrow> 'x Interrupt_scheme" where
  "count_tick s =
     (if status s = SystemMode then
        s\<lparr>stats := (stats s)\<lparr>totalTicks := totalTicks (stats s) + SystemTick,
                              systemTicks := systemTicks (stats s) + SystemTick\<rparr>\<rparr>
      else s\<lparr>stats := (stats s)\<lparr>totalTicks := totalTicks (stats s) + UserTick,
                                 userTicks := userTicks (stats s) + UserTick\<rparr>\<rparr>)"

text \<open>\<^verbatim>\<open>OneTick\<close> up to the test of \<^verbatim>\<open>yieldOnReturn\<close>, and the whole of it.\<close>

definition OneTick_fire ::
    "(PendingInterrupt \<Rightarrow> 'x Interrupt_scheme \<Rightarrow> 'x Interrupt_scheme res) \<Rightarrow>
     ('x Interrupt_scheme \<Rightarrow> 'x Interrupt_scheme res) \<Rightarrow>
     'x Interrupt_scheme \<Rightarrow> 'x Interrupt_scheme res" where
  "OneTick_fire run delayed s =
     (let s1 = ChangeLevel IntOn IntOff (count_tick s)
      in andThen (fire_due run delayed (Suc (length (pending s1))) s1) (\<lambda>s2.
           Inr (ChangeLevel IntOff IntOn s2)))"

definition OneTick ::
    "(PendingInterrupt \<Rightarrow> 'x Interrupt_scheme \<Rightarrow> 'x Interrupt_scheme res) \<Rightarrow>
     ('x Interrupt_scheme \<Rightarrow> 'x Interrupt_scheme res) \<Rightarrow>
     ('x Interrupt_scheme \<Rightarrow> 'x Interrupt_scheme res) \<Rightarrow>
     'x Interrupt_scheme \<Rightarrow> 'x Interrupt_scheme res" where
  "OneTick run delayed yield s =
     andThen (OneTick_fire run delayed s) (\<lambda>s3.
       if yieldOnReturn s3 then
         andThen (yield (s3\<lparr>yieldOnReturn := False, status := SystemMode\<rparr>)) (\<lambda>s4.
           Inr (s4\<lparr>status := status s\<rparr>))
       else Inr s3)"

definition SetLevel ::
    "('x Interrupt_scheme \<Rightarrow> 'x Interrupt_scheme res) \<Rightarrow>
     IntStatus \<Rightarrow> 'x Interrupt_scheme \<Rightarrow> (IntStatus \<times> 'x Interrupt_scheme) res" where
  "SetLevel onetick nowl s =
     (let old = level s in
      andThen (ASSERT (nowl = IntOff \<or> \<not> inHandler s)) (\<lambda>_.
        let s1 = ChangeLevel old nowl s in
        if nowl = IntOn \<and> old = IntOff then andThen (onetick s1) (\<lambda>s2. Inr (old, s2))
        else Inr (old, s1)))"

definition Interrupt_Enable ::
    "('x Interrupt_scheme \<Rightarrow> 'x Interrupt_scheme res) \<Rightarrow>
     'x Interrupt_scheme \<Rightarrow> 'x Interrupt_scheme res" where
  "Interrupt_Enable onetick s = andThen (SetLevel onetick IntOn s) (\<lambda>(_, s'). Inr s')"

definition YieldOnReturn :: "'x Interrupt_scheme \<Rightarrow> 'x Interrupt_scheme res" where
  "YieldOnReturn s = andThen (ASSERT (inHandler s)) (\<lambda>_. Inr (s\<lparr>yieldOnReturn := True\<rparr>))"

definition Halt :: "'a res" where
  "Halt = Inl Halted"

definition Idle ::
    "(PendingInterrupt \<Rightarrow> 'x Interrupt_scheme \<Rightarrow> 'x Interrupt_scheme res) \<Rightarrow>
     ('x Interrupt_scheme \<Rightarrow> 'x Interrupt_scheme res) \<Rightarrow>
     'x Interrupt_scheme \<Rightarrow> 'x Interrupt_scheme res" where
  "Idle run delayed s =
     andThen (CheckIfDue run delayed True (s\<lparr>status := IdleMode\<rparr>)) (\<lambda>(fired, s1).
       if fired then
         andThen (fire_due run delayed (Suc (length (pending s1))) s1) (\<lambda>s2.
           Inr (s2\<lparr>yieldOnReturn := False, status := SystemMode\<rparr>))
       else Halt)"

section \<open>The timer device\<close>

record Timer =
  randomize :: bool
  tm_handler :: VoidFunctionPtr
  tm_arg :: int

text \<open>\<^verbatim>\<open>Random()\<close> of the host is the argument \<open>rnd\<close>, a non-negative integer.\<close>

definition TimeOfNextInterrupt :: "Timer \<Rightarrow> nat \<Rightarrow> int" where
  "TimeOfNextInterrupt t rnd =
     (if randomize t then 1 + cmod (int rnd) (TimerTicks * 2) else TimerTicks)"

definition Timer_schedule ::
    "VoidFunctionPtr \<Rightarrow> int \<Rightarrow> Timer \<Rightarrow> nat \<Rightarrow> 'x Interrupt_scheme \<Rightarrow> 'x Interrupt_scheme res" where
  "Timer_schedule self this t rnd s = Schedule self this (TimeOfNextInterrupt t rnd) TimerInt s"

definition Timer_new ::
    "VoidFunctionPtr \<Rightarrow> int \<Rightarrow> VoidFunctionPtr \<Rightarrow> int \<Rightarrow> bool \<Rightarrow> nat \<Rightarrow>
     'x Interrupt_scheme \<Rightarrow> (Timer \<times> 'x Interrupt_scheme) res" where
  "Timer_new self this timerHandler callArg doRandom rnd s =
     (let t = \<lparr>randomize = doRandom, tm_handler = timerHandler, tm_arg = callArg\<rparr>
      in andThen (Timer_schedule self this t rnd s) (\<lambda>s'. Inr (t, s')))"

definition TimerExpired ::
    "VoidFunctionPtr \<Rightarrow> int \<Rightarrow> (VoidFunctionPtr \<Rightarrow> int \<Rightarrow> 'x Interrupt_scheme \<Rightarrow> 'x Interrupt_scheme res) \<Rightarrow>
     Timer \<Rightarrow> nat \<Rightarrow> 'x Interrupt_scheme \<Rightarrow> 'x Interrupt_scheme res" where
  "TimerExpired self this call t rnd s =
     andThen (Timer_schedule self this t rnd s) (\<lambda>s'. call (tm_handler t) (tm_arg t) s')"

text \<open>The kernel's handler for the timer, \<^verbatim>\<open>TimerInterruptHandler\<close> of \<^verbatim>\<open>threads/system.cc\<close>.\<close>

definition TimerInterruptHandler :: "'x Interrupt_scheme \<Rightarrow> 'x Interrupt_scheme res" where
  "TimerInterruptHandler s = (if status s \<noteq> IdleMode then YieldOnReturn s else Inr s)"


text \<open>
  A machine whose only device is the timer, as in the \<^verbatim>\<open>threads\<close> build with \<^verbatim>\<open>-rs\<close>: every
  pending interrupt is the timer's and its handler is \<^verbatim>\<open>TimerInterruptHandler\<close>.
\<close>

definition timer_run ::
    "VoidFunctionPtr \<Rightarrow> Timer \<Rightarrow> nat \<Rightarrow> PendingInterrupt \<Rightarrow> 'x Interrupt_scheme \<Rightarrow> 'x Interrupt_scheme res" where
  "timer_run self t rnd p s = TimerExpired self (pi_arg p) (\<lambda>_ _. TimerInterruptHandler) t rnd s"

section \<open>Invariants of the pending list and of the clock\<close>

definition pending_ok :: "'x Interrupt_scheme \<Rightarrow> bool" where
  "pending_ok s \<longleftrightarrow> sorted (map snd (pending s)) \<and> (\<forall>e \<in> set (pending s). pi_when (fst e) = snd e)"

definition due :: "'x Interrupt_scheme \<Rightarrow> (PendingInterrupt \<times> int) list" where
  "due s = filter (\<lambda>e. snd e \<le> now s) (pending s)"

definition clock_ok :: "'x Interrupt_scheme \<Rightarrow> bool" where
  "clock_ok s \<longleftrightarrow> totalTicks (stats s) = idleTicks (stats s) + systemTicks (stats s) + userTicks (stats s)"

definition same_clock :: "'x Interrupt_scheme \<Rightarrow> 'x Interrupt_scheme \<Rightarrow> bool" where
  "same_clock s s' \<longleftrightarrow> totalTicks (stats s') = totalTicks (stats s) \<and>
     idleTicks (stats s') = idleTicks (stats s) \<and> systemTicks (stats s') = systemTicks (stats s) \<and>
     userTicks (stats s') = userTicks (stats s)"

definition handler_frame :: "'x Interrupt_scheme \<Rightarrow> 'x Interrupt_scheme \<Rightarrow> bool" where
  "handler_frame s s' \<longleftrightarrow> level s' = level s \<and> same_clock s s' \<and> pending_ok s' \<and> due s' = due s"

definition settled :: "'x Interrupt_scheme \<Rightarrow> bool" where
  "settled s \<longleftrightarrow> due s = [] \<or>
     (status s = IdleMode \<and> (\<exists>p k. pending s = [(p, k)] \<and> pi_type p = TimerInt))"

text \<open>The interrupts due are a prefix of a sorted pending list.\<close>

lemma sorted_filter_prefix:
  fixes t :: int
  assumes "sorted (map snd xs)"
  shows "filter (\<lambda>e. snd e \<le> t) xs = takeWhile (\<lambda>e. snd e \<le> t) xs"
  using assms
proof (induction xs)
  case Nil
  then show ?case by simp
next
  case (Cons e xs)
  show ?case
  proof (cases "snd e \<le> t")
    case True
    then show ?thesis using Cons by simp
  next
    case False
    then have "filter (\<lambda>e. snd e \<le> t) xs = []"
      using Cons.prems by (auto simp: filter_empty_conv)
    then show ?thesis using False by simp
  qed
qed

lemma set_seq_insert [simp]: "set (seq_insert x k xs) = insert (x, k) (set xs)"
  using arg_cong [OF mset_seq_insert [of x k xs], of set_mset] by simp

lemma pending_ok_insert:
  "pending_ok s \<Longrightarrow> pi_when p = k \<Longrightarrow> pending_ok (s\<lparr>pending := seq_insert p k (pending s)\<rparr>)"
  by (auto simp: pending_ok_def seq_insert_keys)

lemma filter_seq_insert_future:
  "t < k \<Longrightarrow> filter (\<lambda>e. snd e \<le> t) (seq_insert x k xs) = filter (\<lambda>e. snd e \<le> t) xs" for t :: int
  unfolding seq_insert_def
  using filter_append [of "\<lambda>e. snd e \<le> t" "takeWhile (\<lambda>e. snd e \<le> k) xs" "dropWhile (\<lambda>e. snd e \<le> k) xs"]
  by simp

lemma due_insert:
  "now s < k \<Longrightarrow> due (s\<lparr>pending := seq_insert p k (pending s)\<rparr>) = due s"
  by (simp add: due_def filter_seq_insert_future)

lemma Schedule_frame:
  assumes "pending_ok s" "0 < fromNow"
  shows "\<exists>s'. Schedule h a fromNow ty s = Inr s' \<and> handler_frame s s' \<and>
    inHandler s' = inHandler s \<and> status s' = status s"
proof -
  let ?p = "PendingInterrupt_new h a (now s + fromNow) ty"
  let ?s' = "s\<lparr>pending := seq_insert ?p (now s + fromNow) (pending s)\<rparr>"
  have "pending_ok ?s'"
    by (rule pending_ok_insert [OF assms(1)]) (simp add: PendingInterrupt_new_def)
  moreover have "due ?s' = due s" using assms(2) by (intro due_insert) simp
  ultimately show ?thesis
    using assms(2) by (simp add: Schedule_def Let_def handler_frame_def same_clock_def)
qed

section \<open>What a device handler may do\<close>

text \<open>
  The contract of the device handlers: called with interrupts off, they return, leave the clock
  alone and schedule new interrupts for the future only.
\<close>

locale device_contract =
  fixes run :: "PendingInterrupt \<Rightarrow> 'x Interrupt_scheme \<Rightarrow> 'x Interrupt_scheme res"
    and delayed :: "'x Interrupt_scheme \<Rightarrow> 'x Interrupt_scheme res"
  assumes run_contract: "level s = IntOff \<Longrightarrow> inHandler s \<Longrightarrow> status s = SystemMode \<Longrightarrow> pending_ok s \<Longrightarrow>
      \<exists>s'. run p s = Inr s' \<and> handler_frame s s'"
    and delayed_contract: "level s = IntOff \<Longrightarrow> pending_ok s \<Longrightarrow>
      \<exists>s'. delayed s = Inr s' \<and> handler_frame s s'"
begin

lemma call_handler_frame:
  assumes "level s = IntOff" "pending_ok s"
  shows "\<exists>s'. call_handler run delayed p s = Inr s' \<and> handler_frame s s' \<and> status s' = status s \<and>
    \<not> inHandler s'"
proof -
  obtain s1 where s1: "delayed s = Inr s1" "handler_frame s s1"
    using delayed_contract assms by blast
  let ?s1 = "s1\<lparr>inHandler := True, status := SystemMode\<rparr>"
  have "level ?s1 = IntOff" "inHandler ?s1" "status ?s1 = SystemMode" "pending_ok ?s1"
    using s1(2) assms(1) by (auto simp: handler_frame_def pending_ok_def)
  then obtain s2 where s2: "run p ?s1 = Inr s2" "handler_frame ?s1 s2"
    using run_contract by blast
  have "handler_frame s (s2\<lparr>status := status s, inHandler := False\<rparr>)"
    using s1(2) s2(2) by (auto simp: handler_frame_def same_clock_def pending_ok_def due_def)
  then show ?thesis using s1(1) s2(1) by (simp add: call_handler_def)
qed

lemma CheckIfDue_not_due:
  assumes "level s = IntOff" "pending_ok s" "due s = []"
  shows "\<exists>s'. CheckIfDue run delayed False s = Inr (False, s') \<and> handler_frame s s' \<and>
    status s' = status s \<and> inHandler s' = inHandler s \<and> mset (pending s') = mset (pending s)"
proof (cases "pending s")
  case Nil
  then show ?thesis
    using assms by (auto simp: CheckIfDue_def handler_frame_def same_clock_def)
next
  case (Cons e rest)
  obtain p k where e: "e = (p, k)" by (cases e)
  have k: "now s < k" using assms(3) Cons e by (auto simp: due_def split: if_splits)
  let ?s' = "s\<lparr>pending := seq_insert p k rest\<rparr>"
  have "CheckIfDue run delayed False s = Inr (False, ?s')"
    using assms(1) Cons e k by (simp add: CheckIfDue_def Let_def)
  moreover have "pending_ok ?s'"
    using assms(2) Cons e by (auto simp: pending_ok_def seq_insert_keys)
  moreover have "due ?s' = due s"
    using k assms(3) Cons e by (simp add: due_def filter_seq_insert_future)
  ultimately show ?thesis
    using Cons e by (auto simp: handler_frame_def same_clock_def mset_seq_insert)
qed

lemma CheckIfDue_due:
  assumes "level s = IntOff" "pending_ok s" "due s = (p, k) # ds"
    and "\<not> (status s = IdleMode \<and> pi_type p = TimerInt \<and> tl (pending s) = [])"
  shows "\<exists>s'. CheckIfDue run delayed False s = Inr (True, s') \<and> level s' = IntOff \<and> same_clock s s' \<and>
    pending_ok s' \<and> due s' = ds \<and> status s' = status s \<and> \<not> inHandler s'"
proof -
  have "due s = takeWhile (\<lambda>e. snd e \<le> now s) (pending s)"
    using assms(2) by (simp add: due_def pending_ok_def sorted_filter_prefix)
  then obtain rest where r: "pending s = (p, k) # rest" "k \<le> now s"
    using assms(3) by (cases "pending s") (auto split: if_splits)
  let ?s1 = "s\<lparr>pending := rest\<rparr>"
  have ok1: "pending_ok ?s1" using assms(2) r by (auto simp: pending_ok_def)
  have due1: "due ?s1 = ds" using assms(3) r by (simp add: due_def)
  obtain s' where s': "call_handler run delayed p ?s1 = Inr s'" "handler_frame ?s1 s'"
    "status s' = status s" "\<not> inHandler s'"
    using call_handler_frame [of ?s1 p] assms(1) ok1 by auto
  have "CheckIfDue run delayed False s = Inr (True, s')"
    using assms(1,4) r s'(1) by (auto simp: CheckIfDue_def Let_def)
  then show ?thesis
    using s' due1 assms(1) by (auto simp: handler_frame_def same_clock_def)
qed

lemma fire_due_total:
  assumes "level s = IntOff" "pending_ok s" "length (due s) < fuel"
  shows "\<exists>s'. fire_due run delayed fuel s = Inr s' \<and> level s' = IntOff \<and> same_clock s s' \<and>
    pending_ok s' \<and> settled s' \<and> status s' = status s"
  using assms
proof (induction fuel arbitrary: s)
  case 0
  then show ?case by simp
next
  case (Suc fuel)
  show ?case
  proof (cases "due s")
    case Nil
    then obtain s' where "CheckIfDue run delayed False s = Inr (False, s')" "handler_frame s s'"
      "status s' = status s"
      using CheckIfDue_not_due [OF Suc.prems(1,2)] by blast
    then show ?thesis using Suc.prems Nil by (auto simp: handler_frame_def settled_def)
  next
    case (Cons e ds)
    obtain p k where e: "e = (p, k)" by (cases e)
    show ?thesis
    proof (cases "status s = IdleMode \<and> pi_type p = TimerInt \<and> tl (pending s) = []")
      case True
      then have "pending s = [(p, k)] \<and> k \<le> now s"
        using Cons e by (cases "pending s") (auto simp: due_def split: if_splits)
      then show ?thesis
        using True Suc.prems(1,2) by (simp add: CheckIfDue_def seq_insert_def same_clock_def settled_def
            pending_ok_def)
    next
      case False
      obtain s1 where s1: "CheckIfDue run delayed False s = Inr (True, s1)" "level s1 = IntOff"
        "same_clock s s1" "pending_ok s1" "due s1 = ds" "status s1 = status s"
        using CheckIfDue_due [OF Suc.prems(1,2), of p k ds] Cons e False by blast
      obtain s2 where "fire_due run delayed fuel s1 = Inr s2" "level s2 = IntOff"
        "same_clock s1 s2" "pending_ok s2" "settled s2" "status s2 = status s1"
        using Suc.IH [OF s1(2,4)] s1(5) Cons Suc.prems(3) by auto
      then show ?thesis using s1 by (auto simp: same_clock_def)
    qed
  qed
qed

lemma OneTick_fire_total:
  assumes "pending_ok s" "status s \<noteq> IdleMode"
  shows "\<exists>s'. OneTick_fire run delayed s = Inr s' \<and> level s' = IntOn \<and> pending_ok s' \<and>
    (\<forall>e \<in> set (pending s'). now s' < snd e) \<and> status s' = status s \<and>
    now s' = now s + (if status s = SystemMode then SystemTick else UserTick) \<and>
    (clock_ok s \<longrightarrow> clock_ok s')"
proof -
  let ?s1 = "ChangeLevel IntOn IntOff (count_tick s)"
  have 1: "level ?s1 = IntOff" "pending_ok ?s1" "status ?s1 \<noteq> IdleMode" "status ?s1 = status s"
    using assms by (auto simp: ChangeLevel_def count_tick_def pending_ok_def)
  have "length (due ?s1) < Suc (length (pending ?s1))"
    by (simp add: due_def less_Suc_eq_le)
  then obtain s2 where s2: "fire_due run delayed (Suc (length (pending ?s1))) ?s1 = Inr s2"
    "same_clock ?s1 s2" "pending_ok s2" "settled s2" "status s2 = status ?s1"
    using fire_due_total [OF 1(1,2)] by blast
  then have "due s2 = []" using 1(3) by (simp add: settled_def)
  let ?s' = "ChangeLevel IntOff IntOn s2"
  have run: "OneTick_fire run delayed s = Inr ?s'"
    using s2(1) unfolding OneTick_fire_def Let_def by simp
  have "\<forall>e \<in> set (pending s2). now s2 < snd e"
    using \<open>due s2 = []\<close> by (auto simp: due_def filter_empty_conv not_le)
  moreover have "now s2 = now s + (if status s = SystemMode then SystemTick else UserTick)"
    using s2(2) by (auto simp: same_clock_def ChangeLevel_def count_tick_def)
  moreover have "clock_ok s \<longrightarrow> clock_ok s2"
    using s2(2) by (auto simp: same_clock_def ChangeLevel_def count_tick_def clock_ok_def)
  ultimately show ?thesis
    using run s2(3,5) 1(4) by (auto simp: ChangeLevel_def pending_ok_def clock_ok_def)
qed

lemma Idle_halts:
  assumes "level s = IntOff" "pending s = [] \<or> (\<exists>p k. pending s = [(p, k)] \<and> pi_type p = TimerInt)"
  shows "Idle run delayed s = Inl Halted"
  using assms by (auto simp: Idle_def CheckIfDue_def Halt_def advance_clock_def Let_def)

lemma Idle_wakes:
  assumes "level s = IntOff" "pending_ok s" "pending s = (p, k) # rest"
    and "\<not> (pi_type p = TimerInt \<and> rest = [])"
  shows "\<exists>s'. Idle run delayed s = Inr s' \<and> now s' = max (now s) k \<and> status s' = SystemMode \<and>
    \<not> yieldOnReturn s' \<and> level s' = IntOff \<and> pending_ok s' \<and> (clock_ok s \<longrightarrow> clock_ok s')"
proof -
  let ?s0 = "s\<lparr>status := IdleMode\<rparr>"
  let ?s1 = "advance_clock k (?s0\<lparr>pending := rest\<rparr>)"
  have 1: "level ?s1 = IntOff" "pending_ok ?s1" "now ?s1 = max (now s) k" "clock_ok s \<longrightarrow> clock_ok ?s1"
    using assms by (auto simp: advance_clock_def pending_ok_def clock_ok_def)
  obtain s2 where s2: "call_handler run delayed p ?s1 = Inr s2" "handler_frame ?s1 s2"
    using call_handler_frame [OF 1(1,2)] by blast
  have "CheckIfDue run delayed True ?s0 = Inr (True, s2)"
    using assms s2(1) by (auto simp: CheckIfDue_def Let_def advance_clock_def)
  moreover obtain s3 where "fire_due run delayed (Suc (length (pending s2))) s2 = Inr s3"
    "level s3 = IntOff" "same_clock s2 s3" "pending_ok s3"
    using fire_due_total [of s2 "Suc (length (pending s2))"] s2(2) 1(1)
    by (auto simp: handler_frame_def due_def less_Suc_eq_le)
  ultimately show ?thesis
    using s2(2) 1 by (auto simp: Idle_def handler_frame_def same_clock_def pending_ok_def clock_ok_def)
qed

end

section \<open>The timer satisfies the contract\<close>

lemma TimeOfNextInterrupt_range: "0 < TimeOfNextInterrupt t rnd \<and> TimeOfNextInterrupt t rnd \<le> 2 * TimerTicks"
  using pos_mod_bound [of 200 "int rnd"] pos_mod_sign [of 200 "int rnd"]
  by (auto simp: TimeOfNextInterrupt_def TimerTicks_def)

interpretation timer_machine: device_contract "timer_run self t rnd" Inr for self t rnd
proof unfold_locales
  fix s :: "'x Interrupt_scheme" and p :: PendingInterrupt
  assume a: "level s = IntOff" "inHandler s" "status s = SystemMode" "pending_ok s"
  obtain s1 where s1: "Schedule self (pi_arg p) (TimeOfNextInterrupt t rnd) TimerInt s = Inr s1"
    "handler_frame s s1" "inHandler s1 = inHandler s" "status s1 = status s"
    using Schedule_frame [OF a(4)] TimeOfNextInterrupt_range by blast
  then have "timer_run self t rnd p s = Inr (s1\<lparr>yieldOnReturn := True\<rparr>)"
    using a by (simp add: timer_run_def TimerExpired_def Timer_schedule_def
        TimerInterruptHandler_def YieldOnReturn_def)
  moreover have "handler_frame s (s1\<lparr>yieldOnReturn := True\<rparr>)"
    using s1(2) by (auto simp: handler_frame_def same_clock_def pending_ok_def due_def)
  ultimately show "\<exists>s'. timer_run self t rnd p s = Inr s' \<and> handler_frame s s'" by blast
next
  fix s :: "'x Interrupt_scheme"
  assume "pending_ok s"
  then show "\<exists>s'. Inr s = Inr s' \<and> handler_frame s s'"
    by (simp add: handler_frame_def same_clock_def)
qed

section \<open>Properties\<close>


definition demo_pending :: Interrupt where
  "demo_pending = (Interrupt_new Statistics_new)\<lparr>level := IntOn, pending :=
     [(\<lparr>pi_handler = 1, pi_arg = 0, pi_when = 7, pi_type = TimerInt\<rparr>, 7)]\<rparr>"


text \<open>
  With an empty ready list the machine idles forward to the earliest pending
  interrupt: \<^verbatim>\<open>Idle\<close> returns with the clock at that interrupt's time (or unchanged if it was
  already due), interrupts off, no yield requested, the clock accounts balanced; it never
  stops the machine while an interrupt other than a lone timer is pending.
\<close>

theorem Idle_advances_to_next_interrupt:
  assumes "device_contract run delayed" "level s = IntOff" "pending_ok s" "pending s = (p, k) # rest"
    and "\<not> (pi_type p = TimerInt \<and> rest = [])"
  shows "\<exists>s'. Idle run delayed s = Inr s' \<and> now s' = max (now s) k \<and> status s' = SystemMode \<and>
    \<not> yieldOnReturn s' \<and> level s' = IntOff \<and> pending_ok s' \<and> (clock_ok s \<longrightarrow> clock_ok s')"
  using device_contract.Idle_wakes [OF assms] .

theorem Idle_advances_to_next_interrupt_witness:
  "\<exists>s'. Idle (timer_run 1 \<lparr>randomize = False, tm_handler = 2, tm_arg = 0\<rparr> 0) Inr
      (demo_pending\<lparr>level := IntOff, pending := (\<lparr>pi_handler = 3, pi_arg = 0, pi_when = 7, pi_type = DiskInt\<rparr>, 7)
         # []\<rparr>) = Inr s' \<and> now s' = 7"
proof -
  let ?s = "demo_pending\<lparr>level := IntOff, pending :=
    (\<lparr>pi_handler = 3, pi_arg = 0, pi_when = 7, pi_type = DiskInt\<rparr>, 7) # []\<rparr>"
  have "level ?s = IntOff" "pending_ok ?s" "now ?s = 0"
    by (simp_all add: demo_pending_def Interrupt_new_def Statistics_new_def pending_ok_def)
  then show ?thesis
    using Idle_advances_to_next_interrupt [OF timer_machine.device_contract_axioms [of 1
      "\<lparr>randomize = False, tm_handler = 2, tm_arg = 0\<rparr>" 0], of ?s]
    by (auto simp: max_def)
qed

text \<open>
  \<^verbatim>\<open>Idle\<close> stops the machine when nothing is pending, or when only the timer is: there is then
  no thread to run and no device that could make one runnable.
\<close>

lemma Idle_stops_machine:
  assumes "device_contract run delayed" "level s = IntOff"
    and "pending s = [] \<or> (\<exists>p k. pending s = [(p, k)] \<and> pi_type p = TimerInt)"
  shows "Idle run delayed s = Inl Halted"
  using device_contract.Idle_halts [OF assms] .

text \<open>
  A handler is called in system mode, so the test of the mode in \<^verbatim>\<open>TimerInterruptHandler\<close> never
  fails: each timer interrupt asks for a yield.
\<close>

lemma timer_always_requests_yield:
  assumes "level s = IntOff" "pending_ok s"
  shows "\<exists>s'. call_handler (timer_run self t rnd) Inr p s = Inr s' \<and> yieldOnReturn s'"
  using TimeOfNextInterrupt_range [of t rnd]
  by (simp add: call_handler_def timer_run_def TimerExpired_def Timer_schedule_def Schedule_def
      TimerInterruptHandler_def YieldOnReturn_def Let_def)

end
