(* ===== verification/Nachos_Machine.thy ===== *)
theory Nachos_Machine
  imports Nachos_Interrupt
begin

unbundle bit_operations_syntax

text \<open>
  \<^verbatim>\<open>machine/machine.cc\<close>, \<^verbatim>\<open>machine/machine.h\<close>, \<^verbatim>\<open>machine/translate.cc\<close>, \<^verbatim>\<open>machine/translate.h\<close>: the
  state of the simulated CPU and its memory, address translation through a page table or a TLB,
  and the memory accesses of user programs. The host's byte order (\<^verbatim>\<open>HOST_IS_BIG_ENDIAN\<close>) is the
  argument \<open>big\<close>; \<^verbatim>\<open>char\<close> is signed, as on the hosts the Makefiles name; the kernel's
  \<^verbatim>\<open>ExceptionHandler\<close> is the argument \<open>eh\<close>.
\<close>

section \<open>Data\<close>

definition PageSize :: int where "PageSize = SectorSize"
definition NumPhysPages :: int where "NumPhysPages = 32"
definition MemorySize :: int where "MemorySize = NumPhysPages * PageSize"
definition TLBSize :: int where "TLBSize = 4"

lemmas page_defs = PageSize_def SectorSize_def NumPhysPages_def MemorySize_def TLBSize_def

datatype ExceptionType = NoException | SyscallException | PageFaultException | ReadOnlyException
  | BusErrorException | AddressErrorException | OverflowException | IllegalInstrException

definition StackReg :: nat where "StackReg = 29"
definition RetAddrReg :: nat where "RetAddrReg = 31"
definition NumGPRegs :: nat where "NumGPRegs = 32"
definition HiReg :: nat where "HiReg = 32"
definition LoReg :: nat where "LoReg = 33"
definition PCReg :: nat where "PCReg = 34"
definition NextPCReg :: nat where "NextPCReg = 35"
definition PrevPCReg :: nat where "PrevPCReg = 36"
definition LoadReg :: nat where "LoadReg = 37"
definition LoadValueReg :: nat where "LoadValueReg = 38"
definition BadVAddrReg :: nat where "BadVAddrReg = 39"
definition NumTotalRegs :: nat where "NumTotalRegs = 40"

lemmas reg_defs = StackReg_def RetAddrReg_def NumGPRegs_def HiReg_def LoReg_def PCReg_def
  NextPCReg_def PrevPCReg_def LoadReg_def LoadValueReg_def BadVAddrReg_def NumTotalRegs_def

record TranslationEntry =
  virtualPage :: "32 word"
  physicalPage :: "32 word"
  te_valid :: bool
  readOnly :: bool
  te_use :: bool
  dirty :: bool

record Machine = Interrupt +
  registers :: "32 word list"
  mainMemory :: "nat \<Rightarrow> 8 word"
  tlb :: "TranslationEntry list option"
  pageTable :: "TranslationEntry list option"
  pageTableSize :: "32 word"
  singleStep :: bool
  runUntilTime :: int
  lastUsed :: "nat \<Rightarrow> int"

abbreviation reg :: "'x Machine_scheme \<Rightarrow> nat \<Rightarrow> 32 word" where
  "reg m i \<equiv> registers m ! i"

definition set_reg :: "nat \<Rightarrow> 32 word \<Rightarrow> 'x Machine_scheme \<Rightarrow> 'x Machine_scheme" where
  "set_reg i v m = m\<lparr>registers := (registers m)[i := v]\<rparr>"

type_synonym 'x exn_handler = "ExceptionType \<Rightarrow> 'x Machine_scheme \<Rightarrow> 'x Machine_scheme res"

section \<open>Byte order\<close>

definition le_word :: "8 word \<Rightarrow> 8 word \<Rightarrow> 8 word \<Rightarrow> 8 word \<Rightarrow> 32 word" where
  "le_word b0 b1 b2 b3 = ucast b0 OR push_bit 8 (ucast b1) OR push_bit 16 (ucast b2) OR push_bit 24 (ucast b3)"

definition le_short :: "8 word \<Rightarrow> 8 word \<Rightarrow> 16 word" where
  "le_short b0 b1 = ucast b0 OR push_bit 8 (ucast b1)"

text \<open>Reading and writing an \<^verbatim>\<open>unsigned int\<close> or \<^verbatim>\<open>unsigned short\<close> through a pointer on the host.\<close>

definition host_word :: "bool \<Rightarrow> (nat \<Rightarrow> 8 word) \<Rightarrow> nat \<Rightarrow> 32 word" where
  "host_word big mem a = (if big then le_word (mem (a + 3)) (mem (a + 2)) (mem (a + 1)) (mem a)
     else le_word (mem a) (mem (a + 1)) (mem (a + 2)) (mem (a + 3)))"

definition host_short :: "bool \<Rightarrow> (nat \<Rightarrow> 8 word) \<Rightarrow> nat \<Rightarrow> 16 word" where
  "host_short big mem a = (if big then le_short (mem (a + 1)) (mem a) else le_short (mem a) (mem (a + 1)))"

definition byte_of :: "nat \<Rightarrow> 'a::len word \<Rightarrow> 8 word" where
  "byte_of i w = ucast (drop_bit (8 * i) w)"

definition put_host_word :: "bool \<Rightarrow> nat \<Rightarrow> 32 word \<Rightarrow> (nat \<Rightarrow> 8 word) \<Rightarrow> nat \<Rightarrow> 8 word" where
  "put_host_word big a w mem = (if big then mem(a := byte_of 3 w, a + 1 := byte_of 2 w, a + 2 := byte_of 1 w, a + 3 := byte_of 0 w)
     else mem(a := byte_of 0 w, a + 1 := byte_of 1 w, a + 2 := byte_of 2 w, a + 3 := byte_of 3 w))"

definition put_host_short :: "bool \<Rightarrow> nat \<Rightarrow> 16 word \<Rightarrow> (nat \<Rightarrow> 8 word) \<Rightarrow> nat \<Rightarrow> 8 word" where
  "put_host_short big a w mem = (if big then mem(a := byte_of 1 w, a + 1 := byte_of 0 w)
     else mem(a := byte_of 0 w, a + 1 := byte_of 1 w))"

definition WordToHost :: "bool \<Rightarrow> 32 word \<Rightarrow> 32 word" where
  "WordToHost big w =
     (if big then (drop_bit 24 w AND 0x000000ff) OR (drop_bit 8 w AND 0x0000ff00) OR
                  (push_bit 8 w AND 0x00ff0000) OR (push_bit 24 w AND 0xff000000)
      else w)"

definition ShortToHost :: "bool \<Rightarrow> 16 word \<Rightarrow> 16 word" where
  "ShortToHost big w =
     (if big then (push_bit 8 w AND 0xff00) OR (drop_bit 8 w AND 0x00ff) else w)"

definition WordToMachine :: "bool \<Rightarrow> 32 word \<Rightarrow> 32 word" where
  "WordToMachine big w = WordToHost big w"

definition ShortToMachine :: "bool \<Rightarrow> 16 word \<Rightarrow> 16 word" where
  "ShortToMachine big w = ShortToHost big w"

text \<open>The check of the byte order at start-up: \<open>flag\<close> is the macro, \<open>big\<close> the host.\<close>

definition CheckEndian :: "bool \<Rightarrow> bool \<Rightarrow> unit res" where
  "CheckEndian flag big =
     (let intword = host_word big (\<lambda>i. word_of_nat (i + 1)) 0
      in ASSERT (intword = (if flag then 0x01020304 else 0x04030201)))"

section \<open>Construction, registers, traps\<close>

text \<open>
  The constructor; \<open>junk\<close> stands for the members it leaves uninitialised. \<open>use_tlb\<close> is the
  macro \<^verbatim>\<open>USE_TLB\<close>.
\<close>

definition Machine_new ::
    "bool \<Rightarrow> bool \<Rightarrow> bool \<Rightarrow> bool \<Rightarrow> Interrupt \<Rightarrow> Machine \<Rightarrow> Machine res" where
  "Machine_new use_tlb flag big debug ic junk =
     andThen (CheckEndian flag big) (\<lambda>_. Inr
       (junk\<lparr>level := level ic, pending := pending ic, inHandler := inHandler ic,
         yieldOnReturn := yieldOnReturn ic, status := status ic, stats := stats ic,
         registers := replicate NumTotalRegs 0,
         mainMemory := (\<lambda>_. 0),
         lastUsed := (\<lambda>_. totalTicks (stats ic)),
         tlb := (if use_tlb
           then Some (map (\<lambda>e. e\<lparr>te_valid := False\<rparr>) (replicate (nat TLBSize)
             \<lparr>virtualPage = 0, physicalPage = 0, te_valid = False, readOnly = False, te_use = False, dirty = False\<rparr>))
           else None),
         pageTable := None, singleStep := debug\<rparr>))"

definition getTimeUsed :: "int \<Rightarrow> 'x Machine_scheme \<Rightarrow> int" where
  "getTimeUsed pageNo m =
     (if pageNo < 0 \<or> pageNo \<ge> NumPhysPages then - 1 else to_int32 (lastUsed m (nat pageNo)))"

definition ReadRegister :: "int \<Rightarrow> 'x Machine_scheme \<Rightarrow> 32 word res" where
  "ReadRegister num m =
     andThen (ASSERT (num \<ge> 0 \<and> num < int NumTotalRegs)) (\<lambda>_. Inr (reg m (nat num)))"

definition WriteRegister :: "int \<Rightarrow> 32 word \<Rightarrow> 'x Machine_scheme \<Rightarrow> 'x Machine_scheme res" where
  "WriteRegister num v m =
     andThen (ASSERT (num \<ge> 0 \<and> num < int NumTotalRegs)) (\<lambda>_. Inr (set_reg (nat num) v m))"

text \<open>\<^verbatim>\<open>DelayedLoad\<close> indexes the register file with a register; outside it that is undefined.\<close>

definition DelayedLoad :: "32 word \<Rightarrow> 32 word \<Rightarrow> 'x Machine_scheme \<Rightarrow> 'x Machine_scheme res" where
  "DelayedLoad nextReg nextValue m =
     (let target = unat (reg m LoadReg) in
      if target < NumTotalRegs then
        let m1 = set_reg target (reg m LoadValueReg) m;
            m2 = set_reg LoadReg nextReg m1;
            m3 = set_reg LoadValueReg nextValue m2
        in Inr (set_reg 0 0 m3)
      else Inl Undefined)"

definition RaiseException ::
    "'x exn_handler \<Rightarrow> ExceptionType \<Rightarrow> 32 word \<Rightarrow> 'x Machine_scheme \<Rightarrow> 'x Machine_scheme res" where
  "RaiseException eh which badVAddr m =
     andThen (DelayedLoad 0 0 (set_reg BadVAddrReg badVAddr m)) (\<lambda>m1.
     andThen (eh which (m1\<lparr>status := SystemMode\<rparr>)) (\<lambda>m2.
       Inr (m2\<lparr>status := UserMode\<rparr>)))"

section \<open>Address translation\<close>

datatype entry_ref = InTable nat | InTlb nat

fun tlb_lookup :: "nat \<Rightarrow> TranslationEntry list \<Rightarrow> 32 word \<Rightarrow> nat option" where
  "tlb_lookup i [] vpn = None"
| "tlb_lookup i (e # es) vpn =
     (if te_valid e \<and> virtualPage e = vpn then Some i else tlb_lookup (Suc i) es vpn)"

text \<open>The entry for a virtual page, or the exception when there is none.\<close>

definition find_entry ::
    "32 word \<Rightarrow> 'x Machine_scheme \<Rightarrow> (ExceptionType + entry_ref \<times> TranslationEntry) res" where
  "find_entry vpn m =
     (case tlb m of
        None \<Rightarrow>
          (case pageTable m of None \<Rightarrow> Inl Undefined
           | Some pt \<Rightarrow>
             if vpn \<ge> pageTableSize m then Inr (Inl AddressErrorException)
             else if unat vpn < length pt then
               (if \<not> te_valid (pt ! unat vpn) then Inr (Inl PageFaultException)
                else Inr (Inr (InTable (unat vpn), pt ! unat vpn)))
             else Inl Undefined)
      | Some t \<Rightarrow>
          (case tlb_lookup 0 t vpn of None \<Rightarrow> Inr (Inl PageFaultException)
           | Some i \<Rightarrow> Inr (Inr (InTlb i, t ! i))))"

fun update_entry :: "entry_ref \<Rightarrow> TranslationEntry \<Rightarrow> 'x Machine_scheme \<Rightarrow> 'x Machine_scheme" where
  "update_entry (InTable i) e m = m\<lparr>pageTable := map_option (\<lambda>pt. pt[i := e]) (pageTable m)\<rparr>"
| "update_entry (InTlb i) e m = m\<lparr>tlb := map_option (\<lambda>t. t[i := e]) (tlb m)\<rparr>"

text \<open>
  \<^verbatim>\<open>Translate\<close> returns the exception, the physical address (0 when there is an exception) and
  the machine with the use and dirty bits set.
\<close>

definition Translate ::
    "32 word \<Rightarrow> nat \<Rightarrow> bool \<Rightarrow> 'x Machine_scheme \<Rightarrow> (ExceptionType \<times> nat \<times> 'x Machine_scheme) res" where
  "Translate virtAddr sz writing m =
     (if (sz = 4 \<and> virtAddr AND 3 \<noteq> 0) \<or> (sz = 2 \<and> virtAddr AND 1 \<noteq> 0)
      then Inr (AddressErrorException, 0, m)
      else
        andThen (ASSERT (tlb m = None \<or> pageTable m = None)) (\<lambda>_.
        andThen (ASSERT (tlb m \<noteq> None \<or> pageTable m \<noteq> None)) (\<lambda>_.
        let vpn = virtAddr div 128; offset = virtAddr mod 128 in
        andThen (find_entry vpn m) (\<lambda>r.
          case r of
            Inl exc \<Rightarrow> Inr (exc, 0, m)
          | Inr (ref, entry) \<Rightarrow>
              if readOnly entry \<and> writing then Inr (ReadOnlyException, 0, m)
              else if physicalPage entry \<ge> 32 then Inr (BusErrorException, 0, m)
              else
                let m1 = update_entry ref (entry\<lparr>te_use := True, dirty := (writing \<or> dirty entry)\<rparr>) m;
                    physAddr = physicalPage entry * 128 + offset
                in andThen (ASSERT (0 \<le> sint physAddr \<and> sint physAddr + int sz \<le> MemorySize)) (\<lambda>_.
                     Inr (NoException, unat physAddr, m1))))))"

definition touch_page :: "nat \<Rightarrow> 'x Machine_scheme \<Rightarrow> 'x Machine_scheme" where
  "touch_page physicalAddress m =
     m\<lparr>lastUsed := (lastUsed m)(physicalAddress div nat PageSize := now m)\<rparr>"

definition ReadMem ::
    "'x exn_handler \<Rightarrow> bool \<Rightarrow> 32 word \<Rightarrow> nat \<Rightarrow> 'x Machine_scheme \<Rightarrow> (32 word option \<times> 'x Machine_scheme) res" where
  "ReadMem eh big addr sz m =
     andThen (Translate addr sz False m) (\<lambda>(exc, pa, m1).
       if exc \<noteq> NoException then andThen (RaiseException eh exc addr m1) (\<lambda>m2. Inr (None, m2))
       else
         andThen (if sz = 1 then Inr (scast (mainMemory m1 pa))
                  else if sz = 2 then Inr (ucast (ShortToHost big (host_short big (mainMemory m1) pa)))
                  else if sz = 4 then Inr (WordToHost big (host_word big (mainMemory m1) pa))
                  else Inl AssertFail) (\<lambda>v.
           Inr (Some v, touch_page pa m1)))"

definition WriteMem ::
    "'x exn_handler \<Rightarrow> bool \<Rightarrow> 32 word \<Rightarrow> nat \<Rightarrow> 32 word \<Rightarrow> 'x Machine_scheme \<Rightarrow> (bool \<times> 'x Machine_scheme) res" where
  "WriteMem eh big addr sz v m =
     andThen (Translate addr sz True m) (\<lambda>(exc, pa, m1).
       if exc \<noteq> NoException then andThen (RaiseException eh exc addr m1) (\<lambda>m2. Inr (False, m2))
       else
         andThen (if sz = 1 then Inr ((mainMemory m1)(pa := ucast (v AND 0xff)))
                  else if sz = 2 then Inr (put_host_short big pa (ShortToMachine big (ucast (v AND 0xffff))) (mainMemory m1))
                  else if sz = 4 then Inr (put_host_word big pa (WordToMachine big v) (mainMemory m1))
                  else Inl AssertFail) (\<lambda>mem.
           Inr (True, touch_page pa (m1\<lparr>mainMemory := mem\<rparr>))))"

section \<open>Byte order does not matter\<close>

lemma byte_masks:
  "(0x000000ff :: 32 word) = mask 8" "(0x0000ff00 :: 32 word) = push_bit 8 (mask 8)"
  "(0x00ff0000 :: 32 word) = push_bit 16 (mask 8)" "(0xff000000 :: 32 word) = push_bit 24 (mask 8)"
  "(0x00ff :: 16 word) = mask 8" "(0xff00 :: 16 word) = push_bit 8 (mask 8)"
  by (simp_all add: mask_eq_exp_minus_1)

lemma not_bit_byte [simp]: "8 \<le> k \<Longrightarrow> \<not> bit b k" for b :: "8 word"
  using bit_imp_le_length [of b k] by auto

lemma bit_le_word:
  "n < 32 \<Longrightarrow> bit (le_word b0 b1 b2 b3) n \<longleftrightarrow>
     (if n < 8 then bit b0 n else if n < 16 then bit b1 (n - 8)
      else if n < 24 then bit b2 (n - 16) else bit b3 (n - 24))"
  by (auto simp: le_word_def bit_simps not_le not_less)

lemma bit_le_short:
  "n < 16 \<Longrightarrow> bit (le_short b0 b1) n \<longleftrightarrow> (if n < 8 then bit b0 n else bit b1 (n - 8))"
  by (auto simp: le_short_def bit_simps not_le not_less)

lemma bit_WordToHost:
  "n < 32 \<Longrightarrow> bit (WordToHost True w) n \<longleftrightarrow>
     (if n < 8 then bit w (n + 24) else if n < 16 then bit w (n + 8)
      else if n < 24 then bit w (n - 8) else bit w (n - 24))"
  unfolding WordToHost_def byte_masks
  by (auto simp: bit_simps ac_simps)

lemma bit_ShortToHost:
  "n < 16 \<Longrightarrow> bit (ShortToHost True w) n \<longleftrightarrow> (if n < 8 then bit w (n + 8) else bit w (n - 8))"
  unfolding ShortToHost_def byte_masks
  by (auto simp: bit_simps ac_simps)

lemma WordToHost_swap: "WordToHost True (le_word b3 b2 b1 b0) = le_word b0 b1 b2 b3"
  by (rule bit_word_eqI) (auto simp: bit_WordToHost bit_le_word)

lemma ShortToHost_swap: "ShortToHost True (le_short b1 b0) = le_short b0 b1"
  by (rule bit_word_eqI) (auto simp: bit_ShortToHost bit_le_short)

lemma WordToHost_involution [simp]: "WordToHost big (WordToHost big w) = w"
proof (cases big)
  case True
  have "WordToHost True (WordToHost True w) = w"
    by (rule bit_word_eqI) (auto simp: bit_WordToHost)
  then show ?thesis using True by simp
qed (simp add: WordToHost_def)

lemma ShortToHost_involution [simp]: "ShortToHost big (ShortToHost big w) = w"
proof (cases big)
  case True
  have "ShortToHost True (ShortToHost True w) = w"
    by (rule bit_word_eqI) (auto simp: bit_ShortToHost)
  then show ?thesis using True by simp
qed (simp add: ShortToHost_def)

lemma le_word_bytes: "le_word (byte_of 0 w) (byte_of 1 w) (byte_of 2 w) (byte_of 3 w) = w"
  by (rule bit_word_eqI) (auto simp: bit_le_word byte_of_def bit_simps)

lemma le_short_bytes: "le_short (byte_of 0 w) (byte_of 1 w) = w"
  by (rule bit_word_eqI) (auto simp: bit_le_short byte_of_def bit_simps)

lemma host_word_put [simp]: "host_word big (put_host_word big a w mem) a = w"
  using le_word_bytes [of w] by (simp add: host_word_def put_host_word_def)

lemma host_short_put [simp]: "host_short big (put_host_short big a w mem) a = w"
  using le_short_bytes [of w] by (simp add: host_short_def put_host_short_def)

lemma WordToHost_host_word:
  "WordToHost big (host_word big mem a) = le_word (mem a) (mem (a + 1)) (mem (a + 2)) (mem (a + 3))"
  by (cases big) (simp_all add: host_word_def WordToHost_swap, simp add: WordToHost_def)

lemma ShortToHost_host_short:
  "ShortToHost big (host_short big mem a) = le_short (mem a) (mem (a + 1))"
  by (cases big) (simp_all add: host_short_def ShortToHost_swap, simp add: ShortToHost_def)

lemma CheckEndian_ok: "CheckEndian flag big = Inr () \<longleftrightarrow> flag = big"
  by (cases flag; cases big) (simp_all add: CheckEndian_def host_word_def le_word_def)

section \<open>Translation\<close>

text \<open>
  A machine is set up for translation when it has either a page table at least as long as its
  declared size or a TLB, and not both.
\<close>

definition xlate_ok :: "'x Machine_scheme \<Rightarrow> bool" where
  "xlate_ok m \<longleftrightarrow> (case (tlb m, pageTable m) of
     (None, Some pt) \<Rightarrow> unat (pageTableSize m) \<le> length pt
   | (Some t, None) \<Rightarrow> length t = nat TLBSize
   | _ \<Rightarrow> False)"

lemma tlb_lookup_Some:
  "tlb_lookup i es vpn = Some j \<Longrightarrow> i \<le> j \<and> j < i + length es \<and> te_valid (es ! (j - i)) \<and>
     virtualPage (es ! (j - i)) = vpn"
proof (induction es arbitrary: i)
  case Nil
  then show ?case by simp
next
  case (Cons e es)
  show ?case
  proof (cases "te_valid e \<and> virtualPage e = vpn")
    case True
    then show ?thesis using Cons.prems by auto
  next
    case False
    then have "tlb_lookup (Suc i) es vpn = Some j" using Cons.prems by auto
    from Cons.IH [OF this] show ?thesis by (auto simp: nth_Cons' Suc_diff_le)
  qed
qed

lemma find_entry_total:
  assumes "xlate_ok m"
  shows "\<exists>r. find_entry vpn m = Inr r \<and>
    (case r of Inl exc \<Rightarrow> exc = AddressErrorException \<or> exc = PageFaultException | Inr (ref, e) \<Rightarrow> te_valid e)"
proof (cases "tlb m")
  case None
  then obtain pt where pt: "pageTable m = Some pt" "unat (pageTableSize m) \<le> length pt"
    using assms by (auto simp: xlate_ok_def split: option.splits)
  show ?thesis
  proof (cases "pageTableSize m \<le> vpn")
    case True
    then show ?thesis using None pt by (simp add: find_entry_def)
  next
    case False
    then have "unat vpn < length pt" using pt(2) by (simp add: word_le_nat_alt)
    then show ?thesis using False None pt by (simp add: find_entry_def)
  qed
next
  case (Some t)
  then show ?thesis
    by (auto simp: find_entry_def split: option.splits dest!: tlb_lookup_Some)
qed

lemma unat_take_bit: "unat (take_bit n w) = unat w mod 2 ^ n" for w :: "32 word"
  unfolding unsigned_take_bit_eq by (rule take_bit_eq_mod)

lemma and_low_bits:
  "(w AND 3 \<noteq> 0) = (unat w mod 4 \<noteq> 0)" "(w AND 1 \<noteq> 0) = (unat w mod 2 \<noteq> 0)" for w :: "32 word"
proof -
  have "w AND 3 = take_bit 2 w" by (simp add: take_bit_eq_mask mask_eq_exp_minus_1)
  then have "unat (w AND 3) = unat w mod 2 ^ 2" using unat_take_bit [of 2 w] by presburger
  then show "(w AND 3 \<noteq> 0) = (unat w mod 4 \<noteq> 0)"
    using unat_eq_0 [of "w AND 3"] by (simp only: power2_eq_square) simp
  have "w AND 1 = take_bit 1 w" by (simp add: take_bit_eq_mask mask_eq_exp_minus_1)
  then have "unat (w AND 1) = unat w mod 2 ^ 1" using unat_take_bit [of 1 w] by presburger
  then show "(w AND 1 \<noteq> 0) = (unat w mod 2 \<noteq> 0)"
    using unat_eq_0 [of "w AND 1"] by (simp only: power_one_right)
qed

lemma sint_small: "unat w < 2 ^ 31 \<Longrightarrow> sint w = int (unat w)" for w :: "32 word"
proof -
  assume "unat w < 2 ^ 31"
  then have "int (unat w) < 2 ^ 31" by (metis of_nat_less_iff of_nat_numeral of_nat_power)
  then have "uint w < 2 ^ 31" by simp
  moreover have "- (2 ^ 31) \<le> uint w" by (rule order_trans [OF _ uint_ge_0]) simp
  ultimately have "signed_take_bit 31 (uint w) = uint w" by (intro signed_take_bit_int_eq_self) simp_all
  then show ?thesis by (simp add: sint_uint)
qed

lemma page_fit:
  assumes "sz \<in> {1, 2, 4}" "n mod sz = 0"
  shows "n mod 128 + sz \<le> (128 :: nat)"
proof -
  have d: "sz dvd 128" using assms(1) by auto
  have "sz dvd n mod 128" using assms(2) d by (metis dvd_eq_mod_eq_0 mod_mod_cancel)
  then obtain k where k: "n mod 128 = sz * k" by (auto simp: dvd_def)
  obtain j where j: "128 = sz * j" using d by (auto simp: dvd_def)
  have "n mod 128 < 128" by simp
  then have "sz * k < sz * j" using k j by simp
  then have "Suc k \<le> j" by auto
  then have "sz * Suc k \<le> sz * j" by (rule mult_le_mono2)
  then show ?thesis using k j by simp
qed

text \<open>The physical address: page frame times page size plus offset, without wrap-around.\<close>

lemma phys_addr_value:
  assumes "pf < (32 :: 32 word)"
  shows "unat (pf * 128 + va mod 128) = unat pf * 128 + unat va mod 128"
    and "sint (pf * 128 + va mod 128) = int (unat pf * 128 + unat va mod 128)"
proof -
  have pf: "unat pf < 32" using assms by (simp add: word_less_nat_alt)
  have off: "unat (va mod 128) = unat va mod 128" by (simp add: unat_mod_distrib)
  have m: "unat (pf * 128) = unat pf * 128"
    using pf by (simp add: unat_mult_lem [THEN iffD1])
  show u: "unat (pf * 128 + va mod 128) = unat pf * 128 + unat va mod 128"
    using pf m off by (subst unat_add_lem [THEN iffD1]) auto
  have "unat va mod 128 < 128" by simp
  then have "unat (pf * 128 + va mod 128) < 2 ^ 31" using u pf by simp
  then show "sint (pf * 128 + va mod 128) = int (unat pf * 128 + unat va mod 128)"
    using u sint_small [of "pf * 128 + va mod 128"] by simp
qed

lemma Translate_cases:
  assumes ok: "xlate_ok m" and sz: "sz \<in> {1, 2, 4}"
  shows "\<exists>exc pa m'. Translate va sz writing m = Inr (exc, pa, m') \<and>
    (exc \<noteq> NoException \<longrightarrow> m' = m) \<and>
    (exc = NoException \<longrightarrow> (\<exists>ref e. find_entry (va div 128) m = Inr (Inr (ref, e)) \<and> te_valid e \<and>
       \<not> (readOnly e \<and> writing) \<and> physicalPage e < 32 \<and> unat va mod sz = 0 \<and>
       pa = unat (physicalPage e) * 128 + unat va mod 128 \<and> pa + sz \<le> nat MemorySize \<and>
       m' = update_entry ref (e\<lparr>te_use := True, dirty := (writing \<or> dirty e)\<rparr>) m))"
proof (cases "(sz = 4 \<and> va AND 3 \<noteq> 0) \<or> (sz = 2 \<and> va AND 1 \<noteq> 0)")
  case True
  then show ?thesis by (auto simp: Translate_def)
next
  case aligned: False
  then have al: "unat va mod sz = 0" using sz by (auto simp: and_low_bits)
  have one: "tlb m = None \<or> pageTable m = None" "tlb m \<noteq> None \<or> pageTable m \<noteq> None"
    using ok by (auto simp: xlate_ok_def split: option.splits)
  obtain r where r: "find_entry (va div 128) m = Inr r"
    "case r of Inl exc \<Rightarrow> exc = AddressErrorException \<or> exc = PageFaultException | Inr (ref, e) \<Rightarrow> te_valid e"
    using find_entry_total [OF ok] by blast
  note unf = Translate_def Let_def
  show ?thesis
  proof (cases r)
    case (Inl exc)
    then show ?thesis using aligned one r by (auto simp: unf)
  next
    case (Inr re)
    obtain ref e where re: "re = (ref, e)" by (cases re)
    show ?thesis
    proof (cases "(readOnly e \<and> writing) \<or> 32 \<le> physicalPage e")
      case True
      then show ?thesis using aligned one r Inr re by (auto simp: unf)
    next
      case False
      then have pf: "physicalPage e < 32" by auto
      then have pf': "unat (physicalPage e) < 32" by (simp add: word_less_nat_alt)
      have "unat va mod 128 + sz \<le> 128"
        using page_fit [OF sz al] .
      then have bound: "unat (physicalPage e) * 128 + unat va mod 128 + sz \<le> 4096"
        using pf' by linarith
      note pa = phys_addr_value [OF pf, of va]
      have "0 \<le> sint (physicalPage e * 128 + va mod 128) \<and>
          sint (physicalPage e * 128 + va mod 128) + int sz \<le> MemorySize"
        unfolding pa(2) using bound by (simp only: page_defs) linarith
      then have "Translate va sz writing m = Inr (NoException, unat (physicalPage e * 128 + va mod 128),
          update_entry ref (e\<lparr>te_use := True, dirty := (writing \<or> dirty e)\<rparr>) m)"
        using False aligned one r(1) Inr re by (simp add: unf)
      moreover have "unat (physicalPage e) * 128 + unat va mod 128 + sz \<le> nat MemorySize"
        using bound by (simp add: page_defs)
      ultimately show ?thesis
        using False r Inr re pf al unfolding pa(1) by auto
    qed
  qed
qed

lemma update_entry_frame [simp]:
  "registers (update_entry ref e m) = registers m"
  "mainMemory (update_entry ref e m) = mainMemory m"
  "stats (update_entry ref e m) = stats m"
  "pageTableSize (update_entry ref e m) = pageTableSize m"
  "status (update_entry ref e m) = status m"
  "pending (update_entry ref e m) = pending m"
  "level (update_entry ref e m) = level m"
  by (cases ref; simp)+

lemma find_entry_ref:
  assumes "find_entry vpn m = Inr (Inr (ref, e))"
  shows "(\<exists>pt i. ref = InTable i \<and> i = unat vpn \<and> tlb m = None \<and> pageTable m = Some pt \<and> i < length pt \<and>
      pt ! i = e \<and> vpn < pageTableSize m)
    \<or> (\<exists>t i. ref = InTlb i \<and> tlb m = Some t \<and> i < length t \<and> t ! i = e \<and> virtualPage e = vpn \<and>
      tlb_lookup 0 t vpn = Some i)"
  using assms by (auto simp: find_entry_def not_le split: option.splits if_splits dest!: tlb_lookup_Some)

lemma tlb_lookup_update:
  assumes "tlb_lookup k t vpn = Some i" "te_valid e'" "virtualPage e' = vpn"
  shows "tlb_lookup k (t[i - k := e']) vpn = Some i"
  using assms
proof (induction t arbitrary: k)
  case Nil
  then show ?case by simp
next
  case (Cons e es)
  show ?case
  proof (cases "te_valid e \<and> virtualPage e = vpn")
    case True
    then show ?thesis using Cons.prems by auto
  next
    case False
    then have l: "tlb_lookup (Suc k) es vpn = Some i" using Cons.prems(1) by (simp split: if_splits)
    then have "Suc k \<le> i" using tlb_lookup_Some by blast
    then have "i - k = Suc (i - Suc k)" by simp
    then show ?thesis using Cons.IH [OF l Cons.prems(2,3)] False by (simp, blast)
  qed
qed

text \<open>Setting the use and dirty bits of an entry does not change what the entry translates to.\<close>

lemma find_entry_update:
  assumes f: "find_entry vpn m = Inr (Inr (ref, e))"
    and e: "te_valid e'" "virtualPage e' = virtualPage e" "te_valid e"
  shows "find_entry vpn (update_entry ref e' m) = Inr (Inr (ref, e'))"
  using find_entry_ref [OF f]
proof
  assume "\<exists>pt i. ref = InTable i \<and> i = unat vpn \<and> tlb m = None \<and> pageTable m = Some pt \<and> i < length pt \<and>
      pt ! i = e \<and> vpn < pageTableSize m"
  then show ?thesis using e by (auto simp: find_entry_def)
next
  assume "\<exists>t i. ref = InTlb i \<and> tlb m = Some t \<and> i < length t \<and> t ! i = e \<and> virtualPage e = vpn \<and>
      tlb_lookup 0 t vpn = Some i"
  then show ?thesis using e tlb_lookup_update [of 0 _ vpn _ e'] by (fastforce simp: find_entry_def)
qed

lemma Translate_again:
  assumes ok: "xlate_ok m" and sz: "sz \<in> {1, 2, 4}" and t: "Translate va sz True m = Inr (NoException, pa, m')"
    and same: "tlb m2 = tlb m'" "pageTable m2 = pageTable m'" "pageTableSize m2 = pageTableSize m'"
  shows "\<exists>m3. Translate va sz False m2 = Inr (NoException, pa, m3) \<and> mainMemory m3 = mainMemory m2"
proof -
  obtain ref e where e: "find_entry (va div 128) m = Inr (Inr (ref, e))" "te_valid e"
      "physicalPage e < 32" "pa = unat (physicalPage e) * 128 + unat va mod 128"
      "m' = update_entry ref (e\<lparr>te_use := True, dirty := True\<rparr>) m"
    using Translate_cases [OF ok sz, of va True] t by auto
  let ?e = "e\<lparr>te_use := True, dirty := True\<rparr>"
  have f': "find_entry (va div 128) m' = Inr (Inr (ref, ?e))"
    using find_entry_update [OF e(1), of ?e] e by simp
  then have f2: "find_entry (va div 128) m2 = Inr (Inr (ref, ?e))"
    unfolding find_entry_def same .
  have ok2: "xlate_ok m2"
    using ok same e(5) by (cases ref) (auto simp: xlate_ok_def split: option.splits)
  obtain exc pa' m3 where t2: "Translate va sz False m2 = Inr (exc, pa', m3)"
    using Translate_cases [OF ok2 sz, of va False] by blast
  have "exc = NoException"
    using t t2 f2 e(1,3) ok2 e(3) by (auto simp: Translate_def Let_def res_simps split: if_splits)
  then show ?thesis using t2 Translate_cases [OF ok2 sz, of va False] f2 e(4) by auto
qed

section \<open>Memory accesses\<close>

lemma byte_of_WordToHost:
  "byte_of 0 (WordToHost True w) = byte_of 3 w" "byte_of 1 (WordToHost True w) = byte_of 2 w"
  "byte_of 2 (WordToHost True w) = byte_of 1 w" "byte_of 3 (WordToHost True w) = byte_of 0 w"
  by (rule bit_word_eqI; simp add: byte_of_def bit_simps bit_WordToHost ac_simps)+

lemma byte_of_ShortToHost:
  "byte_of 0 (ShortToHost True w) = byte_of 1 w" "byte_of 1 (ShortToHost True w) = byte_of 0 w"
  by (rule bit_word_eqI; simp add: byte_of_def bit_simps bit_ShortToHost ac_simps)+

lemma put_host_word_machine:
  "put_host_word big a (WordToMachine big w) mem =
     mem(a := byte_of 0 w, a + 1 := byte_of 1 w, a + 2 := byte_of 2 w, a + 3 := byte_of 3 w)"
proof (cases big)
  case True
  then show ?thesis unfolding put_host_word_def WordToMachine_def by (simp only: byte_of_WordToHost if_True)
next
  case False
  then show ?thesis by (simp add: put_host_word_def WordToMachine_def WordToHost_def)
qed

lemma put_host_short_machine:
  "put_host_short big a (ShortToMachine big w) mem = mem(a := byte_of 0 w, a + 1 := byte_of 1 w)"
proof (cases big)
  case True
  then show ?thesis unfolding put_host_short_def ShortToMachine_def by (simp only: byte_of_ShortToHost if_True)
next
  case False
  then show ?thesis by (simp add: put_host_short_def ShortToMachine_def ShortToHost_def)
qed

definition read_value :: "nat \<Rightarrow> 32 word \<Rightarrow> 32 word" where
  "read_value sz v = (if sz = 1 then scast (ucast v :: 8 word)
     else if sz = 2 then ucast (ucast v :: 16 word) else v)"

lemma ucast_and_ff: "(ucast (v AND 0xff) :: 8 word) = ucast v" for v :: "32 word"
  unfolding byte_masks by (rule bit_word_eqI) (simp add: bit_simps)

lemma ucast_and_ffff: "(ucast (v AND 0xffff) :: 16 word) = ucast v" for v :: "32 word"
proof -
  have m: "(0xffff :: 32 word) = mask 16" by (simp add: mask_eq_exp_minus_1)
  show ?thesis unfolding m by (rule bit_word_eqI) (simp add: bit_simps)
qed

lemma WriteMem_True:
  assumes "WriteMem eh big va sz v m = Inr (True, m')"
  shows "\<exists>pa m1 mem. Translate va sz True m = Inr (NoException, pa, m1) \<and> sz \<in> {1, 2, 4} \<and>
    m' = touch_page pa (m1\<lparr>mainMemory := mem\<rparr>) \<and>
    mem = (if sz = 1 then (mainMemory m1)(pa := ucast v)
      else if sz = 2 then (mainMemory m1)(pa := byte_of 0 (ucast v :: 16 word), pa + 1 := byte_of 1 (ucast v :: 16 word))
      else (mainMemory m1)(pa := byte_of 0 v, pa + 1 := byte_of 1 v, pa + 2 := byte_of 2 v, pa + 3 := byte_of 3 v))"
  using assms
  by (auto simp: WriteMem_def res_simps put_host_word_machine put_host_short_machine ucast_and_ff ucast_and_ffff
      split: if_splits)


definition demo_machine :: Machine where
  "demo_machine = \<lparr>level = IntOn, pending = [], inHandler = False, yieldOnReturn = False,
     status = UserMode, stats = Statistics_new, registers = replicate 40 0, mainMemory = (\<lambda>_. 0),
     tlb = None, pageTable = Some [\<lparr>virtualPage = 0, physicalPage = 7, te_valid = True, readOnly = False,
       te_use = False, dirty = False\<rparr>], pageTableSize = 1, singleStep = False, runUntilTime = 0,
     lastUsed = (\<lambda>_. 0)\<rparr>"

lemma demo_machine_ok: "xlate_ok demo_machine"
  by (simp add: xlate_ok_def demo_machine_def)


text \<open>
  What is written is read back: after a successful \<^verbatim>\<open>WriteMem\<close> of 1, 2 or 4 bytes a
  \<^verbatim>\<open>ReadMem\<close> of the same size at the same virtual address succeeds and returns the word itself, its
  low 16 bits zero-extended, or its low byte sign-extended.
\<close>

theorem ReadMem_after_WriteMem:
  assumes ok: "xlate_ok m" and w: "WriteMem eh big va sz v m = Inr (True, m')"
  shows "\<exists>m''. ReadMem eh big va sz m' = Inr (Some (read_value sz v), m'')"
proof -
  obtain pa m1 mem where t: "Translate va sz True m = Inr (NoException, pa, m1)" "sz \<in> {1, 2, 4}"
    "m' = touch_page pa (m1\<lparr>mainMemory := mem\<rparr>)"
    and mem: "mem = (if sz = 1 then (mainMemory m1)(pa := ucast v)
      else if sz = 2 then (mainMemory m1)(pa := byte_of 0 (ucast v :: 16 word), pa + 1 := byte_of 1 (ucast v :: 16 word))
      else (mainMemory m1)(pa := byte_of 0 v, pa + 1 := byte_of 1 v, pa + 2 := byte_of 2 v, pa + 3 := byte_of 3 v))"
    using WriteMem_True [OF w] by blast
  obtain m3 where m3: "Translate va sz False m' = Inr (NoException, pa, m3)" "mainMemory m3 = mainMemory m'"
    using Translate_again [OF ok t(2,1), of m'] t(3) by (auto simp: touch_page_def)
  have "mainMemory m' = mem" using t(3) by (simp add: touch_page_def)
  then show ?thesis
    using m3 t(2) mem le_word_bytes [of v] le_short_bytes [of "ucast v :: 16 word"]
    by (auto simp: ReadMem_def read_value_def WordToHost_host_word ShortToHost_host_short)
qed

theorem ReadMem_after_WriteMem_witness:
  "\<exists>m' m''. WriteMem (\<lambda>_. Inr) True 0x44 2 0x12345678 demo_machine = Inr (True, m') \<and>
     ReadMem (\<lambda>_. Inr) True 0x44 2 m' = Inr (Some 0x5678, m'')"
proof -
  obtain m' where "WriteMem (\<lambda>_. Inr) True 0x44 2 0x12345678 demo_machine = Inr (True, m')"
    by (simp add: WriteMem_def Translate_def find_entry_def demo_machine_def Let_def page_defs)
  moreover have "read_value 2 0x12345678 = 0x5678" by (simp add: read_value_def)
  ultimately show ?thesis using ReadMem_after_WriteMem [OF demo_machine_ok] by metis
qed

text \<open>
  Property C33. The byte order of the host is invisible to user programs: with the matching
  \<^verbatim>\<open>HOST_IS_BIG_ENDIAN\<close>, \<^verbatim>\<open>ReadMem\<close> and \<^verbatim>\<open>WriteMem\<close> behave the same on a big-endian and on a
  little-endian host, byte for byte of the simulated memory.
\<close>

theorem memory_endian_independent:
  "ReadMem eh True va sz m = ReadMem eh False va sz m \<and>
   WriteMem eh True va sz v m = WriteMem eh False va sz v m"
  unfolding ReadMem_def WriteMem_def WordToHost_host_word ShortToHost_host_short
    put_host_word_machine put_host_short_machine by (rule conjI refl)+

text \<open>
  Address spaces are confined: a successful \<^verbatim>\<open>WriteMem\<close> changes only bytes of the page
  frame of one valid, writable entry of the page table or the TLB, and neither the registers nor
  the interrupt state.
\<close>

theorem WriteMem_confined:
  assumes ok: "xlate_ok m" and w: "WriteMem eh big va sz v m = Inr (True, m')"
  shows "\<exists>ref e. find_entry (va div 128) m = Inr (Inr (ref, e)) \<and> te_valid e \<and> \<not> readOnly e \<and>
    (\<forall>a. mainMemory m' a \<noteq> mainMemory m a \<longrightarrow> a div 128 = unat (physicalPage e) \<and> a < nat MemorySize) \<and>
    registers m' = registers m \<and> pending m' = pending m \<and> stats m' = stats m"
proof -
  obtain pa m1 mem where t: "Translate va sz True m = Inr (NoException, pa, m1)" and sz: "sz \<in> {1, 2, 4}"
    and m': "m' = touch_page pa (m1\<lparr>mainMemory := mem\<rparr>)"
    and mem: "mem = (if sz = 1 then (mainMemory m1)(pa := ucast v)
      else if sz = 2 then (mainMemory m1)(pa := byte_of 0 (ucast v :: 16 word), pa + 1 := byte_of 1 (ucast v :: 16 word))
      else (mainMemory m1)(pa := byte_of 0 v, pa + 1 := byte_of 1 v, pa + 2 := byte_of 2 v, pa + 3 := byte_of 3 v))"
    using WriteMem_True [OF w] by blast
  obtain ref e where e: "find_entry (va div 128) m = Inr (Inr (ref, e))" "te_valid e" "\<not> readOnly e"
      "physicalPage e < 32" "unat va mod sz = 0" "pa = unat (physicalPage e) * 128 + unat va mod 128"
      "pa + sz \<le> nat MemorySize" "m1 = update_entry ref (e\<lparr>te_use := True, dirty := True\<rparr>) m"
    using Translate_cases [OF ok sz, of va True] t by auto
  have changed: "pa \<le> a \<and> a < pa + sz" if "mem a \<noteq> mainMemory m1 a" for a
    using that sz mem by (auto split: if_splits)
  have frame: "a div 128 = unat (physicalPage e) \<and> a < nat MemorySize" if "pa \<le> a" "a < pa + sz" for a
  proof -
    have "unat va mod 128 + sz \<le> 128" by (rule page_fit [OF sz e(5)])
    then have "a = unat (physicalPage e) * 128 + (a - unat (physicalPage e) * 128)"
      "a - unat (physicalPage e) * 128 < 128" using that e(6) by auto
    then have "a div 128 = unat (physicalPage e)" by (metis div_mult_self3 div_less add_0_right zero_neq_numeral)
    then show ?thesis using that e(7) by auto
  qed
  have "mainMemory m' = mem" "mainMemory m1 = mainMemory m" "registers m' = registers m"
    "pending m' = pending m" "stats m' = stats m"
    using m' e(8) by (simp_all add: touch_page_def)
  then show ?thesis using e(1-3) changed frame by metis
qed

theorem WriteMem_confined_witness:
  "\<exists>m'. WriteMem (\<lambda>_. Inr) False 0x44 4 0x12345678 demo_machine = Inr (True, m') \<and>
     (\<forall>a. mainMemory m' a \<noteq> 0 \<longrightarrow> a div 128 = 7)"
proof -
  obtain m' where w: "WriteMem (\<lambda>_. Inr) False 0x44 4 0x12345678 demo_machine = Inr (True, m')"
    by (simp add: WriteMem_def Translate_def find_entry_def demo_machine_def Let_def page_defs)
  have "find_entry (0x44 div 128) demo_machine = Inr (Inr (InTable 0, \<lparr>virtualPage = 0, physicalPage = 7,
      te_valid = True, readOnly = False, te_use = False, dirty = False\<rparr>))"
    by (simp add: find_entry_def demo_machine_def)
  then show ?thesis
    using w WriteMem_confined [OF demo_machine_ok w] by (auto simp: demo_machine_def)
qed

end
