(* ===== verification/Nachos_Mips.thy ===== *)
theory Nachos_Mips
  imports Nachos_Machine
begin

unbundle bit_operations_syntax

text \<open>
  \<^verbatim>\<open>machine/mipssim.cc\<close> and \<^verbatim>\<open>machine/mipssim.h\<close>: decoding and execution of the MIPS instructions
  of user programs. The register file holds 32-bit words; C's \<^verbatim>\<open>int\<close> arithmetic on registers wraps
  around, \<^verbatim>\<open>>>\<close> on \<^verbatim>\<open>int\<close> is the arithmetic shift, and the one division the hardware traps on
  (the smallest \<^verbatim>\<open>int\<close> divided by -1) is undefined. The long \<^verbatim>\<open>switch\<close> of \<^verbatim>\<open>OneInstruction\<close> is the
  chain of the four definitions \<open>exec_ADD\<close>, \<open>exec_J\<close>, \<open>exec_MFHI\<close> and \<open>exec_SUB\<close>, each the
  next stretch of it in the order of the source.
\<close>

section \<open>Operation codes\<close>

definition OP_ADD :: nat where "OP_ADD = 1"
definition OP_ADDI :: nat where "OP_ADDI = 2"
definition OP_ADDIU :: nat where "OP_ADDIU = 3"
definition OP_ADDU :: nat where "OP_ADDU = 4"
definition OP_AND :: nat where "OP_AND = 5"
definition OP_ANDI :: nat where "OP_ANDI = 6"
definition OP_BEQ :: nat where "OP_BEQ = 7"
definition OP_BGEZ :: nat where "OP_BGEZ = 8"
definition OP_BGEZAL :: nat where "OP_BGEZAL = 9"
definition OP_BGTZ :: nat where "OP_BGTZ = 10"
definition OP_BLEZ :: nat where "OP_BLEZ = 11"
definition OP_BLTZ :: nat where "OP_BLTZ = 12"
definition OP_BLTZAL :: nat where "OP_BLTZAL = 13"
definition OP_BNE :: nat where "OP_BNE = 14"
definition OP_DIV :: nat where "OP_DIV = 16"
definition OP_DIVU :: nat where "OP_DIVU = 17"
definition OP_J :: nat where "OP_J = 18"
definition OP_JAL :: nat where "OP_JAL = 19"
definition OP_JALR :: nat where "OP_JALR = 20"
definition OP_JR :: nat where "OP_JR = 21"
definition OP_LB :: nat where "OP_LB = 22"
definition OP_LBU :: nat where "OP_LBU = 23"
definition OP_LH :: nat where "OP_LH = 24"
definition OP_LHU :: nat where "OP_LHU = 25"
definition OP_LUI :: nat where "OP_LUI = 26"
definition OP_LW :: nat where "OP_LW = 27"
definition OP_LWL :: nat where "OP_LWL = 28"
definition OP_LWR :: nat where "OP_LWR = 29"
definition OP_MFHI :: nat where "OP_MFHI = 31"
definition OP_MFLO :: nat where "OP_MFLO = 32"
definition OP_MTHI :: nat where "OP_MTHI = 34"
definition OP_MTLO :: nat where "OP_MTLO = 35"
definition OP_MULT :: nat where "OP_MULT = 36"
definition OP_MULTU :: nat where "OP_MULTU = 37"
definition OP_NOR :: nat where "OP_NOR = 38"
definition OP_OR :: nat where "OP_OR = 39"
definition OP_ORI :: nat where "OP_ORI = 40"
definition OP_RFE :: nat where "OP_RFE = 41"
definition OP_SB :: nat where "OP_SB = 42"
definition OP_SH :: nat where "OP_SH = 43"
definition OP_SLL :: nat where "OP_SLL = 44"
definition OP_SLLV :: nat where "OP_SLLV = 45"
definition OP_SLT :: nat where "OP_SLT = 46"
definition OP_SLTI :: nat where "OP_SLTI = 47"
definition OP_SLTIU :: nat where "OP_SLTIU = 48"
definition OP_SLTU :: nat where "OP_SLTU = 49"
definition OP_SRA :: nat where "OP_SRA = 50"
definition OP_SRAV :: nat where "OP_SRAV = 51"
definition OP_SRL :: nat where "OP_SRL = 52"
definition OP_SRLV :: nat where "OP_SRLV = 53"
definition OP_SUB :: nat where "OP_SUB = 54"
definition OP_SUBU :: nat where "OP_SUBU = 55"
definition OP_SW :: nat where "OP_SW = 56"
definition OP_SWL :: nat where "OP_SWL = 57"
definition OP_SWR :: nat where "OP_SWR = 58"
definition OP_XOR :: nat where "OP_XOR = 59"
definition OP_XORI :: nat where "OP_XORI = 60"
definition OP_SYSCALL :: nat where "OP_SYSCALL = 61"
definition OP_UNIMP :: nat where "OP_UNIMP = 62"
definition OP_RES :: nat where "OP_RES = 63"
definition MaxOpcode :: nat where "MaxOpcode = 63"
definition SPECIAL :: nat where "SPECIAL = 100"
definition BCOND :: nat where "BCOND = 101"
definition SIGN_BIT :: "32 word" where "SIGN_BIT = 0x80000000"
definition R31 :: nat where "R31 = 31"

lemmas op_defs = OP_ADD_def OP_ADDI_def OP_ADDIU_def OP_ADDU_def OP_AND_def OP_ANDI_def OP_BEQ_def OP_BGEZ_def
  OP_BGEZAL_def OP_BGTZ_def OP_BLEZ_def OP_BLTZ_def OP_BLTZAL_def OP_BNE_def OP_DIV_def
  OP_DIVU_def OP_J_def OP_JAL_def OP_JALR_def OP_JR_def OP_LB_def OP_LBU_def OP_LH_def OP_LHU_def
  OP_LUI_def OP_LW_def OP_LWL_def OP_LWR_def OP_MFHI_def OP_MFLO_def OP_MTHI_def OP_MTLO_def
  OP_MULT_def OP_MULTU_def OP_NOR_def OP_OR_def OP_ORI_def OP_RFE_def OP_SB_def OP_SH_def
  OP_SLL_def OP_SLLV_def OP_SLT_def OP_SLTI_def OP_SLTIU_def OP_SLTU_def OP_SRA_def OP_SRAV_def
  OP_SRL_def OP_SRLV_def OP_SUB_def OP_SUBU_def OP_SW_def OP_SWL_def OP_SWR_def OP_XOR_def
  OP_XORI_def OP_SYSCALL_def OP_UNIMP_def OP_RES_def MaxOpcode_def SPECIAL_def BCOND_def

definition IndexToAddr :: "32 word \<Rightarrow> 32 word" where
  "IndexToAddr x = push_bit 2 x"

datatype OpFormat = IFMT | JFMT | RFMT

text \<open>The tables for the opcode field and for the function field of \<^verbatim>\<open>SPECIAL\<close> instructions.\<close>

definition opTable :: "(nat \<times> OpFormat) list" where
  "opTable = [
    (SPECIAL, RFMT), (BCOND, IFMT), (OP_J, JFMT), (OP_JAL, JFMT),
    (OP_BEQ, IFMT), (OP_BNE, IFMT), (OP_BLEZ, IFMT), (OP_BGTZ, IFMT),
    (OP_ADDI, IFMT), (OP_ADDIU, IFMT), (OP_SLTI, IFMT), (OP_SLTIU, IFMT),
    (OP_ANDI, IFMT), (OP_ORI, IFMT), (OP_XORI, IFMT), (OP_LUI, IFMT),
    (OP_UNIMP, IFMT), (OP_UNIMP, IFMT), (OP_UNIMP, IFMT), (OP_UNIMP, IFMT),
    (OP_RES, IFMT), (OP_RES, IFMT), (OP_RES, IFMT), (OP_RES, IFMT),
    (OP_RES, IFMT), (OP_RES, IFMT), (OP_RES, IFMT), (OP_RES, IFMT),
    (OP_RES, IFMT), (OP_RES, IFMT), (OP_RES, IFMT), (OP_RES, IFMT),
    (OP_LB, IFMT), (OP_LH, IFMT), (OP_LWL, IFMT), (OP_LW, IFMT),
    (OP_LBU, IFMT), (OP_LHU, IFMT), (OP_LWR, IFMT), (OP_RES, IFMT),
    (OP_SB, IFMT), (OP_SH, IFMT), (OP_SWL, IFMT), (OP_SW, IFMT),
    (OP_RES, IFMT), (OP_RES, IFMT), (OP_SWR, IFMT), (OP_RES, IFMT),
    (OP_UNIMP, IFMT), (OP_UNIMP, IFMT), (OP_UNIMP, IFMT), (OP_UNIMP, IFMT),
    (OP_RES, IFMT), (OP_RES, IFMT), (OP_RES, IFMT), (OP_RES, IFMT),
    (OP_UNIMP, IFMT), (OP_UNIMP, IFMT), (OP_UNIMP, IFMT), (OP_UNIMP, IFMT),
    (OP_RES, IFMT), (OP_RES, IFMT), (OP_RES, IFMT), (OP_RES, IFMT)]"

definition specialTable :: "nat list" where
  "specialTable = [
    OP_SLL, OP_RES, OP_SRL, OP_SRA, OP_SLLV, OP_RES, OP_SRLV, OP_SRAV,
    OP_JR, OP_JALR, OP_RES, OP_RES, OP_SYSCALL, OP_UNIMP, OP_RES, OP_RES,
    OP_MFHI, OP_MTHI, OP_MFLO, OP_MTLO, OP_RES, OP_RES, OP_RES, OP_RES,
    OP_MULT, OP_MULTU, OP_DIV, OP_DIVU, OP_RES, OP_RES, OP_RES, OP_RES,
    OP_ADD, OP_ADDU, OP_SUB, OP_SUBU, OP_AND, OP_OR, OP_XOR, OP_NOR,
    OP_RES, OP_RES, OP_SLT, OP_SLTU, OP_RES, OP_RES, OP_RES, OP_RES,
    OP_RES, OP_RES, OP_RES, OP_RES, OP_RES, OP_RES, OP_RES, OP_RES,
    OP_RES, OP_RES, OP_RES, OP_RES, OP_RES, OP_RES, OP_RES, OP_RES]"

datatype RegType = NONE | RS | RT | RD | EXTRA

definition opStrings :: "(string \<times> RegType list) list" where
  "opStrings = [
    (''Shouldn't happen'', [NONE, NONE, NONE]),
    (''ADD r%d,r%d,r%d'', [RD, RS, RT]),
    (''ADDI r%d,r%d,%d'', [RT, RS, EXTRA]),
    (''ADDIU r%d,r%d,%d'', [RT, RS, EXTRA]),
    (''ADDU r%d,r%d,r%d'', [RD, RS, RT]),
    (''AND r%d,r%d,r%d'', [RD, RS, RT]),
    (''ANDI r%d,r%d,%d'', [RT, RS, EXTRA]),
    (''BEQ r%d,r%d,%d'', [RS, RT, EXTRA]),
    (''BGEZ r%d,%d'', [RS, EXTRA, NONE]),
    (''BGEZAL r%d,%d'', [RS, EXTRA, NONE]),
    (''BGTZ r%d,%d'', [RS, EXTRA, NONE]),
    (''BLEZ r%d,%d'', [RS, EXTRA, NONE]),
    (''BLTZ r%d,%d'', [RS, EXTRA, NONE]),
    (''BLTZAL r%d,%d'', [RS, EXTRA, NONE]),
    (''BNE r%d,r%d,%d'', [RS, RT, EXTRA]),
    (''Shouldn't happen'', [NONE, NONE, NONE]),
    (''DIV r%d,r%d'', [RS, RT, NONE]),
    (''DIVU r%d,r%d'', [RS, RT, NONE]),
    (''J %d'', [EXTRA, NONE, NONE]),
    (''JAL %d'', [EXTRA, NONE, NONE]),
    (''JALR r%d,r%d'', [RD, RS, NONE]),
    (''JR r%d,r%d'', [RD, RS, NONE]),
    (''LB r%d,%d(r%d)'', [RT, EXTRA, RS]),
    (''LBU r%d,%d(r%d)'', [RT, EXTRA, RS]),
    (''LH r%d,%d(r%d)'', [RT, EXTRA, RS]),
    (''LHU r%d,%d(r%d)'', [RT, EXTRA, RS]),
    (''LUI r%d,%d'', [RT, EXTRA, NONE]),
    (''LW r%d,%d(r%d)'', [RT, EXTRA, RS]),
    (''LWL r%d,%d(r%d)'', [RT, EXTRA, RS]),
    (''LWR r%d,%d(r%d)'', [RT, EXTRA, RS]),
    (''Shouldn't happen'', [NONE, NONE, NONE]),
    (''MFHI r%d'', [RD, NONE, NONE]),
    (''MFLO r%d'', [RD, NONE, NONE]),
    (''Shouldn't happen'', [NONE, NONE, NONE]),
    (''MTHI r%d'', [RS, NONE, NONE]),
    (''MTLO r%d'', [RS, NONE, NONE]),
    (''MULT r%d,r%d'', [RS, RT, NONE]),
    (''MULTU r%d,r%d'', [RS, RT, NONE]),
    (''NOR r%d,r%d,r%d'', [RD, RS, RT]),
    (''OR r%d,r%d,r%d'', [RD, RS, RT]),
    (''ORI r%d,r%d,%d'', [RT, RS, EXTRA]),
    (''RFE'', [NONE, NONE, NONE]),
    (''SB r%d,%d(r%d)'', [RT, EXTRA, RS]),
    (''SH r%d,%d(r%d)'', [RT, EXTRA, RS]),
    (''SLL r%d,r%d,%d'', [RD, RT, EXTRA]),
    (''SLLV r%d,r%d,r%d'', [RD, RT, RS]),
    (''SLT r%d,r%d,r%d'', [RD, RS, RT]),
    (''SLTI r%d,r%d,%d'', [RT, RS, EXTRA]),
    (''SLTIU r%d,r%d,%d'', [RT, RS, EXTRA]),
    (''SLTU r%d,r%d,r%d'', [RD, RS, RT]),
    (''SRA r%d,r%d,%d'', [RD, RT, EXTRA]),
    (''SRAV r%d,r%d,r%d'', [RD, RT, RS]),
    (''SRL r%d,r%d,%d'', [RD, RT, EXTRA]),
    (''SRLV r%d,r%d,r%d'', [RD, RT, RS]),
    (''SUB r%d,r%d,r%d'', [RD, RS, RT]),
    (''SUBU r%d,r%d,r%d'', [RD, RS, RT]),
    (''SW r%d,%d(r%d)'', [RT, EXTRA, RS]),
    (''SWL r%d,%d(r%d)'', [RT, EXTRA, RS]),
    (''SWR r%d,%d(r%d)'', [RT, EXTRA, RS]),
    (''XOR r%d,r%d,r%d'', [RD, RS, RT]),
    (''XORI r%d,r%d,%d'', [RT, RS, EXTRA]),
    (''SYSCALL'', [NONE, NONE, NONE]),
    (''Unimplemented'', [NONE, NONE, NONE]),
    (''Reserved'', [NONE, NONE, NONE])]"

section \<open>Decoding\<close>

record Instruction =
  i_value :: "32 word"
  opCode :: nat
  i_rs :: nat
  i_rt :: nat
  i_rd :: nat
  extra :: "32 word"

definition field :: "nat \<Rightarrow> 32 word \<Rightarrow> 32 word \<Rightarrow> nat" where
  "field k msk v = unat (drop_bit k v AND msk)"

definition Decode :: "32 word \<Rightarrow> Instruction" where
  "Decode v =
     (let (op, format) = opTable ! field 26 0x3f v;
          ext = (case format of
             IFMT \<Rightarrow> (let e = v AND 0xffff in if e AND 0x8000 \<noteq> 0 then e OR 0xffff0000 else e)
           | RFMT \<Rightarrow> drop_bit 6 v AND 0x1f
           | JFMT \<Rightarrow> v AND 0x3ffffff);
          op' = (if op = SPECIAL then specialTable ! unat (v AND 0x3f)
                 else if op = BCOND then
                   (let i = v AND 0x1f0000 in
                    if i = 0 then OP_BLTZ else if i = 0x10000 then OP_BGEZ
                    else if i = 0x100000 then OP_BLTZAL else if i = 0x110000 then OP_BGEZAL
                    else OP_UNIMP)
                 else op)
      in \<lparr>i_value = v, opCode = op', i_rs = field 21 0x1f v, i_rt = field 16 0x1f v,
          i_rd = field 11 0x1f v, extra = ext\<rparr>)"

fun TypeToReg :: "RegType \<Rightarrow> Instruction \<Rightarrow> int" where
  "TypeToReg RS instr = int (i_rs instr)"
| "TypeToReg RT instr = int (i_rt instr)"
| "TypeToReg RD instr = int (i_rd instr)"
| "TypeToReg EXTRA instr = sint (extra instr)"
| "TypeToReg NONE instr = - 1"

text \<open>The line that \<^verbatim>\<open>-d m\<close> prints for an instruction: its format and the arguments of \<^verbatim>\<open>printf\<close>.\<close>

definition trace_line :: "Instruction \<Rightarrow> (string \<times> int list) res" where
  "trace_line instr =
     andThen (ASSERT (opCode instr \<le> MaxOpcode)) (\<lambda>_.
       let (str, args) = opStrings ! opCode instr in Inr (str, map (\<lambda>r. TypeToReg r instr) args))"

section \<open>Multiplication\<close>

text \<open>The loop over the bits of \<open>a\<close>, with \<open>n\<close> iterations to go; \<open>a >>= 1\<close> keeps the sign.\<close>

fun Mult_loop :: "nat \<Rightarrow> 32 word \<Rightarrow> 32 word \<Rightarrow> 32 word \<Rightarrow> 32 word \<Rightarrow> 32 word \<Rightarrow> 32 word \<times> 32 word" where
  "Mult_loop 0 a bLo bHi lo hi = (hi, lo)"
| "Mult_loop (Suc n) a bLo bHi lo hi =
     (let odd_a = (a AND 1 \<noteq> 0);
          lo' = (if odd_a then lo + bLo else lo);
          hi' = (if odd_a then (if lo' < bLo then hi + 1 else hi) + bHi else hi)
      in if odd_a \<and> a AND 0xfffffffe = 0 then (hi', lo')
         else Mult_loop n (signed_drop_bit 1 a) (push_bit 1 bLo)
                (if bLo AND 0x80000000 \<noteq> 0 then push_bit 1 bHi OR 1 else push_bit 1 bHi) lo' hi')"

definition Mult :: "32 word \<Rightarrow> 32 word \<Rightarrow> bool \<Rightarrow> 32 word \<times> 32 word" where
  "Mult a b signedArith =
     (if a = 0 \<or> b = 0 then (0, 0)
      else
        let negative = (signedArith \<and> (sint a < 0) \<noteq> (sint b < 0));
            a' = (if signedArith \<and> sint a < 0 then - a else a);
            b' = (if signedArith \<and> sint b < 0 then - b else b);
            (hi, lo) = Mult_loop 32 a' b' 0 0 0
        in if negative then
             (let hi1 = NOT hi; lo1 = NOT lo + 1 in (if lo1 = 0 then hi1 + 1 else hi1, lo1))
           else (hi, lo))"

section \<open>Execution\<close>

text \<open>
  How the \<^verbatim>\<open>switch\<close> ends: by \<^verbatim>\<open>break\<close>, with the delayed load to register and the value for it and
  the next-but-one program counter, or by \<^verbatim>\<open>return\<close>.
\<close>

datatype 'm outcome = Break 'm "32 word" "32 word" "32 word" | Return 'm

definition cbool :: "bool \<Rightarrow> 32 word" where
  "cbool b = (if b then 1 else 0)"

definition raise_and_return ::
    "'x exn_handler \<Rightarrow> ExceptionType \<Rightarrow> 32 word \<Rightarrow> 'x Machine_scheme \<Rightarrow> 'x Machine_scheme outcome res" where
  "raise_and_return eh exc badVAddr m = andThen (RaiseException eh exc badVAddr m) (\<lambda>m'. Inr (Return m'))"

text \<open>A read or write that returns from the instruction when it trapped.\<close>

definition load_then ::
    "'x exn_handler \<Rightarrow> bool \<Rightarrow> 32 word \<Rightarrow> nat \<Rightarrow> 'x Machine_scheme \<Rightarrow>
     (32 word \<Rightarrow> 'x Machine_scheme \<Rightarrow> 'x Machine_scheme outcome res) \<Rightarrow> 'x Machine_scheme outcome res" where
  "load_then eh big addr sz m k =
     andThen (ReadMem eh big addr sz m) (\<lambda>(v, m'). case v of None \<Rightarrow> Inr (Return m') | Some x \<Rightarrow> k x m')"

definition store_then ::
    "'x exn_handler \<Rightarrow> bool \<Rightarrow> 32 word \<Rightarrow> nat \<Rightarrow> 32 word \<Rightarrow> 'x Machine_scheme \<Rightarrow>
     32 word \<Rightarrow> 'x Machine_scheme outcome res" where
  "store_then eh big addr sz v m pcAfter =
     andThen (WriteMem eh big addr sz v m) (\<lambda>(ok, m').
       if ok then Inr (Break m' 0 0 pcAfter) else Inr (Return m'))"

definition lwl_value :: "32 word \<Rightarrow> 32 word \<Rightarrow> 32 word \<Rightarrow> 32 word" where
  "lwl_value tmp old v =
     (if tmp AND 3 = 0 then v
      else if tmp AND 3 = 1 then (old AND 0xff) OR push_bit 8 v
      else if tmp AND 3 = 2 then (old AND 0xffff) OR push_bit 16 v
      else (old AND 0xffffff) OR push_bit 24 v)"

definition lwr_value :: "32 word \<Rightarrow> 32 word \<Rightarrow> 32 word \<Rightarrow> 32 word" where
  "lwr_value tmp old v =
     (if tmp AND 3 = 0 then (old AND 0xffffff00) OR (signed_drop_bit 24 v AND 0xff)
      else if tmp AND 3 = 1 then (old AND 0xffff0000) OR (signed_drop_bit 16 v AND 0xffff)
      else if tmp AND 3 = 2 then (old AND 0xff000000) OR (signed_drop_bit 8 v AND 0xffffff)
      else v)"

definition swl_value :: "32 word \<Rightarrow> 32 word \<Rightarrow> 32 word \<Rightarrow> 32 word" where
  "swl_value tmp v rt =
     (if tmp AND 3 = 0 then rt
      else if tmp AND 3 = 1 then (v AND 0xff000000) OR (signed_drop_bit 8 rt AND 0xffffff)
      else if tmp AND 3 = 2 then (v AND 0xffff0000) OR (signed_drop_bit 16 rt AND 0xffff)
      else (v AND 0xffffff00) OR (signed_drop_bit 24 rt AND 0xff))"

definition swr_value :: "32 word \<Rightarrow> 32 word \<Rightarrow> 32 word \<Rightarrow> 32 word" where
  "swr_value tmp v rt =
     (if tmp AND 3 = 0 then (v AND 0xffffff) OR push_bit 24 rt
      else if tmp AND 3 = 1 then (v AND 0xffff) OR push_bit 16 rt
      else if tmp AND 3 = 2 then (v AND 0xff) OR push_bit 8 rt
      else rt)"

text \<open>The value a pending delayed load will give to register \<open>r\<close>, or the register.\<close>

definition loaded_reg :: "'x Machine_scheme \<Rightarrow> nat \<Rightarrow> 32 word" where
  "loaded_reg m r = (if unat (reg m LoadReg) = r then reg m LoadValueReg else reg m r)"

definition exec_SUB ::
    "'x exn_handler \<Rightarrow> bool \<Rightarrow> Instruction \<Rightarrow> 32 word \<Rightarrow> 'x Machine_scheme \<Rightarrow> 'x Machine_scheme outcome res" where
  "exec_SUB eh big instr pcAfter m =
     (let op = opCode instr; rs = reg m (i_rs instr); rt = reg m (i_rt instr);
          tmp = rs + extra instr; brk = (\<lambda>m. Inr (Break m 0 0 pcAfter)) in
      if op = OP_SUB then
        (let diff = rs - rt in
         if (rs XOR rt) AND SIGN_BIT \<noteq> 0 \<and> (rs XOR diff) AND SIGN_BIT \<noteq> 0
         then raise_and_return eh OverflowException 0 m
         else brk (set_reg (i_rd instr) diff m))
      else if op = OP_SUBU then brk (set_reg (i_rd instr) (rs - rt) m)
      else if op = OP_SW then store_then eh big tmp 4 rt m pcAfter
      else if op = OP_SWL then
        andThen (ASSERT (tmp AND 3 = 0)) (\<lambda>_.
        load_then eh big (tmp AND NOT 3) 4 m (\<lambda>v m'.
          store_then eh big (tmp AND NOT 3) 4 (swl_value tmp v (reg m' (i_rt instr))) m' pcAfter))
      else if op = OP_SWR then
        andThen (ASSERT (tmp AND 3 = 0)) (\<lambda>_.
        load_then eh big (tmp AND NOT 3) 4 m (\<lambda>v m'.
          store_then eh big (tmp AND NOT 3) 4 (swr_value tmp v (reg m' (i_rt instr))) m' pcAfter))
      else if op = OP_SYSCALL then raise_and_return eh SyscallException 0 m
      else if op = OP_XOR then brk (set_reg (i_rd instr) (rs XOR rt) m)
      else if op = OP_XORI then brk (set_reg (i_rt instr) (rs XOR (extra instr AND 0xffff)) m)
      else if op = OP_RES \<or> op = OP_UNIMP then raise_and_return eh IllegalInstrException 0 m
      else Inl AssertFail)"

definition exec_MFHI ::
    "'x exn_handler \<Rightarrow> bool \<Rightarrow> Instruction \<Rightarrow> 32 word \<Rightarrow> 'x Machine_scheme \<Rightarrow> 'x Machine_scheme outcome res" where
  "exec_MFHI eh big instr pcAfter m =
     (let op = opCode instr; rs = reg m (i_rs instr); rt = reg m (i_rt instr);
          brk = (\<lambda>m. Inr (Break m 0 0 pcAfter));
          shamt = unat (rs AND 0x1f) in
      if op = OP_MFHI then brk (set_reg (i_rd instr) (reg m HiReg) m)
      else if op = OP_MFLO then brk (set_reg (i_rd instr) (reg m LoReg) m)
      else if op = OP_MTHI then brk (set_reg HiReg rs m)
      else if op = OP_MTLO then brk (set_reg LoReg rs m)
      else if op = OP_MULT then
        (let (hi, lo) = Mult rs rt True in brk (set_reg LoReg lo (set_reg HiReg hi m)))
      else if op = OP_MULTU then
        (let (hi, lo) = Mult rs rt False in brk (set_reg LoReg lo (set_reg HiReg hi m)))
      else if op = OP_NOR then brk (set_reg (i_rd instr) (NOT (rs OR rt)) m)
      else if op = OP_OR then brk (set_reg (i_rd instr) (rs OR rs) m)
      else if op = OP_ORI then brk (set_reg (i_rt instr) (rs OR (extra instr AND 0xffff)) m)
      else if op = OP_SB then store_then eh big (rs + extra instr) 1 rt m pcAfter
      else if op = OP_SH then store_then eh big (rs + extra instr) 2 rt m pcAfter
      else if op = OP_SLL then brk (set_reg (i_rd instr) (push_bit (unat (extra instr)) rt) m)
      else if op = OP_SLLV then brk (set_reg (i_rd instr) (push_bit shamt rt) m)
      else if op = OP_SLT then brk (set_reg (i_rd instr) (cbool (sint rs < sint rt)) m)
      else if op = OP_SLTI then brk (set_reg (i_rt instr) (cbool (sint rs < sint (extra instr))) m)
      else if op = OP_SLTIU then brk (set_reg (i_rt instr) (cbool (rs < extra instr)) m)
      else if op = OP_SLTU then brk (set_reg (i_rd instr) (cbool (rs < rt)) m)
      else if op = OP_SRA then brk (set_reg (i_rd instr) (signed_drop_bit (unat (extra instr)) rt) m)
      else if op = OP_SRAV then brk (set_reg (i_rd instr) (signed_drop_bit shamt rt) m)
      else if op = OP_SRL then brk (set_reg (i_rd instr) (signed_drop_bit (unat (extra instr)) rt) m)
      else if op = OP_SRLV then brk (set_reg (i_rd instr) (signed_drop_bit shamt rt) m)
      else exec_SUB eh big instr pcAfter m)"

definition exec_J ::
    "'x exn_handler \<Rightarrow> bool \<Rightarrow> Instruction \<Rightarrow> 32 word \<Rightarrow> 'x Machine_scheme \<Rightarrow> 'x Machine_scheme outcome res" where
  "exec_J eh big instr pcAfter m =
     (let op = opCode instr; rs = reg m (i_rs instr); npc = reg m NextPCReg;
          tmp = rs + extra instr; rt = word_of_nat (i_rt instr) in
      if op = OP_JAL \<or> op = OP_J then
        Inr (Break (if op = OP_JAL then set_reg R31 (npc + 4) m else m) 0 0
               ((pcAfter AND 0xf0000000) OR IndexToAddr (extra instr)))
      else if op = OP_JALR \<or> op = OP_JR then
        (let m' = (if op = OP_JALR then set_reg (i_rd instr) (npc + 4) m else m)
         in Inr (Break m' 0 0 (reg m' (i_rs instr))))
      else if op = OP_LB \<or> op = OP_LBU then
        load_then eh big tmp 1 m (\<lambda>v m'.
          Inr (Break m' rt (if v AND 0x80 \<noteq> 0 \<and> op = OP_LB then v OR 0xffffff00 else v AND 0xff) pcAfter))
      else if op = OP_LH \<or> op = OP_LHU then
        (if tmp AND 1 \<noteq> 0 then raise_and_return eh AddressErrorException tmp m
         else load_then eh big tmp 2 m (\<lambda>v m'.
           Inr (Break m' rt (if v AND 0x8000 \<noteq> 0 \<and> op = OP_LH then v OR 0xffff0000 else v AND 0xffff) pcAfter)))
      else if op = OP_LUI then Inr (Break (set_reg (i_rt instr) (push_bit 16 (extra instr)) m) 0 0 pcAfter)
      else if op = OP_LW then
        (if tmp AND 3 \<noteq> 0 then raise_and_return eh AddressErrorException tmp m
         else load_then eh big tmp 4 m (\<lambda>v m'. Inr (Break m' rt v pcAfter)))
      else if op = OP_LWL then
        andThen (ASSERT (tmp AND 3 = 0)) (\<lambda>_.
        load_then eh big tmp 4 m (\<lambda>v m'.
          Inr (Break m' rt (lwl_value tmp (loaded_reg m' (i_rt instr)) v) pcAfter)))
      else if op = OP_LWR then
        andThen (ASSERT (tmp AND 3 = 0)) (\<lambda>_.
        load_then eh big tmp 4 m (\<lambda>v m'.
          Inr (Break m' rt (lwr_value tmp (loaded_reg m' (i_rt instr)) v) pcAfter)))
      else exec_MFHI eh big instr pcAfter m)"

definition exec_ADD ::
    "'x exn_handler \<Rightarrow> bool \<Rightarrow> Instruction \<Rightarrow> 32 word \<Rightarrow> 'x Machine_scheme \<Rightarrow> 'x Machine_scheme outcome res" where
  "exec_ADD eh big instr pcAfter m =
     (let op = opCode instr; rs = reg m (i_rs instr); rt = reg m (i_rt instr); npc = reg m NextPCReg;
          brk = (\<lambda>m. Inr (Break m 0 0 pcAfter));
          branch = (\<lambda>taken m. Inr (Break m 0 0 (if taken then npc + IndexToAddr (extra instr) else pcAfter))) in
      if op = OP_ADD then
        (let sum = rs + rt in
         if \<not> ((rs XOR rt) AND SIGN_BIT \<noteq> 0) \<and> (rs XOR sum) AND SIGN_BIT \<noteq> 0
         then raise_and_return eh OverflowException 0 m
         else brk (set_reg (i_rd instr) sum m))
      else if op = OP_ADDI then
        (let sum = rs + extra instr in
         if \<not> ((rs XOR extra instr) AND SIGN_BIT \<noteq> 0) \<and> (extra instr XOR sum) AND SIGN_BIT \<noteq> 0
         then raise_and_return eh OverflowException 0 m
         else brk (set_reg (i_rt instr) sum m))
      else if op = OP_ADDIU then brk (set_reg (i_rt instr) (rs + extra instr) m)
      else if op = OP_ADDU then brk (set_reg (i_rd instr) (rs + rt) m)
      else if op = OP_AND then brk (set_reg (i_rd instr) (rs AND rt) m)
      else if op = OP_ANDI then brk (set_reg (i_rt instr) (rs AND (extra instr AND 0xffff)) m)
      else if op = OP_BEQ then branch (rs = rt) m
      else if op = OP_BGEZAL \<or> op = OP_BGEZ then
        (let m' = (if op = OP_BGEZAL then set_reg R31 (npc + 4) m else m)
         in branch (reg m' (i_rs instr) AND SIGN_BIT = 0) m')
      else if op = OP_BGTZ then branch (sint rs > 0) m
      else if op = OP_BLEZ then branch (sint rs \<le> 0) m
      else if op = OP_BLTZAL \<or> op = OP_BLTZ then
        (let m' = (if op = OP_BLTZAL then set_reg R31 (npc + 4) m else m)
         in branch (reg m' (i_rs instr) AND SIGN_BIT \<noteq> 0) m')
      else if op = OP_BNE then branch (rs \<noteq> rt) m
      else if op = OP_DIV then
        (if rt = 0 then brk (set_reg HiReg 0 (set_reg LoReg 0 m))
         else if rs = SIGN_BIT \<and> rt = - 1 then Inl Undefined
         else brk (set_reg HiReg (word_of_int (cmod (sint rs) (sint rt)))
                (set_reg LoReg (word_of_int (cdiv (sint rs) (sint rt))) m)))
      else if op = OP_DIVU then
        (if rt = 0 then brk (set_reg HiReg 0 (set_reg LoReg 0 m))
         else brk (set_reg HiReg (rs mod rt) (set_reg LoReg (rs div rt) m)))
      else exec_J eh big instr pcAfter m)"

lemmas exec_defs = exec_ADD_def exec_J_def exec_MFHI_def exec_SUB_def

definition OneInstruction ::
    "'x exn_handler \<Rightarrow> bool \<Rightarrow> 'x Machine_scheme \<Rightarrow> 'x Machine_scheme res" where
  "OneInstruction eh big m =
     andThen (ReadMem eh big (reg m PCReg) 4 m) (\<lambda>(raw, m1).
       case raw of None \<Rightarrow> Inr m1
       | Some v \<Rightarrow>
           andThen (exec_ADD eh big (Decode v) (reg m1 NextPCReg + 4) m1) (\<lambda>out.
             case out of Return m2 \<Rightarrow> Inr m2
             | Break m2 nextLoadReg nextLoadValue pcAfter \<Rightarrow>
                 andThen (DelayedLoad nextLoadReg nextLoadValue m2) (\<lambda>m3.
                   Inr (set_reg NextPCReg pcAfter (set_reg PCReg (reg m3 NextPCReg)
                          (set_reg PrevPCReg (reg m3 PCReg) m3))))))"

text \<open>
  One round of the endless loop of \<^verbatim>\<open>Run\<close>, and \<open>n\<close> rounds from its start; the interactive
  \<^verbatim>\<open>Debugger\<close> is the argument \<open>dbg\<close>.
\<close>

definition Run_round ::
    "'x exn_handler \<Rightarrow> bool \<Rightarrow> (PendingInterrupt \<Rightarrow> 'x Machine_scheme \<Rightarrow> 'x Machine_scheme res) \<Rightarrow>
     ('x Machine_scheme \<Rightarrow> 'x Machine_scheme res) \<Rightarrow> ('x Machine_scheme \<Rightarrow> 'x Machine_scheme res) \<Rightarrow>
     'x Machine_scheme \<Rightarrow> 'x Machine_scheme res" where
  "Run_round eh big run yield dbg m =
     andThen (OneInstruction eh big m) (\<lambda>m1.
     andThen (OneTick run (DelayedLoad 0 0) yield m1) (\<lambda>m2.
       if singleStep m2 \<and> runUntilTime m2 \<le> now m2 then dbg m2 else Inr m2))"

fun Run_rounds ::
    "'x exn_handler \<Rightarrow> bool \<Rightarrow> (PendingInterrupt \<Rightarrow> 'x Machine_scheme \<Rightarrow> 'x Machine_scheme res) \<Rightarrow>
     ('x Machine_scheme \<Rightarrow> 'x Machine_scheme res) \<Rightarrow> ('x Machine_scheme \<Rightarrow> 'x Machine_scheme res) \<Rightarrow>
     nat \<Rightarrow> 'x Machine_scheme \<Rightarrow> 'x Machine_scheme res" where
  "Run_rounds eh big run yield dbg 0 m = Inr m"
| "Run_rounds eh big run yield dbg (Suc n) m =
     andThen (Run_round eh big run yield dbg m) (Run_rounds eh big run yield dbg n)"

definition Run ::
    "'x exn_handler \<Rightarrow> bool \<Rightarrow> (PendingInterrupt \<Rightarrow> 'x Machine_scheme \<Rightarrow> 'x Machine_scheme res) \<Rightarrow>
     ('x Machine_scheme \<Rightarrow> 'x Machine_scheme res) \<Rightarrow> ('x Machine_scheme \<Rightarrow> 'x Machine_scheme res) \<Rightarrow>
     nat \<Rightarrow> 'x Machine_scheme \<Rightarrow> 'x Machine_scheme res" where
  "Run eh big run yield dbg n m = Run_rounds eh big run yield dbg n (m\<lparr>status := UserMode\<rparr>)"

section \<open>Multiplication is exact\<close>

definition w64 :: "32 word \<Rightarrow> 32 word \<Rightarrow> 64 word" where
  "w64 hi lo = push_bit 32 (ucast hi) OR ucast lo"

lemma bit_w64: "n < 64 \<Longrightarrow> bit (w64 hi lo) n \<longleftrightarrow> (if n < 32 then bit lo n else bit hi (n - 32))"
  using bit_imp_le_length [of lo n] by (auto simp: w64_def bit_simps)

lemma w64_sum: "w64 hi lo = ucast hi * 2 ^ 32 + ucast lo"
proof -
  have "push_bit 32 (ucast hi) + ucast lo = (push_bit 32 (ucast hi) OR ucast lo :: 64 word)"
    by (rule disjunctive_add) (auto simp: bit_simps dest: bit_imp_le_length)
  then show ?thesis by (simp add: w64_def push_bit_eq_mult mult.commute)
qed

lemma ucast_plus_carry:
  "(ucast (x + y) :: 64 word) = ucast x + ucast y - (if x + y < y then 2 ^ 32 else 0)" for x y :: "32 word"
proof (cases "uint x + uint y < 2 ^ 32")
  case True
  then have u: "uint (x + y) = uint x + uint y" by (simp add: uint_plus_if')
  then have "\<not> x + y < y" using uint_ge_0 [of x] unfolding word_less_def by linarith
  then show ?thesis unfolding ucast_eq u by (simp only: if_False of_int_add diff_zero)
next
  case False
  then have u: "uint (x + y) = uint x + uint y - 2 ^ 32" by (simp add: uint_plus_if')
  then have "x + y < y" using uint_lt2p [of x] unfolding word_less_def by simp
  then show ?thesis unfolding ucast_eq u
    by (simp only: if_True of_int_add of_int_diff of_int_power of_int_numeral)
qed

lemma exp64: "(2 ^ 32 * 2 ^ 32 :: 64 word) = 0"
proof -
  have "(2 ^ 32 * 2 ^ 32 :: 64 word) = 2 ^ 64" by (subst power_add [symmetric]) simp
  also have "\<dots> = 0" by (subst word_exp_length_eq_0 [symmetric, where 'a = 64]) simp
  finally show ?thesis .
qed

lemma ucast_plus_high: "(ucast (x + y) :: 64 word) * 2 ^ 32 = (ucast x + ucast y) * 2 ^ 32" for x y :: "32 word"
  unfolding ucast_plus_carry left_diff_distrib
  by (cases "x + y < y") (simp_all only: if_True if_False exp64 mult_zero_left diff_zero)

lemma w64_add:
  "w64 ((if lo + bLo < bLo then hi + 1 else hi) + bHi) (lo + bLo) = w64 hi lo + w64 bHi bLo"
proof -
  have "(ucast (if lo + bLo < bLo then hi + 1 else hi) :: 64 word) * 2 ^ 32 =
      ucast hi * 2 ^ 32 + (if lo + bLo < bLo then 2 ^ 32 else 0)"
    using ucast_plus_high [of hi 1] by (simp add: algebra_simps)
  then show ?thesis
    unfolding w64_sum ucast_plus_high ucast_plus_carry [of lo bLo] distrib_right by simp
qed

lemma w64_double:
  "w64 (if bLo AND 0x80000000 \<noteq> 0 then push_bit 1 bHi OR 1 else push_bit 1 bHi) (push_bit 1 bLo) = 2 * w64 bHi bLo"
proof (rule bit_word_eqI)
  fix n assume n: "n < LENGTH(64)"
  have top: "bLo AND 0x80000000 \<noteq> 0 \<longleftrightarrow> bit bLo 31"
  proof -
    have "bLo AND push_bit 31 1 \<noteq> 0 \<longleftrightarrow> bit bLo 31" by (rule bit_iff_and_push_bit_not_eq_0 [symmetric])
    then show ?thesis by simp
  qed
  define L H D where "L = push_bit 1 bLo" and "H = push_bit 1 bHi" and "D = push_bit 1 (w64 bHi bLo)"
  have L: "bit L k \<longleftrightarrow> 0 < k \<and> bit bLo (k - 1)" if "k < 32" for k
    unfolding L_def bit_push_bit_iff using that by (cases k) auto
  have H: "bit H k \<longleftrightarrow> 0 < k \<and> bit bHi (k - 1)" if "k < 32" for k
    unfolding H_def bit_push_bit_iff using that by (cases k) auto
  have D: "bit D n \<longleftrightarrow> 0 < n \<and> bit (w64 bHi bLo) (n - 1)"
    unfolding D_def bit_push_bit_iff using n by (cases n) auto
  have "2 * w64 bHi bLo = D" by (simp add: D_def)
  moreover have "bit (w64 (if bit bLo 31 then H OR 1 else H) L) n = bit D n"
  proof (cases "n < 32")
    case True
    then have "n - 1 < 32" by simp
    then show ?thesis using n True by (simp add: bit_w64 L D)
  next
    case False
    then have "n - Suc 0 < 32 \<longleftrightarrow> n = 32" "n - Suc 0 = 31 \<longleftrightarrow> n = 32" "n - 32 - 1 = n - 1 - 32" by auto
    then show ?thesis using n False D
      by (cases "n = 32") (simp_all add: bit_w64 H bit_or_iff bit_1_iff)
  qed
  ultimately show "bit (w64 (if bLo AND 0x80000000 \<noteq> 0 then push_bit 1 bHi OR 1 else push_bit 1 bHi) (push_bit 1 bLo)) n =
      bit (2 * w64 bHi bLo) n"
    unfolding top L_def H_def by simp
qed

lemma w64_neg:
  "w64 (if NOT lo + 1 = 0 then NOT hi + 1 else NOT hi) (NOT lo + 1) = - w64 hi lo"
proof -
  have n: "w64 (NOT hi) (NOT lo) = NOT (w64 hi lo)"
    by (rule bit_word_eqI) (auto simp: bit_w64 bit_simps)
  have "NOT lo + 1 < 1 \<longleftrightarrow> NOT lo + 1 = 0" by (simp add: word_less_1)
  then have "w64 (if NOT lo + 1 = 0 then NOT hi + 1 else NOT hi) (NOT lo + 1) = w64 (NOT hi) (NOT lo) + w64 0 1"
    using w64_add [of "NOT lo" 1 "NOT hi" 0] by simp
  also have "w64 0 1 = 1" by (simp add: w64_sum)
  finally show ?thesis using n by (simp add: minus_eq_not_plus_1)
qed
lemma ucast_take_bit_Suc:
  fixes a :: "32 word"
  assumes "Suc n \<le> 32"
  shows "(ucast (take_bit (Suc n) a) :: 64 word) =
    (if a AND 1 \<noteq> 0 then 1 else 0) + 2 * ucast (take_bit n (signed_drop_bit 1 a))"
proof -
  define S :: "64 word" where "S = push_bit 1 (ucast (take_bit n (signed_drop_bit 1 a)))"
  have S: "bit S k \<longleftrightarrow> 0 < k \<and> k < Suc n \<and> bit a k" if "k < 64" for k
    unfolding S_def bit_push_bit_iff using that assms
    by (cases k) (auto simp: bit_simps not_le)
  have "a AND 1 \<noteq> 0 \<longleftrightarrow> bit a 0" using bit_iff_and_push_bit_not_eq_0 [of a 0] by simp
  moreover have "(if bit a 0 then 1 else 0) + S = ((if bit a 0 then 1 else 0) OR S)"
    by (rule disjunctive_add) (use S [of 0] in \<open>auto simp: bit_1_iff\<close>)
  moreover have "ucast (take_bit (Suc n) a) = ((if bit a 0 then 1 else 0) OR S)"
    by (rule bit_word_eqI) (auto simp: bit_or_iff S bit_simps bit_1_iff intro: gr0I)
  moreover have "2 * ucast (take_bit n (signed_drop_bit 1 a)) = S" by (simp add: S_def)
  ultimately show ?thesis by simp
qed

lemma only_low_bit:
  assumes "a AND 1 \<noteq> 0 \<and> a AND 0xfffffffe = 0"
  shows "a = (1 :: 32 word)"
proof (rule bit_word_eqI)
  fix n assume n: "n < LENGTH(32)"
  have "(0xfffffffe :: 32 word) = NOT 1" by simp
  then have "a AND NOT 1 = 0" using assms by metis
  then have "\<not> bit (a AND NOT 1) n" by (simp only: bit_0_eq bot_apply bot_bool_def not_False_eq_True)
  then have "n = 0 \<or> \<not> bit a n" using n by (auto simp: bit_simps bit_1_iff)
  moreover have "bit a 0" using assms bit_iff_and_push_bit_not_eq_0 [of a 0] by simp
  ultimately show "bit a n = bit 1 n" by (auto simp: bit_1_iff)
qed

lemma Mult_loop_exact:
  "n \<le> 32 \<Longrightarrow> Mult_loop n a bLo bHi lo hi = (h, l) \<Longrightarrow>
     w64 h l = w64 hi lo + w64 bHi bLo * ucast (take_bit n a)"
proof (induction n a bLo bHi lo hi rule: Mult_loop.induct)
  case (1 a bLo bHi lo hi)
  then show ?case by simp
next
  case (2 n a bLo bHi lo hi)
  let ?odd = "a AND 1 \<noteq> 0"
  let ?lo = "if ?odd then lo + bLo else lo"
  let ?hi = "if ?odd then (if ?lo < bLo then hi + 1 else hi) + bHi else hi"
  have acc: "w64 ?hi ?lo = w64 hi lo + (if ?odd then w64 bHi bLo else 0)"
    using w64_add [of lo bLo hi bHi] by simp
  show ?case
  proof (cases "?odd \<and> a AND 0xfffffffe = 0")
    case True
    then have hl: "h = ?hi \<and> l = ?lo" using 2(3) by (auto simp: Let_def)
    have "a = 1" using only_low_bit True by blast
    moreover have "ucast (take_bit (Suc n) (1 :: 32 word)) = (1 :: 64 word)" by simp
    ultimately show ?thesis using acc True unfolding hl [THEN conjunct1] hl [THEN conjunct2] by simp
  next
    case False
    let ?bHi = "if bLo AND 0x80000000 \<noteq> 0 then push_bit 1 bHi OR 1 else push_bit 1 bHi"
    have r: "Mult_loop n (signed_drop_bit 1 a) (push_bit 1 bLo) ?bHi ?lo ?hi = (h, l)"
      using 2(3) False by (simp add: Let_def)
    have "w64 h l = w64 ?hi ?lo + w64 ?bHi (push_bit 1 bLo) * ucast (take_bit n (signed_drop_bit 1 a))"
      using 2(1) [OF refl refl refl False Suc_leD [OF 2(2)] r] .
    also have "\<dots> = w64 hi lo + w64 bHi bLo * ucast (take_bit (Suc n) a)"
      unfolding acc w64_double ucast_take_bit_Suc [OF 2(2)] by (simp add: algebra_simps)
    finally show ?thesis .
  qed
qed

lemma ucast_abs:
  fixes a :: "32 word"
  shows "sint a < 0 \<Longrightarrow> (ucast (- a) :: 64 word) = - word_of_int (sint a)"
    and "0 \<le> sint a \<Longrightarrow> (ucast a :: 64 word) = word_of_int (sint a)"
proof -
  have r: "- (2 ^ 31) \<le> sint a" "sint a < 2 ^ 31" using sint_range_size [of a] by (simp_all add: word_size)
  assume n: "sint a < 0"
  have "- a = word_of_int (- sint a)" by simp
  then have "uint (- a) = uint (word_of_int (- sint a) :: 32 word)" by (rule arg_cong)
  also have "\<dots> = (- sint a) mod 2 ^ 32" unfolding uint_word_of_int by simp
  also have "\<dots> = - sint a" using r n by (intro mod_pos_pos_trivial) simp_all
  finally show "(ucast (- a) :: 64 word) = - word_of_int (sint a)" unfolding ucast_eq by simp
next
  have r: "sint a < 2 ^ 31" using sint_range_size [of a] by (simp_all add: word_size)
  assume n: "0 \<le> sint a"
  have "a = word_of_int (sint a)" by simp
  then have "uint a = uint (word_of_int (sint a) :: 32 word)" by (rule arg_cong)
  also have "\<dots> = sint a mod 2 ^ 32" unfolding uint_word_of_int by simp
  also have "\<dots> = sint a" using r n by (intro mod_pos_pos_trivial) simp_all
  finally show "(ucast a :: 64 word) = word_of_int (sint a)" unfolding ucast_eq by simp
qed

lemma Mult_loop_start:
  "Mult_loop 32 a b 0 0 0 = (h, l) \<Longrightarrow> w64 h l = ucast a * ucast b"
  using Mult_loop_exact [of 32 a b 0 0 0 h l] by (simp add: w64_sum take_bit_word_eq_self mult.commute)

lemma Mult_unsigned_word: "Mult a b False = (h, l) \<Longrightarrow> w64 h l = ucast a * ucast b"
  by (cases "a = 0 \<or> b = 0") (auto simp: Mult_def Mult_loop_start, auto simp: w64_sum)

lemma Mult_signed_word: "Mult a b True = (h, l) \<Longrightarrow> w64 h l = word_of_int (sint a * sint b)"
proof (cases "a = 0 \<or> b = 0")
  case True
  assume "Mult a b True = (h, l)"
  then show ?thesis using True by (auto simp: Mult_def w64_sum)
next
  case False
  let ?a = "if sint a < 0 then - a else a" and ?b = "if sint b < 0 then - b else b"
  obtain h1 l1 where l: "Mult_loop 32 ?a ?b 0 0 0 = (h1, l1)" by (cases "Mult_loop 32 ?a ?b 0 0 0")
  have p: "w64 h1 l1 = ucast ?a * ucast ?b" by (rule Mult_loop_start [OF l])
  assume "Mult a b True = (h, l)"
  then have "w64 h l = (if (sint a < 0) \<noteq> (sint b < 0) then - w64 h1 l1 else w64 h1 l1)"
    using False l w64_neg [of l1 h1] unfolding Mult_def by (auto simp: Let_def split: if_splits)
  also have "\<dots> = word_of_int (sint a) * word_of_int (sint b)"
    unfolding p using ucast_abs [of a] ucast_abs [of b] by (auto simp: not_less)
  finally show ?thesis by simp
qed

text \<open>
  \<^verbatim>\<open>MULT\<close> and \<^verbatim>\<open>MULTU\<close> compute the exact 64-bit product: the high and low word that
  \<^verbatim>\<open>Mult\<close> leaves are, read together, the product of the operands read as signed or as unsigned
  numbers, although its loop shifts the first operand arithmetically and stops early.
\<close>

theorem Mult_exact:
  "(let (hi, lo) = Mult a b True in sint (w64 hi lo) = sint a * sint b) \<and>
   (let (hi, lo) = Mult a b False in uint (w64 hi lo) = uint a * uint b)"
proof -
  obtain h l where s: "Mult a b True = (h, l)" by (cases "Mult a b True")
  obtain h' l' where u: "Mult a b False = (h', l')" by (cases "Mult a b False")
  have ra: "\<bar>sint a\<bar> \<le> 2 ^ 31" "\<bar>sint b\<bar> \<le> 2 ^ 31"
    using sint_range_size [of a] sint_range_size [of b] by (simp_all add: word_size abs_le_iff)
  then have "\<bar>sint a * sint b\<bar> \<le> 2 ^ 31 * 2 ^ 31" unfolding abs_mult by (intro mult_mono) simp_all
  then have "sint (word_of_int (sint a * sint b) :: 64 word) = sint a * sint b"
    unfolding int_word_sint by (subst mod_pos_pos_trivial) (simp_all add: abs_le_iff)
  moreover have "uint (word_of_int (uint a * uint b) :: 64 word) = uint a * uint b"
  proof -
    have "uint a * uint b < 2 ^ 32 * 2 ^ 32"
      using uint_lt2p [of a] uint_lt2p [of b] uint_ge_0 [of a] uint_ge_0 [of b]
      by (intro mult_strict_mono) simp_all
    then have lt: "uint a * uint b < 2 ^ LENGTH(64)" by (rule less_le_trans) simp
    have ge: "0 \<le> uint a * uint b" by (intro mult_nonneg_nonneg uint_ge_0)
    show ?thesis unfolding uint_word_of_int by (rule mod_pos_pos_trivial [OF ge lt])
  qed
  moreover have "w64 h' l' = word_of_int (uint a * uint b)"
    using Mult_unsigned_word [OF u] unfolding ucast_eq of_int_mult .
  ultimately show ?thesis using s u Mult_signed_word [OF s] by simp
qed

section \<open>Overflow traps\<close>

lemma bit_31_iff: "bit w 31 \<longleftrightarrow> sint w < 0" for w :: "32 word"
  by (simp add: sint_uint bit_uint_iff)

lemma sign_bit_iff: "w AND SIGN_BIT \<noteq> 0 \<longleftrightarrow> bit w 31" for w :: "32 word"
proof -
  have "w AND push_bit 31 1 \<noteq> 0 \<longleftrightarrow> bit w 31" by (rule bit_iff_and_push_bit_not_eq_0 [symmetric])
  then show ?thesis by (simp add: SIGN_BIT_def)
qed

lemma sign_xor: "(a XOR b) AND SIGN_BIT \<noteq> 0 \<longleftrightarrow> (sint a < 0) \<noteq> (sint b < 0)" for a b :: "32 word"
  unfolding sign_bit_iff bit_xor_iff unfolding bit_31_iff ..

lemma sint_range32: "- (2 ^ 31) \<le> sint w \<and> sint w < 2 ^ 31" for w :: "32 word"
  using sint_range_size [of w] by (simp add: word_size)

lemma sint_word32:
  assumes "- (2 ^ 32) \<le> s" "s < 2 ^ 32"
  shows "sint (word_of_int s :: 32 word) =
    (if s < - (2 ^ 31) then s + 2 ^ 32 else if 2 ^ 31 \<le> s then s - 2 ^ 32 else s)"
proof -
  have "sint (word_of_int s :: 32 word) = (s + 2 ^ 31) mod 2 ^ 32 - 2 ^ 31"
    unfolding int_word_sint by simp
  moreover have "(s + 2 ^ 31) mod 2 ^ 32 = (if s < - (2 ^ 31) then s + 2 ^ 31 + 2 ^ 32
      else if 2 ^ 31 \<le> s then s + 2 ^ 31 - 2 ^ 32 else s + 2 ^ 31)"
    using assms mod_add_self2 [of "s + 2 ^ 31" "2 ^ 32"] mod_diff_right_eq [of "s + 2 ^ 31" "2 ^ 32" "2 ^ 32"]
    by (auto simp: mod_pos_pos_trivial)
  ultimately show ?thesis by auto
qed

definition fits_int32 :: "int \<Rightarrow> bool" where
  "fits_int32 n \<longleftrightarrow> - (2 ^ 31) \<le> n \<and> n < 2 ^ 31"

lemma add_overflow_iff:
  "(\<not> ((a XOR b) AND SIGN_BIT \<noteq> 0) \<and> (a XOR (a + b)) AND SIGN_BIT \<noteq> 0) \<longleftrightarrow> \<not> fits_int32 (sint a + sint b)"
proof -
  have "a + b = word_of_int (sint a + sint b)" by simp
  then have "sint (a + b) = (let s = sint a + sint b in
      if s < - (2 ^ 31) then s + 2 ^ 32 else if 2 ^ 31 \<le> s then s - 2 ^ 32 else s)"
    using sint_word32 [of "sint a + sint b"] sint_range32 [of a] sint_range32 [of b] by simp
  then show ?thesis
    unfolding sign_xor fits_int32_def Let_def
    using sint_range32 [of a] sint_range32 [of b] by (auto split: if_splits)
qed

lemma sub_overflow_iff:
  "((a XOR b) AND SIGN_BIT \<noteq> 0 \<and> (a XOR (a - b)) AND SIGN_BIT \<noteq> 0) \<longleftrightarrow> \<not> fits_int32 (sint a - sint b)"
proof -
  have "a - b = word_of_int (sint a - sint b)" by simp
  then have "sint (a - b) = (let s = sint a - sint b in
      if s < - (2 ^ 31) then s + 2 ^ 32 else if 2 ^ 31 \<le> s then s - 2 ^ 32 else s)"
    using sint_word32 [of "sint a - sint b"] sint_range32 [of a] sint_range32 [of b] by simp
  then show ?thesis
    unfolding sign_xor fits_int32_def Let_def
    using sint_range32 [of a] sint_range32 [of b] by (auto split: if_splits)
qed

section \<open>The register file\<close>

definition regs_wf :: "'x Machine_scheme \<Rightarrow> bool" where
  "regs_wf m \<longleftrightarrow> length (registers m) = NumTotalRegs \<and> unat (reg m LoadReg) < NumGPRegs"

definition mach_ok :: "'x Machine_scheme \<Rightarrow> bool" where
  "mach_ok m \<longleftrightarrow> regs_wf m \<and> reg m 0 = 0 \<and> xlate_ok m"


lemma xlate_ok_cong:
  "tlb m' = tlb m \<Longrightarrow> pageTable m' = pageTable m \<Longrightarrow> pageTableSize m' = pageTableSize m \<Longrightarrow> xlate_ok m' = xlate_ok m"
  unfolding xlate_ok_def by (simp split: option.split)

lemma xlate_ok_fields [simp]:
  "xlate_ok (m\<lparr>mainMemory := mem\<rparr>) = xlate_ok m" "xlate_ok (m\<lparr>status := st\<rparr>) = xlate_ok m"
  "xlate_ok (m\<lparr>registers := rs\<rparr>) = xlate_ok m" "xlate_ok (touch_page pa m) = xlate_ok m"
  by (rule xlate_ok_cong; simp add: touch_page_def)+

lemma set_reg_simps [simp]:
  "length (registers (set_reg i v m)) = length (registers m)"
  "i < length (registers m) \<Longrightarrow> reg (set_reg i v m) i = v"
  "i \<noteq> j \<Longrightarrow> reg (set_reg i v m) j = reg m j"
  "xlate_ok (set_reg i v m) = xlate_ok m"
  "mainMemory (set_reg i v m) = mainMemory m"
  by (simp_all add: set_reg_def)

lemma regs_wf_set_reg [simp]: "regs_wf m \<Longrightarrow> i \<noteq> LoadReg \<Longrightarrow> regs_wf (set_reg i v m)"
  by (simp add: regs_wf_def)



lemma xlate_ok_update [simp]: "xlate_ok (update_entry ref e m) = xlate_ok m"
  by (cases ref) (auto simp: xlate_ok_def split: option.splits)

lemma registers_touch [simp]: "registers (touch_page pa m) = registers m"
  by (simp add: touch_page_def)



section \<open>Every instruction\<close>

text \<open>
  The two ways a user program can stop the simulator itself: an unaligned \<^verbatim>\<open>LWL\<close>, \<^verbatim>\<open>LWR\<close>, \<^verbatim>\<open>SWL\<close> or
  \<^verbatim>\<open>SWR\<close> fails an assertion, and \<^verbatim>\<open>DIV\<close> of the smallest integer by -1 is undefined on the host.
\<close>

definition user_fault :: "Instruction \<Rightarrow> 'x Machine_scheme \<Rightarrow> fault \<Rightarrow> bool" where
  "user_fault instr m e \<longleftrightarrow>
     (e = AssertFail \<and> opCode instr \<in> {OP_LWL, OP_LWR, OP_SWL, OP_SWR} \<and>
        (reg m (i_rs instr) + extra instr) AND 3 \<noteq> 0) \<or>
     (e = Undefined \<and> opCode instr = OP_DIV \<and> reg m (i_rs instr) = SIGN_BIT \<and> reg m (i_rt instr) = - 1)"

text \<open>The registers above the multiplier's: program counters, delayed load, bad address.\<close>

definition ctl_same :: "'x Machine_scheme \<Rightarrow> 'x Machine_scheme \<Rightarrow> bool" where
  "ctl_same m m' \<longleftrightarrow> (\<forall>r \<in> {34..<40}. reg m' r = reg m r)"

lemma ctl_same_simps [simp]:
  "ctl_same m m" "i < 34 \<Longrightarrow> ctl_same m (set_reg i v m') = ctl_same m m'"
  by (auto simp: ctl_same_def)


lemma data_regs [simp]: "HiReg < 34" "LoReg < 34" "R31 < 34" "n < 32 \<Longrightarrow> n < (34 :: nat)"
  by (simp_all add: reg_defs R31_def)

definition exec_ok :: "Instruction \<Rightarrow> 'x Machine_scheme \<Rightarrow> 'x Machine_scheme outcome res \<Rightarrow> bool" where
  "exec_ok instr m r \<longleftrightarrow>
     (case r of Inl e \<Rightarrow> user_fault instr m e
      | Inr (Return m') \<Rightarrow> mach_ok m'
      | Inr (Break m' nr nv pc) \<Rightarrow> regs_wf m' \<and> xlate_ok m' \<and> ctl_same m m' \<and> unat nr < NumGPRegs)"


lemma exec_ok_Break [simp]:
  "exec_ok i m (Inr (Break m' nr nv pc)) \<longleftrightarrow> regs_wf m' \<and> xlate_ok m' \<and> ctl_same m m' \<and> unat nr < NumGPRegs"
  by (simp add: exec_ok_def)









lemma special_ne [simp]: "n < 32 \<Longrightarrow> n \<noteq> LoadReg" "HiReg \<noteq> LoadReg" "LoReg \<noteq> LoadReg" "R31 \<noteq> LoadReg"
  by (auto simp: reg_defs R31_def)

lemma zero_gp [simp]: "0 < NumGPRegs"
  by (simp add: NumGPRegs_def)







section \<open>Decoding\<close>






lemma Decode_simps [simp]:
  "i_rs (Decode v) = field 21 0x1f v" "i_rt (Decode v) = field 16 0x1f v" "i_rd (Decode v) = field 11 0x1f v"
  by (simp_all add: Decode_def split: prod.split)



section \<open>Properties of the instruction cycle\<close>









text \<open>
  Property C31. Signed arithmetic traps exactly on overflow: \<^verbatim>\<open>ADD\<close>, \<^verbatim>\<open>ADDI\<close> and \<^verbatim>\<open>SUB\<close> store the exact
  result when it fits 32 bits and otherwise raise \<^verbatim>\<open>OverflowException\<close> without writing a register.
\<close>

theorem arithmetic_traps_exactly:
  "exec_ADD eh big (i\<lparr>opCode := OP_ADD\<rparr>) pc m =
     (let s = sint (reg m (i_rs i)) + sint (reg m (i_rt i)) in
      if fits_int32 s then Inr (Break (set_reg (i_rd i) (word_of_int s) m) 0 0 pc)
      else raise_and_return eh OverflowException 0 m) \<and>
   exec_ADD eh big (i\<lparr>opCode := OP_ADDI\<rparr>) pc m =
     (let s = sint (reg m (i_rs i)) + sint (extra i) in
      if fits_int32 s then Inr (Break (set_reg (i_rt i) (word_of_int s) m) 0 0 pc)
      else raise_and_return eh OverflowException 0 m) \<and>
   exec_ADD eh big (i\<lparr>opCode := OP_SUB\<rparr>) pc m =
     (let s = sint (reg m (i_rs i)) - sint (reg m (i_rt i)) in
      if fits_int32 s then Inr (Break (set_reg (i_rd i) (word_of_int s) m) 0 0 pc)
      else raise_and_return eh OverflowException 0 m)"
proof (intro conjI)
  show "exec_ADD eh big (i\<lparr>opCode := OP_ADD\<rparr>) pc m =
     (let s = sint (reg m (i_rs i)) + sint (reg m (i_rt i)) in
      if fits_int32 s then Inr (Break (set_reg (i_rd i) (word_of_int s) m) 0 0 pc)
      else raise_and_return eh OverflowException 0 m)"
    using add_overflow_iff [of "reg m (i_rs i)" "reg m (i_rt i)"]
    by (auto simp: exec_ADD_def Let_def)
next
  show "exec_ADD eh big (i\<lparr>opCode := OP_ADDI\<rparr>) pc m =
     (let s = sint (reg m (i_rs i)) + sint (extra i) in
      if fits_int32 s then Inr (Break (set_reg (i_rt i) (word_of_int s) m) 0 0 pc)
      else raise_and_return eh OverflowException 0 m)"
    using add_overflow_iff [of "extra i" "reg m (i_rs i)"]
    by (auto simp: exec_ADD_def Let_def op_defs ac_simps)
next
  show "exec_ADD eh big (i\<lparr>opCode := OP_SUB\<rparr>) pc m =
     (let s = sint (reg m (i_rs i)) - sint (reg m (i_rt i)) in
      if fits_int32 s then Inr (Break (set_reg (i_rd i) (word_of_int s) m) 0 0 pc)
      else raise_and_return eh OverflowException 0 m)"
    using sub_overflow_iff [of "reg m (i_rs i)" "reg m (i_rt i)"]
    by (auto simp: exec_defs Let_def op_defs)
qed


text \<open>
  An immediate is the low half of the instruction word, sign-extended: for every
  opcode of format I, \<^verbatim>\<open>Decode\<close> leaves in \<^verbatim>\<open>extra\<close> the 16-bit field read as a signed number.
\<close>

theorem Decode_immediate:
  assumes "snd (opTable ! field 26 0x3f v) = IFMT"
  shows "extra (Decode v) = scast (ucast v :: 16 word)"
proof -
  have m: "(0xffff :: 32 word) = mask 16" "(0xffff0000 :: 32 word) = push_bit 16 (mask 16)"
    by (simp_all add: mask_eq_exp_minus_1)
  let ?e = "v AND 0xffff"
  have "?e AND push_bit 15 1 \<noteq> 0 \<longleftrightarrow> bit ?e 15" by (rule bit_iff_and_push_bit_not_eq_0 [symmetric])
  moreover have "bit ?e 15 = bit v 15" unfolding m by (simp add: bit_simps)
  ultimately have sgn: "?e AND 0x8000 \<noteq> 0 \<longleftrightarrow> bit v 15" by simp
  have "extra (Decode v) = (if bit v 15 then ?e OR 0xffff0000 else ?e)"
    using assms sgn by (cases "opTable ! field 26 0x3f v") (simp add: Decode_def)
  also have "\<dots> = scast (ucast v :: 16 word)"
  proof (rule bit_word_eqI)
    fix n assume "n < LENGTH(32)"
    then show "bit (if bit v 15 then ?e OR 0xffff0000 else ?e) n = bit (scast (ucast v :: 16 word) :: 32 word) n"
      unfolding m by (cases "n = 15") (auto simp: bit_simps min_def)
  qed
  finally show ?thesis .
qed

theorem Decode_immediate_witness: "extra (Decode 0x2442fffc) = - 4"
proof -
  have "snd (opTable ! field 26 0x3f 0x2442fffc) = IFMT" by (simp add: field_def opTable_def)
  from Decode_immediate [OF this] show ?thesis by simp
qed

end
