(* ===== verification/Nachos_Threads.thy ===== *)
theory Nachos_Threads
  imports Nachos_Interrupt
begin

text \<open>
  \<^verbatim>\<open>threads/thread.cc\<close>, \<^verbatim>\<open>threads/scheduler.cc\<close>, \<^verbatim>\<open>threads/synch.cc\<close>, \<^verbatim>\<open>threads/synchlist.cc\<close>: threads,
  the scheduler and the synchronisation primitives, running on the interrupt controller of
  \<open>Nachos_Interrupt\<close>. Nachos has one processor and switches threads only inside
  \<^verbatim>\<open>Scheduler::Run\<close>, which is reached from \<^verbatim>\<open>Sleep\<close> and \<^verbatim>\<open>Yield\<close>, and, through the timer, from every
  \<^verbatim>\<open>SetLevel\<close> that enables interrupts. A thread is therefore modelled by its kernel stack: the list
  of the code locations it still has to return to, with their local variables. One step of the
  machine runs the top location of the current thread up to the next call or return; a switch
  leaves the stack of the old thread where it is. The thread's own code, the location \<open>User\<close>, may
  make any call of the kernel's interface in any order, so that a statement about all reachable
  states is a statement about all programs and all interleavings. Names used only for debugging
  and messages on the console are left out.
\<close>

section \<open>Data\<close>

type_synonym tid = nat
type_synonym sid = nat
type_synonym lid = nat
type_synonym cid = nat
type_synonym slid = nat

datatype ThreadStatus = JUST_CREATED | RUNNING | READY | BLOCKED

record Semaphore =
  sem_value :: int
  sem_queue :: "tid list"

record Lock =
  isBusy :: bool
  ownerThread :: "tid option"
  lock_waitQueue :: "tid list"

record Condition =
  waitLock :: "lid option"
  cond_waitQueue :: "tid list"

record SynchList =
  sl_list :: "int list"
  sl_lock :: lid
  sl_listEmpty :: cid

definition Semaphore_new :: "int \<Rightarrow> Semaphore" where
  "Semaphore_new initialValue = \<lparr>sem_value = initialValue, sem_queue = []\<rparr>"

definition Lock_new :: Lock where
  "Lock_new = \<lparr>isBusy = False, ownerThread = None, lock_waitQueue = []\<rparr>"

definition Condition_new :: Condition where
  "Condition_new = \<lparr>waitLock = None, cond_waitQueue = []\<rparr>"

definition SynchList_new :: "lid \<Rightarrow> cid \<Rightarrow> SynchList" where
  "SynchList_new l c = \<lparr>sl_list = [], sl_lock = l, sl_listEmpty = c\<rparr>"

text \<open>The calls of the kernel's interface; a lock argument may be the null pointer.\<close>

datatype kcall =
    NewThread tid
  | Fork tid
  | Yield
  | P sid
  | V sid
  | Acquire lid
  | Release lid
  | Wait cid "lid option"
  | Signal cid "lid option"
  | Broadcast cid "lid option"
  | SL_Append slid int
  | SL_Remove slid
  | SL_Mapcar slid

text \<open>
  Code locations. \<open>Restore old\<close> is a closing \<^verbatim>\<open>interrupt->SetLevel(oldLevel)\<close>; \<open>P_test\<close> the loop test
  of \<^verbatim>\<open>P\<close>; \<open>Acquire_end\<close> and \<open>Wait_end\<close> the closing \<^verbatim>\<open>SetLevel\<close> of \<^verbatim>\<open>Acquire\<close> and \<^verbatim>\<open>Wait\<close>; \<open>Bcast_test\<close>
  the loop test of \<^verbatim>\<open>Broadcast\<close>; \<open>Sleep_find\<close> the loop of \<^verbatim>\<open>Sleep\<close>; \<open>Run_tail\<close> what follows \<^verbatim>\<open>SWITCH\<close>;
  \<open>Tick_tail\<close> what follows \<^verbatim>\<open>Yield\<close> in \<^verbatim>\<open>OneTick\<close>; \<open>Root_enable\<close> and \<open>Root_finish\<close> the two calls that
  \<^verbatim>\<open>ThreadRoot\<close> makes around the thread's function; the rest are the bodies of \<^verbatim>\<open>SynchList\<close>.
\<close>

datatype frame =
    User
  | Call kcall
  | Restore IntStatus
  | P_test sid IntStatus
  | Acquire_end lid IntStatus
  | Wait_end cid lid IntStatus
  | Bcast_test cid "lid option"
  | Sleep_find
  | Run_tail
  | Tick_tail MachineStatus
  | Root_enable
  | Root_finish
  | SL_append slid int
  | SL_test slid
  | SL_map slid

definition STACK_FENCEPOST :: "32 word" where "STACK_FENCEPOST = 0xdeadbeef"

text \<open>
  \<open>fencepost t\<close> is the guard word at the bottom of the stack of \<open>t\<close>, \<open>None\<close> for a thread without a
  stack of its own; \<open>retval t\<close> what the last \<^verbatim>\<open>SynchList::Remove\<close> of \<open>t\<close> returned.
\<close>

record Kernel = Interrupt +
  readyList :: "tid list"
  currentThread :: tid
  threadToBeDestroyed :: "tid option"
  threads :: "tid set"
  tstatus :: "tid \<Rightarrow> ThreadStatus"
  fencepost :: "tid \<Rightarrow> 32 word option"
  kstack :: "tid \<Rightarrow> frame list"
  semaphores :: "sid \<Rightarrow> Semaphore"
  locks :: "lid \<Rightarrow> Lock"
  conditions :: "cid \<Rightarrow> Condition"
  synchlists :: "slid \<Rightarrow> SynchList"
  retval :: "tid \<Rightarrow> int"

type_synonym handlers = "PendingInterrupt \<Rightarrow> Kernel \<Rightarrow> Kernel res"

abbreviation cur_stack :: "Kernel \<Rightarrow> frame list" where
  "cur_stack k \<equiv> kstack k (currentThread k)"

definition push :: "frame list \<Rightarrow> Kernel \<Rightarrow> Kernel" where
  "push fs k = k\<lparr>kstack := (kstack k)(currentThread k := fs @ cur_stack k)\<rparr>"

section \<open>Scheduler and threads\<close>

definition ReadyToRun :: "tid \<Rightarrow> Kernel \<Rightarrow> Kernel" where
  "ReadyToRun t k = k\<lparr>tstatus := (tstatus k)(t := READY), readyList := readyList k @ [t]\<rparr>"

definition FindNextToRun :: "Kernel \<Rightarrow> tid option \<times> Kernel" where
  "FindNextToRun k =
     (case readyList k of [] \<Rightarrow> (None, k) | t # ts \<Rightarrow> (Some t, k\<lparr>readyList := ts\<rparr>))"

definition CheckOverflow :: "tid \<Rightarrow> Kernel \<Rightarrow> unit res" where
  "CheckOverflow t k =
     (case fencepost k t of None \<Rightarrow> Inr () | Some w \<Rightarrow> ASSERT (w = STACK_FENCEPOST))"

text \<open>\<^verbatim>\<open>Run\<close> up to \<^verbatim>\<open>SWITCH\<close>: afterwards the machine executes on the stack of \<open>nextThread\<close>.\<close>

definition Scheduler_Run :: "tid \<Rightarrow> Kernel \<Rightarrow> Kernel res" where
  "Scheduler_Run nextThread k =
     andThen (CheckOverflow (currentThread k) k) (\<lambda>_.
       let k1 = push [Run_tail] k
       in Inr (k1\<lparr>currentThread := nextThread, tstatus := (tstatus k1)(nextThread := RUNNING)\<rparr>))"

definition Thread_delete :: "tid \<Rightarrow> Kernel \<Rightarrow> Kernel res" where
  "Thread_delete t k =
     andThen (ASSERT (t \<noteq> currentThread k)) (\<lambda>_.
       Inr (k\<lparr>threads := threads k - {t}, fencepost := (fencepost k)(t := None), kstack := (kstack k)(t := [])\<rparr>))"

text \<open>\<^verbatim>\<open>Run\<close> after \<^verbatim>\<open>SWITCH\<close> returned.\<close>

definition Run_after :: "Kernel \<Rightarrow> Kernel res" where
  "Run_after k =
     (case threadToBeDestroyed k of None \<Rightarrow> Inr k
      | Some t \<Rightarrow> andThen (Thread_delete t k) (\<lambda>k1. Inr (k1\<lparr>threadToBeDestroyed := None\<rparr>)))"

definition Thread_new :: "tid \<Rightarrow> Kernel \<Rightarrow> Kernel" where
  "Thread_new t k = k\<lparr>threads := insert t (threads k), tstatus := (tstatus k)(t := JUST_CREATED),
     fencepost := (fencepost k)(t := None), kstack := (kstack k)(t := [])\<rparr>"

text \<open>The stack starts with the guard word and the three calls of \<^verbatim>\<open>ThreadRoot\<close>.\<close>

definition StackAllocate :: "tid \<Rightarrow> Kernel \<Rightarrow> Kernel" where
  "StackAllocate t k = k\<lparr>fencepost := (fencepost k)(t := Some STACK_FENCEPOST),
     kstack := (kstack k)(t := [Root_enable, User, Root_finish])\<rparr>"

text \<open>\<^verbatim>\<open>Sleep\<close> up to its loop.\<close>

definition Sleep :: "Kernel \<Rightarrow> Kernel res" where
  "Sleep k =
     andThen (ASSERT (level k = IntOff)) (\<lambda>_.
       Inr (push [Sleep_find] (k\<lparr>tstatus := (tstatus k)(currentThread k := BLOCKED)\<rparr>)))"

text \<open>One round of the loop of \<^verbatim>\<open>Sleep\<close>, then \<^verbatim>\<open>Run\<close>.\<close>

definition Sleep_round :: "handlers \<Rightarrow> Kernel \<Rightarrow> Kernel res" where
  "Sleep_round run k =
     (case FindNextToRun k of
        (None, k1) \<Rightarrow> andThen (Idle run Inr k1) (\<lambda>k2. Inr (push [Sleep_find] k2))
      | (Some t, k1) \<Rightarrow> Scheduler_Run t k1)"

definition disable :: "Kernel \<Rightarrow> Kernel" where
  "disable k = ChangeLevel (level k) IntOff k"

text \<open>\<^verbatim>\<open>Yield\<close>; the closing \<^verbatim>\<open>SetLevel\<close> is the location \<open>Restore\<close>.\<close>

definition Thread_Yield :: "Kernel \<Rightarrow> Kernel res" where
  "Thread_Yield k =
     (let k1 = disable k in
      case FindNextToRun k1 of
        (None, k2) \<Rightarrow> Inr (push [Restore (level k)] k2)
      | (Some t, k2) \<Rightarrow>
          Scheduler_Run t (ReadyToRun (currentThread k) (push [Restore (level k)] k2)))"

text \<open>\<^verbatim>\<open>OneTick\<close>: a yield the handlers asked for runs on the stack of the interrupted thread.\<close>

definition Kernel_OneTick :: "handlers \<Rightarrow> Kernel \<Rightarrow> Kernel res" where
  "Kernel_OneTick run k =
     andThen (OneTick_fire run Inr k) (\<lambda>k1.
       if yieldOnReturn k1 then
         Thread_Yield (push [Tick_tail (status k)] (k1\<lparr>yieldOnReturn := False, status := SystemMode\<rparr>))
       else Inr k1)"

definition Kernel_SetLevel :: "handlers \<Rightarrow> IntStatus \<Rightarrow> Kernel \<Rightarrow> Kernel res" where
  "Kernel_SetLevel run nowl k =
     andThen (ASSERT (nowl = IntOff \<or> \<not> inHandler k)) (\<lambda>_.
       let k1 = ChangeLevel (level k) nowl k in
       if nowl = IntOn \<and> level k = IntOff then Kernel_OneTick run k1 else Inr k1)"

definition Thread_Fork :: "handlers \<Rightarrow> tid \<Rightarrow> Kernel \<Rightarrow> Kernel res" where
  "Thread_Fork run t k =
     (let k1 = StackAllocate t k in Kernel_SetLevel run (level k1) (ReadyToRun t (disable k1)))"

definition Thread_Finish :: "Kernel \<Rightarrow> Kernel res" where
  "Thread_Finish k = Sleep ((disable k)\<lparr>threadToBeDestroyed := Some (currentThread k)\<rparr>)"

section \<open>Semaphores\<close>

definition set_sem :: "sid \<Rightarrow> Semaphore \<Rightarrow> Kernel \<Rightarrow> Kernel" where
  "set_sem s x k = k\<lparr>semaphores := (semaphores k)(s := x)\<rparr>"

definition Semaphore_P :: "sid \<Rightarrow> Kernel \<Rightarrow> Kernel res" where
  "Semaphore_P s k = Inr (push [P_test s (level k)] (disable k))"

definition Semaphore_P_loop :: "handlers \<Rightarrow> sid \<Rightarrow> IntStatus \<Rightarrow> Kernel \<Rightarrow> Kernel res" where
  "Semaphore_P_loop run s oldLevel k =
     (let sem = semaphores k s in
      if sem_value sem = 0 then
        Sleep (push [P_test s oldLevel] (set_sem s (sem\<lparr>sem_queue := sem_queue sem @ [currentThread k]\<rparr>) k))
      else Kernel_SetLevel run oldLevel (set_sem s (sem\<lparr>sem_value := sem_value sem - 1\<rparr>) k))"

definition Semaphore_V_body :: "sid \<Rightarrow> Kernel \<Rightarrow> Kernel" where
  "Semaphore_V_body s k =
     (let sem = semaphores k s;
          k1 = set_sem s (sem\<lparr>sem_queue := tl (sem_queue sem), sem_value := sem_value sem + 1\<rparr>) k
      in case sem_queue sem of [] \<Rightarrow> k1 | t # _ \<Rightarrow> ReadyToRun t k1)"

definition Semaphore_V :: "handlers \<Rightarrow> sid \<Rightarrow> Kernel \<Rightarrow> Kernel res" where
  "Semaphore_V run s k = Kernel_SetLevel run (level k) (Semaphore_V_body s (disable k))"

section \<open>Locks\<close>

definition set_lock :: "lid \<Rightarrow> Lock \<Rightarrow> Kernel \<Rightarrow> Kernel" where
  "set_lock l x k = k\<lparr>locks := (locks k)(l := x)\<rparr>"

definition isHeldByCurrentThread :: "lid \<Rightarrow> Kernel \<Rightarrow> bool" where
  "isHeldByCurrentThread l k \<longleftrightarrow> ownerThread (locks k l) = Some (currentThread k)"

definition Lock_Acquire :: "lid \<Rightarrow> Kernel \<Rightarrow> Kernel res" where
  "Lock_Acquire l k =
     (let old = level k; k1 = disable k; lk = locks k1 l in
      if isHeldByCurrentThread l k1 then Inr (push [Acquire_end l old] k1)
      else if \<not> isBusy lk then
        Inr (push [Acquire_end l old] (set_lock l (lk\<lparr>isBusy := True, ownerThread := Some (currentThread k1)\<rparr>) k1))
      else Sleep (push [Acquire_end l old]
             (set_lock l (lk\<lparr>lock_waitQueue := lock_waitQueue lk @ [currentThread k1]\<rparr>) k1)))"

text \<open>\<^verbatim>\<open>Release\<close> between its two calls of \<^verbatim>\<open>SetLevel\<close>.\<close>

definition Lock_Release_body :: "lid \<Rightarrow> Kernel \<Rightarrow> Kernel" where
  "Lock_Release_body l k =
     (let lk = locks k l in
      if \<not> isHeldByCurrentThread l k then k
      else case lock_waitQueue lk of
             t # ts \<Rightarrow> set_lock l (lk\<lparr>lock_waitQueue := ts, ownerThread := Some t\<rparr>) (ReadyToRun t k)
           | [] \<Rightarrow> set_lock l (lk\<lparr>isBusy := False, ownerThread := None\<rparr>) k)"

definition Lock_Release :: "handlers \<Rightarrow> lid \<Rightarrow> Kernel \<Rightarrow> Kernel res" where
  "Lock_Release run l k = Kernel_SetLevel run (level k) (Lock_Release_body l (disable k))"

section \<open>Condition variables\<close>

definition set_cond :: "cid \<Rightarrow> Condition \<Rightarrow> Kernel \<Rightarrow> Kernel" where
  "set_cond c x k = k\<lparr>conditions := (conditions k)(c := x)\<rparr>"

text \<open>
  \<^verbatim>\<open>Wait\<close>. Interrupts are off when it calls \<^verbatim>\<open>Release\<close>, whose two \<^verbatim>\<open>SetLevel\<close> then change nothing.
  After \<^verbatim>\<open>Sleep\<close> follow the call of \<^verbatim>\<open>Acquire\<close> and the closing \<^verbatim>\<open>SetLevel\<close>.
\<close>

definition Condition_Wait :: "handlers \<Rightarrow> cid \<Rightarrow> lid option \<Rightarrow> Kernel \<Rightarrow> Kernel res" where
  "Condition_Wait run c conditionLock k =
     (let old = level k; k1 = disable k in
      case conditionLock of None \<Rightarrow> Kernel_SetLevel run old k1
      | Some l \<Rightarrow>
          let cd = conditions k1 c;
              cd1 = (if waitLock cd = None then cd\<lparr>waitLock := Some l\<rparr> else cd);
              k2 = set_cond c cd1 k1 in
          if waitLock cd1 \<noteq> Some l then Kernel_SetLevel run old k2
          else
            let k3 = set_cond c (cd1\<lparr>cond_waitQueue := cond_waitQueue cd1 @ [currentThread k2]\<rparr>) k2;
                k4 = Lock_Release_body l k3
            in Sleep (push [Call (Acquire l), Wait_end c l old] k4))"

definition Condition_Signal_body :: "cid \<Rightarrow> lid option \<Rightarrow> Kernel \<Rightarrow> Kernel" where
  "Condition_Signal_body c conditionLock k =
     (let cd = conditions k c in
      case cond_waitQueue cd of
        [] \<Rightarrow> k
      | t # ts \<Rightarrow>
          if waitLock cd \<noteq> conditionLock then k
          else set_cond c (cd\<lparr>cond_waitQueue := ts, waitLock := (if ts = [] then None else waitLock cd)\<rparr>)
                 (ReadyToRun t k))"

definition Condition_Signal :: "handlers \<Rightarrow> cid \<Rightarrow> lid option \<Rightarrow> Kernel \<Rightarrow> Kernel res" where
  "Condition_Signal run c conditionLock k =
     Kernel_SetLevel run (level k) (Condition_Signal_body c conditionLock (disable k))"

text \<open>One test of the loop of \<^verbatim>\<open>Broadcast\<close>.\<close>

definition Condition_Broadcast :: "cid \<Rightarrow> lid option \<Rightarrow> Kernel \<Rightarrow> Kernel res" where
  "Condition_Broadcast c conditionLock k =
     (if cond_waitQueue (conditions k c) = [] then Inr k
      else Inr (push [Call (Signal c conditionLock), Bcast_test c conditionLock] k))"

section \<open>Synchronised lists\<close>

definition set_sl :: "slid \<Rightarrow> SynchList \<Rightarrow> Kernel \<Rightarrow> Kernel" where
  "set_sl x v k = k\<lparr>synchlists := (synchlists k)(x := v)\<rparr>"

definition SynchList_Append :: "slid \<Rightarrow> int \<Rightarrow> Kernel \<Rightarrow> Kernel res" where
  "SynchList_Append x item k =
     (let sl = synchlists k x in
      Inr (push [Call (Acquire (sl_lock sl)), SL_append x item,
                 Call (Signal (sl_listEmpty sl) (Some (sl_lock sl))), Call (Release (sl_lock sl))] k))"

definition SynchList_Append_body :: "slid \<Rightarrow> int \<Rightarrow> Kernel \<Rightarrow> Kernel res" where
  "SynchList_Append_body x item k =
     (let sl = synchlists k x in Inr (set_sl x (sl\<lparr>sl_list := sl_list sl @ [item]\<rparr>) k))"

definition SynchList_Remove :: "slid \<Rightarrow> Kernel \<Rightarrow> Kernel res" where
  "SynchList_Remove x k = Inr (push [Call (Acquire (sl_lock (synchlists k x))), SL_test x] k)"

text \<open>
  The loop test and what follows the loop. The list holds pointers; 0 is the null pointer, which
  the assertion rejects.
\<close>

definition SynchList_Remove_loop :: "slid \<Rightarrow> Kernel \<Rightarrow> Kernel res" where
  "SynchList_Remove_loop x k =
     (let sl = synchlists k x in
      case sl_list sl of
        [] \<Rightarrow> Inr (push [Call (Wait (sl_listEmpty sl) (Some (sl_lock sl))), SL_test x] k)
      | item # rest \<Rightarrow>
          andThen (ASSERT (item \<noteq> 0)) (\<lambda>_.
            Inr (push [Call (Release (sl_lock sl))]
              ((set_sl x (sl\<lparr>sl_list := rest\<rparr>) k)\<lparr>retval := (retval k)(currentThread k := item)\<rparr>))))"

definition SynchList_Mapcar :: "slid \<Rightarrow> Kernel \<Rightarrow> Kernel res" where
  "SynchList_Mapcar x k =
     (let l = sl_lock (synchlists k x) in Inr (push [Call (Acquire l), SL_map x, Call (Release l)] k))"

section \<open>The machine\<close>

fun do_call :: "handlers \<Rightarrow> kcall \<Rightarrow> Kernel \<Rightarrow> Kernel res" where
  "do_call run (NewThread t) k = Inr (Thread_new t k)"
| "do_call run (Fork t) k = Thread_Fork run t k"
| "do_call run Yield k = Thread_Yield k"
| "do_call run (P s) k = Semaphore_P s k"
| "do_call run (V s) k = Semaphore_V run s k"
| "do_call run (Acquire l) k = Lock_Acquire l k"
| "do_call run (Release l) k = Lock_Release run l k"
| "do_call run (Wait c l) k = Condition_Wait run c l k"
| "do_call run (Signal c l) k = Condition_Signal run c l k"
| "do_call run (Broadcast c l) k = Condition_Broadcast c l k"
| "do_call run (SL_Append x i) k = SynchList_Append x i k"
| "do_call run (SL_Remove x) k = SynchList_Remove x k"
| "do_call run (SL_Mapcar x) k = SynchList_Mapcar x k"

text \<open>What the current thread does at a location that has just been taken off its stack.\<close>

fun resume :: "handlers \<Rightarrow> frame \<Rightarrow> Kernel \<Rightarrow> Kernel res" where
  "resume run User k = Inr k"
| "resume run (Call c) k = do_call run c k"
| "resume run (Restore old) k = Kernel_SetLevel run old k"
| "resume run (P_test s old) k = Semaphore_P_loop run s old k"
| "resume run (Acquire_end l old) k = Kernel_SetLevel run old k"
| "resume run (Wait_end c l old) k = Kernel_SetLevel run old k"
| "resume run (Bcast_test c l) k = Condition_Broadcast c l k"
| "resume run Sleep_find k = Sleep_round run k"
| "resume run Run_tail k = Run_after k"
| "resume run (Tick_tail st) k = Inr (k\<lparr>status := st\<rparr>)"
| "resume run Root_enable k = Kernel_SetLevel run IntOn k"
| "resume run Root_finish k = Thread_Finish k"
| "resume run (SL_append x i) k = SynchList_Append_body x i k"
| "resume run (SL_test x) k = SynchList_Remove_loop x k"
| "resume run (SL_map x) k = Inr k"

definition pop :: "Kernel \<Rightarrow> Kernel" where
  "pop k = k\<lparr>kstack := (kstack k)(currentThread k := tl (cur_stack k))\<rparr>"

text \<open>One step of a thread that is inside the kernel.\<close>

definition kernel_step :: "handlers \<Rightarrow> Kernel \<Rightarrow> Kernel res" where
  "kernel_step run k = (case cur_stack k of [] \<Rightarrow> Inl Undefined | f # _ \<Rightarrow> resume run f (pop k))"

text \<open>
  The calls a program may make: a \<^verbatim>\<open>Thread\<close> object is created at a free address and forked once,
  and null is not put on a synchronised list.
\<close>

definition legal_call :: "kcall \<Rightarrow> Kernel \<Rightarrow> bool" where
  "legal_call c k \<longleftrightarrow>
     (case c of NewThread t \<Rightarrow> t \<notin> threads k
      | Fork t \<Rightarrow> t \<in> threads k \<and> tstatus k t = JUST_CREATED \<and> t \<noteq> currentThread k
      | SL_Append x i \<Rightarrow> i \<noteq> 0
      | _ \<Rightarrow> True)"

inductive kstep :: "handlers \<Rightarrow> Kernel \<Rightarrow> Kernel \<Rightarrow> bool" for run where
  user_call: "cur_stack k = User # fs \<Longrightarrow> legal_call c k \<Longrightarrow> do_call run c k = Inr k' \<Longrightarrow> kstep run k k'"
| user_return: "cur_stack k = User # fs \<Longrightarrow> kstep run k (pop k)"
| kernel: "cur_stack k = f # fs \<Longrightarrow> f \<noteq> User \<Longrightarrow> kernel_step run k = Inr k' \<Longrightarrow> kstep run k k'"

inductive_cases kstepE: "kstep run k k'"

inductive reachable :: "handlers \<Rightarrow> Kernel \<Rightarrow> Kernel \<Rightarrow> bool" for run k0 where
  init: "reachable run k0 k0"
| step: "reachable run k0 k \<Longrightarrow> kstep run k k' \<Longrightarrow> reachable run k0 k'"

text \<open>
  The state after \<^verbatim>\<open>Initialize\<close> of \<^verbatim>\<open>threads/system.cc\<close>: the main thread runs with interrupts on,
  nobody else exists; \<open>v\<close> gives the initial values of the semaphores, \<open>ls\<close> the lock and the
  condition of each synchronised list, \<open>ic\<close> the interrupt controller with its devices.
\<close>

definition kernel_init :: "(sid \<Rightarrow> int) \<Rightarrow> (slid \<Rightarrow> lid \<times> cid) \<Rightarrow> Interrupt \<Rightarrow> Kernel" where
  "kernel_init v ls ic =
     \<lparr>level = IntOn, pending = pending ic, inHandler = False, yieldOnReturn = False,
      status = SystemMode, stats = stats ic,
      readyList = [], currentThread = 0, threadToBeDestroyed = None, threads = {0},
      tstatus = (\<lambda>_. JUST_CREATED)(0 := RUNNING), fencepost = (\<lambda>_. None),
      kstack = (\<lambda>_. [])(0 := [User, Root_finish]),
      semaphores = (\<lambda>s. Semaphore_new (v s)), locks = (\<lambda>_. Lock_new), conditions = (\<lambda>_. Condition_new),
      synchlists = (\<lambda>x. SynchList_new (fst (ls x)) (snd (ls x))), retval = (\<lambda>_. 0)\<rparr>"

text \<open>
  The interrupt handlers of the kernel: the timer, and the devices whose handler wakes the thread
  that waits for them by \<^verbatim>\<open>V\<close> on a semaphore, as \<^verbatim>\<open>DiskRequestDone\<close> of \<^verbatim>\<open>filesys/synchdisk.cc\<close> does; \<open>sem\<close>
  is the semaphore of the object the interrupt's argument points to. Interrupts are off in a
  handler, so the two \<^verbatim>\<open>SetLevel\<close> of \<^verbatim>\<open>V\<close> change nothing.
\<close>

definition kernel_handlers :: "VoidFunctionPtr \<Rightarrow> Timer \<Rightarrow> (int \<Rightarrow> nat) \<Rightarrow> (int \<Rightarrow> sid) \<Rightarrow> handlers" where
  "kernel_handlers self tm rnd sem p k =
     (if pi_type p = TimerInt then timer_run self tm (rnd (now k)) p k
      else Inr (Semaphore_V_body (sem (pi_arg p)) k))"

end
