(* ===== verification/Nachos_Kernel.thy ===== *)
theory Nachos_Kernel
  imports Nachos_Threads
begin

text \<open>
  Properties of the thread system of \<open>Nachos_Threads\<close>. The invariant \<open>kinv\<close> says of every thread
  which queue it is in and that its stack of code locations fits the locks it owns (or is about to
  be handed) and the interrupt level it will run with. The locale \<open>kernel_devices\<close> states what the
  kernel relies on in interrupt handlers; inside it each operation is shown to return and to keep
  the invariant; the interpretation \<open>nachos\<close> discharges it for the kernel's handlers.
\<close>

section \<open>The invariant\<close>

text \<open>Where a thread can wait, and the list it waits on.\<close>

datatype place = InReady | InSem sid | InLock lid | InCond cid

fun place_list :: "Kernel \<Rightarrow> place \<Rightarrow> tid list" where
  "place_list k InReady = readyList k"
| "place_list k (InSem s) = sem_queue (semaphores k s)"
| "place_list k (InLock l) = lock_waitQueue (locks k l)"
| "place_list k (InCond c) = cond_waitQueue (conditions k c)"

definition no_place :: "(place \<Rightarrow> tid list) \<Rightarrow> tid \<Rightarrow> bool" where
  "no_place pl t \<longleftrightarrow> (\<forall>p. t \<notin> set (pl p))"

definition placed :: "(place \<Rightarrow> tid list) \<Rightarrow> tid \<Rightarrow> bool" where
  "placed pl t \<longleftrightarrow> (\<exists>p. count_list (pl p) t = 1 \<and> (\<forall>q. q \<noteq> p \<longrightarrow> t \<notin> set (pl q)))"

lemma placed_not_no_place: "placed pl t \<Longrightarrow> \<not> no_place pl t"
  unfolding placed_def no_place_def by (metis count_list_0_iff zero_neq_one)

lemma move_places:
  assumes p: "pl p = t # ts" "p \<noteq> q" and pl': "pl' = pl(p := ts, q := pl q @ [t])"
  shows "placed pl u \<Longrightarrow> placed pl' u" and "no_place pl u \<Longrightarrow> no_place pl' u"
proof -
  assume "placed pl u"
  then obtain r where r: "count_list (pl r) u = 1" "\<forall>x. x \<noteq> r \<longrightarrow> u \<notin> set (pl x)"
    by (auto simp: placed_def)
  show "placed pl' u"
  proof (cases "u = t")
    case True
    then have "r = p" using r(2) p(1) by fastforce
    then have "t \<notin> set ts" using r(1) p(1) True by (simp add: count_list_0_iff)
    moreover have "t \<notin> set (pl q)" using r(2) True p(2) \<open>r = p\<close> by metis
    ultimately have "count_list (pl' q) u = 1" "\<forall>x. x \<noteq> q \<longrightarrow> u \<notin> set (pl' x)"
      using True pl' r(2) \<open>r = p\<close> by (auto simp: count_list_0_iff)
    then show ?thesis by (auto simp: placed_def)
  next
    case False
    then have "count_list (pl' r) u = 1" "\<forall>x. x \<noteq> r \<longrightarrow> u \<notin> set (pl' x)"
      using r p pl' by (auto split: if_splits)
    then show ?thesis by (auto simp: placed_def)
  qed
next
  assume "no_place pl u"
  then show "no_place pl' u" using p pl' by (auto simp: no_place_def) (metis list.set_intros(1,2))+
qed

lemma append_places:
  assumes "pl' = pl(p := pl p @ [t])" "no_place pl t"
  shows "placed pl' t" and "u \<noteq> t \<Longrightarrow> placed pl u \<Longrightarrow> placed pl' u" and "u \<noteq> t \<Longrightarrow> no_place pl u \<Longrightarrow> no_place pl' u"
proof -
  have "count_list (pl' p) t = 1" "\<forall>x. x \<noteq> p \<longrightarrow> t \<notin> set (pl' x)"
    using assms by (auto simp: no_place_def count_list_0_iff)
  then show "placed pl' t" by (auto simp: placed_def)
next
  assume u: "u \<noteq> t" "placed pl u"
  then obtain r where "count_list (pl r) u = 1" "\<forall>x. x \<noteq> r \<longrightarrow> u \<notin> set (pl x)" by (auto simp: placed_def)
  then have "count_list (pl' r) u = 1" "\<forall>x. x \<noteq> r \<longrightarrow> u \<notin> set (pl' x)"
    using assms(1) u(1) by auto
  then show "placed pl' u" by (auto simp: placed_def)
next
  assume "u \<noteq> t" "no_place pl u"
  then show "no_place pl' u" using assms(1) by (auto simp: no_place_def)
qed

lemma remove_places:
  assumes p: "pl p = t # ts" and pl': "pl' = pl(p := ts)" and t: "placed pl t"
  shows "no_place pl' t" and "u \<noteq> t \<Longrightarrow> placed pl u \<Longrightarrow> placed pl' u" and "u \<noteq> t \<Longrightarrow> no_place pl u \<Longrightarrow> no_place pl' u"
proof -
  obtain r where r: "count_list (pl r) t = 1" "\<forall>x. x \<noteq> r \<longrightarrow> t \<notin> set (pl x)"
    using t by (auto simp: placed_def)
  then have "r = p" using p by fastforce
  then have "t \<notin> set ts" using r(1) p by (simp add: count_list_0_iff)
  then show "no_place pl' t" using r(2) pl' \<open>r = p\<close> by (auto simp: no_place_def)
next
  assume u: "u \<noteq> t" "placed pl u"
  then obtain r where "count_list (pl r) u = 1" "\<forall>x. x \<noteq> r \<longrightarrow> u \<notin> set (pl x)" by (auto simp: placed_def)
  then have "count_list (pl' r) u = 1" "\<forall>x. x \<noteq> r \<longrightarrow> u \<notin> set (pl' x)"
    using p pl' u(1) by (auto split: if_splits)
  then show "placed pl' u" by (auto simp: placed_def)
next
  assume "u \<noteq> t" "no_place pl u"
  then show "no_place pl' u" using p pl' by (auto simp: no_place_def) (metis list.set_intros(2))
qed

text \<open>The locks a thread owns, or will own when it is woken.\<close>

definition hold :: "(lid \<Rightarrow> Lock) \<Rightarrow> tid \<Rightarrow> lid set" where
  "hold lks t = {l. ownerThread (lks l) = Some t \<or> t \<in> set (lock_waitQueue (lks l))}"

text \<open>
  A stack fits the locks \<open>H\<close> and the interrupt level \<open>lv\<close> with which its top location is reached:
  going down the stack, each location finds the locks its code relies on and interrupts off
  where it relies on that.
\<close>

fun frame_ok :: "(slid \<Rightarrow> lid) \<Rightarrow> lid set \<Rightarrow> IntStatus \<Rightarrow> frame \<Rightarrow> bool" where
  "frame_ok L H lv User = True"
| "frame_ok L H lv (Call c) =
     (case c of Acquire l \<Rightarrow> True | Release l \<Rightarrow> True | Wait c l \<Rightarrow> True | Signal c l \<Rightarrow> True | _ \<Rightarrow> False)"
| "frame_ok L H lv (Restore old) = (lv = IntOff)"
| "frame_ok L H lv (P_test s old) = (lv = IntOff)"
| "frame_ok L H lv (Acquire_end l old) = (lv = IntOff \<and> l \<in> H)"
| "frame_ok L H lv (Wait_end c l old) = (lv = IntOff \<and> l \<in> H)"
| "frame_ok L H lv (Bcast_test c l) = True"
| "frame_ok L H lv Sleep_find = False"
| "frame_ok L H lv Run_tail = (lv = IntOff)"
| "frame_ok L H lv (Tick_tail st) = (st = SystemMode)"
| "frame_ok L H lv Root_enable = (lv = IntOff)"
| "frame_ok L H lv Root_finish = True"
| "frame_ok L H lv (SL_append x i) = (L x \<in> H \<and> i \<noteq> 0)"
| "frame_ok L H lv (SL_test x) = (L x \<in> H)"
| "frame_ok L H lv (SL_map x) = (L x \<in> H)"

fun locks_after :: "(slid \<Rightarrow> lid) \<Rightarrow> frame \<Rightarrow> lid set \<Rightarrow> lid set" where
  "locks_after L (Call (Acquire l)) H = insert l H"
| "locks_after L (Call (Release l)) H = H - {l}"
| "locks_after L (SL_test x) H = H - {L x}"
| "locks_after L f H = H"

fun level_after :: "frame \<Rightarrow> IntStatus \<Rightarrow> IntStatus" where
  "level_after (Restore old) lv = old"
| "level_after (P_test s old) lv = old"
| "level_after (Acquire_end l old) lv = old"
| "level_after (Wait_end c l old) lv = old"
| "level_after Root_enable lv = IntOn"
| "level_after f lv = lv"

fun stack_ok :: "(slid \<Rightarrow> lid) \<Rightarrow> lid set \<Rightarrow> IntStatus \<Rightarrow> frame list \<Rightarrow> bool" where
  "stack_ok L H lv [] = False"
| "stack_ok L H lv (f # fs) = (frame_ok L H lv f \<and>
     (if f = Root_finish then fs = [] else if f = User then fs = [Root_finish]
      else stack_ok L (locks_after L f H) (level_after f lv) fs))"

lemma frame_ok_mono: "frame_ok L H lv f \<Longrightarrow> H \<subseteq> H' \<Longrightarrow> frame_ok L H' lv f"
  by (cases f) auto

lemma locks_after_mono: "H \<subseteq> H' \<Longrightarrow> locks_after L f H \<subseteq> locks_after L f H'"
  by (cases "(L, f, H)" rule: locks_after.cases) auto

lemma stack_ok_mono: "stack_ok L H lv fs \<Longrightarrow> H \<subseteq> H' \<Longrightarrow> stack_ok L H' lv fs"
proof (induction fs arbitrary: H H' lv)
  case (Cons f fs)
  then show ?case using frame_ok_mono [of L H lv f H'] locks_after_mono [of H H' L f] by auto
qed simp

abbreviation places :: "Kernel \<Rightarrow> place \<Rightarrow> tid list" where "places k \<equiv> place_list k"

definition list_lock :: "Kernel \<Rightarrow> slid \<Rightarrow> lid" where
  "list_lock k x = sl_lock (synchlists k x)"

text \<open>A thread that is not running: not forked, finished, or waiting in exactly one queue.\<close>

definition suspended :: "Kernel \<Rightarrow> tid \<Rightarrow> bool" where
  "suspended k t \<longleftrightarrow> (kstack k t \<in> {[], [Run_tail]} \<and> no_place (places k) t) \<or>
     (placed (places k) t \<and> stack_ok (list_lock k) (hold (locks k) t) IntOff (kstack k t) \<and>
      hd (kstack k t) \<in> {Run_tail, Root_enable})"

definition running :: "Kernel \<Rightarrow> bool" where
  "running k \<longleftrightarrow> no_place (places k) (currentThread k) \<and>
     stack_ok (list_lock k) (hold (locks k) (currentThread k)) (level k) (cur_stack k)"

definition asleep :: "Kernel \<Rightarrow> bool" where
  "asleep k \<longleftrightarrow> level k = IntOff \<and>
     ((cur_stack k = [Sleep_find] \<and> no_place (places k) (currentThread k)) \<or>
      (\<exists>fs. cur_stack k = Sleep_find # fs \<and> placed (places k) (currentThread k) \<and>
         stack_ok (list_lock k) (hold (locks k) (currentThread k)) IntOff fs))"

definition lock_ok :: "Lock \<Rightarrow> bool" where
  "lock_ok lk \<longleftrightarrow> isBusy lk = (ownerThread lk \<noteq> None) \<and> (lock_waitQueue lk \<noteq> [] \<longrightarrow> isBusy lk)"

definition cond_ok :: "Condition \<Rightarrow> bool" where
  "cond_ok cd \<longleftrightarrow> (waitLock cd = None) = (cond_waitQueue cd = [])"

definition objects_ok :: "Kernel \<Rightarrow> bool" where
  "objects_ok k \<longleftrightarrow> (\<forall>l. lock_ok (locks k l)) \<and> (\<forall>c. cond_ok (conditions k c)) \<and>
     (\<forall>s. sem_value (semaphores k s) \<ge> 0) \<and> (\<forall>x. 0 \<notin> set (sl_list (synchlists k x))) \<and>
     (\<forall>t. fencepost k t \<in> {None, Some STACK_FENCEPOST}) \<and>
     (\<forall>t. t \<notin> threads k \<or> tstatus k t = JUST_CREATED \<longrightarrow> kstack k t = [])"

definition carcass_ok :: "Kernel \<Rightarrow> bool" where
  "carcass_ok k \<longleftrightarrow> (case threadToBeDestroyed k of None \<Rightarrow> True
     | Some z \<Rightarrow> if z = currentThread k then cur_stack k = [Sleep_find] else kstack k z = [Run_tail])"

definition clockwork_ok :: "Kernel \<Rightarrow> bool" where
  "clockwork_ok k \<longleftrightarrow> pending_ok k \<and> \<not> inHandler k \<and> status k = SystemMode \<and> \<not> yieldOnReturn k"

definition kinv :: "Kernel \<Rightarrow> bool" where
  "kinv k \<longleftrightarrow> (\<forall>t. t \<noteq> currentThread k \<longrightarrow> suspended k t) \<and> objects_ok k \<and> carcass_ok k \<and>
     clockwork_ok k \<and> (running k \<or> asleep k)"

section \<open>Waking threads\<close>

lemma place_list_cong:
  assumes "readyList k' = readyList k" "semaphores k' = semaphores k" "locks k' = locks k" "conditions k' = conditions k"
  shows "place_list k' = place_list k"
proof
  fix p show "place_list k' p = place_list k p" by (cases p) (simp_all add: assms)
qed

lemma place_list_frame [simp]:
  "place_list (k\<lparr>level := a1\<rparr>) = place_list k" "place_list (k\<lparr>pending := a2\<rparr>) = place_list k"
  "place_list (k\<lparr>inHandler := a3\<rparr>) = place_list k" "place_list (k\<lparr>yieldOnReturn := a4\<rparr>) = place_list k"
  "place_list (k\<lparr>status := a5\<rparr>) = place_list k" "place_list (k\<lparr>stats := a6\<rparr>) = place_list k"
  "place_list (k\<lparr>kstack := a7\<rparr>) = place_list k" "place_list (k\<lparr>currentThread := a8\<rparr>) = place_list k"
  "place_list (k\<lparr>threadToBeDestroyed := a9\<rparr>) = place_list k" "place_list (k\<lparr>threads := b1\<rparr>) = place_list k"
  "place_list (k\<lparr>tstatus := b2\<rparr>) = place_list k" "place_list (k\<lparr>fencepost := b3\<rparr>) = place_list k"
  "place_list (k\<lparr>synchlists := b4\<rparr>) = place_list k" "place_list (k\<lparr>retval := b5\<rparr>) = place_list k"
  "place_list (push fs k) = place_list k" "place_list (pop k) = place_list k"
  "place_list (disable k) = place_list k"
  by (rule place_list_cong; simp add: push_def pop_def disable_def ChangeLevel_def)+

lemma place_list_sem [simp]:
  "place_list (set_sem s x k) = (place_list k)(InSem s := sem_queue x)"
  by (rule ext, case_tac xa) (simp_all add: set_sem_def)

lemma place_list_lock [simp]:
  "place_list (set_lock s x k) = (place_list k)(InLock s := lock_waitQueue x)"
  by (rule ext, case_tac xa) (simp_all add: set_lock_def)

lemma place_list_cond [simp]:
  "place_list (set_cond s x k) = (place_list k)(InCond s := cond_waitQueue x)"
  by (rule ext, case_tac xa) (simp_all add: set_cond_def)

lemma place_list_sl [simp]: "place_list (set_sl s x k) = place_list k"
  by (simp add: set_sl_def)

lemma place_list_ready [simp]:
  "place_list (ReadyToRun t k) = (place_list k)(InReady := readyList k @ [t])"
  "place_list (k\<lparr>readyList := r\<rparr>) = (place_list k)(InReady := r)"
  by (rule ext, case_tac x; simp add: ReadyToRun_def)+

definition wakes :: "Kernel \<Rightarrow> Kernel \<Rightarrow> bool" where
  "wakes k k' \<longleftrightarrow> kstack k' = kstack k \<and> currentThread k' = currentThread k \<and> threads k' = threads k \<and>
     threadToBeDestroyed k' = threadToBeDestroyed k \<and> synchlists k' = synchlists k \<and>
     locks k' = locks k \<and> conditions k' = conditions k \<and> fencepost k' = fencepost k \<and>
     (\<forall>t. placed (places k) t \<longrightarrow> placed (places k') t) \<and>
     (\<forall>t. no_place (places k) t \<longrightarrow> no_place (places k') t) \<and>
     (\<forall>t. tstatus k' t = JUST_CREATED \<longrightarrow> tstatus k t = JUST_CREATED) \<and>
     (\<forall>s. sem_value (semaphores k s) \<le> sem_value (semaphores k' s))"

lemma wakes_refl [simp]: "wakes k k"
  by (simp add: wakes_def)

lemma wakes_trans: "wakes k k' \<Longrightarrow> wakes k' k'' \<Longrightarrow> wakes k k''"
  unfolding wakes_def by (metis order_trans)

lemma wakes_frame [simp]:
  "wakes k (k'\<lparr>level := a1\<rparr>) = wakes k k'" "wakes k (k'\<lparr>pending := a2\<rparr>) = wakes k k'"
  "wakes k (k'\<lparr>inHandler := a3\<rparr>) = wakes k k'" "wakes k (k'\<lparr>yieldOnReturn := a4\<rparr>) = wakes k k'"
  "wakes k (k'\<lparr>status := a5\<rparr>) = wakes k k'" "wakes k (k'\<lparr>stats := a6\<rparr>) = wakes k k'"
  "wakes (k\<lparr>level := a1\<rparr>) k' = wakes k k'" "wakes (k\<lparr>pending := a2\<rparr>) k' = wakes k k'"
  "wakes (k\<lparr>inHandler := a3\<rparr>) k' = wakes k k'" "wakes (k\<lparr>yieldOnReturn := a4\<rparr>) k' = wakes k k'"
  "wakes (k\<lparr>status := a5\<rparr>) k' = wakes k k'" "wakes (k\<lparr>stats := a6\<rparr>) k' = wakes k k'"
  by (simp_all add: wakes_def)

lemma Semaphore_V_body_wakes: "wakes k (Semaphore_V_body s k)"
proof (cases "sem_queue (semaphores k s)")
  case Nil
  then have pl: "places (Semaphore_V_body s k) = places k"
    by (simp add: Semaphore_V_body_def Let_def fun_upd_idem)
  then show ?thesis unfolding wakes_def pl using Nil by (simp add: Semaphore_V_body_def set_sem_def Let_def)
next
  case (Cons t ts)
  let ?k' = "Semaphore_V_body s k"
  have pl: "places ?k' = (places k)(InSem s := ts, InReady := places k InReady @ [t])"
    using Cons by (simp add: Semaphore_V_body_def Let_def) (simp add: set_sem_def)
  have p: "places k (InSem s) = t # ts" using Cons by simp
  have "placed (places k) u \<Longrightarrow> placed (places ?k') u" "no_place (places k) u \<Longrightarrow> no_place (places ?k') u" for u
    using move_places [where pl = "places k" and p = "InSem s" and q = InReady, OF p _ pl] by simp_all
  then show ?thesis
    unfolding wakes_def using Cons
    by (simp add: Semaphore_V_body_def ReadyToRun_def set_sem_def Let_def)
qed


text \<open>
  What the kernel relies on in its interrupt handlers: they keep the contract of the interrupt
  controller, and towards threads they do nothing but wake them.
\<close>

lemma call_handler_inHandler: "call_handler run Inr p k = Inr k' \<Longrightarrow> \<not> inHandler k'"
  by (auto simp: call_handler_def res_simps)

lemma CheckIfDue_inHandler:
  assumes "CheckIfDue run Inr adv k = Inr (fired, k')"
  shows "inHandler k' \<longrightarrow> inHandler k"
  using assms call_handler_inHandler
  by (auto simp: CheckIfDue_def Let_def res_simps advance_clock_def split: if_splits prod.splits option.splits)

lemma fire_due_inHandler: "fire_due run Inr n k = Inr k' \<Longrightarrow> \<not> inHandler k \<Longrightarrow> \<not> inHandler k'"
proof (induction n arbitrary: k)
  case (Suc n)
  then show ?case by (auto simp: res_simps split: if_splits dest!: CheckIfDue_inHandler)
qed simp

lemma OneTick_fire_inHandler: "OneTick_fire run Inr k = Inr k' \<Longrightarrow> \<not> inHandler k \<Longrightarrow> \<not> inHandler k'"
  unfolding OneTick_fire_def Let_def
  by (auto simp del: fire_due.simps simp: res_simps ChangeLevel_def count_tick_def dest!: fire_due_inHandler split: if_splits)

lemma Idle_inHandler: "Idle run Inr k = Inr k' \<Longrightarrow> \<not> inHandler k \<Longrightarrow> \<not> inHandler k'"
  by (auto simp del: fire_due.simps simp: Idle_def Halt_def res_simps dest!: CheckIfDue_inHandler fire_due_inHandler split: if_splits)

locale kernel_devices = device_contract run Inr for run :: handlers +
  assumes run_wakes: "run p k = Inr k' \<Longrightarrow> wakes k k'"
begin

lemma call_handler_wakes:
  assumes "call_handler run Inr p k = Inr k'"
  shows "wakes k k'"
proof -
  obtain k2 where k2: "run p (k\<lparr>inHandler := True, status := SystemMode\<rparr>) = Inr k2"
    "k' = k2\<lparr>status := status k, inHandler := False\<rparr>"
    using assms by (auto simp: call_handler_def res_simps)
  show ?thesis using run_wakes [OF k2(1)] k2(2) by simp
qed

lemma advance_clock_wakes [simp]: "wakes k (advance_clock w k') = wakes k k'"
  by (simp add: advance_clock_def)

lemma CheckIfDue_wakes:
  assumes "CheckIfDue run Inr adv k = Inr (fired, k')"
  shows "wakes k k'"
proof (cases "pending k")
  case Nil
  then show ?thesis using assms by (auto simp: CheckIfDue_def res_simps)
next
  case (Cons e rest)
  obtain p w where e: "e = (p, w)" by (cases e)
  let ?k2 = "if adv then advance_clock w (k\<lparr>pending := rest\<rparr>) else k\<lparr>pending := rest\<rparr>"
  have w2: "wakes k ?k2" by simp
  consider (kept) k1 q where "k' = k1\<lparr>pending := q\<rparr>" "k1 = k\<lparr>pending := rest\<rparr> \<or> k1 = ?k2"
    | (called) "call_handler run Inr p ?k2 = Inr k'"
    using assms Cons e by (auto simp: CheckIfDue_def Let_def res_simps split: if_splits)
  then show ?thesis
  proof cases
    case kept
    then show ?thesis using w2 by (auto simp del: if_split) 
  next
    case called
    show ?thesis by (rule wakes_trans [OF w2 call_handler_wakes [OF called]])
  qed
qed

lemma fire_due_wakes: "fire_due run Inr n k = Inr k' \<Longrightarrow> wakes k k'"
proof (induction n arbitrary: k)
  case (Suc n)
  obtain fired k1 where k1: "CheckIfDue run Inr False k = Inr (fired, k1)"
    "(if fired then fire_due run Inr n k1 else Inr k1) = Inr k'"
    using Suc.prems by (auto simp: res_simps)
  have "wakes k1 k'" using k1(2) Suc.IH by (cases fired) auto
  then show ?case using wakes_trans CheckIfDue_wakes [OF k1(1)] by blast
qed simp

lemma OneTick_fire_wakes:
  assumes "OneTick_fire run Inr k = Inr k'"
  shows "wakes k k'"
proof -
  let ?k1 = "ChangeLevel IntOn IntOff (count_tick k)"
  obtain k2 where k2: "fire_due run Inr (Suc (length (pending ?k1))) ?k1 = Inr k2" "k' = ChangeLevel IntOff IntOn k2"
    using assms unfolding OneTick_fire_def Let_def by (auto simp del: fire_due.simps simp: res_simps)
  have "wakes k ?k1" by (simp add: ChangeLevel_def count_tick_def)
  then have "wakes k k2" using fire_due_wakes [OF k2(1)] by (rule wakes_trans)
  then show ?thesis using k2(2) by (simp add: ChangeLevel_def)
qed

lemma Idle_wakes_only:
  assumes "Idle run Inr k = Inr k'"
  shows "wakes k k'"
proof -
  obtain k1 k2 where k: "CheckIfDue run Inr True (k\<lparr>status := IdleMode\<rparr>) = Inr (True, k1)"
    "fire_due run Inr (Suc (length (pending k1))) k1 = Inr k2"
    "k' = k2\<lparr>yieldOnReturn := False, status := SystemMode\<rparr>"
    using assms by (auto simp del: fire_due.simps simp: Idle_def Halt_def res_simps split: if_splits)
  have "wakes k k1" using CheckIfDue_wakes [OF k(1)] by simp
  then have "wakes k k2" using fire_due_wakes [OF k(2)] by (rule wakes_trans)
  then show ?thesis using k(3) by simp
qed

text \<open>Ticks and idling succeed and keep the clockwork in order; idling may shut the machine down.\<close>

lemma OneTick_fire_ok:
  assumes "clockwork_ok k"
  shows "\<exists>k'. OneTick_fire run Inr k = Inr k' \<and> wakes k k' \<and> level k' = IntOn \<and> pending_ok k' \<and>
    \<not> inHandler k' \<and> status k' = SystemMode"
proof -
  obtain k' where k': "OneTick_fire run Inr k = Inr k'" "level k' = IntOn" "pending_ok k'" "status k' = status k"
    using OneTick_fire_total [of k] assms by (auto simp: clockwork_ok_def)
  moreover have "\<not> inHandler k'" using OneTick_fire_inHandler [OF k'(1)] assms by (simp add: clockwork_ok_def)
  ultimately show ?thesis using OneTick_fire_wakes [OF k'(1)] assms by (simp add: clockwork_ok_def)
qed

lemma Idle_ok:
  assumes "clockwork_ok k" "level k = IntOff"
  shows "Idle run Inr k = Inl Halted \<or>
    (\<exists>k'. Idle run Inr k = Inr k' \<and> wakes k k' \<and> level k' = IntOff \<and> clockwork_ok k')"
proof (cases "pending k = [] \<or> (\<exists>p w. pending k = [(p, w)] \<and> pi_type p = TimerInt)")
  case True
  then show ?thesis using Idle_halts assms(2) by blast
next
  case False
  then obtain p w rest where p: "pending k = (p, w) # rest" "\<not> (pi_type p = TimerInt \<and> rest = [])"
    by (cases "pending k") auto
  obtain k' where k': "Idle run Inr k = Inr k'" "status k' = SystemMode" "\<not> yieldOnReturn k'"
    "level k' = IntOff" "pending_ok k'"
    using Idle_wakes [OF assms(2) _ p] assms(1) by (auto simp: clockwork_ok_def)
  then show ?thesis
    using Idle_wakes_only [OF k'(1)] Idle_inHandler [OF k'(1)] assms(1) by (auto simp: clockwork_ok_def)
qed

end

section \<open>Steps of the current thread\<close>

text \<open>Everything but the current thread is in order.\<close>

definition calm :: "Kernel \<Rightarrow> bool" where
  "calm k \<longleftrightarrow> (\<forall>t. t \<noteq> currentThread k \<longrightarrow> suspended k t) \<and> objects_ok k \<and> clockwork_ok k \<and>
     currentThread k \<in> threads k \<and> tstatus k (currentThread k) \<noteq> JUST_CREATED \<and>
     (\<forall>z. threadToBeDestroyed k = Some z \<longrightarrow> z \<noteq> currentThread k \<and> kstack k z = [Run_tail])"

abbreviation cur_fits :: "Kernel \<Rightarrow> IntStatus \<Rightarrow> frame list \<Rightarrow> bool" where
  "cur_fits k lv fs \<equiv> stack_ok (list_lock k) (hold (locks k) (currentThread k)) lv fs"

abbreviation cur_free :: "Kernel \<Rightarrow> bool" where
  "cur_free k \<equiv> no_place (places k) (currentThread k)"

lemma kinv_running:
  "calm k \<Longrightarrow> cur_free k \<Longrightarrow> cur_fits k (level k) (cur_stack k) \<Longrightarrow> kinv k"
  by (auto simp: kinv_def calm_def carcass_ok_def running_def split: option.split)

lemma kstack_push [simp]:
  "kstack (push fs k) t = (if t = currentThread k then fs @ kstack k t else kstack k t)"
  "currentThread (push fs k) = currentThread k" "level (push fs k) = level k" "locks (push fs k) = locks k"
  "synchlists (push fs k) = synchlists k" "semaphores (push fs k) = semaphores k" "conditions (push fs k) = conditions k"
  "status (push fs k) = status k" "readyList (push fs k) = readyList k" "fencepost (push fs k) = fencepost k"
  "tstatus (push fs k) = tstatus k" "threads (push fs k) = threads k" "inHandler (push fs k) = inHandler k"
  "threadToBeDestroyed (push fs k) = threadToBeDestroyed k" "yieldOnReturn (push fs k) = yieldOnReturn k"
  "pending (push fs k) = pending k"
  by (simp_all add: push_def)

lemma kstack_pop [simp]:
  "kstack (pop k) t = (if t = currentThread k then tl (kstack k t) else kstack k t)"
  "currentThread (pop k) = currentThread k" "level (pop k) = level k" "locks (pop k) = locks k"
  "synchlists (pop k) = synchlists k" "semaphores (pop k) = semaphores k" "conditions (pop k) = conditions k"
  "status (pop k) = status k" "readyList (pop k) = readyList k" "fencepost (pop k) = fencepost k"
  "tstatus (pop k) = tstatus k" "threads (pop k) = threads k" "inHandler (pop k) = inHandler k"
  "threadToBeDestroyed (pop k) = threadToBeDestroyed k" "yieldOnReturn (pop k) = yieldOnReturn k"
  "pending (pop k) = pending k"
  by (simp_all add: pop_def)

lemma list_lock_frame [simp]:
  "list_lock (push fs k) = list_lock k" "list_lock (pop k) = list_lock k" "list_lock (disable k) = list_lock k"
  "list_lock (set_sem s x k) = list_lock k" "list_lock (set_lock l y k) = list_lock k"
  "list_lock (set_cond c z k) = list_lock k" "list_lock (ReadyToRun t k) = list_lock k"
  "list_lock (k\<lparr>readyList := r\<rparr>) = list_lock k" "list_lock (k\<lparr>currentThread := u\<rparr>) = list_lock k"
  "list_lock (k\<lparr>tstatus := ts\<rparr>) = list_lock k" "list_lock (k\<lparr>level := lv\<rparr>) = list_lock k"
  "list_lock (k\<lparr>status := st\<rparr>) = list_lock k" "list_lock (k\<lparr>yieldOnReturn := b\<rparr>) = list_lock k"
  "list_lock (k\<lparr>threadToBeDestroyed := d\<rparr>) = list_lock k" "list_lock (k\<lparr>kstack := ks\<rparr>) = list_lock k"
  "list_lock (k\<lparr>threads := th\<rparr>) = list_lock k" "list_lock (k\<lparr>fencepost := fp\<rparr>) = list_lock k"
  "list_lock (k\<lparr>retval := rv\<rparr>) = list_lock k"
  by (simp_all add: list_lock_def fun_eq_iff push_def pop_def disable_def ChangeLevel_def set_sem_def set_lock_def
      set_cond_def ReadyToRun_def)

lemma disable_simps [simp]:
  "level (disable k) = IntOff" "kstack (disable k) = kstack k" "currentThread (disable k) = currentThread k"
  "locks (disable k) = locks k" "semaphores (disable k) = semaphores k" "conditions (disable k) = conditions k"
  "synchlists (disable k) = synchlists k" "readyList (disable k) = readyList k" "threads (disable k) = threads k"
  "tstatus (disable k) = tstatus k" "fencepost (disable k) = fencepost k"
  "threadToBeDestroyed (disable k) = threadToBeDestroyed k"
  by (simp_all add: disable_def ChangeLevel_def)

lemma clockwork_frame [simp]:
  "clockwork_ok (push fs k) = clockwork_ok k" "clockwork_ok (pop k) = clockwork_ok k"
  "clockwork_ok (disable k) = clockwork_ok k" "clockwork_ok (k\<lparr>level := lv\<rparr>) = clockwork_ok k"
  "clockwork_ok (set_sem s x k) = clockwork_ok k" "clockwork_ok (set_lock l y k) = clockwork_ok k"
  "clockwork_ok (set_cond c z k) = clockwork_ok k" "clockwork_ok (ReadyToRun t k) = clockwork_ok k"
  "clockwork_ok (k\<lparr>readyList := r\<rparr>) = clockwork_ok k" "clockwork_ok (k\<lparr>currentThread := u\<rparr>) = clockwork_ok k"
  "clockwork_ok (k\<lparr>tstatus := ts\<rparr>) = clockwork_ok k" "clockwork_ok (set_sl q v k) = clockwork_ok k"
  "clockwork_ok (k\<lparr>threadToBeDestroyed := d\<rparr>) = clockwork_ok k" "clockwork_ok (k\<lparr>kstack := ks\<rparr>) = clockwork_ok k"
  "clockwork_ok (k\<lparr>threads := th\<rparr>) = clockwork_ok k" "clockwork_ok (k\<lparr>fencepost := fp\<rparr>) = clockwork_ok k"
  "clockwork_ok (k\<lparr>retval := rv\<rparr>) = clockwork_ok k"
  by (simp_all add: clockwork_ok_def pending_ok_def disable_def ChangeLevel_def push_def pop_def set_sem_def
      set_lock_def set_cond_def ReadyToRun_def set_sl_def)

text \<open>\<open>calm\<close> looks neither at the stack of the current thread nor at the interrupt level.\<close>

lemma calm_cong:
  assumes "currentThread k' = currentThread k" "\<And>t. t \<noteq> currentThread k \<Longrightarrow> kstack k' t = kstack k t"
    "places k' = places k" "list_lock k' = list_lock k" "locks k' = locks k" "conditions k' = conditions k"
    "semaphores k' = semaphores k" "synchlists k' = synchlists k" "fencepost k' = fencepost k"
    "threads k' = threads k" "tstatus k' = tstatus k" "threadToBeDestroyed k' = threadToBeDestroyed k"
    "clockwork_ok k' = clockwork_ok k"
  shows "calm k' \<longleftrightarrow> calm k"
proof -
  have o: "objects_ok k' \<longleftrightarrow> objects_ok k"
    if "currentThread k \<in> threads k" "tstatus k (currentThread k) \<noteq> JUST_CREATED"
    using that assms by (auto simp: objects_ok_def) metis+
  show ?thesis using assms o by (auto simp: calm_def suspended_def)
qed

lemma calm_frame [simp]:
  "calm (push fs k) = calm k" "calm (pop k) = calm k" "calm (disable k) = calm k" "calm (k\<lparr>level := lv\<rparr>) = calm k"
  by (rule calm_cong; simp)+

lemma suspended_wakes: "wakes k k' \<Longrightarrow> suspended k t \<Longrightarrow> suspended k' t"
  by (auto simp: wakes_def suspended_def list_lock_def [abs_def])

lemma objects_wakes: "wakes k k' \<Longrightarrow> objects_ok k \<Longrightarrow> objects_ok k'"
  by (auto simp: wakes_def objects_ok_def intro: order_trans)

lemma calm_wakes: "wakes k k' \<Longrightarrow> calm k \<Longrightarrow> clockwork_ok k' \<Longrightarrow> calm k'"
  using suspended_wakes [of k k'] objects_wakes [of k k'] by (auto simp: calm_def wakes_def)

lemma cur_wakes:
  assumes "wakes k k'"
  shows "cur_free k \<Longrightarrow> cur_free k'" "cur_fits k' lv fs = cur_fits k lv fs" "cur_stack k' = cur_stack k"
  using assms by (auto simp: wakes_def list_lock_def [abs_def])

text \<open>
  Switching to the head of the ready list: every thread but the new one is suspended, the old one
  included once \<^verbatim>\<open>Run\<close> has left its return location on the old stack.
\<close>

lemma Scheduler_Run_ok:
  fixes k :: Kernel and t :: tid
  defines "k1 \<equiv> push [Run_tail] k"
  assumes others: "\<And>u. u \<noteq> t \<Longrightarrow> suspended k1 u" and t: "no_place (places k) t"
    "stack_ok (list_lock k) (hold (locks k) t) IntOff (kstack k1 t)"
    and o: "objects_ok k1" and c: "clockwork_ok k" and lv: "level k = IntOff"
    and z: "\<And>z. threadToBeDestroyed k = Some z \<Longrightarrow> z \<noteq> t \<and> kstack k1 z = [Run_tail]"
    and alive: "t \<in> threads k" "tstatus k t \<noteq> JUST_CREATED"
  shows "\<exists>k'. Scheduler_Run t k = Inr k' \<and> kinv k'"
proof -
  let ?k' = "k1\<lparr>currentThread := t, tstatus := (tstatus k1)(t := RUNNING)\<rparr>"
  have "fencepost k (currentThread k) \<in> {None, Some STACK_FENCEPOST}" using o by (simp add: objects_ok_def k1_def)
  then have run: "Scheduler_Run t k = Inr ?k'"
    by (auto simp: Scheduler_Run_def CheckOverflow_def k1_def Let_def split: option.split)
  have "calm ?k'"
    unfolding calm_def
  proof (intro conjI allI impI)
    show "\<And>u. u \<noteq> currentThread ?k' \<Longrightarrow> suspended ?k' u" using others by (simp add: suspended_def)
    show "objects_ok ?k'" using o by (auto simp: objects_ok_def)
    show "clockwork_ok ?k'" using c by (simp add: k1_def)
    show "currentThread ?k' \<in> threads ?k'" using alive by (simp add: k1_def)
    show "tstatus ?k' (currentThread ?k') \<noteq> JUST_CREATED" by simp
    fix z0 assume "threadToBeDestroyed ?k' = Some z0"
    then show "z0 \<noteq> currentThread ?k'" "kstack ?k' z0 = [Run_tail]" using z by (simp_all add: k1_def)
  qed
  moreover have "cur_free ?k'" using t(1) by (simp add: k1_def)
  moreover have "cur_fits ?k' (level ?k') (cur_stack ?k')" using t(2) lv by (simp add: k1_def)
  ultimately show ?thesis using run kinv_running by blast
qed

lemma objects_push:
  "objects_ok k \<Longrightarrow> currentThread k \<in> threads k \<Longrightarrow> tstatus k (currentThread k) \<noteq> JUST_CREATED \<Longrightarrow> objects_ok (push fs k)"
  by (auto simp: objects_ok_def push_def)

text \<open>Facts about a thread found at the head of the ready list.\<close>

lemma ready_head:
  assumes "suspended k t" "readyList k = t # ts" "objects_ok k"
  shows "placed (places k) t" "stack_ok (list_lock k) (hold (locks k) t) IntOff (kstack k t)"
    "hd (kstack k t) \<in> {Run_tail, Root_enable}" "t \<in> threads k" "tstatus k t \<noteq> JUST_CREATED"
proof -
  have "t \<in> set (places k InReady)" using assms(2) by simp
  then have np: "\<not> no_place (places k) t" by (auto simp: no_place_def simp del: place_list.simps)
  then show p: "placed (places k) t" "stack_ok (list_lock k) (hold (locks k) t) IntOff (kstack k t)"
    "hd (kstack k t) \<in> {Run_tail, Root_enable}" using assms(1) by (auto simp: suspended_def)
  have "kstack k t \<noteq> []" using p(2) by auto
  then show "t \<in> threads k" "tstatus k t \<noteq> JUST_CREATED" using assms(3) by (auto simp: objects_ok_def)
qed

lemma suspended_remove_ready:
  assumes "suspended k u" "readyList k = t # ts" "placed (places k) t" "u \<noteq> t"
  shows "suspended (k\<lparr>readyList := ts\<rparr>) u"
proof -
  have p: "places k InReady = t # ts" using assms(2) by simp
  show ?thesis
    using assms(1) remove_places(2,3) [OF p refl assms(3,4)] by (auto simp: suspended_def)
qed

lemma Thread_Yield_ok:
  assumes c: "calm k" and f: "cur_free k" and s: "cur_fits k (level k) (cur_stack k)"
  shows "\<exists>k'. Thread_Yield k = Inr k' \<and> kinv k'"
proof (cases "readyList k")
  case Nil
  let ?k' = "push [Restore (level k)] (disable k)"
  have "kinv ?k'" by (rule kinv_running) (use c f s in simp_all)
  then show ?thesis using Nil by (simp add: Thread_Yield_def Let_def FindNextToRun_def)
next
  case (Cons t ts)
  let ?cur = "currentThread k"
  let ?k2 = "(disable k)\<lparr>readyList := ts\<rparr>"
  let ?k3 = "ReadyToRun ?cur (push [Restore (level k)] ?k2)"
  have o: "objects_ok k" and cw: "clockwork_ok k" and alive: "?cur \<in> threads k" "tstatus k ?cur \<noteq> JUST_CREATED"
    using c by (simp_all add: calm_def)
  have tcur: "t \<noteq> ?cur" using f Cons by (auto simp: no_place_def dest: spec [of _ InReady])
  then have st: "suspended k t" using c by (simp add: calm_def)
  note rh = ready_head [OF st Cons o]
  have p: "places k InReady = t # ts" using Cons by simp
  note rem = remove_places [OF p refl rh(1)]
  let ?pl = "(places k)(InReady := ts)"
  have free2: "no_place ?pl ?cur" using rem(3) [OF tcur [symmetric] f] .
  have pl3: "places (push [Run_tail] ?k3) = ?pl(InReady := ?pl InReady @ [?cur])" by simp
  note app = append_places [OF pl3 free2]
  have run: "Thread_Yield k = Scheduler_Run t ?k3"
    using Cons by (simp add: Thread_Yield_def Let_def FindNextToRun_def)
  have "\<exists>k'. Scheduler_Run t ?k3 = Inr k' \<and> kinv k'"
  proof (rule Scheduler_Run_ok)
    fix u assume u: "u \<noteq> t"
    show "suspended (push [Run_tail] ?k3) u"
    proof (cases "u = ?cur")
      case True
      then show ?thesis
        using app(1) s by (simp add: suspended_def ReadyToRun_def push_def del: place_list_ready)
    next
      case False
      then have "suspended k u" using c by (simp add: calm_def)
      then show ?thesis
        using rem(2,3) [OF u] app(2,3) [OF False] False
        unfolding suspended_def pl3 by (auto simp: ReadyToRun_def push_def)
    qed
  next
    show "no_place (places ?k3) t" using app(3) [OF tcur] rem(1) pl3 by simp
    show "stack_ok (list_lock ?k3) (hold (locks ?k3) t) IntOff (kstack (push [Run_tail] ?k3) t)"
      using rh(2) tcur by (simp add: ReadyToRun_def push_def)
    show "objects_ok (push [Run_tail] ?k3)" using o alive by (auto simp: objects_ok_def ReadyToRun_def push_def)
    show "clockwork_ok ?k3" using cw by simp
    show "level ?k3 = IntOff" by (simp add: ReadyToRun_def)
    show "t \<in> threads ?k3" "tstatus ?k3 t \<noteq> JUST_CREATED" using rh(4,5) by (simp_all add: ReadyToRun_def)
    fix z assume "threadToBeDestroyed ?k3 = Some z"
    then have z: "z \<noteq> ?cur" "kstack k z = [Run_tail]" using c by (auto simp: calm_def ReadyToRun_def)
    moreover have "kstack k t \<noteq> [Run_tail]" using rh(2) by auto
    ultimately show "z \<noteq> t \<and> kstack (push [Run_tail] ?k3) z = [Run_tail]"
      by (auto simp: ReadyToRun_def push_def)
  qed
  then show ?thesis using run by simp
qed

text \<open>Going to sleep with the current thread in a queue.\<close>

definition going_to_sleep :: "Kernel \<Rightarrow> bool" where
  "going_to_sleep k \<longleftrightarrow> calm k \<and> placed (places k) (currentThread k) \<and> level k = IntOff \<and>
     cur_fits k IntOff (cur_stack k)"

lemma Sleep_ok:
  assumes "going_to_sleep k"
  shows "\<exists>k'. Sleep k = Inr k' \<and> kinv k'"
proof -
  let ?k' = "push [Sleep_find] (k\<lparr>tstatus := (tstatus k)(currentThread k := BLOCKED)\<rparr>)"
  have c: "calm k" and lv: "level k = IntOff" using assms by (simp_all add: going_to_sleep_def)
  have run: "Sleep k = Inr ?k'" using lv by (simp add: Sleep_def)
  have a: "asleep ?k'" using assms by (auto simp: going_to_sleep_def asleep_def)
  have "kinv ?k'"
    unfolding kinv_def
  proof (intro conjI allI impI)
    fix t assume "t \<noteq> currentThread ?k'"
    then show "suspended ?k' t" using c by (auto simp: calm_def suspended_def)
  next
    show "objects_ok ?k'" using c by (auto simp: calm_def objects_ok_def)
    show "carcass_ok ?k'" using c by (auto simp: calm_def carcass_ok_def split: option.split)
    show "clockwork_ok ?k'" using c by (simp add: calm_def)
    show "running ?k' \<or> asleep ?k'" using a ..
  qed
  then show ?thesis using run by blast
qed

lemma Thread_Finish_ok:
  assumes c: "calm k" and f: "cur_free k" and s: "cur_stack k = []"
  shows "\<exists>k'. Thread_Finish k = Inr k' \<and> kinv k'"
proof -
  let ?k1 = "(disable k)\<lparr>threadToBeDestroyed := Some (currentThread k)\<rparr>"
  let ?k' = "push [Sleep_find] (?k1\<lparr>tstatus := (tstatus k)(currentThread k := BLOCKED)\<rparr>)"
  have run: "Thread_Finish k = Inr ?k'" by (simp add: Thread_Finish_def Sleep_def)
  have a: "asleep ?k'" using f s by (simp add: asleep_def)
  have "kinv ?k'"
    unfolding kinv_def
  proof (intro conjI allI impI)
    fix t assume "t \<noteq> currentThread ?k'"
    then show "suspended ?k' t" using c by (auto simp: calm_def suspended_def)
  next
    show "objects_ok ?k'" using c by (auto simp: calm_def objects_ok_def)
    show "carcass_ok ?k'" using s by (simp add: carcass_ok_def)
    show "clockwork_ok ?k'" using c by (simp add: calm_def)
    show "running ?k' \<or> asleep ?k'" using a ..
  qed
  then show ?thesis using run by blast
qed

text \<open>Deleting the thread that finished last, on the stack of the thread that runs next.\<close>

lemma Run_after_ok:
  assumes c: "calm k" and f: "cur_free k" and s: "cur_fits k (level k) (cur_stack k)"
  shows "\<exists>k'. Run_after k = Inr k' \<and> kinv k'"
proof (cases "threadToBeDestroyed k")
  case None
  then show ?thesis using kinv_running [OF c f s] by (simp add: Run_after_def)
next
  case (Some z)
  then have z: "z \<noteq> currentThread k" "kstack k z = [Run_tail]" using c by (auto simp: calm_def)
  let ?k' = "k\<lparr>threads := threads k - {z}, fencepost := (fencepost k)(z := None),
    kstack := (kstack k)(z := []), threadToBeDestroyed := None\<rparr>"
  have run: "Run_after k = Inr ?k'" using Some z by (simp add: Run_after_def Thread_delete_def)
  have "suspended k z" using c z(1) by (simp add: calm_def)
  then have zn: "no_place (places k) z" using z(2) by (auto simp: suspended_def)
  have "calm ?k'"
    unfolding calm_def
  proof (intro conjI allI impI)
    fix t assume "t \<noteq> currentThread ?k'"
    then have "suspended k t" using c by (simp add: calm_def)
    then show "suspended ?k' t" using zn by (auto simp: suspended_def)
  next
    show "objects_ok ?k'" using c by (auto simp: calm_def objects_ok_def)
    show "clockwork_ok ?k'" using c by (simp add: calm_def)
    show "currentThread ?k' \<in> threads ?k'" "tstatus ?k' (currentThread ?k') \<noteq> JUST_CREATED"
      using c z(1) by (simp_all add: calm_def)
  qed simp_all
  moreover have "cur_free ?k'" using f by simp
  moreover have "cur_fits ?k' (level ?k') (cur_stack ?k')" using s z(1) by simp
  ultimately show ?thesis using run kinv_running by blast
qed

context kernel_devices
begin

lemma SetLevel_ok:
  assumes c: "calm k" and f: "cur_free k" and lv: "level k = IntOff" and s: "cur_fits k nowl (cur_stack k)"
  shows "\<exists>k'. Kernel_SetLevel run nowl k = Inr k' \<and> kinv k'"
proof (cases nowl)
  case IntOff
  have "kinv (k\<lparr>level := IntOff\<rparr>)" by (rule kinv_running) (use c f s IntOff in simp_all)
  then show ?thesis using IntOff by (simp add: Kernel_SetLevel_def ChangeLevel_def)
next
  case IntOn
  let ?k0 = "k\<lparr>level := IntOn\<rparr>"
  have cw: "clockwork_ok ?k0" using c by (simp add: calm_def)
  obtain k1 where k1: "OneTick_fire run Inr ?k0 = Inr k1" "wakes k k1" "level k1 = IntOn" "pending_ok k1"
      "\<not> inHandler k1" "status k1 = SystemMode"
    using OneTick_fire_ok [OF cw] by auto
  have start: "Kernel_SetLevel run nowl k = Kernel_OneTick run ?k0"
    using IntOn lv c by (simp add: Kernel_SetLevel_def ChangeLevel_def calm_def clockwork_ok_def)
  let ?k2 = "k1\<lparr>yieldOnReturn := False, status := SystemMode\<rparr>"
  have cw2: "clockwork_ok ?k2" using k1 by (simp add: clockwork_ok_def pending_ok_def)
  have w2: "wakes k ?k2" using k1(2) by simp
  have c2: "calm ?k2" by (rule calm_wakes [OF w2 c cw2])
  have f2: "cur_free ?k2" by (rule cur_wakes(1) [OF w2 f])
  have s2: "cur_fits ?k2 IntOn (cur_stack ?k2)" using cur_wakes(2,3) [OF w2] s IntOn by simp
  show ?thesis
  proof (cases "yieldOnReturn k1")
    case False
    then have eq: "?k2 = k1" using k1(6) by simp
    then have "kinv k1" using kinv_running [OF c2 f2] s2 k1(3) by simp
    then show ?thesis using False start k1(1) by (simp add: Kernel_OneTick_def)
  next
    case True
    have st: "status ?k0 = SystemMode" using cw by (simp add: clockwork_ok_def)
    let ?k3 = "push [Tick_tail SystemMode] ?k2"
    have "\<exists>k'. Thread_Yield ?k3 = Inr k' \<and> kinv k'"
      by (rule Thread_Yield_ok) (use c2 f2 s2 k1(3) in simp_all)
    then show ?thesis using True start k1(1) st by (simp add: Kernel_OneTick_def)
  qed
qed

end

section \<open>Queues and locks\<close>

text \<open>How a change of queues and locks carries over to the suspended threads.\<close>

lemma calm_transfer:
  assumes c: "calm k" and same: "currentThread k' = currentThread k" "\<And>u. u \<noteq> currentThread k \<Longrightarrow> kstack k' u = kstack k u"
      "list_lock k' = list_lock k" "threads k' = threads k" "threadToBeDestroyed k' = threadToBeDestroyed k"
    and status: "tstatus k' (currentThread k) \<noteq> JUST_CREATED"
    and u: "\<And>u. u \<noteq> currentThread k \<Longrightarrow> placed (places k) u \<Longrightarrow> placed (places k') u"
      "\<And>u. u \<noteq> currentThread k \<Longrightarrow> no_place (places k) u \<Longrightarrow> no_place (places k') u"
      "\<And>u. u \<noteq> currentThread k \<Longrightarrow> hold (locks k) u \<subseteq> hold (locks k') u"
    and o: "objects_ok k'" and cw: "clockwork_ok k'"
  shows "calm k'"
proof -
  have "suspended k' t" if t: "t \<noteq> currentThread k" for t
  proof -
    have "suspended k t" using c t by (simp add: calm_def)
    then show ?thesis
      using u [OF t] stack_ok_mono [of _ "hold (locks k) t"] same(2) [OF t] same(3) by (auto simp: suspended_def)
  qed
  then show ?thesis using c same status o cw by (auto simp: calm_def)
qed

lemma set_simps [simp]:
  "currentThread (set_sem s x k) = currentThread k" "currentThread (set_lock l y k) = currentThread k"
  "currentThread (set_cond c z k) = currentThread k" "currentThread (ReadyToRun t k) = currentThread k"
  "kstack (set_sem s x k) = kstack k" "kstack (set_lock l y k) = kstack k" "kstack (set_cond c z k) = kstack k"
  "kstack (ReadyToRun t k) = kstack k"
  "threads (set_sem s x k) = threads k" "threads (set_lock l y k) = threads k" "threads (set_cond c z k) = threads k"
  "threads (ReadyToRun t k) = threads k"
  "threadToBeDestroyed (set_sem s x k) = threadToBeDestroyed k" "threadToBeDestroyed (set_lock l y k) = threadToBeDestroyed k"
  "threadToBeDestroyed (set_cond c z k) = threadToBeDestroyed k" "threadToBeDestroyed (ReadyToRun t k) = threadToBeDestroyed k"
  "tstatus (set_sem s x k) = tstatus k" "tstatus (set_lock l y k) = tstatus k" "tstatus (set_cond c z k) = tstatus k"
  "tstatus (ReadyToRun t k) = (tstatus k)(t := READY)"
  "level (set_sem s x k) = level k" "level (set_lock l y k) = level k" "level (set_cond c z k) = level k"
  "level (ReadyToRun t k) = level k"
  "locks (set_sem s x k) = locks k" "locks (set_lock l y k) = (locks k)(l := y)" "locks (set_cond c z k) = locks k"
  "locks (ReadyToRun t k) = locks k" "readyList (set_sem s x k) = readyList k" "readyList (set_lock l y k) = readyList k"
  "readyList (set_cond c z k) = readyList k" "conditions (set_lock l y k) = conditions k"
  "conditions (set_cond c z k) = (conditions k)(c := z)" "semaphores (set_sem s x k) = (semaphores k)(s := x)"
  by (simp_all add: set_sem_def set_lock_def set_cond_def ReadyToRun_def)

lemma objects_set [simp]:
  "objects_ok k \<Longrightarrow> sem_value x \<ge> 0 \<Longrightarrow> objects_ok (set_sem s x k)"
  "objects_ok k \<Longrightarrow> lock_ok y \<Longrightarrow> objects_ok (set_lock l y k)"
  "objects_ok k \<Longrightarrow> cond_ok z \<Longrightarrow> objects_ok (set_cond c z k)"
  "objects_ok k \<Longrightarrow> objects_ok (ReadyToRun t k)"
  "objects_ok k \<Longrightarrow> objects_ok (disable k)"
  by (auto simp: objects_ok_def set_sem_def set_lock_def set_cond_def ReadyToRun_def disable_def ChangeLevel_def)

lemma cur_hold_same: "lock_waitQueue y = lock_waitQueue (locks k l) \<Longrightarrow> ownerThread y = ownerThread (locks k l) \<Longrightarrow>
  hold (locks (set_lock l y k)) u = hold (locks k) u"
  by (auto simp: hold_def)

text \<open>The current thread queues up on a semaphore, on a lock, on a condition.\<close>

lemma block_on_sem:
  fixes s :: sid
  assumes c: "calm k" and f: "cur_free k"
  defines "k' \<equiv> set_sem s ((semaphores k s)\<lparr>sem_queue := sem_queue (semaphores k s) @ [currentThread k]\<rparr>) k"
  shows "calm k' \<and> placed (places k') (currentThread k)"
proof -
  have pl: "places k' = (places k)(InSem s := places k (InSem s) @ [currentThread k])" by (simp add: k'_def)
  note app = append_places [OF pl f]
  have o: "objects_ok k" using c by (simp add: calm_def)
  then have "0 \<le> sem_value (semaphores k s)" by (simp add: objects_ok_def)
  then have "objects_ok k'" using o by (simp add: k'_def)
  then have "calm k'"
    using app(2,3) c by (intro calm_transfer [OF c]) (simp_all add: k'_def calm_def)
  then show ?thesis using app(1) by blast
qed

lemma block_on_cond:
  fixes c0 :: cid
  assumes c: "calm k" and f: "cur_free k" and w: "waitLock cd \<noteq> None" "cond_waitQueue cd = cond_waitQueue (conditions k c0)"
  defines "k' \<equiv> set_cond c0 (cd\<lparr>cond_waitQueue := cond_waitQueue cd @ [currentThread k]\<rparr>) k"
  shows "calm k' \<and> placed (places k') (currentThread k)"
proof -
  have pl: "places k' = (places k)(InCond c0 := places k (InCond c0) @ [currentThread k])" using w by (simp add: k'_def)
  note app = append_places [OF pl f]
  have "objects_ok k'" using c w by (simp add: calm_def k'_def cond_ok_def)
  then have "calm k'"
    using app(2,3) c by (intro calm_transfer [OF c]) (simp_all add: k'_def calm_def)
  then show ?thesis using app(1) by blast
qed

lemma block_on_lock:
  fixes l :: lid
  assumes c: "calm k" and f: "cur_free k" and b: "isBusy (locks k l)"
  defines "k' \<equiv> set_lock l ((locks k l)\<lparr>lock_waitQueue := lock_waitQueue (locks k l) @ [currentThread k]\<rparr>) k"
  shows "calm k' \<and> placed (places k') (currentThread k) \<and>
    hold (locks k') (currentThread k) = insert l (hold (locks k) (currentThread k))"
proof -
  have pl: "places k' = (places k)(InLock l := places k (InLock l) @ [currentThread k])" by (simp add: k'_def)
  note app = append_places [OF pl f]
  have "lock_ok (locks k l)" using c by (simp add: calm_def objects_ok_def)
  then have o: "objects_ok k'" using c b by (simp add: calm_def k'_def lock_ok_def)
  have h: "hold (locks k) u \<subseteq> hold (locks k') u" for u by (auto simp: hold_def k'_def)
  have "calm k'"
    using app(2,3) c h o by (intro calm_transfer [OF c]) (simp_all add: k'_def calm_def)
  moreover have "hold (locks k') (currentThread k) = insert l (hold (locks k) (currentThread k))"
    by (auto simp: hold_def k'_def split: if_splits)
  ultimately show ?thesis using app(1) by blast
qed

text \<open>Releasing a lock hands it to the first waiter.\<close>

lemma Lock_Release_body_ok:
  fixes l :: lid
  assumes c: "calm k"
  defines "k' \<equiv> Lock_Release_body l k"
  shows "calm k' \<and> (cur_free k \<longrightarrow> cur_free k') \<and> (placed (places k) (currentThread k) \<longrightarrow> placed (places k') (currentThread k)) \<and>
    hold (locks k) (currentThread k) - {l} \<subseteq> hold (locks k') (currentThread k) \<and>
    level k' = level k \<and> currentThread k' = currentThread k \<and> kstack k' = kstack k \<and> list_lock k' = list_lock k"
proof (cases "isHeldByCurrentThread l k")
  case False
  then show ?thesis using c by (simp add: k'_def Lock_Release_body_def)
next
  case held: True
  then have own: "ownerThread (locks k l) = Some (currentThread k)" by (simp add: isHeldByCurrentThread_def)
  have lo: "lock_ok (locks k l)" using c by (simp add: calm_def objects_ok_def)
  show ?thesis
  proof (cases "lock_waitQueue (locks k l)")
    case Nil
    have k': "k' = set_lock l ((locks k l)\<lparr>isBusy := False, ownerThread := None\<rparr>) k"
      using held Nil by (simp add: k'_def Lock_Release_body_def Let_def)
    have pl: "places k' = places k" using Nil by (simp add: k' fun_upd_idem)
    have h: "hold (locks k) u \<subseteq> hold (locks k') u" if "u \<noteq> currentThread k" for u
      using own that by (auto simp: hold_def k')
    have o: "objects_ok k'" using c Nil lo by (simp add: k' calm_def lock_ok_def)
    have "calm k'" using c h o pl by (intro calm_transfer [OF c]) (simp_all add: k' calm_def)
    moreover have "hold (locks k) (currentThread k) - {l} \<subseteq> hold (locks k') (currentThread k)"
      by (auto simp: hold_def k')
    ultimately show ?thesis using pl by (simp add: k')
  next
    case (Cons t ts)
    have k': "k' = set_lock l ((locks k l)\<lparr>lock_waitQueue := ts, ownerThread := Some t\<rparr>) (ReadyToRun t k)"
      using held Cons by (simp add: k'_def Lock_Release_body_def Let_def)
    have p: "places k (InLock l) = t # ts" using Cons by simp
    have pl: "places k' = (places k)(InLock l := ts, InReady := places k InReady @ [t])"
      by (simp add: k' fun_upd_twist)
    note mv = move_places [where pl = "places k" and p = "InLock l" and q = InReady, OF p _ pl, simplified]
    have h: "hold (locks k) u \<subseteq> hold (locks k') u" if "u \<noteq> currentThread k" for u
      using own that Cons by (auto simp: hold_def k')
    have o: "objects_ok k'" using c lo own by (simp add: k' calm_def lock_ok_def)
    have "calm k'" using c h o mv by (intro calm_transfer [OF c]) (simp_all add: k' calm_def)
    moreover have "hold (locks k) (currentThread k) - {l} \<subseteq> hold (locks k') (currentThread k)"
      using own Cons by (auto simp: hold_def k')
    ultimately show ?thesis using mv by (simp add: k')
  qed
qed

lemma Condition_Signal_body_ok:
  fixes c0 :: cid and lk :: "lid option"
  assumes c: "calm k" and f: "cur_free k"
  defines "k' \<equiv> Condition_Signal_body c0 lk k"
  shows "calm k' \<and> cur_free k' \<and> locks k' = locks k \<and> level k' = level k \<and> currentThread k' = currentThread k \<and>
    kstack k' = kstack k \<and> list_lock k' = list_lock k"
proof (cases "cond_waitQueue (conditions k c0)")
  case Nil
  then show ?thesis using c f by (simp add: k'_def Condition_Signal_body_def)
next
  case (Cons t ts)
  show ?thesis
  proof (cases "waitLock (conditions k c0) = lk")
    case False
    then show ?thesis using c f Cons by (simp add: k'_def Condition_Signal_body_def Let_def)
  next
    case True
    have k': "k' = set_cond c0 ((conditions k c0)\<lparr>cond_waitQueue := ts,
        waitLock := (if ts = [] then None else waitLock (conditions k c0))\<rparr>) (ReadyToRun t k)"
      using True Cons by (simp add: k'_def Condition_Signal_body_def Let_def)
    have p: "places k (InCond c0) = t # ts" using Cons by simp
    have pl: "places k' = (places k)(InCond c0 := ts, InReady := places k InReady @ [t])"
      by (simp add: k' fun_upd_twist)
    note mv = move_places [where pl = "places k" and p = "InCond c0" and q = InReady, OF p _ pl, simplified]
    have "cond_ok (conditions k c0)" using c by (simp add: calm_def objects_ok_def)
    then have o: "objects_ok k'" using c Cons by (simp add: k' calm_def cond_ok_def)
    have "calm k'" using c o mv by (intro calm_transfer [OF c]) (simp_all add: k' calm_def)
    then show ?thesis using mv f by (simp add: k')
  qed
qed

lemma Semaphore_V_body_frame:
  "level (Semaphore_V_body s k) = level k" "clockwork_ok (Semaphore_V_body s k) = clockwork_ok k"
  by (simp_all add: Semaphore_V_body_def Let_def split: list.split)

text \<open>The state in which a routine is entered or returned to: the rest of the stack fits.\<close>

definition may_go_on :: "Kernel \<Rightarrow> bool" where
  "may_go_on k \<longleftrightarrow> calm k \<and> cur_free k \<and> cur_fits k (level k) (cur_stack k)"

lemma Semaphore_P_ok: "may_go_on k \<Longrightarrow> \<exists>k'. Semaphore_P s k = Inr k' \<and> kinv k'"
  unfolding Semaphore_P_def may_go_on_def by (intro exI conjI, rule refl, rule kinv_running) simp_all

context kernel_devices
begin

lemma P_loop_ok:
  assumes c: "calm k" "cur_free k" and lv: "level k = IntOff" and s: "cur_fits k old (cur_stack k)"
  shows "\<exists>k'. Semaphore_P_loop run sm old k = Inr k' \<and> kinv k'"
proof (cases "sem_value (semaphores k sm) = 0")
  case True
  let ?k1 = "set_sem sm ((semaphores k sm)\<lparr>sem_queue := sem_queue (semaphores k sm) @ [currentThread k]\<rparr>) k"
  have "calm ?k1" "placed (places ?k1) (currentThread k)" using block_on_sem [OF c] by blast+
  then have "going_to_sleep (push [P_test sm old] ?k1)"
    using lv s by (simp add: going_to_sleep_def del: place_list_sem)
  then show ?thesis using Sleep_ok True by (simp add: Semaphore_P_loop_def Let_def)
next
  case False
  let ?k1 = "set_sem sm ((semaphores k sm)\<lparr>sem_value := sem_value (semaphores k sm) - 1\<rparr>) k"
  have o: "objects_ok k" using c by (simp add: calm_def)
  then have "0 \<le> sem_value (semaphores k sm)" by (simp add: objects_ok_def)
  then have o1: "objects_ok ?k1" using False o by simp
  have pl: "places ?k1 = places k" by (simp add: fun_upd_idem)
  have "calm ?k1" using c o1 by (intro calm_transfer [OF c(1)]) (simp_all add: pl calm_def del: place_list_sem)
  then have "\<exists>k'. Kernel_SetLevel run old ?k1 = Inr k' \<and> kinv k'"
    by (rule SetLevel_ok) (use c(2) lv s pl in \<open>simp_all del: place_list_sem\<close>)
  then show ?thesis using False by (simp add: Semaphore_P_loop_def Let_def)
qed

lemma Semaphore_V_ok:
  assumes "may_go_on k"
  shows "\<exists>k'. Semaphore_V run s k = Inr k' \<and> kinv k'"
proof -
  let ?k1 = "Semaphore_V_body s (disable k)"
  have w: "wakes (disable k) ?k1" by (rule Semaphore_V_body_wakes)
  have c: "calm (disable k)" using assms by (simp add: may_go_on_def)
  then have "clockwork_ok ?k1" by (simp add: Semaphore_V_body_frame calm_def)
  then have "calm ?k1" by (rule calm_wakes [OF w c])
  moreover have "cur_free ?k1" by (rule cur_wakes(1) [OF w]) (use assms in \<open>simp add: may_go_on_def\<close>)
  moreover have "cur_fits ?k1 (level k) (cur_stack ?k1)"
    using cur_wakes(2,3) [OF w] assms by (simp add: may_go_on_def)
  ultimately show ?thesis unfolding Semaphore_V_def by (intro SetLevel_ok) (simp_all add: Semaphore_V_body_frame)
qed

lemma Lock_Acquire_ok:
  assumes c: "calm k" "cur_free k"
    and s: "stack_ok (list_lock k) (insert l (hold (locks k) (currentThread k))) (level k) (cur_stack k)"
  shows "\<exists>k'. Lock_Acquire l k = Inr k' \<and> kinv k'"
proof -
  let ?k1 = "disable k" and ?lk = "locks k l"
  consider (held) "isHeldByCurrentThread l k" | (free) "\<not> isHeldByCurrentThread l k" "\<not> isBusy ?lk"
    | (busy) "\<not> isHeldByCurrentThread l k" "isBusy ?lk" by blast
  then show ?thesis
  proof cases
    case held
    then have "l \<in> hold (locks k) (currentThread k)" by (simp add: hold_def isHeldByCurrentThread_def)
    then have "kinv (push [Acquire_end l (level k)] ?k1)"
      by (intro kinv_running) (use c s in \<open>simp_all add: insert_absorb\<close>)
    then show ?thesis using held by (simp add: Lock_Acquire_def Let_def isHeldByCurrentThread_def)
  next
    case free
    let ?k2 = "set_lock l (?lk\<lparr>isBusy := True, ownerThread := Some (currentThread k)\<rparr>) ?k1"
    have lo: "lock_ok ?lk" using c by (simp add: calm_def objects_ok_def)
    then have nobody: "ownerThread ?lk = None" "lock_waitQueue ?lk = []" using free by (auto simp: lock_ok_def)
    have pl: "places ?k2 = places k" by (simp add: fun_upd_idem)
    have h: "hold (locks ?k2) u = (if u = currentThread k then insert l (hold (locks k) u) else hold (locks k) u)" for u
      using nobody by (auto simp: hold_def)
    have o: "objects_ok ?k2" using c by (simp add: calm_def lock_ok_def)
    have "calm ?k2" using c h o by (intro calm_transfer [OF c(1)]) (simp_all add: pl calm_def del: place_list_lock)
    then have "kinv (push [Acquire_end l (level k)] ?k2)"
      by (intro kinv_running) (use c s h [of "currentThread k"] pl in \<open>simp_all del: place_list_lock\<close>)
    then show ?thesis using free by (simp add: Lock_Acquire_def Let_def isHeldByCurrentThread_def)
  next
    case busy
    let ?k2 = "set_lock l (?lk\<lparr>lock_waitQueue := lock_waitQueue ?lk @ [currentThread k]\<rparr>) ?k1"
    have "calm ?k2" "placed (places ?k2) (currentThread k)"
      "hold (locks ?k2) (currentThread k) = insert l (hold (locks k) (currentThread k))"
      using block_on_lock [of ?k1 l] c busy(2) by (simp_all del: place_list_lock)
    then have "going_to_sleep (push [Acquire_end l (level k)] ?k2)"
      using s by (simp add: going_to_sleep_def del: place_list_lock)
    then show ?thesis using Sleep_ok busy by (simp add: Lock_Acquire_def Let_def isHeldByCurrentThread_def)
  qed
qed

lemma Lock_Release_ok:
  assumes c: "calm k" "cur_free k"
    and s: "stack_ok (list_lock k) (hold (locks k) (currentThread k) - {l}) (level k) (cur_stack k)"
  shows "\<exists>k'. Lock_Release run l k = Inr k' \<and> kinv k'"
proof -
  let ?k1 = "Lock_Release_body l (disable k)"
  have r: "calm ?k1" "cur_free ?k1" "hold (locks k) (currentThread k) - {l} \<subseteq> hold (locks ?k1) (currentThread k)"
    "level ?k1 = IntOff" "currentThread ?k1 = currentThread k" "kstack ?k1 = kstack k" "list_lock ?k1 = list_lock k"
    using Lock_Release_body_ok [of "disable k" l] c by auto
  have "cur_fits ?k1 (level k) (cur_stack ?k1)" using stack_ok_mono [OF s r(3)] r by simp
  then show ?thesis unfolding Lock_Release_def by (intro SetLevel_ok r)
qed

end

lemma set_cond_twice [simp]: "set_cond c x (set_cond c y k) = set_cond c x k"
  by (simp add: set_cond_def)

lemma cond_set_calm:
  assumes c: "calm k" and "cond_waitQueue cd = cond_waitQueue (conditions k c0)" "cond_ok cd"
  shows "calm (set_cond c0 cd k)" "places (set_cond c0 cd k) = places k"
proof -
  show pl: "places (set_cond c0 cd k) = places k" using assms(2) by (simp add: fun_upd_idem)
  have o: "objects_ok (set_cond c0 cd k)" using c assms(3) by (simp add: calm_def)
  show "calm (set_cond c0 cd k)"
    using c o by (intro calm_transfer [OF c]) (simp_all add: pl calm_def del: place_list_cond)
qed

lemma Thread_new_ok:
  assumes g: "may_go_on k" and t: "t \<notin> threads k"
  shows "kinv (Thread_new t k)"
proof -
  let ?k' = "Thread_new t k"
  have c: "calm k" using g by (simp add: may_go_on_def)
  then have tc: "t \<noteq> currentThread k" and ks: "kstack k t = []" using t by (auto simp: calm_def objects_ok_def)
  have same: "places ?k' = places k" "list_lock ?k' = list_lock k" "locks ?k' = locks k" "currentThread ?k' = currentThread k"
    "kstack ?k' = kstack k" "level ?k' = level k"
    using ks by (simp_all add: Thread_new_def fun_upd_idem)
  have "objects_ok ?k'" using c ks by (auto simp: calm_def objects_ok_def Thread_new_def)
  moreover have "clockwork_ok ?k'" using c by (simp add: calm_def Thread_new_def)
  ultimately have "calm ?k'"
    using c tc same by (auto simp: calm_def suspended_def) (simp_all add: Thread_new_def)
  then show ?thesis by (rule kinv_running) (use g same in \<open>simp_all add: may_go_on_def\<close>)
qed

context kernel_devices
begin

lemma Thread_Fork_ok:
  assumes g: "may_go_on k" and t: "t \<in> threads k" "tstatus k t = JUST_CREATED" "t \<noteq> currentThread k"
  shows "\<exists>k'. Thread_Fork run t k = Inr k' \<and> kinv k'"
proof -
  let ?k1 = "ReadyToRun t (disable (StackAllocate t k))"
  have c: "calm k" and f: "cur_free k" and s: "cur_fits k (level k) (cur_stack k)" using g by (simp_all add: may_go_on_def)
  have "kstack k t = []" using c t(2) by (auto simp: calm_def objects_ok_def)
  moreover have "suspended k t" using c t(3) by (simp add: calm_def)
  ultimately have np: "no_place (places k) t" by (auto simp: suspended_def)
  have pl: "places ?k1 = (places k)(InReady := places k InReady @ [t])" by (simp add: StackAllocate_def)
  note app = append_places [OF pl np]
  have ll: "list_lock ?k1 = list_lock k" "locks ?k1 = locks k" "currentThread ?k1 = currentThread k"
    "level ?k1 = IntOff" by (simp_all add: StackAllocate_def)
  have ks: "kstack ?k1 u = (if u = t then [Root_enable, User, Root_finish] else kstack k u)" for u
    by (simp add: StackAllocate_def)
  have sus: "suspended ?k1 u" if u: "u \<noteq> currentThread k" for u
  proof (cases "u = t")
    case True
    then show ?thesis unfolding suspended_def ks ll(1,2) using app(1) by simp
  next
    case False
    have "suspended k u" using c u by (simp add: calm_def)
    then show ?thesis unfolding suspended_def ks ll(1,2) using app(2,3) [OF False] False by auto
  qed
  have "objects_ok ?k1"
    using c t(1) by (auto simp: calm_def objects_ok_def ReadyToRun_def disable_def ChangeLevel_def StackAllocate_def)
  moreover have "clockwork_ok ?k1" using c by (simp add: calm_def StackAllocate_def)
  moreover have "threadToBeDestroyed k = Some z \<Longrightarrow> z \<noteq> t" for z using \<open>kstack k t = []\<close> c by (auto simp: calm_def)
  ultimately have "calm ?k1"
    using c sus t(3) ks unfolding calm_def by (auto simp: StackAllocate_def)
  moreover have "cur_free ?k1" using app(3) [of "currentThread k"] f t(3) ll(3) by simp
  moreover have "cur_fits ?k1 (level k) (cur_stack ?k1)" using s t(3) ks ll by simp
  ultimately have "\<exists>k'. Kernel_SetLevel run (level k) ?k1 = Inr k' \<and> kinv k'"
    by (intro SetLevel_ok ll(4))
  then show ?thesis by (simp add: Thread_Fork_def StackAllocate_def)
qed

lemma Condition_Signal_ok:
  assumes g: "may_go_on k"
  shows "\<exists>k'. Condition_Signal run c0 lk k = Inr k' \<and> kinv k'"
proof -
  have c: "calm (disable k)" "cur_free (disable k)" using g by (simp_all add: may_go_on_def)
  note r = Condition_Signal_body_ok [OF c, of c0 lk]
  show ?thesis unfolding Condition_Signal_def
    by (intro SetLevel_ok) (use r g in \<open>auto simp: may_go_on_def\<close>)
qed

lemma Condition_Wait_ok:
  assumes g: "may_go_on k"
  shows "\<exists>k'. Condition_Wait run c0 lk k = Inr k' \<and> kinv k'"
proof -
  let ?k1 = "disable k"
  have c: "calm ?k1" and f: "cur_free ?k1" and s: "cur_fits k (level k) (cur_stack k)"
    using g by (simp_all add: may_go_on_def)
  show ?thesis
  proof (cases lk)
    case None
    have "\<exists>k'. Kernel_SetLevel run (level k) ?k1 = Inr k' \<and> kinv k'"
      by (rule SetLevel_ok [OF c f]) (use s in simp_all)
    then show ?thesis using None by (simp add: Condition_Wait_def Let_def)
  next
    case (Some l)
    let ?cd = "conditions k c0"
    have co: "cond_ok ?cd" using c by (simp add: calm_def objects_ok_def)
    show ?thesis
    proof (cases "waitLock ?cd = None \<or> waitLock ?cd = Some l")
      case False
      have cs: "calm (set_cond c0 ?cd ?k1)" "places (set_cond c0 ?cd ?k1) = places ?k1"
        using cond_set_calm [OF c] co by simp_all
      have "\<exists>k'. Kernel_SetLevel run (level k) (set_cond c0 ?cd ?k1) = Inr k' \<and> kinv k'"
        by (rule SetLevel_ok [OF cs(1)]) (use s f cs(2) in \<open>simp_all del: place_list_cond\<close>)
      then show ?thesis using False Some by (auto simp: Condition_Wait_def Let_def)
    next
      case True
      let ?cd1 = "if waitLock ?cd = None then ?cd\<lparr>waitLock := Some l\<rparr> else ?cd"
      have w: "waitLock ?cd1 = Some l" "cond_waitQueue ?cd1 = cond_waitQueue ?cd" using True by auto
      let ?k3 = "set_cond c0 (?cd1\<lparr>cond_waitQueue := cond_waitQueue ?cd1 @ [currentThread k]\<rparr>) ?k1"
      have k3: "calm ?k3" "placed (places ?k3) (currentThread k)"
        using block_on_cond [OF c f, of ?cd1 c0] w by (simp_all del: place_list_cond)
      let ?k4 = "Lock_Release_body l ?k3"
      have r: "calm ?k4" "placed (places ?k4) (currentThread k)" "level ?k4 = IntOff"
        "hold (locks k) (currentThread k) - {l} \<subseteq> hold (locks ?k4) (currentThread k)"
        "currentThread ?k4 = currentThread k" "kstack ?k4 = kstack k" "list_lock ?k4 = list_lock k"
        using Lock_Release_body_ok [OF k3(1), of l] k3(2) by (simp_all del: place_list_cond)
      have "stack_ok (list_lock k) (insert l (hold (locks ?k4) (currentThread k))) (level k) (cur_stack k)"
        by (rule stack_ok_mono [OF s]) (use r(4) in blast)
      then have "going_to_sleep (push [Call (Acquire l), Wait_end c0 l (level k)] ?k4)"
        using r by (simp add: going_to_sleep_def)
      moreover have "Condition_Wait run c0 lk k = Sleep (push [Call (Acquire l), Wait_end c0 l (level k)] ?k4)"
        using True Some by (cases "waitLock ?cd = None") (simp_all add: Condition_Wait_def Let_def)
      ultimately show ?thesis using Sleep_ok by simp
    qed
  qed
qed

end

lemma set_sl_calm:
  assumes c: "calm k" and "sl_lock v = sl_lock (synchlists k x)" "0 \<notin> set (sl_list v)"
  shows "calm (set_sl x v k)" "calm ((set_sl x v k)\<lparr>retval := r\<rparr>)"
    "list_lock (set_sl x v k) = list_lock k" "locks (set_sl x v k) = locks k"
    "currentThread (set_sl x v k) = currentThread k" "kstack (set_sl x v k) = kstack k" "level (set_sl x v k) = level k"
proof -
  show ll: "list_lock (set_sl x v k) = list_lock k" using assms(2) by (simp add: list_lock_def fun_eq_iff set_sl_def)
  show same: "locks (set_sl x v k) = locks k" "currentThread (set_sl x v k) = currentThread k"
    "kstack (set_sl x v k) = kstack k" "level (set_sl x v k) = level k" by (simp_all add: set_sl_def)
  have o: "objects_ok (set_sl x v k)" "objects_ok ((set_sl x v k)\<lparr>retval := r\<rparr>)"
    using c assms(3) by (auto simp: calm_def objects_ok_def set_sl_def)
  have rest: "threads (set_sl x v k) = threads k" "tstatus (set_sl x v k) = tstatus k"
    "threadToBeDestroyed (set_sl x v k) = threadToBeDestroyed k" by (simp_all add: set_sl_def)
  show "calm (set_sl x v k)" "calm ((set_sl x v k)\<lparr>retval := r\<rparr>)"
    using c o by (intro calm_transfer [OF c]; simp add: ll same rest calm_def)+
qed

lemma sl_items_ok: "calm k \<Longrightarrow> 0 \<notin> set (sl_list (synchlists k x))"
  by (simp add: calm_def objects_ok_def)

lemma SL_append_ok:
  assumes g: "may_go_on k" and i: "i \<noteq> 0"
  shows "\<exists>k'. SynchList_Append_body x i k = Inr k' \<and> kinv k'"
proof -
  let ?v = "(synchlists k x)\<lparr>sl_list := sl_list (synchlists k x) @ [i]\<rparr>"
  have "0 \<notin> set (sl_list ?v)" using sl_items_ok [of k x] g i by (simp add: may_go_on_def)
  note r = set_sl_calm [OF _ _ this]
  have "kinv (set_sl x ?v k)"
    by (rule kinv_running) (use g r in \<open>simp_all add: may_go_on_def\<close>)
  then show ?thesis by (simp add: SynchList_Append_body_def Let_def)
qed

lemma SL_loop_ok:
  assumes c: "calm k" and f: "cur_free k" and own: "list_lock k x \<in> hold (locks k) (currentThread k)"
    and s: "stack_ok (list_lock k) (hold (locks k) (currentThread k) - {list_lock k x}) (level k) (cur_stack k)"
  shows "\<exists>k'. SynchList_Remove_loop x k = Inr k' \<and> kinv k'"
proof (cases "sl_list (synchlists k x)")
  case Nil
  have "kinv (push [Call (Wait (sl_listEmpty (synchlists k x)) (Some (sl_lock (synchlists k x)))), SL_test x] k)"
    by (rule kinv_running) (use c f own s in simp_all)
  then show ?thesis using Nil by (simp add: SynchList_Remove_loop_def Let_def)
next
  case (Cons i rest)
  let ?v = "(synchlists k x)\<lparr>sl_list := rest\<rparr>"
  have items: "i \<noteq> 0" "0 \<notin> set (sl_list ?v)" using sl_items_ok [OF c, of x] Cons by simp_all
  note r = set_sl_calm [OF c _ items(2)]
  let ?k1 = "(set_sl x ?v k)\<lparr>retval := (retval k)(currentThread k := i)\<rparr>"
  have "kinv (push [Call (Release (sl_lock (synchlists k x)))] ?k1)"
    by (rule kinv_running) (use c f s r in \<open>simp_all add: list_lock_def [of k x, symmetric]\<close>)
  then show ?thesis using Cons items(1) by (simp add: SynchList_Remove_loop_def Let_def)
qed

lemma asleep_facts:
  assumes k: "kinv k" and a: "cur_stack k = Sleep_find # fs"
  shows "level k = IntOff" "(fs = [] \<and> no_place (places k) (currentThread k)) \<or>
    (placed (places k) (currentThread k) \<and> cur_fits k IntOff fs)"
proof -
  have "\<not> running k" using a by (simp add: running_def)
  then have "asleep k" using k by (simp add: kinv_def)
  then show "level k = IntOff" "(fs = [] \<and> no_place (places k) (currentThread k)) \<or>
    (placed (places k) (currentThread k) \<and> cur_fits k IntOff fs)" using a by (auto simp: asleep_def)
qed

lemma pop_push_Sleep: "cur_stack k = Sleep_find # fs \<Longrightarrow> push [Sleep_find] (pop k) = k"
  by (simp add: push_def pop_def fun_upd_idem)

lemma Sleep_switch_ok:
  assumes k: "kinv k" and a: "cur_stack k = Sleep_find # fs" and r: "readyList k = t # ts"
  shows "\<exists>k'. Scheduler_Run t ((pop k)\<lparr>readyList := ts\<rparr>) = Inr k' \<and> kinv k'"
proof -
  let ?cur = "currentThread k" and ?k2 = "(pop k)\<lparr>readyList := ts\<rparr>"
  note af = asleep_facts [OF k a]
  have o: "objects_ok k" and cw: "clockwork_ok k" using k by (simp_all add: kinv_def)
  have alive: "?cur \<in> threads k" "tstatus k ?cur \<noteq> JUST_CREATED" using o a by (auto simp: objects_ok_def)
  have p: "places k InReady = t # ts" using r by simp
  have in_ready: "\<not> no_place (places k) t" using p unfolding no_place_def by (metis list.set_intros(1))
  have others: "suspended k u" if "u \<noteq> ?cur" for u using k that by (simp add: kinv_def)
  have pt: "placed (places k) t" "stack_ok (list_lock k) (hold (locks k) t) IntOff (kstack (push [Run_tail] ?k2) t)"
    "t \<in> threads k" "tstatus k t \<noteq> JUST_CREATED"
  proof -
    show "placed (places k) t"
      using af(2) in_ready others [of t] by (cases "t = ?cur") (auto simp: suspended_def)
    show "stack_ok (list_lock k) (hold (locks k) t) IntOff (kstack (push [Run_tail] ?k2) t)"
      using af(2) in_ready others [of t] a by (cases "t = ?cur") (auto simp: suspended_def)
    show "t \<in> threads k" "tstatus k t \<noteq> JUST_CREATED"
      using alive ready_head(4,5) [OF others r o] by (cases "t = ?cur"; simp)+
  qed
  note rem = remove_places [OF p refl pt(1)]
  have z: "z \<noteq> t \<and> kstack (push [Run_tail] ?k2) z = [Run_tail]" if "threadToBeDestroyed k = Some z" for z
  proof (cases "z = ?cur")
    case True
    then have "fs = []" using k that a by (simp add: kinv_def carcass_ok_def)
    moreover from this have "z \<noteq> t" using af(2) in_ready True by auto
    ultimately show ?thesis using True a by simp
  next
    case False
    then have "kstack k z = [Run_tail]" using k that by (simp add: kinv_def carcass_ok_def)
    moreover have "z \<noteq> t" using others [OF False] in_ready \<open>kstack k z = [Run_tail]\<close>
      by (auto simp: suspended_def)
    ultimately show ?thesis using False by simp
  qed
  show ?thesis
  proof (rule Scheduler_Run_ok)
    fix u assume u: "u \<noteq> t"
    show "suspended (push [Run_tail] ?k2) u"
    proof (cases "u = ?cur")
      case True
      then show ?thesis using af(2) a rem(2,3) [OF u] by (auto simp: suspended_def)
    next
      case False
      then show ?thesis using others [OF False] rem(2,3) [OF u] by (auto simp: suspended_def)
    qed
  next
    show "no_place (places ?k2) t" using rem(1) by simp
    show "stack_ok (list_lock ?k2) (hold (locks ?k2) t) IntOff (kstack (push [Run_tail] ?k2) t)" using pt(2) by simp
    show "objects_ok (push [Run_tail] ?k2)" using o alive by (auto simp: objects_ok_def)
    show "clockwork_ok ?k2" using cw by simp
    show "level ?k2 = IntOff" using af(1) by simp
    show "t \<in> threads ?k2" "tstatus ?k2 t \<noteq> JUST_CREATED" using pt(3,4) by simp_all
    show "\<And>z. threadToBeDestroyed ?k2 = Some z \<Longrightarrow> z \<noteq> t \<and> kstack (push [Run_tail] ?k2) z = [Run_tail]"
      using z by simp
  qed
qed

text \<open>What the invariant says of the location that runs next.\<close>

lemma kinv_top:
  assumes k: "kinv k" and s: "cur_stack k = f # fs" and f: "f \<noteq> Sleep_find"
  shows "calm (pop k)" "cur_free (pop k)" "frame_ok (list_lock k) (hold (locks k) (currentThread k)) (level k) f"
    "calm k" "cur_free k" "cur_fits k (level k) (cur_stack k)"
    "f \<noteq> Root_finish \<Longrightarrow> f \<noteq> User \<Longrightarrow>
      stack_ok (list_lock k) (locks_after (list_lock k) f (hold (locks k) (currentThread k))) (level_after f (level k)) fs"
    "f = Root_finish \<Longrightarrow> fs = []"
proof -
  have "\<not> asleep k" using s f by (auto simp: asleep_def)
  then have r: "running k" using k by (simp add: kinv_def)
  have o: "objects_ok k" using k by (simp add: kinv_def)
  have alive: "currentThread k \<in> threads k" "tstatus k (currentThread k) \<noteq> JUST_CREATED"
    using o s by (auto simp: objects_ok_def)
  have "z \<noteq> currentThread k \<and> kstack k z = [Run_tail]" if "threadToBeDestroyed k = Some z" for z
    using k that s f by (auto simp: kinv_def carcass_ok_def split: if_splits)
  then show c: "calm k" using k alive by (auto simp: calm_def kinv_def)
  then show "calm (pop k)" by simp
  show "cur_free k" "cur_free (pop k)" "cur_fits k (level k) (cur_stack k)" using r by (simp_all add: running_def)
  show "frame_ok (list_lock k) (hold (locks k) (currentThread k)) (level k) f"
    "f \<noteq> Root_finish \<Longrightarrow> f \<noteq> User \<Longrightarrow>
      stack_ok (list_lock k) (locks_after (list_lock k) f (hold (locks k) (currentThread k))) (level_after f (level k)) fs"
    "f = Root_finish \<Longrightarrow> fs = []"
    using r s by (simp_all add: running_def)
qed

context kernel_devices
begin

lemma Sleep_round_ok:
  assumes k: "kinv k" and a: "cur_stack k = Sleep_find # fs"
  shows "Sleep_round run (pop k) = Inl Halted \<or> (\<exists>k'. Sleep_round run (pop k) = Inr k' \<and> kinv k')"
proof (cases "readyList k")
  case (Cons t ts)
  then show ?thesis using Sleep_switch_ok [OF k a Cons] by (simp add: Sleep_round_def FindNextToRun_def)
next
  case Nil
  have cw: "clockwork_ok (pop k)" "level (pop k) = IntOff" using k asleep_facts [OF k a] by (simp_all add: kinv_def)
  from Idle_ok [OF cw] show ?thesis
  proof
    assume "Idle run Inr (pop k) = Inl Halted"
    then show ?thesis using Nil by (simp add: Sleep_round_def FindNextToRun_def)
  next
    assume "\<exists>k'. Idle run Inr (pop k) = Inr k' \<and> wakes (pop k) k' \<and> level k' = IntOff \<and> clockwork_ok k'"
    then obtain k1 where k1: "Idle run Inr (pop k) = Inr k1" "wakes (pop k) k1" "level k1 = IntOff" "clockwork_ok k1"
      by blast
    let ?k' = "push [Sleep_find] k1"
    have w: "wakes k ?k'"
      using k1(2) a by (auto simp: wakes_def pop_def push_def fun_upd_idem)
    have lv: "level ?k' = IntOff" using k1(3) by simp
    have same: "currentThread ?k' = currentThread k" "kstack ?k' = kstack k" "list_lock ?k' = list_lock k"
      "locks ?k' = locks k" "threadToBeDestroyed ?k' = threadToBeDestroyed k"
      using w by (auto simp: wakes_def list_lock_def)
    have "asleep ?k'"
      using asleep_facts(2) [OF k a] w lv a unfolding asleep_def same by (auto simp: wakes_def)
    moreover have "\<forall>t. t \<noteq> currentThread ?k' \<longrightarrow> suspended ?k' t"
      using k suspended_wakes [OF w] unfolding same kinv_def by blast
    moreover have "objects_ok ?k'" using objects_wakes [OF w] k by (simp add: kinv_def)
    moreover have "carcass_ok ?k'" using k unfolding carcass_ok_def same kinv_def by blast
    ultimately have "kinv ?k'" using k1(4) by (simp add: kinv_def)
    then show ?thesis using Nil k1(1) by (simp add: Sleep_round_def FindNextToRun_def)
  qed
qed

text \<open>Every step of the kernel keeps the invariant; the only way it does not return is shutdown.\<close>

lemma do_call_ok:
  assumes k: "kinv k" and s: "cur_stack k = User # fs" and l: "legal_call c k"
  shows "\<exists>k'. do_call run c k = Inr k' \<and> kinv k'"
proof -
  note t = kinv_top [OF k s, simplified]
  have g: "may_go_on k" using t by (simp add: may_go_on_def)
  have fs: "fs = [Root_finish]" using t(6) s by simp
  have any: "stack_ok L H lv (cur_stack k)" for L H lv using s fs by simp
  have go: "kinv (push gs k)" if "\<And>L. L = list_lock k \<Longrightarrow> stack_ok L (hold (locks k) (currentThread k)) (level k) (gs @ cur_stack k)" for gs
    by (rule kinv_running) (use t that in simp_all)
  show ?thesis
  proof (cases c)
    case (NewThread t)
    then show ?thesis using Thread_new_ok [OF g] l by (simp add: legal_call_def)
  next
    case (Fork t)
    then show ?thesis using Thread_Fork_ok [OF g] l by (simp add: legal_call_def)
  next
    case Yield
    then show ?thesis using Thread_Yield_ok t by simp
  next
    case (P x)
    then show ?thesis using Semaphore_P_ok [OF g] by simp
  next
    case (V x)
    then show ?thesis using Semaphore_V_ok [OF g] by simp
  next
    case (Acquire x)
    then show ?thesis using Lock_Acquire_ok [OF t(4,5) any] by simp
  next
    case (Release x)
    then show ?thesis using Lock_Release_ok [OF t(4,5) any] by simp
  next
    case (Wait x y)
    then show ?thesis using Condition_Wait_ok [OF g] by simp
  next
    case (Signal x y)
    then show ?thesis using Condition_Signal_ok [OF g] by simp
  next
    case (Broadcast x y)
    then show ?thesis using k go [of "[Call (Signal x y), Bcast_test x y]"] s fs
      by (auto simp: Condition_Broadcast_def)
  next
    case (SL_Append x i)
    then have "i \<noteq> 0" using l by (simp add: legal_call_def)
    then show ?thesis using SL_Append go s fs
      by (simp add: SynchList_Append_def Let_def list_lock_def)
  next
    case (SL_Remove x)
    then show ?thesis using go s fs by (simp add: SynchList_Remove_def list_lock_def)
  next
    case (SL_Mapcar x)
    then show ?thesis using go s fs by (simp add: SynchList_Mapcar_def Let_def list_lock_def)
  qed
qed

end

context kernel_devices
begin

lemma kernel_step_ok:
  assumes k: "kinv k" and s: "cur_stack k = f # fs" and f: "f \<noteq> User"
  shows "(kernel_step run k = Inl Halted \<and> f = Sleep_find) \<or> (\<exists>k'. kernel_step run k = Inr k' \<and> kinv k')"
proof (cases "f = Sleep_find")
  case True
  then show ?thesis using Sleep_round_ok [OF k] s by (auto simp: kernel_step_def)
next
  case False
  note t = kinv_top [OF k s False]
  let ?k = "pop k"
  have top: "tl (cur_stack k) = fs" using s by simp
  have step: "kernel_step run k = resume run f ?k" using s by (simp add: kernel_step_def)
  have fit: "cur_fits ?k lv (cur_stack ?k) = cur_fits k lv fs" for lv using top by simp
  have g: "may_go_on ?k" if "f \<noteq> Root_finish" "locks_after (list_lock k) f (hold (locks k) (currentThread k)) = hold (locks k) (currentThread k)"
      "level_after f (level k) = level k"
    using t(1,2,7) that f fit by (simp add: may_go_on_def)
  have "\<exists>k'. resume run f ?k = Inr k' \<and> kinv k'"
  proof (cases f)
    case (Call c)
    show ?thesis
    proof (cases c)
      case (Acquire l)
      then show ?thesis using Call t top by (auto intro!: Lock_Acquire_ok)
    next
      case (Release l)
      then show ?thesis using Call t top by (auto intro!: Lock_Release_ok)
    next
      case (Wait x y)
      then show ?thesis using Call g Condition_Wait_ok by auto
    next
      case (Signal x y)
      then show ?thesis using Call g Condition_Signal_ok by auto
    qed (use Call t(3) in auto)
  next
    case (Restore old)
    then show ?thesis using t fit by (auto intro!: SetLevel_ok)
  next
    case (P_test x old)
    then show ?thesis using t fit by (auto intro!: P_loop_ok)
  next
    case (Acquire_end x old)
    then show ?thesis using t fit by (auto intro!: SetLevel_ok)
  next
    case (Wait_end x y old)
    then show ?thesis using t fit by (auto intro!: SetLevel_ok)
  next
    case (Bcast_test x y)
    have "kinv ?k" using kinv_running g Bcast_test by (simp add: may_go_on_def)
    moreover have "kinv (push [Call (Signal x y), Bcast_test x y] ?k)"
      by (rule kinv_running) (use g Bcast_test in \<open>simp_all add: may_go_on_def\<close>)
    ultimately show ?thesis using Bcast_test by (simp add: Condition_Broadcast_def)
  next
    case Run_tail
    then show ?thesis using g Run_after_ok by (auto simp: may_go_on_def)
  next
    case (Tick_tail st)
    then have "st = SystemMode" using t(3) by simp
    moreover have "status ?k = SystemMode" using t(4) by (simp add: calm_def clockwork_ok_def)
    ultimately have "?k\<lparr>status := st\<rparr> = ?k" by simp
    moreover have "kinv ?k" using kinv_running g Tick_tail by (simp add: may_go_on_def)
    ultimately show ?thesis using Tick_tail by simp
  next
    case Root_enable
    then show ?thesis using t fit by (auto intro!: SetLevel_ok)
  next
    case Root_finish
    then show ?thesis using Thread_Finish_ok [OF t(1,2)] t(8) top by simp
  next
    case (SL_append x i)
    then show ?thesis using g t(3) SL_append_ok by auto
  next
    case (SL_test x)
    then show ?thesis using t top by (auto intro!: SL_loop_ok)
  next
    case (SL_map x)
    have "kinv ?k" using kinv_running g SL_map by (simp add: may_go_on_def)
    then show ?thesis using SL_map by simp
  qed (use f False in simp_all)
  then show ?thesis using step by simp
qed

lemma kstep_kinv:
  assumes "kstep run k k'" "kinv k"
  shows "kinv k'"
  using assms(1)
proof cases
  case (user_call fs c)
  then show ?thesis using do_call_ok [OF assms(2)] by fastforce
next
  case (user_return fs)
  note t = kinv_top [OF assms(2) user_return(2), simplified]
  have "fs = [Root_finish]" using t(6) user_return(2) by simp
  then show ?thesis unfolding user_return(1) by (intro kinv_running) (use t user_return(2) in simp_all)
next
  case (kernel f fs)
  then show ?thesis using kernel_step_ok [OF assms(2)] by fastforce
qed

lemma reachable_kinv: "reachable run k0 k \<Longrightarrow> kinv k0 \<Longrightarrow> kinv k"
  by (induction rule: reachable.induct) (auto intro: kstep_kinv)

end

section \<open>The kernel's own handlers\<close>

lemma Semaphore_V_body_clock:
  "stats (Semaphore_V_body s k) = stats k" "pending (Semaphore_V_body s k) = pending k"
  by (simp_all add: Semaphore_V_body_def Let_def set_sem_def ReadyToRun_def split: list.split)

interpretation nachos: kernel_devices "kernel_handlers self tm rnd sem" for self tm rnd sem
proof unfold_locales
  fix k :: Kernel and p :: PendingInterrupt
  assume a: "level k = IntOff" "inHandler k" "status k = SystemMode" "pending_ok k"
  show "\<exists>k'. kernel_handlers self tm rnd sem p k = Inr k' \<and> handler_frame k k'"
  proof (cases "pi_type p = TimerInt")
    case True
    then show ?thesis using timer_machine.run_contract [OF a] by (simp add: kernel_handlers_def)
  next
    case False
    have "handler_frame k (Semaphore_V_body (sem (pi_arg p)) k)"
      using a(4) by (simp add: handler_frame_def same_clock_def pending_ok_def due_def Semaphore_V_body_frame
          Semaphore_V_body_clock)
    then show ?thesis using False by (simp add: kernel_handlers_def)
  qed
next
  fix k :: Kernel
  assume "pending_ok k"
  then show "\<exists>k'. Inr k = Inr k' \<and> handler_frame k k'" by (simp add: handler_frame_def same_clock_def)
next
  fix k k' :: Kernel and p :: PendingInterrupt
  assume r: "kernel_handlers self tm rnd sem p k = Inr k'"
  show "wakes k k'"
  proof (cases "pi_type p = TimerInt")
    case True
    then show ?thesis using r
      by (auto simp: kernel_handlers_def timer_run_def TimerExpired_def Timer_schedule_def Schedule_def
          TimerInterruptHandler_def YieldOnReturn_def Let_def res_simps split: if_splits)
  next
    case False
    then show ?thesis using r Semaphore_V_body_wakes by (auto simp: kernel_handlers_def)
  qed
qed

lemma kernel_init_ok:
  assumes v: "\<And>s. 0 \<le> v s" and p: "pending_ok ic"
  shows "kinv (kernel_init v ls ic)"
proof -
  let ?k = "kernel_init v ls ic"
  have pl: "places ?k q = []" for q
    by (cases q) (simp_all add: kernel_init_def Semaphore_new_def Lock_new_def Condition_new_def)
  then have np: "no_place (places ?k) t" for t by (simp add: no_place_def)
  have "objects_ok ?k"
    using v by (simp add: objects_ok_def kernel_init_def Lock_new_def lock_ok_def Condition_new_def cond_ok_def
        Semaphore_new_def SynchList_new_def)
  moreover have "clockwork_ok ?k" using p by (simp add: clockwork_ok_def kernel_init_def pending_ok_def)
  ultimately have "calm ?k" using np by (simp add: calm_def suspended_def) (simp add: kernel_init_def)
  then show ?thesis by (rule kinv_running) (simp_all add: np, simp add: kernel_init_def)
qed

text \<open>The states of a Nachos kernel with the timer and any devices that wake threads by \<^verbatim>\<open>V\<close>.\<close>

definition nachos_reaches :: "(sid \<Rightarrow> int) \<Rightarrow> (slid \<Rightarrow> lid \<times> cid) \<Rightarrow> Interrupt \<Rightarrow> handlers \<Rightarrow> Kernel \<Rightarrow> bool" where
  "nachos_reaches v ls ic run k \<longleftrightarrow> (\<forall>s. 0 \<le> v s) \<and> pending_ok ic \<and>
     (\<exists>self tm rnd sem. run = kernel_handlers self tm rnd sem) \<and> reachable run (kernel_init v ls ic) k"

lemma nachos_kinv: "nachos_reaches v ls ic run k \<Longrightarrow> kinv k"
  unfolding nachos_reaches_def using nachos.reachable_kinv kernel_init_ok by blast

section \<open>Who changes a lock\<close>

lemma Scheduler_Run_locks: "Scheduler_Run t k = Inr k' \<Longrightarrow> locks k' = locks k"
  by (auto simp: Scheduler_Run_def res_simps Let_def)

lemma Thread_Yield_locks: "Thread_Yield k = Inr k' \<Longrightarrow> locks k' = locks k"
  by (auto simp: Thread_Yield_def Let_def FindNextToRun_def split: list.splits dest!: Scheduler_Run_locks)

lemma Sleep_locks: "Sleep k = Inr k' \<Longrightarrow> locks k' = locks k"
  by (auto simp: Sleep_def res_simps)

lemma Run_after_locks: "Run_after k = Inr k' \<Longrightarrow> locks k' = locks k"
  by (auto simp: Run_after_def Thread_delete_def res_simps split: option.splits)

lemma body_locks:
  "locks (Semaphore_V_body s k) = locks k" "locks (Condition_Signal_body c x k) = locks k"
  by (simp_all add: Semaphore_V_body_def Condition_Signal_body_def Let_def split: list.split)

text \<open>\<open>keeps k k'\<close>: a lock that has an owner keeps it, unless the current thread gives up the lock \<open>l\<close>.\<close>

definition keeps_locks :: "lid set \<Rightarrow> Kernel \<Rightarrow> Kernel \<Rightarrow> bool" where
  "keeps_locks ls k k' \<longleftrightarrow> (\<forall>l t. ownerThread (locks k l) = Some t \<longrightarrow>
     ownerThread (locks k' l) = Some t \<or> (l \<in> ls \<and> currentThread k = t))"

lemma keeps_same: "locks k' = locks k \<Longrightarrow> keeps_locks ls k k'"
  by (simp add: keeps_locks_def)

lemma keeps_Release_body: "locks k1 = locks k \<Longrightarrow> currentThread k1 = currentThread k \<Longrightarrow>
    locks k' = locks (Lock_Release_body l k1) \<Longrightarrow> keeps_locks {l} k k'"
  by (auto simp: keeps_locks_def Lock_Release_body_def isHeldByCurrentThread_def Let_def split: if_splits list.splits)

lemma Lock_Acquire_keeps:
  assumes "Lock_Acquire l k = Inr k'" "lock_ok (locks k l)"
  shows "keeps_locks {} k k'"
  using assms by (auto simp: Lock_Acquire_def Let_def keeps_locks_def lock_ok_def isHeldByCurrentThread_def
      split: if_splits dest!: Sleep_locks)

context kernel_devices
begin

lemma SetLevel_locks:
  assumes "Kernel_SetLevel run nl k = Inr k'"
  shows "locks k' = locks k"
proof (cases "nl = IntOn \<and> level k = IntOff")
  case False
  then show ?thesis using assms by (auto simp: Kernel_SetLevel_def res_simps ChangeLevel_def Let_def)
next
  case True
  then obtain k1 where k1: "OneTick_fire run Inr (k\<lparr>level := IntOn\<rparr>) = Inr k1"
    "(if yieldOnReturn k1 then Thread_Yield (push [Tick_tail (status (k\<lparr>level := IntOn\<rparr>))] (k1\<lparr>yieldOnReturn := False, status := SystemMode\<rparr>))
      else Inr k1) = Inr k'"
    using assms by (auto simp: Kernel_SetLevel_def Kernel_OneTick_def res_simps ChangeLevel_def Let_def)
  have "locks k1 = locks k" using OneTick_fire_wakes [OF k1(1)] by (simp add: wakes_def)
  then show ?thesis using k1(2) by (auto split: if_splits dest!: Thread_Yield_locks)
qed

lemma Condition_Wait_locks:
  assumes r: "Condition_Wait run c y k = Inr k'"
  shows "locks k' = locks k \<or> (\<exists>l k1. y = Some l \<and> locks k1 = locks k \<and> currentThread k1 = currentThread k \<and>
    locks k' = locks (Lock_Release_body l k1))"
proof (cases y)
  case None
  then show ?thesis using r by (auto simp: Condition_Wait_def Let_def dest!: SetLevel_locks)
next
  case (Some l)
  let ?cd1 = "if waitLock (conditions k c) = None then (conditions k c)\<lparr>waitLock := Some l\<rparr> else conditions k c"
  let ?k3 = "set_cond c (?cd1\<lparr>cond_waitQueue := cond_waitQueue ?cd1 @ [currentThread k]\<rparr>) (disable k)"
  show ?thesis
  proof (cases "waitLock ?cd1 = Some l")
    case True
    then have "Condition_Wait run c y k =
        Sleep (push [Call (Acquire l), Wait_end c l (level k)] (Lock_Release_body l ?k3))"
      using Some by (auto simp: Condition_Wait_def Let_def)
    then have "locks k' = locks (Lock_Release_body l ?k3)" using r Sleep_locks by fastforce
    moreover have "locks ?k3 = locks k" "currentThread ?k3 = currentThread k" by simp_all
    ultimately show ?thesis using Some by blast
  next
    case False
    then show ?thesis using r Some by (auto simp: Condition_Wait_def Let_def split: if_splits dest!: SetLevel_locks)
  qed
qed

lemma do_call_keeps:
  assumes r: "do_call run c k = Inr k'" and ok: "\<And>l. lock_ok (locks k l)"
  shows "keeps_locks {l. c = Release l \<or> (\<exists>x. c = Wait x (Some l))} k k'"
proof (cases c)
  case (Fork t)
  then show ?thesis using r by (auto simp: Thread_Fork_def StackAllocate_def Let_def intro!: keeps_same dest!: SetLevel_locks)
next
  case Yield
  then show ?thesis using r by (auto intro!: keeps_same dest!: Thread_Yield_locks)
next
  case (P x)
  then show ?thesis using r by (auto simp: Semaphore_P_def intro!: keeps_same)
next
  case (V x)
  then show ?thesis using r by (auto simp: Semaphore_V_def body_locks intro!: keeps_same dest!: SetLevel_locks)
next
  case (Acquire x)
  then show ?thesis using r Lock_Acquire_keeps ok by (simp add: keeps_locks_def)
next
  case (Release x)
  then have "locks k' = locks (Lock_Release_body x (disable k))"
    using r by (auto simp: Lock_Release_def dest!: SetLevel_locks)
  then show ?thesis using Release keeps_Release_body [of "disable k" k k' x] by simp
next
  case (Wait x y)
  show ?thesis
  proof (cases "locks k' = locks k")
    case True
    then show ?thesis by (rule keeps_same)
  next
    case False
    then obtain l k1 where "y = Some l" "locks k1 = locks k" "currentThread k1 = currentThread k"
      "locks k' = locks (Lock_Release_body l k1)"
      using Condition_Wait_locks [of x y k k'] r Wait by auto
    then show ?thesis using Wait keeps_Release_body by simp
  qed
next
  case (Signal x y)
  then show ?thesis using r by (auto simp: Condition_Signal_def body_locks intro!: keeps_same dest!: SetLevel_locks)
qed (use r in \<open>auto simp: Thread_new_def Condition_Broadcast_def SynchList_Append_def SynchList_Remove_def
  SynchList_Mapcar_def Let_def intro!: keeps_same split: if_splits\<close>)

lemma resume_keeps:
  assumes r: "resume run f k = Inr k'" and f: "\<And>c. f \<noteq> Call c"
  shows "locks k' = locks k"
proof (cases f)
  case (P_test x old)
  then show ?thesis using r by (auto simp: Semaphore_P_loop_def Let_def split: if_splits dest!: Sleep_locks SetLevel_locks)
next
  case Sleep_find
  then show ?thesis using r
    by (auto simp: Sleep_round_def FindNextToRun_def res_simps wakes_def split: list.splits
        dest!: Scheduler_Run_locks Idle_wakes_only)
next
  case (SL_test x)
  then show ?thesis using r
    by (auto simp: SynchList_Remove_loop_def set_sl_def Let_def res_simps split: list.splits)
qed (use r f in \<open>auto simp: SynchList_Append_body_def set_sl_def Condition_Broadcast_def Thread_Finish_def Let_def
  split: if_splits dest!: SetLevel_locks Run_after_locks Sleep_locks\<close>)

end

section \<open>Executions\<close>

text \<open>A program and its schedule as a script: calls, the return of the thread's function, kernel steps.\<close>

datatype action = Do kcall | Ret | Go

fun perform :: "handlers \<Rightarrow> action \<Rightarrow> Kernel \<Rightarrow> Kernel res" where
  "perform run (Do c) k = (if hd (cur_stack k) = User \<and> legal_call c k then do_call run c k else Inl Undefined)"
| "perform run Ret k = (if hd (cur_stack k) = User then Inr (pop k) else Inl Undefined)"
| "perform run Go k = (if hd (cur_stack k) \<noteq> User then kernel_step run k else Inl Undefined)"

fun script :: "handlers \<Rightarrow> action list \<Rightarrow> Kernel \<Rightarrow> Kernel res" where
  "script run [] k = Inr k"
| "script run (a # as) k = andThen (perform run a k) (script run as)"

lemma perform_kstep:
  assumes "kinv k" "perform run a k = Inr k'"
  shows "kstep run k k'"
proof -
  have "cur_stack k \<noteq> []" using assms(1) by (auto simp: kinv_def running_def asleep_def)
  then obtain f fs where s: "cur_stack k = f # fs" by (cases "cur_stack k") auto
  show ?thesis
  proof (cases a)
    case (Do c)
    then show ?thesis using assms(2) s by (auto intro: user_call split: if_splits)
  next
    case Ret
    then show ?thesis using assms(2) s by (auto intro: user_return split: if_splits)
  next
    case Go
    then show ?thesis using assms(2) s by (auto intro: kernel split: if_splits)
  qed
qed

lemma script_reaches:
  "nachos_reaches v ls ic run k \<Longrightarrow> script run as k = Inr k' \<Longrightarrow> nachos_reaches v ls ic run k'"
proof (induction as arbitrary: k)
  case Nil
  then show ?case by simp
next
  case (Cons a as)
  then obtain k1 where k1: "perform run a k = Inr k1" "script run as k1 = Inr k'" by (auto simp: res_simps)
  have "kstep run k k1" by (rule perform_kstep [OF nachos_kinv [OF Cons.prems(1)] k1(1)])
  then have "nachos_reaches v ls ic run k1"
    using Cons.prems(1) by (auto simp: nachos_reaches_def intro: reachable.step)
  then show ?case using Cons.IH k1(2) by blast
qed

definition demo_run :: handlers where
  "demo_run = kernel_handlers 1 \<lparr>randomize = False, tm_handler = 2, tm_arg = 0\<rparr> (\<lambda>_. 0) nat"

definition demo_kernel :: Kernel where
  "demo_kernel = kernel_init (\<lambda>_. 1) (\<lambda>_. (7, 3)) (Interrupt_new Statistics_new)"

lemma demo_reaches: "nachos_reaches (\<lambda>_. 1) (\<lambda>_. (7, 3)) (Interrupt_new Statistics_new) demo_run demo_kernel"
  unfolding nachos_reaches_def demo_run_def demo_kernel_def
  by (auto simp: pending_ok_def Interrupt_new_def intro: reachable.init)

lemmas demo_eval = demo_kernel_def kernel_init_def Interrupt_new_def Statistics_new_def legal_call_def
  Thread_new_def Thread_Fork_def StackAllocate_def disable_def ChangeLevel_def ReadyToRun_def
  Kernel_SetLevel_def Kernel_OneTick_def OneTick_fire_def count_tick_def CheckIfDue_def Let_def
  kernel_step_def pop_def push_def Thread_Finish_def Sleep_def Sleep_round_def FindNextToRun_def
  Scheduler_Run_def CheckOverflow_def Semaphore_new_def Lock_new_def Condition_new_def SynchList_new_def
  Lock_Acquire_def isHeldByCurrentThread_def set_lock_def SynchList_Append_def tick_defs

definition leak_script :: "action list" where
  "leak_script = [Do (NewThread 1), Do (Fork 1), Ret, Go, Go, Go, Ret, Go]"

lemma leak_run:
  "\<exists>k'. script demo_run leak_script demo_kernel = Inr k' \<and> 0 \<in> threads k' \<and> kstack k' 0 = [Run_tail] \<and>
     currentThread k' = 1 \<and> threadToBeDestroyed k' = Some 1"
  by (simp add: leak_script_def demo_eval)

lemma lock_run:
  "\<exists>k'. script demo_run [Do (Acquire 5)] demo_kernel = Inr k' \<and> cur_stack k' = [Acquire_end 5 IntOn, User, Root_finish]"
  by (simp add: demo_eval)

lemma list_run:
  "\<exists>k'. script demo_run [Do (SL_Append 0 42), Go, Go] demo_kernel = Inr k' \<and>
     hd (cur_stack k') = SL_append 0 42 \<and> cur_stack k' \<noteq> []"
  by (simp add: demo_eval)

lemma fork_run:
  "\<exists>k'. script demo_run [Do (NewThread 1), Do (Fork 1)] demo_kernel = Inr k' \<and> currentThread k' = 0 \<and>
     kstack k' 1 = [Root_enable, User, Root_finish]"
  by (simp add: demo_eval)

section \<open>Properties\<close>

text \<open>
  Property C2. No fault in the thread system: whatever programs do, in every reachable state the
  location that the current thread executes returns without failing an assertion and without
  touching anything undefined, except that \<^verbatim>\<open>Sleep\<close> may shut the machine down when nothing can ever
  run again; and every legal call a program makes returns.
\<close>

theorem kernel_never_faults:
  assumes "nachos_reaches v ls ic run k"
  shows "\<exists>f fs. cur_stack k = f # fs \<and>
    (f \<noteq> User \<longrightarrow> (\<exists>k'. kernel_step run k = Inr k') \<or> (f = Sleep_find \<and> kernel_step run k = Inl Halted)) \<and>
    (f = User \<longrightarrow> (\<forall>c. legal_call c k \<longrightarrow> (\<exists>k'. do_call run c k = Inr k')))"
proof -
  obtain self tm rnd sem where run: "run = kernel_handlers self tm rnd sem"
    using assms by (auto simp: nachos_reaches_def)
  have k: "kinv k" by (rule nachos_kinv [OF assms])
  then have "cur_stack k \<noteq> []" by (auto simp: kinv_def running_def asleep_def)
  then obtain f fs where s: "cur_stack k = f # fs" by (cases "cur_stack k") auto
  have "(\<exists>k'. kernel_step run k = Inr k') \<or> (f = Sleep_find \<and> kernel_step run k = Inl Halted)" if "f \<noteq> User"
    using nachos.kernel_step_ok [OF k s that] run by blast
  moreover have "\<exists>k'. do_call run c k = Inr k'" if "f = User" "legal_call c k" for c
    using nachos.do_call_ok [OF k _ that(2)] s that(1) run by blast
  ultimately show ?thesis using s by blast
qed

theorem kernel_never_faults_witness:
  "\<exists>k'. do_call demo_run (Acquire 5) demo_kernel = Inr k'"
proof -
  have "cur_stack demo_kernel = [User, Root_finish]" "legal_call (Acquire 5) demo_kernel"
    by (simp_all add: demo_kernel_def kernel_init_def legal_call_def)
  then show ?thesis using kernel_never_faults [OF demo_reaches] by fastforce
qed


text \<open>
  Property C1. Locks are exclusive. Whenever \<^verbatim>\<open>Acquire\<close> is about to return, and whenever \<^verbatim>\<open>Wait\<close> is, the
  calling thread owns the lock; a lock has at most one owner; and it loses it only in a step of
  that owner which calls \<^verbatim>\<open>Release\<close> or \<^verbatim>\<open>Wait\<close> on that very lock. So between its \<^verbatim>\<open>Acquire\<close> and its
  \<^verbatim>\<open>Release\<close> no other thread gets past \<^verbatim>\<open>Acquire\<close>, under every interleaving.
\<close>

theorem lock_mutual_exclusion:
  assumes "nachos_reaches v ls ic run k"
  shows "(\<forall>l old fs. cur_stack k = Acquire_end l old # fs \<longrightarrow> ownerThread (locks k l) = Some (currentThread k)) \<and>
    (\<forall>c l old fs. cur_stack k = Wait_end c l old # fs \<longrightarrow> ownerThread (locks k l) = Some (currentThread k)) \<and>
    (\<forall>l t k'. kstep run k k' \<and> ownerThread (locks k l) = Some t \<longrightarrow>
       ownerThread (locks k' l) = Some t \<or>
       (currentThread k = t \<and> (\<exists>c fs. (c = Release l \<or> (\<exists>x. c = Wait x (Some l))) \<and>
          (cur_stack k = Call c # fs \<or> (cur_stack k = User # fs \<and> do_call run c k = Inr k')))))"
proof -
  obtain self tm rnd sem where run: "run = kernel_handlers self tm rnd sem"
    using assms by (auto simp: nachos_reaches_def)
  have k: "kinv k" by (rule nachos_kinv [OF assms])
  have owner: "ownerThread (locks k l) = Some (currentThread k)"
    if s: "cur_stack k = f # fs" "f \<noteq> Sleep_find" and h: "l \<in> hold (locks k) (currentThread k)" for f fs l
  proof -
    have "cur_free k" by (rule kinv_top(5) [OF k s])
    then have "currentThread k \<notin> set (places k (InLock l))" unfolding no_place_def by blast
    then show ?thesis using h by (simp add: hold_def)
  qed
  have ok: "lock_ok (locks k l)" for l using k by (simp add: kinv_def objects_ok_def)
  have stable: "ownerThread (locks k' l) = Some t \<or> (currentThread k = t \<and>
       (\<exists>c fs. (c = Release l \<or> (\<exists>x. c = Wait x (Some l))) \<and>
          (cur_stack k = Call c # fs \<or> (cur_stack k = User # fs \<and> do_call run c k = Inr k'))))"
    if st: "kstep run k k'" and o: "ownerThread (locks k l) = Some t" for l t k'
    using st
  proof cases
    case (user_call fs c)
    have "keeps_locks {l. c = Release l \<or> (\<exists>x. c = Wait x (Some l))} k k'"
      using nachos.do_call_keeps user_call(3) ok run by blast
    from this [unfolded keeps_locks_def, rule_format, OF o]
    show ?thesis using user_call(1,3) by (elim disjE conjE) (auto simp del: do_call.simps)
  next
    case (user_return fs)
    then show ?thesis using o by simp
  next
    case (kernel f fs)
    then have r: "resume run f (pop k) = Inr k'" by (simp add: kernel_step_def)
    show ?thesis
    proof (cases f)
      case (Call c)
      then have "keeps_locks {l. c = Release l \<or> (\<exists>x. c = Wait x (Some l))} (pop k) k'"
        using nachos.do_call_keeps r ok run by simp
      then show ?thesis using o kernel(1) Call by (auto simp: keeps_locks_def)
    qed (use nachos.resume_keeps [of _ _ _ _ f "pop k" k'] r run o in auto)
  qed
  show ?thesis
  proof (intro conjI allI impI)
    fix l old fs assume s: "cur_stack k = Acquire_end l old # fs"
    have "l \<in> hold (locks k) (currentThread k)" using kinv_top(3) [OF k s] by simp
    with owner [OF s] show "ownerThread (locks k l) = Some (currentThread k)" by simp
  next
    fix c l old fs assume s: "cur_stack k = Wait_end c l old # fs"
    have "l \<in> hold (locks k) (currentThread k)" using kinv_top(3) [OF k s] by simp
    with owner [OF s] show "ownerThread (locks k l) = Some (currentThread k)" by simp
  qed (use stable in blast)
qed

theorem lock_mutual_exclusion_witness:
  "\<exists>k'. script demo_run [Do (Acquire 5)] demo_kernel = Inr k' \<and> ownerThread (locks k' 5) = Some (currentThread k')"
proof -
  obtain k' where k': "script demo_run [Do (Acquire 5)] demo_kernel = Inr k'"
    "cur_stack k' = [Acquire_end 5 IntOn, User, Root_finish]"
    using lock_run by blast
  from lock_mutual_exclusion [OF script_reaches [OF demo_reaches k'(1)]] k' show ?thesis by blast
qed


text \<open>
  Property C3. No thread is lost and none is queued twice: in every reachable state each thread
  other than the current one that has been forked and has not finished is in exactly one of the
  ready list, the semaphore queues, the lock queues and the condition queues, and exactly once;
  a finished thread is in none of them.
\<close>

theorem thread_in_one_queue:
  assumes "nachos_reaches v ls ic run k" "t \<noteq> currentThread k"
  shows "if kstack k t \<in> {[], [Run_tail]} then \<forall>p. t \<notin> set (place_list k p)
    else \<exists>p. count_list (place_list k p) t = 1 \<and> (\<forall>q. q \<noteq> p \<longrightarrow> t \<notin> set (place_list k q))"
proof -
  have "suspended k t" using nachos_kinv [OF assms(1)] assms(2) by (simp add: kinv_def)
  moreover have "\<not> stack_ok (list_lock k) H lv []" "\<not> stack_ok (list_lock k) H lv [Run_tail]" for H lv by simp_all
  ultimately show ?thesis unfolding suspended_def placed_def no_place_def by (auto split: if_splits)
qed

theorem thread_in_one_queue_witness:
  "\<exists>k'. script demo_run [Do (NewThread 1), Do (Fork 1)] demo_kernel = Inr k' \<and>
     (\<exists>p. count_list (place_list k' p) 1 = 1 \<and> (\<forall>q. q \<noteq> p \<longrightarrow> 1 \<notin> set (place_list k' q)))"
proof -
  obtain k' where k': "script demo_run [Do (NewThread 1), Do (Fork 1)] demo_kernel = Inr k'" "currentThread k' = 0"
    "kstack k' 1 = [Root_enable, User, Root_finish]"
    using fork_run by blast
  from thread_in_one_queue [OF script_reaches [OF demo_reaches k'(1)], of 1] k' show ?thesis by simp
qed


text \<open>
  Property C8. The synchronisation objects stay consistent: in every reachable state a semaphore's
  value is not negative, a lock is busy exactly when it has an owner and is waited for only when
  busy, and a condition remembers a lock exactly while threads wait on it.
\<close>

theorem synch_objects_consistent:
  assumes "nachos_reaches v ls ic run k"
  shows "0 \<le> sem_value (semaphores k s) \<and>
    isBusy (locks k l) = (ownerThread (locks k l) \<noteq> None) \<and>
    (lock_waitQueue (locks k l) \<noteq> [] \<longrightarrow> isBusy (locks k l)) \<and>
    (waitLock (conditions k c) = None) = (cond_waitQueue (conditions k c) = [])"
proof -
  have "objects_ok k" using nachos_kinv [OF assms] by (simp add: kinv_def)
  then have "0 \<le> sem_value (semaphores k s)" "lock_ok (locks k l)" "cond_ok (conditions k c)"
    by (simp_all add: objects_ok_def)
  then show ?thesis unfolding lock_ok_def cond_ok_def by blast
qed

theorem synch_objects_consistent_witness:
  "\<exists>k'. script demo_run [Do (Acquire 5)] demo_kernel = Inr k' \<and> 0 \<le> sem_value (semaphores k' 1) \<and>
     isBusy (locks k' 5) = (ownerThread (locks k' 5) \<noteq> None)"
proof -
  obtain k' where k': "script demo_run [Do (Acquire 5)] demo_kernel = Inr k'" using lock_run by blast
  from synch_objects_consistent [OF script_reaches [OF demo_reaches k'], of 1 5] k' show ?thesis by blast
qed


text \<open>
  Property C26. Synchronised lists are monitors: a thread looks at or changes the underlying list
  only while it owns the list's lock, also when it comes back from waiting for an element.
\<close>

theorem synchlist_exclusive:
  assumes "nachos_reaches v ls ic run k"
    and "cur_stack k = f # fs" "f \<in> {SL_append x i, SL_test x, SL_map x}"
  shows "ownerThread (locks k (sl_lock (synchlists k x))) = Some (currentThread k)"
proof -
  have k: "kinv k" by (rule nachos_kinv [OF assms(1)])
  have f: "f \<noteq> Sleep_find" using assms(3) by auto
  have "list_lock k x \<in> hold (locks k) (currentThread k)"
    using kinv_top(3) [OF k assms(2) f] assms(3) by auto
  moreover have "currentThread k \<notin> set (places k (InLock (list_lock k x)))"
    using kinv_top(5) [OF k assms(2) f] unfolding no_place_def by blast
  ultimately show ?thesis by (simp add: hold_def list_lock_def)
qed

theorem synchlist_exclusive_witness:
  "\<exists>k'. script demo_run [Do (SL_Append 0 42), Go, Go] demo_kernel = Inr k' \<and>
     ownerThread (locks k' (sl_lock (synchlists k' 0))) = Some (currentThread k')"
proof -
  obtain k' where k': "script demo_run [Do (SL_Append 0 42), Go, Go] demo_kernel = Inr k'"
    "hd (cur_stack k') = SL_append 0 42" "cur_stack k' \<noteq> []"
    using list_run by blast
  then have "cur_stack k' = SL_append 0 42 # tl (cur_stack k')" by (metis list.collapse)
  from synchlist_exclusive [OF script_reaches [OF demo_reaches k'(1)] this, of 0 42] k'(1) show ?thesis by simp
qed

text \<open>
  A finished thread can be leaked. \<^verbatim>\<open>Finish\<close> relies on the next thread to delete it when
  \<^verbatim>\<open>Scheduler::Run\<close> returns there, but a thread that runs for the first time starts at \<^verbatim>\<open>ThreadRoot\<close>; if it
  finishes in turn, \<^verbatim>\<open>threadToBeDestroyed\<close> is overwritten. There is a run in which the main thread has
  finished, is still allocated, is in no queue, and is no longer the thread to be destroyed.
\<close>

theorem finished_thread_leaks:
  "\<exists>k. nachos_reaches (\<lambda>_. 1) (\<lambda>_. (7, 3)) (Interrupt_new Statistics_new) demo_run k \<and>
     0 \<in> threads k \<and> kstack k 0 = [Run_tail] \<and> currentThread k \<noteq> 0 \<and> threadToBeDestroyed k \<noteq> Some 0 \<and>
     (\<forall>p. 0 \<notin> set (place_list k p))"
proof -
  obtain k where k: "script demo_run leak_script demo_kernel = Inr k" "0 \<in> threads k" "kstack k 0 = [Run_tail]"
    "currentThread k = 1" "threadToBeDestroyed k = Some 1"
    using leak_run by blast
  have r: "nachos_reaches (\<lambda>_. 1) (\<lambda>_. (7, 3)) (Interrupt_new Statistics_new) demo_run k"
    by (rule script_reaches [OF demo_reaches k(1)])
  have "suspended k 0" using nachos_kinv [OF r] k(4) by (simp add: kinv_def)
  then have "no_place (places k) 0" using k(3) by (auto simp: suspended_def)
  then show ?thesis using r k unfolding no_place_def by fastforce
qed

end
