(* ===== verification/Nachos_Program.thy ===== *)
theory Nachos_Program
  imports Nachos_Kernel
begin

text \<open>
  Programs that run on the thread system of \<open>Nachos_Threads\<close>. The kernel switches threads only inside its
  own calls, so the code of a thread between two calls is executed without interruption. A program is
  therefore a function from a location, which carries the local variables, and the shared variables to
  the next kernel call of the thread (\<open>None\<close> when its function returns), the location at which the call
  returns, and the new shared variables; a failed \<^verbatim>\<open>assert\<close> or an access outside an array is a fault.
  The locale \<open>lock_typing\<close> is a type system for locks: it assigns to each location the set of locks the
  code relies on, and states the rules a program has to obey; inside it every thread of a reachable
  state is shown to hold exactly the locks of its location.
\<close>

section \<open>Systems\<close>

record ('p, 's) System =
  sys_kernel :: Kernel
  pcs :: "tid \<Rightarrow> 'p"
  shared :: 's

type_synonym ('p, 's) code = "'p \<Rightarrow> 's \<Rightarrow> (kcall option \<times> 'p \<times> 's) res"

text \<open>One step: the thread that runs executes its code up to a call and enters the kernel, or is inside the kernel.\<close>

definition sys_step :: "handlers \<Rightarrow> ('p, 's) code \<Rightarrow> ('p, 's) System \<Rightarrow> ('p, 's) System res" where
  "sys_step run code S =
     (let k = sys_kernel S; t = currentThread k in
      case cur_stack k of [] \<Rightarrow> Inl Undefined
      | f # _ \<Rightarrow>
          if f = User then
            andThen (code (pcs S t) (shared S)) (\<lambda>(c, p, s).
              case c of
                None \<Rightarrow> Inr \<lparr>sys_kernel = pop k, pcs = (pcs S)(t := p), shared = s\<rparr>
              | Some c \<Rightarrow>
                  if legal_call c k then
                    andThen (do_call run c k) (\<lambda>k'. Inr \<lparr>sys_kernel = k', pcs = (pcs S)(t := p), shared = s\<rparr>)
                  else Inl Undefined)
          else andThen (kernel_step run k) (\<lambda>k'. Inr (S\<lparr>sys_kernel := k'\<rparr>)))"

inductive sys_reaches :: "handlers \<Rightarrow> ('p, 's) code \<Rightarrow> ('p, 's) System \<Rightarrow> ('p, 's) System \<Rightarrow> bool" for run code S0 where
  start: "sys_reaches run code S0 S0"
| step: "sys_reaches run code S0 S \<Longrightarrow> sys_step run code S = Inr S' \<Longrightarrow> sys_reaches run code S0 S'"

text \<open>A given number of steps.\<close>

primrec sys_run :: "nat \<Rightarrow> handlers \<Rightarrow> ('p, 's) code \<Rightarrow> ('p, 's) System \<Rightarrow> ('p, 's) System res" where
  "sys_run 0 run code S = Inr S"
| "sys_run (Suc n) run code S = andThen (sys_run n run code S) (sys_step run code)"

lemma sys_run_reaches: "sys_run n run code S = Inr S' \<Longrightarrow> sys_reaches run code S S'"
  by (induction n arbitrary: S') (auto simp: res_simps intro: sys_reaches.intros)

lemma sys_step_cases:
  assumes "sys_step run code S = Inr S'"
  obtains (call) fs c p s k' where "cur_stack (sys_kernel S) = User # fs"
      "code (pcs S (currentThread (sys_kernel S))) (shared S) = Inr (Some c, p, s)" "legal_call c (sys_kernel S)"
      "do_call run c (sys_kernel S) = Inr k'"
      "S' = \<lparr>sys_kernel = k', pcs = (pcs S)(currentThread (sys_kernel S) := p), shared = s\<rparr>"
  | (return) fs p s where "cur_stack (sys_kernel S) = User # fs"
      "code (pcs S (currentThread (sys_kernel S))) (shared S) = Inr (None, p, s)"
      "S' = \<lparr>sys_kernel = pop (sys_kernel S), pcs = (pcs S)(currentThread (sys_kernel S) := p), shared = s\<rparr>"
  | (kernel) f fs k' where "cur_stack (sys_kernel S) = f # fs" "f \<noteq> User" "kernel_step run (sys_kernel S) = Inr k'"
      "S' = S\<lparr>sys_kernel := k'\<rparr>"
proof (cases "cur_stack (sys_kernel S)")
  case Nil
  then show ?thesis using assms by (simp add: sys_step_def)
next
  case (Cons f fs)
  show ?thesis
  proof (cases "f = User")
    case True
    obtain c p s where c: "code (pcs S (currentThread (sys_kernel S))) (shared S) = Inr (c, p, s)"
      using assms Cons True by (auto simp: sys_step_def Let_def res_simps)
    show ?thesis
    proof (cases c)
      case None
      then show ?thesis using assms Cons True c return by (simp add: sys_step_def Let_def)
    next
      case (Some x)
      then show ?thesis using assms Cons True c call
        by (auto simp: sys_step_def Let_def res_simps split: if_splits)
    qed
  next
    case False
    then show ?thesis using assms Cons kernel by (auto simp: sys_step_def Let_def res_simps)
  qed
qed

text \<open>A program makes legal calls only, so it runs on the kernel as it is.\<close>

lemma sys_step_kstep: "sys_step run code S = Inr S' \<Longrightarrow> kstep run (sys_kernel S) (sys_kernel S')"
  by (erule sys_step_cases) (auto intro: kstep.intros)

lemma sys_reaches_reachable: "sys_reaches run code S0 S \<Longrightarrow> reachable run (sys_kernel S0) (sys_kernel S)"
  by (induction rule: sys_reaches.induct) (auto intro: reachable.intros sys_step_kstep)

section \<open>The locks of a thread\<close>

text \<open>The locks a thread holds when it is back in its own code, read off its stack.\<close>

fun until_user :: "(slid \<Rightarrow> lid) \<Rightarrow> frame list \<Rightarrow> lid set \<Rightarrow> lid set" where
  "until_user L [] H = H"
| "until_user L (f # fs) H = (if f = User then H else until_user L fs (locks_after L f H))"

definition lock_view :: "Kernel \<Rightarrow> tid \<Rightarrow> lid set" where
  "lock_view k t = until_user (list_lock k) (kstack k t) (hold (locks k) t)"

text \<open>Locations that do not change what a thread holds.\<close>

fun neutral :: "frame \<Rightarrow> bool" where
  "neutral User = False"
| "neutral (Call c) = False"
| "neutral (Bcast_test c l) = False"
| "neutral (SL_append x i) = False"
| "neutral (SL_test x) = False"
| "neutral (SL_map x) = False"
| "neutral f = True"

text \<open>Locations of a program that uses neither \<^verbatim>\<open>Broadcast\<close> nor a synchronised list.\<close>

fun plain :: "frame \<Rightarrow> bool" where
  "plain (Call c) = (case c of Acquire l \<Rightarrow> True | _ \<Rightarrow> False)"
| "plain (Bcast_test c l) = False"
| "plain (SL_append x i) = False"
| "plain (SL_test x) = False"
| "plain (SL_map x) = False"
| "plain f = True"

lemma neutral_after: "neutral f \<Longrightarrow> f \<noteq> User \<and> locks_after L f H = H"
  by (cases f rule: neutral.cases) auto

lemma neutral_plain: "neutral f \<Longrightarrow> plain f"
  by (cases f rule: neutral.cases) auto

lemma until_user_neutral: "list_all neutral fs \<Longrightarrow> until_user L (fs @ gs) H = until_user L gs H"
  by (induction fs) (auto simp: neutral_after)

text \<open>
  \<open>grows k k'\<close>: locks, conditions and lists are as before and stacks have only grown, by neutral locations.
\<close>

definition grows :: "Kernel \<Rightarrow> Kernel \<Rightarrow> bool" where
  "grows k k' \<longleftrightarrow> locks k' = locks k \<and> conditions k' = conditions k \<and> list_lock k' = list_lock k \<and>
     (\<forall>t. \<exists>fs. kstack k' t = fs @ kstack k t \<and> list_all neutral fs)"

lemma grows_same:
  "locks k' = locks k \<Longrightarrow> conditions k' = conditions k \<Longrightarrow> list_lock k' = list_lock k \<Longrightarrow> kstack k' = kstack k \<Longrightarrow> grows k k'"
  by (auto simp: grows_def intro: exI [of _ "[]"])

lemma conditions_set [simp]: "conditions (set_sem x v k) = conditions k" "conditions (set_lock l y k) = conditions k"
  by (simp_all add: set_sem_def set_lock_def)

lemma grows_trans: "grows a b \<Longrightarrow> grows b c \<Longrightarrow> grows a c"
  unfolding grows_def by (metis append.assoc list_all_append)

lemma grows_view: "grows k k' \<Longrightarrow> lock_view k' t = lock_view k t"
  unfolding grows_def lock_view_def by (metis until_user_neutral)

lemma grows_plain: "grows k k' \<Longrightarrow> list_all plain (kstack k t) \<Longrightarrow> list_all plain (kstack k' t)"
  unfolding grows_def by (metis (no_types, lifting) list.pred_mono_strong list_all_append neutral_plain)

lemma grows_push: "list_all neutral fs \<Longrightarrow> grows k (push fs k)"
  by (auto simp: grows_def push_def list_lock_def intro: exI [of _ "[]"])

lemma wakes_grows: "wakes k k' \<Longrightarrow> grows k k'"
  by (rule grows_same) (auto simp: wakes_def list_lock_def fun_eq_iff)

lemma Scheduler_Run_grows: "Scheduler_Run t k = Inr k' \<Longrightarrow> grows k k'"
  using grows_push [of "[Run_tail]" k]
  by (auto simp: Scheduler_Run_def res_simps Let_def grows_def list_lock_def)

lemma Thread_Yield_grows:
  assumes "Thread_Yield k = Inr k'"
  shows "grows k k'"
proof (cases "readyList (disable k)")
  case Nil
  then have "k' = push [Restore (level k)] (disable k)" using assms by (simp add: Thread_Yield_def FindNextToRun_def Let_def)
  then show ?thesis using grows_push [of "[Restore (level k)]" "disable k"] grows_trans [OF grows_same [of "disable k" k]] by simp
next
  case (Cons t ts)
  let ?k = "push [Restore (level k)] ((disable k)\<lparr>readyList := ts\<rparr>)"
  have "Scheduler_Run t (ReadyToRun (currentThread k) ?k) = Inr k'"
    using assms Cons by (simp add: Thread_Yield_def FindNextToRun_def Let_def)
  then have "grows (ReadyToRun (currentThread k) ?k) k'" by (rule Scheduler_Run_grows)
  moreover have "grows ?k (ReadyToRun (currentThread k) ?k)" by (rule grows_same) (simp_all add: ReadyToRun_def list_lock_def fun_eq_iff)
  moreover have "grows k ?k"
    using grows_trans [OF grows_same grows_push, of "(disable k)\<lparr>readyList := ts\<rparr>" k "[Restore (level k)]"]
    by (simp add: list_lock_def fun_eq_iff)
  ultimately show ?thesis using grows_trans by blast
qed

lemma Sleep_grows: "Sleep k = Inr k' \<Longrightarrow> grows k k'"
  using grows_push [of "[Sleep_find]" "k\<lparr>tstatus := (tstatus k)(currentThread k := BLOCKED)\<rparr>"]
  by (auto simp: Sleep_def res_simps grows_def list_lock_def)

context kernel_devices
begin

lemma SetLevel_grows:
  assumes "Kernel_SetLevel run nl k = Inr k'"
  shows "grows k k'"
proof (cases "nl = IntOn \<and> level k = IntOff")
  case False
  then show ?thesis using assms
    by (intro grows_same) (auto simp: Kernel_SetLevel_def res_simps ChangeLevel_def Let_def list_lock_def fun_eq_iff)
next
  case True
  then obtain k1 where k1: "OneTick_fire run Inr (k\<lparr>level := IntOn\<rparr>) = Inr k1"
    "(if yieldOnReturn k1 then Thread_Yield (push [Tick_tail (status (k\<lparr>level := IntOn\<rparr>))] (k1\<lparr>yieldOnReturn := False, status := SystemMode\<rparr>))
      else Inr k1) = Inr k'"
    using assms by (auto simp: Kernel_SetLevel_def Kernel_OneTick_def res_simps ChangeLevel_def Let_def)
  have w: "grows k k1" using OneTick_fire_wakes [OF k1(1)] wakes_grows by simp
  show ?thesis
  proof (cases "yieldOnReturn k1")
    case True
    let ?k2 = "k1\<lparr>yieldOnReturn := False, status := SystemMode\<rparr>"
    have "grows k1 ?k2" by (rule grows_same) (simp_all add: list_lock_def fun_eq_iff)
    moreover have "grows ?k2 (push [Tick_tail (status (k\<lparr>level := IntOn\<rparr>))] ?k2)" by (rule grows_push) simp
    moreover have "grows (push [Tick_tail (status (k\<lparr>level := IntOn\<rparr>))] ?k2) k'" using k1(2) True Thread_Yield_grows by simp
    ultimately show ?thesis using w grows_trans by blast
  next
    case False
    then show ?thesis using k1(2) w by simp
  qed
qed

end

lemma Idle_grows: "kernel_devices run \<Longrightarrow> Idle run Inr k = Inr k' \<Longrightarrow> grows k k'"
  by (drule kernel_devices.Idle_wakes_only) (auto intro: wakes_grows)

section \<open>Waiting for locks\<close>

text \<open>The locks a thread is queued for or still has to acquire before it is back from \<^verbatim>\<open>Wait\<close>.\<close>

definition waiting :: "Kernel \<Rightarrow> tid \<Rightarrow> lid set" where
  "waiting k t = {l. t \<in> set (lock_waitQueue (locks k l))} \<union> {l. Call (Acquire l) \<in> set (kstack k t)}"

definition owner_free :: "Kernel \<Rightarrow> bool" where
  "owner_free k \<longleftrightarrow> (\<forall>l t. ownerThread (locks k l) = Some t \<longrightarrow> t \<notin> set (lock_waitQueue (locks k l)))"

text \<open>\<open>waits_for k t u\<close>: the thread \<open>t\<close> is queued for a lock that \<open>u\<close> owns.\<close>

definition waits_for :: "Kernel \<Rightarrow> tid \<Rightarrow> tid \<Rightarrow> bool" where
  "waits_for k t u \<longleftrightarrow> (\<exists>l. t \<in> set (lock_waitQueue (locks k l)) \<and> ownerThread (locks k l) = Some u)"

lemma grows_waiting:
  assumes "grows k k'"
  shows "waiting k' t = waiting k t"
proof -
  obtain fs where fs: "kstack k' t = fs @ kstack k t" "list_all neutral fs" using assms by (auto simp: grows_def)
  then have "Call (Acquire l) \<notin> set fs" for l by (auto simp: list_all_iff)
  then show ?thesis using assms fs(1) by (auto simp: waiting_def grows_def)
qed

lemma grows_owner_free: "grows k k' \<Longrightarrow> owner_free k' = owner_free k"
  by (simp add: grows_def owner_free_def)

lemma plain_until_user: "list_all plain fs \<Longrightarrow> H \<subseteq> until_user L fs H"
proof (induction fs arbitrary: H)
  case (Cons f fs)
  have "H \<subseteq> locks_after L f H" using Cons.prems by (cases f) (auto split: kcall.splits)
  then show ?case using Cons.IH [of "locks_after L f H"] Cons.prems by auto
qed simp

lemma until_user_plain: "list_all plain fs \<Longrightarrow> until_user L fs H \<subseteq> H \<union> {l. Call (Acquire l) \<in> set fs}"
proof (induction fs arbitrary: H)
  case (Cons f fs)
  have "locks_after L f H \<subseteq> H \<union> {l. Call (Acquire l) = f}" using Cons.prems by (cases f) (auto split: kcall.splits)
  then show ?case using Cons.IH [of "locks_after L f H"] Cons.prems by auto
qed simp

section \<open>Calls\<close>

text \<open>What a call does to the locks of the thread that makes it, once it has returned.\<close>

fun call_locks :: "kcall \<Rightarrow> lid set \<Rightarrow> lid set" where
  "call_locks (Acquire l) H = insert l H"
| "call_locks (Release l) H = H - {l}"
| "call_locks c H = H"

text \<open>
  When a call is made in order: no lock is acquired twice, released, waited with or signalled under unless held.
  \<^verbatim>\<open>Broadcast\<close> and the synchronised lists are outside this type system.
\<close>

fun call_typed :: "kcall \<Rightarrow> lid set \<Rightarrow> bool" where
  "call_typed (Acquire l) H = (l \<notin> H)"
| "call_typed (Release l) H = (l \<in> H)"
| "call_typed (Wait c l) H = (case l of None \<Rightarrow> False | Some l \<Rightarrow> l \<in> H)"
| "call_typed (Signal c l) H = (case l of None \<Rightarrow> False | Some l \<Rightarrow> l \<in> H)"
| "call_typed (Broadcast c l) H = False"
| "call_typed (SL_Append x i) H = False"
| "call_typed (SL_Remove x) H = False"
| "call_typed (SL_Mapcar x) H = False"
| "call_typed c H = True"

text \<open>The locks a call may have to wait for.\<close>

fun call_waits :: "kcall \<Rightarrow> lid set" where
  "call_waits (Acquire l) = {l}"
| "call_waits (Wait c l) = set_option l"
| "call_waits c = {}"

fun frame_waits :: "frame \<Rightarrow> lid set" where
  "frame_waits (Call c) = call_waits c"
| "frame_waits f = {}"

text \<open>What a call does to the conditions.\<close>

definition wait_cond :: "tid \<Rightarrow> lid \<Rightarrow> Condition \<Rightarrow> Condition" where
  "wait_cond t l cd =
     (let cd1 = (if waitLock cd = None then cd\<lparr>waitLock := Some l\<rparr> else cd)
      in if waitLock cd1 \<noteq> Some l then cd1 else cd1\<lparr>cond_waitQueue := cond_waitQueue cd1 @ [t]\<rparr>)"

definition signal_cond :: "lid option \<Rightarrow> Condition \<Rightarrow> Condition" where
  "signal_cond y cd =
     (case cond_waitQueue cd of [] \<Rightarrow> cd
      | t # ts \<Rightarrow> if waitLock cd \<noteq> y then cd
                   else cd\<lparr>cond_waitQueue := ts, waitLock := (if ts = [] then None else waitLock cd)\<rparr>)"

fun call_conds :: "tid \<Rightarrow> kcall \<Rightarrow> (cid \<Rightarrow> Condition) \<Rightarrow> cid \<Rightarrow> Condition" where
  "call_conds t (Wait c (Some l)) cs = cs(c := wait_cond t l (cs c))"
| "call_conds t (Signal c y) cs = cs(c := signal_cond y (cs c))"
| "call_conds t c cs = cs"

text \<open>
  \<open>acts k H W C k'\<close>: the thread that was running holds \<open>H\<close> on the way back and has begun to wait for at most
  the locks \<open>W\<close>, and the conditions are \<open>C\<close>; all other threads hold what they held and wait for no more than before.
\<close>

definition acts :: "Kernel \<Rightarrow> lid set \<Rightarrow> lid set \<Rightarrow> (cid \<Rightarrow> Condition) \<Rightarrow> Kernel \<Rightarrow> bool" where
  "acts k H W C k' \<longleftrightarrow> list_lock k' = list_lock k \<and> conditions k' = C \<and>
     lock_view k' (currentThread k) = until_user (list_lock k) (cur_stack k) H \<and>
     (\<forall>t. t \<noteq> currentThread k \<longrightarrow> lock_view k' t = lock_view k t) \<and>
     ((\<forall>t. list_all plain (kstack k t)) \<longrightarrow> (\<forall>t. list_all plain (kstack k' t))) \<and>
     (\<forall>t. waiting k' t \<subseteq> waiting k t \<union> (if t = currentThread k then W else {})) \<and>
     (owner_free k \<longrightarrow> owner_free k')"

abbreviation own_locks :: "Kernel \<Rightarrow> lid set" where
  "own_locks k \<equiv> hold (locks k) (currentThread k)"

lemma grows_list_lock: "grows k k' \<Longrightarrow> list_lock k' = list_lock k"
  by (simp add: grows_def)

lemma grows_conditions: "grows k k' \<Longrightarrow> conditions k' = conditions k"
  by (simp add: grows_def)

lemma acts_grows:
  assumes "acts k H W C k'" "grows k' k''"
  shows "acts k H W C k''"
  using assms(1) grows_list_lock [OF assms(2)] grows_view [OF assms(2)] grows_plain [OF assms(2)] grows_waiting [OF assms(2)]
    grows_owner_free [OF assms(2)] grows_conditions [OF assms(2)] by (simp add: acts_def)

lemma acts_disable: "acts (disable k) H W C k' = acts k H W C k'"
  by (simp add: acts_def lock_view_def waiting_def owner_free_def)

lemma acts_refl: "acts k (own_locks k) W (conditions k) k"
  by (auto simp: acts_def lock_view_def)

lemma grows_acts: "grows k k' \<Longrightarrow> acts k (own_locks k) W (conditions k) k'"
  by (rule acts_grows [OF acts_refl])

text \<open>A change of the locks that leaves the stacks alone, and one that pushes locations.\<close>

definition relocks :: "Kernel \<Rightarrow> lid set \<Rightarrow> Kernel \<Rightarrow> bool" where
  "relocks k W k' \<longleftrightarrow> kstack k' = kstack k \<and> list_lock k' = list_lock k \<and> currentThread k' = currentThread k \<and>
     (\<forall>t. t \<noteq> currentThread k \<longrightarrow> hold (locks k') t = hold (locks k) t) \<and> (owner_free k \<longrightarrow> owner_free k') \<and>
     (\<forall>l. set (lock_waitQueue (locks k' l)) \<subseteq> set (lock_waitQueue (locks k l)) \<union> (if l \<in> W then {currentThread k} else {}))"

lemma relocks_waiting: "relocks k W k' \<Longrightarrow> waiting k' t \<subseteq> waiting k t \<union> (if t = currentThread k then W else {})"
  unfolding relocks_def waiting_def by (auto split: if_splits)

lemma acts_push:
  assumes "relocks k W k'" "list_all plain fs" "\<And>l. Call (Acquire l) \<in> set fs \<Longrightarrow> l \<in> W"
    and "\<And>gs. until_user (list_lock k) (fs @ gs) (own_locks k') = until_user (list_lock k) gs H"
  shows "acts k H W (conditions k') (push fs k')"
proof -
  have "waiting (push fs k') t \<subseteq> waiting k' t \<union> (if t = currentThread k then W else {})" for t
    using assms(1,3) by (auto simp: waiting_def push_def relocks_def)
  then have w: "waiting (push fs k') t \<subseteq> waiting k t \<union> (if t = currentThread k then W else {})" for t
    using relocks_waiting [OF assms(1), of t] by blast
  have o: "owner_free (push fs k') = owner_free k'" by (simp add: owner_free_def)
  show ?thesis using assms w o by (simp add: acts_def lock_view_def relocks_def)
qed

lemma acts_locks: "relocks k W k' \<Longrightarrow> acts k (own_locks k') W (conditions k') k'"
  using acts_push [of k W k' "[]"] by (simp add: push_def)

lemma hold_upd:
  "hold (lks(l := x)) t = (if ownerThread x = Some t \<or> t \<in> set (lock_waitQueue x) then insert l (hold lks t) else hold lks t - {l})"
  by (auto simp: hold_def)

definition unqueued :: "Kernel \<Rightarrow> bool" where
  "unqueued k \<longleftrightarrow> (\<forall>l. currentThread k \<notin> set (lock_waitQueue (locks k l)))"

lemma cur_free_unqueued: "cur_free k \<Longrightarrow> unqueued k"
  unfolding no_place_def unqueued_def by (metis place_list.simps(3))

lemma Lock_Release_body_hold:
  fixes t :: tid and l :: lid
  assumes "unqueued k"
  shows "own_locks (Lock_Release_body l k) = own_locks k - {l}"
    "t \<noteq> currentThread k \<Longrightarrow> hold (locks (Lock_Release_body l k)) t = hold (locks k) t"
proof -
  have nq: "currentThread k \<notin> set (lock_waitQueue (locks k x))" for x
    using assms by (simp add: unqueued_def)
  show "own_locks (Lock_Release_body l k) = own_locks k - {l}"
  proof (cases "lock_waitQueue (locks k l)")
    case Nil
    then show ?thesis by (auto simp: hold_def Lock_Release_body_def isHeldByCurrentThread_def set_lock_def Let_def)
  next
    case (Cons u us)
    then have "currentThread k \<noteq> u" "currentThread k \<notin> set us" using nq [of l] by auto
    then show ?thesis using Cons nq
      by (auto simp: hold_def Lock_Release_body_def isHeldByCurrentThread_def set_lock_def ReadyToRun_def Let_def split: if_splits)
  qed
  show "hold (locks (Lock_Release_body l k)) t = hold (locks k) t" if "t \<noteq> currentThread k"
    using that by (auto simp: hold_def Lock_Release_body_def isHeldByCurrentThread_def set_lock_def ReadyToRun_def Let_def
        split: list.splits if_splits)
qed

lemma Lock_Release_body_frame:
  "kstack (Lock_Release_body l k) = kstack k" "list_lock (Lock_Release_body l k) = list_lock k"
  "currentThread (Lock_Release_body l k) = currentThread k" "conditions (Lock_Release_body l k) = conditions k"
  by (simp_all add: Lock_Release_body_def set_lock_def ReadyToRun_def Let_def list_lock_def fun_eq_iff split: list.split)

text \<open>No thread is queued twice for a lock.\<close>

definition queued_once :: "Kernel \<Rightarrow> bool" where
  "queued_once k \<longleftrightarrow> (\<forall>l. distinct (lock_waitQueue (locks k l)))"

lemma Lock_Release_body_relocks:
  assumes "unqueued k" "queued_once k"
  shows "relocks k W (Lock_Release_body l k)"
proof -
  have d: "distinct (lock_waitQueue (locks k l))" using assms(2) by (simp add: queued_once_def)
  have lks: "locks (Lock_Release_body l k) x = locks k x" if "x \<noteq> l \<or> \<not> isHeldByCurrentThread l k" for x
    using that by (simp add: Lock_Release_body_def set_lock_def ReadyToRun_def Let_def split: list.split)
  have lk: "lock_waitQueue (locks (Lock_Release_body l k) l) = tl (lock_waitQueue (locks k l)) \<and>
      ownerThread (locks (Lock_Release_body l k) l) = (if lock_waitQueue (locks k l) = [] then None else Some (hd (lock_waitQueue (locks k l))))"
    if "isHeldByCurrentThread l k"
    using that by (simp add: Lock_Release_body_def set_lock_def ReadyToRun_def Let_def split: list.split)
  have q: "set (lock_waitQueue (locks (Lock_Release_body l k) x)) \<subseteq> set (lock_waitQueue (locks k x))" for x
    using lks [of x] lk by (cases "x = l \<and> isHeldByCurrentThread l k") (metis list.set_sel(2) list.sel(2) subsetI, simp)
  have "t \<notin> set (lock_waitQueue (locks (Lock_Release_body l k) x))"
    if "owner_free k" "ownerThread (locks (Lock_Release_body l k) x) = Some t" for x t
  proof (cases "x = l \<and> isHeldByCurrentThread l k")
    case True
    then show ?thesis using lk d that(2) by (cases "lock_waitQueue (locks k l)") auto
  next
    case False
    then show ?thesis using lks [of x] that by (simp add: owner_free_def)
  qed
  then have "owner_free k \<Longrightarrow> owner_free (Lock_Release_body l k)" by (simp add: owner_free_def)
  moreover have "hold (locks (Lock_Release_body l k)) t = hold (locks k) t" if "t \<noteq> currentThread k" for t
    by (rule Lock_Release_body_hold(2) [OF assms(1) that])
  ultimately show ?thesis using q by (auto simp: relocks_def Lock_Release_body_frame)
qed

lemma Lock_Release_body_acts: "unqueued k \<Longrightarrow> queued_once k \<Longrightarrow> acts k (own_locks k - {l}) W (conditions k) (Lock_Release_body l k)"
  using acts_locks [OF Lock_Release_body_relocks, of k l W] Lock_Release_body_hold(1) [of k l]
  by (simp add: Lock_Release_body_frame)

lemma distinct_count_list: "(\<And>x. count_list xs x \<le> 1) \<Longrightarrow> distinct xs"
proof (induction xs)
  case (Cons y ys)
  have "count_list ys x \<le> 1" for x using Cons.prems [of x] by (simp split: if_splits)
  moreover have "count_list ys y = 0" using Cons.prems [of y] by simp
  ultimately show ?case using Cons.IH by (simp add: count_list_0_iff)
qed simp

lemma calm_queued_once:
  assumes "calm k" "cur_free k"
  shows "queued_once k"
  unfolding queued_once_def
proof
  fix l
  have "count_list (lock_waitQueue (locks k l)) t = (if t \<in> set (lock_waitQueue (locks k l)) then 1 else 0)" for t
  proof (cases "t \<in> set (lock_waitQueue (locks k l))")
    case True
    then have "t \<noteq> currentThread k" using cur_free_unqueued [OF assms(2)] by (auto simp: unqueued_def)
    then have "placed (places k) t"
      using assms(1) True unfolding calm_def suspended_def no_place_def by (metis place_list.simps(3))
    then obtain p where "count_list (places k p) t = 1" "\<forall>q. q \<noteq> p \<longrightarrow> t \<notin> set (places k q)" by (auto simp: placed_def)
    moreover have "p = InLock l" using True calculation(2) by force
    ultimately show ?thesis using True by simp
  qed (simp add: count_list_0_iff)
  then show "distinct (lock_waitQueue (locks k l))" by (intro distinct_count_list) simp
qed

lemma Lock_Acquire_acts:
  assumes "Lock_Acquire l k = Inr k'" "\<And>x. lock_ok (locks k x)"
  shows "acts k (insert l (own_locks k)) {l} (conditions k) k'"
proof -
  let ?lk = "locks k l"
  let ?free = "set_lock l (?lk\<lparr>isBusy := True, ownerThread := Some (currentThread k)\<rparr>) (disable k)"
  let ?full = "set_lock l (?lk\<lparr>lock_waitQueue := lock_waitQueue ?lk @ [currentThread k]\<rparr>) (disable k)"
  have push: "acts k (insert l (own_locks k)) {l} (conditions k) (push [Acquire_end l (level k)] k1)"
    if "relocks k {l} k1" "own_locks k1 = insert l (own_locks k)" "conditions k1 = conditions k" for k1
    using acts_push [OF that(1), of "[Acquire_end l (level k)]" "insert l (own_locks k)"] that by simp
  have held: "acts k (insert l (own_locks k)) {l} (conditions k) (push [Acquire_end l (level k)] (disable k))" if "ownerThread ?lk = Some (currentThread k)"
    using that by (intro push) (auto simp: relocks_def hold_def owner_free_def)
  have free: "acts k (insert l (own_locks k)) {l} (conditions k) (push [Acquire_end l (level k)] ?free)" if "\<not> isBusy ?lk"
    using that assms(2) [of l] by (intro push) (auto simp: relocks_def owner_free_def hold_upd lock_ok_def hold_def)
  have full: "acts k (insert l (own_locks k)) {l} (conditions k) (push [Acquire_end l (level k)] ?full)" if "ownerThread ?lk \<noteq> Some (currentThread k)"
    using that by (intro push) (auto simp: relocks_def owner_free_def hold_upd hold_def)
  show ?thesis
  proof (cases "ownerThread ?lk = Some (currentThread k) \<or> \<not> isBusy ?lk")
    case True
    then have "k' = push [Acquire_end l (level k)] (disable k) \<and> ownerThread ?lk = Some (currentThread k) \<or>
        k' = push [Acquire_end l (level k)] ?free \<and> \<not> isBusy ?lk"
      using assms(1) by (auto simp: Lock_Acquire_def isHeldByCurrentThread_def Let_def split: if_splits)
    then show ?thesis using held free by blast
  next
    case False
    then have "Sleep (push [Acquire_end l (level k)] ?full) = Inr k'"
      using assms(1) by (simp add: Lock_Acquire_def isHeldByCurrentThread_def Let_def)
    then show ?thesis using acts_grows [OF full Sleep_grows] False by blast
  qed
qed

context kernel_devices
begin

lemma Condition_Wait_acts:
  assumes r: "Condition_Wait run c (Some l) k = Inr k'" and "cur_free k" "l \<in> own_locks k" "queued_once k"
  shows "acts k (own_locks k) {l} ((conditions k)(c := wait_cond (currentThread k) l (conditions k c))) k'"
proof -
  let ?cd1 = "if waitLock (conditions k c) = None then (conditions k c)\<lparr>waitLock := Some l\<rparr> else conditions k c"
  let ?k2 = "set_cond c ?cd1 (disable k)"
  let ?k3 = "set_cond c (?cd1\<lparr>cond_waitQueue := cond_waitQueue ?cd1 @ [currentThread k]\<rparr>) (disable k)"
  show ?thesis
  proof (cases "waitLock ?cd1 = Some l")
    case True
    then have sl: "Sleep (push [Call (Acquire l), Wait_end c l (level k)] (Lock_Release_body l ?k3)) = Inr k'"
      using r by (auto simp: Condition_Wait_def Let_def)
    define k3 where "k3 = ?k3"
    have k3: "locks k3 = locks k" "kstack k3 = kstack k" "currentThread k3 = currentThread k" "list_lock k3 = list_lock k"
      by (simp_all add: k3_def)
    have q: "unqueued k3" "queued_once k3" using cur_free_unqueued [OF assms(2)] assms(4) by (simp_all add: unqueued_def queued_once_def k3)
    have rl: "relocks k {l} (Lock_Release_body l k3)"
      using Lock_Release_body_relocks [OF q, where W = "{l}" and l = l] unfolding relocks_def owner_free_def k3 .
    have "acts k (own_locks k) {l} (conditions (Lock_Release_body l k3))
        (push [Call (Acquire l), Wait_end c l (level k)] (Lock_Release_body l k3))"
    proof (rule acts_push [OF rl])
      show "until_user (list_lock k) ([Call (Acquire l), Wait_end c l (level k)] @ gs) (own_locks (Lock_Release_body l k3))
          = until_user (list_lock k) gs (own_locks k)" for gs
        using Lock_Release_body_hold(1) [OF q(1), where l = l] assms(3) by (simp add: insert_absorb k3)
    qed auto
    moreover have "conditions (Lock_Release_body l k3) = (conditions k)(c := wait_cond (currentThread k) l (conditions k c))"
      using True by (simp add: Lock_Release_body_frame k3_def wait_cond_def Let_def set_cond_def)
    ultimately have "acts k (own_locks k) {l} ((conditions k)(c := wait_cond (currentThread k) l (conditions k c)))
        (push [Call (Acquire l), Wait_end c l (level k)] (Lock_Release_body l k3))" by simp
    then show ?thesis by (rule acts_grows) (rule Sleep_grows [OF sl [folded k3_def]])
  next
    case False
    then have "Kernel_SetLevel run (level k) ?k2 = Inr k'" using r by (auto simp: Condition_Wait_def Let_def split: if_splits)
    moreover have "acts k (own_locks k) {l} (conditions ?k2) ?k2"
      using acts_locks [of k "{l}" ?k2] by (auto simp: relocks_def owner_free_def)
    moreover have "conditions ?k2 = (conditions k)(c := wait_cond (currentThread k) l (conditions k c))"
      using False by (auto simp: wait_cond_def Let_def set_cond_def)
    ultimately show ?thesis using SetLevel_grows acts_grows by simp
  qed
qed

end

lemma Condition_Signal_body_frame:
  "locks (Condition_Signal_body c x k) = locks k" "kstack (Condition_Signal_body c x k) = kstack k"
  "list_lock (Condition_Signal_body c x k) = list_lock k" "currentThread (Condition_Signal_body c x k) = currentThread k"
  by (simp_all add: Condition_Signal_body_def set_cond_def ReadyToRun_def Let_def list_lock_def fun_eq_iff split: list.split)

lemma Condition_Signal_body_acts:
  "acts k (own_locks k) W ((conditions k)(c := signal_cond x (conditions k c))) (Condition_Signal_body c x k)"
proof -
  have "conditions (Condition_Signal_body c x k) = (conditions k)(c := signal_cond x (conditions k c))"
    by (auto simp: Condition_Signal_body_def signal_cond_def Let_def set_cond_def ReadyToRun_def split: list.split)
  then show ?thesis using acts_locks [of k W "Condition_Signal_body c x k"]
    by (auto simp: relocks_def Condition_Signal_body_frame owner_free_def)
qed

lemma StackAllocate_acts:
  assumes "kstack k t = []" "t \<noteq> currentThread k"
  shows "acts k (own_locks k) W (conditions k) (StackAllocate t k)"
  using assms by (auto simp: acts_def lock_view_def StackAllocate_def list_lock_def fun_eq_iff waiting_def owner_free_def)

lemma Run_after_acts:
  assumes "Run_after k = Inr k'" "calm k"
  shows "acts k (own_locks k) W (conditions k) k'"
proof (cases "threadToBeDestroyed k")
  case None
  then show ?thesis using assms(1) acts_refl by (simp add: Run_after_def)
next
  case (Some z)
  then have "z \<noteq> currentThread k" "kstack k z = [Run_tail]" using assms(2) by (simp_all add: calm_def)
  then show ?thesis using assms(1) Some
    by (auto simp: acts_def lock_view_def Run_after_def Thread_delete_def res_simps list_lock_def fun_eq_iff waiting_def owner_free_def
        split: if_splits)
qed

context kernel_devices
begin

lemma do_call_acts:
  assumes r: "do_call run c k = Inr k'" and k: "calm k" "cur_free k" and c: "legal_call c k"
    and w: "\<And>x y. c = Wait x y \<Longrightarrow> \<exists>l \<in> own_locks k. y = Some l" and sl: "\<And>x i. c \<noteq> SL_Append x i" "\<And>x. c \<noteq> SL_Remove x" "\<And>x. c \<noteq> SL_Mapcar x" "\<And>x y. c \<noteq> Broadcast x y"
  shows "acts k (call_locks c (own_locks k)) (call_waits c) (call_conds (currentThread k) c (conditions k)) k'"
proof -
  have o: "objects_ok k" using k(1) by (simp add: calm_def)
  have dis: "grows k (disable k)" by (rule grows_same) simp_all
  show ?thesis
  proof (cases c)
    case (NewThread t)
    then have "kstack k t = []" using o c by (auto simp: objects_ok_def legal_call_def)
    then show ?thesis using r NewThread by (auto simp: Thread_new_def fun_upd_idem list_lock_def intro!: grows_acts grows_same)
  next
    case (Fork t)
    then have t: "kstack k t = []" "t \<noteq> currentThread k" using o c by (auto simp: objects_ok_def legal_call_def)
    have "grows (StackAllocate t k) (ReadyToRun t (disable (StackAllocate t k)))"
      by (rule grows_same) (simp_all add: ReadyToRun_def list_lock_def fun_eq_iff)
    moreover have "grows (ReadyToRun t (disable (StackAllocate t k))) k'"
      using r Fork by (auto simp: Thread_Fork_def Let_def intro: SetLevel_grows)
    ultimately have "acts k (own_locks k) {} (conditions k) k'" using acts_grows [OF acts_grows [OF StackAllocate_acts [OF t]]] by blast
    then show ?thesis using Fork by simp
  next
    case Yield
    then show ?thesis using r Thread_Yield_grows grows_acts by simp
  next
    case (P x)
    then show ?thesis using r grows_trans [OF dis grows_push [of "[P_test x (level k)]"]] by (auto simp: Semaphore_P_def intro: grows_acts)
  next
    case (V x)
    then have "grows (Semaphore_V_body x (disable k)) k'" using r by (auto simp: Semaphore_V_def intro: SetLevel_grows)
    then have "grows k k'" using grows_trans [OF dis] grows_trans wakes_grows [OF Semaphore_V_body_wakes] by blast
    then show ?thesis using V grows_acts by simp
  next
    case (Acquire x)
    then show ?thesis using r o Lock_Acquire_acts [of x k k'] by (simp add: objects_ok_def)
  next
    case (Release x)
    have "unqueued (disable k)" "queued_once (disable k)"
      using cur_free_unqueued [OF k(2)] calm_queued_once [OF k] by (simp_all add: unqueued_def queued_once_def)
    then have "acts k (own_locks k - {x}) {} (conditions k) (Lock_Release_body x (disable k))"
      using Lock_Release_body_acts [of "disable k" x] acts_disable by simp
    moreover have "grows (Lock_Release_body x (disable k)) k'" using r Release by (auto simp: Lock_Release_def intro: SetLevel_grows)
    ultimately show ?thesis using Release acts_grows by simp
  next
    case (Wait x y)
    then show ?thesis using r w Condition_Wait_acts k(2) calm_queued_once [OF k] by auto
  next
    case (Signal x y)
    then have "grows (Condition_Signal_body x y (disable k)) k'" using r by (auto simp: Condition_Signal_def intro: SetLevel_grows)
    moreover have "acts k (own_locks k) {} ((conditions k)(x := signal_cond y (conditions k x))) (Condition_Signal_body x y (disable k))"
      using Condition_Signal_body_acts [of "disable k"] acts_disable by simp
    ultimately show ?thesis using Signal acts_grows by simp
  qed (use sl in auto)
qed

lemma resume_acts:
  assumes r: "resume run f k = Inr k'" and k: "calm k" "cur_free k" and f: "plain f" "f \<noteq> User" "f \<noteq> Sleep_find"
    and ok: "frame_ok L H lv f"
  shows "acts k (locks_after L' f (own_locks k)) (frame_waits f) (conditions k) k'"
proof (cases f)
  case (Call c)
  then have "\<exists>l. c = Acquire l" using f(1) by (cases c) auto
  then show ?thesis using do_call_acts [of c k k'] r Call k by (auto simp: legal_call_def)
next
  case (P_test x old)
  let ?sem = "semaphores k x"
  have 1: "grows k (push [P_test x old] (set_sem x (?sem\<lparr>sem_queue := sem_queue ?sem @ [currentThread k]\<rparr>) k))"
    using grows_trans [OF grows_same grows_push [of "[P_test x old]"]] by simp
  have 2: "grows k (set_sem x (?sem\<lparr>sem_value := sem_value ?sem - 1\<rparr>) k)" by (rule grows_same) simp_all
  have "grows k k'"
  proof (cases "sem_value ?sem = 0")
    case True
    then show ?thesis using r P_test by (intro grows_trans [OF 1] Sleep_grows) (simp add: Semaphore_P_loop_def Let_def)
  next
    case False
    then show ?thesis using r P_test by (intro grows_trans [OF 2] SetLevel_grows [of old]) (simp add: Semaphore_P_loop_def Let_def)
  qed
  then show ?thesis using P_test grows_acts by simp
next
  case Run_tail
  then show ?thesis using r Run_after_acts [OF _ k(1)] by simp
next
  case (Tick_tail st)
  then show ?thesis using r by (auto intro!: grows_acts grows_same simp: list_lock_def)
next
  case Root_finish
  then have "grows ((disable k)\<lparr>threadToBeDestroyed := Some (currentThread k)\<rparr>) k'" using r by (auto simp: Thread_Finish_def intro: Sleep_grows)
  moreover have "grows k ((disable k)\<lparr>threadToBeDestroyed := Some (currentThread k)\<rparr>)" by (rule grows_same) (simp_all add: list_lock_def)
  ultimately show ?thesis using Root_finish grows_trans grows_acts by simp
qed (use r f in \<open>auto intro!: grows_acts intro: SetLevel_grows\<close>)

lemma kernel_step_views:
  assumes k: "kinv k" and s: "cur_stack k = f # fs" and f: "f \<noteq> User" and r: "kernel_step run k = Inr k'"
    and p: "\<And>t. list_all plain (kstack k t)"
  shows "lock_view k' = lock_view k" "\<And>t. list_all plain (kstack k' t)" "\<And>t. waiting k' t \<subseteq> waiting k t" "owner_free k \<Longrightarrow> owner_free k'"
    "conditions k' = conditions k"
proof -
  have "acts (pop k) (locks_after (list_lock k) f (own_locks k)) (frame_waits f) (conditions k) k'"
  proof (cases "f = Sleep_find")
    case True
    have rr: "Sleep_round run (pop k) = Inr k'" using r s True by (simp add: kernel_step_def)
    have "grows (pop k) k'"
    proof (cases "readyList k")
      case Nil
      then obtain k2 where "Idle run Inr (pop k) = Inr k2" "k' = push [Sleep_find] k2"
        using rr by (auto simp: Sleep_round_def FindNextToRun_def pop_def res_simps)
      moreover have "grows (pop k) k2" by (rule wakes_grows [OF Idle_wakes_only]) fact
      ultimately show ?thesis using grows_trans grows_push [of "[Sleep_find]" k2] by simp
    next
      case (Cons t ts)
      then have "Scheduler_Run t ((pop k)\<lparr>readyList := ts\<rparr>) = Inr k'" using rr by (simp add: Sleep_round_def FindNextToRun_def pop_def)
      moreover have "grows (pop k) ((pop k)\<lparr>readyList := ts\<rparr>)" by (rule grows_same) (simp_all add: list_lock_def)
      ultimately show ?thesis using grows_trans Scheduler_Run_grows by blast
    qed
    from grows_acts [OF this] show ?thesis using True by simp
  next
    case False
    note t = kinv_top [OF k s False]
    have "plain f" using p [of "currentThread k"] s by simp
    then show ?thesis using resume_acts [OF _ t(1,2) _ f False t(3), of k' "list_lock k"] r s by (simp add: kernel_step_def)
  qed
  moreover have "list_all plain (kstack (pop k) t)" for t
    using p [of t] s by (auto simp: pop_def)
  ultimately have a: "lock_view k' (currentThread k) = until_user (list_lock k) fs (locks_after (list_lock k) f (own_locks k))"
      "\<And>t. t \<noteq> currentThread k \<Longrightarrow> lock_view k' t = lock_view (pop k) t" "\<And>t. list_all plain (kstack k' t)"
      "\<And>t. waiting k' t \<subseteq> waiting (pop k) t \<union> (if t = currentThread k then frame_waits f else {})" "owner_free (pop k) \<Longrightarrow> owner_free k'"
      "conditions k' = conditions k"
    using s by (auto simp: acts_def)
  show "conditions k' = conditions k" by (rule a(6))
  have "frame_waits f \<subseteq> {l. Call (Acquire l) = f}" using p [of "currentThread k"] s by (cases f) (auto split: kcall.splits)
  then have "waiting (pop k) t \<union> (if t = currentThread k then frame_waits f else {}) \<subseteq> waiting k t" for t
    using s by (auto simp: waiting_def pop_def)
  then show "waiting k' t \<subseteq> waiting k t" for t using a(4) by blast
  show "owner_free k'" if "owner_free k" using that a(5) by (simp add: owner_free_def pop_def)
  show "\<And>t. list_all plain (kstack k' t)" by (rule a(3))
  have "lock_view k' t = lock_view k t" for t
    using a(1) a(2) [of t] s f by (cases "t = currentThread k") (simp_all add: lock_view_def)
  then show "lock_view k' = lock_view k" by blast
qed

end

section \<open>Typed programs\<close>

text \<open>
  \<open>held p\<close> are the locks of a thread at the location \<open>p\<close>, \<open>entry p\<close> those of them that the call before \<open>p\<close> may
  have to wait for: the thread arrives at \<open>p\<close> only when it has got them.
\<close>

locale lock_typing =
  fixes code :: "('p, 's) code" and held entry :: "'p \<Rightarrow> lid set"
  assumes call_ok: "code p s = Inr (Some c, p', s') \<Longrightarrow>
      call_typed c (held p) \<and> held p' = call_locks c (held p) \<and> call_waits c \<subseteq> entry p'"
    and return_ok: "code p s = Inr (None, p', s') \<Longrightarrow> held p = {} \<and> held p' = {}"
begin

definition sys_typed :: "('p, 's) System \<Rightarrow> bool" where
  "sys_typed S \<longleftrightarrow> kinv (sys_kernel S) \<and> (\<forall>t. lock_view (sys_kernel S) t = held (pcs S t)) \<and>
     (\<forall>t. list_all plain (kstack (sys_kernel S) t)) \<and> owner_free (sys_kernel S) \<and>
     (\<forall>t. waiting (sys_kernel S) t \<subseteq> entry (pcs S t))"

lemma sys_typedD:
  assumes "sys_typed S"
  shows "kinv (sys_kernel S)" "lock_view (sys_kernel S) t = held (pcs S t)" "list_all plain (kstack (sys_kernel S) t)"
    "owner_free (sys_kernel S)" "waiting (sys_kernel S) t \<subseteq> entry (pcs S t)"
  using assms by (simp_all add: sys_typed_def)

lemma user_own:
  assumes "sys_typed S" "cur_stack (sys_kernel S) = User # fs"
  shows "own_locks (sys_kernel S) = held (pcs S (currentThread (sys_kernel S)))"
  using sys_typedD(2) [OF assms(1), of "currentThread (sys_kernel S)"] assms(2) by (simp add: lock_view_def)

text \<open>What the kernel does for a call of the program.\<close>

lemma call_acts:
  assumes "kernel_devices run" "sys_typed S" "cur_stack (sys_kernel S) = User # fs"
    "code (pcs S (currentThread (sys_kernel S))) (shared S) = Inr (Some c, p, s)" "legal_call c (sys_kernel S)"
    "do_call run c (sys_kernel S) = Inr k'"
  shows "acts (sys_kernel S) (held p) (call_waits c) (call_conds (currentThread (sys_kernel S)) c (conditions (sys_kernel S))) k'"
proof -
  let ?k = "sys_kernel S"
  have top: "calm ?k" "cur_free ?k" using kinv_top [OF sys_typedD(1) [OF assms(2)] assms(3)] by simp_all
  note typed = call_ok [OF assms(4), folded user_own [OF assms(2,3)]]
  have "acts ?k (call_locks c (own_locks ?k)) (call_waits c) (call_conds (currentThread ?k) c (conditions ?k)) k'"
    by (rule kernel_devices.do_call_acts [OF assms(1,6) top assms(5)]) (use typed in \<open>auto split: option.splits\<close>)
  then show ?thesis using typed by simp
qed

lemma step_typed:
  assumes "kernel_devices run" "sys_step run code S = Inr S'" "sys_typed S"
  shows "sys_typed S'"
proof -
  let ?k = "sys_kernel S"
  note S = sys_typedD [OF assms(3)]
  have k': "kinv (sys_kernel S')" by (rule kernel_devices.kstep_kinv [OF assms(1) sys_step_kstep [OF assms(2)] S(1)])
  show ?thesis
    using assms(2)
  proof (cases rule: sys_step_cases)
    case (call fs c p s k1)
    note a = call_acts [OF assms(1,3) call(1-4)]
    have "fs = [Root_finish]" "cur_free ?k" using kinv_top [OF S(1) call(1)] call(1) by simp_all
    then have "waiting ?k (currentThread ?k) = {}"
      using cur_free_unqueued [of ?k] call(1) by (auto simp: waiting_def unqueued_def)
    then have w: "waiting k1 t \<subseteq> (if t = currentThread ?k then call_waits c else waiting ?k t)" for t
      using a by (auto simp: acts_def split: if_splits)
    have "waiting k1 t \<subseteq> entry (pcs S' t)" for t
      using w [of t] S(5) [of t] call_ok [OF call(2)] call(5) by (auto split: if_splits)
    then show ?thesis using k' S(2-4) call(1,5) a by (auto simp: sys_typed_def acts_def)
  next
    case (return fs p s)
    have "fs = [Root_finish]" "cur_free ?k" using kinv_top [OF S(1) return(1)] return(1) by simp_all
    then have v: "lock_view (pop ?k) t = (if t = currentThread ?k then held p else lock_view ?k t)"
      and w: "waiting (pop ?k) t \<subseteq> (if t = currentThread ?k then {} else waiting ?k t)" for t
      using return(1) user_own [OF assms(3) return(1)] return_ok [OF return(2)] cur_free_unqueued [of ?k]
      by (auto simp: lock_view_def pop_def list_lock_def waiting_def unqueued_def)
    have "waiting (pop ?k) t \<subseteq> entry (pcs S' t)" for t
      using w [of t] S(5) [of t] return(3) by (auto split: if_splits)
    moreover have "list_all plain (kstack (pop ?k) t)" for t using S(3) [of t] return(1) by (auto simp: pop_def)
    ultimately show ?thesis using k' v S(2,4) return(3) by (simp add: sys_typed_def owner_free_def pop_def)
  next
    case (kernel f fs k1)
    note v = kernel_devices.kernel_step_views [OF assms(1) S(1) kernel(1-3) S(3)]
    then show ?thesis using k' S kernel(4) unfolding sys_typed_def by (simp, blast)
  qed
qed

lemma reaches_typed: "sys_reaches run code S0 S \<Longrightarrow> kernel_devices run \<Longrightarrow> sys_typed S0 \<Longrightarrow> sys_typed S"
  by (induction rule: sys_reaches.induct) (auto intro: step_typed)

text \<open>A thread that is in its own code holds the locks of its location.\<close>

lemma owns_held:
  assumes "sys_typed S" "cur_stack (sys_kernel S) = User # fs"
  shows "{l. ownerThread (locks (sys_kernel S) l) = Some (currentThread (sys_kernel S))} = held (pcs S (currentThread (sys_kernel S)))"
proof -
  let ?k = "sys_kernel S"
  have "unqueued ?k" using kinv_top(5) [OF sys_typedD(1) [OF assms(1)] assms(2)] cur_free_unqueued by simp
  then have "own_locks ?k = {l. ownerThread (locks ?k l) = Some (currentThread ?k)}" by (auto simp: hold_def unqueued_def)
  then show ?thesis using user_own [OF assms] by simp
qed

text \<open>A thread that is elsewhere has the locks of its location too, up to the ones it has asked for last.\<close>

lemma owns_entered:
  assumes "sys_typed S" "l \<in> held (pcs S u)" "l \<notin> entry (pcs S u)"
  shows "ownerThread (locks (sys_kernel S) l) = Some u"
proof -
  let ?k = "sys_kernel S"
  note S = sys_typedD [OF assms(1)]
  have "l \<notin> waiting ?k u" using S(5) [of u] assms(3) by blast
  moreover have "l \<in> until_user (list_lock ?k) (kstack ?k u) (hold (locks ?k) u)"
    using assms(2) S(2) [of u] by (simp add: lock_view_def)
  then have "l \<in> hold (locks ?k) u \<or> Call (Acquire l) \<in> set (kstack ?k u)"
    using until_user_plain [OF S(3)] by blast
  ultimately show ?thesis by (auto simp: waiting_def hold_def)
qed

lemma user_excludes:
  assumes "sys_typed S" "cur_stack (sys_kernel S) = User # fs" "u \<noteq> currentThread (sys_kernel S)"
    "l \<in> held (pcs S (currentThread (sys_kernel S)))" "l \<in> held (pcs S u)"
  shows "l \<in> entry (pcs S u)"
proof (rule ccontr)
  assume "l \<notin> entry (pcs S u)"
  then have "ownerThread (locks (sys_kernel S) l) = Some u" using owns_entered [OF assms(1,5)] by blast
  moreover have "ownerThread (locks (sys_kernel S) l) = Some (currentThread (sys_kernel S))" using owns_held [OF assms(1,2)] assms(4) by blast
  ultimately show False using assms(3) by simp
qed

end

section \<open>Lock order\<close>

text \<open>
  A typed program that, while it waits for a lock, holds besides it only locks of lower rank.
  \<^verbatim>\<open>Wait\<close> counts too: it acquires its lock again before it returns.
\<close>

locale lock_order = lock_typing code held "entry" for code :: "('p, 's) code" and held "entry" :: "'p \<Rightarrow> lid set" +
  fixes rank :: "lid \<Rightarrow> nat"
  assumes order: "l \<in> entry p \<Longrightarrow> m \<in> held p \<Longrightarrow> m \<noteq> l \<Longrightarrow> rank m < rank l"
begin

text \<open>Along a chain of threads that wait for each other the ranks of the locks grow, so it never closes.\<close>

lemma owner_rank:
  assumes "sys_typed S" "ownerThread (locks (sys_kernel S) m) = Some u" "u \<in> set (lock_waitQueue (locks (sys_kernel S) n))"
  shows "rank m < rank n"
proof -
  let ?k = "sys_kernel S"
  note S = sys_typedD [OF assms(1)]
  have "m \<in> hold (locks ?k) u" using assms(2) by (simp add: hold_def)
  then have "m \<in> held (pcs S u)"
    using plain_until_user [OF S(3), where H = "hold (locks ?k) u" and L = "list_lock ?k"] S(2) unfolding lock_view_def by blast
  moreover have "n \<in> entry (pcs S u)" using assms(3) S(5) by (auto simp: waiting_def)
  moreover have "m \<noteq> n" using assms(2,3) S(4) unfolding owner_free_def by blast
  ultimately show ?thesis using order by blast
qed

lemma no_circular_wait:
  assumes "sys_typed S"
  shows "\<not> (waits_for (sys_kernel S))\<^sup>+\<^sup>+ t t"
proof
  let ?k = "sys_kernel S"
  have chain: "\<exists>l m. t \<in> set (lock_waitQueue (locks ?k l)) \<and> ownerThread (locks ?k m) = Some u \<and> rank l \<le> rank m"
    if "(waits_for ?k)\<^sup>+\<^sup>+ t u" for u
    using that
  proof induction
    case (base u)
    then show ?case unfolding waits_for_def by (metis order_refl)
  next
    case (step u v)
    then obtain l m n where "t \<in> set (lock_waitQueue (locks ?k l))" "ownerThread (locks ?k m) = Some u" "rank l \<le> rank m"
        "u \<in> set (lock_waitQueue (locks ?k n))" "ownerThread (locks ?k n) = Some v"
      unfolding waits_for_def by blast
    moreover have "rank m < rank n" by (rule owner_rank [OF assms]) fact+
    ultimately show ?case by (metis order_trans less_imp_le)
  qed
  assume "(waits_for ?k)\<^sup>+\<^sup>+ t t"
  from chain [OF this] obtain l m where "t \<in> set (lock_waitQueue (locks ?k l))" "ownerThread (locks ?k m) = Some t" "rank l \<le> rank m"
    by blast
  then show False using owner_rank [OF assms, of m t l] by simp
qed

end

section \<open>Monitors\<close>

text \<open>
  A typed program in which every condition belongs to one lock. Its runs can then be followed without
  the kernel: a thread executes its code when nobody else has the locks of its location, and \<^verbatim>\<open>Wait\<close> and
  \<^verbatim>\<open>Signal\<close> put it into and take the first thread out of the queue of the condition.
\<close>

fun call_owned :: "(cid \<Rightarrow> lid) \<Rightarrow> kcall \<Rightarrow> bool" where
  "call_owned L (Wait c l) = (l = Some (L c))"
| "call_owned L (Signal c l) = (l = Some (L c))"
| "call_owned L c = True"

type_synonym queues = "cid \<Rightarrow> tid list"

fun call_queues :: "tid \<Rightarrow> kcall \<Rightarrow> queues \<Rightarrow> queues" where
  "call_queues t (Wait c l) q = q(c := q c @ [t])"
| "call_queues t (Signal c l) q = q(c := tl (q c))"
| "call_queues t c q = q"

definition cond_queues :: "Kernel \<Rightarrow> queues" where
  "cond_queues k c = cond_waitQueue (conditions k c)"

locale monitor = lock_typing code held "entry" for code :: "('p, 's) code" and held "entry" :: "'p \<Rightarrow> lid set" +
  fixes cv_lock :: "cid \<Rightarrow> lid"
  assumes owned: "code p s = Inr (Some c, p', s') \<Longrightarrow> call_owned cv_lock c"
begin

definition cond_typed :: "Kernel \<Rightarrow> bool" where
  "cond_typed k \<longleftrightarrow> (\<forall>c. waitLock (conditions k c) \<in> {None, Some (cv_lock c)})"

lemma call_conds_queues:
  assumes "cond_typed k" "objects_ok k" "call_owned cv_lock c" "call_typed c H" "conditions k' = call_conds t c (conditions k)"
  shows "cond_typed k' \<and> cond_queues k' = call_queues t c (cond_queues k)"
proof -
  have w: "waitLock (conditions k x) = None \<or> waitLock (conditions k x) = Some (cv_lock x)" for x
    using assms(1) by (auto simp: cond_typed_def)
  have q: "(waitLock (conditions k x) = None) = (cond_waitQueue (conditions k x) = [])" for x
    using assms(2) unfolding objects_ok_def cond_ok_def by blast
  show ?thesis
  proof (cases c)
    case (Wait x y)
    then have c': "conditions k' = (conditions k)(x := wait_cond t (cv_lock x) (conditions k x))" using assms(3,5) by simp
    have "waitLock (wait_cond t (cv_lock x) (conditions k x)) = Some (cv_lock x)"
      "cond_waitQueue (wait_cond t (cv_lock x) (conditions k x)) = cond_waitQueue (conditions k x) @ [t]"
      using w [of x] by (auto simp: wait_cond_def Let_def)
    then show ?thesis using Wait w c' by (auto simp: cond_typed_def cond_queues_def fun_eq_iff)
  next
    case (Signal x y)
    have y: "y = Some (cv_lock x)" using assms(3) Signal by simp
    show ?thesis
    proof (cases "cond_waitQueue (conditions k x)")
      case Nil
      then show ?thesis using assms(1,5) Signal by (auto simp: signal_cond_def cond_queues_def fun_eq_iff cond_typed_def)
    next
      case (Cons u us)
      then have "waitLock (conditions k x) = Some (cv_lock x)" using w [of x] q [of x] by auto
      then show ?thesis using assms(5) Signal Cons y w by (auto simp: signal_cond_def cond_queues_def fun_eq_iff cond_typed_def)
    qed
  qed (use assms in \<open>auto simp: cond_queues_def cond_typed_def fun_eq_iff\<close>)
qed

text \<open>The thread that runs its own code waits for nothing and is alone with its locks.\<close>

definition alone :: "(tid \<Rightarrow> 'p) \<Rightarrow> queues \<Rightarrow> tid \<Rightarrow> bool" where
  "alone ps q t \<longleftrightarrow> (\<forall>c. t \<notin> set (q c)) \<and> (\<forall>u l. u \<noteq> t \<longrightarrow> l \<in> held (ps t) \<longrightarrow> l \<in> held (ps u) \<longrightarrow> l \<in> entry (ps u))"

lemma user_alone:
  assumes "sys_typed S" "cur_stack (sys_kernel S) = User # fs"
  shows "alone (pcs S) (cond_queues (sys_kernel S)) (currentThread (sys_kernel S))"
proof -
  have "cur_free (sys_kernel S)" using kinv_top(5) [OF sys_typedD(1) [OF assms(1)] assms(2)] by simp
  then have "currentThread (sys_kernel S) \<notin> set (cond_queues (sys_kernel S) c)" for c
    unfolding no_place_def cond_queues_def by (metis place_list.simps(4))
  then show ?thesis using user_excludes [OF assms] unfolding alone_def by blast
qed

lemma monitor_rule:
  assumes run: "kernel_devices run" and S0: "sys_typed S0" "cond_typed (sys_kernel S0)" "I (pcs S0) (shared S0) (cond_queues (sys_kernel S0))"
    and call: "\<And>ps s q t c p' s'. I ps s q \<Longrightarrow> alone ps q t \<Longrightarrow> code (ps t) s = Inr (Some c, p', s') \<Longrightarrow> I (ps(t := p')) s' (call_queues t c q)"
    and return: "\<And>ps s q t p' s'. I ps s q \<Longrightarrow> alone ps q t \<Longrightarrow> code (ps t) s = Inr (None, p', s') \<Longrightarrow> I (ps(t := p')) s' q"
    and S: "sys_reaches run code S0 S"
  shows "sys_typed S \<and> cond_typed (sys_kernel S) \<and> I (pcs S) (shared S) (cond_queues (sys_kernel S))"
  using S
proof induction
  case start
  then show ?case using S0 by blast
next
  case (step S S')
  then have S: "sys_typed S" "cond_typed (sys_kernel S)" "I (pcs S) (shared S) (cond_queues (sys_kernel S))" by blast+
  have S': "sys_typed S'" by (rule step_typed [OF run step.hyps(2) S(1)])
  note D = sys_typedD [OF S(1)]
  show ?case
    using step.hyps(2)
  proof (cases rule: sys_step_cases)
    case (call fs c p s k1)
    have "conditions k1 = call_conds (currentThread (sys_kernel S)) c (conditions (sys_kernel S))"
      using call_acts [OF run S(1) call(1-4)] by (simp add: acts_def)
    moreover have "objects_ok (sys_kernel S)" using D(1) by (simp add: kinv_def)
    ultimately have "cond_typed k1 \<and> cond_queues k1 = call_queues (currentThread (sys_kernel S)) c (cond_queues (sys_kernel S))"
      using call_conds_queues [OF S(2) _ owned [OF call(2)]] call_ok [OF call(2)] by blast
    then show ?thesis using S' assms(5) [OF S(3) user_alone [OF S(1) call(1)] call(2)]
      unfolding call(5) System.simps by metis
  next
    case (return fs p s)
    have "conditions (pop (sys_kernel S)) = conditions (sys_kernel S)" by (simp add: pop_def)
    then have "cond_typed (pop (sys_kernel S)) \<and> cond_queues (pop (sys_kernel S)) = cond_queues (sys_kernel S)"
      using S(2) by (simp add: cond_typed_def cond_queues_def fun_eq_iff)
    then show ?thesis using S' assms(6) [OF S(3) user_alone [OF S(1) return(1)] return(2)]
      unfolding return(3) System.simps by metis
  next
    case (kernel f fs k1)
    have "conditions k1 = conditions (sys_kernel S)" by (rule kernel_devices.kernel_step_views(5) [OF run D(1) kernel(1-3) D(3)])
    then have "cond_typed k1 \<and> cond_queues k1 = cond_queues (sys_kernel S)"
      using S(2) by (simp add: cond_typed_def cond_queues_def fun_eq_iff)
    then show ?thesis using S' S(3) kernel(4) by simp
  qed
qed

end

end
