(* ===== verification/Nachos_TestSuite.thy ===== *)
theory Nachos_TestSuite
  imports Nachos_Program
begin

text \<open>
  The test suite of \<^verbatim>\<open>threads/threadtest.cc\<close>: five tests of locks and condition variables, run by \<^verbatim>\<open>nachos -T\<close>. The body of a thread is the sequence
  of its kernel calls, each with what is printed before it; loops with constant bounds are written with \<open>replicate\<close> and loops that only pass
  time are left out. What is printed is a list of lines.
\<close>

section \<open>The threads\<close>


















section \<open>The suite\<close>








section \<open>Evaluation\<close>





















section \<open>Properties\<close>


end
