(* ===== verification/Nachos_Hospital.thy ===== *)
theory Nachos_Hospital
  imports Nachos_Program
begin

text \<open>
  \<^verbatim>\<open>threads/threadtest.cc\<close>: the hospital simulation, a program of 31 threads over the locks and condition
  variables of the kernel. One function per actor; a location stands between two kernel calls and its
  arguments are the local variables still needed, so each equation is a stretch of the source that ends
  in a call of \<^verbatim>\<open>Acquire\<close>, \<^verbatim>\<open>Release\<close>, \<^verbatim>\<open>Wait\<close>, \<^verbatim>\<open>Signal\<close> or \<^verbatim>\<open>Yield\<close>. Messages are left out. \<^verbatim>\<open>rand()\<close> is a stream of
  numbers with a position. Locks and conditions are numbered, the ones in arrays by their index.
\<close>

section \<open>Data\<close>

definition NUMBER_OF_PATIENTS :: nat where "NUMBER_OF_PATIENTS = 10"
definition NUMBER_OF_RECEPTIONISTS :: nat where "NUMBER_OF_RECEPTIONISTS = 5"
definition DOCTORS_COUNT :: nat where "DOCTORS_COUNT = 3"
definition DOORBOYS_COUNT :: nat where "DOORBOYS_COUNT = 5"
definition CASHIERS_COUNT :: nat where "CASHIERS_COUNT = 3"
definition NUMBER_OF_PHARMACISTS :: nat where "NUMBER_OF_PHARMACISTS = 3"

lemmas hospital_sizes = NUMBER_OF_PATIENTS_def NUMBER_OF_RECEPTIONISTS_def DOCTORS_COUNT_def DOORBOYS_COUNT_def
  CASHIERS_COUNT_def NUMBER_OF_PHARMACISTS_def

definition random_number_lock :: lid where "random_number_lock = 0"
definition patient_count_mutex :: lid where "patient_count_mutex = 1"
definition receptionist_line_lock :: lid where "receptionist_line_lock = 2"
definition receptionist_token_access_lock :: lid where "receptionist_token_access_lock = 3"
definition doctor_doorboy_lock :: lid where "doctor_doorboy_lock = 4"
definition doorboy_line_lock :: lid where "doorboy_line_lock = 5"
definition cashier_payment_lock :: lid where "cashier_payment_lock = 6"
definition cashier_line_lock :: lid where "cashier_line_lock = 7"
definition pharmacist_payment_lock :: lid where "pharmacist_payment_lock = 8"
definition pharmacist_line_lock :: lid where "pharmacist_line_lock = 9"
definition receptionist_lock :: "nat \<Rightarrow> lid" where "receptionist_lock i = 10 + 4 * i"
definition doctor_lock :: "nat \<Rightarrow> lid" where "doctor_lock i = 11 + 4 * i"
definition cashier_lock :: "nat \<Rightarrow> lid" where "cashier_lock i = 12 + 4 * i"
definition pharmacist_lock :: "nat \<Rightarrow> lid" where "pharmacist_lock i = 13 + 4 * i"

lemmas hospital_locks = random_number_lock_def patient_count_mutex_def receptionist_line_lock_def
  receptionist_token_access_lock_def doctor_doorboy_lock_def doorboy_line_lock_def cashier_payment_lock_def
  cashier_line_lock_def pharmacist_payment_lock_def pharmacist_line_lock_def receptionist_lock_def doctor_lock_def
  cashier_lock_def pharmacist_lock_def

definition receptionist_break_cv :: cid where "receptionist_break_cv = 0"
definition doorboy_break_cv :: cid where "doorboy_break_cv = 1"
definition patient_read_next_available_doctor_cv :: cid where "patient_read_next_available_doctor_cv = 2"
definition doorboy_line_empty_cv :: cid where "doorboy_line_empty_cv = 3"
definition doorboy_line_full_cv :: cid where "doorboy_line_full_cv = 4"
definition doctor_available_cv :: cid where "doctor_available_cv = 5"
definition cashier_break_cv :: cid where "cashier_break_cv = 6"
definition cashier_line_empty_cv :: cid where "cashier_line_empty_cv = 7"
definition pharmacist_break_cv :: cid where "pharmacist_break_cv = 8"
definition pharmacist_line_empty_cv :: cid where "pharmacist_line_empty_cv = 9"
definition receptionist_line_empty_cv :: "nat \<Rightarrow> cid" where "receptionist_line_empty_cv i = 10 + 6 * i"
definition receptionist_line_full_cv :: "nat \<Rightarrow> cid" where "receptionist_line_full_cv i = 11 + 6 * i"
definition receptionist_cv :: "nat \<Rightarrow> cid" where "receptionist_cv i = 12 + 6 * i"
definition doctor_cv :: "nat \<Rightarrow> cid" where "doctor_cv i = 13 + 6 * i"
definition cashier_cv :: "nat \<Rightarrow> cid" where "cashier_cv i = 14 + 6 * i"
definition pharmacist_cv :: "nat \<Rightarrow> cid" where "pharmacist_cv i = 15 + 6 * i"

lemmas hospital_conditions = receptionist_break_cv_def doorboy_break_cv_def patient_read_next_available_doctor_cv_def
  doorboy_line_empty_cv_def doorboy_line_full_cv_def doctor_available_cv_def cashier_break_cv_def cashier_line_empty_cv_def
  pharmacist_break_cv_def pharmacist_line_empty_cv_def receptionist_line_empty_cv_def receptionist_line_full_cv_def
  receptionist_cv_def doctor_cv_def cashier_cv_def pharmacist_cv_def

record Hospital =
  patients_in_system :: int
  next_receptionist_token :: int
  receptionist_token_bucket :: "int list"
  receptionist_line_length :: "int list"
  receptionist_state :: "int list"
  doctor_state :: "int list"
  number_of_patients_in_doorboy_line :: int
  number_of_available_doctors :: int
  next_available_doctor :: int
  patient_doctor_bucket :: "int list"
  patient_consultancy_fee :: "int list"
  total_cashier_fee :: int
  cashier_available_count :: int
  number_of_patients_in_cashier_line :: int
  cashier_state :: "int list"
  patient_cashier_bucket :: "int list"
  total_pharmacsit_money_collected :: int
  pharmacist_available_count :: int
  pharmacist_line_length :: int
  pharmacist_status :: "int list"
  to_pharmacist_patient_token_bucket :: "int list"
  to_pharmacist_prescription_bucket :: "int list"
  to_patient_medicine_bucket :: "int list"
  to_patient_medicine_bill_bucket :: "int list"
  to_pharmacist_medicine_payment_bucket :: "int list"
  rands :: "nat \<Rightarrow> nat"
  rand_pos :: nat

definition consultation_cost :: "int list" where "consultation_cost = [25, 35, 45, 55, 65]"
definition medicine_costs :: "int list" where "medicine_costs = [0, 15, 20, 25, 30]"

text \<open>\<^verbatim>\<open>diseases\<close> and \<^verbatim>\<open>medicines\<close> are only printed; what matters is that an index is one of their five.\<close>

definition diseases_count :: nat where "diseases_count = 5"

text \<open>Array accesses.\<close>

definition aget :: "int list \<Rightarrow> int \<Rightarrow> int res" where
  "aget xs i = (if 0 \<le> i \<and> i < int (length xs) then Inr (xs ! nat i) else Inl Undefined)"

definition aset :: "int list \<Rightarrow> int \<Rightarrow> int \<Rightarrow> int list res" where
  "aset xs i v = (if 0 \<le> i \<and> i < int (length xs) then Inr (xs[nat i := v]) else Inl Undefined)"

text \<open>The index of an object in an array of \<open>n\<close> locks or conditions.\<close>

definition obj :: "nat \<Rightarrow> int \<Rightarrow> nat res" where
  "obj n i = (if 0 \<le> i \<and> i < int n then Inr (nat i) else Inl Undefined)"

definition rand :: "Hospital \<Rightarrow> int \<times> Hospital" where
  "rand s = (int (rands s (rand_pos s)), s\<lparr>rand_pos := rand_pos s + 1\<rparr>)"

definition fill_array :: "nat \<Rightarrow> int \<Rightarrow> int list" where
  "fill_array n v = replicate n v"

text \<open>The global variables before \<^verbatim>\<open>initialize\<close>; arrays without initialiser are zero.\<close>

definition hospital_globals :: "(nat \<Rightarrow> nat) \<Rightarrow> Hospital" where
  "hospital_globals r = \<lparr>patients_in_system = int NUMBER_OF_PATIENTS, next_receptionist_token = 0,
     receptionist_token_bucket = replicate NUMBER_OF_RECEPTIONISTS 0, receptionist_line_length = replicate NUMBER_OF_RECEPTIONISTS 0,
     receptionist_state = replicate NUMBER_OF_RECEPTIONISTS 0, doctor_state = replicate DOCTORS_COUNT 0,
     number_of_patients_in_doorboy_line = 0, number_of_available_doctors = 0, next_available_doctor = - 2,
     patient_doctor_bucket = replicate DOCTORS_COUNT 0, patient_consultancy_fee = replicate NUMBER_OF_PATIENTS 0,
     total_cashier_fee = 0, cashier_available_count = 0, number_of_patients_in_cashier_line = 0,
     cashier_state = replicate CASHIERS_COUNT 0, patient_cashier_bucket = replicate CASHIERS_COUNT 0,
     total_pharmacsit_money_collected = 0, pharmacist_available_count = 0, pharmacist_line_length = 0,
     pharmacist_status = replicate NUMBER_OF_PHARMACISTS 0,
     to_pharmacist_patient_token_bucket = replicate NUMBER_OF_PHARMACISTS 0,
     to_pharmacist_prescription_bucket = replicate NUMBER_OF_PHARMACISTS 0,
     to_patient_medicine_bucket = replicate NUMBER_OF_PHARMACISTS 0,
     to_patient_medicine_bill_bucket = replicate NUMBER_OF_PHARMACISTS 0,
     to_pharmacist_medicine_payment_bucket = replicate NUMBER_OF_PHARMACISTS 0, rands = r, rand_pos = 0\<rparr>"

text \<open>\<^verbatim>\<open>initialize\<close>; the locks and conditions it creates are the numbered ones above.\<close>

definition initialize :: "Hospital \<Rightarrow> Hospital" where
  "initialize s = s\<lparr>receptionist_state := fill_array NUMBER_OF_RECEPTIONISTS 1,
     receptionist_token_bucket := fill_array NUMBER_OF_RECEPTIONISTS (- 1),
     doctor_state := fill_array DOCTORS_COUNT 1,
     patient_doctor_bucket := fill_array DOCTORS_COUNT (- 2),
     patient_consultancy_fee := fill_array NUMBER_OF_PATIENTS (- 2),
     cashier_state := fill_array CASHIERS_COUNT 1,
     patient_cashier_bucket := fill_array CASHIERS_COUNT (- 2),
     pharmacist_status := fill_array NUMBER_OF_PHARMACISTS 1,
     to_pharmacist_patient_token_bucket := fill_array NUMBER_OF_PHARMACISTS (- 2),
     to_pharmacist_prescription_bucket := fill_array NUMBER_OF_PHARMACISTS (- 2),
     to_patient_medicine_bucket := fill_array NUMBER_OF_PHARMACISTS (- 2),
     to_patient_medicine_bill_bucket := fill_array NUMBER_OF_PHARMACISTS (- 2),
     to_pharmacist_medicine_payment_bucket := fill_array NUMBER_OF_PHARMACISTS (- 2)\<rparr>"

text \<open>The loops that look for a free colleague: the first index with state 0, or -2.\<close>

fun find_free :: "int list \<Rightarrow> int \<Rightarrow> int" where
  "find_free [] i = - 2"
| "find_free (x # xs) i = (if x = 0 then i else find_free xs (i + 1))"

fun shortest_line :: "int list \<Rightarrow> int \<Rightarrow> int \<Rightarrow> int \<Rightarrow> int" where
  "shortest_line [] i len idx = idx"
| "shortest_line (x # xs) i len idx =
     (if x = 0 then i else if x < len then shortest_line xs (i + 1) x i else shortest_line xs (i + 1) len idx)"

section \<open>Actors\<close>

abbreviation call :: "kcall \<Rightarrow> 'p \<Rightarrow> 's \<Rightarrow> (kcall option \<times> 'p \<times> 's) res" where
  "call c p s \<equiv> Inr (Some c, p, s)"

abbreviation wait_on :: "cid \<Rightarrow> lid \<Rightarrow> kcall" where "wait_on c l \<equiv> Wait c (Some l)"
abbreviation signal_on :: "cid \<Rightarrow> lid \<Rightarrow> kcall" where "signal_on c l \<equiv> Signal c (Some l)"

datatype receptionist_pc = R_start | R_line | R_called | R_leave | R_desk | R_token | R_tell | R_wait | R_back | R_check | R_break

text \<open>
  The test \<^verbatim>\<open>receptionist_line_length == 0\<close> compares the address of the array, which is never null.
\<close>

definition receptionist_line_length_is_null :: bool where "receptionist_line_length_is_null = False"

primrec receptionist :: "int \<Rightarrow> receptionist_pc \<Rightarrow> Hospital \<Rightarrow> (kcall option \<times> receptionist_pc \<times> Hospital) res" where
  "receptionist i R_start s = call (Acquire receptionist_line_lock) R_line s"
| "receptionist i R_line s =
     andThen (obj NUMBER_OF_RECEPTIONISTS i) (\<lambda>n.
     andThen (aget (receptionist_line_length s) i) (\<lambda>len.
       if len = 0 then
         andThen (aset (receptionist_state s) i 0) (\<lambda>st.
           call (wait_on (receptionist_line_empty_cv n) receptionist_line_lock) R_line (s\<lparr>receptionist_state := st\<rparr>))
       else
         andThen (aset (receptionist_state s) i 1) (\<lambda>st.
           call (signal_on (receptionist_line_full_cv n) receptionist_line_lock) R_called (s\<lparr>receptionist_state := st\<rparr>))))"
| "receptionist i R_called s = call (Release receptionist_line_lock) R_leave s"
| "receptionist i R_leave s =
     andThen (obj NUMBER_OF_RECEPTIONISTS i) (\<lambda>n. call (Acquire (receptionist_lock n)) R_desk s)"
| "receptionist i R_desk s =
     andThen (obj NUMBER_OF_RECEPTIONISTS i) (\<lambda>n.
     andThen (aget (receptionist_token_bucket s) i) (\<lambda>b.
       if b \<noteq> - 1 then call (wait_on (receptionist_cv n) (receptionist_lock n)) R_desk s
       else call (Acquire receptionist_token_access_lock) R_token s))"
| "receptionist i R_token s =
     andThen (aset (receptionist_token_bucket s) i (next_receptionist_token s)) (\<lambda>b.
       call (Release receptionist_token_access_lock) R_tell
         (s\<lparr>receptionist_token_bucket := b, next_receptionist_token := next_receptionist_token s + 1\<rparr>))"
| "receptionist i R_tell s =
     andThen (obj NUMBER_OF_RECEPTIONISTS i) (\<lambda>n. call (signal_on (receptionist_cv n) (receptionist_lock n)) R_wait s)"
| "receptionist i R_wait s =
     andThen (obj NUMBER_OF_RECEPTIONISTS i) (\<lambda>n.
     andThen (aget (receptionist_token_bucket s) i) (\<lambda>b.
       if b \<noteq> - 1 then call (wait_on (receptionist_cv n) (receptionist_lock n)) R_wait s
       else call (Release (receptionist_lock n)) R_back s))"
| "receptionist i R_back s = call (Acquire receptionist_line_lock) R_check s"
| "receptionist i R_check s =
     (if receptionist_line_length_is_null then
        andThen (aset (receptionist_state s) i 2) (\<lambda>st.
          call (wait_on receptionist_break_cv receptionist_line_lock) R_break (s\<lparr>receptionist_state := st\<rparr>))
      else call (Release receptionist_line_lock) R_start s)"
| "receptionist i R_break s =
     andThen (aset (receptionist_state s) i 1) (\<lambda>st.
       call (Release receptionist_line_lock) R_start (s\<lparr>receptionist_state := st\<rparr>))"

text \<open>
  The arguments of the locations of a patient: the receptionist, token, doctor, diagnosis, cashier and
  pharmacist that the code after it still uses.
\<close>

datatype patient_pc =
    P_arrive | P_line | P_queue int | P_called int | P_leave int | P_desk int | P_thank int int
  | P_door int | P_door_line int | P_door_wait int | P_door_read int | P_door_leave int int
  | P_doc int int | P_doc_in int int | P_doc_sit int int | P_doc_hear int int | P_doc_leave int int int
  | P_cash int int | P_cash_line int int | P_cash_wait int int | P_cash_go int int int | P_cash_in int int int
  | P_cash_tell int int int | P_cash_pay int int int | P_cash_leave int int int
  | P_pharm int int | P_pharm_line int int | P_pharm_wait int int | P_pharm_go int int int | P_pharm_in int int int
  | P_pharm_tell int int int | P_pharm_pay int | P_pharm_leave int
  | P_exit | P_count | P_done

text \<open>Choosing a free cashier or pharmacist, or waiting for one.\<close>

definition choose_cashier :: "int \<Rightarrow> int \<Rightarrow> Hospital \<Rightarrow> (kcall option \<times> patient_pc \<times> Hospital) res" where
  "choose_cashier token diag s =
     (if cashier_available_count s = 0 then call (wait_on cashier_line_empty_cv cashier_line_lock) (P_cash_wait token diag) s
      else
        let c = find_free (cashier_state s) 0 in
        andThen (ASSERT (c \<noteq> - 2)) (\<lambda>_.
        andThen (aset (cashier_state s) c 1) (\<lambda>st.
          call (Release cashier_line_lock) (P_cash_go token diag c)
            (s\<lparr>number_of_patients_in_cashier_line := number_of_patients_in_cashier_line s - 1, cashier_state := st,
               cashier_available_count := cashier_available_count s - 1\<rparr>))))"

definition choose_pharmacist :: "int \<Rightarrow> int \<Rightarrow> Hospital \<Rightarrow> (kcall option \<times> patient_pc \<times> Hospital) res" where
  "choose_pharmacist token diag s =
     (if pharmacist_available_count s = 0 then
        call (wait_on pharmacist_line_empty_cv pharmacist_line_lock) (P_pharm_wait token diag) s
      else
        let c = find_free (pharmacist_status s) 0 in
        andThen (ASSERT (c \<noteq> - 2)) (\<lambda>_.
        andThen (aset (pharmacist_status s) c 1) (\<lambda>st.
          call (Release pharmacist_line_lock) (P_pharm_go token diag c)
            (s\<lparr>pharmacist_line_length := pharmacist_line_length s - 1, pharmacist_status := st,
               pharmacist_available_count := pharmacist_available_count s - 1\<rparr>))))"

primrec patient :: "patient_pc \<Rightarrow> Hospital \<Rightarrow> (kcall option \<times> patient_pc \<times> Hospital) res" where
  "patient P_arrive s = call (Acquire receptionist_line_lock) P_line s"
| "patient P_line s =
     andThen (aget (receptionist_line_length s) 0) (\<lambda>len0.
     let r = shortest_line (receptionist_line_length s) 0 len0 0 in
     andThen (obj NUMBER_OF_RECEPTIONISTS r) (\<lambda>n.
     andThen (aget (receptionist_line_length s) r) (\<lambda>len.
     andThen (aset (receptionist_line_length s) r (len + 1)) (\<lambda>lens.
       call (signal_on (receptionist_line_empty_cv n) receptionist_line_lock) (P_queue r)
         (s\<lparr>receptionist_line_length := lens\<rparr>)))))"
| "patient (P_queue r) s =
     andThen (obj NUMBER_OF_RECEPTIONISTS r) (\<lambda>n.
       call (wait_on (receptionist_line_full_cv n) receptionist_line_lock) (P_called r) s)"
| "patient (P_called r) s =
     andThen (aget (receptionist_line_length s) r) (\<lambda>len.
     andThen (aset (receptionist_line_length s) r (len - 1)) (\<lambda>lens.
       call (Release receptionist_line_lock) (P_leave r) (s\<lparr>receptionist_line_length := lens\<rparr>)))"
| "patient (P_leave r) s =
     andThen (obj NUMBER_OF_RECEPTIONISTS r) (\<lambda>n. call (Acquire (receptionist_lock n)) (P_desk r) s)"
| "patient (P_desk r) s =
     andThen (obj NUMBER_OF_RECEPTIONISTS r) (\<lambda>n.
     andThen (aget (receptionist_token_bucket s) r) (\<lambda>b.
       if b = - 1 then call (wait_on (receptionist_cv n) (receptionist_lock n)) (P_desk r) s
       else
         andThen (aset (receptionist_token_bucket s) r (- 1)) (\<lambda>bs.
           call (signal_on (receptionist_cv n) (receptionist_lock n)) (P_thank r b) (s\<lparr>receptionist_token_bucket := bs\<rparr>))))"
| "patient (P_thank r token) s =
     andThen (obj NUMBER_OF_RECEPTIONISTS r) (\<lambda>n. call (Release (receptionist_lock n)) (P_door token) s)"
| "patient (P_door token) s = call (Acquire doorboy_line_lock) (P_door_line token) s"
| "patient (P_door_line token) s =
     call (signal_on doorboy_line_full_cv doorboy_line_lock) (P_door_wait token)
       (s\<lparr>number_of_patients_in_doorboy_line := number_of_patients_in_doorboy_line s + 1\<rparr>)"
| "patient (P_door_wait token) s = call (wait_on doorboy_line_empty_cv doorboy_line_lock) (P_door_read token) s"
| "patient (P_door_read token) s =
     call (signal_on patient_read_next_available_doctor_cv doorboy_line_lock)
       (P_door_leave token (next_available_doctor s)) (s\<lparr>next_available_doctor := - 2\<rparr>)"
| "patient (P_door_leave token d) s = call (Release doorboy_line_lock) (P_doc token d) s"
| "patient (P_doc token d) s =
     andThen (ASSERT (d \<noteq> - 2)) (\<lambda>_.
     andThen (obj DOCTORS_COUNT d) (\<lambda>n. call (Acquire (doctor_lock n)) (P_doc_in token d) s))"
| "patient (P_doc_in token d) s =
     andThen (obj DOCTORS_COUNT d) (\<lambda>n. call (signal_on (doctor_cv n) (doctor_lock n)) (P_doc_sit token d) s)"
| "patient (P_doc_sit token d) s =
     andThen (obj DOCTORS_COUNT d) (\<lambda>n.
     andThen (aset (patient_doctor_bucket s) d token) (\<lambda>b.
       call (wait_on (doctor_cv n) (doctor_lock n)) (P_doc_hear token d) (s\<lparr>patient_doctor_bucket := b\<rparr>)))"
| "patient (P_doc_hear token d) s =
     andThen (obj DOCTORS_COUNT d) (\<lambda>n.
     andThen (aget (patient_doctor_bucket s) d) (\<lambda>diag.
     andThen (obj diseases_count diag) (\<lambda>_.
     andThen (aset (patient_doctor_bucket s) d (- 2)) (\<lambda>b.
       call (signal_on (doctor_cv n) (doctor_lock n)) (P_doc_leave token d diag) (s\<lparr>patient_doctor_bucket := b\<rparr>)))))"
| "patient (P_doc_leave token d diag) s =
     andThen (obj DOCTORS_COUNT d) (\<lambda>n. call (Release (doctor_lock n)) (P_cash token diag) s)"
| "patient (P_cash token diag) s = call (Acquire cashier_line_lock) (P_cash_line token diag) s"
| "patient (P_cash_line token diag) s =
     choose_cashier token diag (s\<lparr>number_of_patients_in_cashier_line := number_of_patients_in_cashier_line s + 1\<rparr>)"
| "patient (P_cash_wait token diag) s = choose_cashier token diag s"
| "patient (P_cash_go token diag c) s =
     andThen (obj CASHIERS_COUNT c) (\<lambda>n. call (Acquire (cashier_lock n)) (P_cash_in token diag c) s)"
| "patient (P_cash_in token diag c) s =
     andThen (obj CASHIERS_COUNT c) (\<lambda>n. call (signal_on (cashier_cv n) (cashier_lock n)) (P_cash_tell token diag c) s)"
| "patient (P_cash_tell token diag c) s =
     andThen (obj CASHIERS_COUNT c) (\<lambda>n.
     andThen (aset (patient_cashier_bucket s) c token) (\<lambda>b.
       call (wait_on (cashier_cv n) (cashier_lock n)) (P_cash_pay token diag c) (s\<lparr>patient_cashier_bucket := b\<rparr>)))"
| "patient (P_cash_pay token diag c) s =
     andThen (obj CASHIERS_COUNT c) (\<lambda>n.
     andThen (aset (patient_cashier_bucket s) c (- 2)) (\<lambda>b.
       call (signal_on (cashier_cv n) (cashier_lock n)) (P_cash_leave token diag c) (s\<lparr>patient_cashier_bucket := b\<rparr>)))"
| "patient (P_cash_leave token diag c) s =
     andThen (obj CASHIERS_COUNT c) (\<lambda>n. call (Release (cashier_lock n)) (P_pharm token diag) s)"
| "patient (P_pharm token diag) s = call (Acquire pharmacist_line_lock) (P_pharm_line token diag) s"
| "patient (P_pharm_line token diag) s =
     choose_pharmacist token diag (s\<lparr>pharmacist_line_length := pharmacist_line_length s + 1\<rparr>)"
| "patient (P_pharm_wait token diag) s = choose_pharmacist token diag s"
| "patient (P_pharm_go token diag c) s =
     andThen (obj NUMBER_OF_PHARMACISTS c) (\<lambda>n. call (Acquire (pharmacist_lock n)) (P_pharm_in token diag c) s)"
| "patient (P_pharm_in token diag c) s =
     andThen (obj NUMBER_OF_PHARMACISTS c) (\<lambda>n. call (signal_on (pharmacist_cv n) (pharmacist_lock n)) (P_pharm_tell token diag c) s)"
| "patient (P_pharm_tell token diag c) s =
     andThen (obj NUMBER_OF_PHARMACISTS c) (\<lambda>n.
     andThen (aset (to_pharmacist_patient_token_bucket s) c token) (\<lambda>tb.
     andThen (aset (to_pharmacist_prescription_bucket s) c diag) (\<lambda>pb.
       call (wait_on (pharmacist_cv n) (pharmacist_lock n)) (P_pharm_pay c)
         (s\<lparr>to_pharmacist_patient_token_bucket := tb, to_pharmacist_prescription_bucket := pb\<rparr>))))"
| "patient (P_pharm_pay c) s =
     andThen (obj NUMBER_OF_PHARMACISTS c) (\<lambda>n.
     andThen (aget (to_patient_medicine_bill_bucket s) c) (\<lambda>cost.
     andThen (aset (to_patient_medicine_bucket s) c 0) (\<lambda>mb.
     andThen (aset (to_patient_medicine_bill_bucket s) c (- 2)) (\<lambda>bb.
     andThen (aset (to_pharmacist_medicine_payment_bucket s) c cost) (\<lambda>pb.
       call (signal_on (pharmacist_cv n) (pharmacist_lock n)) (P_pharm_leave c)
         (s\<lparr>to_patient_medicine_bucket := mb, to_patient_medicine_bill_bucket := bb,
            to_pharmacist_medicine_payment_bucket := pb\<rparr>))))))"
| "patient (P_pharm_leave c) s =
     andThen (obj NUMBER_OF_PHARMACISTS c) (\<lambda>n. call (Release (pharmacist_lock n)) P_exit s)"
| "patient P_exit s = call (Acquire patient_count_mutex) P_count s"
| "patient P_count s = call (Release patient_count_mutex) P_done (s\<lparr>patients_in_system := patients_in_system s - 1\<rparr>)"
| "patient P_done s = Inr (None, P_done, s)"

datatype doorboy_pc = B_start | B_line | B_doctor | B_find | B_tell int | B_told | B_confirmed | B_rest | B_end

primrec doorboy :: "doorboy_pc \<Rightarrow> Hospital \<Rightarrow> (kcall option \<times> doorboy_pc \<times> Hospital) res" where
  "doorboy B_start s = call (Acquire doorboy_line_lock) B_line s"
| "doorboy B_line s =
     (if number_of_patients_in_doorboy_line s = 0 then call (wait_on doorboy_line_full_cv doorboy_line_lock) B_line s
      else call (Release doorboy_line_lock) B_doctor
             (s\<lparr>number_of_patients_in_doorboy_line := number_of_patients_in_doorboy_line s - 1\<rparr>))"
| "doorboy B_doctor s = call (Acquire doctor_doorboy_lock) B_find s"
| "doorboy B_find s =
     (if number_of_available_doctors s = 0 then call (wait_on doctor_available_cv doctor_doorboy_lock) B_find s
      else
        let d = find_free (doctor_state s) 0 in
        andThen (ASSERT (d \<noteq> - 2)) (\<lambda>_.
        andThen (aset (doctor_state s) d 1) (\<lambda>st.
          call (Acquire doorboy_line_lock) (B_tell d)
            (s\<lparr>doctor_state := st, number_of_available_doctors := number_of_available_doctors s - 1\<rparr>))))"
| "doorboy (B_tell d) s = call (signal_on doorboy_line_empty_cv doorboy_line_lock) B_told (s\<lparr>next_available_doctor := d\<rparr>)"
| "doorboy B_told s = call (wait_on patient_read_next_available_doctor_cv doorboy_line_lock) B_confirmed s"
| "doorboy B_confirmed s =
     andThen (ASSERT (next_available_doctor s = - 2)) (\<lambda>_. call (Release doctor_doorboy_lock) B_rest s)"
| "doorboy B_rest s =
     (if number_of_patients_in_doorboy_line s = 0 then call (wait_on doorboy_break_cv doorboy_line_lock) B_end s
      else call (Release doorboy_line_lock) B_start s)"
| "doorboy B_end s = call (Release doorboy_line_lock) B_start s"

datatype doctor_pc = D_start | D_avail | D_room | D_ready | D_wait | D_exam | D_dice int | D_think int nat int | D_bye

primrec doctor :: "int \<Rightarrow> doctor_pc \<Rightarrow> Hospital \<Rightarrow> (kcall option \<times> doctor_pc \<times> Hospital) res" where
  "doctor i D_start s = call (Acquire doctor_doorboy_lock) D_avail s"
| "doctor i D_avail s =
     andThen (aset (doctor_state s) i 0) (\<lambda>st.
       call (signal_on doctor_available_cv doctor_doorboy_lock) D_room
         (s\<lparr>doctor_state := st, number_of_available_doctors := number_of_available_doctors s + 1\<rparr>))"
| "doctor i D_room s = andThen (obj DOCTORS_COUNT i) (\<lambda>n. call (Acquire (doctor_lock n)) D_ready s)"
| "doctor i D_ready s = call (Release doctor_doorboy_lock) D_wait s"
| "doctor i D_wait s = andThen (obj DOCTORS_COUNT i) (\<lambda>n. call (wait_on (doctor_cv n) (doctor_lock n)) D_exam s)"
| "doctor i D_exam s =
     andThen (aget (patient_doctor_bucket s) i) (\<lambda>token. call (Acquire random_number_lock) (D_dice token) s)"
| "doctor i (D_dice token) s =
     (let (r1, s1) = rand s; (r2, s2) = rand s1; (r3, s3) = rand s2 in
      call (Release random_number_lock) (D_think token (nat (r1 mod 20 + 10)) (r2 mod 5)) s3)"
| "doctor i (D_think token n sickness) s =
     (case n of Suc m \<Rightarrow> call Yield (D_think token m sickness) s
      | 0 \<Rightarrow>
          andThen (obj DOCTORS_COUNT i) (\<lambda>j.
          andThen (obj diseases_count sickness) (\<lambda>_.
          andThen (aset (patient_doctor_bucket s) i sickness) (\<lambda>b.
          andThen (aset (patient_consultancy_fee s) token sickness) (\<lambda>fee.
            call (signal_on (doctor_cv j) (doctor_lock j)) D_bye
              (s\<lparr>patient_doctor_bucket := b, patient_consultancy_fee := fee\<rparr>))))))"
| "doctor i D_bye s =
     andThen (obj DOCTORS_COUNT i) (\<lambda>n.
     andThen (aget (patient_doctor_bucket s) i) (\<lambda>b.
       if b \<noteq> - 2 then call (wait_on (doctor_cv n) (doctor_lock n)) D_bye s
       else call (Release (doctor_lock n)) D_start s))"

datatype cashier_pc = C_start | C_line | C_break | C_desk | C_ready | C_wait | C_serve | C_charge int | C_pay int | C_end

text \<open>What a cashier does once work is there: from setting the state to 0 to the signal.\<close>

definition cashier_opens :: "int \<Rightarrow> Hospital \<Rightarrow> (kcall option \<times> cashier_pc \<times> Hospital) res" where
  "cashier_opens i s =
     andThen (aset (cashier_state s) i 0) (\<lambda>st.
       call (signal_on cashier_line_empty_cv cashier_line_lock) C_desk
         (s\<lparr>cashier_state := st, cashier_available_count := cashier_available_count s + 1\<rparr>))"

primrec cashier :: "int \<Rightarrow> cashier_pc \<Rightarrow> Hospital \<Rightarrow> (kcall option \<times> cashier_pc \<times> Hospital) res" where
  "cashier i C_start s = call (Acquire cashier_line_lock) C_line s"
| "cashier i C_line s =
     (if number_of_patients_in_cashier_line s = 0 then
        andThen (aset (cashier_state s) i 2) (\<lambda>st.
          call (wait_on cashier_break_cv cashier_line_lock) C_break (s\<lparr>cashier_state := st\<rparr>))
      else cashier_opens i s)"
| "cashier i C_break s = cashier_opens i s"
| "cashier i C_desk s = andThen (obj CASHIERS_COUNT i) (\<lambda>n. call (Acquire (cashier_lock n)) C_ready s)"
| "cashier i C_ready s = call (Release cashier_line_lock) C_wait s"
| "cashier i C_wait s = andThen (obj CASHIERS_COUNT i) (\<lambda>n. call (wait_on (cashier_cv n) (cashier_lock n)) C_serve s)"
| "cashier i C_serve s =
     andThen (obj CASHIERS_COUNT i) (\<lambda>n.
     andThen (aget (patient_cashier_bucket s) i) (\<lambda>token.
     andThen (ASSERT (token \<noteq> - 2)) (\<lambda>_.
     andThen (aget (patient_consultancy_fee s) token) (\<lambda>fee.
     andThen (aset (patient_cashier_bucket s) i fee) (\<lambda>b.
       call (signal_on (cashier_cv n) (cashier_lock n)) (C_charge fee) (s\<lparr>patient_cashier_bucket := b\<rparr>))))))"
| "cashier i (C_charge fee) s =
     andThen (obj CASHIERS_COUNT i) (\<lambda>n.
     andThen (aget (patient_cashier_bucket s) i) (\<lambda>b.
       if b \<noteq> - 2 then call (wait_on (cashier_cv n) (cashier_lock n)) (C_charge fee) s
       else call (Acquire cashier_payment_lock) (C_pay fee) s))"
| "cashier i (C_pay fee) s = call (Release cashier_payment_lock) C_end (s\<lparr>total_cashier_fee := total_cashier_fee s + fee\<rparr>)"
| "cashier i C_end s = andThen (obj CASHIERS_COUNT i) (\<lambda>n. call (Release (cashier_lock n)) C_start s)"

datatype pharmacist_pc = H_start | H_line | H_break | H_desk | H_ready | H_wait | H_serve | H_give | H_paid | H_pay | H_end

definition pharmacist_opens :: "int \<Rightarrow> Hospital \<Rightarrow> (kcall option \<times> pharmacist_pc \<times> Hospital) res" where
  "pharmacist_opens i s =
     andThen (aset (pharmacist_status s) i 0) (\<lambda>st.
       call (signal_on pharmacist_line_empty_cv pharmacist_line_lock) H_desk
         (s\<lparr>pharmacist_status := st, pharmacist_available_count := pharmacist_available_count s + 1\<rparr>))"

primrec pharmacist :: "int \<Rightarrow> pharmacist_pc \<Rightarrow> Hospital \<Rightarrow> (kcall option \<times> pharmacist_pc \<times> Hospital) res" where
  "pharmacist i H_start s = call (Acquire pharmacist_line_lock) H_line s"
| "pharmacist i H_line s =
     (if pharmacist_line_length s = 0 then
        andThen (aset (pharmacist_status s) i 2) (\<lambda>st.
          call (wait_on pharmacist_break_cv pharmacist_line_lock) H_break (s\<lparr>pharmacist_status := st\<rparr>))
      else pharmacist_opens i s)"
| "pharmacist i H_break s = pharmacist_opens i s"
| "pharmacist i H_desk s = andThen (obj NUMBER_OF_PHARMACISTS i) (\<lambda>n. call (Acquire (pharmacist_lock n)) H_ready s)"
| "pharmacist i H_ready s = call (Release pharmacist_line_lock) H_wait s"
| "pharmacist i H_wait s =
     andThen (obj NUMBER_OF_PHARMACISTS i) (\<lambda>n. call (wait_on (pharmacist_cv n) (pharmacist_lock n)) H_serve s)"
| "pharmacist i H_serve s =
     andThen (obj NUMBER_OF_PHARMACISTS i) (\<lambda>n.
     andThen (aget (to_pharmacist_patient_token_bucket s) i) (\<lambda>token.
     andThen (aget (to_pharmacist_prescription_bucket s) i) (\<lambda>prescription.
     andThen (obj diseases_count prescription) (\<lambda>_.
     andThen (aget medicine_costs prescription) (\<lambda>cost.
     andThen (ASSERT (token \<noteq> - 2)) (\<lambda>_.
     andThen (aset (to_pharmacist_prescription_bucket s) i (- 2)) (\<lambda>pb.
     andThen (aset (to_patient_medicine_bucket s) i prescription) (\<lambda>mb.
     andThen (aset (to_patient_medicine_bill_bucket s) i cost) (\<lambda>bb.
       call (signal_on (pharmacist_cv n) (pharmacist_lock n)) H_give
         (s\<lparr>to_pharmacist_prescription_bucket := pb, to_patient_medicine_bucket := mb,
            to_patient_medicine_bill_bucket := bb\<rparr>))))))))))"
| "pharmacist i H_give s =
     andThen (obj NUMBER_OF_PHARMACISTS i) (\<lambda>n. call (wait_on (pharmacist_cv n) (pharmacist_lock n)) H_paid s)"
| "pharmacist i H_paid s = call (Acquire pharmacist_payment_lock) H_pay s"
| "pharmacist i H_pay s =
     andThen (aget (to_pharmacist_medicine_payment_bucket s) i) (\<lambda>pay.
     andThen (ASSERT (pay \<noteq> - 2)) (\<lambda>_.
     andThen (aset (to_pharmacist_medicine_payment_bucket s) i (- 2)) (\<lambda>pb.
       call (Release pharmacist_payment_lock) H_end
         (s\<lparr>total_pharmacsit_money_collected := total_pharmacsit_money_collected s + pay,
            to_pharmacist_medicine_payment_bucket := pb\<rparr>))))"
| "pharmacist i H_end s = andThen (obj NUMBER_OF_PHARMACISTS i) (\<lambda>n. call (Release (pharmacist_lock n)) H_start s)"

text \<open>
  The manager. \<open>M_yield\<close> counts the calls of \<^verbatim>\<open>Yield\<close> that are left; the two flags say which reports he asks for;
  \<open>M_reception i\<close> is the loop over the lines of the receptionists.
\<close>

datatype manager_pc = M_start | M_dice | M_yield nat bool bool | M_count bool bool | M_go bool bool bool
  | M_pharmacy bool | M_fees bool | M_cash | M_lines | M_reception nat
  | M_doorboys | M_doorboys_in | M_doorboys_out | M_cashiers | M_cashiers_in | M_cashiers_out
  | M_pharmacists | M_pharmacists_in | M_pharmacists_out

text \<open>The next receptionist, from \<open>i\<close> on, with more than two patients in line.\<close>

fun long_line :: "int list \<Rightarrow> nat \<Rightarrow> nat" where
  "long_line [] i = i"
| "long_line (x # xs) i = (if x > 2 then i else long_line xs (Suc i))"

primrec hospital_manager :: "manager_pc \<Rightarrow> Hospital \<Rightarrow> (kcall option \<times> manager_pc \<times> Hospital) res" where
  "hospital_manager M_start s = call (Acquire random_number_lock) M_dice s"
| "hospital_manager M_dice s =
     (let (r1, s1) = rand s; (r2, s2) = rand s1; (r3, s3) = rand s2 in
      call (Release random_number_lock) (M_yield (nat (r1 mod 75 + 25)) (r2 mod 2 = 0) (r3 mod 2 = 0)) s3)"
| "hospital_manager (M_yield n cash pharm) s =
     (case n of Suc m \<Rightarrow> call Yield (M_yield m cash pharm) s
      | 0 \<Rightarrow> call (Acquire patient_count_mutex) (M_count cash pharm) s)"
| "hospital_manager (M_count cash pharm) s =
     call (Release patient_count_mutex) (M_go (patients_in_system s \<noteq> 0) cash pharm) s"
| "hospital_manager (M_go continue_running cash pharm) s =
     (if \<not> continue_running then Inr (None, M_go continue_running cash pharm, s)
      else if pharm then call (Acquire pharmacist_payment_lock) (M_pharmacy cash) s
      else if cash then call (Acquire cashier_payment_lock) M_cash s
      else call (Acquire receptionist_line_lock) (M_reception 0) s)"
| "hospital_manager (M_pharmacy cash) s = call (Release pharmacist_payment_lock) (M_fees cash) s"
| "hospital_manager (M_fees cash) s =
     (if cash then call (Acquire cashier_payment_lock) M_cash s else call (Acquire receptionist_line_lock) (M_reception 0) s)"
| "hospital_manager M_cash s = call (Release cashier_payment_lock) M_lines s"
| "hospital_manager M_lines s = call (Acquire receptionist_line_lock) (M_reception 0) s"
| "hospital_manager (M_reception i) s =
     (let j = long_line (drop i (receptionist_line_length s)) i in
      if j < NUMBER_OF_RECEPTIONISTS then call (signal_on receptionist_break_cv receptionist_line_lock) (M_reception (j + 1)) s
      else call (Release receptionist_line_lock) M_doorboys s)"
| "hospital_manager M_doorboys s = call (Acquire doorboy_line_lock) M_doorboys_in s"
| "hospital_manager M_doorboys_in s =
     (if number_of_patients_in_doorboy_line s \<noteq> 0 then call (signal_on doorboy_break_cv doorboy_line_lock) M_doorboys_out s
      else call (Release doorboy_line_lock) M_cashiers s)"
| "hospital_manager M_doorboys_out s = call (Release doorboy_line_lock) M_cashiers s"
| "hospital_manager M_cashiers s = call (Acquire cashier_line_lock) M_cashiers_in s"
| "hospital_manager M_cashiers_in s =
     (if number_of_patients_in_cashier_line s \<noteq> 0 then call (signal_on cashier_break_cv cashier_line_lock) M_cashiers_out s
      else call (Release cashier_line_lock) M_pharmacists s)"
| "hospital_manager M_cashiers_out s = call (Release cashier_line_lock) M_pharmacists s"
| "hospital_manager M_pharmacists s = call (Acquire pharmacist_line_lock) M_pharmacists_in s"
| "hospital_manager M_pharmacists_in s =
     (if pharmacist_line_length s \<noteq> 0 then call (signal_on pharmacist_break_cv pharmacist_line_lock) M_pharmacists_out s
      else call (Release pharmacist_line_lock) M_start s)"
| "hospital_manager M_pharmacists_out s = call (Release pharmacist_line_lock) M_start s"

section \<open>The simulation\<close>

text \<open>
  \<^verbatim>\<open>HmSimulation\<close> runs on the main thread 0: it initialises the arrays and forks the others in this order;
  thread 1 is the first receptionist, thread 30 the last patient. \<open>hospital_role t\<close> is the function thread \<open>t\<close> is
  forked with; there are no threads beyond 30.
\<close>

datatype main_pc = S_init | S_fork nat | S_new nat

definition hospital_threads :: nat where
  "hospital_threads = NUMBER_OF_RECEPTIONISTS + DOORBOYS_COUNT + DOCTORS_COUNT + CASHIERS_COUNT + NUMBER_OF_PHARMACISTS + 1 + NUMBER_OF_PATIENTS"

primrec HmSimulation :: "main_pc \<Rightarrow> Hospital \<Rightarrow> (kcall option \<times> main_pc \<times> Hospital) res" where
  "HmSimulation S_init s = call (NewThread 1) (S_fork 1) (initialize s)"
| "HmSimulation (S_fork t) s = call (Fork t) (S_new (t + 1)) s"
| "HmSimulation (S_new t) s = (if t \<le> hospital_threads then call (NewThread t) (S_fork t) s else Inr (None, S_new t, s))"

datatype actor = Main main_pc | Receptionist int receptionist_pc | Doorboy doorboy_pc | Doctor int doctor_pc | Cashier int cashier_pc
  | Pharmacist int pharmacist_pc | Manager manager_pc | Patient patient_pc

definition as_actor :: "('p \<Rightarrow> actor) \<Rightarrow> (kcall option \<times> 'p \<times> Hospital) res \<Rightarrow> (kcall option \<times> actor \<times> Hospital) res" where
  "as_actor f r = andThen r (\<lambda>(c, p, s). Inr (c, f p, s))"

primrec hospital :: "actor \<Rightarrow> Hospital \<Rightarrow> (kcall option \<times> actor \<times> Hospital) res" where
  "hospital (Main p) s = as_actor Main (HmSimulation p s)"
| "hospital (Receptionist i p) s = as_actor (Receptionist i) (receptionist i p s)"
| "hospital (Doorboy p) s = as_actor Doorboy (doorboy p s)"
| "hospital (Doctor i p) s = as_actor (Doctor i) (doctor i p s)"
| "hospital (Cashier i p) s = as_actor (Cashier i) (cashier i p s)"
| "hospital (Pharmacist i p) s = as_actor (Pharmacist i) (pharmacist i p s)"
| "hospital (Manager p) s = as_actor Manager (hospital_manager p s)"
| "hospital (Patient p) s = as_actor Patient (patient p s)"

definition hospital_role :: "tid \<Rightarrow> actor" where
  "hospital_role t =
     (if t = 0 then Main S_init
      else if t \<le> 5 then Receptionist (int t - 1) R_start
      else if t \<le> 10 then Doorboy B_start
      else if t \<le> 13 then Doctor (int t - 11) D_start
      else if t \<le> 16 then Cashier (int t - 14) C_start
      else if t \<le> 19 then Pharmacist (int t - 17) H_start
      else if t = 20 then Manager M_start
      else if t \<le> hospital_threads then Patient P_arrive
      else Patient P_done)"

definition hospital_start :: "(nat \<Rightarrow> nat) \<Rightarrow> Interrupt \<Rightarrow> (actor, Hospital) System" where
  "hospital_start r ic = \<lparr>sys_kernel = kernel_init (\<lambda>_. 0) (\<lambda>_. (0, 0)) ic, pcs = hospital_role, shared = hospital_globals r\<rparr>"

end
