(* ===== verification/Nachos_Wards.thy ===== *)
theory Nachos_Wards
  imports Nachos_Hospital
begin

text \<open>
  The hospital simulation as a typed program: the locks each actor holds at each location, the order of the
  locks and the lock of each condition, the interpretation of the locales of \<open>Nachos_Program\<close>, and what
  follows for every run of the simulation on the kernel.
\<close>

section \<open>The locks of an actor\<close>

text \<open>Which locks the code relies on at each location.\<close>

primrec receptionist_holds :: "int \<Rightarrow> receptionist_pc \<Rightarrow> lid set" where
  "receptionist_holds i R_start = {}"
| "receptionist_holds i R_line = {receptionist_line_lock}"
| "receptionist_holds i R_called = {receptionist_line_lock}"
| "receptionist_holds i R_leave = {}"
| "receptionist_holds i R_desk = {receptionist_lock (nat i)}"
| "receptionist_holds i R_token = {receptionist_lock (nat i), receptionist_token_access_lock}"
| "receptionist_holds i R_tell = {receptionist_lock (nat i)}"
| "receptionist_holds i R_wait = {receptionist_lock (nat i)}"
| "receptionist_holds i R_back = {}"
| "receptionist_holds i R_check = {receptionist_line_lock}"
| "receptionist_holds i R_break = {receptionist_line_lock}"

primrec patient_holds :: "patient_pc \<Rightarrow> lid set" where
  "patient_holds P_arrive = {}"
| "patient_holds P_line = {receptionist_line_lock}"
| "patient_holds (P_queue r) = {receptionist_line_lock}"
| "patient_holds (P_called r) = {receptionist_line_lock}"
| "patient_holds (P_leave r) = {}"
| "patient_holds (P_desk r) = {receptionist_lock (nat r)}"
| "patient_holds (P_thank r token) = {receptionist_lock (nat r)}"
| "patient_holds (P_door token) = {}"
| "patient_holds (P_door_line token) = {doorboy_line_lock}"
| "patient_holds (P_door_wait token) = {doorboy_line_lock}"
| "patient_holds (P_door_read token) = {doorboy_line_lock}"
| "patient_holds (P_door_leave token d) = {doorboy_line_lock}"
| "patient_holds (P_doc token d) = {}"
| "patient_holds (P_doc_in token d) = {doctor_lock (nat d)}"
| "patient_holds (P_doc_sit token d) = {doctor_lock (nat d)}"
| "patient_holds (P_doc_hear token d) = {doctor_lock (nat d)}"
| "patient_holds (P_doc_leave token d diag) = {doctor_lock (nat d)}"
| "patient_holds (P_cash token diag) = {}"
| "patient_holds (P_cash_line token diag) = {cashier_line_lock}"
| "patient_holds (P_cash_wait token diag) = {cashier_line_lock}"
| "patient_holds (P_cash_go token diag c) = {}"
| "patient_holds (P_cash_in token diag c) = {cashier_lock (nat c)}"
| "patient_holds (P_cash_tell token diag c) = {cashier_lock (nat c)}"
| "patient_holds (P_cash_pay token diag c) = {cashier_lock (nat c)}"
| "patient_holds (P_cash_leave token diag c) = {cashier_lock (nat c)}"
| "patient_holds (P_pharm token diag) = {}"
| "patient_holds (P_pharm_line token diag) = {pharmacist_line_lock}"
| "patient_holds (P_pharm_wait token diag) = {pharmacist_line_lock}"
| "patient_holds (P_pharm_go token diag c) = {}"
| "patient_holds (P_pharm_in token diag c) = {pharmacist_lock (nat c)}"
| "patient_holds (P_pharm_tell token diag c) = {pharmacist_lock (nat c)}"
| "patient_holds (P_pharm_pay c) = {pharmacist_lock (nat c)}"
| "patient_holds (P_pharm_leave c) = {pharmacist_lock (nat c)}"
| "patient_holds P_exit = {}"
| "patient_holds P_count = {patient_count_mutex}"
| "patient_holds P_done = {}"

primrec doorboy_holds :: "doorboy_pc \<Rightarrow> lid set" where
  "doorboy_holds B_start = {}"
| "doorboy_holds B_line = {doorboy_line_lock}"
| "doorboy_holds B_doctor = {}"
| "doorboy_holds B_find = {doctor_doorboy_lock}"
| "doorboy_holds (B_tell d) = {doctor_doorboy_lock, doorboy_line_lock}"
| "doorboy_holds B_told = {doctor_doorboy_lock, doorboy_line_lock}"
| "doorboy_holds B_confirmed = {doctor_doorboy_lock, doorboy_line_lock}"
| "doorboy_holds B_rest = {doorboy_line_lock}"
| "doorboy_holds B_end = {doorboy_line_lock}"

primrec doctor_holds :: "int \<Rightarrow> doctor_pc \<Rightarrow> lid set" where
  "doctor_holds i D_start = {}"
| "doctor_holds i D_avail = {doctor_doorboy_lock}"
| "doctor_holds i D_room = {doctor_doorboy_lock}"
| "doctor_holds i D_ready = {doctor_doorboy_lock, doctor_lock (nat i)}"
| "doctor_holds i D_wait = {doctor_lock (nat i)}"
| "doctor_holds i D_exam = {doctor_lock (nat i)}"
| "doctor_holds i (D_dice token) = {doctor_lock (nat i), random_number_lock}"
| "doctor_holds i (D_think token n sickness) = {doctor_lock (nat i)}"
| "doctor_holds i D_bye = {doctor_lock (nat i)}"

primrec cashier_holds :: "int \<Rightarrow> cashier_pc \<Rightarrow> lid set" where
  "cashier_holds i C_start = {}"
| "cashier_holds i C_line = {cashier_line_lock}"
| "cashier_holds i C_break = {cashier_line_lock}"
| "cashier_holds i C_desk = {cashier_line_lock}"
| "cashier_holds i C_ready = {cashier_line_lock, cashier_lock (nat i)}"
| "cashier_holds i C_wait = {cashier_lock (nat i)}"
| "cashier_holds i C_serve = {cashier_lock (nat i)}"
| "cashier_holds i (C_charge fee) = {cashier_lock (nat i)}"
| "cashier_holds i (C_pay fee) = {cashier_lock (nat i), cashier_payment_lock}"
| "cashier_holds i C_end = {cashier_lock (nat i)}"

primrec pharmacist_holds :: "int \<Rightarrow> pharmacist_pc \<Rightarrow> lid set" where
  "pharmacist_holds i H_start = {}"
| "pharmacist_holds i H_line = {pharmacist_line_lock}"
| "pharmacist_holds i H_break = {pharmacist_line_lock}"
| "pharmacist_holds i H_desk = {pharmacist_line_lock}"
| "pharmacist_holds i H_ready = {pharmacist_line_lock, pharmacist_lock (nat i)}"
| "pharmacist_holds i H_wait = {pharmacist_lock (nat i)}"
| "pharmacist_holds i H_serve = {pharmacist_lock (nat i)}"
| "pharmacist_holds i H_give = {pharmacist_lock (nat i)}"
| "pharmacist_holds i H_paid = {pharmacist_lock (nat i)}"
| "pharmacist_holds i H_pay = {pharmacist_lock (nat i), pharmacist_payment_lock}"
| "pharmacist_holds i H_end = {pharmacist_lock (nat i)}"

primrec manager_holds :: "manager_pc \<Rightarrow> lid set" where
  "manager_holds M_start = {}"
| "manager_holds M_dice = {random_number_lock}"
| "manager_holds (M_yield n cash pharm) = {}"
| "manager_holds (M_count cash pharm) = {patient_count_mutex}"
| "manager_holds (M_go b cash pharm) = {}"
| "manager_holds (M_pharmacy cash) = {pharmacist_payment_lock}"
| "manager_holds (M_fees cash) = {}"
| "manager_holds M_cash = {cashier_payment_lock}"
| "manager_holds M_lines = {}"
| "manager_holds (M_reception i) = {receptionist_line_lock}"
| "manager_holds M_doorboys = {}"
| "manager_holds M_doorboys_in = {doorboy_line_lock}"
| "manager_holds M_doorboys_out = {doorboy_line_lock}"
| "manager_holds M_cashiers = {}"
| "manager_holds M_cashiers_in = {cashier_line_lock}"
| "manager_holds M_cashiers_out = {cashier_line_lock}"
| "manager_holds M_pharmacists = {}"
| "manager_holds M_pharmacists_in = {pharmacist_line_lock}"
| "manager_holds M_pharmacists_out = {pharmacist_line_lock}"

primrec holds :: "actor \<Rightarrow> lid set" where
  "holds (Main p) = {}"
| "holds (Receptionist i p) = receptionist_holds i p"
| "holds (Doorboy p) = doorboy_holds p"
| "holds (Doctor i p) = doctor_holds i p"
| "holds (Cashier i p) = cashier_holds i p"
| "holds (Pharmacist i p) = pharmacist_holds i p"
| "holds (Manager p) = manager_holds p"
| "holds (Patient p) = patient_holds p"

text \<open>Which of them the call before the location has asked for.\<close>

definition receptionist_enters :: "int \<Rightarrow> receptionist_pc \<Rightarrow> lid set" where
  "receptionist_enters i p = (case p of R_line \<Rightarrow> {receptionist_line_lock} | R_desk \<Rightarrow> {receptionist_lock (nat i)}
     | R_token \<Rightarrow> {receptionist_token_access_lock} | R_wait \<Rightarrow> {receptionist_lock (nat i)}
     | R_check \<Rightarrow> {receptionist_line_lock} | R_break \<Rightarrow> {receptionist_line_lock} | _ \<Rightarrow> {})"

definition patient_enters :: "patient_pc \<Rightarrow> lid set" where
  "patient_enters p = (case p of P_line \<Rightarrow> {receptionist_line_lock} | P_called r \<Rightarrow> {receptionist_line_lock}
     | P_desk r \<Rightarrow> {receptionist_lock (nat r)} | P_door_line token \<Rightarrow> {doorboy_line_lock} | P_door_read token \<Rightarrow> {doorboy_line_lock}
     | P_doc_in token d \<Rightarrow> {doctor_lock (nat d)} | P_doc_hear token d \<Rightarrow> {doctor_lock (nat d)}
     | P_cash_line token diag \<Rightarrow> {cashier_line_lock} | P_cash_wait token diag \<Rightarrow> {cashier_line_lock}
     | P_cash_in token diag c \<Rightarrow> {cashier_lock (nat c)} | P_cash_pay token diag c \<Rightarrow> {cashier_lock (nat c)}
     | P_pharm_line token diag \<Rightarrow> {pharmacist_line_lock} | P_pharm_wait token diag \<Rightarrow> {pharmacist_line_lock}
     | P_pharm_in token diag c \<Rightarrow> {pharmacist_lock (nat c)} | P_pharm_pay c \<Rightarrow> {pharmacist_lock (nat c)}
     | P_count \<Rightarrow> {patient_count_mutex} | _ \<Rightarrow> {})"

definition doorboy_enters :: "doorboy_pc \<Rightarrow> lid set" where
  "doorboy_enters p = (case p of B_line \<Rightarrow> {doorboy_line_lock} | B_find \<Rightarrow> {doctor_doorboy_lock} | B_tell d \<Rightarrow> {doorboy_line_lock}
     | B_confirmed \<Rightarrow> {doorboy_line_lock} | B_end \<Rightarrow> {doorboy_line_lock} | _ \<Rightarrow> {})"

definition doctor_enters :: "int \<Rightarrow> doctor_pc \<Rightarrow> lid set" where
  "doctor_enters i p = (case p of D_avail \<Rightarrow> {doctor_doorboy_lock} | D_ready \<Rightarrow> {doctor_lock (nat i)} | D_exam \<Rightarrow> {doctor_lock (nat i)}
     | D_dice token \<Rightarrow> {random_number_lock} | D_bye \<Rightarrow> {doctor_lock (nat i)} | _ \<Rightarrow> {})"

definition cashier_enters :: "int \<Rightarrow> cashier_pc \<Rightarrow> lid set" where
  "cashier_enters i p = (case p of C_line \<Rightarrow> {cashier_line_lock} | C_break \<Rightarrow> {cashier_line_lock} | C_ready \<Rightarrow> {cashier_lock (nat i)}
     | C_serve \<Rightarrow> {cashier_lock (nat i)} | C_charge fee \<Rightarrow> {cashier_lock (nat i)} | C_pay fee \<Rightarrow> {cashier_payment_lock} | _ \<Rightarrow> {})"

definition pharmacist_enters :: "int \<Rightarrow> pharmacist_pc \<Rightarrow> lid set" where
  "pharmacist_enters i p = (case p of H_line \<Rightarrow> {pharmacist_line_lock} | H_break \<Rightarrow> {pharmacist_line_lock}
     | H_ready \<Rightarrow> {pharmacist_lock (nat i)} | H_serve \<Rightarrow> {pharmacist_lock (nat i)} | H_paid \<Rightarrow> {pharmacist_lock (nat i)}
     | H_pay \<Rightarrow> {pharmacist_payment_lock} | _ \<Rightarrow> {})"

definition manager_enters :: "manager_pc \<Rightarrow> lid set" where
  "manager_enters p = (case p of M_dice \<Rightarrow> {random_number_lock} | M_count cash pharm \<Rightarrow> {patient_count_mutex}
     | M_pharmacy cash \<Rightarrow> {pharmacist_payment_lock} | M_cash \<Rightarrow> {cashier_payment_lock} | M_reception i \<Rightarrow> {receptionist_line_lock}
     | M_doorboys_in \<Rightarrow> {doorboy_line_lock} | M_cashiers_in \<Rightarrow> {cashier_line_lock} | M_pharmacists_in \<Rightarrow> {pharmacist_line_lock} | _ \<Rightarrow> {})"

lemmas actor_enters = receptionist_enters_def patient_enters_def doorboy_enters_def doctor_enters_def cashier_enters_def
  pharmacist_enters_def manager_enters_def

primrec enters :: "actor \<Rightarrow> lid set" where
  "enters (Main p) = {}"
| "enters (Receptionist i p) = receptionist_enters i p"
| "enters (Doorboy p) = doorboy_enters p"
| "enters (Doctor i p) = doctor_enters i p"
| "enters (Cashier i p) = cashier_enters i p"
| "enters (Pharmacist i p) = pharmacist_enters i p"
| "enters (Manager p) = manager_enters p"
| "enters (Patient p) = patient_enters p"

text \<open>The lock of each condition.\<close>

definition condition_lock :: "cid \<Rightarrow> lid" where
  "condition_lock c =
     (if c = receptionist_break_cv then receptionist_line_lock
      else if c = doctor_available_cv then doctor_doorboy_lock
      else if c \<le> 4 then doorboy_line_lock
      else if c \<le> 7 then cashier_line_lock
      else if c \<le> 9 then pharmacist_line_lock
      else [receptionist_line_lock, receptionist_line_lock, receptionist_lock ((c - 10) div 6), doctor_lock ((c - 10) div 6),
            cashier_lock ((c - 10) div 6), pharmacist_lock ((c - 10) div 6)] ! ((c - 10) mod 6))"

text \<open>The order in which locks are taken.\<close>

definition lock_rank :: "lid \<Rightarrow> nat" where
  "lock_rank l = (if 10 \<le> l then 1
     else if l \<in> {receptionist_token_access_lock, doorboy_line_lock, random_number_lock, cashier_payment_lock, pharmacist_payment_lock}
     then 2 else 0)"

text \<open>What the locales ask of one actor's code.\<close>

definition well_locked :: "('p \<Rightarrow> lid set) \<Rightarrow> ('p \<Rightarrow> lid set) \<Rightarrow> 'p \<Rightarrow> (kcall option \<times> 'p \<times> 's) res \<Rightarrow> bool" where
  "well_locked h e p r \<longleftrightarrow> (case r of Inl e \<Rightarrow> True
     | Inr (None, p', s') \<Rightarrow> h p = {} \<and> h p' = {}
     | Inr (Some c, p', s') \<Rightarrow> call_typed c (h p) \<and> h p' = call_locks c (h p) \<and> call_waits c \<subseteq> e p' \<and> call_owned condition_lock c)"

lemma well_locked_simps [simp]:
  "well_locked h e p (Inl x)"
  "well_locked h e p (Inr (None, p', s')) \<longleftrightarrow> h p = {} \<and> h p' = {}"
  "well_locked h e p (Inr (Some c, p', s')) \<longleftrightarrow>
     call_typed c (h p) \<and> h p' = call_locks c (h p) \<and> call_waits c \<subseteq> e p' \<and> call_owned condition_lock c"
  by (simp_all add: well_locked_def)

lemma well_locked_andThen: "(\<And>x. r = Inr x \<Longrightarrow> well_locked h e p (g x)) \<Longrightarrow> well_locked h e p (andThen r g)"
  by (cases r) simp_all

lemma obj_Inr: "obj m i = Inr n \<longleftrightarrow> 0 \<le> i \<and> i < int m \<and> n = nat i"
  by (auto simp: obj_def)

lemma lock_ranks:
  "lock_rank random_number_lock = 2" "lock_rank patient_count_mutex = 0" "lock_rank receptionist_line_lock = 0"
  "lock_rank receptionist_token_access_lock = 2" "lock_rank doctor_doorboy_lock = 0" "lock_rank doorboy_line_lock = 2"
  "lock_rank cashier_payment_lock = 2" "lock_rank cashier_line_lock = 0" "lock_rank pharmacist_payment_lock = 2"
  "lock_rank pharmacist_line_lock = 0" "lock_rank (receptionist_lock n) = 1" "lock_rank (doctor_lock n) = 1"
  "lock_rank (cashier_lock n) = 1" "lock_rank (pharmacist_lock n) = 1"
  by (simp_all add: lock_rank_def hospital_locks)

lemma lock_differs:
  "receptionist_token_access_lock \<noteq> receptionist_lock n" "doctor_doorboy_lock \<noteq> doorboy_line_lock"
  "doctor_lock n \<noteq> doctor_doorboy_lock" "random_number_lock \<noteq> doctor_lock n" "cashier_lock n \<noteq> cashier_line_lock"
  "cashier_payment_lock \<noteq> cashier_lock n" "pharmacist_lock n \<noteq> pharmacist_line_lock"
  "pharmacist_payment_lock \<noteq> pharmacist_lock n"
  by (simp_all add: hospital_locks)

lemma two_of_six [simp]: "Suc (Suc (6 * n)) div 6 = n" "Suc (Suc (6 * n)) mod 6 = 2"
  by presburger+

lemma condition_locks:
  "condition_lock receptionist_break_cv = receptionist_line_lock" "condition_lock doorboy_break_cv = doorboy_line_lock"
  "condition_lock patient_read_next_available_doctor_cv = doorboy_line_lock" "condition_lock doorboy_line_empty_cv = doorboy_line_lock"
  "condition_lock doorboy_line_full_cv = doorboy_line_lock" "condition_lock doctor_available_cv = doctor_doorboy_lock"
  "condition_lock cashier_break_cv = cashier_line_lock" "condition_lock cashier_line_empty_cv = cashier_line_lock"
  "condition_lock pharmacist_break_cv = pharmacist_line_lock" "condition_lock pharmacist_line_empty_cv = pharmacist_line_lock"
  "condition_lock (receptionist_line_empty_cv n) = receptionist_line_lock" "condition_lock (receptionist_line_full_cv n) = receptionist_line_lock"
  "condition_lock (receptionist_cv n) = receptionist_lock n" "condition_lock (doctor_cv n) = doctor_lock n"
  "condition_lock (cashier_cv n) = cashier_lock n" "condition_lock (pharmacist_cv n) = pharmacist_lock n"
  by (simp_all add: condition_lock_def hospital_conditions)

lemmas lock_facts = condition_locks lock_differs lock_differs [symmetric] insert_Diff_if insert_commute obj_Inr

lemma receptionist_locks: "well_locked (receptionist_holds i) (receptionist_enters i) p (receptionist i p s)"
  by (cases p) (auto intro!: well_locked_andThen simp: lock_facts actor_enters)

lemma doorboy_locks: "well_locked doorboy_holds doorboy_enters p (doorboy p s)"
  by (cases p) (auto intro!: well_locked_andThen simp: lock_facts actor_enters Let_def)

lemma doctor_locks: "well_locked (doctor_holds i) (doctor_enters i) p (doctor i p s)"
  by (cases p) (auto intro!: well_locked_andThen simp: lock_facts actor_enters rand_def split: nat.split)

lemma cashier_locks: "well_locked (cashier_holds i) (cashier_enters i) p (cashier i p s)"
  by (cases p) (auto intro!: well_locked_andThen simp: lock_facts actor_enters cashier_opens_def)

lemma pharmacist_locks: "well_locked (pharmacist_holds i) (pharmacist_enters i) p (pharmacist i p s)"
  by (cases p) (auto intro!: well_locked_andThen simp: lock_facts actor_enters pharmacist_opens_def)

lemma manager_locks: "well_locked manager_holds manager_enters p (hospital_manager p s)"
  by (cases p) (auto intro!: well_locked_andThen simp: lock_facts actor_enters rand_def Let_def split: nat.split)

lemma patient_locks: "well_locked patient_holds patient_enters p (patient p s)"
  by (cases p) (auto intro!: well_locked_andThen simp: lock_facts actor_enters choose_cashier_def choose_pharmacist_def Let_def)

lemma well_locked_as_actor:
  assumes "well_locked h e p r" "\<And>p. holds (f p) = h p" "\<And>p. enters (f p) = e p"
  shows "well_locked holds enters (f p) (as_actor f r)"
  using assms by (auto simp: well_locked_def as_actor_def split: sum.splits option.splits)

lemma hospital_well_locked: "well_locked holds enters p (hospital p s)"
proof (cases p)
  case (Main m)
  have "well_locked (\<lambda>_. {}) (\<lambda>_. {}) m (HmSimulation m s)" by (cases m) simp_all
  then show ?thesis using Main by (simp add: well_locked_as_actor)
qed (auto intro: well_locked_as_actor receptionist_locks doorboy_locks doctor_locks cashier_locks pharmacist_locks manager_locks patient_locks)

lemma enters_rank:
  assumes "l \<in> enters p" "m \<in> holds p" "m \<noteq> l"
  shows "lock_rank m < lock_rank l"
proof (cases p)
  case (Receptionist i x)
  then show ?thesis using assms by (cases x) (auto simp: actor_enters lock_ranks)
next
  case (Doorboy x)
  then show ?thesis using assms by (cases x) (auto simp: actor_enters lock_ranks)
next
  case (Doctor i x)
  then show ?thesis using assms by (cases x) (auto simp: actor_enters lock_ranks)
next
  case (Cashier i x)
  then show ?thesis using assms by (cases x) (auto simp: actor_enters lock_ranks)
next
  case (Pharmacist i x)
  then show ?thesis using assms by (cases x) (auto simp: actor_enters lock_ranks)
next
  case (Manager x)
  then show ?thesis using assms by (cases x) (auto simp: actor_enters lock_ranks)
next
  case (Patient x)
  then show ?thesis using assms by (cases x) (auto simp: actor_enters lock_ranks)
qed (use assms in simp)

interpretation wards: lock_order hospital holds enters lock_rank
proof
  show "call_typed c (holds p) \<and> holds p' = call_locks c (holds p) \<and> call_waits c \<subseteq> enters p'"
    if "hospital p s = Inr (Some c, p', s')" for p s c p' s'
    using hospital_well_locked [of p s] that by (simp add: well_locked_def)
  show "holds p = {} \<and> holds p' = {}" if "hospital p s = Inr (None, p', s')" for p s p' s'
    using hospital_well_locked [of p s] that by (simp add: well_locked_def)
qed (rule enters_rank)

interpretation wards: monitor hospital holds enters condition_lock
proof
  show "call_owned condition_lock c" if "hospital p s = Inr (Some c, p', s')" for p s c p' s'
    using hospital_well_locked [of p s] that by (simp add: well_locked_def)
qed

lemma hospital_role_holds: "holds (hospital_role t) = {}"
  by (simp add: hospital_role_def)

lemma hospital_start_typed: "pending_ok ic \<Longrightarrow> wards.sys_typed (hospital_start r ic)"
proof -
  assume "pending_ok ic"
  then have "kinv (kernel_init (\<lambda>_. 0) (\<lambda>_. (0, 0)) ic)" by (intro kernel_init_ok) simp_all
  then show ?thesis
    by (auto simp: wards.sys_typed_def hospital_start_def hospital_role_holds lock_view_def
        kernel_init_def hold_def Lock_new_def waiting_def owner_free_def)
qed

section \<open>Properties of the locks\<close>

text \<open>The states of the simulation on a Nachos kernel with the timer and its devices.\<close>

definition hospital_reaches :: "handlers \<Rightarrow> (nat \<Rightarrow> nat) \<Rightarrow> Interrupt \<Rightarrow> (actor, Hospital) System \<Rightarrow> bool" where
  "hospital_reaches run r ic S \<longleftrightarrow> pending_ok ic \<and> (\<exists>self tm rnd sem. run = kernel_handlers self tm rnd sem) \<and>
     sys_reaches run hospital (hospital_start r ic) S"

lemma hospital_typed: "hospital_reaches run r ic S \<Longrightarrow> wards.sys_typed S"
  unfolding hospital_reaches_def using wards.reaches_typed hospital_start_typed nachos.kernel_devices_axioms by blast

text \<open>A run of the simulation, for examples.\<close>

definition demo_hospital :: "(actor, Hospital) System" where
  "demo_hospital = hospital_start (\<lambda>_. 0) (Interrupt_new Statistics_new)"

lemma demo_hospital_reaches:
  "sys_run n demo_run hospital demo_hospital = Inr S \<Longrightarrow> hospital_reaches demo_run (\<lambda>_. 0) (Interrupt_new Statistics_new) S"
  using sys_run_reaches [of n demo_run hospital demo_hospital S]
  by (auto simp: hospital_reaches_def demo_hospital_def demo_run_def pending_ok_def Interrupt_new_def)

text \<open>After 66 steps the first receptionist has the lock of the line.\<close>

lemma demo_hospital_run:
  "\<exists>S. sys_run 66 demo_run hospital demo_hospital = Inr S \<and> currentThread (sys_kernel S) = 1 \<and>
     cur_stack (sys_kernel S) = [User, Root_finish] \<and> pcs S 1 = Receptionist 0 R_line"
proof -
  have "andThen (sys_run 66 demo_run hospital demo_hospital)
      (\<lambda>S. Inr (currentThread (sys_kernel S), cur_stack (sys_kernel S), pcs S (currentThread (sys_kernel S)))) =
      Inr (1, [User, Root_finish], Receptionist 0 R_line)"
    by code_simp
  then show ?thesis by (auto simp: res_simps)
qed

text \<open>
  Property C4. Locks in the hospital simulation are well typed. Whenever a thread executes its own code it owns
  exactly the locks its location declares; it never acquires a lock twice, never releases, waits with or
  signals under a lock it does not own, and owns none when its function returns.
\<close>

theorem hospital_lock_discipline:
  assumes "hospital_reaches run r ic S" "cur_stack (sys_kernel S) = User # fs"
  shows "let t = currentThread (sys_kernel S); owned = {l. ownerThread (locks (sys_kernel S) l) = Some t} in
    owned = holds (pcs S t) \<and>
    (\<forall>c p s. hospital (pcs S t) (shared S) = Inr (Some c, p, s) \<longrightarrow> call_typed c owned) \<and>
    (\<forall>p s. hospital (pcs S t) (shared S) = Inr (None, p, s) \<longrightarrow> owned = {})"
  unfolding Let_def wards.owns_held [OF hospital_typed [OF assms(1)] assms(2)]
  using wards.call_ok wards.return_ok by simp

theorem hospital_lock_discipline_witness:
  "\<exists>S. sys_run 66 demo_run hospital demo_hospital = Inr S \<and>
     {l. ownerThread (locks (sys_kernel S) l) = Some 1} = {receptionist_line_lock}"
proof -
  obtain S where S: "sys_run 66 demo_run hospital demo_hospital = Inr S" "currentThread (sys_kernel S) = 1"
    "cur_stack (sys_kernel S) = [User, Root_finish]" "pcs S 1 = Receptionist 0 R_line"
    using demo_hospital_run by blast
  from hospital_lock_discipline [OF demo_hospital_reaches [OF S(1)] S(3)] S show ?thesis by (simp add: Let_def)
qed

text \<open>
  Property C5. The threads of the hospital simulation never wait for each other's locks in a circle: in no
  reachable state is there a chain of threads, each queued for a lock that the next one owns, that closes.
\<close>

theorem hospital_no_circular_wait:
  assumes "hospital_reaches run r ic S"
  shows "\<not> (waits_for (sys_kernel S))\<^sup>+\<^sup>+ t t"
  by (rule wards.no_circular_wait [OF hospital_typed [OF assms]])

theorem hospital_no_circular_wait_witness:
  "\<exists>S. sys_run 66 demo_run hospital demo_hospital = Inr S \<and> \<not> (waits_for (sys_kernel S))\<^sup>+\<^sup>+ 1 1"
proof -
  obtain S where "sys_run 66 demo_run hospital demo_hospital = Inr S" using demo_hospital_run by blast
  then show ?thesis using hospital_no_circular_wait [OF demo_hospital_reaches, of 66 S] by blast
qed

end
