(* ===== verification/Nachos_Desk.thy ===== *)
theory Nachos_Desk
  imports Nachos_Hospital
begin

text \<open>
  The meeting at a desk, as the hospital simulation has it three times: a colleague opens the desk, somebody
  reserves it, the visitor wakes the colleague, puts a request and waits, the colleague answers and waits,
  the visitor takes the answer and leaves. All under the lock of the desk and one condition for both. \<open>desk_ok\<close> says
  what the two can be doing at the same time; one lemma per step shows that the step keeps it.
\<close>

section \<open>The only one\<close>

text \<open>\<open>only f w\<close>: no thread has a role \<open>f\<close>, or only the thread of \<open>w\<close> has.\<close>

definition only :: "(tid \<Rightarrow> 'a option) \<Rightarrow> (tid \<times> 'a) option \<Rightarrow> bool" where
  "only f w \<longleftrightarrow> (\<forall>t. f t = (case w of None \<Rightarrow> None | Some (v, a) \<Rightarrow> if t = v then Some a else None))"

lemma only_at: "only f w \<Longrightarrow> f t = Some a \<Longrightarrow> w = Some (t, a)"
  by (auto simp: only_def split: option.splits prod.splits if_splits)

lemma only_role: "only f (Some (v, a)) \<Longrightarrow> f v = Some a"
  by (simp add: only_def)

lemma only_none: "only f None \<Longrightarrow> f t = None"
  by (simp add: only_def)

lemma only_set:
  assumes "only f w" "f t \<noteq> None \<or> w = None"
  shows "only (f(t := b)) (map_option (Pair t) b)"
  using assms by (auto simp: only_def split: option.splits prod.splits if_splits)

section \<open>The desk\<close>

text \<open>
  The stages of the colleague: \<open>Opening\<close> until the line is let go, \<open>Ready\<close> until he waits, \<open>Asleep\<close> until he has seen the
  request, \<open>Busy\<close> until he answers; then either \<open>Reply\<close>, a loop that waits until the answer has been taken, or \<open>Give\<close>
  and \<open>Paid\<close>, before and after one wait.
\<close>

datatype colleague = Closed | Opening | Ready | Asleep | Busy | Reply | Give | Paid

text \<open>The stages of the visitor; the number is his token.\<close>

datatype visitor = Coming | Telling int | Asking int

definition expecting :: "(tid \<times> visitor) option \<Rightarrow> bool \<Rightarrow> bool" where
  "expecting w free \<longleftrightarrow> (if free then w = None else (\<exists>v. w = Some (v, Coming)))"

text \<open>
  \<open>free\<close>: the desk may be reserved; \<open>asked k\<close>: the request of the visitor with token \<open>k\<close> lies on it; \<open>answered k\<close>: so does
  the answer; \<open>clear\<close>: nothing does; \<open>repaid\<close>: what the visitor has left in return does. \<open>K\<close> is the colleague, \<open>q\<close> the queue
  of the condition.
\<close>

primrec desk_ok :: "tid \<Rightarrow> colleague \<Rightarrow> (tid \<times> visitor) option \<Rightarrow> bool \<Rightarrow> (int \<Rightarrow> bool) \<Rightarrow> (int \<Rightarrow> bool) \<Rightarrow> bool \<Rightarrow> bool \<Rightarrow> tid list \<Rightarrow> bool" where
  "desk_ok K Closed w free asked answered clear repaid q = (w = None \<and> \<not> free \<and> clear \<and> q = [])"
| "desk_ok K Opening w free asked answered clear repaid q = (w = None \<and> free \<and> clear \<and> q = [])"
| "desk_ok K Ready w free asked answered clear repaid q = (expecting w free \<and> clear \<and> q = [])"
| "desk_ok K Asleep w free asked answered clear repaid q =
     (expecting w free \<and> clear \<and> q = [K] \<or>
      \<not> free \<and> (\<exists>v k. w = Some (v, Telling k) \<and> clear \<and> q = [] \<or> w = Some (v, Asking k) \<and> asked k \<and> q = [v]))"
| "desk_ok K Busy w free asked answered clear repaid q = (\<not> free \<and> (\<exists>v k. w = Some (v, Asking k) \<and> asked k \<and> q = [v]))"
| "desk_ok K Reply w free asked answered clear repaid q =
     (\<not> free \<and> ((\<exists>v k. w = Some (v, Asking k) \<and> answered k \<and> q \<in> {[], [K]}) \<or> w = None \<and> clear \<and> q = []))"
| "desk_ok K Give w free asked answered clear repaid q = (\<not> free \<and> (\<exists>v k. w = Some (v, Asking k) \<and> answered k \<and> q = []))"
| "desk_ok K Paid w free asked answered clear repaid q =
     (\<not> free \<and> ((\<exists>v k. w = Some (v, Asking k) \<and> answered k \<and> q = [K]) \<or> w = None \<and> repaid \<and> q = []))"

lemma desk_ok_mono:
  assumes "desk_ok K ph w free asked answered clear repaid q"
    and "\<And>v k. w = Some (v, Asking k) \<Longrightarrow> (asked k \<longrightarrow> asked' k) \<and> (answered k \<longrightarrow> answered' k)" "clear \<longrightarrow> clear'" "repaid \<longrightarrow> repaid'"
  shows "desk_ok K ph w free asked' answered' clear' repaid' q"
  using assms by (cases ph) auto

text \<open>Steps of the colleague that need an argument: he has been woken, and he has been paid.\<close>

lemma desk_woken:
  assumes "desk_ok K Asleep w free asked answered clear repaid q" "K \<notin> set q" "\<And>v k. w \<noteq> Some (v, Telling k)"
  shows "\<exists>v k. w = Some (v, Asking k) \<and> asked k \<and> q = [v] \<and> desk_ok K Busy w free asked answered clear repaid q"
  using assms by auto

lemma desk_paid:
  "desk_ok K Paid w free asked answered clear repaid q \<Longrightarrow> K \<notin> set q \<Longrightarrow>
    repaid \<and> (clear' \<longrightarrow> desk_ok K Closed w free asked' answered' clear' repaid' q)"
  by auto

text \<open>Steps of the visitor. He needs the lock of the desk, which the colleague has at some stages.\<close>

lemma desk_reserved:
  assumes "desk_ok K ph w True asked answered clear repaid q" "ph \<noteq> Opening"
  shows "w = None" "desk_ok K ph (Some (v, Coming)) False asked answered clear repaid q"
  using assms by (cases ph; auto simp: expecting_def)+

lemma desk_coming:
  "desk_ok K ph (Some (v, Coming)) free asked answered clear repaid q \<Longrightarrow> desk_ok K ph (Some (v', Coming)) free asked answered clear repaid q"
  by (cases ph) (auto simp: expecting_def)

lemma desk_called:
  assumes "desk_ok K ph (Some (v, Coming)) free asked answered clear repaid q" "ph \<noteq> Ready"
  shows "desk_ok K ph (Some (v, Telling k)) free asked answered clear repaid (tl q)"
  using assms by (cases ph) (auto simp: expecting_def split: if_splits)

lemma desk_told:
  assumes "desk_ok K ph (Some (v, Telling k)) free asked answered clear repaid q" "asked' k"
  shows "desk_ok K ph (Some (v, Asking k)) free asked' answered' clear' repaid' (q @ [v])"
  using assms by (cases ph) (auto simp: expecting_def split: if_splits)

lemma desk_answered:
  assumes "desk_ok K ph (Some (v, Asking k)) free asked answered clear repaid q" "v \<notin> set q"
  shows "answered k"
  using assms by (cases ph) (auto simp: expecting_def split: if_splits)

lemma desk_left:
  assumes "desk_ok K ph (Some (v, Asking k)) free asked answered clear repaid q" "v \<notin> set q" "ph \<noteq> Give" "clear'" "repaid'"
  shows "desk_ok K ph None free asked' answered' clear' repaid' (tl q)"
  using assms by (cases ph) (auto simp: expecting_def split: if_splits)

section \<open>Free desks\<close>

definition zeros :: "int list \<Rightarrow> int" where "zeros xs = int (count_list xs 0)"

lemma count_list_update:
  "i < length xs \<Longrightarrow> count_list (xs[i := y]) x + of_bool (xs ! i = x) = count_list xs x + of_bool (y = x)"
proof (induction xs arbitrary: i)
  case (Cons a xs)
  then show ?case by (cases i) auto
qed simp

lemma zeros_update: "i < length xs \<Longrightarrow> zeros (xs[i := y]) = zeros xs - of_bool (xs ! i = 0) + of_bool (y = 0)"
  using count_list_update [of i xs y 0] by (auto simp: zeros_def split: if_splits)

lemma find_free_finds:
  "0 \<in> set xs \<Longrightarrow> \<exists>j < length xs. find_free xs i = i + int j \<and> xs ! j = 0"
proof (induction xs arbitrary: i)
  case (Cons a xs)
  show ?case
  proof (cases "a = 0")
    case False
    then obtain j where "j < length xs" "find_free xs (i + 1) = i + 1 + int j" "xs ! j = 0" using Cons by auto
    then show ?thesis using False by (intro exI [of _ "Suc j"]) auto
  qed auto
qed simp

lemma zeros_find: "zeros xs \<noteq> 0 \<Longrightarrow> \<exists>j < length xs. find_free xs 0 = int j \<and> xs ! j = 0"
  using find_free_finds [of xs 0] by (auto simp: zeros_def count_list_0_iff)

lemma shortest_line_range:
  "0 \<le> idx \<Longrightarrow> idx < i + int (length xs) \<Longrightarrow> 0 \<le> i \<Longrightarrow> 0 \<le> shortest_line xs i len idx \<and> shortest_line xs i len idx < i + int (length xs)"
proof (induction xs arbitrary: i len idx)
  case (Cons x xs)
  then show ?case using Cons.IH [of i "i + 1" x] Cons.IH [of idx "i + 1" len] by (simp add: add.assoc add.commute add.left_commute)
qed auto

section \<open>A row of desks\<close>

text \<open>
  The desks of one kind, described by functions of the code: how far an actor is as a visitor of desk \<open>c\<close>, the
  stage of a colleague, the first colleague's thread, the conditions, and what lies on the desks.
\<close>

record 'p station =
  visit :: "nat \<Rightarrow> 'p \<Rightarrow> visitor option"
  stage :: "'p \<Rightarrow> colleague"
  first_thread :: tid
  bell :: "nat \<Rightarrow> cid"
  free :: "nat \<Rightarrow> bool"
  asked :: "nat \<Rightarrow> int \<Rightarrow> bool"
  answered :: "nat \<Rightarrow> int \<Rightarrow> bool"
  clear :: "nat \<Rightarrow> bool"
  repaid :: "nat \<Rightarrow> bool"

definition at_desk :: "'p station \<Rightarrow> nat \<Rightarrow> colleague \<Rightarrow> (tid \<times> visitor) option \<Rightarrow> tid list \<Rightarrow> bool" where
  "at_desk D c ph w q = desk_ok (first_thread D + c) ph w (free D c) (asked D c) (answered D c) (clear D c) (repaid D c) q"

definition desk :: "'p station \<Rightarrow> (tid \<Rightarrow> 'p) \<Rightarrow> queues \<Rightarrow> nat \<Rightarrow> bool" where
  "desk D ps q c \<longleftrightarrow> (\<exists>w. only (visit D c \<circ> ps) w \<and> at_desk D c (stage D (ps (first_thread D + c))) w (q (bell D c)))"

definition same_desks :: "'p station \<Rightarrow> 'p station \<Rightarrow> bool" where
  "same_desks D D' \<longleftrightarrow> visit D' = visit D \<and> stage D' = stage D \<and> first_thread D' = first_thread D \<and> bell D' = bell D"

definition keeps_desk :: "'p station \<Rightarrow> 'p station \<Rightarrow> nat \<Rightarrow> bool" where
  "keeps_desk D D' c \<longleftrightarrow> free D' c = free D c \<and> (\<forall>k. asked D c k \<longrightarrow> asked D' c k) \<and> (\<forall>k. answered D c k \<longrightarrow> answered D' c k) \<and>
     (clear D c \<longrightarrow> clear D' c) \<and> (repaid D c \<longrightarrow> repaid D' c)"

lemma keeps_at_desk: "keeps_desk D D' c \<Longrightarrow> first_thread D' = first_thread D \<Longrightarrow> at_desk D c ph w q \<Longrightarrow> at_desk D' c ph w q"
  unfolding at_desk_def keeps_desk_def by (auto elim: desk_ok_mono)

lemma desk_frame:
  assumes "desk D ps q c" "same_desks D D'" "keeps_desk D D' c"
    and "visit D c p' = visit D c (ps t)" "t = first_thread D + c \<Longrightarrow> stage D p' = stage D (ps t)" "q' (bell D c) = q (bell D c)"
  shows "desk D' (ps(t := p')) q' c"
proof -
  have "visit D c \<circ> ps(t := p') = visit D c \<circ> ps" using assms(4) by (auto simp: fun_eq_iff)
  moreover have "stage D ((ps(t := p')) (first_thread D + c)) = stage D (ps (first_thread D + c))" using assms(5) by simp
  ultimately show ?thesis using assms(1-3,6) keeps_at_desk [OF assms(3)] by (auto simp: desk_def same_desks_def)
qed

lemma desk_colleague:
  assumes "desk D ps q c" "same_desks D D'" "t = first_thread D + c" "visit D c p' = visit D c (ps t)"
    and "\<And>w. only (visit D c \<circ> ps) w \<Longrightarrow> at_desk D c (stage D (ps t)) w (q (bell D c)) \<Longrightarrow> at_desk D' c (stage D p') w (q' (bell D c))"
  shows "desk D' (ps(t := p')) q' c"
proof -
  have "visit D c \<circ> ps(t := p') = visit D c \<circ> ps" using assms(4) by (auto simp: fun_eq_iff)
  then show ?thesis using assms by (auto simp: desk_def same_desks_def)
qed

lemma desk_visitor:
  assumes "desk D ps q c" "same_desks D D'" "t \<noteq> first_thread D + c" "visit D c (ps t) = Some a"
    and "at_desk D c (stage D (ps (first_thread D + c))) (Some (t, a)) (q (bell D c)) \<Longrightarrow>
      at_desk D' c (stage D (ps (first_thread D + c))) (map_option (Pair t) (visit D c p')) (q' (bell D c))"
  shows "desk D' (ps(t := p')) q' c"
proof -
  obtain w where w: "only (visit D c \<circ> ps) w" "at_desk D c (stage D (ps (first_thread D + c))) w (q (bell D c))"
    using assms(1) by (auto simp: desk_def)
  then have "w = Some (t, a)" using only_at [OF w(1), of t a] assms(4) by simp
  moreover have "only (visit D c \<circ> ps(t := p')) (map_option (Pair t) (visit D c p'))"
    using only_set [OF w(1), of t "visit D c p'"] assms(4) by (simp add: fun_upd_comp)
  ultimately show ?thesis using assms(2,3,5) w(2) by (auto simp: desk_def same_desks_def)
qed

lemma desk_reserve:
  assumes "desk D ps q c" "same_desks D D'" "t \<noteq> first_thread D + c" "visit D c p' = Some Coming"
    and "free D c" "\<not> free D' c" "asked D' c = asked D c" "answered D' c = answered D c" "clear D' c = clear D c" "repaid D' c = repaid D c"
    and "stage D (ps (first_thread D + c)) \<noteq> Opening" "q' (bell D c) = q (bell D c)"
  shows "desk D' (ps(t := p')) q' c"
proof -
  obtain w where w: "only (visit D c \<circ> ps) w" "at_desk D c (stage D (ps (first_thread D + c))) w (q (bell D c))"
    using assms(1) by (auto simp: desk_def)
  have "w = None" "at_desk D' c (stage D (ps (first_thread D + c))) (Some (t, Coming)) (q (bell D c))"
    using desk_reserved [of "first_thread D + c" _ w "asked D c" "answered D c" "clear D c" "repaid D c" "q (bell D c)"] w(2) assms(2,5-11)
    by (auto simp: at_desk_def same_desks_def)
  moreover have "only (visit D c \<circ> ps(t := p')) (Some (t, Coming))"
    using only_set [OF w(1), of t "visit D c p'"] assms(4) \<open>w = None\<close> by (simp add: fun_upd_comp)
  ultimately show ?thesis using assms(2,3,12) by (auto simp: desk_def same_desks_def)
qed

text \<open>The visitor of a desk, from his location.\<close>

lemma desk_at:
  assumes "desk D ps q c" "visit D c (ps t) = Some a"
  shows "at_desk D c (stage D (ps (first_thread D + c))) (Some (t, a)) (q (bell D c))"
  using assms only_at [of "visit D c \<circ> ps" _ t a] by (auto simp: desk_def)

text \<open>Three desks with their states and the number of free ones.\<close>

definition row_ok :: "'p station \<Rightarrow> int list \<Rightarrow> int \<Rightarrow> (tid \<Rightarrow> 'p) \<Rightarrow> queues \<Rightarrow> bool" where
  "row_ok D st n ps q \<longleftrightarrow> length st = 3 \<and> n = zeros st \<and> (\<forall>c < 3. desk D ps q c)"

lemma row_frame:
  assumes "row_ok D st n ps q" "same_desks D D'" "\<And>c. keeps_desk D D' c" "\<And>c. visit D c p' = visit D c (ps t)"
    and "stage D p' = stage D (ps t)" "\<And>c. q' (bell D c) = q (bell D c)"
  shows "row_ok D' st n (ps(t := p')) q'"
  using assms by (auto simp: row_ok_def intro: desk_frame)

lemma row_at:
  assumes "row_ok D st n ps q" "same_desks D D'" "c < 3" "n' = n - of_bool (st ! c = 0) + of_bool (a = 0)"
    and "\<And>d. d \<noteq> c \<Longrightarrow> keeps_desk D D' d" "\<And>d. d \<noteq> c \<Longrightarrow> visit D d p' = visit D d (ps t)"
    and "\<And>d. d < 3 \<Longrightarrow> d \<noteq> c \<Longrightarrow> t \<noteq> first_thread D + d" "\<And>d. d \<noteq> c \<Longrightarrow> q' (bell D d) = q (bell D d)"
    and "desk D' (ps(t := p')) q' c"
  shows "row_ok D' (st[c := a]) n' (ps(t := p')) q'"
proof -
  have ok: "length st = 3" "n = zeros st" "\<And>c. c < 3 \<Longrightarrow> desk D ps q c" using assms(1) by (simp_all add: row_ok_def)
  have "desk D' (ps(t := p')) q' d" if "d < 3" "d \<noteq> c" for d
    by (rule desk_frame [OF ok(3) [OF that(1)] assms(2) assms(5) [OF that(2)]]) (use assms that in simp_all)
  then have "\<forall>d < 3. desk D' (ps(t := p')) q' d" using assms(9) by metis
  then show ?thesis using ok(1,2) assms(3,4) zeros_update [of c st a] by (simp add: row_ok_def)
qed

lemma row_colleague:
  assumes "row_ok D st n ps q" "same_desks D D'" "c < 3" "t = first_thread D + c"
    and "\<And>d. visit D d p' = visit D d (ps t)" "n' = n - of_bool (st ! c = 0) + of_bool (a = 0)"
    and "\<And>d. d \<noteq> c \<Longrightarrow> keeps_desk D D' d" "\<And>d. d \<noteq> c \<Longrightarrow> q' (bell D d) = q (bell D d)"
    and "\<And>w. only (visit D c \<circ> ps) w \<Longrightarrow> at_desk D c (stage D (ps t)) w (q (bell D c)) \<Longrightarrow> at_desk D' c (stage D p') w (q' (bell D c))"
  shows "row_ok D' (st[c := a]) n' (ps(t := p')) q'"
proof (rule row_at [OF assms(1-3,6,7,5)])
  have "desk D ps q c" using assms(1,3) by (simp add: row_ok_def)
  then show "desk D' (ps(t := p')) q' c" by (rule desk_colleague [OF _ assms(2,4)]) (use assms in simp_all)
qed (use assms in auto)

lemma row_still:
  assumes "row_ok D st n ps q" "c < 3" "t = first_thread D + c" "\<And>d. visit D d p' = visit D d (ps t)"
    and "\<And>d. d \<noteq> c \<Longrightarrow> q' (bell D d) = q (bell D d)"
    and "\<And>w. at_desk D c (stage D (ps t)) w (q (bell D c)) \<Longrightarrow> at_desk D c (stage D p') w (q' (bell D c))"
  shows "row_ok D st n (ps(t := p')) q'"
  using row_colleague [OF assms(1) _ assms(2,3,4), of D n "st ! c"] assms(5,6) by (simp add: same_desks_def keeps_desk_def)

lemma row_visitor:
  assumes "row_ok D st n ps q" "same_desks D D'" "c < 3" "\<And>d. d < 3 \<Longrightarrow> t \<noteq> first_thread D + d" "visit D c (ps t) = Some a"
    and "\<And>d. d \<noteq> c \<Longrightarrow> keeps_desk D D' d" "\<And>d. d \<noteq> c \<Longrightarrow> visit D d p' = visit D d (ps t)" "\<And>d. d \<noteq> c \<Longrightarrow> q' (bell D d) = q (bell D d)"
    and "at_desk D c (stage D (ps (first_thread D + c))) (Some (t, a)) (q (bell D c)) \<Longrightarrow>
      at_desk D' c (stage D (ps (first_thread D + c))) (map_option (Pair t) (visit D c p')) (q' (bell D c))"
  shows "row_ok D' st n (ps(t := p')) q'"
proof -
  have "desk D ps q c" using assms(1,3) by (simp add: row_ok_def)
  then have "desk D' (ps(t := p')) q' c" by (rule desk_visitor [where a = a]) (use assms in simp_all)
  then have "row_ok D' (st[c := st ! c]) n (ps(t := p')) q'" by (intro row_at [OF assms(1-3)]) (use assms in simp_all)
  then show ?thesis by simp
qed

lemma row_reserve:
  assumes "row_ok D st n ps q" "same_desks D D'" "c < 3" "\<And>d. d < 3 \<Longrightarrow> t \<noteq> first_thread D + d" "st ! c = 0" "a \<noteq> 0" "n' = n - 1"
    and "\<And>d. free D d = (st ! d = 0)" "\<And>d. free D' d = (st[c := a] ! d = 0)"
    and "\<And>d. asked D' d = asked D d" "\<And>d. answered D' d = answered D d" "\<And>d. clear D' d = clear D d" "\<And>d. repaid D' d = repaid D d"
    and "\<And>d. visit D d (ps t) = None" "\<And>d. visit D d p' = (if d = c then Some Coming else None)"
    and "stage D (ps (first_thread D + c)) \<noteq> Opening" "\<And>d. q' (bell D d) = q (bell D d)"
  shows "row_ok D' (st[c := a]) n' (ps(t := p')) q'"
proof -
  have "desk D ps q c" "length st = 3" using assms(1,3) by (simp_all add: row_ok_def)
  then have "desk D' (ps(t := p')) q' c" by (intro desk_reserve [OF _ assms(2) assms(4) [OF assms(3)]]) (use assms in simp_all)
  then show ?thesis by (intro row_at [OF assms(1-3)]) (use assms in \<open>simp_all add: keeps_desk_def\<close>)
qed

text \<open>A reservation passes from one thread to another.\<close>

lemma row_moved:
  assumes "row_ok D st n ps q" "stage D' = stage D" "first_thread D' = first_thread D" "bell D' = bell D" "\<And>c. keeps_desk D D' c"
    and "\<And>c. c < 3 \<Longrightarrow> stage D (ps' (first_thread D + c)) = stage D (ps (first_thread D + c))" "\<And>c. q' (bell D c) = q (bell D c)"
    and "\<And>c w. c < 3 \<Longrightarrow> only (visit D c \<circ> ps) w \<Longrightarrow>
      only (visit D' c \<circ> ps') w \<or> (\<exists>v v'. w = Some (v, Coming) \<and> only (visit D' c \<circ> ps') (Some (v', Coming)))"
  shows "row_ok D' st n ps' q'"
proof -
  have "desk D' ps' q' c" if "c < 3" for c
  proof -
    obtain w where w: "only (visit D c \<circ> ps) w" "at_desk D c (stage D (ps (first_thread D + c))) w (q (bell D c))"
      using assms(1) \<open>c < 3\<close> by (auto simp: row_ok_def desk_def)
    have "at_desk D c ph (Some (v', Coming)) Q" if "at_desk D c ph (Some (v, Coming)) Q" for ph v v' Q
      using that desk_coming by (auto simp: at_desk_def)
    then obtain w' where "only (visit D' c \<circ> ps') w'" "at_desk D c (stage D (ps (first_thread D + c))) w' (q (bell D c))"
      using assms(8) [OF \<open>c < 3\<close> w(1)] w(2) by blast
    then show ?thesis using assms(2-4,6,7) that keeps_at_desk [OF assms(5,3)] by (auto simp: desk_def)
  qed
  then show ?thesis using assms(1) by (simp add: row_ok_def)
qed

end
