(* ===== verification/Nachos_Rounds.thy ===== *)
theory Nachos_Rounds
  imports Nachos_Wards Nachos_Desk
begin

text \<open>
  The first parts of the invariant of the hospital simulation: the threads keep their roles, patients carry
  what they need, and the desks of the cashiers and of the pharmacists, rows of desks as in \<open>Nachos_Desk\<close>. Each part has a lemma for the
  steps of the colleagues, one for the steps of the patients and one for steps that do not concern it.
\<close>

section \<open>Steps and queues\<close>

lemma conditions_differ [simp]:
  "receptionist_line_full_cv n \<noteq> receptionist_break_cv" "receptionist_line_full_cv n \<noteq> doorboy_break_cv" "receptionist_line_full_cv n \<noteq> patient_read_next_available_doctor_cv"
  "receptionist_line_full_cv n \<noteq> doorboy_line_empty_cv" "receptionist_line_full_cv n \<noteq> doorboy_line_full_cv" "receptionist_line_full_cv n \<noteq> doctor_available_cv"
  "receptionist_line_full_cv n \<noteq> cashier_break_cv" "receptionist_line_full_cv n \<noteq> cashier_line_empty_cv" "receptionist_line_full_cv n \<noteq> pharmacist_break_cv"
  "receptionist_line_full_cv n \<noteq> pharmacist_line_empty_cv" "receptionist_cv n \<noteq> receptionist_break_cv" "receptionist_cv n \<noteq> doorboy_break_cv"
  "receptionist_cv n \<noteq> patient_read_next_available_doctor_cv" "receptionist_cv n \<noteq> doorboy_line_empty_cv" "receptionist_cv n \<noteq> doorboy_line_full_cv"
  "receptionist_cv n \<noteq> doctor_available_cv" "receptionist_cv n \<noteq> cashier_break_cv" "receptionist_cv n \<noteq> cashier_line_empty_cv"
  "receptionist_cv n \<noteq> pharmacist_break_cv" "receptionist_cv n \<noteq> pharmacist_line_empty_cv" "doctor_cv n \<noteq> receptionist_break_cv"
  "doctor_cv n \<noteq> doorboy_break_cv" "doctor_cv n \<noteq> patient_read_next_available_doctor_cv" "doctor_cv n \<noteq> doorboy_line_empty_cv"
  "doctor_cv n \<noteq> doorboy_line_full_cv" "doctor_cv n \<noteq> doctor_available_cv" "doctor_cv n \<noteq> cashier_break_cv"
  "doctor_cv n \<noteq> cashier_line_empty_cv" "doctor_cv n \<noteq> pharmacist_break_cv" "doctor_cv n \<noteq> pharmacist_line_empty_cv"
  "cashier_cv n \<noteq> receptionist_break_cv" "cashier_cv n \<noteq> doorboy_break_cv" "cashier_cv n \<noteq> patient_read_next_available_doctor_cv"
  "cashier_cv n \<noteq> doorboy_line_empty_cv" "cashier_cv n \<noteq> doorboy_line_full_cv" "cashier_cv n \<noteq> doctor_available_cv"
  "cashier_cv n \<noteq> cashier_break_cv" "cashier_cv n \<noteq> cashier_line_empty_cv" "cashier_cv n \<noteq> pharmacist_break_cv"
  "cashier_cv n \<noteq> pharmacist_line_empty_cv" "pharmacist_cv n \<noteq> receptionist_break_cv" "pharmacist_cv n \<noteq> doorboy_break_cv"
  "pharmacist_cv n \<noteq> patient_read_next_available_doctor_cv" "pharmacist_cv n \<noteq> doorboy_line_empty_cv" "pharmacist_cv n \<noteq> doorboy_line_full_cv"
  "pharmacist_cv n \<noteq> doctor_available_cv" "pharmacist_cv n \<noteq> cashier_break_cv" "pharmacist_cv n \<noteq> cashier_line_empty_cv"
  "pharmacist_cv n \<noteq> pharmacist_break_cv" "pharmacist_cv n \<noteq> pharmacist_line_empty_cv" "patient_read_next_available_doctor_cv \<noteq> receptionist_break_cv"
  "patient_read_next_available_doctor_cv \<noteq> doorboy_break_cv" "patient_read_next_available_doctor_cv \<noteq> doorboy_line_empty_cv" "patient_read_next_available_doctor_cv \<noteq> doorboy_line_full_cv"
  "patient_read_next_available_doctor_cv \<noteq> doctor_available_cv" "patient_read_next_available_doctor_cv \<noteq> cashier_break_cv" "patient_read_next_available_doctor_cv \<noteq> cashier_line_empty_cv"
  "patient_read_next_available_doctor_cv \<noteq> pharmacist_break_cv" "patient_read_next_available_doctor_cv \<noteq> pharmacist_line_empty_cv" "patient_read_next_available_doctor_cv \<noteq> receptionist_line_empty_cv m"
  "patient_read_next_available_doctor_cv \<noteq> receptionist_line_full_cv m" "patient_read_next_available_doctor_cv \<noteq> receptionist_cv m" "patient_read_next_available_doctor_cv \<noteq> doctor_cv m"
  "patient_read_next_available_doctor_cv \<noteq> cashier_cv m" "patient_read_next_available_doctor_cv \<noteq> pharmacist_cv m" "doorboy_line_empty_cv \<noteq> receptionist_break_cv"
  "doorboy_line_empty_cv \<noteq> doorboy_break_cv" "doorboy_line_empty_cv \<noteq> patient_read_next_available_doctor_cv" "doorboy_line_empty_cv \<noteq> doorboy_line_full_cv"
  "doorboy_line_empty_cv \<noteq> doctor_available_cv" "doorboy_line_empty_cv \<noteq> cashier_break_cv" "doorboy_line_empty_cv \<noteq> cashier_line_empty_cv"
  "doorboy_line_empty_cv \<noteq> pharmacist_break_cv" "doorboy_line_empty_cv \<noteq> pharmacist_line_empty_cv" "doorboy_line_empty_cv \<noteq> receptionist_line_empty_cv m"
  "doorboy_line_empty_cv \<noteq> receptionist_line_full_cv m" "doorboy_line_empty_cv \<noteq> receptionist_cv m" "doorboy_line_empty_cv \<noteq> doctor_cv m"
  "doorboy_line_empty_cv \<noteq> cashier_cv m" "doorboy_line_empty_cv \<noteq> pharmacist_cv m"
  by (simp_all add: hospital_conditions)

lemma conditions_differ_index [simp]:
  "receptionist_line_full_cv n \<noteq> receptionist_line_empty_cv m" "receptionist_line_full_cv n \<noteq> receptionist_cv m" "receptionist_line_full_cv n \<noteq> doctor_cv m"
  "receptionist_line_full_cv n \<noteq> cashier_cv m" "receptionist_line_full_cv n \<noteq> pharmacist_cv m" "receptionist_cv n \<noteq> receptionist_line_empty_cv m"
  "receptionist_cv n \<noteq> receptionist_line_full_cv m" "receptionist_cv n \<noteq> doctor_cv m" "receptionist_cv n \<noteq> cashier_cv m"
  "receptionist_cv n \<noteq> pharmacist_cv m" "doctor_cv n \<noteq> receptionist_line_empty_cv m" "doctor_cv n \<noteq> receptionist_line_full_cv m"
  "doctor_cv n \<noteq> receptionist_cv m" "doctor_cv n \<noteq> cashier_cv m" "doctor_cv n \<noteq> pharmacist_cv m"
  "cashier_cv n \<noteq> receptionist_line_empty_cv m" "cashier_cv n \<noteq> receptionist_line_full_cv m" "cashier_cv n \<noteq> receptionist_cv m"
  "cashier_cv n \<noteq> doctor_cv m" "cashier_cv n \<noteq> pharmacist_cv m" "pharmacist_cv n \<noteq> receptionist_line_empty_cv m"
  "pharmacist_cv n \<noteq> receptionist_line_full_cv m" "pharmacist_cv n \<noteq> receptionist_cv m" "pharmacist_cv n \<noteq> doctor_cv m"
  "pharmacist_cv n \<noteq> cashier_cv m"
  by (simp_all add: hospital_conditions) presburger+

lemma conditions_index [simp]:
  "receptionist_line_full_cv n = receptionist_line_full_cv m \<longleftrightarrow> n = m" "receptionist_cv n = receptionist_cv m \<longleftrightarrow> n = m"
  "doctor_cv n = doctor_cv m \<longleftrightarrow> n = m" "cashier_cv n = cashier_cv m \<longleftrightarrow> n = m"
  "pharmacist_cv n = pharmacist_cv m \<longleftrightarrow> n = m"
  by (simp_all add: hospital_conditions)

definition step_queues :: "tid \<Rightarrow> kcall option \<Rightarrow> queues \<Rightarrow> queues" where
  "step_queues t c q = (case c of None \<Rightarrow> q | Some c \<Rightarrow> call_queues t c q)"

lemma step_queues_simps [simp]:
  "step_queues t None q = q" "step_queues t (Some (Wait c l)) q = q(c := q c @ [t])" "step_queues t (Some (Signal c l)) q = q(c := tl (q c))"
  "step_queues t (Some (Acquire m)) q = q" "step_queues t (Some (Release m)) q = q" "step_queues t (Some Yield) q = q"
  "step_queues t (Some (NewThread u)) q = q" "step_queues t (Some (Fork u)) q = q"
  by (simp_all add: step_queues_def)

lemma alone_unqueued: "wards.alone ps q t \<Longrightarrow> t \<notin> set (q c)"
  by (simp add: wards.alone_def)

lemma alone_lock: "wards.alone ps q t \<Longrightarrow> u \<noteq> t \<Longrightarrow> l \<in> holds (ps t) \<Longrightarrow> l \<in> holds (ps u) \<Longrightarrow> l \<in> enters (ps u)"
  by (auto simp: wards.alone_def)

section \<open>Roles\<close>

primrec role :: "actor \<Rightarrow> nat \<times> int" where
  "role (Main p) = (0, 0)"
| "role (Receptionist i p) = (1, i)"
| "role (Doorboy p) = (2, 0)"
| "role (Doctor i p) = (3, i)"
| "role (Cashier i p) = (4, i)"
| "role (Pharmacist i p) = (5, i)"
| "role (Manager p) = (6, 0)"
| "role (Patient p) = (7, 0)"

definition roles_ok :: "(tid \<Rightarrow> actor) \<Rightarrow> bool" where
  "roles_ok ps \<longleftrightarrow> (\<forall>t. role (ps t) = role (hospital_role t) \<and> (30 < t \<longrightarrow> ps t = Patient P_done))"

lemma step_role: "hospital p s = Inr (c, p', s') \<Longrightarrow> role p' = role p"
  by (cases p) (auto simp: as_actor_def res_simps)

lemma roles_ok_step: "roles_ok ps \<Longrightarrow> hospital (ps t) s = Inr (c, p', s') \<Longrightarrow> roles_ok (ps(t := p'))"
  using step_role [of "ps t" s c p' s'] by (auto simp: roles_ok_def as_actor_def)

lemma role_index:
  assumes "roles_ok ps"
  shows "ps t = Receptionist i p \<Longrightarrow> \<exists>c < 5. i = int c \<and> t = 1 + c" "ps t = Doctor i p1 \<Longrightarrow> \<exists>c < 3. i = int c \<and> t = 11 + c"
    "ps t = Cashier i p2 \<Longrightarrow> \<exists>c < 3. i = int c \<and> t = 14 + c" "ps t = Pharmacist i p3 \<Longrightarrow> \<exists>c < 3. i = int c \<and> t = 17 + c"
proof -
  have r: "role (ps t) = role (hospital_role t)" using assms by (simp add: roles_ok_def)
  show "\<exists>c < 5. i = int c \<and> t = 1 + c" if "ps t = Receptionist i p"
    using r that by (intro exI [of _ "t - 1"]) (auto simp: hospital_role_def split: if_splits)
  show "\<exists>c < 3. i = int c \<and> t = 11 + c" if "ps t = Doctor i p1"
    using r that by (intro exI [of _ "t - 11"]) (auto simp: hospital_role_def split: if_splits)
  show "\<exists>c < 3. i = int c \<and> t = 14 + c" if "ps t = Cashier i p2"
    using r that by (intro exI [of _ "t - 14"]) (auto simp: hospital_role_def split: if_splits)
  show "\<exists>c < 3. i = int c \<and> t = 17 + c" if "ps t = Pharmacist i p3"
    using r that by (intro exI [of _ "t - 17"]) (auto simp: hospital_role_def split: if_splits)
qed

lemma patient_thread:
  assumes "roles_ok ps" "ps t = Patient x" "x \<noteq> P_done"
  shows "t \<in> {21..30}"
proof -
  have "role (ps t) = role (hospital_role t)" "30 < t \<longrightarrow> ps t = Patient P_done" using assms(1) by (simp_all add: roles_ok_def)
  then show ?thesis using assms(2,3) by (auto simp: hospital_role_def hospital_threads_def hospital_sizes split: if_splits)
qed

lemma role_thread:
  assumes "roles_ok ps"
  shows "c < 5 \<Longrightarrow> \<exists>p. ps (1 + c) = Receptionist (int c) p" "c < 3 \<Longrightarrow> \<exists>p. ps (11 + c) = Doctor (int c) p"
    "c < 3 \<Longrightarrow> \<exists>p. ps (14 + c) = Cashier (int c) p" "c < 3 \<Longrightarrow> \<exists>p. ps (17 + c) = Pharmacist (int c) p"
proof -
  have r: "role (ps t) = role (hospital_role t)" for t using assms by (simp add: roles_ok_def)
  show "c < 5 \<Longrightarrow> \<exists>p. ps (1 + c) = Receptionist (int c) p" using r [of "1 + c"] by (cases "ps (1 + c)") (auto simp: hospital_role_def)
  show "c < 3 \<Longrightarrow> \<exists>p. ps (11 + c) = Doctor (int c) p" using r [of "11 + c"] by (cases "ps (11 + c)") (auto simp: hospital_role_def)
  show "c < 3 \<Longrightarrow> \<exists>p. ps (14 + c) = Cashier (int c) p" using r [of "14 + c"] by (cases "ps (14 + c)") (auto simp: hospital_role_def)
  show "c < 3 \<Longrightarrow> \<exists>p. ps (17 + c) = Pharmacist (int c) p" using r [of "17 + c"] by (cases "ps (17 + c)") (auto simp: hospital_role_def)
qed

section \<open>What patients carry\<close>

definition token_ok :: "int \<Rightarrow> bool" where "token_ok k \<longleftrightarrow> 0 \<le> k \<and> k < 10"

definition billed :: "Hospital \<Rightarrow> int \<Rightarrow> bool" where
  "billed s k \<longleftrightarrow> token_ok k \<and> 0 \<le> patient_consultancy_fee s ! nat k"

definition patient_ok :: "Hospital \<Rightarrow> patient_pc \<Rightarrow> bool" where
  "patient_ok s p \<longleftrightarrow> (case p of
     P_queue r \<Rightarrow> 0 \<le> r \<and> r < 5 | P_called r \<Rightarrow> 0 \<le> r \<and> r < 5 | P_leave r \<Rightarrow> 0 \<le> r \<and> r < 5 | P_desk r \<Rightarrow> 0 \<le> r \<and> r < 5
   | P_thank r k \<Rightarrow> 0 \<le> r \<and> r < 5 \<and> token_ok k
   | P_door k \<Rightarrow> token_ok k | P_door_line k \<Rightarrow> token_ok k | P_door_wait k \<Rightarrow> token_ok k | P_door_read k \<Rightarrow> token_ok k
   | P_door_leave k d \<Rightarrow> token_ok k \<and> 0 \<le> d \<and> d < 3 | P_doc k d \<Rightarrow> token_ok k \<and> 0 \<le> d \<and> d < 3
   | P_doc_in k d \<Rightarrow> token_ok k \<and> 0 \<le> d \<and> d < 3 | P_doc_sit k d \<Rightarrow> token_ok k \<and> 0 \<le> d \<and> d < 3
   | P_doc_hear k d \<Rightarrow> token_ok k \<and> 0 \<le> d \<and> d < 3
   | P_doc_leave k d g \<Rightarrow> billed s k \<and> 0 \<le> d \<and> d < 3 \<and> 0 \<le> g \<and> g < 5
   | P_cash k g \<Rightarrow> billed s k \<and> 0 \<le> g \<and> g < 5 | P_cash_line k g \<Rightarrow> billed s k \<and> 0 \<le> g \<and> g < 5
   | P_cash_wait k g \<Rightarrow> billed s k \<and> 0 \<le> g \<and> g < 5
   | P_cash_go k g c \<Rightarrow> billed s k \<and> 0 \<le> g \<and> g < 5 \<and> 0 \<le> c \<and> c < 3
   | P_cash_in k g c \<Rightarrow> billed s k \<and> 0 \<le> g \<and> g < 5 \<and> 0 \<le> c \<and> c < 3
   | P_cash_tell k g c \<Rightarrow> billed s k \<and> 0 \<le> g \<and> g < 5 \<and> 0 \<le> c \<and> c < 3
   | P_cash_pay k g c \<Rightarrow> billed s k \<and> 0 \<le> g \<and> g < 5 \<and> 0 \<le> c \<and> c < 3
   | P_cash_leave k g c \<Rightarrow> billed s k \<and> 0 \<le> g \<and> g < 5 \<and> 0 \<le> c \<and> c < 3
   | P_pharm k g \<Rightarrow> token_ok k \<and> 0 \<le> g \<and> g < 5 | P_pharm_line k g \<Rightarrow> token_ok k \<and> 0 \<le> g \<and> g < 5
   | P_pharm_wait k g \<Rightarrow> token_ok k \<and> 0 \<le> g \<and> g < 5
   | P_pharm_go k g c \<Rightarrow> token_ok k \<and> 0 \<le> g \<and> g < 5 \<and> 0 \<le> c \<and> c < 3
   | P_pharm_in k g c \<Rightarrow> token_ok k \<and> 0 \<le> g \<and> g < 5 \<and> 0 \<le> c \<and> c < 3
   | P_pharm_tell k g c \<Rightarrow> token_ok k \<and> 0 \<le> g \<and> g < 5 \<and> 0 \<le> c \<and> c < 3
   | P_pharm_pay c \<Rightarrow> 0 \<le> c \<and> c < 3 | P_pharm_leave c \<Rightarrow> 0 \<le> c \<and> c < 3
   | _ \<Rightarrow> True)"

definition carried_ok :: "Hospital \<Rightarrow> actor \<Rightarrow> bool" where
  "carried_ok s p = (case p of Patient x \<Rightarrow> patient_ok s x
     | Doorboy x \<Rightarrow> (case x of B_tell d \<Rightarrow> 0 \<le> d \<and> d < 3 | _ \<Rightarrow> True)
     | Doctor i x \<Rightarrow> (case x of D_think k n g \<Rightarrow> 0 \<le> g \<and> g < 5 | _ \<Rightarrow> True) | _ \<Rightarrow> True)"

lemma aget_Inr: "aget xs i = Inr v \<longleftrightarrow> 0 \<le> i \<and> i < int (length xs) \<and> v = xs ! nat i"
  by (auto simp: aget_def)

lemma aset_Inr: "aset xs i v = Inr ys \<longleftrightarrow> 0 \<le> i \<and> i < int (length xs) \<and> ys = xs[nat i := v]"
  by (auto simp: aset_def)

lemmas step_simps = as_actor_def res_simps aget_Inr aset_Inr obj_Inr Let_def hospital_sizes

section \<open>Cashiers\<close>

definition cash_visit :: "nat \<Rightarrow> actor \<Rightarrow> visitor option" where
  "cash_visit c p = (case p of
     Patient x \<Rightarrow> (case x of
         P_cash_go k g i \<Rightarrow> if i = int c then Some Coming else None
       | P_cash_in k g i \<Rightarrow> if i = int c then Some Coming else None
       | P_cash_tell k g i \<Rightarrow> if i = int c then Some (Telling k) else None
       | P_cash_pay k g i \<Rightarrow> if i = int c then Some (Asking k) else None
       | _ \<Rightarrow> None)
   | _ \<Rightarrow> None)"

definition cash_stage :: "actor \<Rightarrow> colleague" where
  "cash_stage p = (case p of
     Cashier i x \<Rightarrow> (case x of C_desk \<Rightarrow> Opening | C_ready \<Rightarrow> Opening | C_wait \<Rightarrow> Ready | C_serve \<Rightarrow> Asleep | C_charge fee \<Rightarrow> Reply | _ \<Rightarrow> Closed)
   | _ \<Rightarrow> Closed)"

definition cash_station :: "Hospital \<Rightarrow> actor station" where
  "cash_station s = \<lparr>visit = cash_visit, stage = cash_stage, first_thread = 14, bell = cashier_cv, free = (\<lambda>c. cashier_state s ! c = 0),
     asked = (\<lambda>c k. patient_cashier_bucket s ! c = k), answered = (\<lambda>c k. patient_cashier_bucket s ! c \<noteq> - 2),
     clear = (\<lambda>c. patient_cashier_bucket s ! c = - 2), repaid = (\<lambda>_. True)\<rparr>"

definition cash_ok :: "(tid \<Rightarrow> actor) \<Rightarrow> Hospital \<Rightarrow> queues \<Rightarrow> bool" where
  "cash_ok ps s q \<longleftrightarrow> length (patient_cashier_bucket s) = 3 \<and> row_ok (cash_station s) (cashier_state s) (cashier_available_count s) ps q"

lemma cash_station_sel [simp]:
  "visit (cash_station s) = cash_visit" "stage (cash_station s) = cash_stage" "first_thread (cash_station s) = 14"
  "bell (cash_station s) = cashier_cv" "same_desks (cash_station s) (cash_station s')" "free (cash_station s) c = (cashier_state s ! c = 0)"
  "asked (cash_station s) c = (\<lambda>k. patient_cashier_bucket s ! c = k)" "answered (cash_station s) c = (\<lambda>k. patient_cashier_bucket s ! c \<noteq> - 2)"
  "clear (cash_station s) c = (patient_cashier_bucket s ! c = - 2)" "repaid (cash_station s) c"
  by (simp_all add: cash_station_def same_desks_def)

definition cash_vars :: "Hospital \<Rightarrow> int list \<times> int \<times> int list" where
  "cash_vars s = (cashier_state s, cashier_available_count s, patient_cashier_bucket s)"

lemma cash_frame:
  assumes "cash_ok ps s q" "cash_vars s' = cash_vars s" "\<And>c. cash_visit c p' = cash_visit c (ps t)" "cash_stage p' = cash_stage (ps t)"
    and "\<And>c. q' (cashier_cv c) = q (cashier_cv c)"
  shows "cash_ok (ps(t := p')) s' q'"
proof -
  have "row_ok (cash_station s') (cashier_state s) (cashier_available_count s) (ps(t := p')) q'"
    by (rule row_frame [where D = "cash_station s" and q = q])
      (use assms in \<open>simp_all add: cash_ok_def keeps_desk_def cash_vars_def\<close>)
  then show ?thesis using assms(1,2) by (simp add: cash_ok_def cash_vars_def)
qed

text \<open>A cashier who has been woken finds the token of a patient who has been to the doctor.\<close>

lemma cash_woken:
  assumes carried: "\<And>u. carried_ok s (ps u)" and alone: "wards.alone ps q t" and t: "ps t = Cashier (int c) C_serve" "t = 14 + c"
    and w: "only (cash_visit c \<circ> ps) w" "at_desk (cash_station s) c Asleep w (q (cashier_cv c))"
  shows "\<exists>v k. w = Some (v, Asking k) \<and> patient_cashier_bucket s ! c = k \<and> billed s k \<and> at_desk (cash_station s) c Busy w (q (cashier_cv c))"
proof -
  have role: "cash_visit c (ps v) = Some a" if "w = Some (v, a)" for v a using only_role [of "cash_visit c \<circ> ps"] w(1) that by simp
  have "w \<noteq> Some (v, Telling k)" for v k
  proof
    assume "w = Some (v, Telling k)"
    then obtain g where v: "ps v = Patient (P_cash_tell k g (int c))"
      using role by (fastforce simp: cash_visit_def split: actor.splits patient_pc.splits if_splits)
    then have "v \<noteq> t" using t by auto
    with v show False using alone_lock [OF alone, of v "cashier_lock c"] t by (auto simp: patient_enters_def)
  qed
  then obtain v k where k: "w = Some (v, Asking k)" "patient_cashier_bucket s ! c = k" "at_desk (cash_station s) c Busy w (q (cashier_cv c))"
    using desk_woken [of t w _ _ _ _ _ "q (cashier_cv c)"] w(2) alone_unqueued [OF alone] t(2) unfolding at_desk_def by fastforce
  then obtain g where "ps v = Patient (P_cash_pay k g (int c))"
    using role by (fastforce simp: cash_visit_def split: actor.splits patient_pc.splits if_splits)
  then have "billed s k" using carried [of v] by (simp add: carried_ok_def patient_ok_def)
  then show ?thesis using k by blast
qed

lemma cash_colleague_step:
  assumes roles: "roles_ok ps" and ok: "cash_ok ps s q" and carried: "\<And>u. carried_ok s (ps u)" and alone: "wards.alone ps q t"
    and t: "ps t = Cashier i x" and run: "cashier i x s = Inr (co, x', s')"
  shows "cash_ok (ps(t := Cashier i x')) s' (step_queues t co q)"
proof -
  obtain c where c: "c < 3" "i = int c" "t = 14 + c" using role_index(3) [OF roles t] by blast
  have len: "length (cashier_state s) = 3" "length (patient_cashier_bucket s) = 3"
    and row: "row_ok (cash_station s) (cashier_state s) (cashier_available_count s) ps q"
    using ok by (simp_all add: cash_ok_def row_ok_def)
  have nv: "cash_visit d (Cashier i y) = cash_visit d (ps t)" for d y using t by (simp add: cash_visit_def)
  have same: ?thesis
    if "cash_vars s' = cash_vars s" "cash_stage (Cashier i x') = cash_stage (Cashier i x)"
      "\<And>c. step_queues t co q (cashier_cv c) = q (cashier_cv c)"
    by (rule cash_frame [OF ok that(1)]) (use that t in \<open>simp_all add: cash_visit_def\<close>)
  have step: ?thesis
    if "cash_vars s' = ((cashier_state s)[c := a], cashier_available_count s - of_bool (cashier_state s ! c = 0) + of_bool (a = 0),
          (patient_cashier_bucket s)[c := b])"
      "\<And>d. d \<noteq> c \<Longrightarrow> step_queues t co q (cashier_cv d) = q (cashier_cv d)"
      "\<And>w. only (cash_visit c \<circ> ps) w \<Longrightarrow> at_desk (cash_station s) c (cash_stage (Cashier i x)) w (q (cashier_cv c)) \<Longrightarrow>
        at_desk (cash_station s') c (cash_stage (Cashier i x')) w (step_queues t co q (cashier_cv c))" for a b
  proof -
    have "row_ok (cash_station s') ((cashier_state s)[c := a]) (cashier_available_count s') (ps(t := Cashier i x')) (step_queues t co q)"
      by (rule row_colleague [OF row _ c(1)]) (use that c t len nv in \<open>simp_all add: keeps_desk_def cash_vars_def\<close>)
    then show ?thesis using that(1) len by (simp add: cash_ok_def cash_vars_def)
  qed
  have still: ?thesis
    if "cash_vars s' = cash_vars s" "\<And>d. d \<noteq> c \<Longrightarrow> step_queues t co q (cashier_cv d) = q (cashier_cv d)"
      "\<And>w. at_desk (cash_station s) c (cash_stage (Cashier i x)) w (q (cashier_cv c)) \<Longrightarrow>
        at_desk (cash_station s) c (cash_stage (Cashier i x')) w (step_queues t co q (cashier_cv c))"
    by (rule step [where a = "cashier_state s ! c" and b = "patient_cashier_bucket s ! c"])
      (use that c in \<open>simp_all add: cash_vars_def cash_station_def\<close>)
  note nq = alone_unqueued [OF alone]
  have shut: "cashier_state s ! c \<noteq> 0" if "cash_stage (Cashier i x) = Closed"
    using row c that t by (auto simp: row_ok_def desk_def at_desk_def)
  have opens: ?thesis if "cash_stage (Cashier i x) = Closed" "cashier_opens i s = Inr (co, x', s')"
    using that shut [OF that(1)] c len
    by (intro step [where a = 0 and b = "patient_cashier_bucket s ! c"]) (auto simp: step_simps cashier_opens_def cash_stage_def at_desk_def cash_vars_def)
  show ?thesis
  proof (cases x)
    case C_start
    then show ?thesis using run by (intro same) (auto simp: cash_vars_def cash_stage_def)
  next
    case C_line
    show ?thesis
    proof (cases "number_of_patients_in_cashier_line s = 0")
      case True
      with C_line shut show ?thesis using run c len
        by (intro step [where a = 2 and b = "patient_cashier_bucket s ! c"]) (auto simp: step_simps cash_stage_def at_desk_def cash_vars_def)
    next
      case False
      with C_line show ?thesis using run by (intro opens) (auto simp: cash_stage_def)
    qed
  next
    case C_break
    then show ?thesis using run by (intro opens) (auto simp: cash_stage_def)
  next
    case C_desk
    then show ?thesis using run by (intro same) (auto simp: cash_vars_def cash_stage_def step_simps)
  next
    case C_ready
    then show ?thesis using run by (intro still) (auto simp: cash_vars_def cash_stage_def at_desk_def expecting_def)
  next
    case C_wait
    then show ?thesis using run c by (intro still) (auto simp: cash_vars_def cash_stage_def at_desk_def step_simps)
  next
    case C_serve
    have bill: "\<exists>v k. w = Some (v, Asking k) \<and> patient_cashier_bucket s ! c = k \<and> billed s k \<and> at_desk (cash_station s) c Busy w (q (cashier_cv c))"
      if "only (cash_visit c \<circ> ps) w" "at_desk (cash_station s) c Asleep w (q (cashier_cv c))" for w
      using cash_woken [OF carried alone _ c(3) that] t C_serve c(2) by simp
    let ?b = "patient_consultancy_fee s ! nat (patient_cashier_bucket s ! c)"
    show ?thesis
      using C_serve run c len
      by (intro step [where a = "cashier_state s ! c" and b = ?b])
        (auto simp: step_simps cash_stage_def at_desk_def billed_def cash_vars_def dest!: bill)
  next
    case (C_charge fee)
    show ?thesis
    proof (cases "patient_cashier_bucket s ! c = - 2")
      case True
      then show ?thesis using C_charge run c by (intro still) (auto simp: step_simps cash_vars_def cash_stage_def at_desk_def)
    next
      case False
      then show ?thesis using C_charge run c nq [of "cashier_cv c"] by (intro still) (auto simp: step_simps cash_vars_def cash_stage_def at_desk_def)
    qed
  qed (use run c in \<open>(intro same; auto simp: cash_vars_def cash_stage_def step_simps)\<close>)+
qed

lemma cash_choose:
  assumes roles: "roles_ok ps" and ok: "cash_ok ps s q" and alone: "wards.alone ps q t"
    and t: "ps t = Patient x" "cashier_line_lock \<in> patient_holds x" "\<And>c. cash_visit c (ps t) = None"
    and run: "choose_cashier k g sa = Inr (co, x', s')" "cash_vars sa = cash_vars s"
  shows "cash_ok (ps(t := Patient x')) s' (step_queues t co q)"
proof (cases "cashier_available_count sa = 0")
  case True
  then show ?thesis using run t by (intro cash_frame [OF ok]) (auto simp: choose_cashier_def cash_visit_def cash_stage_def cash_vars_def)
next
  case False
  then have "zeros (cashier_state s) \<noteq> 0" using ok run(2) by (simp add: cash_ok_def row_ok_def cash_vars_def)
  then obtain c where c: "c < length (cashier_state s)" "find_free (cashier_state s) 0 = int c" "cashier_state s ! c = 0" using zeros_find by blast
  have c3: "c < 3" using c(1) ok by (simp add: cash_ok_def row_ok_def)
  have s': "co = Some (Release cashier_line_lock)" "x' = P_cash_go k g (int c)" "cashier_state s' = (cashier_state s)[c := 1]"
    "patient_cashier_bucket s' = patient_cashier_bucket s" "cashier_available_count s' = cashier_available_count s - 1"
    using run False c by (auto simp: choose_cashier_def step_simps cash_vars_def)
  obtain y where y: "ps (14 + c) = Cashier (int c) y" using role_thread(3) [OF roles c3] by blast
  have nt: "t \<noteq> 14 + d" if "d < 3" for d using role_thread(3) [OF roles that] t(1) by auto
  have "cash_stage (ps (14 + c)) \<noteq> Opening"
    using alone_lock [OF alone, of "14 + c" cashier_line_lock] y t nt [OF c3]
    by (cases y) (auto simp: cash_stage_def cashier_enters_def hospital_locks)
  then have "row_ok (cash_station s') ((cashier_state s)[c := 1]) (cashier_available_count s') (ps(t := Patient x')) (step_queues t co q)"
    by (intro row_reserve [where D = "cash_station s" and q = q]) (use ok s' c c3 t nt in \<open>simp_all add: cash_ok_def cash_visit_def\<close>)
  then show ?thesis using s' ok by (simp add: cash_ok_def)
qed

lemma cash_patient_step:
  assumes roles: "roles_ok ps" and ok: "cash_ok ps s q" and alone: "wards.alone ps q t"
    and t: "ps t = Patient x" and run: "patient x s = Inr (co, x', s')"
  shows "cash_ok (ps(t := Patient x')) s' (step_queues t co q)"
proof -
  have nt: "t \<noteq> 14 + d" if "d < 3" for d using role_thread(3) [OF roles that] t by auto
  have len: "length (patient_cashier_bucket s) = 3" using ok by (simp add: cash_ok_def)
  note nq = alone_unqueued [OF alone]
  have same: ?thesis
    if "cash_vars s' = cash_vars s" "\<And>c. cash_visit c (Patient x') = cash_visit c (Patient x)"
      "\<And>c. step_queues t co q (cashier_cv c) = q (cashier_cv c)"
    by (rule cash_frame [OF ok that(1)]) (use that t in \<open>simp_all add: cash_stage_def\<close>)
  have busy: "cash_stage (ps (14 + c)) \<noteq> Ready" if "c < 3" "cashier_lock c \<in> patient_holds x" for c
  proof -
    obtain y where y: "ps (14 + c) = Cashier (int c) y" using role_thread(3) [OF roles \<open>c < 3\<close>] by blast
    then show ?thesis using alone_lock [OF alone, of "14 + c" "cashier_lock c"] nt [OF that(1)] t that(2)
      by (cases y) (auto simp: cash_stage_def cashier_enters_def)
  qed
  have give: "cash_stage p \<noteq> Give" for p by (simp add: cash_stage_def split: actor.split cashier_pc.split)
  have step: ?thesis
    if "c < 3" "cash_visit c (ps t) = Some a" "cash_vars s' = (cashier_state s, cashier_available_count s, (patient_cashier_bucket s)[c := b])"
      "\<And>d. d \<noteq> c \<Longrightarrow> cash_visit d (Patient x') = cash_visit d (ps t)" "\<And>d. d \<noteq> c \<Longrightarrow> step_queues t co q (cashier_cv d) = q (cashier_cv d)"
      "at_desk (cash_station s) c (cash_stage (ps (14 + c))) (Some (t, a)) (q (cashier_cv c)) \<Longrightarrow>
        at_desk (cash_station s') c (cash_stage (ps (14 + c))) (map_option (Pair t) (cash_visit c (Patient x'))) (step_queues t co q (cashier_cv c))"
    for c a b
  proof -
    have "row_ok (cash_station s') (cashier_state s) (cashier_available_count s) (ps(t := Patient x')) (step_queues t co q)"
      by (rule row_visitor [where D = "cash_station s" and q = q and c = c and a = a])
        (use that ok nt in \<open>simp_all add: cash_ok_def keeps_desk_def cash_vars_def\<close>)
    then show ?thesis using that(3) len by (simp add: cash_ok_def cash_vars_def)
  qed
  show ?thesis
  proof (cases x)
    case (P_cash_line k g)
    let ?s = "s\<lparr>number_of_patients_in_cashier_line := number_of_patients_in_cashier_line s + 1\<rparr>"
    show ?thesis using P_cash_line run t by (intro cash_choose [OF roles ok alone t, where sa = ?s]) (auto simp: cash_visit_def cash_vars_def)
  next
    case (P_cash_wait k g)
    then show ?thesis using run t by (intro cash_choose [OF roles ok alone t, where sa = s]) (auto simp: cash_visit_def cash_vars_def)
  next
    case (P_cash_in k g i)
    then have i: "0 \<le> i" "i < 3" using run by (auto simp: step_simps)
    show ?thesis using P_cash_in run t i busy [of "nat i"] desk_called
      by (intro step [where c = "nat i" and a = Coming and b = "patient_cashier_bucket s ! nat i"])
        (auto simp: step_simps cash_visit_def cash_vars_def at_desk_def)
  next
    case (P_cash_tell k g i)
    then have i: "0 \<le> i" "i < 3" using run by (auto simp: step_simps)
    show ?thesis using P_cash_tell run t i len desk_told
      by (intro step [where c = "nat i" and a = "Telling k" and b = k]) (auto simp: step_simps cash_visit_def cash_vars_def at_desk_def)
  next
    case (P_cash_pay k g i)
    then have i: "0 \<le> i" "i < 3" using run by (auto simp: step_simps)
    show ?thesis using P_cash_pay run t i len desk_left nq give
      by (intro step [where c = "nat i" and a = "Asking k" and b = "- 2"]) (auto simp: step_simps cash_visit_def cash_vars_def at_desk_def)
  qed (use run in \<open>(intro same; auto simp: cash_vars_def cash_visit_def step_simps choose_pharmacist_def split: if_splits)\<close>)+
qed

section \<open>Pharmacists\<close>

definition pharm_visit :: "nat \<Rightarrow> actor \<Rightarrow> visitor option" where
  "pharm_visit c p = (case p of
     Patient x \<Rightarrow> (case x of
         P_pharm_go k g i \<Rightarrow> if i = int c then Some Coming else None
       | P_pharm_in k g i \<Rightarrow> if i = int c then Some Coming else None
       | P_pharm_tell k g i \<Rightarrow> if i = int c then Some (Telling 0) else None
       | P_pharm_pay i \<Rightarrow> if i = int c then Some (Asking 0) else None
       | _ \<Rightarrow> None)
   | _ \<Rightarrow> None)"

definition pharm_stage :: "actor \<Rightarrow> colleague" where
  "pharm_stage p = (case p of
     Pharmacist i x \<Rightarrow> (case x of H_desk \<Rightarrow> Opening | H_ready \<Rightarrow> Opening | H_wait \<Rightarrow> Ready | H_serve \<Rightarrow> Asleep | H_give \<Rightarrow> Give
       | H_paid \<Rightarrow> Paid | H_pay \<Rightarrow> Paid | _ \<Rightarrow> Closed)
   | _ \<Rightarrow> Closed)"

definition pharm_station :: "Hospital \<Rightarrow> actor station" where
  "pharm_station s = \<lparr>visit = pharm_visit, stage = pharm_stage, first_thread = 17, bell = pharmacist_cv, free = (\<lambda>c. pharmacist_status s ! c = 0),
     asked = (\<lambda>c k. to_pharmacist_patient_token_bucket s ! c \<noteq> - 2 \<and> 0 \<le> to_pharmacist_prescription_bucket s ! c \<and> to_pharmacist_prescription_bucket s ! c < 5),
     answered = (\<lambda>c k. 0 \<le> to_patient_medicine_bill_bucket s ! c), clear = (\<lambda>_. True),
     repaid = (\<lambda>c. to_pharmacist_medicine_payment_bucket s ! c \<noteq> - 2)\<rparr>"

definition pharm_boxes :: "Hospital \<Rightarrow> int list list" where
  "pharm_boxes s = [to_pharmacist_patient_token_bucket s, to_pharmacist_prescription_bucket s, to_patient_medicine_bucket s,
     to_patient_medicine_bill_bucket s, to_pharmacist_medicine_payment_bucket s]"

definition pharm_ok :: "(tid \<Rightarrow> actor) \<Rightarrow> Hospital \<Rightarrow> queues \<Rightarrow> bool" where
  "pharm_ok ps s q \<longleftrightarrow> (\<forall>b \<in> set (pharm_boxes s). length b = 3) \<and>
     row_ok (pharm_station s) (pharmacist_status s) (pharmacist_available_count s) ps q"

lemma pharm_station_sel [simp]:
  "visit (pharm_station s) = pharm_visit" "stage (pharm_station s) = pharm_stage" "first_thread (pharm_station s) = 17"
  "bell (pharm_station s) = pharmacist_cv" "same_desks (pharm_station s) (pharm_station s')" "free (pharm_station s) c = (pharmacist_status s ! c = 0)"
  "asked (pharm_station s) c =
     (\<lambda>k. to_pharmacist_patient_token_bucket s ! c \<noteq> - 2 \<and> 0 \<le> to_pharmacist_prescription_bucket s ! c \<and> to_pharmacist_prescription_bucket s ! c < 5)"
  "answered (pharm_station s) c = (\<lambda>k. 0 \<le> to_patient_medicine_bill_bucket s ! c)" "clear (pharm_station s) c"
  "repaid (pharm_station s) c = (to_pharmacist_medicine_payment_bucket s ! c \<noteq> - 2)"
  by (simp_all add: pharm_station_def same_desks_def)

definition pharm_vars :: "Hospital \<Rightarrow> int list \<times> int \<times> int list list" where
  "pharm_vars s = (pharmacist_status s, pharmacist_available_count s, pharm_boxes s)"

lemma pharm_frame:
  assumes "pharm_ok ps s q" "pharm_vars s' = pharm_vars s" "\<And>c. pharm_visit c p' = pharm_visit c (ps t)" "pharm_stage p' = pharm_stage (ps t)"
    and "\<And>c. q' (pharmacist_cv c) = q (pharmacist_cv c)"
  shows "pharm_ok (ps(t := p')) s' q'"
proof -
  have "row_ok (pharm_station s') (pharmacist_status s) (pharmacist_available_count s) (ps(t := p')) q'"
    by (rule row_frame [where D = "pharm_station s" and q = q])
      (use assms in \<open>simp_all add: pharm_ok_def keeps_desk_def pharm_vars_def pharm_boxes_def\<close>)
  then show ?thesis using assms(1,2) by (simp add: pharm_ok_def pharm_vars_def)
qed

text \<open>A step at desk \<open>c\<close> may change the boxes there.\<close>

definition boxes_at :: "nat \<Rightarrow> int list list \<Rightarrow> int list list \<Rightarrow> bool" where
  "boxes_at c bs bs' \<longleftrightarrow> list_all2 (\<lambda>b b'. \<exists>x. b' = b[c := x]) bs bs'"

lemma boxes_at_same: "boxes_at c bs bs"
  by (auto simp: boxes_at_def list_all2_same intro: list_update_id [symmetric])

lemma list_update_ex: "\<exists>x. b[c := v] = b[c := x]" "\<exists>x. b = b[c := x]"
  by (blast, metis list_update_id)

lemma pharm_boxes_at:
  assumes "boxes_at c (pharm_boxes s) (pharm_boxes s')" "d \<noteq> c" "\<And>d. d \<noteq> c \<Longrightarrow> free (pharm_station s') d = free (pharm_station s) d"
  shows "keeps_desk (pharm_station s) (pharm_station s') d"
  using assms by (auto simp: boxes_at_def pharm_boxes_def keeps_desk_def)

lemma boxes_at_length: "boxes_at c bs bs' \<Longrightarrow> (\<forall>b \<in> set bs. length b = n) \<Longrightarrow> (\<forall>b \<in> set bs'. length b = n)"
  unfolding boxes_at_def by (fastforce simp: list_all2_conv_all_nth set_conv_nth)

lemma medicine_cost: "0 \<le> i \<Longrightarrow> i < 5 \<Longrightarrow> 0 \<le> medicine_costs ! nat i"
  by (cases "nat i") (auto simp: medicine_costs_def nth_Cons' )

lemma pharm_woken:
  assumes alone: "wards.alone ps q t" and t: "ps t = Pharmacist (int c) H_serve" "t = 17 + c"
    and w: "only (pharm_visit c \<circ> ps) w" "at_desk (pharm_station s) c Asleep w (q (pharmacist_cv c))"
  shows "at_desk (pharm_station s) c Busy w (q (pharmacist_cv c))"
proof -
  have "w \<noteq> Some (v, Telling k)" for v k
  proof
    assume "w = Some (v, Telling k)"
    then have "pharm_visit c (ps v) = Some (Telling k)" using only_role [of "pharm_visit c \<circ> ps"] w(1) by simp
    then obtain k g where v: "ps v = Patient (P_pharm_tell k g (int c))"
      by (auto simp: pharm_visit_def split: actor.splits patient_pc.splits if_splits)
    then have "v \<noteq> t" using t by auto
    with v show False using alone_lock [OF alone, of v "pharmacist_lock c"] t by (auto simp: patient_enters_def)
  qed
  then show ?thesis using desk_woken [of t w _ _ _ _ _ "q (pharmacist_cv c)"] w(2) alone_unqueued [OF alone] t(2) unfolding at_desk_def by fastforce
qed

lemma pharm_colleague_step:
  assumes roles: "roles_ok ps" and ok: "pharm_ok ps s q" and alone: "wards.alone ps q t"
    and t: "ps t = Pharmacist i x" and run: "pharmacist i x s = Inr (co, x', s')"
  shows "pharm_ok (ps(t := Pharmacist i x')) s' (step_queues t co q)"
proof -
  obtain c where c: "c < 3" "i = int c" "t = 17 + c" using role_index(4) [OF roles t] by blast
  have len: "length (pharmacist_status s) = 3" "\<forall>b \<in> set (pharm_boxes s). length b = 3"
    and row: "row_ok (pharm_station s) (pharmacist_status s) (pharmacist_available_count s) ps q"
    using ok by (simp_all add: pharm_ok_def row_ok_def)
  have nv: "pharm_visit d (Pharmacist i y) = pharm_visit d (ps t)" for d y using t by (simp add: pharm_visit_def)
  have same: ?thesis
    if "pharm_vars s' = pharm_vars s" "pharm_stage (Pharmacist i x') = pharm_stage (Pharmacist i x)"
      "\<And>c. step_queues t co q (pharmacist_cv c) = q (pharmacist_cv c)"
    by (rule pharm_frame [OF ok that(1)]) (use that t in \<open>simp_all add: pharm_visit_def\<close>)
  have step: ?thesis
    if "pharmacist_status s' = (pharmacist_status s)[c := a]"
      "pharmacist_available_count s' = pharmacist_available_count s - of_bool (pharmacist_status s ! c = 0) + of_bool (a = 0)"
      "boxes_at c (pharm_boxes s) (pharm_boxes s')"
      "\<And>d. d \<noteq> c \<Longrightarrow> step_queues t co q (pharmacist_cv d) = q (pharmacist_cv d)"
      "\<And>w. only (pharm_visit c \<circ> ps) w \<Longrightarrow> at_desk (pharm_station s) c (pharm_stage (Pharmacist i x)) w (q (pharmacist_cv c)) \<Longrightarrow>
        at_desk (pharm_station s') c (pharm_stage (Pharmacist i x')) w (step_queues t co q (pharmacist_cv c))" for a
  proof -
    have "row_ok (pharm_station s') ((pharmacist_status s)[c := a]) (pharmacist_available_count s') (ps(t := Pharmacist i x')) (step_queues t co q)"
      by (rule row_colleague [OF row _ c(1)]) (use that c t len nv in \<open>simp_all add: pharm_boxes_at\<close>)
    then show ?thesis using that(1) boxes_at_length [OF that(3) len(2)] by (simp add: pharm_ok_def)
  qed
  have still: ?thesis
    if "s' = s" "\<And>d. d \<noteq> c \<Longrightarrow> step_queues t co q (pharmacist_cv d) = q (pharmacist_cv d)"
      "\<And>w. at_desk (pharm_station s) c (pharm_stage (Pharmacist i x)) w (q (pharmacist_cv c)) \<Longrightarrow>
        at_desk (pharm_station s) c (pharm_stage (Pharmacist i x')) w (step_queues t co q (pharmacist_cv c))"
    by (rule step [where a = "pharmacist_status s ! c"]) (use that boxes_at_same in \<open>simp_all\<close>)
  note nq = alone_unqueued [OF alone]
  have shut: "pharmacist_status s ! c \<noteq> 0" if "pharm_stage (Pharmacist i x) = Closed"
    using row c that t by (auto simp: row_ok_def desk_def at_desk_def)
  have opens: ?thesis if "pharm_stage (Pharmacist i x) = Closed" "pharmacist_opens i s = Inr (co, x', s')"
    using that shut [OF that(1)] c len(1)
    by (intro step [where a = 0]) (auto simp: step_simps pharmacist_opens_def pharm_stage_def at_desk_def pharm_boxes_def boxes_at_def list_update_ex)
  show ?thesis
  proof (cases x)
    case H_line
    show ?thesis
    proof (cases "pharmacist_line_length s = 0")
      case True
      with H_line shut show ?thesis using run c len(1)
        by (intro step [where a = 2]) (auto simp: step_simps pharm_stage_def at_desk_def pharm_boxes_def boxes_at_def list_update_ex)
    next
      case False
      with H_line show ?thesis using run by (intro opens) (auto simp: pharm_stage_def)
    qed
  next
    case H_break
    then show ?thesis using run by (intro opens) (auto simp: pharm_stage_def)
  next
    case H_ready
    then show ?thesis using run by (intro still) (auto simp: pharm_stage_def at_desk_def expecting_def)
  next
    case H_wait
    then show ?thesis using run c by (intro still) (auto simp: pharm_stage_def at_desk_def step_simps)
  next
    case H_serve
    have call: "at_desk (pharm_station s) c Busy w (q (pharmacist_cv c))"
      if "only (pharm_visit c \<circ> ps) w" "at_desk (pharm_station s) c Asleep w (q (pharmacist_cv c))" for w
      using pharm_woken [OF alone _ c(3) that] t H_serve c(2) by simp
    have boxes: "boxes_at c (pharm_boxes s) (pharm_boxes s')" using H_serve run c by (auto simp: step_simps pharm_boxes_def boxes_at_def list_update_ex)
    show ?thesis using H_serve run c len
      by (intro step [where a = "pharmacist_status s ! c", OF _ _ boxes])
        (auto simp: step_simps pharm_stage_def pharm_boxes_def at_desk_def medicine_cost dest!: call)
  next
    case H_give
    then show ?thesis using run c by (intro still) (auto simp: step_simps pharm_stage_def at_desk_def)
  next
    case H_pay
    have boxes: "boxes_at c (pharm_boxes s) (pharm_boxes s')" using H_pay run c by (auto simp: step_simps pharm_boxes_def boxes_at_def list_update_ex)
    show ?thesis using H_pay run c len nq [of "pharmacist_cv c"]
      by (intro step [where a = "pharmacist_status s ! c", OF _ _ boxes])
        (auto simp: step_simps pharm_stage_def pharm_boxes_def at_desk_def)
  qed (use run c in \<open>(intro same; auto simp: pharm_vars_def pharm_boxes_def pharm_stage_def step_simps)\<close>)+
qed

lemma pharm_choose:
  assumes roles: "roles_ok ps" and ok: "pharm_ok ps s q" and alone: "wards.alone ps q t"
    and t: "ps t = Patient x" "pharmacist_line_lock \<in> patient_holds x" "\<And>c. pharm_visit c (ps t) = None"
    and run: "choose_pharmacist k g sa = Inr (co, x', s')" "pharm_vars sa = pharm_vars s"
  shows "pharm_ok (ps(t := Patient x')) s' (step_queues t co q)"
proof (cases "pharmacist_available_count sa = 0")
  case True
  then show ?thesis using run t by (intro pharm_frame [OF ok]) (auto simp: choose_pharmacist_def pharm_visit_def pharm_stage_def pharm_vars_def)
next
  case False
  then have "zeros (pharmacist_status s) \<noteq> 0" using ok run(2) by (simp add: pharm_ok_def row_ok_def pharm_vars_def)
  then obtain c where c: "c < length (pharmacist_status s)" "find_free (pharmacist_status s) 0 = int c" "pharmacist_status s ! c = 0" using zeros_find by blast
  have c3: "c < 3" using c(1) ok by (simp add: pharm_ok_def row_ok_def)
  have s': "co = Some (Release pharmacist_line_lock)" "x' = P_pharm_go k g (int c)" "pharmacist_status s' = (pharmacist_status s)[c := 1]"
    "pharm_boxes s' = pharm_boxes s" "pharmacist_available_count s' = pharmacist_available_count s - 1"
    using run False c by (auto simp: choose_pharmacist_def step_simps pharm_vars_def pharm_boxes_def)
  obtain y where y: "ps (17 + c) = Pharmacist (int c) y" using role_thread(4) [OF roles c3] by blast
  have nt: "t \<noteq> 17 + d" if "d < 3" for d using role_thread(4) [OF roles that] t(1) by auto
  have "pharm_stage (ps (17 + c)) \<noteq> Opening"
    using alone_lock [OF alone, of "17 + c" pharmacist_line_lock] y t nt [OF c3]
    by (cases y) (auto simp: pharm_stage_def pharmacist_enters_def hospital_locks)
  then have "row_ok (pharm_station s') ((pharmacist_status s)[c := 1]) (pharmacist_available_count s') (ps(t := Patient x')) (step_queues t co q)"
    by (intro row_reserve [where D = "pharm_station s" and q = q])
      (use ok s' c c3 t nt in \<open>simp_all add: pharm_ok_def pharm_boxes_def pharm_visit_def\<close>)
  then show ?thesis using s' ok by (simp add: pharm_ok_def)
qed

lemma pharm_patient_step:
  assumes roles: "roles_ok ps" and ok: "pharm_ok ps s q" and carried: "\<And>u. carried_ok s (ps u)" and alone: "wards.alone ps q t"
    and t: "ps t = Patient x" and run: "patient x s = Inr (co, x', s')"
  shows "pharm_ok (ps(t := Patient x')) s' (step_queues t co q)"
proof -
  have nt: "t \<noteq> 17 + d" if "d < 3" for d using role_thread(4) [OF roles that] t by auto
  have len: "\<forall>b \<in> set (pharm_boxes s). length b = 3" using ok by (simp add: pharm_ok_def)
  note nq = alone_unqueued [OF alone]
  have same: ?thesis
    if "pharm_vars s' = pharm_vars s" "\<And>c. pharm_visit c (Patient x') = pharm_visit c (Patient x)"
      "\<And>c. step_queues t co q (pharmacist_cv c) = q (pharmacist_cv c)"
    by (rule pharm_frame [OF ok that(1)]) (use that t in \<open>simp_all add: pharm_stage_def\<close>)
  have busy: "pharm_stage (ps (17 + c)) \<noteq> Ready \<and> pharm_stage (ps (17 + c)) \<noteq> Give" if "c < 3" "pharmacist_lock c \<in> patient_holds x" for c
  proof -
    obtain y where y: "ps (17 + c) = Pharmacist (int c) y" using role_thread(4) [OF roles \<open>c < 3\<close>] by blast
    then show ?thesis using alone_lock [OF alone, of "17 + c" "pharmacist_lock c"] nt [OF that(1)] t that(2)
      by (cases y) (auto simp: pharm_stage_def pharmacist_enters_def)
  qed
  have step: ?thesis
    if "c < 3" "pharm_visit c (ps t) = Some a" "pharmacist_status s' = pharmacist_status s" "pharmacist_available_count s' = pharmacist_available_count s"
      "boxes_at c (pharm_boxes s) (pharm_boxes s')"
      "\<And>d. d \<noteq> c \<Longrightarrow> pharm_visit d (Patient x') = pharm_visit d (ps t)" "\<And>d. d \<noteq> c \<Longrightarrow> step_queues t co q (pharmacist_cv d) = q (pharmacist_cv d)"
      "at_desk (pharm_station s) c (pharm_stage (ps (17 + c))) (Some (t, a)) (q (pharmacist_cv c)) \<Longrightarrow>
        at_desk (pharm_station s') c (pharm_stage (ps (17 + c))) (map_option (Pair t) (pharm_visit c (Patient x'))) (step_queues t co q (pharmacist_cv c))"
    for c a
  proof -
    have "row_ok (pharm_station s') (pharmacist_status s) (pharmacist_available_count s) (ps(t := Patient x')) (step_queues t co q)"
      by (rule row_visitor [where D = "pharm_station s" and q = q and c = c and a = a])
        (use that ok nt in \<open>simp_all add: pharm_ok_def pharm_boxes_at\<close>)
    then show ?thesis using that(3,4) boxes_at_length [OF that(5) len] by (simp add: pharm_ok_def)
  qed
  show ?thesis
  proof (cases x)
    case (P_pharm_line k g)
    let ?s = "s\<lparr>pharmacist_line_length := pharmacist_line_length s + 1\<rparr>"
    show ?thesis using P_pharm_line run t by (intro pharm_choose [OF roles ok alone t, where sa = ?s]) (auto simp: pharm_visit_def pharm_vars_def pharm_boxes_def)
  next
    case (P_pharm_wait k g)
    then show ?thesis using run t by (intro pharm_choose [OF roles ok alone t, where sa = s]) (auto simp: pharm_visit_def pharm_vars_def)
  next
    case (P_pharm_in k g i)
    then have i: "0 \<le> i" "i < 3" using run by (auto simp: step_simps)
    have "s' = s" using P_pharm_in run by (auto simp: step_simps)
    then have b: "boxes_at (nat i) (pharm_boxes s) (pharm_boxes s')" using boxes_at_same by simp
    show ?thesis using P_pharm_in run t i busy [of "nat i"] desk_called
      by (intro step [where c = "nat i" and a = Coming, OF _ _ _ _ b]) (auto simp: step_simps pharm_visit_def at_desk_def)
  next
    case (P_pharm_tell k g i)
    then have i: "0 \<le> i" "i < 3" using run by (auto simp: step_simps)
    have b: "boxes_at (nat i) (pharm_boxes s) (pharm_boxes s')" using P_pharm_tell run by (auto simp: step_simps pharm_boxes_def boxes_at_def list_update_ex)
    have g: "0 \<le> k" "0 \<le> g" "g < 5" using carried [of t] t P_pharm_tell by (simp_all add: carried_ok_def patient_ok_def token_ok_def)
    show ?thesis using P_pharm_tell run t i len g desk_told
      by (intro step [where c = "nat i" and a = "Telling 0", OF _ _ _ _ b]) (auto simp: step_simps pharm_visit_def pharm_boxes_def at_desk_def)
  next
    case (P_pharm_pay i)
    then have i: "0 \<le> i" "i < 3" using run by (auto simp: step_simps)
    have b: "boxes_at (nat i) (pharm_boxes s) (pharm_boxes s')" using P_pharm_pay run by (auto simp: step_simps pharm_boxes_def boxes_at_def list_update_ex)
    have "desk (pharm_station s) ps q (nat i)" using ok i by (simp add: pharm_ok_def row_ok_def)
    then have "at_desk (pharm_station s) (nat i) (pharm_stage (ps (17 + nat i))) (Some (t, Asking 0)) (q (pharmacist_cv (nat i)))"
      using desk_at [of "pharm_station s" ps q "nat i" t "Asking 0"] t P_pharm_pay i by (simp add: pharm_visit_def)
    then have bill: "0 \<le> to_patient_medicine_bill_bucket s ! nat i" using desk_answered nq unfolding at_desk_def by fastforce
    show ?thesis using P_pharm_pay run t i len bill desk_left nq busy [of "nat i"]
      by (intro step [where c = "nat i" and a = "Asking 0", OF _ _ _ _ b]) (auto simp: step_simps pharm_visit_def pharm_boxes_def at_desk_def)
  qed (use run in \<open>(intro same; auto simp: pharm_vars_def pharm_boxes_def pharm_visit_def step_simps choose_cashier_def split: if_splits)\<close>)+
qed

end
