(* ===== verification/Nachos_Door.thy ===== *)
theory Nachos_Door
  imports Nachos_Rounds
begin

text \<open>
  The parts of the invariant of the hospital simulation for the door-boys, who hand free doctors over to patients, and for the doctors.
\<close>

section \<open>Handing over a doctor\<close>

text \<open>
  A door-boy who has found a doctor keeps the lock of the doctors until a patient has read which one. At most
  one door-boy does so at a time, and at most one patient has been called and has not read yet.
\<close>

definition doorboy_part :: "actor \<Rightarrow> nat option" where
  "doorboy_part p = (case p of Doorboy x \<Rightarrow> (case x of B_tell d \<Rightarrow> Some 0 | B_told \<Rightarrow> Some 1 | B_confirmed \<Rightarrow> Some 2 | _ \<Rightarrow> None) | _ \<Rightarrow> None)"

definition at_door :: "actor \<Rightarrow> bool" where
  "at_door p = (case p of Patient x \<Rightarrow> (case x of P_door_read k \<Rightarrow> True | _ \<Rightarrow> False) | _ \<Rightarrow> False)"

definition called :: "queues \<Rightarrow> (tid \<Rightarrow> actor) \<Rightarrow> tid \<Rightarrow> unit option" where
  "called q ps t = (if at_door (ps t) \<and> t \<notin> set (q doorboy_line_empty_cv) then Some () else None)"

definition no_doctor :: "(tid \<times> unit) option \<Rightarrow> int \<Rightarrow> tid list \<Rightarrow> bool" where
  "no_doctor r d qr \<longleftrightarrow> r = None \<and> d = - 2 \<and> qr = []"

definition handing :: "(tid \<times> nat) option \<Rightarrow> (tid \<times> unit) option \<Rightarrow> int \<Rightarrow> tid list \<Rightarrow> bool" where
  "handing w r d qr \<longleftrightarrow> (case w of None \<Rightarrow> no_doctor r d qr
     | Some (b, part) \<Rightarrow>
         if part = 0 then no_doctor r d qr
         else if part = 1 then 0 \<le> d \<and> d < 3 \<and> qr = []
         else 0 \<le> d \<and> d < 3 \<and> qr = [b] \<or> no_doctor r d qr)"

definition door_ok :: "(tid \<Rightarrow> actor) \<Rightarrow> Hospital \<Rightarrow> queues \<Rightarrow> bool" where
  "door_ok ps s q \<longleftrightarrow> (\<exists>w r. only (doorboy_part \<circ> ps) w \<and> only (called q ps) r \<and>
     handing w r (next_available_doctor s) (q patient_read_next_available_doctor_cv))"

lemma door_frame:
  assumes "door_ok ps s q" "next_available_doctor s' = next_available_doctor s" "doorboy_part p' = doorboy_part (ps t)" "at_door p' = at_door (ps t)"
    and "q' patient_read_next_available_doctor_cv = q patient_read_next_available_doctor_cv" "q' doorboy_line_empty_cv = q doorboy_line_empty_cv"
  shows "door_ok (ps(t := p')) s' q'"
proof -
  have "doorboy_part \<circ> ps(t := p') = doorboy_part \<circ> ps" "called q' (ps(t := p')) = called q ps"
    using assms(3,4,6) by (auto simp: fun_eq_iff called_def)
  then show ?thesis using assms by (simp add: door_ok_def)
qed

lemma door_busy:
  assumes alone: "wards.alone ps q t" and l: "doctor_doorboy_lock \<in> holds (ps t)" and w: "only (doorboy_part \<circ> ps) w" "doorboy_part (ps t) = None"
  shows "w = None"
proof (rule ccontr)
  assume "w \<noteq> None"
  then obtain v a where "w = Some (v, a)" by auto
  then have v: "doorboy_part (ps v) = Some a" using only_role [of "doorboy_part \<circ> ps"] w(1) by simp
  then have "v \<noteq> t" using w(2) by auto
  then show False using alone_lock [OF alone _ l, of v] v
    by (auto simp: doorboy_part_def doorboy_enters_def hospital_locks split: actor.splits doorboy_pc.splits)
qed

text \<open>Waking the first patient of the queue, when nobody is on the way.\<close>

lemma called_tl:
  assumes "only (called q ps) None" "\<not> at_door p'" "\<not> at_door (ps t)"
  shows "\<exists>r. only (called (q(doorboy_line_empty_cv := tl (q doorboy_line_empty_cv))) (ps(t := p'))) r"
proof (cases "q doorboy_line_empty_cv")
  case Nil
  then have "called (q(doorboy_line_empty_cv := tl (q doorboy_line_empty_cv))) (ps(t := p')) = called q ps"
    using assms(2,3) by (auto simp: fun_eq_iff called_def)
  then show ?thesis using assms(1) by metis
next
  case (Cons u us)
  let ?f = "called (q(doorboy_line_empty_cv := tl (q doorboy_line_empty_cv))) (ps(t := p'))"
  have "?f v = None" if "v \<noteq> u" for v
    using only_none [OF assms(1), of v] Cons that assms(2) by (auto simp: called_def split: if_splits)
  then have "only ?f (map_option (Pair u) (?f u))" by (auto simp: only_def split: option.splits)
  then show ?thesis by blast
qed

lemma door_doorboy_step:
  assumes ok: "door_ok ps s q" and carried: "carried_ok s (ps t)" and alone: "wards.alone ps q t"
    and t: "ps t = Doorboy x" and run: "doorboy x s = Inr (co, x', s')"
  shows "door_ok (ps(t := Doorboy x')) s' (step_queues t co q)"
proof -
  obtain w r where w: "only (doorboy_part \<circ> ps) w" "only (called q ps) r" "handing w r (next_available_doctor s) (q patient_read_next_available_doctor_cv)"
    using ok by (auto simp: door_ok_def)
  note nq = alone_unqueued [OF alone]
  have nd: "\<not> at_door (ps t)" "\<not> at_door (Doorboy x')" using t by (simp_all add: at_door_def)
  have same: ?thesis
    if "next_available_doctor s' = next_available_doctor s" "doorboy_part (Doorboy x') = doorboy_part (Doorboy x)"
      "step_queues t co q patient_read_next_available_doctor_cv = q patient_read_next_available_doctor_cv"
      "step_queues t co q doorboy_line_empty_cv = q doorboy_line_empty_cv"
    by (rule door_frame [OF ok]) (use that t nd in simp_all)
  have upd: "only (doorboy_part \<circ> ps(t := Doorboy x')) (map_option (Pair t) (doorboy_part (Doorboy x')))"
    if "doorboy_part (ps t) \<noteq> None \<or> w = None"
    using only_set [OF w(1), of t "doorboy_part (Doorboy x')"] that by (simp add: fun_upd_comp)
  have called: "called q' (ps(t := Doorboy x')) = called q ps" if "q' doorboy_line_empty_cv = q doorboy_line_empty_cv" for q'
    using that nd by (auto simp: called_def fun_eq_iff)
  show ?thesis
  proof (cases x)
    case B_find
    show ?thesis
    proof (cases "number_of_available_doctors s = 0")
      case True
      then show ?thesis using B_find run by (intro same) (auto simp: doorboy_part_def)
    next
      case False
      then obtain d where x': "x' = B_tell d" "next_available_doctor s' = next_available_doctor s" "co = Some (Acquire doorboy_line_lock)"
        using B_find run by (auto simp: step_simps)
      have "w = None" using door_busy [OF alone _ w(1)] t B_find by (simp add: doorboy_part_def)
      then have "only (doorboy_part \<circ> ps(t := Doorboy x')) (Some (t, 0))" using upd x' by (simp add: doorboy_part_def)
      moreover have "handing (Some (t, 0)) r (next_available_doctor s') (q patient_read_next_available_doctor_cv)"
        using w(3) \<open>w = None\<close> x' by (simp add: handing_def)
      ultimately show ?thesis using w(2) called [of q] x' unfolding door_ok_def by (metis step_queues_simps(4))
    qed
  next
    case (B_tell d)
    have w0: "w = Some (t, 0)" using only_at [OF w(1), of t 0] t B_tell by (simp add: doorboy_part_def)
    then have none: "r = None" "q patient_read_next_available_doctor_cv = []" using w(3) by (simp_all add: handing_def no_doctor_def)
    have x': "x' = B_told" "next_available_doctor s' = d" "co = Some (signal_on doorboy_line_empty_cv doorboy_line_lock)" using B_tell run by auto
    have "0 \<le> d" "d < 3" using carried t B_tell by (simp_all add: carried_ok_def)
    then have "handing (Some (t, 1)) r' (next_available_doctor s') []" for r' using x' by (simp add: handing_def)
    moreover have "only (doorboy_part \<circ> ps(t := Doorboy x')) (Some (t, 1))" using upd x' t B_tell by (simp add: doorboy_part_def)
    moreover obtain r' where "only (called (step_queues t co q) (ps(t := Doorboy x'))) r'"
      using called_tl [of q ps "Doorboy x'" t] w(2) none nd x' by auto
    moreover have "step_queues t co q patient_read_next_available_doctor_cv = []" using x' none by simp
    ultimately show ?thesis unfolding door_ok_def by metis
  next
    case B_told
    have w1: "w = Some (t, 1)" using only_at [OF w(1), of t 1] t B_told by (simp add: doorboy_part_def)
    have x': "x' = B_confirmed" "s' = s" "co = Some (wait_on patient_read_next_available_doctor_cv doorboy_line_lock)" using B_told run by auto
    have "handing (Some (t, 2)) r (next_available_doctor s') (step_queues t co q patient_read_next_available_doctor_cv)"
      using w(3) w1 x' by (simp add: handing_def)
    moreover have "only (doorboy_part \<circ> ps(t := Doorboy x')) (Some (t, 2))" using upd x' t B_told by (simp add: doorboy_part_def)
    moreover have "only (called (step_queues t co q) (ps(t := Doorboy x'))) r" using called w(2) x' by simp
    ultimately show ?thesis unfolding door_ok_def by metis
  next
    case B_confirmed
    have w2: "w = Some (t, 2)" using only_at [OF w(1), of t 2] t B_confirmed by (simp add: doorboy_part_def)
    have x': "x' = B_rest" "s' = s" "co = Some (Release doctor_doorboy_lock)" using B_confirmed run by (auto simp: step_simps)
    have "no_doctor r (next_available_doctor s) (q patient_read_next_available_doctor_cv)"
      using w(3) w2 nq [of patient_read_next_available_doctor_cv] by (auto simp: handing_def)
    then have "handing None r (next_available_doctor s') (step_queues t co q patient_read_next_available_doctor_cv)" using x' by (simp add: handing_def)
    moreover have "only (doorboy_part \<circ> ps(t := Doorboy x')) None" using upd x' t B_confirmed by (simp add: doorboy_part_def)
    moreover have "only (called (step_queues t co q) (ps(t := Doorboy x'))) r" using called w(2) x' by simp
    ultimately show ?thesis unfolding door_ok_def by metis
  qed (use run in \<open>(intro same; auto simp: doorboy_part_def step_simps split: if_splits)\<close>)+
qed

lemma door_read:
  assumes ok: "door_ok ps s q" and alone: "wards.alone ps q t" and t: "ps t = Patient (P_door_read k)"
  shows "\<exists>b. only (doorboy_part \<circ> ps) (Some (b, 2)) \<and> only (called q ps) (Some (t, ())) \<and>
    0 \<le> next_available_doctor s \<and> next_available_doctor s < 3 \<and> q patient_read_next_available_doctor_cv = [b] \<and> b \<noteq> t"
proof -
  obtain w r where w: "only (doorboy_part \<circ> ps) w" "only (called q ps) r" "handing w r (next_available_doctor s) (q patient_read_next_available_doctor_cv)"
    using ok by (auto simp: door_ok_def)
  have "called q ps t = Some ()" using t alone_unqueued [OF alone] by (simp add: called_def at_door_def)
  then have r: "r = Some (t, ())" using only_at [OF w(2)] by blast
  then obtain b part where b: "w = Some (b, part)" using w(3) by (cases w) (auto simp: handing_def no_doctor_def)
  then have p: "doorboy_part (ps b) = Some part" using only_role [of "doorboy_part \<circ> ps"] w(1) by simp
  then have "b \<noteq> t" using t by (auto simp: doorboy_part_def)
  then have "part \<noteq> 1" using alone_lock [OF alone, of b doorboy_line_lock] t p
    by (auto simp: doorboy_part_def doorboy_enters_def split: actor.splits doorboy_pc.splits)
  moreover have "part \<noteq> 0" "part = 0 \<or> part = 1 \<or> part = 2"
    using w(3) b r p by (auto simp: handing_def no_doctor_def doorboy_part_def split: actor.splits doorboy_pc.splits)
  ultimately show ?thesis using w b r \<open>b \<noteq> t\<close> by (auto simp: handing_def no_doctor_def)
qed

lemma door_patient_step:
  assumes ok: "door_ok ps s q" and alone: "wards.alone ps q t" and t: "ps t = Patient x" and run: "patient x s = Inr (co, x', s')"
  shows "door_ok (ps(t := Patient x')) s' (step_queues t co q)"
proof -
  have nb: "doorboy_part (Patient y) = None" for y by (simp add: doorboy_part_def)
  have same: ?thesis
    if "next_available_doctor s' = next_available_doctor s" "at_door (Patient x') = at_door (Patient x)"
      "step_queues t co q patient_read_next_available_doctor_cv = q patient_read_next_available_doctor_cv"
      "step_queues t co q doorboy_line_empty_cv = q doorboy_line_empty_cv"
    by (rule door_frame [OF ok]) (use that t nb in simp_all)
  show ?thesis
  proof (cases x)
    case (P_door_wait k)
    obtain w r where w: "only (doorboy_part \<circ> ps) w" "only (called q ps) r" "handing w r (next_available_doctor s) (q patient_read_next_available_doctor_cv)"
      using ok by (auto simp: door_ok_def)
    have x': "x' = P_door_read k" "s' = s" "co = Some (wait_on doorboy_line_empty_cv doorboy_line_lock)" using P_door_wait run by auto
    have "doorboy_part \<circ> ps(t := Patient x') = doorboy_part \<circ> ps" using t nb by (auto simp: fun_eq_iff)
    moreover have "called (step_queues t co q) (ps(t := Patient x')) = called q ps"
    proof
      fix v
      show "called (step_queues t co q) (ps(t := Patient x')) v = called q ps v"
        using t x' P_door_wait by (cases "v = t") (simp_all add: called_def at_door_def)
    qed
    ultimately show ?thesis using w x' by (auto simp: door_ok_def)
  next
    case (P_door_read k)
    obtain b where b: "only (doorboy_part \<circ> ps) (Some (b, 2))" "only (called q ps) (Some (t, ()))" "q patient_read_next_available_doctor_cv = [b]"
      using door_read [OF ok alone] t P_door_read by blast
    have x': "x' = P_door_leave k (next_available_doctor s)" "next_available_doctor s' = - 2"
      "co = Some (signal_on patient_read_next_available_doctor_cv doorboy_line_lock)" using P_door_read run by auto
    have "doorboy_part \<circ> ps(t := Patient x') = doorboy_part \<circ> ps" using t nb by (auto simp: fun_eq_iff)
    moreover have "called (step_queues t co q) (ps(t := Patient x')) = (called q ps)(t := None)"
      using x' by (auto simp: called_def at_door_def fun_eq_iff)
    moreover have "only ((called q ps)(t := None)) None" using only_set [OF b(2), of t None] only_role [OF b(2)] by simp
    moreover have "handing (Some (b, 2)) None (- 2) []" by (simp add: handing_def no_doctor_def)
    moreover have "step_queues t co q patient_read_next_available_doctor_cv = []" using x' b by simp
    ultimately show ?thesis using b(1) x' unfolding door_ok_def by metis
  qed (use run in \<open>(intro same; auto simp: at_door_def step_simps choose_cashier_def choose_pharmacist_def split: if_splits)\<close>)+
qed

section \<open>Doctors\<close>

text \<open>
  A doctor is reserved by a door-boy; the reservation passes to the shared variable (\<open>nx\<close>) and from there to the
  patient. While it lies in the variable, the door-boy who waits counts as the visitor.
\<close>

definition doc_visit :: "int \<Rightarrow> nat \<Rightarrow> actor \<Rightarrow> visitor option" where
  "doc_visit nx c p = (case p of
     Doorboy x \<Rightarrow> (case x of
         B_tell d \<Rightarrow> if d = int c then Some Coming else None
       | B_told \<Rightarrow> if nx = int c then Some Coming else None
       | B_confirmed \<Rightarrow> if nx = int c then Some Coming else None
       | _ \<Rightarrow> None)
   | Patient x \<Rightarrow> (case x of
         P_door_leave k d \<Rightarrow> if d = int c then Some Coming else None
       | P_doc k d \<Rightarrow> if d = int c then Some Coming else None
       | P_doc_in k d \<Rightarrow> if d = int c then Some Coming else None
       | P_doc_sit k d \<Rightarrow> if d = int c then Some (Telling k) else None
       | P_doc_hear k d \<Rightarrow> if d = int c then Some (Asking k) else None
       | _ \<Rightarrow> None)
   | _ \<Rightarrow> None)"

definition doc_stage :: "actor \<Rightarrow> colleague" where
  "doc_stage p = (case p of
     Doctor i x \<Rightarrow> (case x of D_room \<Rightarrow> Opening | D_ready \<Rightarrow> Opening | D_wait \<Rightarrow> Ready | D_exam \<Rightarrow> Asleep | D_dice k \<Rightarrow> Busy
       | D_think k n g \<Rightarrow> Busy | D_bye \<Rightarrow> Reply | _ \<Rightarrow> Closed)
   | _ \<Rightarrow> Closed)"

definition doc_station :: "Hospital \<Rightarrow> actor station" where
  "doc_station s = \<lparr>visit = doc_visit (next_available_doctor s), stage = doc_stage, first_thread = 11, bell = doctor_cv,
     free = (\<lambda>c. doctor_state s ! c = 0), asked = (\<lambda>c k. patient_doctor_bucket s ! c = k),
     answered = (\<lambda>c k. 0 \<le> patient_doctor_bucket s ! c \<and> patient_doctor_bucket s ! c < 5 \<and> billed s k),
     clear = (\<lambda>c. patient_doctor_bucket s ! c = - 2), repaid = (\<lambda>_. True)\<rparr>"

lemma doc_station_sel [simp]:
  "visit (doc_station s) = doc_visit (next_available_doctor s)" "stage (doc_station s) = doc_stage" "first_thread (doc_station s) = 11"
  "bell (doc_station s) = doctor_cv" "same_desks (doc_station s) (doc_station s') = (doc_visit (next_available_doctor s') = doc_visit (next_available_doctor s))"
  "free (doc_station s) c = (doctor_state s ! c = 0)" "asked (doc_station s) c = (\<lambda>k. patient_doctor_bucket s ! c = k)"
  "answered (doc_station s) c = (\<lambda>k. 0 \<le> patient_doctor_bucket s ! c \<and> patient_doctor_bucket s ! c < 5 \<and> billed s k)"
  "clear (doc_station s) c = (patient_doctor_bucket s ! c = - 2)" "repaid (doc_station s) c"
  by (simp_all add: doc_station_def same_desks_def)

text \<open>A doctor who examines a patient has noted his token.\<close>

definition noted :: "int list \<Rightarrow> actor \<Rightarrow> bool" where
  "noted b p = (case p of Doctor i x \<Rightarrow> (case x of D_dice k \<Rightarrow> b ! nat i = k | D_think k n g \<Rightarrow> b ! nat i = k | _ \<Rightarrow> True) | _ \<Rightarrow> True)"

definition doc_ok :: "(tid \<Rightarrow> actor) \<Rightarrow> Hospital \<Rightarrow> queues \<Rightarrow> bool" where
  "doc_ok ps s q \<longleftrightarrow> length (patient_doctor_bucket s) = 3 \<and> (\<forall>t. noted (patient_doctor_bucket s) (ps t)) \<and>
     row_ok (doc_station s) (doctor_state s) (number_of_available_doctors s) ps q"

definition doc_vars :: "Hospital \<Rightarrow> int list \<times> int \<times> int list \<times> int" where
  "doc_vars s = (doctor_state s, number_of_available_doctors s, patient_doctor_bucket s, next_available_doctor s)"

text \<open>Nobody's bill is taken back.\<close>

definition bills_kept :: "Hospital \<Rightarrow> Hospital \<Rightarrow> bool" where
  "bills_kept s s' \<longleftrightarrow> (\<forall>k. billed s k \<longrightarrow> billed s' k)"

lemma bills_kept_same: "patient_consultancy_fee s' = patient_consultancy_fee s \<Longrightarrow> bills_kept s s'"
  by (simp add: bills_kept_def billed_def)

lemma doc_frame:
  assumes "doc_ok ps s q" "doc_vars s' = doc_vars s" "bills_kept s s'" "\<And>c. doc_visit (next_available_doctor s) c p' = doc_visit (next_available_doctor s) c (ps t)"
    and "doc_stage p' = doc_stage (ps t)" "noted (patient_doctor_bucket s) p'" "\<And>c. q' (doctor_cv c) = q (doctor_cv c)"
  shows "doc_ok (ps(t := p')) s' q'"
proof -
  have "row_ok (doc_station s') (doctor_state s) (number_of_available_doctors s) (ps(t := p')) q'"
    by (rule row_frame [where D = "doc_station s" and q = q])
      (use assms in \<open>simp_all add: doc_ok_def keeps_desk_def doc_vars_def bills_kept_def\<close>)
  then show ?thesis using assms(1,2,6) by (simp add: doc_ok_def doc_vars_def)
qed

lemma noted_other:
  assumes "roles_ok ps" "noted b (ps u)" "u \<noteq> 11 + c"
  shows "noted (b[c := v]) (ps u)"
proof (cases "ps u")
  case (Doctor i x)
  then obtain d where "i = int d" "u = 11 + d" using role_index(2) [OF assms(1)] by blast
  then show ?thesis using assms(2,3) Doctor by (auto simp: noted_def split: doctor_pc.splits)
qed (simp_all add: noted_def)

lemma doctor_bills:
  assumes "carried_ok s (Doctor i x)" "length (patient_consultancy_fee s) = 10" "doctor i x s = Inr (co, x', s')"
  shows "bills_kept s s'"
proof (cases "\<exists>k g. x = D_think k 0 g")
  case True
  then obtain k g where x: "x = D_think k 0 g" by blast
  then have "0 \<le> g" using assms(1) by (simp add: carried_ok_def)
  with x show ?thesis using assms(2,3) by (auto simp: step_simps bills_kept_def billed_def token_ok_def nth_list_update)
next
  case False
  then show ?thesis using assms(3) by (intro bills_kept_same) (cases x; auto simp: step_simps rand_def split: if_splits nat.splits)
qed

lemma doc_woken:
  assumes alone: "wards.alone ps q t" and t: "ps t = Doctor (int c) D_exam" "t = 11 + c"
    and w: "only (doc_visit (next_available_doctor s) c \<circ> ps) w" "at_desk (doc_station s) c Asleep w (q (doctor_cv c))"
  shows "at_desk (doc_station s) c Busy w (q (doctor_cv c))"
proof -
  have "w \<noteq> Some (v, Telling k)" for v k
  proof
    assume "w = Some (v, Telling k)"
    then have "doc_visit (next_available_doctor s) c (ps v) = Some (Telling k)"
      using only_role [of "doc_visit (next_available_doctor s) c \<circ> ps"] w(1) by simp
    then have v: "ps v = Patient (P_doc_sit k (int c))"
      by (auto simp: doc_visit_def split: actor.splits patient_pc.splits doorboy_pc.splits if_splits)
    then have "v \<noteq> t" using t by auto
    with v show False using alone_lock [OF alone, of v "doctor_lock c"] t by (auto simp: patient_enters_def)
  qed
  then show ?thesis using desk_woken [of t w _ _ _ _ _ "q (doctor_cv c)"] w(2) alone_unqueued [OF alone] t(2) unfolding at_desk_def by fastforce
qed

lemma doc_token:
  assumes carried: "\<And>u. carried_ok s (ps u)" and noted: "noted (patient_doctor_bucket s) (ps t)" and t: "ps t = Doctor (int c) (D_think k n g)"
    and w: "only (doc_visit (next_available_doctor s) c \<circ> ps) (Some (v, Asking l))" "patient_doctor_bucket s ! c = l"
  shows "token_ok l \<and> k = l"
proof -
  have "doc_visit (next_available_doctor s) c (ps v) = Some (Asking l)"
    using only_role [of "doc_visit (next_available_doctor s) c \<circ> ps"] w(1) by simp
  then have "ps v = Patient (P_doc_hear l (int c))"
    by (auto simp: doc_visit_def split: actor.splits patient_pc.splits doorboy_pc.splits if_splits)
  then have "token_ok l" using carried [of v] by (simp add: carried_ok_def patient_ok_def)
  then show ?thesis using noted t w(2) by (simp add: noted_def)
qed

lemma doc_colleague_step:
  assumes roles: "roles_ok ps" and ok: "doc_ok ps s q" and carried: "\<And>u. carried_ok s (ps u)" and alone: "wards.alone ps q t"
    and fees: "length (patient_consultancy_fee s) = 10" and t: "ps t = Doctor i x" and run: "doctor i x s = Inr (co, x', s')"
  shows "doc_ok (ps(t := Doctor i x')) s' (step_queues t co q)"
proof -
  obtain c where c: "c < 3" "i = int c" "t = 11 + c" using role_index(2) [OF roles t] by blast
  have len: "length (doctor_state s) = 3" "length (patient_doctor_bucket s) = 3"
    and row: "row_ok (doc_station s) (doctor_state s) (number_of_available_doctors s) ps q"
    and noted: "noted (patient_doctor_bucket s) (ps u)" for u
    using ok by (simp_all add: doc_ok_def row_ok_def)
  note nq = alone_unqueued [OF alone]
  have nx: "next_available_doctor s' = next_available_doctor s"
    using run by (cases x) (auto simp: step_simps rand_def split: if_splits nat.splits)
  have think: "0 \<le> g \<and> g < 5" if "x = D_think k n g" for k n g using carried [of t] t that by (simp add: carried_ok_def)
  have bills: "bills_kept s s'" using doctor_bills [OF _ fees run] carried [of t] t by simp
  have nv: "doc_visit nx d (Doctor i y) = doc_visit nx d (ps t)" for nx d y using t by (simp add: doc_visit_def)
  have same: ?thesis
    if "doc_vars s' = doc_vars s" "doc_stage (Doctor i x') = doc_stage (Doctor i x)" "noted (patient_doctor_bucket s) (Doctor i x')"
      "\<And>c. step_queues t co q (doctor_cv c) = q (doctor_cv c)"
    by (rule doc_frame [OF ok that(1) bills]) (use that t nv in simp_all)
  have step: ?thesis
    if "doctor_state s' = (doctor_state s)[c := a]" "patient_doctor_bucket s' = (patient_doctor_bucket s)[c := b]"
      "number_of_available_doctors s' = number_of_available_doctors s - of_bool (doctor_state s ! c = 0) + of_bool (a = 0)"
      "noted (patient_doctor_bucket s') (Doctor i x')" "\<And>d. d \<noteq> c \<Longrightarrow> step_queues t co q (doctor_cv d) = q (doctor_cv d)"
      "\<And>w. only (doc_visit (next_available_doctor s) c \<circ> ps) w \<Longrightarrow> at_desk (doc_station s) c (doc_stage (Doctor i x)) w (q (doctor_cv c)) \<Longrightarrow>
        at_desk (doc_station s') c (doc_stage (Doctor i x')) w (step_queues t co q (doctor_cv c))" for a b
  proof -
    have "row_ok (doc_station s') ((doctor_state s)[c := a]) (number_of_available_doctors s') (ps(t := Doctor i x')) (step_queues t co q)"
      by (rule row_colleague [OF row _ c(1)]) (use that c t len nv nx bills in \<open>simp_all add: keeps_desk_def bills_kept_def\<close>)
    moreover have "noted (patient_doctor_bucket s') ((ps(t := Doctor i x')) u)" for u
      using that(2,4) noted_other [OF roles noted, of u c b] c by simp
    ultimately show ?thesis using that(1,2) len by (simp add: doc_ok_def)
  qed
  have still: ?thesis
    if "s' = s" "noted (patient_doctor_bucket s) (Doctor i x')" "\<And>d. d \<noteq> c \<Longrightarrow> step_queues t co q (doctor_cv d) = q (doctor_cv d)"
      "\<And>w. only (doc_visit (next_available_doctor s) c \<circ> ps) w \<Longrightarrow> at_desk (doc_station s) c (doc_stage (Doctor i x)) w (q (doctor_cv c)) \<Longrightarrow>
        at_desk (doc_station s) c (doc_stage (Doctor i x')) w (step_queues t co q (doctor_cv c))"
    by (rule step [where a = "doctor_state s ! c" and b = "patient_doctor_bucket s ! c"]) (use that in simp_all)
  show ?thesis
  proof (cases x)
    case D_avail
    have "doctor_state s ! c \<noteq> 0" using row c t D_avail by (auto simp: row_ok_def desk_def at_desk_def doc_stage_def)
    then show ?thesis using D_avail run c len
      by (intro step [where a = 0 and b = "patient_doctor_bucket s ! c"]) (auto simp: step_simps doc_stage_def at_desk_def noted_def)
  next
    case D_ready
    then show ?thesis using run by (intro still) (auto simp: doc_stage_def at_desk_def expecting_def noted_def)
  next
    case D_wait
    then show ?thesis using run c by (intro still) (auto simp: doc_stage_def at_desk_def step_simps noted_def)
  next
    case D_exam
    have "at_desk (doc_station s) c Busy w (q (doctor_cv c))"
      if "only (doc_visit (next_available_doctor s) c \<circ> ps) w" "at_desk (doc_station s) c Asleep w (q (doctor_cv c))" for w
      using doc_woken [OF alone _ c(3) that] t D_exam c(2) by simp
    then show ?thesis using D_exam run c by (intro still) (auto simp: step_simps doc_stage_def noted_def)
  next
    case (D_dice k)
    then show ?thesis using run noted [of t] t by (intro same) (auto simp: rand_def doc_vars_def doc_stage_def noted_def)
  next
    case (D_think k n g)
    show ?thesis
    proof (cases n)
      case 0
      have token: "token_ok l \<and> k = l"
        if "only (doc_visit (next_available_doctor s) c \<circ> ps) (Some (v, Asking l))" "patient_doctor_bucket s ! c = l" for v l
        using doc_token [OF carried noted [of t] _ that] t D_think c(2) by simp
      show ?thesis using D_think 0 run c len fees think [OF D_think]
        by (intro step [where a = "doctor_state s ! c" and b = g])
          (auto simp: step_simps doc_stage_def noted_def at_desk_def billed_def dest: token)
    next
      case (Suc m)
      then show ?thesis using D_think run noted [of t] t by (intro same) (auto simp: doc_vars_def doc_stage_def noted_def)
    qed
  next
    case D_bye
    show ?thesis
    proof (cases "patient_doctor_bucket s ! c = - 2")
      case True
      then show ?thesis using D_bye run c by (intro still) (auto simp: step_simps doc_stage_def at_desk_def noted_def)
    next
      case False
      then show ?thesis using D_bye run c nq [of "doctor_cv c"] by (intro still) (auto simp: step_simps doc_stage_def at_desk_def noted_def)
    qed
  qed (use run c in \<open>(intro same; auto simp: doc_vars_def doc_stage_def noted_def step_simps)\<close>)+
qed

lemma doc_visit_nx: "doorboy_part p \<noteq> Some 1 \<Longrightarrow> doorboy_part p \<noteq> Some 2 \<Longrightarrow> doc_visit nx c p = doc_visit nx' c p"
  by (auto simp: doc_visit_def doorboy_part_def split: actor.splits doorboy_pc.splits)

lemma doc_doorboy_step:
  assumes roles: "roles_ok ps" and ok: "doc_ok ps s q" "door_ok ps s q" and alone: "wards.alone ps q t"
    and t: "ps t = Doorboy x" and run: "doorboy x s = Inr (co, x', s')"
  shows "doc_ok (ps(t := Doorboy x')) s' (step_queues t co q)"
proof -
  obtain w r where w: "only (doorboy_part \<circ> ps) w" "only (called q ps) r" "handing w r (next_available_doctor s) (q patient_read_next_available_doctor_cv)"
    using ok(2) by (auto simp: door_ok_def)
  have nt: "t \<noteq> 11 + d" if "d < 3" for d using role_thread(2) [OF roles that] t by auto
  have len: "length (doctor_state s) = 3" "length (patient_doctor_bucket s) = 3"
    and row: "row_ok (doc_station s) (doctor_state s) (number_of_available_doctors s) ps q"
    and noted: "noted (patient_doctor_bucket s) (ps u)" for u
    using ok(1) by (simp_all add: doc_ok_def row_ok_def)
  have nn: "noted b (Doorboy y)" "doc_stage (Doorboy y) = Closed" for b y by (simp_all add: noted_def doc_stage_def)
  have bills: "bills_kept s s'" using run by (intro bills_kept_same) (cases x; auto simp: step_simps split: if_splits)
  have same: ?thesis
    if "doc_vars s' = doc_vars s" "\<And>c. doc_visit (next_available_doctor s) c (Doorboy x') = doc_visit (next_available_doctor s) c (Doorboy x)"
      "\<And>c. step_queues t co q (doctor_cv c) = q (doctor_cv c)"
    by (rule doc_frame [OF ok(1) that(1) bills]) (use that t nn in simp_all)
  show ?thesis
  proof (cases x)
    case B_find
    show ?thesis
    proof (cases "number_of_available_doctors s = 0")
      case True
      then show ?thesis using B_find run by (intro same) (auto simp: doc_vars_def)
    next
      case False
      then have "zeros (doctor_state s) \<noteq> 0" using row by (simp add: row_ok_def)
      then obtain c where c: "c < length (doctor_state s)" "find_free (doctor_state s) 0 = int c" "doctor_state s ! c = 0" using zeros_find by blast
      have c3: "c < 3" using c(1) len by simp
      have s': "co = Some (Acquire doorboy_line_lock)" "x' = B_tell (int c)" "doctor_state s' = (doctor_state s)[c := 1]"
        "patient_doctor_bucket s' = patient_doctor_bucket s" "number_of_available_doctors s' = number_of_available_doctors s - 1"
        "next_available_doctor s' = next_available_doctor s" "patient_consultancy_fee s' = patient_consultancy_fee s"
        using B_find run False c by (auto simp: step_simps)
      obtain y where y: "ps (11 + c) = Doctor (int c) y" using role_thread(2) [OF roles c3] by blast
      have "doc_stage (ps (11 + c)) \<noteq> Opening"
        using alone_lock [OF alone, of "11 + c" doctor_doorboy_lock] y t nt [OF c3] B_find
        by (cases y) (auto simp: doc_stage_def doctor_enters_def hospital_locks)
      then have "row_ok (doc_station s') ((doctor_state s)[c := 1]) (number_of_available_doctors s') (ps(t := Doorboy x')) (step_queues t co q)"
        by (intro row_reserve [where D = "doc_station s" and q = q])
          (use row s' c c3 t nt B_find in \<open>simp_all add: doc_visit_def billed_def\<close>)
      then show ?thesis using s' len noted nn by (simp add: doc_ok_def)
    qed
  next
    case (B_tell d)
    have s': "x' = B_told" "s' = s\<lparr>next_available_doctor := d\<rparr>" "co = Some (signal_on doorboy_line_empty_cv doorboy_line_lock)" using B_tell run by auto
    have w0: "w = Some (t, 0)" using only_at [OF w(1), of t 0] t B_tell by (simp add: doorboy_part_def)
    have "doorboy_part (ps u) = None" if "u \<noteq> t" for u using w(1) w0 that by (simp add: only_def)
    then have other: "doc_visit d c (ps u) = doc_visit (next_available_doctor s) c (ps u)" if "u \<noteq> t" for u c
      using that by (intro doc_visit_nx) simp_all
    have v: "doc_visit d c \<circ> ps(t := Doorboy x') = doc_visit (next_available_doctor s) c \<circ> ps" for c
    proof
      fix u
      show "(doc_visit d c \<circ> ps(t := Doorboy x')) u = (doc_visit (next_available_doctor s) c \<circ> ps) u"
        using other [of u c] t B_tell s'(1) by (cases "u = t") (auto simp: doc_visit_def)
    qed
    have "row_ok (doc_station s') (doctor_state s) (number_of_available_doctors s) (ps(t := Doorboy x')) (step_queues t co q)"
      by (rule row_moved [OF row]) (use s' t nn nt v in \<open>simp_all add: keeps_desk_def billed_def\<close>)
    then show ?thesis using s' len noted nn by (simp add: doc_ok_def)
  next
    case B_confirmed
    then show ?thesis using run by (intro same) (auto simp: doc_vars_def doc_visit_def step_simps)
  qed (use run in \<open>(intro same; auto simp: doc_vars_def doc_visit_def split: if_splits)\<close>)+
qed

lemma doc_read_step:
  assumes roles: "roles_ok ps" and ok: "doc_ok ps s q" "door_ok ps s q" and alone: "wards.alone ps q t"
    and t: "ps t = Patient (P_door_read k)" and run: "patient (P_door_read k) s = Inr (co, x', s')"
  shows "doc_ok (ps(t := Patient x')) s' (step_queues t co q)"
proof -
  obtain b where b: "only (doorboy_part \<circ> ps) (Some (b, 2))" "0 \<le> next_available_doctor s" "next_available_doctor s < 3" "b \<noteq> t"
    using door_read [OF ok(2) alone t] by blast
  have row: "row_ok (doc_station s) (doctor_state s) (number_of_available_doctors s) ps q" using ok(1) by (simp add: doc_ok_def)
  have nt: "t \<noteq> 11 + d" if "d < 3" for d using role_thread(2) [OF roles that] t by auto
  let ?nx = "next_available_doctor s"
  have s': "x' = P_door_leave k ?nx" "s' = s\<lparr>next_available_doctor := - 2\<rparr>"
    "co = Some (signal_on patient_read_next_available_doctor_cv doorboy_line_lock)" using run by auto
  have pb: "doorboy_part (ps b) = Some 2" using only_role [OF b(1)] by simp
  have vb: "doc_visit nx c (ps b) = (if nx = int c then Some Coming else None)" for nx c
    using pb by (auto simp: doc_visit_def doorboy_part_def split: actor.splits doorboy_pc.splits)
  have "doorboy_part (ps u) = None" if "u \<noteq> b" for u using b(1) that by (simp add: only_def)
  then have other: "doc_visit (- 2) c (ps u) = doc_visit ?nx c (ps u)" if "u \<noteq> b" for u c
    using that by (intro doc_visit_nx) simp_all
  have new: "doc_visit (- 2) c \<circ> ps(t := Patient x') =
      ((doc_visit ?nx c \<circ> ps)(b := None))(t := if ?nx = int c then Some Coming else None)" for c
  proof
    fix u
    show "(doc_visit (- 2) c \<circ> ps(t := Patient x')) u = (((doc_visit ?nx c \<circ> ps)(b := None))(t := if ?nx = int c then Some Coming else None)) u"
      using other [of u c] vb [of "- 2" c] s'(1) by (cases "u = t"; cases "u = b") (auto simp: doc_visit_def)
  qed
  have "only (doc_visit (- 2) c \<circ> ps(t := Patient x')) w \<or>
      (\<exists>v v'. w = Some (v, Coming) \<and> only (doc_visit (- 2) c \<circ> ps(t := Patient x')) (Some (v', Coming)))"
    if w: "only (doc_visit ?nx c \<circ> ps) w" for c w
  proof (cases "?nx = int c")
    case True
    then have "w = Some (b, Coming)" using only_at [OF w, of b Coming] vb [of ?nx c] by simp
    moreover have "only ((doc_visit ?nx c \<circ> ps)(b := None)) None" using only_set [OF w, of b None] vb [of ?nx c] True by simp
    from only_set [OF this, of t "Some Coming"] have "only (doc_visit (- 2) c \<circ> ps(t := Patient x')) (Some (t, Coming))"
      unfolding new using True by simp
    ultimately show ?thesis by blast
  next
    case False
    have "doc_visit ?nx c (ps t) = None" using t by (simp add: doc_visit_def)
    then have "doc_visit (- 2) c \<circ> ps(t := Patient x') = doc_visit ?nx c \<circ> ps"
      unfolding new using False vb [of ?nx c] by (auto simp: fun_eq_iff)
    then show ?thesis using w by simp
  qed
  then have "row_ok (doc_station s') (doctor_state s) (number_of_available_doctors s) (ps(t := Patient x')) (step_queues t co q)"
    by (intro row_moved [OF row]) (use s' t nt in \<open>simp_all add: keeps_desk_def billed_def doc_stage_def\<close>)
  then show ?thesis using s' ok(1) by (simp add: doc_ok_def noted_def)
qed

lemma doc_patient_step:
  assumes roles: "roles_ok ps" and ok: "doc_ok ps s q" "door_ok ps s q" and alone: "wards.alone ps q t"
    and t: "ps t = Patient x" and run: "patient x s = Inr (co, x', s')"
  shows "doc_ok (ps(t := Patient x')) s' (step_queues t co q)"
proof -
  have nt: "t \<noteq> 11 + d" if "d < 3" for d using role_thread(2) [OF roles that] t by auto
  have len: "length (patient_doctor_bucket s) = 3" and noted: "noted (patient_doctor_bucket s) (ps u)" for u
    using ok(1) by (simp_all add: doc_ok_def)
  note nq = alone_unqueued [OF alone]
  have bills: "bills_kept s s'" using run
    by (intro bills_kept_same) (cases x; auto simp: step_simps choose_cashier_def choose_pharmacist_def split: if_splits)
  have nn: "noted b (Patient y)" "doc_stage (Patient y) = Closed" for b y by (simp_all add: noted_def doc_stage_def)
  have same: ?thesis
    if "doc_vars s' = doc_vars s" "\<And>c. doc_visit (next_available_doctor s) c (Patient x') = doc_visit (next_available_doctor s) c (Patient x)"
      "\<And>c. step_queues t co q (doctor_cv c) = q (doctor_cv c)"
    by (rule doc_frame [OF ok(1) that(1) bills]) (use that t nn in simp_all)
  have busy: "doc_stage (ps (11 + c)) \<noteq> Ready" if "c < 3" "doctor_lock c \<in> patient_holds x" for c
  proof -
    obtain y where y: "ps (11 + c) = Doctor (int c) y" using role_thread(2) [OF roles \<open>c < 3\<close>] by blast
    then show ?thesis using alone_lock [OF alone, of "11 + c" "doctor_lock c"] nt [OF that(1)] t that(2)
      by (cases y) (auto simp: doc_stage_def doctor_enters_def)
  qed
  have give: "doc_stage p \<noteq> Give" for p by (simp add: doc_stage_def split: actor.split doctor_pc.split)
  have step: ?thesis
    if "c < 3" "doc_visit (next_available_doctor s) c (ps t) = Some a" "a \<noteq> Coming \<or> b = patient_doctor_bucket s ! c"
      "doc_vars s' = (doctor_state s, number_of_available_doctors s, (patient_doctor_bucket s)[c := b], next_available_doctor s)"
      "\<And>d. d \<noteq> c \<Longrightarrow> doc_visit (next_available_doctor s) d (Patient x') = doc_visit (next_available_doctor s) d (ps t)"
      "\<And>d. d \<noteq> c \<Longrightarrow> step_queues t co q (doctor_cv d) = q (doctor_cv d)"
      "at_desk (doc_station s) c (doc_stage (ps (11 + c))) (Some (t, a)) (q (doctor_cv c)) \<Longrightarrow>
        at_desk (doc_station s') c (doc_stage (ps (11 + c))) (map_option (Pair t) (doc_visit (next_available_doctor s) c (Patient x'))) (step_queues t co q (doctor_cv c))"
    for c a b
  proof -
    have row: "row_ok (doc_station s') (doctor_state s) (number_of_available_doctors s) (ps(t := Patient x')) (step_queues t co q)"
      by (rule row_visitor [where D = "doc_station s" and q = q and c = c and a = a])
        (use that ok(1) nt bills in \<open>simp_all add: doc_ok_def keeps_desk_def doc_vars_def bills_kept_def\<close>)
    have "desk (doc_station s) ps q c" using ok(1) that(1) by (simp add: doc_ok_def row_ok_def)
    then have "doc_stage (ps (11 + c)) \<noteq> Busy" if "a \<noteq> Coming"
      using desk_at [of "doc_station s" ps q c t a] \<open>doc_visit _ c (ps t) = Some a\<close> nq [of "doctor_cv c"] by (auto simp: at_desk_def)
    then have "noted ((patient_doctor_bucket s)[c := b]) (ps (11 + c))"
      using noted [of "11 + c"] that(3) by (auto simp: noted_def doc_stage_def split: actor.splits doctor_pc.splits)
    then have "noted ((patient_doctor_bucket s)[c := b]) (ps u)" for u using noted_other [OF roles noted] by (cases "u = 11 + c") blast+
    then show ?thesis using row that(4) len nn by (simp add: doc_ok_def doc_vars_def)
  qed
  show ?thesis
  proof (cases x)
    case (P_door_read k)
    show ?thesis by (rule doc_read_step [OF roles ok alone t [unfolded P_door_read] run [unfolded P_door_read]])
  next
    case (P_doc_in k i)
    then have i: "0 \<le> i" "i < 3" using run by (auto simp: step_simps)
    show ?thesis using P_doc_in run t i busy [of "nat i"] desk_called
      by (intro step [where c = "nat i" and a = Coming and b = "patient_doctor_bucket s ! nat i"])
        (auto simp: step_simps doc_visit_def doc_vars_def at_desk_def)
  next
    case (P_doc_sit k i)
    then have i: "0 \<le> i" "i < 3" using run by (auto simp: step_simps)
    show ?thesis using P_doc_sit run t i len desk_told
      by (intro step [where c = "nat i" and a = "Telling k" and b = k]) (auto simp: step_simps doc_visit_def doc_vars_def at_desk_def)
  next
    case (P_doc_hear k i)
    then have i: "0 \<le> i" "i < 3" using run by (auto simp: step_simps)
    show ?thesis using P_doc_hear run t i len desk_left nq give
      by (intro step [where c = "nat i" and a = "Asking k" and b = "- 2"]) (auto simp: step_simps doc_visit_def doc_vars_def at_desk_def)
  qed (use run in \<open>(intro same; auto simp: doc_vars_def doc_visit_def step_simps choose_cashier_def choose_pharmacist_def split: if_splits)\<close>)+
qed

end
