(* ===== verification/Nachos_Reception.thy ===== *)
theory Nachos_Reception
  imports Nachos_Rounds
begin

text \<open>
  The part of the invariant of the hospital simulation for the receptionists: their lines, their windows and the tokens. The
  tokens given out are as many as the patients who have one or are being served, so they stay below the number of patients.
\<close>

section \<open>Receptionists\<close>

text \<open>Where a patient is in the reception, and whether he has been there.\<close>

definition recep :: "actor \<Rightarrow> patient_pc option" where
  "recep p = (case p of Patient x \<Rightarrow> (case x of P_queue r \<Rightarrow> Some x | P_called r \<Rightarrow> Some x | P_leave r \<Rightarrow> Some x | P_desk r \<Rightarrow> Some x | _ \<Rightarrow> None) | _ \<Rightarrow> None)"

definition has_token :: "actor \<Rightarrow> bool" where
  "has_token p = (case p of
     Patient x \<Rightarrow> (case x of P_arrive \<Rightarrow> False | P_line \<Rightarrow> False | P_queue r \<Rightarrow> False | P_called r \<Rightarrow> False | P_leave r \<Rightarrow> False | P_desk r \<Rightarrow> False | _ \<Rightarrow> True)
   | _ \<Rightarrow> False)"

definition in_line :: "nat \<Rightarrow> (tid \<Rightarrow> actor) \<Rightarrow> tid set" where
  "in_line r ps = {t. recep (ps t) = Some (P_queue (int r)) \<or> recep (ps t) = Some (P_called (int r))}"

text \<open>A patient who has been called goes to the desk.\<close>

definition heading :: "nat \<Rightarrow> queues \<Rightarrow> (tid \<Rightarrow> actor) \<Rightarrow> tid \<Rightarrow> unit option" where
  "heading r q ps t = (if recep (ps t) = Some (P_called (int r)) \<and> t \<notin> set (q (receptionist_line_full_cv r)) \<or>
     recep (ps t) = Some (P_leave (int r)) \<or> recep (ps t) = Some (P_desk (int r)) then Some () else None)"

datatype rec_stage = Resting | Calling | Told | Waiting

definition rec_stage :: "actor \<Rightarrow> rec_stage" where
  "rec_stage p = (case p of
     Receptionist i x \<Rightarrow> (case x of R_called \<Rightarrow> Calling | R_leave \<Rightarrow> Calling | R_desk \<Rightarrow> Calling | R_token \<Rightarrow> Calling | R_tell \<Rightarrow> Told | R_wait \<Rightarrow> Waiting
       | _ \<Rightarrow> Resting)
   | _ \<Rightarrow> Resting)"

primrec window_ok :: "tid \<Rightarrow> rec_stage \<Rightarrow> (tid \<times> unit) option \<Rightarrow> int \<Rightarrow> tid list \<Rightarrow> bool" where
  "window_ok K Resting w b qr = (w = None \<and> b = - 1 \<and> qr = [])"
| "window_ok K Calling w b qr = (\<exists>v. w = Some (v, ()) \<and> b = - 1 \<and> qr \<in> {[], [v]})"
| "window_ok K Told w b qr = (\<exists>v. w = Some (v, ()) \<and> b \<noteq> - 1 \<and> qr \<in> {[], [v]})"
| "window_ok K Waiting w b qr = ((\<exists>v. w = Some (v, ()) \<and> b \<noteq> - 1 \<and> qr \<in> {[], [K]}) \<or> w = None \<and> b = - 1 \<and> qr = [])"

definition line_ok :: "(tid \<Rightarrow> actor) \<Rightarrow> Hospital \<Rightarrow> queues \<Rightarrow> nat \<Rightarrow> bool" where
  "line_ok ps s q r \<longleftrightarrow> receptionist_line_length s ! r = int (card (in_line r ps)) \<and> distinct (q (receptionist_line_full_cv r)) \<and>
     (\<forall>t \<in> set (q (receptionist_line_full_cv r)). recep (ps t) = Some (P_called (int r)))"

definition window :: "(tid \<Rightarrow> actor) \<Rightarrow> Hospital \<Rightarrow> queues \<Rightarrow> nat \<Rightarrow> bool" where
  "window ps s q r \<longleftrightarrow> (\<exists>w. only (heading r q ps) w \<and>
     window_ok (1 + r) (rec_stage (ps (1 + r))) w (receptionist_token_bucket s ! r) (q (receptionist_cv r)))"

definition served :: "(tid \<Rightarrow> actor) \<Rightarrow> tid set" where "served ps = {t \<in> {21..30}. has_token (ps t)}"

definition full_windows :: "Hospital \<Rightarrow> nat set" where "full_windows s = {r. r < 5 \<and> receptionist_token_bucket s ! r \<noteq> - 1}"

definition rec_ok :: "(tid \<Rightarrow> actor) \<Rightarrow> Hospital \<Rightarrow> queues \<Rightarrow> bool" where
  "rec_ok ps s q \<longleftrightarrow> length (receptionist_line_length s) = 5 \<and> length (receptionist_state s) = 5 \<and> length (receptionist_token_bucket s) = 5 \<and>
     (\<forall>r < 5. line_ok ps s q r \<and> window ps s q r) \<and>
     (\<forall>b \<in> set (receptionist_token_bucket s). b = - 1 \<or> token_ok b) \<and>
     next_receptionist_token s = int (card (served ps)) + int (card (full_windows s))"

definition rec_vars :: "Hospital \<Rightarrow> int list \<times> nat \<times> int list \<times> int" where
  "rec_vars s = (receptionist_line_length s, length (receptionist_state s), receptionist_token_bucket s, next_receptionist_token s)"

lemma rec_frame:
  assumes "rec_ok ps s q" "rec_vars s' = rec_vars s" "recep p' = recep (ps t)" "rec_stage p' = rec_stage (ps t)" "has_token p' = has_token (ps t)"
    and "\<And>r. q' (receptionist_line_full_cv r) = q (receptionist_line_full_cv r)" "\<And>r. q' (receptionist_cv r) = q (receptionist_cv r)"
  shows "rec_ok (ps(t := p')) s' q'"
proof -
  have v: "recep ((ps(t := p')) u) = recep (ps u)" "rec_stage ((ps(t := p')) u) = rec_stage (ps u)" "has_token ((ps(t := p')) u) = has_token (ps u)" for u
    using assms(3-5) by simp_all
  have "in_line r (ps(t := p')) = in_line r ps" "heading r q' (ps(t := p')) = heading r q ps" "served (ps(t := p')) = served ps" for r
    using v assms(6) by (simp_all add: in_line_def heading_def served_def fun_eq_iff del: fun_upd_apply)
  moreover have "full_windows s' = full_windows s" using assms(2) by (simp add: full_windows_def rec_vars_def)
  ultimately show ?thesis using assms(1,2,6,7) v
    by (simp add: rec_ok_def line_ok_def window_def rec_vars_def del: fun_upd_apply)
qed

text \<open>The next token is one of the ten: everybody who has one or is about to get one is a different patient.\<close>

lemma heading_patient: "roles_ok ps \<Longrightarrow> heading r q ps t = Some () \<Longrightarrow> t \<in> {21..30} \<and> \<not> has_token (ps t)"
proof -
  assume a: "roles_ok ps" "heading r q ps t = Some ()"
  then obtain x where x: "ps t = Patient x" "x = P_called (int r) \<or> x = P_leave (int r) \<or> x = P_desk (int r)"
    by (auto simp: heading_def recep_def split: if_splits actor.splits patient_pc.splits)
  then have "x \<noteq> P_done" by auto
  then show ?thesis using patient_thread [OF a(1) x(1)] x by (auto simp: has_token_def)
qed

lemma heading_once: "heading r q ps t = Some () \<Longrightarrow> heading r' q ps t = Some () \<Longrightarrow> r' = r"
  by (auto simp: heading_def split: if_splits)

lemma window_full: "window ps s q r \<Longrightarrow> receptionist_token_bucket s ! r \<noteq> - 1 \<or> rec_stage (ps (1 + r)) = Calling \<Longrightarrow> \<exists>v. heading r q ps v = Some ()"
proof -
  assume a: "window ps s q r" "receptionist_token_bucket s ! r \<noteq> - 1 \<or> rec_stage (ps (1 + r)) = Calling"
  then obtain w where w: "only (heading r q ps) w" "window_ok (1 + r) (rec_stage (ps (1 + r))) w (receptionist_token_bucket s ! r) (q (receptionist_cv r))"
    by (auto simp: window_def)
  then obtain v where "w = Some (v, ())" using a(2) by (cases "rec_stage (ps (1 + r))") auto
  then have "heading r q ps v = Some ()" using only_role [of "heading r q ps" v "()"] w(1) by simp
  then show ?thesis ..
qed

lemma next_token:
  assumes roles: "roles_ok ps" and ok: "rec_ok ps s q" and r: "r < 5" "rec_stage (ps (1 + r)) = Calling" "receptionist_token_bucket s ! r = - 1"
  shows "token_ok (next_receptionist_token s)"
proof -
  let ?R = "insert r (full_windows s)"
  have "\<forall>r' \<in> ?R. \<exists>v. heading r' q ps v = Some ()"
    using ok r window_full by (auto simp: rec_ok_def full_windows_def)
  then obtain f where f: "\<And>r'. r' \<in> ?R \<Longrightarrow> heading r' q ps (f r') = Some ()" by metis
  have fin: "finite (full_windows s)" by (simp add: full_windows_def)
  have inj: "inj_on f ?R"
  proof (rule inj_onI)
    fix x y assume "x \<in> ?R" "y \<in> ?R" "f x = f y"
    then show "x = y" using heading_once f by metis
  qed
  have dis: "served ps \<inter> f ` ?R = {}" using heading_patient [OF roles f] by (auto simp: served_def)
  have "served ps \<union> f ` ?R \<subseteq> {21..30}" using heading_patient [OF roles f] by (auto simp: served_def)
  then have "card (served ps \<union> f ` ?R) \<le> 10" using card_mono [of "{21..30::nat}"] by fastforce
  moreover have "card (served ps \<union> f ` ?R) = card (served ps) + card ?R"
    using card_Un_disjoint [OF _ _ dis] fin card_image [OF inj] by (simp add: served_def)
  moreover have "r \<notin> full_windows s" using r by (simp add: full_windows_def)
  ultimately have "card (served ps) + card (full_windows s) < 10" using fin by simp
  then show ?thesis using ok by (simp add: rec_ok_def token_ok_def)
qed

text \<open>A step at window \<open>r\<close>.\<close>

definition recep_at :: "nat \<Rightarrow> actor \<Rightarrow> bool" where
  "recep_at r p \<longleftrightarrow> (case recep p of Some (P_queue i) \<Rightarrow> i = int r | Some (P_called i) \<Rightarrow> i = int r | Some (P_leave i) \<Rightarrow> i = int r
     | Some (P_desk i) \<Rightarrow> i = int r | _ \<Rightarrow> True)"

lemma recep_elsewhere:
  assumes "recep_at r p" "r' \<noteq> r"
  shows "recep p \<noteq> Some (P_queue (int r'))" "recep p \<noteq> Some (P_called (int r'))" "recep p \<noteq> Some (P_leave (int r'))" "recep p \<noteq> Some (P_desk (int r'))"
  using assms by (auto simp: recep_at_def)

lemma rec_at:
  assumes ok: "rec_ok ps s q" and r: "r < 5"
    and vars: "receptionist_line_length s' = (receptionist_line_length s)[r := l]" "length (receptionist_state s') = 5"
      "receptionist_token_bucket s' = (receptionist_token_bucket s)[r := b]"
    and here: "recep_at r (ps t)" "recep_at r p'" "t = 1 + r \<or> rec_stage p' = rec_stage (ps t)"
    and q: "\<And>d. d \<noteq> r \<Longrightarrow> q' (receptionist_line_full_cv d) = q (receptionist_line_full_cv d)"
      "\<And>d. d \<noteq> r \<Longrightarrow> q' (receptionist_cv d) = q (receptionist_cv d)"
    and new: "line_ok (ps(t := p')) s' q' r" "window (ps(t := p')) s' q' r" "b = - 1 \<or> token_ok b"
      "next_receptionist_token s' = int (card (served (ps(t := p')))) + int (card (full_windows s'))"
  shows "rec_ok (ps(t := p')) s' q'"
proof -
  have o: "length (receptionist_line_length s) = 5" "length (receptionist_token_bucket s) = 5"
    "\<And>r. r < 5 \<Longrightarrow> line_ok ps s q r \<and> window ps s q r" "\<forall>b \<in> set (receptionist_token_bucket s). b = - 1 \<or> token_ok b"
    using ok by (auto simp: rec_ok_def)
  have "line_ok (ps(t := p')) s' q' d \<and> window (ps(t := p')) s' q' d" if d: "d < 5" "d \<noteq> r" for d
  proof -
    note e = recep_elsewhere [OF here(1) d(2)] recep_elsewhere [OF here(2) d(2)]
    have "in_line d (ps(t := p')) = in_line d ps" using e by (auto simp: in_line_def)
    moreover have "heading d q' (ps(t := p')) = heading d q ps" using e q(1) [OF d(2)] by (auto simp: heading_def fun_eq_iff)
    moreover have "rec_stage ((ps(t := p')) (1 + d)) = rec_stage (ps (1 + d))" using here(3) d(2) by auto
    moreover have "\<forall>u \<in> set (q (receptionist_line_full_cv d)). recep ((ps(t := p')) u) = Some (P_called (int d))"
      using o(3) [OF d(1)] e by (auto simp: line_ok_def)
    ultimately show ?thesis using o(3) [OF d(1)] vars q d(2) by (simp add: line_ok_def window_def del: fun_upd_apply)
  qed
  then have "\<forall>d < 5. line_ok (ps(t := p')) s' q' d \<and> window (ps(t := p')) s' q' d" using new(1,2) by metis
  moreover have "\<forall>x \<in> set (receptionist_token_bucket s'). x = - 1 \<or> token_ok x"
    using o(4) new(3) vars(3) set_update_subset_insert [of "receptionist_token_bucket s" r b] by auto
  ultimately show ?thesis using o(1,2) vars new(4) by (simp add: rec_ok_def del: fun_upd_apply)
qed

lemma full_windows_set:
  assumes "receptionist_token_bucket s' = (receptionist_token_bucket s)[r := b]" "length (receptionist_token_bucket s) = 5" "r < 5"
  shows "full_windows s' = (if b = - 1 then full_windows s - {r} else insert r (full_windows s))"
  using assms by (auto simp: full_windows_def nth_list_update)

text \<open>A receptionist with a line calls exactly one patient: the first of the queue.\<close>

lemma rec_calls:
  assumes roles: "roles_ok ps" and ok: "rec_ok ps s q" and alone: "wards.alone ps q t"
    and t: "ps t = Receptionist (int r) R_line" "t = 1 + r" "r < 5" and len: "receptionist_line_length s ! r \<noteq> 0"
    and s': "s' = s\<lparr>receptionist_state := st\<rparr>" "length st = 5"
  shows "rec_ok (ps(t := Receptionist (int r) R_called)) s'
    (q(receptionist_line_full_cv r := tl (q (receptionist_line_full_cv r))))" (is "rec_ok ?ps s' ?q")
proof -
  have o: "length (receptionist_line_length s) = 5" "length (receptionist_token_bucket s) = 5" "line_ok ps s q r" "window ps s q r"
    "next_receptionist_token s = int (card (served ps)) + int (card (full_windows s))"
    "\<forall>b \<in> set (receptionist_token_bucket s). b = - 1 \<or> token_ok b"
    using ok t(3) by (auto simp: rec_ok_def)
  obtain w where w: "only (heading r q ps) w" "window_ok t Resting w (receptionist_token_bucket s ! r) (q (receptionist_cv r))"
    using o(4) t by (auto simp: window_def rec_stage_def)
  then have w': "only (heading r q ps) None" "receptionist_token_bucket s ! r = - 1" "q (receptionist_cv r) = []" by simp_all
  let ?Q = "q (receptionist_line_full_cv r)"
  have "u \<in> set ?Q" if "u \<in> in_line r ps" for u
  proof -
    have "recep (ps u) \<noteq> Some (P_queue (int r))"
    proof
      assume "recep (ps u) = Some (P_queue (int r))"
      then have u: "ps u = Patient (P_queue (int r))" by (auto simp: recep_def split: actor.splits patient_pc.splits)
      then have "u \<noteq> t" using t by auto
      then show False using alone_lock [OF alone, of u receptionist_line_lock] u t by (simp add: patient_enters_def)
    qed
    then show ?thesis using that only_none [OF w'(1), of u] by (auto simp: in_line_def heading_def split: if_splits)
  qed
  then have "in_line r ps \<subseteq> set ?Q" by blast
  moreover have "in_line r ps \<noteq> {}" using len o(3) by (auto simp: line_ok_def)
  ultimately obtain v vs where Q: "?Q = v # vs" by (cases ?Q) auto
  then have v: "recep (ps v) = Some (P_called (int r))" "distinct (v # vs)" using o(3) by (auto simp: line_ok_def)
  have nr: "recep (Receptionist (int r) y) = None" "\<not> has_token (Receptionist (int r) y)" for y by (simp_all add: recep_def has_token_def)
  have line: "in_line r ?ps = in_line r ps" "served ?ps = served ps" using t nr by (auto simp: in_line_def served_def)
  have "v \<noteq> t" using v(1) t by (auto simp: recep_def)
  have "heading r ?q ?ps = (heading r q ps)(v := Some ())"
  proof
    fix u
    show "heading r ?q ?ps u = ((heading r q ps)(v := Some ())) u"
      using Q v \<open>v \<noteq> t\<close> t nr by (cases "u = t"; cases "u = v") (auto simp: heading_def)
  qed
  then have "only (heading r ?q ?ps) (Some (v, ()))" using only_set [OF w'(1), of v "Some ()"] by simp
  then have win: "window ?ps s' ?q r" unfolding window_def using w' t s' by (intro exI [of _ "Some (v, ())"]) (simp add: rec_stage_def)
  have "line_ok ?ps s' ?q r" using o(3) line(1) Q s' t nr by (auto simp: line_ok_def)
  moreover have v1: "receptionist_line_length s' = (receptionist_line_length s)[r := receptionist_line_length s ! r]" using s' by simp
  moreover have v2: "receptionist_token_bucket s' = (receptionist_token_bucket s)[r := - 1]"
    using s' w'(2) list_update_id [of "receptionist_token_bucket s" r] by simp
  moreover have "next_receptionist_token s' = int (card (served ?ps)) + int (card (full_windows s'))" using o(5) line s' by (simp add: full_windows_def)
  moreover have "recep_at r (ps t)" "recep_at r (Receptionist (int r) R_called)" using t nr by (simp_all add: recep_at_def)
  ultimately show ?thesis using win t(2) s' by (intro rec_at [OF ok t(3) v1 _ v2]) (simp_all del: fun_upd_apply, simp_all)
qed

lemma rec_colleague_step:
  assumes roles: "roles_ok ps" and ok: "rec_ok ps s q" and alone: "wards.alone ps q t"
    and t: "ps t = Receptionist i x" and run: "receptionist i x s = Inr (co, x', s')"
  shows "rec_ok (ps(t := Receptionist i x')) s' (step_queues t co q)"
proof -
  obtain r where r: "r < 5" "i = int r" "t = 1 + r" using role_index(1) [OF roles t] by blast
  have o: "length (receptionist_line_length s) = 5" "length (receptionist_state s) = 5" "length (receptionist_token_bucket s) = 5"
    "line_ok ps s q r" "window ps s q r" "next_receptionist_token s = int (card (served ps)) + int (card (full_windows s))"
    using ok r(1) by (simp_all add: rec_ok_def)
  have nr: "recep (Receptionist i y) = None" "\<not> has_token (Receptionist i y)" for y by (simp_all add: recep_def has_token_def)
  have at: "recep_at r (ps t)" "recep_at r (Receptionist i x')" using t nr by (simp_all add: recep_at_def)
  have line: "in_line d (ps(t := Receptionist i x')) = in_line d ps" "served (ps(t := Receptionist i x')) = served ps" for d
    using t nr by (auto simp: in_line_def served_def)
  have head: "heading d q' (ps(t := Receptionist i x')) = heading d q' ps" for d q' using t nr by (auto simp: heading_def fun_eq_iff)
  note nq = alone_unqueued [OF alone]
  have same: ?thesis
    if "rec_vars s' = rec_vars s" "rec_stage (Receptionist i x') = rec_stage (Receptionist i x)"
      "\<And>r. step_queues t co q (receptionist_line_full_cv r) = q (receptionist_line_full_cv r)"
      "\<And>r. step_queues t co q (receptionist_cv r) = q (receptionist_cv r)"
    by (rule rec_frame [OF ok that(1)]) (use that t nr in simp_all)
  obtain w where w: "only (heading r q ps) w" "window_ok t (rec_stage (Receptionist i x)) w (receptionist_token_bucket s ! r) (q (receptionist_cv r))"
    using o(5) r t by (auto simp: window_def)
  have step: ?thesis
    if "receptionist_line_length s' = receptionist_line_length s" "length (receptionist_state s') = 5"
      "receptionist_token_bucket s' = (receptionist_token_bucket s)[r := b]" "b = - 1 \<or> token_ok b"
      "next_receptionist_token s' = int (card (served ps)) + int (card (full_windows s'))"
      "\<And>d. step_queues t co q (receptionist_line_full_cv d) = q (receptionist_line_full_cv d)"
      "\<And>d. d \<noteq> r \<Longrightarrow> step_queues t co q (receptionist_cv d) = q (receptionist_cv d)"
      "window_ok t (rec_stage (Receptionist i x')) w b (step_queues t co q (receptionist_cv r))" for b
  proof (rule rec_at [OF ok r(1) _ that(2,3) at, where l = "receptionist_line_length s ! r"])
    show "line_ok (ps(t := Receptionist i x')) s' (step_queues t co q) r"
      using o(4) that(1,6) line(1) t nr by (auto simp: line_ok_def)
    have "heading r (step_queues t co q) (ps(t := Receptionist i x')) = heading r q ps"
      unfolding head using that(6) by (simp add: heading_def fun_eq_iff)
    then show "window (ps(t := Receptionist i x')) s' (step_queues t co q) r"
      using w(1) that(3,8) r o(3) by (auto simp: window_def)
  qed (use that r line in \<open>simp_all del: fun_upd_apply\<close>)
  have still: ?thesis
    if "s' = s" "\<And>d. step_queues t co q (receptionist_line_full_cv d) = q (receptionist_line_full_cv d)"
      "\<And>d. d \<noteq> r \<Longrightarrow> step_queues t co q (receptionist_cv d) = q (receptionist_cv d)"
      "window_ok t (rec_stage (Receptionist i x')) w (receptionist_token_bucket s ! r) (step_queues t co q (receptionist_cv r))"
    using ok r by (intro step [where b = "receptionist_token_bucket s ! r"]) (use that o in \<open>auto simp: rec_ok_def\<close>)
  show ?thesis
  proof (cases x)
    case R_line
    show ?thesis
    proof (cases "receptionist_line_length s ! r = 0")
      case True
      then show ?thesis using R_line run r by (intro same) (auto simp: step_simps rec_vars_def rec_stage_def)
    next
      case False
      then have s': "x' = R_called" "s' = s\<lparr>receptionist_state := (receptionist_state s)[r := 1]\<rparr>"
        "co = Some (signal_on (receptionist_line_full_cv r) receptionist_line_lock)" using R_line run r by (auto simp: step_simps)
      show ?thesis using rec_calls [OF roles ok alone _ r(3,1) False s'(2)] t R_line r(2) s' o(2) by simp
    qed
  next
    case R_desk
    have "receptionist_token_bucket s ! r = - 1" using w(2) R_desk by (auto simp: rec_stage_def)
    then show ?thesis using R_desk run r by (intro same) (auto simp: step_simps rec_vars_def rec_stage_def)
  next
    case R_token
    have b: "receptionist_token_bucket s ! r = - 1" "rec_stage (ps (1 + r)) = Calling" using w(2) R_token t r by (auto simp: rec_stage_def)
    have tok: "token_ok (next_receptionist_token s)" by (rule next_token [OF roles ok r(1) b(2,1)])
    have s': "receptionist_token_bucket s' = (receptionist_token_bucket s)[r := next_receptionist_token s]"
      "next_receptionist_token s' = next_receptionist_token s + 1" "receptionist_line_length s' = receptionist_line_length s"
      "receptionist_state s' = receptionist_state s" "co = Some (Release receptionist_token_access_lock)" "x' = R_tell"
      using R_token run r by (auto simp: step_simps)
    have "full_windows s' = insert r (full_windows s)" using full_windows_set [OF s'(1) o(3) r(1)] tok by (auto simp: token_ok_def)
    moreover have "r \<notin> full_windows s" "finite (full_windows s)" using b by (simp_all add: full_windows_def)
    ultimately have "next_receptionist_token s' = int (card (served ps)) + int (card (full_windows s'))" using o(6) s'(2) by simp
    then show ?thesis using s' tok o w(2) R_token b
      by (intro step [where b = "next_receptionist_token s"]) (auto simp: rec_stage_def token_ok_def)
  next
    case R_tell
    then show ?thesis using run r w(2) by (intro still) (auto simp: step_simps rec_stage_def)
  next
    case R_wait
    show ?thesis
    proof (cases "receptionist_token_bucket s ! r = - 1")
      case True
      then show ?thesis using R_wait run r w(2) by (intro still) (auto simp: step_simps rec_stage_def)
    next
      case False
      then show ?thesis using R_wait run r w(2) nq [of "receptionist_cv r"] by (intro still) (auto simp: step_simps rec_stage_def)
    qed
  qed (use run r in \<open>(intro same; auto simp: rec_vars_def rec_stage_def step_simps receptionist_line_length_is_null_def)\<close>)+
qed

lemma finite_in_line: "roles_ok ps \<Longrightarrow> finite (in_line r ps)"
proof -
  assume roles: "roles_ok ps"
  have "in_line r ps \<subseteq> {21..30}"
  proof
    fix t assume "t \<in> in_line r ps"
    then obtain x where "ps t = Patient x" "x = P_queue (int r) \<or> x = P_called (int r)"
      by (auto simp: in_line_def recep_def split: actor.splits patient_pc.splits)
    then show "t \<in> {21..30}" using patient_thread [OF roles] by fastforce
  qed
  then show ?thesis by (rule finite_subset) simp
qed

text \<open>A patient at the desk waits for the token or takes it.\<close>

lemma rec_desk_step:
  assumes roles: "roles_ok ps" and ok: "rec_ok ps s q" and alone: "wards.alone ps q t"
    and r: "r < 5" and t: "ps t = Patient (P_desk (int r))" and run: "patient (P_desk (int r)) s = Inr (co, x', s')"
  shows "rec_ok (ps(t := Patient x')) s' (step_queues t co q)" (is "rec_ok ?ps s' ?q")
proof -
  have o: "length (receptionist_line_length s) = 5" "length (receptionist_state s) = 5" "length (receptionist_token_bucket s) = 5"
    "line_ok ps s q r" "window ps s q r" "next_receptionist_token s = int (card (served ps)) + int (card (full_windows s))"
    using ok r by (simp_all add: rec_ok_def)
  note nq = alone_unqueued [OF alone]
  have h: "heading r q ps t = Some ()" using t by (simp add: heading_def recep_def)
  let ?K = "1 + r" and ?b = "receptionist_token_bucket s ! r"
  obtain w where w: "only (heading r q ps) w" "window_ok ?K (rec_stage (ps ?K)) w ?b (q (receptionist_cv r))"
    using o(5) by (auto simp: window_def)
  have wt: "w = Some (t, ())" by (rule only_at [OF w(1) h])
  obtain y where y: "ps ?K = Receptionist (int r) y" using role_thread(1) [OF roles r] by blast
  then have "t \<noteq> ?K" using t by auto
  have told: "rec_stage (ps ?K) \<noteq> Told"
    using alone_lock [OF alone, of ?K "receptionist_lock r"] y t \<open>t \<noteq> ?K\<close> by (cases y) (auto simp: rec_stage_def receptionist_enters_def)
  have l: "receptionist_line_length s' = (receptionist_line_length s)[r := receptionist_line_length s ! r]" "receptionist_state s' = receptionist_state s"
    using run by (auto simp: step_simps split: if_splits)
  have at: "recep_at r (ps t)" using t by (simp add: recep_at_def recep_def)
  show ?thesis
  proof (cases "?b = - 1")
    case True
    then have s': "x' = P_desk (int r)" "s' = s" "co = Some (wait_on (receptionist_cv r) (receptionist_lock r))" using run r by (auto simp: step_simps)
    then have ps: "?ps = ps" using t by (simp add: fun_upd_idem)
    have "window_ok ?K (rec_stage (ps ?K)) w ?b (q (receptionist_cv r) @ [t])"
      using w(2) wt True nq [of "receptionist_cv r"] by (cases "rec_stage (ps ?K)") auto
    moreover have "heading r ?q ps = heading r q ps" using s' by (simp add: heading_def fun_eq_iff)
    ultimately have "window ps s ?q r" using w(1) s' unfolding window_def by auto
    moreover have "line_ok ps s ?q r" using o(4) s' by (simp add: line_ok_def)
    moreover have "window ps s ?q d \<and> line_ok ps s ?q d" if "d < 5" "d \<noteq> r" for d
    proof -
      have "heading d ?q ps = heading d q ps" using s' by (simp add: heading_def fun_eq_iff)
      then show ?thesis using ok that s' by (simp add: rec_ok_def window_def line_ok_def)
    qed
    ultimately have "\<forall>d < 5. line_ok ps s ?q d \<and> window ps s ?q d" by metis
    then show ?thesis using ok s' unfolding ps by (simp add: rec_ok_def)
  next
    case False
    then have s': "x' = P_thank (int r) ?b" "receptionist_token_bucket s' = (receptionist_token_bucket s)[r := - 1]"
      "next_receptionist_token s' = next_receptionist_token s" "co = Some (signal_on (receptionist_cv r) (receptionist_lock r))"
      using run r by (auto simp: step_simps)
    have "rec_stage (ps ?K) = Waiting" "q (receptionist_cv r) \<in> {[], [?K]}"
      using w(2) wt False told nq [of "receptionist_cv r"] by (cases "rec_stage (ps ?K)"; auto)+
    then have "window_ok ?K (rec_stage (ps ?K)) None (- 1) (tl (q (receptionist_cv r)))" by auto
    moreover have "heading r ?q ?ps = (heading r q ps)(t := None)" using s' by (auto simp: heading_def recep_def fun_eq_iff)
    then have "only (heading r ?q ?ps) None" using only_set [OF w(1), of t None] h by simp
    ultimately have win: "window ?ps s' ?q r" using s' \<open>t \<noteq> ?K\<close> r o(3) unfolding window_def by (intro exI [of _ None]) simp
    have "in_line r ?ps = in_line r ps" using t s' by (auto simp: in_line_def recep_def)
    then have line: "line_ok ?ps s' ?q r" using o(1,4) s' l r nq [of "receptionist_line_full_cv r"] by (auto simp: line_ok_def)
    have "t \<in> {21..30}" using patient_thread [OF roles t] by simp
    then have "served ?ps = insert t (served ps)" "t \<notin> served ps" using t s' by (auto simp: served_def has_token_def)
    moreover have "full_windows s' = full_windows s - {r}" "r \<in> full_windows s"
      using full_windows_set [OF s'(2) o(3) r] False r by (simp_all add: full_windows_def)
    moreover have "finite (served ps)" "finite (full_windows s)" by (simp_all add: served_def full_windows_def)
    ultimately have "next_receptionist_token s' = int (card (served ?ps)) + int (card (full_windows s'))"
      using o(6) s'(3) card_Suc_Diff1 [of "full_windows s" r] by simp
    then show ?thesis using win line at o(2) l s' t
      by (intro rec_at [OF ok r l(1) _ s'(2)]) (simp_all add: recep_at_def recep_def rec_stage_def del: fun_upd_apply, simp_all)
  qed
qed

lemma rec_patient_step:
  assumes roles: "roles_ok ps" and ok: "rec_ok ps s q" and alone: "wards.alone ps q t"
    and t: "ps t = Patient x" and run: "patient x s = Inr (co, x', s')"
  shows "rec_ok (ps(t := Patient x')) s' (step_queues t co q)"
proof -
  have len: "length (receptionist_line_length s) = 5" "length (receptionist_state s) = 5" "length (receptionist_token_bucket s) = 5"
    and o: "\<And>r. r < 5 \<Longrightarrow> line_ok ps s q r \<and> window ps s q r"
    and n: "next_receptionist_token s = int (card (served ps)) + int (card (full_windows s))"
    and b: "\<forall>b \<in> set (receptionist_token_bucket s). b = - 1 \<or> token_ok b"
    using ok by (auto simp: rec_ok_def)
  note nq = alone_unqueued [OF alone]
  let ?ps = "ps(t := Patient x')" and ?q = "step_queues t co q"
  have nr: "rec_stage (Patient y) = Resting" for y by (simp add: rec_stage_def)
  then have stage: "rec_stage (?ps u) = rec_stage (ps u)" for u using t by simp
  have same: ?thesis
    if "rec_vars s' = rec_vars s" "recep (Patient x') = recep (Patient x)" "has_token (Patient x') = has_token (Patient x)"
      "\<And>r. ?q (receptionist_line_full_cv r) = q (receptionist_line_full_cv r)" "\<And>r. ?q (receptionist_cv r) = q (receptionist_cv r)"
    by (rule rec_frame [OF ok that(1)]) (use that t nr in simp_all)
  have line: ?thesis
    if r: "r < 5" and s': "receptionist_line_length s' = (receptionist_line_length s)[r := l]" "receptionist_state s' = receptionist_state s"
        "receptionist_token_bucket s' = receptionist_token_bucket s" "next_receptionist_token s' = next_receptionist_token s"
      and at: "recep_at r (Patient x)" "recep_at r (Patient x')" "has_token (Patient x') = has_token (Patient x)"
      and q: "\<And>d. d \<noteq> r \<Longrightarrow> ?q (receptionist_line_full_cv d) = q (receptionist_line_full_cv d)" "\<And>d. ?q (receptionist_cv d) = q (receptionist_cv d)"
      and new: "line_ok ?ps s' ?q r" "heading r ?q ?ps = heading r q ps" for r l
  proof -
    have "receptionist_token_bucket s' = (receptionist_token_bucket s)[r := receptionist_token_bucket s ! r]" using s'(3) by simp
    moreover have "window ?ps s' ?q r" using o [OF r] new(2) s'(3) q(2) stage by (simp add: window_def del: fun_upd_apply)
    moreover have "receptionist_token_bucket s ! r = - 1 \<or> token_ok (receptionist_token_bucket s ! r)" using b r len by simp
    moreover have "served ?ps = served ps" using at(3) t by (auto simp: served_def)
    moreover have "full_windows s' = full_windows s" using s'(3) by (simp add: full_windows_def)
    ultimately show ?thesis using s' len at q new(1) n t nr
      by (intro rec_at [OF ok r s'(1)]) (simp_all del: fun_upd_apply)
  qed
  show ?thesis
  proof (cases x)
    case P_line
    define i where "i = shortest_line (receptionist_line_length s) 0 (receptionist_line_length s ! 0) 0"
    define r where "r = nat i"
    have i: "0 \<le> i" "i < 5" using shortest_line_range [of 0 0 "receptionist_line_length s"] len by (simp_all add: i_def)
    have s': "x' = P_queue (int r)" "co = Some (signal_on (receptionist_line_empty_cv r) receptionist_line_lock)"
      "s' = s\<lparr>receptionist_line_length := (receptionist_line_length s)[r := receptionist_line_length s ! r + 1]\<rparr>"
      using P_line run i by (auto simp: step_simps r_def i_def)
    have r: "r < 5" using i by (simp add: r_def)
    have new: "in_line r ?ps = insert t (in_line r ps)" "t \<notin> in_line r ps" using t P_line s' by (auto simp: in_line_def recep_def)
    have "line_ok ?ps s' ?q r"
      using o [OF r] new finite_in_line [OF roles, of r] s' r len nq [of "receptionist_line_full_cv r"]
      by (auto simp: line_ok_def)
    moreover have "heading r ?q ?ps = heading r q ps" using t P_line s' by (auto simp: heading_def recep_def fun_eq_iff)
    ultimately show ?thesis using r s' P_line by (intro line) (auto simp: recep_at_def recep_def has_token_def)
  next
    case (P_queue i)
    define r where "r = nat i"
    have s': "i = int r" "r < 5" "x' = P_called (int r)" "s' = s" "co = Some (wait_on (receptionist_line_full_cv r) receptionist_line_lock)"
      using P_queue run by (auto simp: step_simps r_def)
    have "in_line r ?ps = in_line r ps" using t P_queue s' by (auto simp: in_line_def recep_def)
    then have "line_ok ?ps s' ?q r"
      using o [OF s'(2)] s' nq [of "receptionist_line_full_cv r"] by (auto simp: line_ok_def recep_def)
    moreover have "heading r ?q ?ps = heading r q ps"
    proof
      fix u
      show "heading r ?q ?ps u = heading r q ps u" using t P_queue s' by (cases "u = t") (simp_all add: heading_def recep_def)
    qed
    ultimately show ?thesis using s' P_queue by (intro line [where l = "receptionist_line_length s ! r"]) (auto simp: recep_at_def recep_def has_token_def)
  next
    case (P_called i)
    define r where "r = nat i"
    have s': "i = int r" "r < 5" "x' = P_leave (int r)" "co = Some (Release receptionist_line_lock)"
      "s' = s\<lparr>receptionist_line_length := (receptionist_line_length s)[r := receptionist_line_length s ! r - 1]\<rparr>"
      using P_called run len by (auto simp: step_simps r_def)
    have new: "in_line r ?ps = in_line r ps - {t}" "t \<in> in_line r ps" using t P_called s' by (auto simp: in_line_def recep_def)
    have "line_ok ?ps s' ?q r"
      using o [OF s'(2)] new finite_in_line [OF roles, of r] s' len nq [of "receptionist_line_full_cv r"] card_Suc_Diff1 [of "in_line r ps" t]
      by (auto simp: line_ok_def)
    moreover have "heading r ?q ?ps = heading r q ps"
    proof
      fix u
      show "heading r ?q ?ps u = heading r q ps u" using t P_called s' nq by (cases "u = t") (simp_all add: heading_def recep_def)
    qed
    ultimately show ?thesis using s' P_called by (intro line) (auto simp: recep_at_def recep_def has_token_def)
  next
    case (P_leave i)
    define r where "r = nat i"
    have s': "i = int r" "r < 5" "x' = P_desk (int r)" "co = Some (Acquire (receptionist_lock r))" "s' = s"
      using P_leave run by (auto simp: step_simps r_def)
    have "in_line r ?ps = in_line r ps" using t P_leave s' by (auto simp: in_line_def recep_def)
    then have "line_ok ?ps s' ?q r" using o [OF s'(2)] s' nq [of "receptionist_line_full_cv r"] by (auto simp: line_ok_def)
    moreover have "heading r ?q ?ps = heading r q ps"
    proof
      fix u
      show "heading r ?q ?ps u = heading r q ps u" using t P_leave s' by (cases "u = t") (simp_all add: heading_def recep_def)
    qed
    ultimately show ?thesis using s' P_leave by (intro line [where l = "receptionist_line_length s ! r"]) (auto simp: recep_at_def recep_def has_token_def)
  next
    case (P_desk i)
    then have "0 \<le> i" "i < 5" using run by (auto simp: step_simps)
    then show ?thesis using rec_desk_step [OF roles ok alone, of "nat i"] t P_desk run by simp
  qed (use run in \<open>(intro same; auto simp: rec_vars_def recep_def has_token_def step_simps choose_cashier_def choose_pharmacist_def split: if_splits)\<close>)+
qed

end
