(* ===== verification/Nachos_Simulation.thy ===== *)
theory Nachos_Simulation
  imports Nachos_Door Nachos_Reception
begin

text \<open>
  The invariant \<open>hospital_ok\<close> of the hospital simulation, put together from its parts, and that every step of every actor keeps it.
\<close>

section \<open>Steps of the others\<close>

text \<open>A step of the program is a step of one of the actors.\<close>

lemma hospital_stepE:
  assumes "hospital p s = Inr (co, p', s')"
  obtains (main) x x' where "p = Main x" "p' = Main x'" "HmSimulation x s = Inr (co, x', s')"
  | (receptionist) i x x' where "p = Receptionist i x" "p' = Receptionist i x'" "receptionist i x s = Inr (co, x', s')"
  | (doorboy) x x' where "p = Doorboy x" "p' = Doorboy x'" "doorboy x s = Inr (co, x', s')"
  | (doctor) i x x' where "p = Doctor i x" "p' = Doctor i x'" "doctor i x s = Inr (co, x', s')"
  | (cashier) i x x' where "p = Cashier i x" "p' = Cashier i x'" "cashier i x s = Inr (co, x', s')"
  | (pharmacist) i x x' where "p = Pharmacist i x" "p' = Pharmacist i x'" "pharmacist i x s = Inr (co, x', s')"
  | (manager) x x' where "p = Manager x" "p' = Manager x'" "hospital_manager x s = Inr (co, x', s')"
  | (patient) x x' where "p = Patient x" "p' = Patient x'" "patient x s = Inr (co, x', s')"
  using assms by (cases p) (auto simp: as_actor_def res_simps)

text \<open>Steps of an actor that do not concern a part of the hospital.\<close>

definition cash_still :: "Hospital \<Rightarrow> actor \<Rightarrow> queues \<Rightarrow> Hospital \<Rightarrow> actor \<Rightarrow> queues \<Rightarrow> bool" where
  "cash_still s p q s' p' q' \<longleftrightarrow> cash_vars s' = cash_vars s \<and> (\<forall>c. cash_visit c p' = cash_visit c p) \<and> cash_stage p' = cash_stage p \<and>
     (\<forall>c. q' (cashier_cv c) = q (cashier_cv c))"

definition pharm_still :: "Hospital \<Rightarrow> actor \<Rightarrow> queues \<Rightarrow> Hospital \<Rightarrow> actor \<Rightarrow> queues \<Rightarrow> bool" where
  "pharm_still s p q s' p' q' \<longleftrightarrow> pharm_vars s' = pharm_vars s \<and> (\<forall>c. pharm_visit c p' = pharm_visit c p) \<and> pharm_stage p' = pharm_stage p \<and>
     (\<forall>c. q' (pharmacist_cv c) = q (pharmacist_cv c))"

definition doc_still :: "Hospital \<Rightarrow> actor \<Rightarrow> queues \<Rightarrow> Hospital \<Rightarrow> actor \<Rightarrow> queues \<Rightarrow> bool" where
  "doc_still s p q s' p' q' \<longleftrightarrow> doc_vars s' = doc_vars s \<and> patient_consultancy_fee s' = patient_consultancy_fee s \<and>
     (\<forall>nx c. doc_visit nx c p' = doc_visit nx c p) \<and> doc_stage p' = doc_stage p \<and> noted (patient_doctor_bucket s) p' \<and>
     (\<forall>c. q' (doctor_cv c) = q (doctor_cv c))"

definition door_still :: "Hospital \<Rightarrow> actor \<Rightarrow> queues \<Rightarrow> Hospital \<Rightarrow> actor \<Rightarrow> queues \<Rightarrow> bool" where
  "door_still s p q s' p' q' \<longleftrightarrow> next_available_doctor s' = next_available_doctor s \<and> doorboy_part p' = doorboy_part p \<and> at_door p' = at_door p \<and>
     q' patient_read_next_available_doctor_cv = q patient_read_next_available_doctor_cv \<and> q' doorboy_line_empty_cv = q doorboy_line_empty_cv"

definition rec_still :: "Hospital \<Rightarrow> actor \<Rightarrow> queues \<Rightarrow> Hospital \<Rightarrow> actor \<Rightarrow> queues \<Rightarrow> bool" where
  "rec_still s p q s' p' q' \<longleftrightarrow> rec_vars s' = rec_vars s \<and> recep p' = recep p \<and> rec_stage p' = rec_stage p \<and> has_token p' = has_token p \<and>
     (\<forall>r. q' (receptionist_line_full_cv r) = q (receptionist_line_full_cv r)) \<and> (\<forall>r. q' (receptionist_cv r) = q (receptionist_cv r))"

lemmas still_defs = cash_still_def pharm_still_def doc_still_def door_still_def rec_still_def
lemmas part_defs = cash_vars_def cash_visit_def cash_stage_def pharm_vars_def pharm_boxes_def pharm_visit_def pharm_stage_def doc_vars_def
  doc_visit_def doc_stage_def noted_def doorboy_part_def at_door_def rec_vars_def recep_def rec_stage_def has_token_def
lemmas other_simps = step_simps rand_def cashier_opens_def pharmacist_opens_def receptionist_line_length_is_null_def

lemma main_still:
  assumes "HmSimulation x s = Inr (co, x', s')" "x \<noteq> S_init" "p = Main x" "p' = Main x'" "q' = step_queues t co q"
  shows "cash_still s p q s' p' q'" "pharm_still s p q s' p' q'" "doc_still s p q s' p' q'" "door_still s p q s' p' q'" "rec_still s p q s' p' q'"
  using assms by (cases x; auto simp: still_defs part_defs split: if_splits)+

lemma manager_still:
  assumes "hospital_manager x s = Inr (co, x', s')" "p = Manager x" "p' = Manager x'" "q' = step_queues t co q"
  shows "cash_still s p q s' p' q'" "pharm_still s p q s' p' q'" "doc_still s p q s' p' q'" "door_still s p q s' p' q'" "rec_still s p q s' p' q'"
  using assms by (cases x; auto simp: still_defs part_defs rand_def Let_def split: if_splits nat.splits)+

lemma receptionist_still:
  assumes "receptionist i x s = Inr (co, x', s')" "p = Receptionist i x" "p' = Receptionist i x'" "q' = step_queues t co q"
  shows "cash_still s p q s' p' q'" "pharm_still s p q s' p' q'" "doc_still s p q s' p' q'" "door_still s p q s' p' q'"
  using assms by (cases x; auto simp: still_defs part_defs other_simps split: if_splits)+

lemma doorboy_still:
  assumes "doorboy x s = Inr (co, x', s')" "p = Doorboy x" "p' = Doorboy x'" "q' = step_queues t co q"
  shows "cash_still s p q s' p' q'" "pharm_still s p q s' p' q'" "rec_still s p q s' p' q'"
  using assms by (cases x; auto simp: still_defs part_defs other_simps split: if_splits)+

lemma doctor_still:
  assumes "doctor i x s = Inr (co, x', s')" "p = Doctor i x" "p' = Doctor i x'" "q' = step_queues t co q"
  shows "cash_still s p q s' p' q'" "pharm_still s p q s' p' q'" "door_still s p q s' p' q'" "rec_still s p q s' p' q'"
  using assms by (cases x; auto simp: still_defs part_defs other_simps split: if_splits nat.splits)+

lemma cashier_still:
  assumes "cashier i x s = Inr (co, x', s')" "p = Cashier i x" "p' = Cashier i x'" "q' = step_queues t co q"
  shows "pharm_still s p q s' p' q'" "doc_still s p q s' p' q'" "door_still s p q s' p' q'" "rec_still s p q s' p' q'"
  using assms by (cases x; auto simp: still_defs part_defs other_simps split: if_splits)+

lemma pharmacist_still:
  assumes "pharmacist i x s = Inr (co, x', s')" "p = Pharmacist i x" "p' = Pharmacist i x'" "q' = step_queues t co q"
  shows "cash_still s p q s' p' q'" "doc_still s p q s' p' q'" "door_still s p q s' p' q'" "rec_still s p q s' p' q'"
  using assms by (cases x; auto simp: still_defs part_defs other_simps split: if_splits)+

section \<open>The invariant\<close>

definition hospital_ok :: "(tid \<Rightarrow> actor) \<Rightarrow> Hospital \<Rightarrow> queues \<Rightarrow> bool" where
  "hospital_ok ps s q \<longleftrightarrow> roles_ok ps \<and> (\<forall>t. ps t \<noteq> Main S_init) \<and> length (patient_consultancy_fee s) = 10 \<and> (\<forall>t. carried_ok s (ps t)) \<and>
     rec_ok ps s q \<and> door_ok ps s q \<and> doc_ok ps s q \<and> cash_ok ps s q \<and> pharm_ok ps s q"

text \<open>The five parts without the parts that a step concerns.\<close>

lemma still_ok:
  "cash_ok ps s q \<Longrightarrow> cash_still s (ps t) q s' p' q' \<Longrightarrow> cash_ok (ps(t := p')) s' q'"
  "pharm_ok ps s q \<Longrightarrow> pharm_still s (ps t) q s' p' q' \<Longrightarrow> pharm_ok (ps(t := p')) s' q'"
  "doc_ok ps s q \<Longrightarrow> doc_still s (ps t) q s' p' q' \<Longrightarrow> doc_ok (ps(t := p')) s' q'"
  "door_ok ps s q \<Longrightarrow> door_still s (ps t) q s' p' q' \<Longrightarrow> door_ok (ps(t := p')) s' q'"
  "rec_ok ps s q \<Longrightarrow> rec_still s (ps t) q s' p' q' \<Longrightarrow> rec_ok (ps(t := p')) s' q'"
  by (auto simp: still_defs intro!: cash_frame pharm_frame doc_frame door_frame rec_frame bills_kept_same)

lemma parts_step:
  assumes ok: "hospital_ok ps s q" and alone: "wards.alone ps q t" and run: "hospital (ps t) s = Inr (co, p', s')"
  shows "rec_ok (ps(t := p')) s' (step_queues t co q) \<and> door_ok (ps(t := p')) s' (step_queues t co q) \<and>
    doc_ok (ps(t := p')) s' (step_queues t co q) \<and> cash_ok (ps(t := p')) s' (step_queues t co q) \<and> pharm_ok (ps(t := p')) s' (step_queues t co q)"
proof -
  have o: "roles_ok ps" "ps t \<noteq> Main S_init" "length (patient_consultancy_fee s) = 10" "\<And>u. carried_ok s (ps u)" "rec_ok ps s q"
    "door_ok ps s q" "doc_ok ps s q" "cash_ok ps s q" "pharm_ok ps s q" using ok by (simp_all add: hospital_ok_def)
  note still = still_ok(1) [OF o(8)] still_ok(2) [OF o(9)] still_ok(3) [OF o(7)] still_ok(4) [OF o(6)] still_ok(5) [OF o(5)]
  show ?thesis
    using run
  proof (cases rule: hospital_stepE)
    case (main x x')
    have "x \<noteq> S_init" using main(1) o(2) by auto
    then show ?thesis using still main_still [OF main(3) _ main(1,2) refl, of q t] by blast
  next
    case (receptionist i x x')
    then show ?thesis using still receptionist_still [OF receptionist(3,1,2) refl, of q t]
        rec_colleague_step [OF o(1,5) alone receptionist(1,3)] by blast
  next
    case (doorboy x x')
    then show ?thesis using still doorboy_still [OF doorboy(3,1,2) refl, of q t]
        door_doorboy_step [OF o(6,4) alone doorboy(1,3)] doc_doorboy_step [OF o(1,7,6) alone doorboy(1,3)] by blast
  next
    case (doctor i x x')
    then show ?thesis using still doctor_still [OF doctor(3,1,2) refl, of q t]
        doc_colleague_step [OF o(1,7,4) alone o(3) doctor(1,3)] by blast
  next
    case (cashier i x x')
    then show ?thesis using still cashier_still [OF cashier(3,1,2) refl, of q t]
        cash_colleague_step [OF o(1,8,4) alone cashier(1,3)] by blast
  next
    case (pharmacist i x x')
    then show ?thesis using still pharmacist_still [OF pharmacist(3,1,2) refl, of q t]
        pharm_colleague_step [OF o(1,9) alone pharmacist(1,3)] by blast
  next
    case (manager x x')
    then show ?thesis using still manager_still [OF manager(3,1,2) refl, of q t] by blast
  next
    case (patient x x')
    then show ?thesis
      using rec_patient_step [OF o(1,5) alone patient(1,3)] door_patient_step [OF o(6) alone patient(1,3)]
        doc_patient_step [OF o(1,7,6) alone patient(1,3)] cash_patient_step [OF o(1,8) alone patient(1,3)]
        pharm_patient_step [OF o(1,9,4) alone patient(1,3)] by blast
  qed
qed

section \<open>What patients carry, again\<close>

lemma carried_mono: "bills_kept s s' \<Longrightarrow> carried_ok s p \<Longrightarrow> carried_ok s' p"
  by (auto simp: carried_ok_def patient_ok_def bills_kept_def split: actor.splits patient_pc.splits doorboy_pc.splits doctor_pc.splits)

lemma bills_step:
  assumes ok: "hospital_ok ps s q" and run: "hospital (ps t) s = Inr (co, p', s')"
  shows "bills_kept s s'" "length (patient_consultancy_fee s') = 10"
proof -
  have o: "ps t \<noteq> Main S_init" "length (patient_consultancy_fee s) = 10" "carried_ok s (ps t)" using ok by (simp_all add: hospital_ok_def)
  have "bills_kept s s' \<and> length (patient_consultancy_fee s') = 10"
  proof (cases "\<exists>i x. ps t = Doctor i x")
    case True
    then obtain i x x' where x: "ps t = Doctor i x" "doctor i x s = Inr (co, x', s')" using run by (auto simp: as_actor_def res_simps)
    then have "length (patient_consultancy_fee s') = 10" using o(2) by (cases x) (auto simp: other_simps split: if_splits nat.splits)
    then show ?thesis using doctor_bills [OF _ o(2) x(2)] o(3) x(1) by simp
  next
    case False
    have "patient_consultancy_fee s' = patient_consultancy_fee s"
      using run
    proof (cases rule: hospital_stepE)
      case (main x x')
      then show ?thesis using o(1) by (cases x) (auto simp: other_simps split: if_splits)
    next
      case (receptionist i x x')
      then show ?thesis by (cases x) (auto simp: other_simps split: if_splits)
    next
      case (doorboy x x')
      then show ?thesis by (cases x) (auto simp: other_simps split: if_splits)
    next
      case (cashier i x x')
      then show ?thesis by (cases x) (auto simp: other_simps split: if_splits)
    next
      case (pharmacist i x x')
      then show ?thesis by (cases x) (auto simp: other_simps split: if_splits)
    next
      case (manager x x')
      then show ?thesis by (cases x) (auto simp: other_simps split: if_splits nat.splits)
    next
      case (patient x x')
      then show ?thesis by (cases x) (auto simp: other_simps choose_cashier_def choose_pharmacist_def split: if_splits)
    qed (use False in simp)
    then show ?thesis using o(2) bills_kept_same by simp
  qed
  then show "bills_kept s s'" "length (patient_consultancy_fee s') = 10" by simp_all
qed

text \<open>What a patient at a desk finds there.\<close>

lemma diagnosis:
  assumes ok: "doc_ok ps s q" and alone: "wards.alone ps q t" and t: "ps t = Patient (P_doc_hear k d)" "0 \<le> d" "d < 3"
  shows "0 \<le> patient_doctor_bucket s ! nat d" "patient_doctor_bucket s ! nat d < 5" "billed s k"
proof -
  have "desk (doc_station s) ps q (nat d)" using ok t by (simp add: doc_ok_def row_ok_def)
  then have "at_desk (doc_station s) (nat d) (doc_stage (ps (11 + nat d))) (Some (t, Asking k)) (q (doctor_cv (nat d)))"
    using desk_at [of "doc_station s" ps q "nat d" t "Asking k"] t by (simp add: doc_visit_def)
  then show "0 \<le> patient_doctor_bucket s ! nat d" "patient_doctor_bucket s ! nat d < 5" "billed s k"
    using desk_answered [of _ _ t k _ _ _ _ _ "q (doctor_cv (nat d))"] alone_unqueued [OF alone] unfolding at_desk_def by fastforce+
qed

lemma free_cashier:
  assumes "cash_ok ps s q" "cashier_available_count s \<noteq> 0"
  shows "0 \<le> find_free (cashier_state s) 0 \<and> find_free (cashier_state s) 0 < 3"
  using assms zeros_find [of "cashier_state s"] by (auto simp: cash_ok_def row_ok_def)

lemma free_pharmacist:
  assumes "pharm_ok ps s q" "pharmacist_available_count s \<noteq> 0"
  shows "0 \<le> find_free (pharmacist_status s) 0 \<and> find_free (pharmacist_status s) 0 < 3"
  using assms zeros_find [of "pharmacist_status s"] by (auto simp: pharm_ok_def row_ok_def)

lemma free_doctor:
  assumes "doc_ok ps s q" "number_of_available_doctors s \<noteq> 0"
  shows "0 \<le> find_free (doctor_state s) 0 \<and> find_free (doctor_state s) 0 < 3"
  using assms zeros_find [of "doctor_state s"] by (auto simp: doc_ok_def row_ok_def)

lemma carried_patient:
  assumes ok: "hospital_ok ps s q" and alone: "wards.alone ps q t" and t: "ps t = Patient x" and run: "patient x s = Inr (co, x', s')"
  shows "patient_ok s x'"
proof -
  have o: "rec_ok ps s q" "door_ok ps s q" "doc_ok ps s q" "cash_ok ps s q" "pharm_ok ps s q" "patient_ok s x"
    using ok t by (auto simp: hospital_ok_def carried_ok_def dest: spec [of _ t])
  show ?thesis
  proof (cases x)
    case (P_desk r)
    then have r: "0 \<le> r" "r < 5" using o(6) by (simp_all add: patient_ok_def)
    have "\<forall>b \<in> set (receptionist_token_bucket s). b = - 1 \<or> token_ok b" "length (receptionist_token_bucket s) = 5" using o(1) by (simp_all add: rec_ok_def)
    then have "receptionist_token_bucket s ! nat r = - 1 \<or> token_ok (receptionist_token_bucket s ! nat r)" using r by simp
    then show ?thesis using run P_desk r by (auto simp: step_simps patient_ok_def split: if_splits)
  next
    case (P_door_read k)
    then show ?thesis using run door_read [OF o(2) alone] t o(6) by (auto simp: patient_ok_def)
  next
    case (P_doc_hear k d)
    then show ?thesis using run diagnosis [OF o(3) alone] t o(6) by (auto simp: step_simps patient_ok_def)
  next
    case (P_cash_line k g)
    then show ?thesis using run free_cashier [OF o(4)] o(6) by (auto simp: step_simps patient_ok_def choose_cashier_def split: if_splits)
  next
    case (P_cash_wait k g)
    then show ?thesis using run free_cashier [OF o(4)] o(6) by (auto simp: step_simps patient_ok_def choose_cashier_def split: if_splits)
  next
    case (P_pharm_line k g)
    then show ?thesis using run free_pharmacist [OF o(5)] o(6) by (auto simp: step_simps patient_ok_def choose_pharmacist_def split: if_splits)
  next
    case (P_pharm_wait k g)
    then show ?thesis using run free_pharmacist [OF o(5)] o(6) by (auto simp: step_simps patient_ok_def choose_pharmacist_def split: if_splits)
  qed (use run o(6) in \<open>auto simp: step_simps patient_ok_def billed_def split: if_splits\<close>)
qed

lemma carried_step:
  assumes ok: "hospital_ok ps s q" and alone: "wards.alone ps q t" and run: "hospital (ps t) s = Inr (co, p', s')"
  shows "carried_ok s p'"
  using run
proof (cases rule: hospital_stepE)
  case (patient x x')
  then show ?thesis using carried_patient [OF ok alone patient(1,3)] by (simp add: carried_ok_def)
next
  case (doorboy x x')
  have "doc_ok ps s q" using ok by (simp add: hospital_ok_def)
  then show ?thesis using doorboy free_doctor [of ps s q] by (cases x) (auto simp: carried_ok_def step_simps split: if_splits)
next
  case (doctor i x x')
  have "carried_ok s (Doctor i x)" using ok doctor(1) unfolding hospital_ok_def by metis
  then show ?thesis using doctor by (cases x) (auto simp: carried_ok_def other_simps split: if_splits nat.splits)
qed (simp_all add: carried_ok_def)

lemma hospital_ok_step:
  assumes ok: "hospital_ok ps s q" and alone: "wards.alone ps q t" and run: "hospital (ps t) s = Inr (co, p', s')"
  shows "hospital_ok (ps(t := p')) s' (step_queues t co q)"
proof -
  have o: "roles_ok ps" "\<And>u. ps u \<noteq> Main S_init" "\<And>u. carried_ok s (ps u)" using ok by (simp_all add: hospital_ok_def)
  have "p' \<noteq> Main S_init"
  proof (cases "ps t")
    case (Main x)
    then show ?thesis using run by (cases x) (auto simp: as_actor_def split: if_splits)
  qed (use run in \<open>auto simp: as_actor_def res_simps\<close>)
  then have "(ps(t := p')) u \<noteq> Main S_init" for u using o(2) by simp
  moreover have "carried_ok s' ((ps(t := p')) u)" for u
    using carried_mono [OF bills_step(1) [OF ok run]] carried_step [OF ok alone run] o(3) by simp
  ultimately show ?thesis
    using parts_step [OF ok alone run] roles_ok_step [OF o(1) run] bills_step(2) [OF ok run] by (simp add: hospital_ok_def del: fun_upd_apply)
qed

end
