(* ===== verification/Nachos_Rota.thy ===== *)
theory Nachos_Rota
  imports Nachos_Simulation
begin

text \<open>
  What the invariant of \<open>Nachos_Simulation\<close> gives for the runs of the hospital simulation: a thread that executes its own code never
  faults. It holds after the first call of the main thread, which initialises the arrays, and every run passes through that state.
\<close>

section \<open>Progress\<close>

text \<open>Code that neither fails an assertion nor leaves an array.\<close>

definition runs :: "'a res \<Rightarrow> bool" where "runs r \<longleftrightarrow> (\<exists>x. r = Inr x)"

lemma runs_simps [simp]:
  "runs (Inr x)" "runs (andThen r f) \<longleftrightarrow> (\<exists>x. r = Inr x \<and> runs (f x))" "runs (as_actor g a) \<longleftrightarrow> runs a"
  by (cases r, auto simp: runs_def as_actor_def res_simps)

lemmas run_simps = aget_Inr aset_Inr obj_Inr Let_def hospital_sizes diseases_count_def ASSERT_def

lemma receptionist_runs:
  assumes "rec_ok ps s q" "0 \<le> i" "i < 5"
  shows "runs (receptionist i x s)"
  using assms by (cases x) (simp_all add: rec_ok_def run_simps receptionist_line_length_is_null_def)

text \<open>A door-boy who has been woken knows that a patient has read which doctor is free.\<close>

lemma door_confirmed:
  assumes ok: "door_ok ps s q" and alone: "wards.alone ps q t" and t: "ps t = Doorboy B_confirmed"
  shows "next_available_doctor s = - 2"
proof -
  obtain w r where w: "only (doorboy_part \<circ> ps) w" "handing w r (next_available_doctor s) (q patient_read_next_available_doctor_cv)"
    using ok by (auto simp: door_ok_def)
  have "w = Some (t, 2)" using only_at [OF w(1), of t 2] t by (simp add: doorboy_part_def)
  then show ?thesis using w(2) alone_unqueued [OF alone, of patient_read_next_available_doctor_cv] by (auto simp: handing_def no_doctor_def)
qed

lemma doorboy_runs:
  assumes ok: "hospital_ok ps s q" and alone: "wards.alone ps q t" and t: "ps t = Doorboy x"
  shows "runs (doorboy x s)"
proof -
  have o: "door_ok ps s q" "doc_ok ps s q" "length (doctor_state s) = 3" using ok by (simp_all add: hospital_ok_def doc_ok_def row_ok_def)
  show ?thesis
  proof (cases x)
    case B_find
    then show ?thesis using free_doctor [OF o(2)] o(3) by (cases "number_of_available_doctors s = 0") (auto simp: run_simps)
  next
    case B_confirmed
    then have "next_available_doctor s = - 2" using door_confirmed [OF o(1) alone] t by simp
    then show ?thesis using B_confirmed by (simp add: run_simps)
  qed simp_all
qed

lemma doctor_runs:
  assumes ok: "hospital_ok ps s q" and t: "ps t = Doctor i x"
  shows "runs (doctor i x s)"
proof -
  have o: "roles_ok ps" "doc_ok ps s q" "length (patient_consultancy_fee s) = 10" "\<And>u. carried_ok s (ps u)"
    "length (doctor_state s) = 3" "length (patient_doctor_bucket s) = 3" "noted (patient_doctor_bucket s) (ps t)"
    using ok by (simp_all add: hospital_ok_def doc_ok_def row_ok_def)
  obtain c where c: "c < 3" "i = int c" "t = 11 + c" using role_index(2) [OF o(1) t] by blast
  show ?thesis
  proof (cases x)
    case (D_think k n g)
    show ?thesis
    proof (cases n)
      case 0
      have "desk (doc_station s) ps q c" using o(2) c by (simp add: doc_ok_def row_ok_def)
      then obtain v l where "only (doc_visit (next_available_doctor s) c \<circ> ps) (Some (v, Asking l))" "patient_doctor_bucket s ! c = l"
        using t c D_think by (auto simp: desk_def at_desk_def doc_stage_def)
      then have "token_ok k" using doc_token [where s = s and ps = ps and t = t, OF o(4) o(7)] t c D_think by blast
      moreover have "0 \<le> g" "g < 5" using o(4) [of t] t D_think by (simp_all add: carried_ok_def)
      ultimately show ?thesis using D_think 0 c o(3,6) by (simp add: run_simps token_ok_def)
    qed (simp add: D_think)
  qed (use c o(5,6) in \<open>simp_all add: run_simps rand_def\<close>)
qed

lemma cashier_runs:
  assumes ok: "hospital_ok ps s q" and alone: "wards.alone ps q t" and t: "ps t = Cashier i x"
  shows "runs (cashier i x s)"
proof -
  have o: "roles_ok ps" "cash_ok ps s q" "length (patient_consultancy_fee s) = 10" "\<And>u. carried_ok s (ps u)"
    "length (cashier_state s) = 3" "length (patient_cashier_bucket s) = 3"
    using ok by (simp_all add: hospital_ok_def cash_ok_def row_ok_def)
  obtain c where c: "c < 3" "i = int c" "t = 14 + c" using role_index(3) [OF o(1) t] by blast
  show ?thesis
  proof (cases x)
    case C_serve
    have "desk (cash_station s) ps q c" using o(2) c by (simp add: cash_ok_def row_ok_def)
    then obtain w where "only (cash_visit c \<circ> ps) w" "at_desk (cash_station s) c Asleep w (q (cashier_cv c))"
      using t c C_serve by (auto simp: desk_def cash_stage_def)
    then have "billed s (patient_cashier_bucket s ! c)" using cash_woken [OF o(4) alone _ c(3)] t c(2) C_serve by blast
    then show ?thesis using C_serve c o(3,6) by (simp add: run_simps billed_def token_ok_def)
  qed (use c o(5,6) in \<open>simp_all add: run_simps cashier_opens_def\<close>)
qed

lemma pharmacist_runs:
  assumes ok: "hospital_ok ps s q" and alone: "wards.alone ps q t" and t: "ps t = Pharmacist i x"
  shows "runs (pharmacist i x s)"
proof -
  have o: "roles_ok ps" "pharm_ok ps s q" "length (pharmacist_status s) = 3" "\<forall>b \<in> set (pharm_boxes s). length b = 3"
    using ok by (simp_all add: hospital_ok_def pharm_ok_def row_ok_def)
  obtain c where c: "c < 3" "i = int c" "t = 17 + c" using role_index(4) [OF o(1) t] by blast
  obtain w where w: "only (pharm_visit c \<circ> ps) w" "at_desk (pharm_station s) c (pharm_stage (Pharmacist i x)) w (q (pharmacist_cv c))"
    using o(2) c t by (auto simp: pharm_ok_def row_ok_def desk_def)
  show ?thesis
  proof (cases x)
    case H_serve
    then have "at_desk (pharm_station s) c Busy w (q (pharmacist_cv c))"
      using pharm_woken [OF alone _ c(3) w(1)] w(2) t c(2) by (simp add: pharm_stage_def)
    then have "to_pharmacist_patient_token_bucket s ! c \<noteq> - 2" "0 \<le> to_pharmacist_prescription_bucket s ! c" "to_pharmacist_prescription_bucket s ! c < 5"
      by (auto simp: at_desk_def)
    moreover have "length medicine_costs = 5" by (simp add: medicine_costs_def)
    ultimately show ?thesis using H_serve c o(4) by (simp add: run_simps pharm_boxes_def)
  next
    case H_pay
    then have "to_pharmacist_medicine_payment_bucket s ! c \<noteq> - 2"
      using w(2) c(3) alone_unqueued [OF alone, of "pharmacist_cv c"] by (auto simp: at_desk_def pharm_stage_def)
    then show ?thesis using H_pay c o(4) by (simp add: run_simps pharm_boxes_def)
  qed (use c o(3) in \<open>simp_all add: run_simps pharmacist_opens_def\<close>)
qed

lemma patient_runs:
  assumes ok: "hospital_ok ps s q" and alone: "wards.alone ps q t" and t: "ps t = Patient x"
  shows "runs (patient x s)"
proof -
  have o: "rec_ok ps s q" "doc_ok ps s q" "cash_ok ps s q" "pharm_ok ps s q" "patient_ok s x"
    using ok t by (auto simp: hospital_ok_def carried_ok_def dest: spec [of _ t])
  have len: "length (receptionist_line_length s) = 5" "length (receptionist_token_bucket s) = 5" "length (patient_doctor_bucket s) = 3"
    "length (patient_cashier_bucket s) = 3" "length (cashier_state s) = 3" "length (pharmacist_status s) = 3" "\<forall>b \<in> set (pharm_boxes s). length b = 3"
    using o(1-4) by (simp_all add: rec_ok_def doc_ok_def cash_ok_def pharm_ok_def row_ok_def)
  have cash: "runs (choose_cashier k g (s\<lparr>number_of_patients_in_cashier_line := n\<rparr>))" for k g n
    using free_cashier [OF o(3)] len(5) by (cases "cashier_available_count s = 0") (auto simp: choose_cashier_def run_simps)
  have pharm: "runs (choose_pharmacist k g (s\<lparr>pharmacist_line_length := n\<rparr>))" for k g n
    using free_pharmacist [OF o(4)] len(6) by (cases "pharmacist_available_count s = 0") (auto simp: choose_pharmacist_def run_simps)
  show ?thesis
  proof (cases x)
    case P_line
    then show ?thesis using shortest_line_range [of 0 0 "receptionist_line_length s"] len(1) by (simp add: run_simps)
  next
    case (P_doc_hear k d)
    then show ?thesis using diagnosis(1,2) [OF o(2) alone] t o(5) len(3) by (simp add: run_simps patient_ok_def)
  next
    case (P_cash_wait k g)
    then show ?thesis using cash [of k g "number_of_patients_in_cashier_line s"] by simp
  next
    case (P_pharm_wait k g)
    then show ?thesis using pharm [of k g "pharmacist_line_length s"] by simp
  qed (use o(5) len cash pharm in \<open>simp_all add: run_simps patient_ok_def pharm_boxes_def\<close>)
qed

lemma hospital_progress:
  assumes ok: "hospital_ok ps s q" and alone: "wards.alone ps q t"
  shows "runs (hospital (ps t) s)"
proof (cases "ps t")
  case (Main x)
  then show ?thesis by (cases x) simp_all
next
  case (Receptionist i x)
  have "roles_ok ps" "rec_ok ps s q" using ok by (simp_all add: hospital_ok_def)
  then show ?thesis using Receptionist receptionist_runs [of ps s q i x] role_index(1) [of ps t i x] by auto
next
  case (Manager x)
  then show ?thesis by (cases x) (simp_all add: run_simps rand_def split: nat.split)
qed (use doorboy_runs [OF ok alone] doctor_runs [OF ok] cashier_runs [OF ok alone] pharmacist_runs [OF ok alone] patient_runs [OF ok alone] in simp_all)

section \<open>Runs\<close>

text \<open>The state in which the main thread has initialised the arrays and is about to fork the others.\<close>

lemma desk_shut:
  assumes "visit D c \<circ> ps = (\<lambda>_. None)" "stage D (ps (first_thread D + c)) = Closed" "\<not> free D c" "clear D c"
  shows "desk D ps (\<lambda>_. []) c"
  using assms unfolding desk_def by (intro exI [of _ None]) (simp add: only_def at_desk_def)

lemma idle:
  assumes "p = Main (S_fork 1) \<or> (\<exists>i. p = Receptionist i R_start) \<or> p = Doorboy B_start \<or> (\<exists>i. p = Doctor i D_start) \<or> (\<exists>i. p = Cashier i C_start) \<or>
    (\<exists>i. p = Pharmacist i H_start) \<or> p = Manager M_start \<or> p = Patient P_arrive \<or> p = Patient P_done"
  shows "carried_ok s p" "doorboy_part p = None" "\<not> at_door p" "recep p = None" "rec_stage p = Resting" "noted b p" "doc_visit nx c p = None"
    "cash_visit c p = None" "pharm_visit c p = None" "doc_stage p = Closed" "cash_stage p = Closed" "pharm_stage p = Closed" "p \<noteq> Main S_init"
  using assms by (elim disjE exE; simp add: carried_ok_def patient_ok_def part_defs)+

lemma hospital_ok_start: "hospital_ok (hospital_role(0 := Main (S_fork 1))) (initialize (hospital_globals r)) (\<lambda>_. [])" (is "hospital_ok ?ps ?s ?q")
proof -
  note start = initialize_def hospital_globals_def fill_array_def hospital_sizes
  have zeros: "zeros (replicate 3 1) = 0" by (simp add: zeros_def numeral_eq_Suc)
  have cases: "?ps t = Main (S_fork 1) \<or> (\<exists>i. ?ps t = Receptionist i R_start) \<or> ?ps t = Doorboy B_start \<or> (\<exists>i. ?ps t = Doctor i D_start) \<or>
      (\<exists>i. ?ps t = Cashier i C_start) \<or> (\<exists>i. ?ps t = Pharmacist i H_start) \<or> ?ps t = Manager M_start \<or> ?ps t = Patient P_arrive \<or>
      ?ps t = Patient P_done" for t by (simp add: hospital_role_def)
  have parts: "carried_ok ?s (?ps t)" "doorboy_part (?ps t) = None" "\<not> at_door (?ps t)" "recep (?ps t) = None" "rec_stage (?ps t) = Resting"
      "noted b (?ps t)" "doc_visit nx c (?ps t) = None" "cash_visit c (?ps t) = None" "pharm_visit c (?ps t) = None"
      "doc_stage (?ps t) = Closed" "cash_stage (?ps t) = Closed" "pharm_stage (?ps t) = Closed" "?ps t \<noteq> Main S_init" for t b nx c
    using idle [OF cases [of t]] by simp_all
  have "roles_ok ?ps" by (auto simp: roles_ok_def hospital_role_def hospital_threads_def hospital_sizes)
  moreover have "length (patient_consultancy_fee ?s) = 10" by (simp add: start)
  moreover have "rec_ok ?ps ?s ?q"
  proof -
    have "heading c ?q ?ps = (\<lambda>_. None)" "in_line c ?ps = {}" for c using parts by (simp_all add: heading_def in_line_def fun_eq_iff del: fun_upd_apply)
    then have "window ?ps ?s ?q c" "line_ok ?ps ?s ?q c" if "c < 5" for c
      using that parts unfolding window_def line_ok_def by (simp_all add: only_def start del: fun_upd_apply)
    moreover have "served ?ps = {}"
    proof -
      have "\<not> has_token (?ps t)" if "t \<in> {21..30}" for t using that by (simp add: hospital_role_def hospital_threads_def hospital_sizes has_token_def)
      then show ?thesis by (simp add: served_def)
    qed
    moreover have "full_windows ?s = {}" by (simp add: full_windows_def start)
    ultimately show ?thesis by (simp add: rec_ok_def start del: fun_upd_apply)
  qed
  moreover have "door_ok ?ps ?s ?q"
    using parts unfolding door_ok_def by (intro exI [of _ None]) (simp add: only_def called_def handing_def no_doctor_def start)
  moreover have "doc_ok ?ps ?s ?q"
  proof -
    have "desk (doc_station ?s) ?ps ?q c" if "c < 3" for c using that parts by (intro desk_shut) (simp_all add: start fun_eq_iff del: fun_upd_apply)
    then show ?thesis using parts zeros by (simp add: doc_ok_def row_ok_def start del: fun_upd_apply)
  qed
  moreover have "cash_ok ?ps ?s ?q"
  proof -
    have "desk (cash_station ?s) ?ps ?q c" if "c < 3" for c using that parts by (intro desk_shut) (simp_all add: start fun_eq_iff del: fun_upd_apply)
    then show ?thesis using parts zeros by (simp add: cash_ok_def row_ok_def start)
  qed
  moreover have "pharm_ok ?ps ?s ?q"
  proof -
    have "desk (pharm_station ?s) ?ps ?q c" if "c < 3" for c using that parts by (intro desk_shut) (simp_all add: start fun_eq_iff del: fun_upd_apply)
    then show ?thesis using parts zeros by (simp add: pharm_ok_def pharm_boxes_def row_ok_def start)
  qed
  ultimately show ?thesis using parts unfolding hospital_ok_def by blast
qed

lemma first_step:
  "sys_reaches run code S0 S \<Longrightarrow> S = S0 \<or> (\<exists>S1. sys_step run code S0 = Inr S1 \<and> sys_reaches run code S1 S)"
  by (induction rule: sys_reaches.induct) (auto intro: sys_reaches.intros)

lemma first_call:
  assumes run: "kernel_devices run" and ic: "pending_ok ic" and S: "sys_step run hospital (hospital_start r ic) = Inr S1"
  shows "wards.sys_typed S1" "wards.cond_typed (sys_kernel S1)" "cond_queues (sys_kernel S1) = (\<lambda>_. [])"
    "pcs S1 = hospital_role(0 := Main (S_fork 1))" "shared S1 = initialize (hospital_globals r)"
proof -
  let ?S = "hospital_start r ic"
  have S0: "wards.sys_typed ?S" by (rule hospital_start_typed [OF ic])
  have at: "cur_stack (sys_kernel ?S) = [User, Root_finish]" "currentThread (sys_kernel ?S) = 0" "pcs ?S = hospital_role" "shared ?S = hospital_globals r"
    "conditions (sys_kernel ?S) = (\<lambda>_. Condition_new)"
    by (simp_all add: hospital_start_def kernel_init_def)
  have code: "hospital (pcs ?S 0) (shared ?S) = call (NewThread 1) (Main (S_fork 1)) (initialize (hospital_globals r))"
    by (simp add: hospital_start_def hospital_role_def as_actor_def)
  have "wards.cond_typed (sys_kernel S1) \<and> cond_queues (sys_kernel S1) = (\<lambda>_. []) \<and> pcs S1 = hospital_role(0 := Main (S_fork 1)) \<and>
    shared S1 = initialize (hospital_globals r)"
    using S
  proof (cases rule: sys_step_cases)
    case (call fs c p s k1)
    then have c: "c = NewThread 1" "p = Main (S_fork 1)" "s = initialize (hospital_globals r)" using code at(2) by simp_all
    then have "conditions k1 = (\<lambda>_. Condition_new)"
      using wards.call_acts [OF run S0 call(1-4)] at(5) by (simp add: acts_def)
    then have "wards.cond_typed k1" "cond_queues k1 = (\<lambda>_. [])" by (simp_all add: wards.cond_typed_def cond_queues_def fun_eq_iff Condition_new_def)
    then show ?thesis using call(5) c at(2,3) by simp
  qed (use code at(1,2) in auto)
  then show "wards.sys_typed S1" "wards.cond_typed (sys_kernel S1)" "cond_queues (sys_kernel S1) = (\<lambda>_. [])"
    "pcs S1 = hospital_role(0 := Main (S_fork 1))" "shared S1 = initialize (hospital_globals r)"
    using wards.step_typed [OF run S S0] by simp_all
qed

text \<open>The invariant, and any other that rests on it.\<close>

lemma hospital_rule:
  assumes S: "hospital_reaches run r ic S"
    and start: "J (hospital_role(0 := Main (S_fork 1))) (initialize (hospital_globals r))"
    and step: "\<And>ps s q t co p' s'. hospital_ok ps s q \<Longrightarrow> J ps s \<Longrightarrow> wards.alone ps q t \<Longrightarrow> hospital (ps t) s = Inr (co, p', s') \<Longrightarrow> J (ps(t := p')) s'"
  shows "S = hospital_start r ic \<or> hospital_ok (pcs S) (shared S) (cond_queues (sys_kernel S)) \<and> J (pcs S) (shared S)"
proof -
  let ?I = "\<lambda>ps s q. hospital_ok ps s q \<and> J ps s"
  have run: "kernel_devices run" and ic: "pending_ok ic" and S: "sys_reaches run hospital (hospital_start r ic) S"
    using S nachos.kernel_devices_axioms by (auto simp: hospital_reaches_def)
  have "?I (pcs S) (shared S) (cond_queues (sys_kernel S))"
    if "sys_step run hospital (hospital_start r ic) = Inr S1" "sys_reaches run hospital S1 S" for S1
  proof -
    note S1 = first_call [OF run ic that(1)]
    have "wards.sys_typed S \<and> wards.cond_typed (sys_kernel S) \<and> ?I (pcs S) (shared S) (cond_queues (sys_kernel S))"
    proof (rule wards.monitor_rule [OF run S1(1,2) _ _ _ that(2)])
      show "?I (pcs S1) (shared S1) (cond_queues (sys_kernel S1))" using S1(3-5) hospital_ok_start start by simp
      show "?I (ps(t := p')) s' (call_queues t c q)"
        if "?I ps s q" "wards.alone ps q t" "hospital (ps t) s = Inr (Some c, p', s')" for ps s q t c p' s'
        using hospital_ok_step [OF _ that(2,3)] step [OF _ _ that(2,3)] that(1) by (simp add: step_queues_def)
      show "?I (ps(t := p')) s' q" if "?I ps s q" "wards.alone ps q t" "hospital (ps t) s = Inr (None, p', s')" for ps s q t p' s'
        using hospital_ok_step [OF _ that(2,3)] step [OF _ _ that(2,3)] that(1) by simp
    qed
    then show ?thesis by blast
  qed
  then show ?thesis using first_step [OF S] by blast
qed

section \<open>Properties of the simulation\<close>

text \<open>
  Property C6. The hospital simulation never faults. Whenever a thread executes its own code, in any interleaving, with
  any random numbers and any devices, its next stretch of code runs to its kernel call: no assertion of the program
  fails and no index leaves its array. So every token, doctor, diagnosis, cashier and pharmacist that an actor finds in
  a shared variable is one that its partner has put there for it.
\<close>

theorem hospital_never_faults:
  assumes "hospital_reaches run r ic S" "cur_stack (sys_kernel S) = User # fs"
  shows "\<exists>c p s. hospital (pcs S (currentThread (sys_kernel S))) (shared S) = Inr (c, p, s)"
proof -
  have "runs (hospital (pcs S (currentThread (sys_kernel S))) (shared S))"
  proof (cases "S = hospital_start r ic")
    case True
    then show ?thesis by (simp add: hospital_start_def kernel_init_def hospital_role_def)
  next
    case False
    then have "hospital_ok (pcs S) (shared S) (cond_queues (sys_kernel S))" using hospital_rule [OF assms(1), of "\<lambda>_ _. True"] by simp
    then show ?thesis by (rule hospital_progress [OF _ wards.user_alone [OF hospital_typed [OF assms(1)] assms(2)]])
  qed
  then show ?thesis by (auto simp: runs_def)
qed

theorem hospital_never_faults_witness:
  "\<exists>S c p s. sys_run 66 demo_run hospital demo_hospital = Inr S \<and> hospital (Receptionist 0 R_line) (shared S) = Inr (c, p, s)"
proof -
  obtain S where S: "sys_run 66 demo_run hospital demo_hospital = Inr S" "currentThread (sys_kernel S) = 1"
    "cur_stack (sys_kernel S) = [User, Root_finish]" "pcs S 1 = Receptionist 0 R_line"
    using demo_hospital_run by blast
  from hospital_never_faults [OF demo_hospital_reaches [OF S(1)] S(3)] S show ?thesis by metis
qed

end
