(* ===== verification/Nachos_Tokens.thy ===== *)
theory Nachos_Tokens
  imports Nachos_Rota
begin

text \<open>
  Why the fees of the hospital simulation need no lock: every patient has a token of his own, and the entry of
  \<^verbatim>\<open>patient_consultancy_fee\<close> with that index is written once, by the doctor who examines him.
\<close>

section \<open>Tokens and diagnoses\<close>

definition token_of :: "actor \<Rightarrow> int option" where
  "token_of p = (case p of Patient x \<Rightarrow> (case x of
       P_thank r k \<Rightarrow> Some k | P_door k \<Rightarrow> Some k | P_door_line k \<Rightarrow> Some k | P_door_wait k \<Rightarrow> Some k | P_door_read k \<Rightarrow> Some k
     | P_door_leave k d \<Rightarrow> Some k | P_doc k d \<Rightarrow> Some k | P_doc_in k d \<Rightarrow> Some k | P_doc_sit k d \<Rightarrow> Some k | P_doc_hear k d \<Rightarrow> Some k
     | P_doc_leave k d g \<Rightarrow> Some k | P_cash k g \<Rightarrow> Some k | P_cash_line k g \<Rightarrow> Some k | P_cash_wait k g \<Rightarrow> Some k
     | P_cash_go k g c \<Rightarrow> Some k | P_cash_in k g c \<Rightarrow> Some k | P_cash_tell k g c \<Rightarrow> Some k | P_cash_pay k g c \<Rightarrow> Some k
     | P_cash_leave k g c \<Rightarrow> Some k | P_pharm k g \<Rightarrow> Some k | P_pharm_line k g \<Rightarrow> Some k | P_pharm_wait k g \<Rightarrow> Some k
     | P_pharm_go k g c \<Rightarrow> Some k | P_pharm_in k g c \<Rightarrow> Some k | P_pharm_tell k g c \<Rightarrow> Some k
     | _ \<Rightarrow> None) | _ \<Rightarrow> None)"

definition diagnosis_of :: "actor \<Rightarrow> int option" where
  "diagnosis_of p = (case p of Patient x \<Rightarrow> (case x of
       P_doc_leave k d g \<Rightarrow> Some g | P_cash k g \<Rightarrow> Some g | P_cash_line k g \<Rightarrow> Some g | P_cash_wait k g \<Rightarrow> Some g
     | P_cash_go k g c \<Rightarrow> Some g | P_cash_in k g c \<Rightarrow> Some g | P_cash_tell k g c \<Rightarrow> Some g | P_cash_pay k g c \<Rightarrow> Some g
     | P_cash_leave k g c \<Rightarrow> Some g | P_pharm k g \<Rightarrow> Some g | P_pharm_line k g \<Rightarrow> Some g | P_pharm_wait k g \<Rightarrow> Some g
     | P_pharm_go k g c \<Rightarrow> Some g | P_pharm_in k g c \<Rightarrow> Some g | P_pharm_tell k g c \<Rightarrow> Some g
     | _ \<Rightarrow> None) | _ \<Rightarrow> None)"

text \<open>The tokens that the threads carry, and whether an actor's diagnosis is noted as his fee.\<close>

definition carried_tokens :: "(tid \<Rightarrow> actor) \<Rightarrow> int list" where
  "carried_tokens ps = List.map_filter (token_of \<circ> ps) [0..<Suc hospital_threads]"

definition fee_noted :: "Hospital \<Rightarrow> actor \<Rightarrow> bool" where
  "fee_noted s p = (case diagnosis_of p of None \<Rightarrow> True
     | Some g \<Rightarrow> (case token_of p of None \<Rightarrow> False | Some k \<Rightarrow> patient_consultancy_fee s ! nat k = g))"

section \<open>Tokens are unique\<close>

text \<open>\<open>f t\<close> is the token of thread \<open>t\<close>, \<open>b\<close> what lies in the windows of the receptionists, \<open>n\<close> the next token.\<close>

definition unique :: "(tid \<Rightarrow> int option) \<Rightarrow> int list \<Rightarrow> int \<Rightarrow> bool" where
  "unique f b n \<longleftrightarrow> length b = 5 \<and> (\<forall>t u k. f t = Some k \<and> f u = Some k \<longrightarrow> t = u) \<and> (\<forall>t k. f t = Some k \<longrightarrow> 0 \<le> k \<and> k < n \<and> k \<notin> set b) \<and>
     (\<forall>r < 5. b ! r < n) \<and> (\<forall>r r'. r < 5 \<and> r' < 5 \<and> b ! r = b ! r' \<and> b ! r \<noteq> - 1 \<longrightarrow> r = r')"

lemma uniqueD:
  assumes "unique f b n"
  shows "f t = Some k \<Longrightarrow> f u = Some k \<Longrightarrow> t = u" "f t = Some k \<Longrightarrow> 0 \<le> k \<and> k < n" "f t = Some k \<Longrightarrow> k \<notin> set b"
    "r < 5 \<Longrightarrow> b ! r < n" "r < 5 \<Longrightarrow> r' < 5 \<Longrightarrow> b ! r = b ! r' \<Longrightarrow> b ! r \<noteq> - 1 \<Longrightarrow> r = r'" "length b = 5"
  using assms unfolding unique_def by blast+

lemma uniqueI:
  assumes "length b = 5" "\<And>t u k. f t = Some k \<Longrightarrow> f u = Some k \<Longrightarrow> t = u" "\<And>t k. f t = Some k \<Longrightarrow> 0 \<le> k \<and> k < n \<and> k \<notin> set b"
    "\<And>r. r < 5 \<Longrightarrow> b ! r < n" "\<And>r r'. r < 5 \<Longrightarrow> r' < 5 \<Longrightarrow> b ! r = b ! r' \<Longrightarrow> b ! r \<noteq> - 1 \<Longrightarrow> r = r'"
  shows "unique f b n"
  using assms unfolding unique_def by blast

lemma unique_less: "unique f b n \<Longrightarrow> (\<And>t k. g t = Some k \<Longrightarrow> f t = Some k) \<Longrightarrow> unique g b n"
  unfolding unique_def by blast

text \<open>A receptionist writes a new token into his window.\<close>

lemma unique_new:
  assumes ok: "unique f b n" and r: "r < 5"
  shows "unique f (b[r := n]) (n + 1)"
proof (rule uniqueI)
  note o = uniqueD [OF ok]
  have b: "b[r := n] ! d = (if d = r then n else b ! d)" if "d < 5" for d using r o(6) that by auto
  show "0 \<le> k \<and> k < n + 1 \<and> k \<notin> set (b[r := n])" if "f t = Some k" for t k
    using o(2,3) [OF that] set_update_subset_insert [of b r n] by auto
  show "b[r := n] ! d < n + 1" if "d < 5" for d using b [OF that] o(4) [OF that] by simp
  show "d = e" if "d < 5" "e < 5" "b[r := n] ! d = b[r := n] ! e" "b[r := n] ! d \<noteq> - 1" for d e
    using that(3,4) b [OF that(1)] b [OF that(2)] less_irrefl o(4) [OF that(1)] o(4) [OF that(2)] o(5) [OF that(1,2)] by metis
qed (use uniqueD(1,6) [OF ok] in auto)

text \<open>A patient takes the token that lies in the window.\<close>

lemma unique_taken:
  assumes ok: "unique f b n" and r: "r < 5" "0 \<le> b ! r"
  shows "unique (f(t := Some (b ! r))) (b[r := - 1]) n"
proof (rule uniqueI)
  note o = uniqueD [OF ok]
  have b: "b[r := - 1] ! d = (if d = r then - 1 else b ! d)" if "d < 5" for d using r o(6) that by auto
  have nf: "f u \<noteq> Some (b ! r)" for u using o(3) [of u "b ! r"] r(1) o(6) by auto
  have gone: "b ! r \<notin> set (b[r := - 1])"
  proof
    assume "b ! r \<in> set (b[r := - 1])"
    then obtain d where d: "d < 5" "b[r := - 1] ! d = b ! r" using o(6) by (auto simp: in_set_conv_nth)
    then show False using b [OF d(1)] o(5) [OF r(1) d(1)] r(2) by (auto split: if_splits)
  qed
  show "u = v" if "(f(t := Some (b ! r))) u = Some k" "(f(t := Some (b ! r))) v = Some k" for u v k
    using that nf o(1) [of u k v] by (auto split: if_splits)
  show "0 \<le> k \<and> k < n \<and> k \<notin> set (b[r := - 1])" if "(f(t := Some (b ! r))) u = Some k" for u k
    using that gone r(2) o(4) [OF r(1)] o(2,3) [of u k] set_update_subset_insert [of b r "- 1"] by (auto split: if_splits)
  show "b[r := - 1] ! d < n" if "d < 5" for d using b [OF that] o(4) [OF that] o(4) [OF r(1)] r(2) by simp
  show "d = e" if "d < 5" "e < 5" "b[r := - 1] ! d = b[r := - 1] ! e" "b[r := - 1] ! d \<noteq> - 1" for d e
    using that(3,4) b [OF that(1)] b [OF that(2)] o(5) [OF that(1,2)] by metis
qed (use uniqueD(6) [OF ok] in auto)

text \<open>Other steps leave the windows alone.\<close>

definition takes_token :: "Hospital \<Rightarrow> actor \<Rightarrow> bool" where
  "takes_token s p \<longleftrightarrow> (\<exists>i. p = Receptionist i R_token \<or> p = Patient (P_desk i) \<and> receptionist_token_bucket s ! nat i \<noteq> - 1)"

lemma no_token: "(\<And>x. p \<noteq> Patient x) \<Longrightarrow> token_of p = None"
  by (auto simp: token_of_def split: actor.splits)

lemma tokens_still:
  assumes "p \<noteq> Main S_init" "\<not> takes_token s p" and run: "hospital p s = Inr (co, p', s')"
  shows "receptionist_token_bucket s' = receptionist_token_bucket s \<and> next_receptionist_token s' = next_receptionist_token s \<and>
    (token_of p' = token_of p \<or> token_of p' = None)"
proof -
  have other: ?thesis if "rec_still s p q s' p' q'" "\<And>x. p' \<noteq> Patient x" for q q'
    using that(1) no_token [OF that(2)] by (simp add: rec_still_def rec_vars_def)
  show ?thesis
    using run
  proof (cases rule: hospital_stepE)
    case (main x x')
    then show ?thesis using main_still(5) [OF main(3) _ main(1,2) refl] assms(1) by (intro other) auto
  next
    case (receptionist i x x')
    then show ?thesis using assms(2) no_token [of p']
      by (cases x) (auto simp: other_simps takes_token_def split: if_splits)
  next
    case (doorboy x x')
    then show ?thesis using doorboy_still(3) [OF doorboy(3,1,2) refl] by (intro other) auto
  next
    case (doctor i x x')
    then show ?thesis using doctor_still(4) [OF doctor(3,1,2) refl] by (intro other) auto
  next
    case (cashier i x x')
    then show ?thesis using cashier_still(4) [OF cashier(3,1,2) refl] by (intro other) auto
  next
    case (pharmacist i x x')
    then show ?thesis using pharmacist_still(4) [OF pharmacist(3,1,2) refl] by (intro other) auto
  next
    case (manager x x')
    then show ?thesis using manager_still(5) [OF manager(3,1,2) refl] by (intro other) auto
  next
    case (patient x x')
    then show ?thesis using assms(2)
      by (cases x) (auto simp: step_simps choose_cashier_def choose_pharmacist_def token_of_def takes_token_def split: if_splits)
  qed
qed

lemma tokens_step:
  assumes ok: "hospital_ok ps s q" and run: "hospital (ps t) s = Inr (co, p', s')"
    and u: "unique (token_of \<circ> ps) (receptionist_token_bucket s) (next_receptionist_token s)"
  shows "unique (token_of \<circ> ps(t := p')) (receptionist_token_bucket s') (next_receptionist_token s')"
proof -
  have o: "ps t \<noteq> Main S_init" "\<forall>b \<in> set (receptionist_token_bucket s). b = - 1 \<or> token_ok b" "length (receptionist_token_bucket s) = 5"
    using ok by (simp_all add: hospital_ok_def rec_ok_def)
  consider (other) "\<not> takes_token s (ps t)" | (new) i where "ps t = Receptionist i R_token"
    | (taken) i where "ps t = Patient (P_desk i)" "receptionist_token_bucket s ! nat i \<noteq> - 1" by (auto simp: takes_token_def)
  then show ?thesis
  proof cases
    case other
    then have s': "receptionist_token_bucket s' = receptionist_token_bucket s" "next_receptionist_token s' = next_receptionist_token s"
      "token_of p' = token_of (ps t) \<or> token_of p' = None" using tokens_still [OF o(1) _ run] by simp_all
    show ?thesis unfolding s'(1,2) by (rule unique_less [OF u]) (use s'(3) in \<open>auto split: if_splits\<close>)
  next
    case (new i)
    then have s': "0 \<le> i" "i < 5" "receptionist_token_bucket s' = (receptionist_token_bucket s)[nat i := next_receptionist_token s]"
      "next_receptionist_token s' = next_receptionist_token s + 1" "p' = Receptionist i R_tell" using run o(3) by (auto simp: step_simps)
    moreover have "token_of \<circ> ps(t := p') = token_of \<circ> ps" using s'(5) new no_token by (auto simp: fun_eq_iff)
    ultimately show ?thesis using unique_new [OF u, of "nat i"] by simp
  next
    case (taken i)
    then have s': "0 \<le> i" "i < 5" "receptionist_token_bucket s' = (receptionist_token_bucket s)[nat i := - 1]"
      "next_receptionist_token s' = next_receptionist_token s" "p' = Patient (P_thank i (receptionist_token_bucket s ! nat i))"
      using run o(3) by (auto simp: step_simps)
    have "0 \<le> receptionist_token_bucket s ! nat i" using o(2,3) taken(2) s'(1,2) nth_mem [of "nat i" "receptionist_token_bucket s"] by (auto simp: token_ok_def)
    moreover have "token_of \<circ> ps(t := p') = (token_of \<circ> ps)(t := Some (receptionist_token_bucket s ! nat i))"
      using s'(5) by (auto simp: fun_eq_iff token_of_def)
    ultimately show ?thesis using unique_taken [OF u, of "nat i" t] s' by simp
  qed
qed

lemma distinct_map_filter:
  "distinct xs \<Longrightarrow> (\<And>x y a. f x = Some a \<Longrightarrow> f y = Some a \<Longrightarrow> x = y) \<Longrightarrow> distinct (List.map_filter f xs)"
  by (induction xs) (force simp: map_filter_def)+

lemma diagnosed: "diagnosis_of p = Some g \<Longrightarrow> \<exists>k. token_of p = Some k"
  by (auto simp: diagnosis_of_def token_of_def split: actor.splits patient_pc.splits)

lemma carried_token: "carried_ok s p \<Longrightarrow> token_of p = Some k \<Longrightarrow> token_ok k"
  by (auto simp: token_of_def carried_ok_def patient_ok_def billed_def split: actor.splits patient_pc.splits)

section \<open>Fees\<close>

text \<open>
  A patient who is told his diagnosis finds what the doctor has noted as his fee; afterwards the note stays.
\<close>

definition fees_ok :: "(tid \<Rightarrow> actor) \<Rightarrow> Hospital \<Rightarrow> bool" where
  "fees_ok ps s \<longleftrightarrow>
     (\<forall>t k d. ps t = Patient (P_doc_hear k d) \<longrightarrow> doc_stage (ps (11 + nat d)) = Reply \<longrightarrow> patient_doctor_bucket s ! nat d = patient_consultancy_fee s ! nat k) \<and>
     (\<forall>t k g. token_of (ps t) = Some k \<longrightarrow> diagnosis_of (ps t) = Some g \<longrightarrow> patient_consultancy_fee s ! nat k = g)"

lemma fees_frame:
  assumes ok: "fees_ok ps s" and s': "patient_doctor_bucket s' = patient_doctor_bucket s" "patient_consultancy_fee s' = patient_consultancy_fee s"
    and p': "\<And>k d. p' = Patient (P_doc_hear k d) \<Longrightarrow> ps t = Patient (P_doc_hear k d)" "doc_stage p' = Reply \<Longrightarrow> doc_stage (ps t) = Reply"
      "diagnosis_of p' \<noteq> None \<Longrightarrow> diagnosis_of p' = diagnosis_of (ps t) \<and> token_of p' = token_of (ps t)"
  shows "fees_ok (ps(t := p')) s'"
proof -
  have "patient_doctor_bucket s ! nat d = patient_consultancy_fee s ! nat k"
    if "(ps(t := p')) u = Patient (P_doc_hear k d)" "doc_stage ((ps(t := p')) (11 + nat d)) = Reply" for u k d
  proof -
    have "ps u = Patient (P_doc_hear k d)" "doc_stage (ps (11 + nat d)) = Reply" using that p'(1,2) by (auto split: if_splits)
    then show ?thesis using ok unfolding fees_ok_def by blast
  qed
  moreover have "patient_consultancy_fee s ! nat k = g"
    if "token_of ((ps(t := p')) u) = Some k" "diagnosis_of ((ps(t := p')) u) = Some g" for u k g
  proof -
    have "token_of (ps u) = Some k" "diagnosis_of (ps u) = Some g" using that p'(3) by (auto split: if_splits)
    then show ?thesis using ok unfolding fees_ok_def by blast
  qed
  ultimately show ?thesis unfolding fees_ok_def s' by blast
qed

text \<open>Only one patient is with a doctor.\<close>

lemma one_patient:
  assumes ok: "doc_ok ps s q" and c: "c < 3" and t: "doc_visit (next_available_doctor s) c (ps t) = Some a"
    and u: "doc_visit (next_available_doctor s) c (ps u) = Some b"
  shows "t = u"
proof -
  have "desk (doc_station s) ps q c" using ok c by (simp add: doc_ok_def row_ok_def)
  then obtain w where w: "only (doc_visit (next_available_doctor s) c \<circ> ps) w" by (auto simp: desk_def)
  show ?thesis using only_at [OF w, of t a] only_at [OF w, of u b] t u by simp
qed

lemma fees_doctor:
  assumes ok: "hospital_ok ps s q" and u: "unique (token_of \<circ> ps) b n" and fees: "fees_ok ps s"
    and t: "ps t = Doctor i (D_think k 0 g)" and run: "hospital (ps t) s = Inr (co, p', s')"
  shows "fees_ok (ps(t := p')) s'"
proof -
  have o: "roles_ok ps" "doc_ok ps s q" "length (patient_consultancy_fee s) = 10" "\<And>u. carried_ok s (ps u)"
    "length (patient_doctor_bucket s) = 3" "noted (patient_doctor_bucket s) (ps t)"
    using ok by (simp_all add: hospital_ok_def doc_ok_def)
  obtain c where c: "c < 3" "i = int c" "t = 11 + c" using role_index(2) [OF o(1) t] by blast
  have s': "p' = Doctor i D_bye" "patient_doctor_bucket s' = (patient_doctor_bucket s)[c := g]"
    "patient_consultancy_fee s' = (patient_consultancy_fee s)[nat k := g]" using run t c by (auto simp: step_simps)
  have "desk (doc_station s) ps q c" using o(2) c by (simp add: doc_ok_def row_ok_def)
  then obtain v l where v: "only (doc_visit (next_available_doctor s) c \<circ> ps) (Some (v, Asking l))" "patient_doctor_bucket s ! c = l"
    using t c by (auto simp: desk_def at_desk_def doc_stage_def)
  then have k: "token_ok k" "k = l" using doc_token [where s = s and ps = ps and t = t, OF o(4) o(6)] t c(2) by blast+
  have "doc_visit (next_available_doctor s) c (ps v) = Some (Asking k)"
    using only_role [of "doc_visit (next_available_doctor s) c \<circ> ps"] v(1) k(2) by simp
  then have pv: "ps v = Patient (P_doc_hear k (int c))"
    by (auto simp: doc_visit_def split: actor.splits patient_pc.splits doorboy_pc.splits if_splits)
  have kept: "(patient_consultancy_fee s)[nat k := g] ! nat l = patient_consultancy_fee s ! nat l" if "token_of (ps w) = Some l" "w \<noteq> v" for w l
  proof -
    have "token_of (ps v) = Some k" using pv by (simp add: token_of_def)
    then have "l \<noteq> k" using uniqueD(1) [OF u, of w k v] that by fastforce
    moreover have "0 \<le> l" using uniqueD(2) [OF u, of w l] that(1) by simp
    ultimately show ?thesis using k(1) by (simp add: token_ok_def nat_eq_iff)
  qed
  have "patient_doctor_bucket s' ! nat d = patient_consultancy_fee s' ! nat l"
    if "(ps(t := p')) w = Patient (P_doc_hear l d)" "doc_stage ((ps(t := p')) (11 + nat d)) = Reply" for w l d
  proof -
    have w: "ps w = Patient (P_doc_hear l d)" using that(1) s'(1) by (auto split: if_splits)
    then have d: "0 \<le> d" "d < 3" using o(4) [of w] by (simp_all add: carried_ok_def patient_ok_def)
    show ?thesis
    proof (cases "nat d = c")
      case True
      then have "w = v" using w pv d by (intro one_patient [OF o(2) c(1), where a = "Asking l" and b = "Asking k"]) (auto simp: doc_visit_def)
      then have "l = k" using w pv by simp
      moreover have "nat k < 10" using k(1) by (auto simp: token_ok_def nat_less_iff)
      ultimately show ?thesis using True s' c(1) o(3,5) by simp
    next
      case False
      then have "w \<noteq> v" using w pv d by auto
      moreover have "doc_stage (ps (11 + nat d)) = Reply" using that(2) False c(3) by simp
      ultimately show ?thesis using kept [of w l] w s' False fees unfolding fees_ok_def by (auto simp: token_of_def)
    qed
  qed
  moreover have "patient_consultancy_fee s' ! nat l = h"
    if "token_of ((ps(t := p')) w) = Some l" "diagnosis_of ((ps(t := p')) w) = Some h" for w l h
  proof -
    have "token_of (ps w) = Some l" "diagnosis_of (ps w) = Some h" using that s'(1) by (auto simp: token_of_def split: if_splits)
    moreover have "w \<noteq> v" using pv calculation(2) by (auto simp: diagnosis_of_def)
    ultimately show ?thesis using kept [of w l] s'(3) fees unfolding fees_ok_def by simp
  qed
  ultimately show ?thesis unfolding fees_ok_def by blast
qed

text \<open>A patient at the doctor's desk tells his token or hears the diagnosis; nobody else is there.\<close>

lemma fees_desk:
  assumes ok: "hospital_ok ps s q" and fees: "fees_ok ps s" and d: "0 \<le> d" "d < 3"
    and t: "ps t = Patient (P_doc_sit k d) \<or> ps t = Patient (P_doc_hear k d)"
    and s': "patient_doctor_bucket s' = (patient_doctor_bucket s)[nat d := x]" "patient_consultancy_fee s' = patient_consultancy_fee s"
    and p': "\<And>l e. p' = Patient (P_doc_hear l e) \<Longrightarrow> e = d \<and> doc_stage (ps (11 + nat d)) \<noteq> Reply" "doc_stage p' = Closed"
      "\<And>l g. token_of p' = Some l \<Longrightarrow> diagnosis_of p' = Some g \<Longrightarrow> patient_consultancy_fee s ! nat l = g"
  shows "fees_ok (ps(t := p')) s'"
proof -
  have o: "doc_ok ps s q" "\<And>u. carried_ok s (ps u)" using ok by (simp_all add: hospital_ok_def)
  have "patient_doctor_bucket s' ! nat e = patient_consultancy_fee s' ! nat l"
    if "(ps(t := p')) u = Patient (P_doc_hear l e)" "doc_stage ((ps(t := p')) (11 + nat e)) = Reply" for u l e
  proof -
    have r: "doc_stage (ps (11 + nat e)) = Reply" using that(2) p'(2) by (auto split: if_splits)
    then have "u \<noteq> t" using that(1) p'(1) [of l e] by (auto split: if_splits)
    then have u: "ps u = Patient (P_doc_hear l e)" using that(1) by simp
    then have e: "0 \<le> e" "e < 3" using o(2) [of u] by (simp_all add: carried_ok_def patient_ok_def)
    obtain a where a: "doc_visit (next_available_doctor s) (nat d) (ps t) = Some a" using t d by (auto simp: doc_visit_def)
    have "nat e \<noteq> nat d"
    proof
      assume "nat e = nat d"
      then have "doc_visit (next_available_doctor s) (nat d) (ps u) = Some (Asking l)" using u d e by (simp add: doc_visit_def)
      then show False using one_patient [OF o(1) _ a] d \<open>u \<noteq> t\<close> by fastforce
    qed
    then show ?thesis using u r s' fees unfolding fees_ok_def by auto
  qed
  moreover have "patient_consultancy_fee s' ! nat l = g" if "token_of ((ps(t := p')) u) = Some l" "diagnosis_of ((ps(t := p')) u) = Some g" for u l g
    using that p'(3) fees unfolding fees_ok_def s'(2) by (auto split: if_splits)
  ultimately show ?thesis unfolding fees_ok_def by blast
qed

lemma fees_patient:
  assumes ok: "hospital_ok ps s q" and alone: "wards.alone ps q t" and fees: "fees_ok ps s"
    and t: "ps t = Patient x" and run: "patient x s = Inr (co, x', s')"
  shows "fees_ok (ps(t := Patient x')) s'"
proof -
  have o: "doc_ok ps s q" "carried_ok s (ps t)" using ok by (simp_all add: hospital_ok_def)
  have desk: "at_desk (doc_station s) (nat d) (doc_stage (ps (11 + nat d))) (Some (t, a)) (q (doctor_cv (nat d)))"
    if "doc_visit (next_available_doctor s) (nat d) (ps t) = Some a" "0 \<le> d" "d < 3" for d a
    using that o(1) desk_at [of "doc_station s" ps q "nat d" t a] by (simp add: doc_ok_def row_ok_def)
  have idle: "doc_stage (Patient y) = Closed" for y by (simp add: doc_stage_def)
  show ?thesis
  proof (cases x)
    case (P_doc_sit k d)
    then have d: "0 \<le> d" "d < 3" using o(2) t by (simp_all add: carried_ok_def patient_ok_def)
    have "doc_stage (ps (11 + nat d)) \<noteq> Reply" using desk [of d "Telling k"] d t P_doc_sit by (auto simp: doc_visit_def at_desk_def)
    then show ?thesis using P_doc_sit run t idle
      by (intro fees_desk [OF ok fees d, where k = k and x = k]) (auto simp: step_simps diagnosis_of_def)
  next
    case (P_doc_hear k d)
    then have d: "0 \<le> d" "d < 3" using o(2) t by (simp_all add: carried_ok_def patient_ok_def)
    have "doc_stage (ps (11 + nat d)) \<in> {Reply, Give, Paid}"
      using desk [of d "Asking k"] d t P_doc_hear alone_unqueued [OF alone, of "doctor_cv (nat d)"]
      by (cases "doc_stage (ps (11 + nat d))") (auto simp: doc_visit_def at_desk_def expecting_def split: if_splits)
    moreover have "doc_stage p \<notin> {Give, Paid}" for p by (auto simp: doc_stage_def split: actor.splits doctor_pc.splits)
    ultimately have "patient_doctor_bucket s ! nat d = patient_consultancy_fee s ! nat k" using fees t P_doc_hear unfolding fees_ok_def by blast
    then show ?thesis using P_doc_hear run t idle
      by (intro fees_desk [OF ok fees d, where k = k and x = "- 2"]) (auto simp: step_simps diagnosis_of_def token_of_def)
  qed (use run t idle in \<open>(intro fees_frame [OF fees]; auto simp: step_simps choose_cashier_def choose_pharmacist_def diagnosis_of_def token_of_def split: if_splits)\<close>)+
qed

lemma fees_step:
  assumes ok: "hospital_ok ps s q" and alone: "wards.alone ps q t" and u: "unique (token_of \<circ> ps) b n" and fees: "fees_ok ps s"
    and run: "hospital (ps t) s = Inr (co, p', s')"
  shows "fees_ok (ps(t := p')) s'"
proof -
  have o: "ps t \<noteq> Main S_init" using ok by (simp add: hospital_ok_def)
  have none: "diagnosis_of p = None" if "\<And>x. p \<noteq> Patient x" for p using that by (auto simp: diagnosis_of_def split: actor.splits)
  have other: ?thesis if "doc_still s (ps t) q s' p' q'" "\<And>x. p' \<noteq> Patient x" for q'
    using that(1) none [OF that(2)] that(2) by (intro fees_frame [OF fees]) (auto simp: doc_still_def doc_vars_def)
  show ?thesis
    using run
  proof (cases rule: hospital_stepE)
    case (main x x')
    then show ?thesis using main_still(3) [OF main(3) _ main(1,2) refl] o by (intro other) auto
  next
    case (receptionist i x x')
    then show ?thesis using receptionist_still(3) [OF receptionist(3,1,2) refl] by (intro other) auto
  next
    case (doorboy x x')
    then show ?thesis using none [of p']
      by (cases x) (auto intro!: fees_frame [OF fees] simp: step_simps doc_stage_def split: if_splits)
  next
    case (doctor i x x')
    show ?thesis
    proof (cases "\<exists>k g. x = D_think k 0 g")
      case True
      then show ?thesis using fees_doctor [OF ok u fees _ run] doctor(1) by blast
    next
      case False
      then show ?thesis using doctor none [of p']
        by (cases x) (auto intro!: fees_frame [OF fees] simp: other_simps doc_stage_def split: if_splits nat.splits)
    qed
  next
    case (cashier i x x')
    then show ?thesis using cashier_still(2) [OF cashier(3,1,2) refl] by (intro other) auto
  next
    case (pharmacist i x x')
    then show ?thesis using pharmacist_still(2) [OF pharmacist(3,1,2) refl] by (intro other) auto
  next
    case (manager x x')
    then show ?thesis using manager_still(3) [OF manager(3,1,2) refl] by (intro other) auto
  next
    case (patient x x')
    then show ?thesis using fees_patient [OF ok alone fees patient(1,3)] by simp
  qed
qed

section \<open>Runs\<close>

definition papers_ok :: "(tid \<Rightarrow> actor) \<Rightarrow> Hospital \<Rightarrow> bool" where
  "papers_ok ps s \<longleftrightarrow> unique (token_of \<circ> ps) (receptionist_token_bucket s) (next_receptionist_token s) \<and> fees_ok ps s"

lemma papers_start: "papers_ok (hospital_role(0 := Main (S_fork 1))) (initialize (hospital_globals r))" (is "papers_ok ?ps ?s")
proof -
  have "token_of (?ps t) = None" "doc_stage (?ps t) = Closed" for t by (simp_all add: hospital_role_def token_of_def doc_stage_def)
  then have "token_of \<circ> ?ps = (\<lambda>_. None)" "fees_ok ?ps ?s" by (simp_all add: fees_ok_def fun_eq_iff del: fun_upd_apply)
  moreover have "unique (\<lambda>_. None) (receptionist_token_bucket ?s) (next_receptionist_token ?s)"
    by (rule uniqueI) (auto simp: initialize_def hospital_globals_def fill_array_def hospital_sizes)
  ultimately show ?thesis by (simp add: papers_ok_def del: fun_upd_apply)
qed

lemma papers_step:
  assumes "hospital_ok ps s q" "papers_ok ps s" "wards.alone ps q t" "hospital (ps t) s = Inr (co, p', s')"
  shows "papers_ok (ps(t := p')) s'"
  using assms(2) tokens_step [OF assms(1,4)] fees_step [OF assms(1,3) _ _ assms(4)] unfolding papers_ok_def by blast

section \<open>Properties of the tokens\<close>

text \<open>
  Property C7. Every patient of the hospital simulation has a token of his own, and the fee noted under it is the number of his own
  diagnosis: in every state the tokens that the threads carry are different indices of \<^verbatim>\<open>patient_consultancy_fee\<close>, and from the moment a patient
  has heard his diagnosis the entry under his token is that diagnosis. So nobody else writes the entry, which no lock protects; and what
  the cashier charges is the number of the disease, not its price in \<^verbatim>\<open>consultation_cost\<close>.
\<close>

theorem hospital_tokens_unique:
  assumes "hospital_reaches run r ic S"
  shows "distinct (carried_tokens (pcs S)) \<and> set (carried_tokens (pcs S)) \<subseteq> {0..<int NUMBER_OF_PATIENTS} \<and> (\<forall>t. fee_noted (shared S) (pcs S t))"
proof (cases "S = hospital_start r ic")
  case True
  then have "token_of (pcs S t) = None" "diagnosis_of (pcs S t) = None" for t
    by (simp_all add: hospital_start_def hospital_role_def token_of_def diagnosis_of_def)
  then show ?thesis by (simp add: carried_tokens_def map_filter_def fee_noted_def)
next
  case False
  then have ok: "carried_ok (shared S) (pcs S t)" and papers: "papers_ok (pcs S) (shared S)" for t
    using hospital_rule [where J = papers_ok, OF assms papers_start] papers_step by (auto simp: hospital_ok_def)
  have "t = u" if "token_of (pcs S t) = Some k" "token_of (pcs S u) = Some k" for t u k
    using papers uniqueD(1) [of "token_of \<circ> pcs S" _ _ t k u] that by (auto simp: papers_ok_def)
  then have "distinct (carried_tokens (pcs S))" unfolding carried_tokens_def by (intro distinct_map_filter) auto
  moreover have "set (carried_tokens (pcs S)) \<subseteq> {0..<int NUMBER_OF_PATIENTS}"
    using carried_token [OF ok] by (auto simp: carried_tokens_def map_filter_def token_ok_def hospital_sizes)
  moreover have "fee_noted (shared S) (pcs S t)" for t
    using papers diagnosed [of "pcs S t"] by (cases "diagnosis_of (pcs S t)") (auto simp: papers_ok_def fees_ok_def fee_noted_def)
  ultimately show ?thesis by blast
qed

theorem hospital_tokens_unique_witness:
  "\<exists>S. sys_run 66 demo_run hospital demo_hospital = Inr S \<and> distinct (carried_tokens (pcs S)) \<and> (\<forall>t. fee_noted (shared S) (pcs S t))"
proof -
  obtain S where "sys_run 66 demo_run hospital demo_hospital = Inr S" using demo_hospital_run by blast
  then show ?thesis using hospital_tokens_unique [OF demo_hospital_reaches, of 66 S] by blast
qed

end
