(* ===== verification/Nachos_Disk.thy ===== *)
theory Nachos_Disk
  imports Nachos_Machine
begin

text \<open>
  \<^verbatim>\<open>machine/disk.cc\<close> and \<^verbatim>\<open>machine/disk.h\<close>: the simulated disk, stored in a UNIX file behind a magic
  number, and the time its requests take. The UNIX file is its list of bytes; \<open>unix_read\<close> and
  \<open>unix_write\<close> are \<^verbatim>\<open>Lseek\<close> followed by \<^verbatim>\<open>Read\<close> or \<^verbatim>\<open>WriteFile\<close> of \<^verbatim>\<open>machine/sysdep.cc\<close>, which abort on a
  short read. Times are 64-bit in the simulator; where the source stores them in an \<^verbatim>\<open>int\<close> they are
  cut to 32 bits (\<open>to_int32\<close>). \<open>big\<close> is the byte order of the host.
\<close>

section \<open>Bytes\<close>

definition word_bytes :: "bool \<Rightarrow> 32 word \<Rightarrow> 8 word list" where
  "word_bytes big w = (let bs = map (\<lambda>i. byte_of i w) [0, 1, 2, 3] in if big then rev bs else bs)"

definition bytes_word :: "bool \<Rightarrow> 8 word list \<Rightarrow> 32 word" where
  "bytes_word big bs = host_word big (\<lambda>i. bs ! i) 0"

lemma length_word_bytes [simp]: "length (word_bytes big w) = 4"
  by (simp add: word_bytes_def Let_def)

lemma bytes_word_bytes [simp]: "bytes_word big (word_bytes big w @ bs) = w"
  using le_word_bytes [of w] by (simp add: bytes_word_def host_word_def word_bytes_def Let_def nth_append)

lemma bytes_word_bytes' [simp]: "bytes_word big (word_bytes big w) = w"
  using bytes_word_bytes [of big w "[]"] by simp

definition unix_read :: "8 word list \<Rightarrow> nat \<Rightarrow> nat \<Rightarrow> 8 word list res" where
  "unix_read f off n = andThen (ASSERT (off + n \<le> length f)) (\<lambda>_. Inr (take n (drop off f)))"

definition unix_write :: "8 word list \<Rightarrow> nat \<Rightarrow> 8 word list \<Rightarrow> 8 word list" where
  "unix_write f off data =
     (let f' = f @ replicate (off - length f) 0 in take off f' @ data @ drop (off + length data) f')"

section \<open>The device\<close>

definition MagicNumber :: "32 word" where "MagicNumber = 0x456789ab"
definition MagicSize :: nat where "MagicSize = 4"
definition DiskSize :: nat where "DiskSize = MagicSize + nat (NumSectors * SectorSize)"

record Disk = Interrupt +
  disk_file :: "8 word list"
  disk_active :: bool
  lastSector :: int
  bufferInit :: int

definition Disk_new :: "bool \<Rightarrow> 8 word list option \<Rightarrow> Interrupt \<Rightarrow> Disk res" where
  "Disk_new big unix_file ic =
     andThen (case unix_file of
         Some f \<Rightarrow> andThen (unix_read f 0 MagicSize) (\<lambda>bs.
           andThen (ASSERT (bytes_word big bs = MagicNumber)) (\<lambda>_. Inr f))
       | None \<Rightarrow> Inr (unix_write (unix_write [] 0 (word_bytes big MagicNumber)) (DiskSize - 4) (word_bytes big 0)))
       (\<lambda>f. Inr (Interrupt.extend ic \<lparr>disk_file = f, disk_active = False, lastSector = 0, bufferInit = 0\<rparr>))"

definition TimeToSeek :: "int \<Rightarrow> 'x Disk_scheme \<Rightarrow> int \<times> int" where
  "TimeToSeek newSector d =
     (let newTrack = cdiv newSector SectorsPerTrack;
          oldTrack = cdiv (lastSector d) SectorsPerTrack;
          seek = to_int32 (\<bar>newTrack - oldTrack\<bar> * SeekTime);
          over = to_int32 (cmod (now d + seek) RotationTime)
      in (seek, if over > 0 then to_int32 (RotationTime - over) else 0))"

definition ModuloDiff :: "int \<Rightarrow> int \<Rightarrow> int" where
  "ModuloDiff to from =
     (let toOffset = cmod to SectorsPerTrack; fromOffset = cmod from SectorsPerTrack
      in cmod ((toOffset - fromOffset) + SectorsPerTrack) SectorsPerTrack)"

definition ComputeLatency :: "int \<Rightarrow> bool \<Rightarrow> 'x Disk_scheme \<Rightarrow> int" where
  "ComputeLatency newSector writing d =
     (let (seek, rotation) = TimeToSeek newSector d;
          timeAfter = to_int32 (now d + seek + rotation) in
      if \<not> writing \<and> seek = 0 \<and>
         cdiv (to_int32 (timeAfter - bufferInit d)) RotationTime
           > ModuloDiff newSector (to_int32 (cdiv (bufferInit d) RotationTime))
      then to_int32 RotationTime
      else
        let rotation' = to_int32 (rotation + ModuloDiff newSector (to_int32 (cdiv timeAfter RotationTime)) * RotationTime)
        in to_int32 (seek + rotation' + RotationTime))"

definition UpdateLast :: "int \<Rightarrow> 'x Disk_scheme \<Rightarrow> 'x Disk_scheme" where
  "UpdateLast newSector d =
     (let (seek, rotate) = TimeToSeek newSector d;
          d1 = (if seek \<noteq> 0 then d\<lparr>bufferInit := to_int32 (now d + seek + rotate)\<rparr> else d)
      in d1\<lparr>lastSector := newSector\<rparr>)"

definition sector_offset :: "int \<Rightarrow> nat" where
  "sector_offset s = nat (SectorSize * s) + MagicSize"

definition ReadRequest ::
    "VoidFunctionPtr \<Rightarrow> int \<Rightarrow> int \<Rightarrow> 'x Disk_scheme \<Rightarrow> (8 word list \<times> 'x Disk_scheme) res" where
  "ReadRequest done this sectorNumber d =
     (let ticks = ComputeLatency sectorNumber False d in
      andThen (ASSERT (\<not> disk_active d)) (\<lambda>_.
      andThen (ASSERT (sectorNumber \<ge> 0 \<and> sectorNumber < NumSectors)) (\<lambda>_.
      andThen (unix_read (disk_file d) (sector_offset sectorNumber) (nat SectorSize)) (\<lambda>data.
        let d1 = UpdateLast sectorNumber (d\<lparr>disk_active := True\<rparr>);
            d2 = d1\<lparr>stats := (stats d1)\<lparr>numDiskReads := numDiskReads (stats d1) + 1\<rparr>\<rparr>
        in andThen (Schedule done this ticks DiskInt d2) (\<lambda>d3. Inr (data, d3))))))"

definition WriteRequest ::
    "VoidFunctionPtr \<Rightarrow> int \<Rightarrow> int \<Rightarrow> 8 word list \<Rightarrow> 'x Disk_scheme \<Rightarrow> 'x Disk_scheme res" where
  "WriteRequest done this sectorNumber data d =
     (let ticks = ComputeLatency sectorNumber True d in
      andThen (ASSERT (\<not> disk_active d)) (\<lambda>_.
      andThen (ASSERT (sectorNumber \<ge> 0 \<and> sectorNumber < NumSectors)) (\<lambda>_.
        let d0 = d\<lparr>disk_file := unix_write (disk_file d) (sector_offset sectorNumber) data, disk_active := True\<rparr>;
            d1 = UpdateLast sectorNumber d0;
            d2 = d1\<lparr>stats := (stats d1)\<lparr>numDiskWrites := numDiskWrites (stats d1) + 1\<rparr>\<rparr>
        in Schedule done this ticks DiskInt d2)))"

text \<open>\<^verbatim>\<open>HandleInterrupt\<close>; \<open>handler\<close> is the completion handler given to the constructor.\<close>

definition Disk_HandleInterrupt ::
    "('x Disk_scheme \<Rightarrow> 'x Disk_scheme res) \<Rightarrow> 'x Disk_scheme \<Rightarrow> 'x Disk_scheme res" where
  "Disk_HandleInterrupt handler d = handler (d\<lparr>disk_active := False\<rparr>)"

section \<open>Latency\<close>

definition disk_ok :: "'x Disk_scheme \<Rightarrow> bool" where
  "disk_ok d \<longleftrightarrow> 0 \<le> lastSector d \<and> lastSector d < NumSectors \<and> 0 \<le> now d \<and> length (disk_file d) = DiskSize"

lemma to_int32_small: "0 \<le> n \<Longrightarrow> n < 1000000 \<Longrightarrow> to_int32 n = n"
  by (rule to_int32_id) simp_all

lemma ModuloDiff_range:
  assumes "0 \<le> to"
  shows "0 \<le> ModuloDiff to from \<and> ModuloDiff to from < 32"
proof -
  have "0 \<le> cmod to 32 \<and> cmod to 32 < 32" using assms by simp
  moreover have "- 32 < cmod from 32 \<and> cmod from 32 < 32" using cmod_bounds by simp
  ultimately have "0 \<le> cmod to 32 - cmod from 32 + 32" by linarith
  then show ?thesis by (simp add: ModuloDiff_def SectorsPerTrack_def Let_def)
qed


lemma TimeToSeek_range:
  assumes "disk_ok d" "0 \<le> s" "s < NumSectors" "TimeToSeek s d = (seek, rotation)"
  shows "seek = \<bar>s div 32 - lastSector d div 32\<bar> * 500" "0 \<le> seek" "seek \<le> 15500"
    "rotation = (- (now d + seek)) mod 500"
proof -
  have t: "0 \<le> s div 32" "s div 32 \<le> 31" "0 \<le> lastSector d div 32" "lastSector d div 32 \<le> 31"
    using assms(1-3) by (auto simp: disk_ok_def)
  then have b: "0 \<le> \<bar>s div 32 - lastSector d div 32\<bar> * 500" "\<bar>s div 32 - lastSector d div 32\<bar> * 500 \<le> 15500" by auto
  have seek: "seek = to_int32 (\<bar>s div 32 - lastSector d div 32\<bar> * 500)"
    using assms by (simp add: TimeToSeek_def disk_ok_def SectorsPerTrack_def SeekTime_def Let_def)
  also have "\<dots> = \<bar>s div 32 - lastSector d div 32\<bar> * 500" by (rule to_int32_small) (use b in linarith)+
  finally show s: "seek = \<bar>s div 32 - lastSector d div 32\<bar> * 500" .
  then show s0: "0 \<le> seek" "seek \<le> 15500" using b by simp_all
  have n: "0 \<le> now d + seek" using assms(1) s0 by (simp add: disk_ok_def)
  let ?o = "(now d + seek) mod 500"
  have o: "0 \<le> ?o" "?o < 500" by simp_all
  have c: "cmod (now d + seek) 500 = ?o" using n by simp
  have "to_int32 (cmod (now d + seek) 500) = ?o" unfolding c by (rule to_int32_small) (use o in linarith)+
  moreover have "rotation = (let over = to_int32 (cmod (now d + seek) 500) in if over > 0 then to_int32 (500 - over) else 0)"
    using assms(4) seek by (auto simp: TimeToSeek_def RotationTime_def Let_def SectorsPerTrack_def SeekTime_def)
  ultimately have "rotation = (if ?o > 0 then to_int32 (500 - ?o) else 0)" by (simp add: Let_def)
  also have "\<dots> = (if ?o > 0 then 500 - ?o else 0)" using to_int32_small [of "500 - ?o"] o by simp
  also have "\<dots> = (- (now d + seek)) mod 500" using zmod_zminus1_eq_if [of "now d + seek" 500] o by (simp split: if_splits)
  finally show "rotation = (- (now d + seek)) mod 500" .
qed

text \<open>The latency when the track buffer does not apply.\<close>

lemma ComputeLatency_rotate:
  assumes "disk_ok d" "0 \<le> s" "s < NumSectors" "TimeToSeek s d = (seek, rotation)"
  defines "md \<equiv> ModuloDiff s (to_int32 (cdiv (to_int32 (now d + seek + rotation)) 500))"
  shows "ComputeLatency s True d = seek + rotation + md * 500 + 500"
    "ComputeLatency s False d = 500 \<or> ComputeLatency s False d = seek + rotation + md * 500 + 500"
    "500 \<le> seek + rotation + md * 500 + 500" "seek + rotation + md * 500 + 500 \<le> 31999"
proof -
  note t = TimeToSeek_range [OF assms(1-4)]
  have r: "0 \<le> rotation" "rotation < 500" using t(4) by simp_all
  have m: "0 \<le> md" "md < 32" using ModuloDiff_range [OF assms(2)] by (simp_all add: md_def)
  have 1: "to_int32 (rotation + md * 500) = rotation + md * 500"
    by (rule to_int32_small) (use r m in linarith)+
  have 2: "to_int32 (seek + (rotation + md * 500) + 500) = seek + rotation + md * 500 + 500"
    by (subst to_int32_small) (use r m t in linarith)+
  show "ComputeLatency s True d = seek + rotation + md * 500 + 500"
    using assms(4) 1 2 by (simp add: ComputeLatency_def Let_def RotationTime_def flip: md_def)
  show "ComputeLatency s False d = 500 \<or> ComputeLatency s False d = seek + rotation + md * 500 + 500"
    using assms(4) 1 2 to_int32_small [of 500] by (simp add: ComputeLatency_def Let_def RotationTime_def flip: md_def)
  show "500 \<le> seek + rotation + md * 500 + 500" "seek + rotation + md * 500 + 500 \<le> 31999"
    using r m t by linarith+
qed

section \<open>Sectors\<close>

definition disk_sector :: "8 word list \<Rightarrow> int \<Rightarrow> 8 word list" where
  "disk_sector f s = take 128 (drop (sector_offset s) f)"

lemma length_unix_write:
  "length (unix_write f off data) = max (length f) (off + length data)"
  by (auto simp: unix_write_def Let_def max_def min_def)

lemma DiskSize_eq [simp]: "DiskSize = 131076"
  by (simp add: DiskSize_def MagicSize_def SectorSize_def)

lemma sector_offset_eq: "0 \<le> s \<Longrightarrow> sector_offset s = 128 * nat s + 4"
  by (simp add: sector_offset_def SectorSize_def MagicSize_def nat_mult_distrib)

lemma sector_in_file:
  assumes "0 \<le> s" "s < NumSectors" "length f = DiskSize"
  shows "sector_offset s + 128 \<le> length f" "length (disk_sector f s) = 128"
proof -
  have "nat s \<le> 1023" using assms by simp
  then show 1: "sector_offset s + 128 \<le> length f" using assms by (simp add: sector_offset_eq)
  then show "length (disk_sector f s) = 128" by (simp add: disk_sector_def)
qed

lemma unix_write_inside:
  assumes "off + length data \<le> length f"
  shows "unix_write f off data = take off f @ data @ drop (off + length data) f"
  using assms by (simp add: unix_write_def Let_def)

lemma disk_sector_write:
  assumes "0 \<le> s" "s < NumSectors" "0 \<le> s'" "s' < NumSectors" "length f = DiskSize" "length data = 128"
  shows "disk_sector (unix_write f (sector_offset s) data) s' = (if s' = s then data else disk_sector f s')"
proof -
  note b = sector_in_file(1) [OF assms(1,2,5)] sector_in_file(1) [OF assms(3-5)]
  have w: "unix_write f (sector_offset s) data
      = take (sector_offset s) f @ data @ drop (sector_offset s + 128) f"
    using unix_write_inside [of "sector_offset s" data f] b assms(6) by simp
  consider "s' = s" | "nat s' + 1 \<le> nat s" "s' \<noteq> s" | "nat s + 1 \<le> nat s'" "s' \<noteq> s" using assms(1,3) by linarith
  then show ?thesis
  proof cases
    case 1
    then show ?thesis using b assms(6) by (simp add: disk_sector_def w)
  next
    case 2
    have le: "sector_offset s' + 128 \<le> sector_offset s"
      using 2(1) assms(1,3) by (simp add: sector_offset_eq)
    have "disk_sector (unix_write f (sector_offset s) data) s'
        = take 128 (drop (sector_offset s') (take (sector_offset s) f))"
      using le b by (simp add: disk_sector_def w)
    also have "\<dots> = disk_sector f s'" using le by (simp add: disk_sector_def drop_take min_def)
    finally show ?thesis using 2(2) by simp
  next
    case 3
    have le: "sector_offset s + 128 \<le> sector_offset s'"
      using 3(1) assms(1,3) by (simp add: sector_offset_eq)
    then have "disk_sector (unix_write f (sector_offset s) data) s' = disk_sector f s'"
      using b assms(6) by (simp add: disk_sector_def w)
    then show ?thesis using 3(2) by simp
  qed
qed

lemma TimeToSeek_cong [simp]:
  "TimeToSeek s (d\<lparr>disk_active := a\<rparr>) = TimeToSeek s d"
  "TimeToSeek s (d\<lparr>disk_file := f\<rparr>) = TimeToSeek s d"
  by (simp_all add: TimeToSeek_def)

lemma UpdateLast_sel [simp]:
  "lastSector (UpdateLast s d) = s" "disk_file (UpdateLast s d) = disk_file d"
  "disk_active (UpdateLast s d) = disk_active d" "stats (UpdateLast s d) = stats d"
  "pending (UpdateLast s d) = pending d" "level (UpdateLast s d) = level d"
  "status (UpdateLast s d) = status d" "inHandler (UpdateLast s d) = inHandler d"
  "yieldOnReturn (UpdateLast s d) = yieldOnReturn d"
  by (auto simp: UpdateLast_def Let_def split: prod.split)

text \<open>
  A request is accepted exactly when the device is idle and the sector exists; it then schedules one
  completion interrupt within the latency bound.
\<close>

lemma latency_bounds:
  assumes "disk_ok d" "0 \<le> s" "s < NumSectors"
  shows "500 \<le> ComputeLatency s w d" "ComputeLatency s w d \<le> 31999"
    "ComputeLatency s False d \<le> ComputeLatency s True d"
proof -
  obtain seek rotation where t: "TimeToSeek s d = (seek, rotation)" by fastforce
  note l = ComputeLatency_rotate [OF assms t]
  have "ComputeLatency s w d = 500 \<or> ComputeLatency s w d = ComputeLatency s True d" using l by (cases w) simp_all
  then show "500 \<le> ComputeLatency s w d" "ComputeLatency s w d \<le> 31999" using l by linarith+
  show "ComputeLatency s False d \<le> ComputeLatency s True d" using l by linarith
qed

definition disk_request :: "VoidFunctionPtr \<Rightarrow> int \<Rightarrow> int \<Rightarrow> bool \<Rightarrow> 'x Disk_scheme \<Rightarrow> PendingInterrupt \<times> int" where
  "disk_request done this s w d =
     (let when = now d + ComputeLatency s w d in (PendingInterrupt_new done this when DiskInt, when))"

lemma ReadRequest_runs:
  assumes "disk_ok d" "0 \<le> s" "s < NumSectors" "\<not> disk_active d"
  shows "\<exists>d'. ReadRequest done this s d = Inr (disk_sector (disk_file d) s, d') \<and> disk_ok d' \<and>
    disk_active d' \<and> disk_file d' = disk_file d \<and> now d' = now d \<and> level d' = level d \<and> status d' = status d \<and>
    pending d' = (let (p, k) = disk_request done this s False d in seq_insert p k (pending d)) \<and>
    numDiskReads (stats d') = numDiskReads (stats d) + 1"
proof -
  have len: "length (disk_file d) = DiskSize" using assms(1) by (simp add: disk_ok_def)
  note b = sector_in_file(1) [OF assms(2,3) len]
  have "unix_read (disk_file d) (sector_offset s) (nat SectorSize) = Inr (disk_sector (disk_file d) s)"
    using b by (simp add: unix_read_def disk_sector_def SectorSize_def)
  moreover have "0 < ComputeLatency s False d" using latency_bounds(1) [OF assms(1-3), of False] by linarith
  ultimately show ?thesis
    using assms by (simp add: ReadRequest_def Schedule_def disk_request_def Let_def disk_ok_def)
qed

lemma WriteRequest_runs:
  assumes "disk_ok d" "0 \<le> s" "s < NumSectors" "\<not> disk_active d" "length data = nat SectorSize"
  shows "\<exists>d'. WriteRequest done this s data d = Inr d' \<and> disk_ok d' \<and>
    disk_active d' \<and> disk_file d' = unix_write (disk_file d) (sector_offset s) data \<and>
    now d' = now d \<and> level d' = level d \<and> status d' = status d \<and>
    pending d' = (let (p, k) = disk_request done this s True d in seq_insert p k (pending d)) \<and>
    numDiskWrites (stats d') = numDiskWrites (stats d) + 1"
proof -
  have len: "length (disk_file d) = DiskSize" using assms(1) by (simp add: disk_ok_def)
  note b = sector_in_file(1) [OF assms(2,3) len]
  have "length (unix_write (disk_file d) (sector_offset s) data) = DiskSize"
    using b len assms(5) by (simp add: length_unix_write SectorSize_def)
  moreover have "0 < ComputeLatency s True d" using latency_bounds(1) [OF assms(1-3), of True] by linarith
  ultimately show ?thesis
    using assms by (simp add: WriteRequest_def Schedule_def disk_request_def Let_def disk_ok_def)
qed

section \<open>Properties\<close>

definition demo_disk :: Disk where
  "demo_disk = Interrupt.extend (Interrupt_new Statistics_new)
     \<lparr>disk_file = word_bytes False MagicNumber @ replicate 131072 0, disk_active = False,
      lastSector = 0, bufferInit = 0\<rparr>"

lemma demo_disk_ok: "disk_ok demo_disk" "\<not> disk_active demo_disk" "now demo_disk = 0" "lastSector demo_disk = 0"
  by (simp_all add: demo_disk_def disk_ok_def Interrupt_new_def Interrupt.defs Statistics_new_def)

text \<open>
  The latency the disk computes for a sector is positive and bounded by a full seek,
  a full rotation and one transfer, so the assertion in \<^verbatim>\<open>Interrupt::Schedule\<close> that an interrupt lies
  in the future never fails for a disk request; the bound holds at every time of the
  64-bit clock, although the source computes with times cut to 32 bits. A read is never slower than
  a write: the track buffer can only help.
\<close>

theorem disk_latency_bounds:
  assumes "disk_ok d" "0 \<le> s" "s < NumSectors"
  shows "0 < ComputeLatency s w d \<and>
    ComputeLatency s w d \<le> (NumTracks - 1) * SeekTime + (RotationTime - 1) + (SectorsPerTrack - 1) * RotationTime + RotationTime \<and>
    ComputeLatency s False d \<le> ComputeLatency s True d"
  using latency_bounds(1,2) [OF assms, of w] latency_bounds(3) [OF assms]
  by (simp add: NumTracks_def SectorsPerTrack_def SeekTime_def RotationTime_def)

theorem disk_latency_bounds_witness:
  "0 < ComputeLatency 77 True demo_disk \<and> ComputeLatency 77 True demo_disk \<le> 31999"
  using disk_latency_bounds [OF demo_disk_ok(1), of 77 True]
  by (simp add: NumTracks_def SectorsPerTrack_def SeekTime_def RotationTime_def)




text \<open>
  Property C35. A sector written is the sector read: after a write request has been accepted, its
  completion interrupt has been taken and any handler that leaves the disk alone has run, a read
  request for the same sector returns the bytes written and one for any other sector returns what
  that sector held before the write.
\<close>

theorem disk_read_after_write:
  assumes "disk_ok d" "\<not> disk_active d" "length data = nat SectorSize"
    and "0 \<le> s" "s < NumSectors" "0 \<le> s'" "s' < NumSectors"
  shows "\<exists>d1 d2 d3 d4. WriteRequest done this s data d = Inr d1 \<and> Disk_HandleInterrupt Inr d1 = Inr d2 \<and>
    ReadRequest done this s' d2 = Inr (if s' = s then data else disk_sector (disk_file d) s', d3) \<and>
    disk_active d1 \<and> \<not> disk_active d2 \<and> disk_ok d3 \<and>
    ReadRequest done this s' d = Inr (disk_sector (disk_file d) s', d4)"
proof -
  have len: "length (disk_file d) = DiskSize" using assms(1) by (simp add: disk_ok_def)
  obtain d1 where d1: "WriteRequest done this s data d = Inr d1" "disk_ok d1" "disk_active d1"
    "disk_file d1 = unix_write (disk_file d) (sector_offset s) data"
    using WriteRequest_runs [OF assms(1,4,5,2,3)] by blast
  let ?d2 = "d1\<lparr>disk_active := False\<rparr>"
  have "disk_ok ?d2" using d1(2) by (simp add: disk_ok_def)
  then obtain d3 where d3: "ReadRequest done this s' ?d2 = Inr (disk_sector (disk_file ?d2) s', d3)" "disk_ok d3"
    using ReadRequest_runs [OF _ assms(6,7), of ?d2] by auto
  obtain d4 where d4: "ReadRequest done this s' d = Inr (disk_sector (disk_file d) s', d4)"
    using ReadRequest_runs [OF assms(1,6,7,2)] by blast
  have "disk_sector (disk_file ?d2) s' = (if s' = s then data else disk_sector (disk_file d) s')"
    using disk_sector_write [OF assms(4-7) len] assms(3) d1(4) by (simp add: SectorSize_def)
  then show ?thesis using d1 d3 d4 by (simp add: Disk_HandleInterrupt_def)
qed

theorem disk_read_after_write_witness:
  "\<exists>d1 d2 d3. WriteRequest 7 0 5 (replicate 128 9) demo_disk = Inr d1 \<and> Disk_HandleInterrupt Inr d1 = Inr d2 \<and>
    ReadRequest 7 0 5 d2 = Inr (replicate 128 9, d3)"
  using disk_read_after_write [OF demo_disk_ok(1,2), of "replicate 128 9" 5 5 7 0]
  unfolding SectorSize_def by (simp del: demo_disk_ok) blast

text \<open>
  A disk starts well formed: without a backing file the constructor makes one of the
  full size whose sectors are all zero, and with one it accepts exactly the files that begin with
  the magic number, leaving their contents alone; anything else stops the simulator.
\<close>

theorem Disk_new_formats:
  "\<exists>d. Disk_new big None ic = Inr d \<and> length (disk_file d) = DiskSize \<and> \<not> disk_active d \<and>
     bytes_word big (disk_file d) = MagicNumber \<and>
     (\<forall>s. disk_sector (disk_file d) s = replicate (length (disk_sector (disk_file d) s)) 0) \<and>
     (\<exists>d'. Disk_new big (Some (disk_file d)) ic = Inr d' \<and> d' = d)"
proof -
  let ?z = "[0, 0, 0, 0] :: 8 word list"
  have z: "word_bytes big 0 = ?z" by (simp add: word_bytes_def byte_of_def Let_def)
  let ?f = "word_bytes big MagicNumber @ replicate 131072 0"
  have w1: "unix_write [] 0 (word_bytes big MagicNumber) = word_bytes big MagicNumber"
    by (simp add: unix_write_def)
  have "unix_write (word_bytes big MagicNumber) 131072 (word_bytes big 0)
      = word_bytes big MagicNumber @ replicate 131068 0 @ ?z"
    by (simp add: unix_write_def Let_def z)
  also have "?z = replicate 4 0" by (simp add: numeral_eq_Suc)
  also have "replicate 131068 0 @ replicate 4 0 = replicate 131072 (0 :: 8 word)"
    by (simp flip: replicate_add)
  finally have f: "unix_write (word_bytes big MagicNumber) 131072 (word_bytes big 0) = ?f" .
  have sec: "disk_sector ?f s = replicate (length (disk_sector ?f s)) 0" for s
    by (simp add: disk_sector_def sector_offset_def MagicSize_def)
  have rd: "unix_read ?f 0 MagicSize = Inr (word_bytes big MagicNumber)"
    by (simp add: unix_read_def MagicSize_def)
  show ?thesis
    using sec by (simp add: Disk_new_def w1 f rd Interrupt.defs)
qed

end
