(* ===== verification/Nachos_SynchDisk.thy ===== *)
theory Nachos_SynchDisk
  imports Nachos_Disk
begin

text \<open>
  \<^verbatim>\<open>filesys/synchdisk.cc\<close>, \<^verbatim>\<open>filesys/synchdisk.h\<close>: the disk behind a lock and a semaphore, so that a
  request returns only after its completion interrupt. The file system does not allow concurrent
  access, and this theory is the view of the one thread that uses it: nobody else is ready, so
  \<^verbatim>\<open>Sleep\<close> inside \<^verbatim>\<open>P\<close> idles the machine until the next interrupt, and \<open>sd_held\<close> says that
  this thread holds the lock. The disk is then a store of sectors, which is all the file system
  relies on; the locale \<open>sector_store\<close> states these laws.
\<close>

section \<open>Operations\<close>

record SynchDisk = Disk +
  sd_semaphore :: int
  sd_held :: bool

definition SynchDisk_new :: "bool \<Rightarrow> 8 word list option \<Rightarrow> Interrupt \<Rightarrow> SynchDisk res" where
  "SynchDisk_new big unix_file ic =
     andThen (Disk_new big unix_file ic) (\<lambda>d. Inr (Disk.extend d \<lparr>sd_semaphore = 0, sd_held = False\<rparr>))"

definition RequestDone :: "SynchDisk \<Rightarrow> SynchDisk res" where
  "RequestDone d = Inr (d\<lparr>sd_semaphore := sd_semaphore d + 1\<rparr>)"

text \<open>The disk is the only device: its interrupt calls \<^verbatim>\<open>DiskDone\<close>, which calls the handler \<^verbatim>\<open>DiskRequestDone\<close>.\<close>

definition sd_run :: "PendingInterrupt \<Rightarrow> SynchDisk \<Rightarrow> SynchDisk res" where
  "sd_run p d = Disk_HandleInterrupt RequestDone d"

definition sd_SetLevel :: "IntStatus \<Rightarrow> SynchDisk \<Rightarrow> (IntStatus \<times> SynchDisk) res" where
  "sd_SetLevel = SetLevel (OneTick sd_run Inr Inr)"

definition sd_Acquire :: "SynchDisk \<Rightarrow> SynchDisk res" where
  "sd_Acquire d =
     andThen (sd_SetLevel IntOff d) (\<lambda>(old, d1).
     andThen (sd_SetLevel old (if sd_held d1 then d1 else d1\<lparr>sd_held := True\<rparr>)) (\<lambda>(_, d2). Inr d2))"

definition sd_Release :: "SynchDisk \<Rightarrow> SynchDisk res" where
  "sd_Release d =
     andThen (sd_SetLevel IntOff d) (\<lambda>(old, d1).
     andThen (sd_SetLevel old (if sd_held d1 then d1\<lparr>sd_held := False\<rparr> else d1)) (\<lambda>(_, d2). Inr d2))"

text \<open>
  The loop of \<^verbatim>\<open>P\<close>. Each round takes at least one pending interrupt and none is scheduled meanwhile,
  so one round more than there are interrupts is enough.
\<close>

fun sd_P_loop :: "nat \<Rightarrow> SynchDisk \<Rightarrow> SynchDisk res" where
  "sd_P_loop 0 d = Inl Diverges"
| "sd_P_loop (Suc fuel) d =
     (if sd_semaphore d = 0 then andThen (Idle sd_run Inr d) (sd_P_loop fuel)
      else Inr (d\<lparr>sd_semaphore := sd_semaphore d - 1\<rparr>))"

definition sd_P :: "SynchDisk \<Rightarrow> SynchDisk res" where
  "sd_P d =
     andThen (sd_SetLevel IntOff d) (\<lambda>(old, d1).
     andThen (sd_P_loop (Suc (length (pending d1))) d1) (\<lambda>d2.
     andThen (sd_SetLevel old d2) (\<lambda>(_, d3). Inr d3)))"

text \<open>Numbers that stand for the address of \<^verbatim>\<open>DiskDone\<close> and for \<^verbatim>\<open>this\<close> of the disk.\<close>

definition DiskDone :: VoidFunctionPtr where "DiskDone = 0"
definition this_disk :: int where "this_disk = 0"

definition ReadSector :: "int \<Rightarrow> SynchDisk \<Rightarrow> (8 word list \<times> SynchDisk) res" where
  "ReadSector sectorNumber d =
     andThen (sd_Acquire d) (\<lambda>d1.
     andThen (ReadRequest DiskDone this_disk sectorNumber d1) (\<lambda>(data, d2).
     andThen (sd_P d2) (\<lambda>d3.
     andThen (sd_Release d3) (\<lambda>d4. Inr (data, d4)))))"

definition WriteSector :: "int \<Rightarrow> 8 word list \<Rightarrow> SynchDisk \<Rightarrow> SynchDisk res" where
  "WriteSector sectorNumber data d =
     andThen (sd_Acquire d) (\<lambda>d1.
     andThen (WriteRequest DiskDone this_disk sectorNumber data d1) (\<lambda>d2.
     andThen (sd_P d2) (\<lambda>d3. sd_Release d3)))"

section \<open>Requests complete\<close>

definition sd_ready :: "SynchDisk \<Rightarrow> bool" where
  "sd_ready d \<longleftrightarrow> disk_ok d \<and> \<not> disk_active d \<and> pending d = [] \<and> level d = IntOn \<and> status d = SystemMode \<and>
     \<not> inHandler d \<and> \<not> yieldOnReturn d \<and> sd_semaphore d = 0 \<and> \<not> sd_held d"

lemma sd_tick:
  assumes "pending d = []" "status d = SystemMode" "\<not> yieldOnReturn d" "\<not> inHandler d" "level d = IntOff"
  shows "sd_SetLevel IntOn d = Inr (IntOff, (count_tick d)\<lparr>level := IntOn\<rparr>)"
  using assms
  by (simp add: sd_SetLevel_def SetLevel_def OneTick_def OneTick_fire_def CheckIfDue_def ChangeLevel_def count_tick_def
      Let_def)

lemma sd_off: "sd_SetLevel IntOff d = Inr (level d, d\<lparr>level := IntOff\<rparr>)"
  by (simp add: sd_SetLevel_def SetLevel_def ChangeLevel_def Let_def)

text \<open>Two states that agree on the disk, apart from what time and interrupts change.\<close>

definition sd_calm :: "SynchDisk \<Rightarrow> bool" where
  "sd_calm d \<longleftrightarrow> status d = SystemMode \<and> \<not> inHandler d \<and> \<not> yieldOnReturn d \<and> level d = IntOn \<and> disk_ok d"

lemma sd_Acquire_runs:
  assumes "sd_ready d"
  shows "\<exists>d'. sd_Acquire d = Inr d' \<and> sd_calm d' \<and> pending d' = [] \<and> \<not> disk_active d' \<and> sd_held d' \<and>
    sd_semaphore d' = 0 \<and> disk_file d' = disk_file d \<and> now d < now d'"
proof -
  let ?d1 = "d\<lparr>level := IntOff, sd_held := True\<rparr>"
  have "sd_SetLevel IntOn ?d1 = Inr (IntOff, (count_tick ?d1)\<lparr>level := IntOn\<rparr>)"
    using assms by (intro sd_tick) (simp_all add: sd_ready_def)
  then show ?thesis
    using assms by (simp add: sd_Acquire_def sd_off sd_ready_def sd_calm_def count_tick_def disk_ok_def SystemTick_def)
qed

lemma sd_Release_runs:
  assumes "sd_calm d" "pending d = []" "\<not> disk_active d" "sd_held d" "sd_semaphore d = 0"
  shows "\<exists>d'. sd_Release d = Inr d' \<and> sd_ready d' \<and> disk_file d' = disk_file d \<and> now d < now d'"
proof -
  let ?d1 = "d\<lparr>level := IntOff, sd_held := False\<rparr>"
  have "sd_SetLevel IntOn ?d1 = Inr (IntOff, (count_tick ?d1)\<lparr>level := IntOn\<rparr>)"
    using assms by (intro sd_tick) (simp_all add: sd_calm_def)
  then show ?thesis
    using assms by (simp add: sd_Release_def sd_off sd_ready_def sd_calm_def count_tick_def disk_ok_def SystemTick_def)
qed

lemma sd_idle:
  assumes "level d = IntOff" "pending d = [(p, k)]" "pi_type p = DiskInt" "now d < k" "sd_semaphore d = 0"
  shows "\<exists>st. Idle sd_run Inr d = Inr (d\<lparr>pending := [], stats := st, disk_active := False, sd_semaphore := 1,
      inHandler := False, yieldOnReturn := False, status := SystemMode\<rparr>) \<and> totalTicks st = k"
  using assms
  by (auto simp: Idle_def CheckIfDue_def call_handler_def advance_clock_def sd_run_def Disk_HandleInterrupt_def
      RequestDone_def Let_def)

lemma sd_P_runs:
  assumes "sd_calm d" "pending d = [(p, k)]" "pi_type p = DiskInt" "now d < k" "sd_semaphore d = 0" "sd_held d"
  shows "\<exists>d'. sd_P d = Inr d' \<and> sd_calm d' \<and> pending d' = [] \<and> \<not> disk_active d' \<and> sd_held d' \<and>
    sd_semaphore d' = 0 \<and> disk_file d' = disk_file d \<and> k < now d'"
proof -
  let ?d1 = "d\<lparr>level := IntOff\<rparr>"
  obtain st where st: "Idle sd_run Inr ?d1 = Inr (?d1\<lparr>pending := [], stats := st, disk_active := False,
      sd_semaphore := 1, inHandler := False, yieldOnReturn := False, status := SystemMode\<rparr>)" "totalTicks st = k"
    using sd_idle [of ?d1 p k] assms by auto
  let ?d2 = "?d1\<lparr>pending := [], stats := st, disk_active := False, sd_semaphore := 0, inHandler := False,
      yieldOnReturn := False, status := SystemMode\<rparr>"
  have "sd_P_loop (Suc (length (pending ?d1))) ?d1 = Inr ?d2" using st assms by simp
  moreover have "sd_SetLevel IntOn ?d2 = Inr (IntOff, (count_tick ?d2)\<lparr>level := IntOn\<rparr>)"
    by (intro sd_tick) simp_all
  ultimately show ?thesis
    using assms st(2) by (simp add: sd_P_def sd_off sd_calm_def count_tick_def disk_ok_def SystemTick_def)
qed

lemma UpdateLast_sd [simp]:
  "sd_held (UpdateLast s d) = sd_held d" "sd_semaphore (UpdateLast s d) = sd_semaphore d"
  by (auto simp: UpdateLast_def Let_def split: prod.split)

lemma sd_request:
  assumes "sd_calm d" "pending d = []" "0 \<le> s" "s < NumSectors"
  shows "\<exists>p k. (let (p, k) = disk_request DiskDone this_disk s w d in seq_insert p k (pending d)) = [(p, k)] \<and>
    pi_type p = DiskInt \<and> now d < k"
  using assms latency_bounds(1) [of d s w]
  by (simp add: disk_request_def PendingInterrupt_new_def seq_insert_def Let_def sd_calm_def)

lemma sd_ReadRequest:
  assumes "sd_calm d" "pending d = []" "\<not> disk_active d" "0 \<le> s" "s < NumSectors"
  shows "\<exists>d' p k. ReadRequest DiskDone this_disk s d = Inr (disk_sector (disk_file d) s, d') \<and> sd_calm d' \<and>
    pending d' = [(p, k)] \<and> pi_type p = DiskInt \<and> now d' < k \<and> now d' = now d \<and> disk_file d' = disk_file d \<and>
    sd_held d' = sd_held d \<and> sd_semaphore d' = sd_semaphore d"
proof -
  have "disk_ok d" using assms(1) by (simp add: sd_calm_def)
  then obtain d' where d': "ReadRequest DiskDone this_disk s d = Inr (disk_sector (disk_file d) s, d')" "disk_ok d'"
    "disk_file d' = disk_file d" "now d' = now d" "level d' = level d" "status d' = status d"
    "pending d' = (let (p, k) = disk_request DiskDone this_disk s False d in seq_insert p k (pending d))"
    using ReadRequest_runs [of d s] assms(3-5) by blast
  have "inHandler d' = inHandler d \<and> yieldOnReturn d' = yieldOnReturn d \<and> sd_held d' = sd_held d \<and>
      sd_semaphore d' = sd_semaphore d"
    using d'(1) by (auto simp: ReadRequest_def Schedule_def Let_def res_simps)
  then show ?thesis using d' assms(1) sd_request [OF assms(1,2,4,5), of False] by (auto simp: sd_calm_def)
qed

lemma sd_WriteRequest:
  assumes "sd_calm d" "pending d = []" "\<not> disk_active d" "0 \<le> s" "s < NumSectors" "length data = 128"
  shows "\<exists>d' p k. WriteRequest DiskDone this_disk s data d = Inr d' \<and> sd_calm d' \<and>
    pending d' = [(p, k)] \<and> pi_type p = DiskInt \<and> now d' < k \<and> now d' = now d \<and>
    disk_file d' = unix_write (disk_file d) (sector_offset s) data \<and>
    sd_held d' = sd_held d \<and> sd_semaphore d' = sd_semaphore d"
proof -
  have "disk_ok d" using assms(1) by (simp add: sd_calm_def)
  then obtain d' where d': "WriteRequest DiskDone this_disk s data d = Inr d'" "disk_ok d'"
    "disk_file d' = unix_write (disk_file d) (sector_offset s) data" "now d' = now d" "level d' = level d" "status d' = status d"
    "pending d' = (let (p, k) = disk_request DiskDone this_disk s True d in seq_insert p k (pending d))"
    using WriteRequest_runs [of d s data] assms(3-6) by (auto simp: SectorSize_def)
  have "inHandler d' = inHandler d \<and> yieldOnReturn d' = yieldOnReturn d \<and> sd_held d' = sd_held d \<and>
      sd_semaphore d' = sd_semaphore d"
    using d'(1) by (auto simp: WriteRequest_def Schedule_def Let_def res_simps)
  then show ?thesis using d' assms(1) sd_request [OF assms(1,2,4,5), of True] by (auto simp: sd_calm_def)
qed

lemma ReadSector_runs:
  assumes "sd_ready d" "0 \<le> s" "s < NumSectors"
  shows "\<exists>d'. ReadSector s d = Inr (disk_sector (disk_file d) s, d') \<and> sd_ready d' \<and>
    disk_file d' = disk_file d \<and> now d < now d'"
proof -
  obtain d1 where d1: "sd_Acquire d = Inr d1" "sd_calm d1" "pending d1 = []" "\<not> disk_active d1" "sd_held d1"
    "sd_semaphore d1 = 0" "disk_file d1 = disk_file d" "now d < now d1"
    using sd_Acquire_runs [OF assms(1)] by blast
  obtain d2 p k where d2: "ReadRequest DiskDone this_disk s d1 = Inr (disk_sector (disk_file d) s, d2)"
    "sd_calm d2" "pending d2 = [(p, k)]" "pi_type p = DiskInt" "now d2 < k" "now d2 = now d1"
    "disk_file d2 = disk_file d" "sd_held d2" "sd_semaphore d2 = 0"
    using sd_ReadRequest [OF d1(2-4) assms(2,3)] d1(5-7) by auto
  obtain d3 where d3: "sd_P d2 = Inr d3" "sd_calm d3" "pending d3 = []" "\<not> disk_active d3" "sd_held d3"
    "sd_semaphore d3 = 0" "disk_file d3 = disk_file d2" "k < now d3"
    using sd_P_runs [OF d2(2-5,9,8)] by blast
  obtain d4 where "sd_Release d3 = Inr d4" "sd_ready d4" "disk_file d4 = disk_file d3" "now d3 < now d4"
    using sd_Release_runs [OF d3(2-6)] by blast
  then show ?thesis using d1(1,8) d2(1,5-7) d3(1,7,8) by (simp add: ReadSector_def)
qed

lemma WriteSector_runs:
  assumes "sd_ready d" "0 \<le> s" "s < NumSectors" "length data = 128"
  shows "\<exists>d'. WriteSector s data d = Inr d' \<and> sd_ready d' \<and>
    disk_file d' = unix_write (disk_file d) (sector_offset s) data \<and> now d < now d'"
proof -
  obtain d1 where d1: "sd_Acquire d = Inr d1" "sd_calm d1" "pending d1 = []" "\<not> disk_active d1" "sd_held d1"
    "sd_semaphore d1 = 0" "disk_file d1 = disk_file d" "now d < now d1"
    using sd_Acquire_runs [OF assms(1)] by blast
  obtain d2 p k where d2: "WriteRequest DiskDone this_disk s data d1 = Inr d2"
    "sd_calm d2" "pending d2 = [(p, k)]" "pi_type p = DiskInt" "now d2 < k" "now d2 = now d1"
    "disk_file d2 = unix_write (disk_file d) (sector_offset s) data" "sd_held d2" "sd_semaphore d2 = 0"
    using sd_WriteRequest [OF d1(2-4) assms(2-4)] d1(5-7) by auto
  obtain d3 where d3: "sd_P d2 = Inr d3" "sd_calm d3" "pending d3 = []" "\<not> disk_active d3" "sd_held d3"
    "sd_semaphore d3 = 0" "disk_file d3 = disk_file d2" "k < now d3"
    using sd_P_runs [OF d2(2-5,9,8)] by blast
  obtain d4 where "sd_Release d3 = Inr d4" "sd_ready d4" "disk_file d4 = disk_file d3" "now d3 < now d4"
    using sd_Release_runs [OF d3(2-6)] by blast
  then show ?thesis using d1(1,8) d2(1,5-7) d3(1,7,8) by (simp add: WriteSector_def)
qed

section \<open>A store of sectors\<close>

text \<open>
  What the file system relies on: in a good state a sector of the disk can be read and written, a
  read changes no sector, a write changes the sector it names and no other, and the state stays good.
\<close>

locale sector_store =
  fixes rd :: "int \<Rightarrow> 'd \<Rightarrow> (8 word list \<times> 'd) res"
    and wr :: "int \<Rightarrow> 8 word list \<Rightarrow> 'd \<Rightarrow> 'd res"
    and sector :: "'d \<Rightarrow> int \<Rightarrow> 8 word list"
    and good :: "'d \<Rightarrow> bool"
  assumes rd_law: "good d \<Longrightarrow> 0 \<le> s \<Longrightarrow> s < NumSectors \<Longrightarrow>
      \<exists>d'. rd s d = Inr (sector d s, d') \<and> good d' \<and> (\<forall>t. 0 \<le> t \<longrightarrow> t < NumSectors \<longrightarrow> sector d' t = sector d t)"
    and wr_law: "good d \<Longrightarrow> 0 \<le> s \<Longrightarrow> s < NumSectors \<Longrightarrow> length data = 128 \<Longrightarrow>
      \<exists>d'. wr s data d = Inr d' \<and> good d' \<and>
        (\<forall>t. 0 \<le> t \<longrightarrow> t < NumSectors \<longrightarrow> sector d' t = (if t = s then data else sector d t))"
    and sector_length: "good d \<Longrightarrow> 0 \<le> s \<Longrightarrow> s < NumSectors \<Longrightarrow> length (sector d s) = 128"

interpretation synch_disk: sector_store ReadSector WriteSector "\<lambda>d. disk_sector (disk_file d)" sd_ready
proof unfold_locales
  fix d s assume a: "sd_ready d" "0 \<le> s" "s < NumSectors"
  show "\<exists>d'. ReadSector s d = Inr (disk_sector (disk_file d) s, d') \<and> sd_ready d' \<and>
      (\<forall>t. 0 \<le> t \<longrightarrow> t < NumSectors \<longrightarrow> disk_sector (disk_file d') t = disk_sector (disk_file d) t)"
    using ReadSector_runs [OF a] by auto
  show "length (disk_sector (disk_file d) s) = 128"
    using a sector_in_file(2) [OF a(2,3)] by (simp add: sd_ready_def disk_ok_def)
next
  fix d s and data :: "8 word list" assume a: "sd_ready d" "0 \<le> s" "s < NumSectors" "length data = 128"
  then have len: "length (disk_file d) = DiskSize" by (simp add: sd_ready_def disk_ok_def)
  show "\<exists>d'. WriteSector s data d = Inr d' \<and> sd_ready d' \<and>
      (\<forall>t. 0 \<le> t \<longrightarrow> t < NumSectors \<longrightarrow>
         disk_sector (disk_file d') t = (if t = s then data else disk_sector (disk_file d) t))"
    using WriteSector_runs [OF a] disk_sector_write [OF a(2,3) _ _ len a(4)] by auto
qed

section \<open>Properties\<close>

definition demo_synchdisk :: SynchDisk where
  "demo_synchdisk = Disk.extend (demo_disk\<lparr>level := IntOn\<rparr>) \<lparr>sd_semaphore = 0, sd_held = False\<rparr>"

lemma demo_synchdisk_ready: "sd_ready demo_synchdisk"
  by (simp add: demo_synchdisk_def demo_disk_def sd_ready_def disk_ok_def Interrupt_new_def Interrupt.defs Disk.defs
      Statistics_new_def)

text \<open>
  Property C39. Every request to the synchronous disk completes: with no other request outstanding,
  \<^verbatim>\<open>ReadSector\<close> and \<^verbatim>\<open>WriteSector\<close> return, no assertion of the disk or of the interrupt controller
  fails, the thread does not wait for ever, the lock and the semaphore are back in their initial
  state and no interrupt is left pending; a read returns the sector and leaves the disk image alone,
  a write stores exactly its sector, and simulated time has passed for both.
\<close>

theorem synchdisk_requests_complete:
  assumes "sd_ready d" "0 \<le> s" "s < NumSectors" "length data = nat SectorSize"
  shows "(\<exists>d'. ReadSector s d = Inr (disk_sector (disk_file d) s, d') \<and> sd_ready d' \<and>
      disk_file d' = disk_file d \<and> now d < now d') \<and>
    (\<exists>d'. WriteSector s data d = Inr d' \<and> sd_ready d' \<and> now d < now d' \<and>
      (\<forall>t. 0 \<le> t \<longrightarrow> t < NumSectors \<longrightarrow>
         disk_sector (disk_file d') t = (if t = s then data else disk_sector (disk_file d) t)))"
proof -
  have l: "length data = 128" using assms(4) by (simp add: SectorSize_def)
  have len: "length (disk_file d) = DiskSize" using assms(1) by (simp add: sd_ready_def disk_ok_def)
  show ?thesis
    using ReadSector_runs [OF assms(1-3)] WriteSector_runs [OF assms(1-3) l]
      disk_sector_write [OF assms(2,3) _ _ len l] by auto
qed

theorem synchdisk_requests_complete_witness:
  "\<exists>d'. WriteSector 3 (replicate 128 7) demo_synchdisk = Inr d' \<and> sd_ready d' \<and>
     disk_sector (disk_file d') 3 = replicate 128 7"
proof -
  obtain d' where "WriteSector 3 (replicate 128 7) demo_synchdisk = Inr d'" "sd_ready d'"
    "\<forall>t. 0 \<le> t \<longrightarrow> t < NumSectors \<longrightarrow> disk_sector (disk_file d') t =
       (if t = 3 then replicate 128 7 else disk_sector (disk_file demo_synchdisk) t)"
    using synchdisk_requests_complete [OF demo_synchdisk_ready, of 3 "replicate 128 7"] by (auto simp: SectorSize_def)
  then show ?thesis by simp
qed

end
