(* ===== verification/Nachos_Bitmap.thy ===== *)
theory Nachos_Bitmap
  imports Nachos_Prelude
begin

unbundle bit_operations_syntax

text \<open>
  \<^verbatim>\<open>userprog/bitmap.cc\<close>, \<^verbatim>\<open>userprog/bitmap.h\<close>: the bitmap that allocates disk sectors, memory
  pages and open-file slots, an array of 32-bit words. \<open>BitMap_set\<close> is the set of marked bits;
  each operation is shown to be the set operation it stands for, and \<^verbatim>\<open>Find\<close> to allocate the
  least free bit.
\<close>

definition BitsInByte :: int where "BitsInByte = 8"
definition BitsInWord :: int where "BitsInWord = 32"

record BitMap =
  numBits :: int
  numWords :: int
  bmap :: "32 word list"

text \<open>The bit \<^verbatim>\<open>1 << (which % BitsInWord)\<close> and the word \<^verbatim>\<open>map[which / BitsInWord]\<close>.\<close>

definition bit_mask :: "int \<Rightarrow> 32 word" where
  "bit_mask which = push_bit (nat (cmod which BitsInWord)) 1"

definition word_ix :: "int \<Rightarrow> nat" where
  "word_ix which = nat (cdiv which BitsInWord)"

section \<open>Operations\<close>

definition BitMap_Mark :: "int \<Rightarrow> BitMap \<Rightarrow> BitMap res" where
  "BitMap_Mark which b =
     andThen (ASSERT (which \<ge> 0 \<and> which < numBits b)) (\<lambda>_.
       Inr (b\<lparr>bmap := (bmap b)[word_ix which := (bmap b ! word_ix which) OR bit_mask which]\<rparr>))"

definition BitMap_Clear :: "int \<Rightarrow> BitMap \<Rightarrow> BitMap res" where
  "BitMap_Clear which b =
     andThen (ASSERT (which \<ge> 0 \<and> which < numBits b)) (\<lambda>_.
       Inr (b\<lparr>bmap := (bmap b)[word_ix which := (bmap b ! word_ix which) AND NOT (bit_mask which)]\<rparr>))"

definition BitMap_Test :: "int \<Rightarrow> BitMap \<Rightarrow> bool res" where
  "BitMap_Test which b =
     andThen (ASSERT (which \<ge> 0 \<and> which < numBits b)) (\<lambda>_.
       Inr ((bmap b ! word_ix which) AND bit_mask which \<noteq> 0))"

text \<open>
  The constructor: \<^verbatim>\<open>new unsigned int[numWords]\<close> leaves the words with whatever the memory
  held (\<open>junk\<close>), and the loop clears the bits one by one.
\<close>

fun BitMap_clear_loop :: "nat \<Rightarrow> int \<Rightarrow> BitMap \<Rightarrow> BitMap res" where
  "BitMap_clear_loop 0 i b = Inr b"
| "BitMap_clear_loop (Suc n) i b = andThen (BitMap_Clear i b) (BitMap_clear_loop n (i + 1))"

definition BitMap_new :: "int \<Rightarrow> (nat \<Rightarrow> 32 word) \<Rightarrow> BitMap res" where
  "BitMap_new nitems junk =
     (let nw = divRoundUp nitems BitsInWord;
          b = \<lparr>numBits = nitems, numWords = nw, bmap = map junk [0..<nat nw]\<rparr>
      in BitMap_clear_loop (nat (numBits b)) 0 b)"

function BitMap_Find_loop :: "int \<Rightarrow> BitMap \<Rightarrow> (int \<times> BitMap) res" where
  "BitMap_Find_loop i b =
     (if i < numBits b then
        andThen (BitMap_Test i b) (\<lambda>t.
          if \<not> t then andThen (BitMap_Mark i b) (\<lambda>b'. Inr (i, b'))
          else BitMap_Find_loop (i + 1) b)
      else Inr (- 1, b))"
  by pat_completeness auto
termination
  by (relation "measure (\<lambda>(i, b). nat (numBits b - i))") auto

definition BitMap_Find :: "BitMap \<Rightarrow> (int \<times> BitMap) res" where
  "BitMap_Find b = BitMap_Find_loop 0 b"

function BitMap_NumClear_loop :: "int \<Rightarrow> int \<Rightarrow> BitMap \<Rightarrow> int res" where
  "BitMap_NumClear_loop i count b =
     (if i < numBits b then
        andThen (BitMap_Test i b) (\<lambda>t.
          BitMap_NumClear_loop (i + 1) (if \<not> t then count + 1 else count) b)
      else Inr count)"
  by pat_completeness auto
termination
  by (relation "measure (\<lambda>(i, count, b). nat (numBits b - i))") auto

definition BitMap_NumClear :: "BitMap \<Rightarrow> int res" where
  "BitMap_NumClear b = BitMap_NumClear_loop 0 0 b"

text \<open>\<^verbatim>\<open>Print\<close> writes the numbers of the set bits in increasing order.\<close>

function BitMap_Print_loop :: "int \<Rightarrow> BitMap \<Rightarrow> int list res" where
  "BitMap_Print_loop i b =
     (if i < numBits b then
        andThen (BitMap_Test i b) (\<lambda>t.
        andThen (BitMap_Print_loop (i + 1) b) (\<lambda>out. Inr (if t then i # out else out)))
      else Inr [])"
  by pat_completeness auto
termination
  by (relation "measure (\<lambda>(i, b). nat (numBits b - i))") auto

definition BitMap_Print :: "BitMap \<Rightarrow> int list res" where
  "BitMap_Print b = BitMap_Print_loop 0 b"

declare BitMap_Find_loop.simps [simp del] BitMap_NumClear_loop.simps [simp del]
  BitMap_Print_loop.simps [simp del]

section \<open>The set of marked bits\<close>

definition BitMap_ok :: "BitMap \<Rightarrow> bool" where
  "BitMap_ok b \<longleftrightarrow> 0 \<le> numBits b \<and> numWords b = divRoundUp (numBits b) BitsInWord \<and>
     int (length (bmap b)) = numWords b"

definition BitMap_set :: "BitMap \<Rightarrow> int set" where
  "BitMap_set b = {i. 0 \<le> i \<and> i < numBits b \<and> bit (bmap b ! nat (i div 32)) (nat (i mod 32))}"

lemma word_ix_eq: "0 \<le> i \<Longrightarrow> word_ix i = nat (i div 32)"
  by (simp add: word_ix_def BitsInWord_def)

lemma bit_mask_eq: "0 \<le> i \<Longrightarrow> bit_mask i = push_bit (nat (i mod 32)) 1"
  by (simp add: bit_mask_def BitsInWord_def)

lemma mod32_less: "nat (i mod 32) < (32::nat)"
  using pos_mod_bound [of 32 i] by (simp add: nat_less_iff)

lemma word_ix_in_range:
  assumes "BitMap_ok b" "0 \<le> i" "i < numBits b"
  shows "word_ix i < length (bmap b)"
proof -
  have "i < divRoundUp (numBits b) 32 * 32"
    using divRoundUp_bounds(1) [of "numBits b" 32] assms by simp
  then have "i div 32 < divRoundUp (numBits b) 32" by simp
  then have "i div 32 < int (length (bmap b))"
    using assms(1) by (simp add: BitMap_ok_def BitsInWord_def)
  then show ?thesis using assms(2) by (simp add: word_ix_eq nat_less_iff)
qed

lemma bit_bit_mask:
  "0 \<le> i \<Longrightarrow> n < 32 \<Longrightarrow> bit (bit_mask i) n \<longleftrightarrow> n = nat (i mod 32)"
  using mod32_less [of i] by (auto simp: bit_mask_eq bit_exp_iff)

lemma and_bit_mask: "0 \<le> i \<Longrightarrow> w AND bit_mask i \<noteq> 0 \<longleftrightarrow> bit w (nat (i mod 32))" for w :: "32 word"
proof -
  assume i: "0 \<le> i"
  have "w AND bit_mask i = 0 \<longleftrightarrow> (\<forall>n < 32. \<not> (bit w n \<and> bit (bit_mask i) n))"
    by (auto simp: bit_eq_iff bit_and_iff dest: bit_imp_le_length)
  also have "\<dots> \<longleftrightarrow> \<not> bit w (nat (i mod 32))"
    using i mod32_less [of i] by (auto simp: bit_bit_mask)
  finally show ?thesis by simp
qed

lemma same_bit: "0 \<le> i \<Longrightarrow> 0 \<le> j \<Longrightarrow> i div 32 = j div 32 \<Longrightarrow> nat (i mod 32) = nat (j mod 32) \<Longrightarrow> i = j"
  for i j :: int
  by (metis div_mult_mod_eq eq_nat_nat_iff pos_mod_sign zero_less_numeral)

lemma mask_hits:
  assumes "0 \<le> i" "0 \<le> j" "j div 32 = i div 32"
  shows "bit (bit_mask i) (nat (j mod 32)) \<longleftrightarrow> j = i"
  unfolding bit_bit_mask [OF assms(1) mod32_less] using same_bit [OF assms(2,1,3)] by blast

lemma nth_word_upd:
  assumes "word_ix i < length ws" "0 \<le> i" "0 \<le> j"
  shows "ws[word_ix i := w] ! nat (j div 32) = (if j div 32 = i div 32 then w else ws ! nat (j div 32))"
proof (cases "j div 32 = i div 32")
  case True
  with assms show ?thesis by (simp add: word_ix_eq)
next
  case False
  then have "nat (i div 32) \<noteq> nat (j div 32)"
    using assms pos_imp_zdiv_nonneg_iff [of 32 i] pos_imp_zdiv_nonneg_iff [of 32 j] by arith
  with False assms(2) show ?thesis by (simp add: word_ix_eq)
qed

lemma BitMap_Mark_set:
  assumes "BitMap_ok b" "0 \<le> i" "i < numBits b"
  shows "\<exists>b'. BitMap_Mark i b = Inr b' \<and> BitMap_ok b' \<and> numBits b' = numBits b \<and>
    BitMap_set b' = insert i (BitMap_set b)"
proof -
  let ?b' = "b\<lparr>bmap := (bmap b)[word_ix i := (bmap b ! word_ix i) OR bit_mask i]\<rparr>"
  have "bit (bmap ?b' ! nat (j div 32)) (nat (j mod 32)) \<longleftrightarrow>
      j = i \<or> bit (bmap b ! nat (j div 32)) (nat (j mod 32))"
    if j: "0 \<le> j" for j
  proof (cases "j div 32 = i div 32")
    case True
    then have "bmap ?b' ! nat (j div 32) = (bmap b ! nat (j div 32)) OR bit_mask i"
      using word_ix_in_range [OF assms] by (simp add: word_ix_eq assms(2))
    then show ?thesis
      using mask_hits [OF assms(2) j True] mod32_less [of j] by (simp only: bit_or_iff) auto
  next
    case False
    then have "bmap ?b' ! nat (j div 32) = bmap b ! nat (j div 32)"
      by (simp add: nth_word_upd [OF word_ix_in_range [OF assms] assms(2) j])
    then show ?thesis using False by auto
  qed
  then have "BitMap_set ?b' = insert i (BitMap_set b)"
    using assms(2,3) by (auto simp: BitMap_set_def)
  moreover have "BitMap_ok ?b'" using assms(1) by (simp add: BitMap_ok_def)
  ultimately show ?thesis using assms(2,3) by (simp add: BitMap_Mark_def)
qed

lemma BitMap_Clear_set:
  assumes "BitMap_ok b" "0 \<le> i" "i < numBits b"
  shows "\<exists>b'. BitMap_Clear i b = Inr b' \<and> BitMap_ok b' \<and> numBits b' = numBits b \<and>
    BitMap_set b' = BitMap_set b - {i}"
proof -
  let ?b' = "b\<lparr>bmap := (bmap b)[word_ix i := (bmap b ! word_ix i) AND NOT (bit_mask i)]\<rparr>"
  have "bit (bmap ?b' ! nat (j div 32)) (nat (j mod 32)) \<longleftrightarrow>
      j \<noteq> i \<and> bit (bmap b ! nat (j div 32)) (nat (j mod 32))"
    if j: "0 \<le> j" for j
  proof (cases "j div 32 = i div 32")
    case True
    then have "bmap ?b' ! nat (j div 32) = (bmap b ! nat (j div 32)) AND NOT (bit_mask i)"
      using word_ix_in_range [OF assms] by (simp add: word_ix_eq assms(2))
    then show ?thesis
      using mask_hits [OF assms(2) j True] mod32_less [of j] by (simp only: bit_and_iff bit_not_iff) auto
  next
    case False
    then have "bmap ?b' ! nat (j div 32) = bmap b ! nat (j div 32)"
      by (simp add: nth_word_upd [OF word_ix_in_range [OF assms] assms(2) j])
    then show ?thesis using False by auto
  qed
  then have "BitMap_set ?b' = BitMap_set b - {i}"
    using assms(2,3) by (auto simp: BitMap_set_def)
  moreover have "BitMap_ok ?b'" using assms(1) by (simp add: BitMap_ok_def)
  ultimately show ?thesis using assms(2,3) by (simp add: BitMap_Clear_def)
qed

lemma BitMap_Test_set:
  "0 \<le> i \<Longrightarrow> i < numBits b \<Longrightarrow> BitMap_Test i b = Inr (i \<in> BitMap_set b)"
  by (simp add: BitMap_Test_def BitMap_set_def and_bit_mask) (simp add: word_ix_eq)

lemma BitMap_set_subset: "BitMap_set b \<subseteq> {0..<numBits b}"
  by (auto simp: BitMap_set_def)


section \<open>The loops\<close>

lemma BitMap_clear_loop_set:
  assumes "BitMap_ok b" "0 \<le> i" "i + int n \<le> numBits b"
  shows "\<exists>b'. BitMap_clear_loop n i b = Inr b' \<and> BitMap_ok b' \<and> numBits b' = numBits b \<and>
    BitMap_set b' = BitMap_set b - {i..<i + int n}"
  using assms
proof (induction n arbitrary: i b)
  case 0
  then show ?case by simp
next
  case (Suc n)
  obtain b1 where b1: "BitMap_Clear i b = Inr b1" "BitMap_ok b1" "numBits b1 = numBits b"
    "BitMap_set b1 = BitMap_set b - {i}"
    using BitMap_Clear_set [of b i] Suc.prems by auto
  have "\<exists>b'. BitMap_clear_loop n (i + 1) b1 = Inr b' \<and> BitMap_ok b' \<and> numBits b' = numBits b1 \<and>
    BitMap_set b' = BitMap_set b1 - {i + 1..<i + 1 + int n}"
    using Suc.prems b1 by (intro Suc.IH) auto
  then obtain b2 where b2: "BitMap_clear_loop n (i + 1) b1 = Inr b2" "BitMap_ok b2"
    "numBits b2 = numBits b" "BitMap_set b2 = BitMap_set b1 - {i + 1..<i + 1 + int n}"
    using b1(3) by auto
  have "{i..<i + int (Suc n)} = insert i {i + 1..<i + 1 + int n}" by auto
  then have "BitMap_set b2 = BitMap_set b - {i..<i + int (Suc n)}"
    unfolding b2(4) b1(4) by blast
  then show ?case using b1(1) b2 by auto
qed

lemma BitMap_Find_loop_set:
  assumes "BitMap_ok b" "0 \<le> i"
  shows "(if {i..<numBits b} \<subseteq> BitMap_set b then BitMap_Find_loop i b = Inr (- 1, b)
    else \<exists>j b'. BitMap_Find_loop i b = Inr (j, b') \<and> i \<le> j \<and> j < numBits b \<and> j \<notin> BitMap_set b \<and>
      {i..<j} \<subseteq> BitMap_set b \<and> BitMap_ok b' \<and> numBits b' = numBits b \<and>
      BitMap_set b' = insert j (BitMap_set b))"
  using assms
proof (induction i b rule: BitMap_Find_loop.induct)
  case (1 i b)
  note simps = BitMap_Find_loop.simps [of i b]
  show ?case
  proof (cases "i < numBits b")
    case False
    then show ?thesis by (simp add: simps)
  next
    case True
    note T = BitMap_Test_set [OF "1.prems"(2) True]
    show ?thesis
    proof (cases "i \<in> BitMap_set b")
      case False
      obtain b' where b': "BitMap_Mark i b = Inr b'" "BitMap_ok b'" "numBits b' = numBits b"
        "BitMap_set b' = insert i (BitMap_set b)"
        using BitMap_Mark_set [OF "1.prems" True] by blast
      have "BitMap_Find_loop i b = Inr (i, b')"
        unfolding simps using False T True b'(1) by simp
      moreover have "\<not> {i..<numBits b} \<subseteq> BitMap_set b" using False True by auto
      ultimately show ?thesis using b' False True by auto
    next
      case mem: True
      have step: "BitMap_Find_loop i b = BitMap_Find_loop (i + 1) b"
        unfolding simps using mem T True by simp
      have sub: "{i..<n} \<subseteq> BitMap_set b \<longleftrightarrow> {i + 1..<n} \<subseteq> BitMap_set b" for n
        using mem by (auto simp: subset_iff) (metis add1_zle_eq order_le_less)
      have "0 \<le> i + 1" using "1.prems" by simp
      note IH = "1.IH" [OF True T _ "1.prems"(1) this]
      show ?thesis
        using IH mem unfolding step sub by (auto split: if_splits)
    qed
  qed
qed

lemma BitMap_NumClear_loop_card:
  assumes "0 \<le> i"
  shows "BitMap_NumClear_loop i count b = Inr (count + int (card ({i..<numBits b} - BitMap_set b)))"
  using assms
proof (induction i count b rule: BitMap_NumClear_loop.induct)
  case (1 i count b)
  note simps = BitMap_NumClear_loop.simps [of i count b]
  show ?case
  proof (cases "i < numBits b")
    case False
    then show ?thesis by (simp add: simps)
  next
    case True
    note T = BitMap_Test_set [OF "1.prems" True]
    have split: "{i..<numBits b} = insert i {i + 1..<numBits b}" using True by auto
    let ?rest = "{i + 1..<numBits b} - BitMap_set b"
    have card: "card ({i..<numBits b} - BitMap_set b) =
        (if i \<in> BitMap_set b then card ?rest else Suc (card ?rest))"
      unfolding split by (simp add: insert_Diff_if)
    have "0 \<le> i + 1" using "1.prems" by simp
    note IH = "1.IH" [OF True T this]
    show ?thesis
      unfolding card simps using True T IH by simp
  qed
qed


section \<open>The allocator interface\<close>

text \<open>
  What the clients of the bitmap (file headers, the file system, the open-file table) rely on:
  a finite universe of slots, a set of slots in use, an operation that takes the least free slot,
  operations that mark, free and test one slot, and a count of the free ones.
\<close>

locale slot_allocator =
  fixes ok :: "'b \<Rightarrow> bool" and size_of :: "'b \<Rightarrow> int" and used :: "'b \<Rightarrow> int set"
    and mark :: "int \<Rightarrow> 'b \<Rightarrow> 'b res" and clear :: "int \<Rightarrow> 'b \<Rightarrow> 'b res" and test :: "int \<Rightarrow> 'b \<Rightarrow> bool res"
    and find :: "'b \<Rightarrow> (int \<times> 'b) res" and num_clear :: "'b \<Rightarrow> int res"
  assumes used_range: "used b \<subseteq> {0..<size_of b}"
    and mark_used: "ok b \<Longrightarrow> 0 \<le> i \<Longrightarrow> i < size_of b \<Longrightarrow>
      \<exists>b'. mark i b = Inr b' \<and> ok b' \<and> size_of b' = size_of b \<and> used b' = insert i (used b)"
    and clear_used: "ok b \<Longrightarrow> 0 \<le> i \<Longrightarrow> i < size_of b \<Longrightarrow>
      \<exists>b'. clear i b = Inr b' \<and> ok b' \<and> size_of b' = size_of b \<and> used b' = used b - {i}"
    and test_used: "0 \<le> i \<Longrightarrow> i < size_of b \<Longrightarrow> test i b = Inr (i \<in> used b)"
    and find_full: "ok b \<Longrightarrow> {0..<size_of b} \<subseteq> used b \<Longrightarrow> find b = Inr (- 1, b)"
    and find_free: "ok b \<Longrightarrow> \<not> {0..<size_of b} \<subseteq> used b \<Longrightarrow>
      \<exists>j b'. find b = Inr (j, b') \<and> 0 \<le> j \<and> j < size_of b \<and> j \<notin> used b \<and> {0..<j} \<subseteq> used b \<and>
        ok b' \<and> size_of b' = size_of b \<and> used b' = insert j (used b)"
    and num_clear_card: "num_clear b = Inr (int (card ({0..<size_of b} - used b)))"
begin

lemma num_clear_pos_iff:
  "num_clear b = Inr 0 \<longleftrightarrow> {0..<size_of b} \<subseteq> used b"
  by (auto simp: num_clear_card)

lemma find_takes_one:
  assumes "ok b" "num_clear b = Inr n" "0 < n"
  shows "\<exists>j b'. find b = Inr (j, b') \<and> 0 \<le> j \<and> j < size_of b \<and> j \<notin> used b \<and> {0..<j} \<subseteq> used b \<and>
    ok b' \<and> size_of b' = size_of b \<and> used b' = insert j (used b) \<and> num_clear b' = Inr (n - 1)"
proof -
  have free: "\<not> {0..<size_of b} \<subseteq> used b"
    using assms(2,3) num_clear_pos_iff [of b] by auto
  obtain j b' where j: "find b = Inr (j, b')" "0 \<le> j" "j < size_of b" "j \<notin> used b"
    "{0..<j} \<subseteq> used b" "ok b'" "size_of b' = size_of b" "used b' = insert j (used b)"
    using find_free [OF assms(1) free] by blast
  have "{0..<size_of b'} - used b' = ({0..<size_of b} - used b) - {j}" using j(7,8) by auto
  then have "num_clear b' = Inr (int (card ({0..<size_of b} - used b) - 1))"
    using j(2,3,4) by (simp add: num_clear_card)
  moreover have "n = int (card ({0..<size_of b} - used b))"
    using assms(2) by (simp add: num_clear_card)
  ultimately have "num_clear b' = Inr (n - 1)" using assms(3) by (simp add: of_nat_diff)
  then show ?thesis using j by blast
qed

lemma clear_undoes_find:
  assumes "ok b" "find b = Inr (j, b')" "j \<noteq> - 1"
  shows "\<exists>b''. clear j b' = Inr b'' \<and> ok b'' \<and> size_of b'' = size_of b \<and> used b'' = used b"
proof -
  have "\<not> {0..<size_of b} \<subseteq> used b" using assms find_full by fastforce
  then have j: "0 \<le> j" "j < size_of b" "j \<notin> used b" "ok b'" "size_of b' = size_of b"
    "used b' = insert j (used b)"
    using find_free [OF assms(1)] assms(2) by auto
  then show ?thesis using clear_used [of b' j] by auto
qed

end

interpretation bitmap: slot_allocator BitMap_ok numBits BitMap_set
  BitMap_Mark BitMap_Clear BitMap_Test BitMap_Find BitMap_NumClear
proof unfold_locales
  show "BitMap_set b \<subseteq> {0..<numBits b}" for b by (rule BitMap_set_subset)
  show "BitMap_Find b = Inr (- 1, b)" if "BitMap_ok b" "{0..<numBits b} \<subseteq> BitMap_set b" for b
    using BitMap_Find_loop_set [OF that(1), of 0] that(2) by (simp add: BitMap_Find_def)
  show "\<exists>j b'. BitMap_Find b = Inr (j, b') \<and> 0 \<le> j \<and> j < numBits b \<and> j \<notin> BitMap_set b \<and>
      {0..<j} \<subseteq> BitMap_set b \<and> BitMap_ok b' \<and> numBits b' = numBits b \<and>
      BitMap_set b' = insert j (BitMap_set b)"
    if "BitMap_ok b" "\<not> {0..<numBits b} \<subseteq> BitMap_set b" for b
    using BitMap_Find_loop_set [OF that(1), of 0] that(2) by (simp add: BitMap_Find_def)
  show "BitMap_NumClear b = Inr (int (card ({0..<numBits b} - BitMap_set b)))" for b
    using BitMap_NumClear_loop_card [of 0 0 b] by (simp add: BitMap_NumClear_def)
qed (fact BitMap_Mark_set BitMap_Clear_set BitMap_Test_set)+

section \<open>Properties\<close>

lemma BitMap_new_set:
  assumes "0 \<le> nitems"
  shows "\<exists>b. BitMap_new nitems junk = Inr b \<and> BitMap_ok b \<and> numBits b = nitems \<and> BitMap_set b = {}"
proof -
  let ?b = "\<lparr>numBits = nitems, numWords = divRoundUp nitems BitsInWord,
             bmap = map junk [0..<nat (divRoundUp nitems BitsInWord)]\<rparr>"
  have "0 \<le> divRoundUp nitems 32" using assms by (simp add: divRoundUp_def)
  then have "BitMap_ok ?b" using assms by (simp add: BitMap_ok_def BitsInWord_def)
  then have "\<exists>b'. BitMap_clear_loop (nat nitems) 0 ?b = Inr b' \<and> BitMap_ok b' \<and> numBits b' = numBits ?b \<and>
    BitMap_set b' = BitMap_set ?b - {0..<0 + int (nat nitems)}"
    using assms by (intro BitMap_clear_loop_set) auto
  then show ?thesis using assms BitMap_set_subset [of ?b] by (auto simp: BitMap_new_def Let_def)
qed

text \<open>
  The constructor succeeds for every non-negative size, whatever the freshly
  allocated words held, and yields a well-formed map with every bit clear.
\<close>

theorem BitMap_new_empty:
  assumes "0 \<le> nitems"
  shows "\<exists>b. BitMap_new nitems junk = Inr b \<and> BitMap_ok b \<and> numBits b = nitems \<and> BitMap_set b = {}"
  by (rule BitMap_new_set [OF assms])

theorem BitMap_new_empty_witness:
  "\<exists>b. BitMap_new 40 (\<lambda>_. 255) = Inr b \<and> BitMap_ok b \<and> numBits b = 40 \<and> BitMap_set b = {}"
  using BitMap_new_empty [of 40 "\<lambda>_. 255"] by simp

text \<open>
  \<^verbatim>\<open>Find\<close> allocates: when some bit is clear it returns the least clear bit and marks
  exactly that bit; when none is, it returns -1 and changes nothing.
\<close>

theorem BitMap_Find_allocates:
  assumes "BitMap_ok b"
  shows "BitMap_Find b = Inr (- 1, b) \<and> {0..<numBits b} \<subseteq> BitMap_set b \<or>
    (\<exists>j b'. BitMap_Find b = Inr (j, b') \<and> 0 \<le> j \<and> j < numBits b \<and> j \<notin> BitMap_set b \<and>
       (\<forall>i. 0 \<le> i \<longrightarrow> i < j \<longrightarrow> i \<in> BitMap_set b) \<and>
       BitMap_ok b' \<and> numBits b' = numBits b \<and> BitMap_set b' = insert j (BitMap_set b))"
proof (cases "{0..<numBits b} \<subseteq> BitMap_set b")
  case True
  then show ?thesis using bitmap.find_full [OF assms] by simp
next
  case False
  from bitmap.find_free [OF assms this] show ?thesis by (simp add: subset_iff) blast
qed

theorem BitMap_Find_allocates_witness:
  "\<exists>b'. BitMap_Find \<lparr>numBits = 40, numWords = 2, bmap = [3, 0]\<rparr> = Inr (2, b')"
proof -
  let ?b = "\<lparr>numBits = 40, numWords = 2, bmap = [3, 0]\<rparr>"
  have ok: "BitMap_ok ?b" by (simp add: BitMap_ok_def BitsInWord_def divRoundUp_def)
  have m: "0 \<in> BitMap_set ?b" "1 \<in> BitMap_set ?b" "2 \<notin> BitMap_set ?b"
    by (simp_all add: BitMap_set_def)
  have "(2::int) \<in> {0..<numBits ?b}" by simp
  with m(3) have "\<not> {0..<numBits ?b} \<subseteq> BitMap_set ?b" by blast
  with BitMap_Find_allocates [OF ok] obtain j b' where
    j: "BitMap_Find ?b = Inr (j, b')" "0 \<le> j" "j \<notin> BitMap_set ?b"
       "\<forall>i. 0 \<le> i \<longrightarrow> i < j \<longrightarrow> i \<in> BitMap_set ?b"
    by blast
  have "j = 2"
  proof -
    have "\<not> 2 < j" using j(4) m(3) by auto
    moreover have "j \<noteq> 0" "j \<noteq> 1" using j(3) m by auto
    ultimately show ?thesis using j(2) by linarith
  qed
  with j(1) show ?thesis by blast
qed

text \<open>
  Freeing the bit \<^verbatim>\<open>Find\<close> has just allocated restores the set of allocated bits.
\<close>

theorem BitMap_Clear_undoes_Find:
  assumes "BitMap_ok b" "BitMap_Find b = Inr (j, b')" "j \<noteq> - 1"
  shows "\<exists>b''. BitMap_Clear j b' = Inr b'' \<and> BitMap_ok b'' \<and> BitMap_set b'' = BitMap_set b"
  using bitmap.clear_undoes_find [OF assms] by blast

theorem BitMap_Clear_undoes_Find_witness:
  "\<exists>b''. BitMap_Clear 0 \<lparr>numBits = 8, numWords = 1, bmap = [1]\<rparr> = Inr b'' \<and> BitMap_ok b'' \<and>
     BitMap_set b'' = BitMap_set \<lparr>numBits = 8, numWords = 1, bmap = [0]\<rparr>"
proof -
  have "BitMap_ok \<lparr>numBits = 8, numWords = 1, bmap = [0]\<rparr>"
    by (simp add: BitMap_ok_def BitsInWord_def divRoundUp_def)
  moreover have "BitMap_Find \<lparr>numBits = 8, numWords = 1, bmap = [0]\<rparr> =
      Inr (0, \<lparr>numBits = 8, numWords = 1, bmap = [1]\<rparr>)"
    by (simp add: BitMap_Find_def BitMap_Find_loop.simps BitMap_Test_def BitMap_Mark_def
        word_ix_def bit_mask_def BitsInWord_def)
  ultimately show ?thesis using BitMap_Clear_undoes_Find by simp
qed

text \<open>\<^verbatim>\<open>NumClear\<close> counts the bits that are not marked.\<close>

lemma BitMap_NumClear_card: "BitMap_NumClear b = Inr (int (card ({0..<numBits b} - BitMap_set b)))"
  by (rule bitmap.num_clear_card)

end
