(* ===== verification/Nachos_OpenFile.thy ===== *)
theory Nachos_OpenFile
  imports Nachos_SynchDisk Nachos_Bitmap
begin

text \<open>
  \<^verbatim>\<open>filesys/filehdr.cc\<close>, \<^verbatim>\<open>filesys/openfile.cc\<close> and their headers: the file header (the i-node, one
  sector of 32 \<^verbatim>\<open>int\<close>s) and byte-wise reading and writing of an open file on top of whole sectors. The
  operations take the two operations of \<^verbatim>\<open>synchDisk\<close> as arguments \<open>rd\<close> and \<open>wr\<close>; the lemmas about them
  are proved from the laws of \<open>sector_store\<close>. \<open>junk\<close> is the content of freshly allocated memory. An
  access outside an array and a signed overflow are \<open>Undefined\<close>.
\<close>

section \<open>The file header\<close>

record FileHeader =
  fh_numBytes :: int
  fh_numSectors :: int
  dataSectors :: "int list"

definition NumDirect :: int where "NumDirect = (SectorSize - 2 * 4) div 4"
definition MaxFileSize :: int where "MaxFileSize = NumDirect * SectorSize"

definition FileLength :: "FileHeader \<Rightarrow> int" where
  "FileLength hdr = fh_numBytes hdr"

definition ByteToSector :: "int \<Rightarrow> FileHeader \<Rightarrow> int res" where
  "ByteToSector offset hdr =
     (let i = cdiv offset SectorSize in
      if 0 \<le> i \<and> i < int (length (dataSectors hdr)) then Inr (dataSectors hdr ! nat i) else Inl Undefined)"

fun Allocate_loop :: "nat \<Rightarrow> nat \<Rightarrow> FileHeader \<Rightarrow> BitMap \<Rightarrow> (FileHeader \<times> BitMap) res" where
  "Allocate_loop 0 i hdr freeMap = Inr (hdr, freeMap)"
| "Allocate_loop (Suc n) i hdr freeMap =
     andThen (BitMap_Find freeMap) (\<lambda>(s, freeMap').
       if i < length (dataSectors hdr)
       then Allocate_loop n (i + 1) (hdr\<lparr>dataSectors := (dataSectors hdr)[i := s]\<rparr>) freeMap'
       else Inl Undefined)"

definition FileHeader_Allocate :: "int \<Rightarrow> FileHeader \<Rightarrow> BitMap \<Rightarrow> (bool \<times> FileHeader \<times> BitMap) res" where
  "FileHeader_Allocate fileSize hdr freeMap =
     (let hdr1 = hdr\<lparr>fh_numBytes := fileSize, fh_numSectors := divRoundUp fileSize SectorSize\<rparr> in
      andThen (BitMap_NumClear freeMap) (\<lambda>n.
        if n < fh_numSectors hdr1 then Inr (False, hdr1, freeMap)
        else andThen (Allocate_loop (nat (fh_numSectors hdr1)) 0 hdr1 freeMap) (\<lambda>(hdr2, freeMap').
               Inr (True, hdr2, freeMap'))))"

fun Deallocate_loop :: "nat \<Rightarrow> nat \<Rightarrow> FileHeader \<Rightarrow> BitMap \<Rightarrow> BitMap res" where
  "Deallocate_loop 0 i hdr freeMap = Inr freeMap"
| "Deallocate_loop (Suc n) i hdr freeMap =
     (if i < length (dataSectors hdr) then
        andThen (BitMap_Test (dataSectors hdr ! i) freeMap) (\<lambda>marked.
        andThen (ASSERT marked) (\<lambda>_.
        andThen (BitMap_Clear (dataSectors hdr ! i) freeMap) (Deallocate_loop n (i + 1) hdr)))
      else Inl Undefined)"

definition FileHeader_Deallocate :: "FileHeader \<Rightarrow> BitMap \<Rightarrow> BitMap res" where
  "FileHeader_Deallocate hdr freeMap = Deallocate_loop (nat (fh_numSectors hdr)) 0 hdr freeMap"

text \<open>The object in memory is 32 consecutive \<^verbatim>\<open>int\<close>s in the byte order of the host.\<close>

definition ints_bytes :: "bool \<Rightarrow> int list \<Rightarrow> 8 word list" where
  "ints_bytes big is = concat (map (\<lambda>i. word_bytes big (word_of_int i)) is)"

definition int_at :: "bool \<Rightarrow> 8 word list \<Rightarrow> nat \<Rightarrow> int" where
  "int_at big bs i = sint (bytes_word big (drop (4 * i) bs))"

definition FileHeader_bytes :: "bool \<Rightarrow> FileHeader \<Rightarrow> 8 word list" where
  "FileHeader_bytes big hdr = ints_bytes big (fh_numBytes hdr # fh_numSectors hdr # dataSectors hdr)"

definition FileHeader_of_bytes :: "bool \<Rightarrow> 8 word list \<Rightarrow> FileHeader" where
  "FileHeader_of_bytes big bs =
     \<lparr>fh_numBytes = int_at big bs 0, fh_numSectors = int_at big bs 1,
      dataSectors = map (int_at big bs) [2..<2 + nat NumDirect]\<rparr>"

definition FileHeader_FetchFrom ::
    "(int \<Rightarrow> 'd \<Rightarrow> (8 word list \<times> 'd) res) \<Rightarrow> bool \<Rightarrow> int \<Rightarrow> 'd \<Rightarrow> (FileHeader \<times> 'd) res" where
  "FileHeader_FetchFrom rd big sector d =
     andThen (rd sector d) (\<lambda>(bs, d'). Inr (FileHeader_of_bytes big bs, d'))"

definition FileHeader_WriteBack ::
    "(int \<Rightarrow> 8 word list \<Rightarrow> 'd \<Rightarrow> 'd res) \<Rightarrow> bool \<Rightarrow> int \<Rightarrow> FileHeader \<Rightarrow> 'd \<Rightarrow> 'd res" where
  "FileHeader_WriteBack wr big sector hdr d = wr sector (FileHeader_bytes big hdr) d"

section \<open>Open files\<close>

record OpenFile =
  of_hdr :: FileHeader
  seekPosition :: int

definition OpenFile_new ::
    "(int \<Rightarrow> 'd \<Rightarrow> (8 word list \<times> 'd) res) \<Rightarrow> bool \<Rightarrow> int \<Rightarrow> 'd \<Rightarrow> (OpenFile \<times> 'd) res" where
  "OpenFile_new rd big sector d =
     andThen (FileHeader_FetchFrom rd big sector d) (\<lambda>(h, d'). Inr (\<lparr>of_hdr = h, seekPosition = 0\<rparr>, d'))"

definition Seek :: "int \<Rightarrow> OpenFile \<Rightarrow> OpenFile" where
  "Seek position f = f\<lparr>seekPosition := position\<rparr>"

definition OpenFile_Length :: "OpenFile \<Rightarrow> int" where
  "OpenFile_Length f = FileLength (of_hdr f)"

definition int_add :: "int \<Rightarrow> int \<Rightarrow> int res" where
  "int_add a b = (if - (2 ^ 31) \<le> a + b \<and> a + b < 2 ^ 31 then Inr (a + b) else Inl Undefined)"

text \<open>\<^verbatim>\<open>bcopy\<close> out of and into a buffer.\<close>

definition copy_out :: "8 word list \<Rightarrow> int \<Rightarrow> int \<Rightarrow> 8 word list res" where
  "copy_out buf off n =
     (if 0 \<le> off \<and> 0 \<le> n \<and> off + n \<le> int (length buf) then Inr (take (nat n) (drop (nat off) buf)) else Inl Undefined)"

definition copy_in :: "8 word list \<Rightarrow> int \<Rightarrow> 8 word list \<Rightarrow> 8 word list res" where
  "copy_in buf off bs =
     (if 0 \<le> off \<and> off + int (length bs) \<le> int (length buf)
      then Inr (take (nat off) buf @ bs @ drop (nat off + length bs) buf) else Inl Undefined)"

text \<open>The loops over the sectors \<open>i\<close>, \<open>i + 1\<close>, \dots of the file.\<close>

fun read_sectors ::
    "(int \<Rightarrow> 'd \<Rightarrow> (8 word list \<times> 'd) res) \<Rightarrow> FileHeader \<Rightarrow> nat \<Rightarrow> int \<Rightarrow> 'd \<Rightarrow> (8 word list \<times> 'd) res" where
  "read_sectors rd h 0 i d = Inr ([], d)"
| "read_sectors rd h (Suc n) i d =
     andThen (ByteToSector (i * SectorSize) h) (\<lambda>s.
     andThen (rd s d) (\<lambda>(bs, d1).
     andThen (read_sectors rd h n (i + 1) d1) (\<lambda>(rest, d2). Inr (bs @ rest, d2))))"

fun write_sectors ::
    "(int \<Rightarrow> 8 word list \<Rightarrow> 'd \<Rightarrow> 'd res) \<Rightarrow> FileHeader \<Rightarrow> nat \<Rightarrow> int \<Rightarrow> 8 word list \<Rightarrow> 'd \<Rightarrow> 'd res" where
  "write_sectors wr h 0 i buf d = Inr d"
| "write_sectors wr h (Suc n) i buf d =
     andThen (ByteToSector (i * SectorSize) h) (\<lambda>s.
     andThen (wr s (take (nat SectorSize) buf) d) (write_sectors wr h n (i + 1) (drop (nat SectorSize) buf)))"

text \<open>\<^verbatim>\<open>ReadAt\<close> returns the bytes it stores at \<^verbatim>\<open>into\<close>; their number is its result.\<close>

definition ReadAt ::
    "(int \<Rightarrow> 'd \<Rightarrow> (8 word list \<times> 'd) res) \<Rightarrow> OpenFile \<Rightarrow> int \<Rightarrow> int \<Rightarrow> 'd \<Rightarrow> (8 word list \<times> 'd) res" where
  "ReadAt rd f numBytes position d =
     (let fileLength = FileLength (of_hdr f) in
      if numBytes \<le> 0 \<or> position \<ge> fileLength then Inr ([], d)
      else
        andThen (int_add position numBytes) (\<lambda>end.
          let numBytes = (if end > fileLength then fileLength - position else numBytes);
              firstSector = divRoundDown position SectorSize;
              lastSector = divRoundDown (position + numBytes - 1) SectorSize;
              numSectors = 1 + lastSector - firstSector in
          andThen (read_sectors rd (of_hdr f) (nat numSectors) firstSector d) (\<lambda>(buf, d').
          andThen (copy_out buf (position - firstSector * SectorSize) numBytes) (\<lambda>bs. Inr (bs, d')))))"

definition WriteAt ::
    "(int \<Rightarrow> 'd \<Rightarrow> (8 word list \<times> 'd) res) \<Rightarrow> (int \<Rightarrow> 8 word list \<Rightarrow> 'd \<Rightarrow> 'd res) \<Rightarrow> (nat \<Rightarrow> 8 word) \<Rightarrow>
     OpenFile \<Rightarrow> 8 word list \<Rightarrow> int \<Rightarrow> int \<Rightarrow> 'd \<Rightarrow> (int \<times> 'd) res" where
  "WriteAt rd wr junk f from numBytes position d =
     (let fileLength = FileLength (of_hdr f) in
      if numBytes \<le> 0 \<or> position \<ge> fileLength then Inr (0, d)
      else
        andThen (int_add position numBytes) (\<lambda>end.
          let numBytes = (if end > fileLength then fileLength - position else numBytes);
              firstSector = divRoundDown position SectorSize;
              lastSector = divRoundDown (position + numBytes - 1) SectorSize;
              numSectors = 1 + lastSector - firstSector;
              buf = map junk [0..<nat (numSectors * SectorSize)];
              firstAligned = (position = firstSector * SectorSize);
              lastAligned = (position + numBytes = (lastSector + 1) * SectorSize) in
          andThen (if \<not> firstAligned then
                     andThen (ReadAt rd f SectorSize (firstSector * SectorSize) d) (\<lambda>(bs, d1).
                     andThen (copy_in buf 0 bs) (\<lambda>buf1. Inr (buf1, d1)))
                   else Inr (buf, d)) (\<lambda>(buf1, d1).
          andThen (if \<not> lastAligned \<and> (firstSector \<noteq> lastSector \<or> firstAligned) then
                     andThen (ReadAt rd f SectorSize (lastSector * SectorSize) d1) (\<lambda>(bs, d2).
                     andThen (copy_in buf1 ((lastSector - firstSector) * SectorSize) bs) (\<lambda>buf2. Inr (buf2, d2)))
                   else Inr (buf1, d1)) (\<lambda>(buf2, d2).
          andThen (copy_out from 0 numBytes) (\<lambda>bs.
          andThen (copy_in buf2 (position - firstSector * SectorSize) bs) (\<lambda>buf3.
          andThen (write_sectors wr (of_hdr f) (nat numSectors) firstSector buf3 d2) (\<lambda>d3.
            Inr (numBytes, d3)))))))) "

definition OpenFile_Read ::
    "(int \<Rightarrow> 'd \<Rightarrow> (8 word list \<times> 'd) res) \<Rightarrow> OpenFile \<Rightarrow> int \<Rightarrow> 'd \<Rightarrow> (8 word list \<times> OpenFile \<times> 'd) res" where
  "OpenFile_Read rd f numBytes d =
     andThen (ReadAt rd f numBytes (seekPosition f) d) (\<lambda>(bs, d').
       Inr (bs, f\<lparr>seekPosition := seekPosition f + int (length bs)\<rparr>, d'))"

definition OpenFile_Write ::
    "(int \<Rightarrow> 'd \<Rightarrow> (8 word list \<times> 'd) res) \<Rightarrow> (int \<Rightarrow> 8 word list \<Rightarrow> 'd \<Rightarrow> 'd res) \<Rightarrow> (nat \<Rightarrow> 8 word) \<Rightarrow>
     OpenFile \<Rightarrow> 8 word list \<Rightarrow> int \<Rightarrow> 'd \<Rightarrow> (int \<times> OpenFile \<times> 'd) res" where
  "OpenFile_Write rd wr junk f into numBytes d =
     andThen (WriteAt rd wr junk f into numBytes (seekPosition f) d) (\<lambda>(result, d').
       Inr (result, f\<lparr>seekPosition := seekPosition f + result\<rparr>, d'))"

section \<open>Blocks of equal length\<close>

lemma drop_blocks:
  "(\<And>x. x \<in> set xs \<Longrightarrow> length (f x) = k) \<Longrightarrow> drop (k * i) (concat (map f xs)) = concat (map f (drop i xs))"
proof (induction xs arbitrary: i)
  case (Cons x xs)
  then show ?case by (cases i) simp_all
qed simp

lemma take_blocks:
  "(\<And>x. x \<in> set xs \<Longrightarrow> length (f x) = k) \<Longrightarrow> take (k * i) (concat (map f xs)) = concat (map f (take i xs))"
proof (induction xs arbitrary: i)
  case (Cons x xs)
  then show ?case by (cases i) simp_all
qed simp

lemma length_blocks:
  "(\<And>x. x \<in> set xs \<Longrightarrow> length (f x) = k) \<Longrightarrow> length (concat (map f xs)) = k * length xs"
  by (induction xs) simp_all

lemma drop_block:
  assumes "\<And>x. x \<in> set xs \<Longrightarrow> length (f x) = k" "i < length xs"
  shows "drop (k * i) (concat (map f xs)) = f (xs ! i) @ drop (k * Suc i) (concat (map f xs))"
proof -
  have "drop (k * j) (concat (map f xs)) = concat (map f (drop j xs))" for j
    using assms(1) by (rule drop_blocks)
  then show ?thesis using Cons_nth_drop_Suc [OF assms(2), symmetric] by (simp del: mult_Suc_right)
qed

lemma nth_block:
  assumes "\<And>x. x \<in> set xs \<Longrightarrow> length (f x) = k" "i < length xs"
  shows "take k (drop (k * i) (concat (map f xs))) = f (xs ! i)"
  using assms by (simp add: drop_blocks flip: Cons_nth_drop_Suc)

lemma replace_block:
  assumes "\<And>x. x \<in> set xs \<Longrightarrow> length (f x) = k" "i < length xs" "distinct xs"
    and "\<And>x. x \<in> set xs \<Longrightarrow> f' x = (if x = xs ! i then b else f x)"
  shows "concat (map f' xs) = take (k * i) (concat (map f xs)) @ b @ drop (k * Suc i) (concat (map f xs))"
proof -
  note xs = id_take_nth_drop [OF assms(2)]
  have d: "xs ! i \<notin> set (take i xs)" "xs ! i \<notin> set (drop (Suc i) xs)"
    using assms(3) xs by (metis distinct_append disjoint_iff distinct.simps(2) list.set_intros(1))+
  have "map f' (take i xs) = map f (take i xs)" "map f' (drop (Suc i) xs) = map f (drop (Suc i) xs)"
    using d by (auto simp: assms(4) [OF in_set_takeD] assms(4) [OF in_set_dropD])
  moreover have "f' (xs ! i) = b" using assms(2,4) by simp
  ultimately have "concat (map f' xs) = concat (map f (take i xs)) @ b @ concat (map f (drop (Suc i) xs))"
    by (subst xs) (simp del: map_eq_conv)
  then show ?thesis using take_blocks [of xs f k i] drop_blocks [of xs f k "Suc i"] assms(1) by simp
qed

section \<open>Headers on disk\<close>

definition int32 :: "int \<Rightarrow> bool" where "int32 i \<longleftrightarrow> - (2 ^ 31) \<le> i \<and> i < 2 ^ 31"

lemma sint_word_of_int32: "int32 i \<Longrightarrow> sint (word_of_int i :: 32 word) = i"
  using to_int32_id [of i] by (simp add: int32_def to_int32_def)

lemma length_ints_bytes [simp]: "length (ints_bytes big is) = 4 * length is"
  unfolding ints_bytes_def by (rule length_blocks) simp

lemma int_at_ints_bytes:
  assumes "i < length is" "int32 (is ! i)"
  shows "int_at big (ints_bytes big is) i = is ! i"
proof -
  have "drop (4 * i) (ints_bytes big is)
      = word_bytes big (word_of_int (is ! i)) @ concat (map (\<lambda>i. word_bytes big (word_of_int i)) (drop (Suc i) is))"
    unfolding ints_bytes_def using assms(1) by (simp add: drop_blocks flip: Cons_nth_drop_Suc)
  then show ?thesis using assms(2) by (simp add: int_at_def sint_word_of_int32)
qed

definition hdr_rep :: "FileHeader \<Rightarrow> bool" where
  "hdr_rep h \<longleftrightarrow> length (dataSectors h) = nat NumDirect \<and> int32 (fh_numBytes h) \<and> int32 (fh_numSectors h) \<and>
     list_all int32 (dataSectors h)"

lemma NumDirect_eq [simp]: "NumDirect = 30" by (simp add: NumDirect_def SectorSize_def)

lemma MaxFileSize_eq [simp]: "MaxFileSize = 3840" by (simp add: MaxFileSize_def SectorSize_def)

lemma length_FileHeader_bytes: "hdr_rep h \<Longrightarrow> length (FileHeader_bytes big h) = 128"
  by (simp add: FileHeader_bytes_def hdr_rep_def)

lemma FileHeader_of_bytes_bytes:
  assumes "hdr_rep h"
  shows "FileHeader_of_bytes big (FileHeader_bytes big h) = h"
proof -
  let ?is = "fh_numBytes h # fh_numSectors h # dataSectors h"
  have len: "length ?is = 32" and all: "\<And>i. i < 32 \<Longrightarrow> int32 (?is ! i)"
    using assms by (auto simp: hdr_rep_def list_all_length nth_Cons' less_diff_conv)
  have at: "int_at big (FileHeader_bytes big h) i = ?is ! i" if "i < 32" for i
    unfolding FileHeader_bytes_def by (rule int_at_ints_bytes) (use len all that in auto)
  have "map (int_at big (FileHeader_bytes big h)) [2..<2 + nat NumDirect] = map ((!) ?is) [2..<32]"
    using at by simp
  also have "\<dots> = dataSectors h"
    using assms by (intro nth_equalityI) (simp_all add: hdr_rep_def del: upt_rec_numeral)
  finally show ?thesis
    using at [of 0] at [of 1] by (simp add: FileHeader_of_bytes_def)
qed

lemma sint_int32: "int32 (sint (w :: 32 word))"
  using sint_range_size [of w] by (simp add: int32_def word_size)

lemma FileHeader_of_bytes_rep: "hdr_rep (FileHeader_of_bytes big bs)"
  by (simp add: hdr_rep_def FileHeader_of_bytes_def int_at_def sint_int32 list_all_iff)

section \<open>The contents of a file\<close>

text \<open>
  The data sectors a header uses, the bytes they hold and the bytes of the file, given the
  contents of the sectors of the disk.
\<close>

definition file_sectors :: "FileHeader \<Rightarrow> int list" where
  "file_sectors h = take (nat (fh_numSectors h)) (dataSectors h)"

definition file_data :: "(int \<Rightarrow> 8 word list) \<Rightarrow> FileHeader \<Rightarrow> 8 word list" where
  "file_data sec h = concat (map sec (file_sectors h))"

definition file_content :: "(int \<Rightarrow> 8 word list) \<Rightarrow> FileHeader \<Rightarrow> 8 word list" where
  "file_content sec h = take (nat (fh_numBytes h)) (file_data sec h)"

definition hdr_ok :: "FileHeader \<Rightarrow> bool" where
  "hdr_ok h \<longleftrightarrow> length (dataSectors h) = nat NumDirect \<and> 0 \<le> fh_numBytes h \<and> fh_numBytes h \<le> MaxFileSize \<and>
     fh_numSectors h = divRoundUp (fh_numBytes h) SectorSize \<and> distinct (file_sectors h) \<and>
     list_all (\<lambda>s. 0 \<le> s \<and> s < NumSectors) (file_sectors h)"

definition same_sectors :: "(int \<Rightarrow> 8 word list) \<Rightarrow> (int \<Rightarrow> 8 word list) \<Rightarrow> bool" where
  "same_sectors sec sec' \<longleftrightarrow> (\<forall>t. 0 \<le> t \<longrightarrow> t < NumSectors \<longrightarrow> sec' t = sec t)"

lemma same_sectors_refl [simp]: "same_sectors sec sec" by (simp add: same_sectors_def)

lemma same_sectors_trans: "same_sectors a b \<Longrightarrow> same_sectors b c \<Longrightarrow> same_sectors a c" by (simp add: same_sectors_def)

lemma file_data_same: "hdr_ok h \<Longrightarrow> same_sectors sec sec' \<Longrightarrow> file_data sec' h = file_data sec h"
  unfolding file_data_def by (rule arg_cong [where f = concat]) (auto simp: hdr_ok_def same_sectors_def list_all_iff)

lemma file_content_same: "hdr_ok h \<Longrightarrow> same_sectors sec sec' \<Longrightarrow> file_content sec' h = file_content sec h"
  by (simp add: file_content_def file_data_same)

text \<open>The number of sectors of a file, as a natural number.\<close>

lemma hdr_ok_sectors:
  assumes "hdr_ok h"
  obtains n where "fh_numSectors h = int n" "length (file_sectors h) = n" "n \<le> 30"
    "nat (fh_numBytes h) \<le> 128 * n" "128 * n < nat (fh_numBytes h) + 128"
proof -
  have b: "0 \<le> fh_numBytes h" "fh_numBytes h \<le> 3840" "fh_numSectors h = divRoundUp (fh_numBytes h) 128"
    "length (dataSectors h) = 30"
    using assms by (simp_all add: hdr_ok_def SectorSize_def)
  note r = divRoundUp_bounds [OF b(1), of 128]
  let ?n = "nat (fh_numSectors h)"
  have n0: "0 \<le> fh_numSectors h" and n30: "fh_numSectors h \<le> 30" using r b by simp_all
  show thesis
  proof (rule that [of ?n])
    show "fh_numSectors h = int ?n" "?n \<le> 30" using n0 n30 by simp_all
    then show "length (file_sectors h) = ?n" using b(4) by (simp add: file_sectors_def)
    show "nat (fh_numBytes h) \<le> 128 * ?n" "128 * ?n < nat (fh_numBytes h) + 128"
      using r b n0 by linarith+
  qed
qed

lemma ByteToSector_eq:
  assumes "hdr_ok h" "i < length (file_sectors h)"
  shows "ByteToSector (int i * SectorSize) h = Inr (file_sectors h ! i)"
    and "0 \<le> file_sectors h ! i \<and> file_sectors h ! i < NumSectors"
proof -
  have "i < length (dataSectors h)" and nth: "file_sectors h ! i = dataSectors h ! i"
    using assms(2) by (simp_all add: file_sectors_def)
  then show "ByteToSector (int i * SectorSize) h = Inr (file_sectors h ! i)"
    by (simp add: ByteToSector_def SectorSize_def)
  show "0 \<le> file_sectors h ! i \<and> file_sectors h ! i < NumSectors"
    using assms by (simp add: hdr_ok_def list_all_length)
qed

text \<open>The sectors \<open>p div 128\<close> to \<open>(p + m - 1) div 128\<close> that a request for \<open>m\<close> bytes at \<open>p\<close> touches.\<close>

lemma request_sectors:
  fixes p m L n :: nat
  assumes "0 < m" "p + m \<le> L" "L \<le> 128 * n"
  defines "f \<equiv> p div 128" and "l \<equiv> (p + m - 1) div 128"
  shows "f \<le> l" "l < n" "128 * f \<le> p" "p < 128 * f + 128" "128 * l < p + m" "p + m \<le> 128 * l + 128"
proof -
  show "f \<le> l" unfolding f_def l_def using assms(1) by (intro div_le_mono) simp
  show "128 * f \<le> p" "p < 128 * f + 128" unfolding f_def by simp_all
  show l: "128 * l < p + m" "p + m \<le> 128 * l + 128" unfolding l_def using assms(1) by simp_all
  then show "l < n" using assms(2,3) by simp
qed

lemma take_drop_within:
  assumes "i \<le> p" "p + m \<le> i + j"
  shows "take m (drop (p - i) (take j (drop i xs))) = take m (drop p xs)"
proof -
  have "drop (p - i) (take j (drop i xs)) = take (j - (p - i)) (drop p xs)" using assms(1) by (simp add: drop_take)
  then show ?thesis using assms by (simp add: min_def)
qed

lemma request_split:
  assumes "hdr_ok h" "\<not> (n \<le> 0 \<or> position \<ge> fh_numBytes h)" "0 \<le> position"
  obtains p m a l where "position = int p" "0 < m" "m = min (nat n) (nat (fh_numBytes h) - p)" "p + m \<le> nat (fh_numBytes h)"
    "(if position + n > fh_numBytes h then fh_numBytes h - position else n) = int m"
    "divRoundDown position SectorSize = int a" "divRoundDown (position + int m - 1) SectorSize = int l"
    "a \<le> l" "l < length (file_sectors h)" "128 * a \<le> p" "p < 128 * a + 128" "128 * l < p + m" "p + m \<le> 128 * l + 128"
proof -
  define p where "p = nat position"
  define m where "m = nat (min n (fh_numBytes h - position))"
  obtain k where k: "length (file_sectors h) = k" "nat (fh_numBytes h) \<le> 128 * k"
    using hdr_ok_sectors [OF assms(1)] by metis
  have pm: "position = int p" "0 < m" "p + m \<le> nat (fh_numBytes h)" using assms(2,3) by (auto simp: p_def m_def)
  note r = request_sectors [OF pm(2,3) k(2)]
  show thesis
  proof (rule that [of p m "p div 128" "(p + m - 1) div 128"])
    show "m = min (nat n) (nat (fh_numBytes h) - p)"
      using assms(2,3) by (simp add: m_def p_def min_def) linarith
    show "(if position + n > fh_numBytes h then fh_numBytes h - position else n) = int m"
      using assms(2) by (auto simp: m_def)
    show "divRoundDown position SectorSize = int (p div 128)"
      by (simp add: divRoundDown_def pm(1) SectorSize_def zdiv_int)
    have "position + int m - 1 = int (p + m - 1)" using pm(1,2) by simp
    then show "divRoundDown (position + int m - 1) SectorSize = int ((p + m - 1) div 128)"
      by (simp add: divRoundDown_def SectorSize_def zdiv_int)
  qed (use pm r k(1) in simp_all)
qed

text \<open>What the file holds after the sectors of a request have been written back from the buffer.\<close>

lemma splice_content:
  fixes D bs buf :: "'a list"
  assumes D: "length D = 128 * k" "L \<le> 128 * k"
    and r: "a \<le> l" "l < k" "128 * a \<le> p" "p + m \<le> 128 * l + 128" "p + m \<le> L"
    and len: "length bs = m" "length buf = 128 * (l - a + 1)"
    and buf: "\<And>j. 128 * a \<le> j \<Longrightarrow> j < 128 * l + 128 \<Longrightarrow> j < L \<Longrightarrow> j < p \<or> p + m \<le> j \<Longrightarrow> buf ! (j - 128 * a) = D ! j"
  shows "take L (take (128 * a) D @ (take (p - 128 * a) buf @ bs @ drop (p - 128 * a + m) buf) @ drop (128 * (l + 1)) D)
    = take p (take L D) @ bs @ drop (p + m) (take L D)" (is "take L (?x @ ?y @ ?z) = ?rhs")
proof -
  define x where "x = ?x"
  define y where "y = ?y"
  define z where "z = ?z"
  have lx: "length x = 128 * a" and ly: "length y = 128 * (l - a + 1)" and lz: "length z = 128 * k - 128 * (l + 1)"
    using D r len by (auto simp: x_def y_def z_def)
  have xyz: "length (x @ y @ z) = 128 * k" using r(1,2) by (simp add: lx ly lz)
  have nth: "(x @ y @ z) ! j = (if p \<le> j \<and> j < p + m then bs ! (j - p) else D ! j)" if j: "j < L" for j
  proof -
    consider "j < 128 * a" | "128 * a \<le> j" "j < 128 * l + 128" | "128 * l + 128 \<le> j" by linarith
    then show ?thesis
    proof cases
      case 1 then show ?thesis using lx r by (simp add: nth_append x_def)
    next
      case 2
      have "j - 128 * a < length y" using 2 r(1) unfolding ly by arith
      then have "(x @ y @ z) ! j = y ! (j - 128 * a)" using lx 2 by (simp add: nth_append)
      also have "\<dots> = (if p \<le> j \<and> j < p + m then bs ! (j - p) else buf ! (j - 128 * a))"
        using 2 r len by (auto simp: nth_append y_def)
      finally show ?thesis using buf [OF 2 j] by (simp add: not_less not_le)
    next
      case 3
      have xy: "length (x @ y) = 128 * (l + 1)" using r(1) by (simp add: lx ly)
      then have "(x @ y @ z) ! j = z ! (j - 128 * (l + 1))"
        using 3 nth_append [of "x @ y" z j] by (simp del: length_append)
      also have "\<dots> = D ! j" using 3 D j by (simp add: z_def)
      finally show ?thesis using 3 r by simp
    qed
  qed
  have "take L (x @ y @ z) = ?rhs"
  proof (rule nth_equalityI)
    show "length (take L (x @ y @ z)) = length ?rhs" using xyz D r len by (simp del: length_append) simp
    fix j assume "j < length (take L (x @ y @ z))"
    then have j: "j < L" by (simp only: length_take min_less_iff_conj)
    moreover have "?rhs ! j = (if p \<le> j \<and> j < p + m then bs ! (j - p) else D ! j)"
      using j D r len by (auto simp: nth_append)
    ultimately show "take L (x @ y @ z) ! j = ?rhs ! j" by (simp only: nth_take nth)
  qed
  then show ?thesis by (simp only: x_def y_def z_def)
qed

context sector_store
begin

lemma good_lengths: "good d \<Longrightarrow> hdr_ok h \<Longrightarrow> x \<in> set (file_sectors h) \<Longrightarrow> length (sector d x) = 128"
  by (auto simp: hdr_ok_def list_all_iff intro: sector_length)

lemma length_file_data: "good d \<Longrightarrow> hdr_ok h \<Longrightarrow> length (file_data (sector d) h) = 128 * length (file_sectors h)"
  unfolding file_data_def by (rule length_blocks) (rule good_lengths)

lemma length_file_content: "good d \<Longrightarrow> hdr_ok h \<Longrightarrow> length (file_content (sector d) h) = nat (fh_numBytes h)"
  using hdr_ok_sectors [of h] by (fastforce simp: file_content_def length_file_data)

lemma read_sectors_spec:
  assumes "good d" "hdr_ok h" "i + n \<le> length (file_sectors h)"
  shows "\<exists>d'. read_sectors rd h n (int i) d = Inr (take (128 * n) (drop (128 * i) (file_data (sector d) h)), d') \<and>
    good d' \<and> same_sectors (sector d) (sector d')"
  using assms
proof (induction n arbitrary: i d)
  case 0
  then show ?case by simp
next
  case (Suc n)
  let ?s = "file_sectors h ! i"
  have i: "i < length (file_sectors h)" using Suc.prems(3) by simp
  note b = ByteToSector_eq [OF Suc.prems(2) i]
  obtain d1 where d1: "rd ?s d = Inr (sector d ?s, d1)" "good d1" "same_sectors (sector d) (sector d1)"
    using rd_law [OF Suc.prems(1), of ?s] b(2) by (auto simp: same_sectors_def)
  obtain d2 where d2: "read_sectors rd h n (int (i + 1)) d1
      = Inr (take (128 * n) (drop (128 * (i + 1)) (file_data (sector d1) h)), d2)" "good d2"
    "same_sectors (sector d1) (sector d2)"
    using Suc.IH [OF d1(2) Suc.prems(2), of "i + 1"] Suc.prems(3) by auto
  have eq: "file_data (sector d1) h = file_data (sector d) h"
    using file_data_same [OF Suc.prems(2) d1(3)] .
  have len: "length (sector d x) = 128" if "x \<in> set (file_sectors h)" for x
    using good_lengths [OF Suc.prems(1,2) that] .
  have "drop (128 * i) (file_data (sector d) h) = sector d ?s @ drop (128 * (i + 1)) (file_data (sector d) h)"
    unfolding file_data_def using drop_block [OF len i] by simp
  then have "take (128 * Suc n) (drop (128 * i) (file_data (sector d) h))
      = sector d ?s @ take (128 * n) (drop (128 * (i + 1)) (file_data (sector d) h))"
    using len [of ?s] i by simp
  then show ?case
    using b(1) d1 d2 eq same_sectors_trans [OF d1(3) d2(3)] by (simp add: add.commute)
qed

lemma write_sectors_spec:
  assumes "good d" "hdr_ok h" "i + n \<le> length (file_sectors h)" "length buf = 128 * n"
  shows "\<exists>d'. write_sectors wr h n (int i) buf d = Inr d' \<and> good d' \<and>
    file_data (sector d') h
      = take (128 * i) (file_data (sector d) h) @ buf @ drop (128 * (i + n)) (file_data (sector d) h) \<and>
    (\<forall>t. 0 \<le> t \<longrightarrow> t < NumSectors \<longrightarrow> t \<notin> set (file_sectors h) \<longrightarrow> sector d' t = sector d t)"
  using assms
proof (induction n arbitrary: i d buf)
  case 0
  then show ?case by simp
next
  case (Suc n)
  let ?s = "file_sectors h ! i" and ?D = "file_data (sector d) h"
  have i: "i < length (file_sectors h)" using Suc.prems(3) by simp
  note b = ByteToSector_eq [OF Suc.prems(2) i]
  have l: "length (take 128 buf) = 128" "length (drop 128 buf) = 128 * n" using Suc.prems(4) by simp_all
  obtain d1 where d1: "wr ?s (take 128 buf) d = Inr d1" "good d1"
    "\<And>t. 0 \<le> t \<Longrightarrow> t < NumSectors \<Longrightarrow> sector d1 t = (if t = ?s then take 128 buf else sector d t)"
    using wr_law [OF Suc.prems(1), of ?s "take 128 buf"] b(2) l(1) by auto
  let ?D1 = "file_data (sector d1) h"
  obtain d2 where d2: "write_sectors wr h n (int (i + 1)) (drop 128 buf) d1 = Inr d2" "good d2"
    "file_data (sector d2) h = take (128 * (i + 1)) ?D1 @ drop 128 buf @ drop (128 * (i + 1 + n)) ?D1"
    "\<forall>t. 0 \<le> t \<longrightarrow> t < NumSectors \<longrightarrow> t \<notin> set (file_sectors h) \<longrightarrow> sector d2 t = sector d1 t"
    using Suc.IH [OF d1(2) Suc.prems(2), of "i + 1" "drop 128 buf"] Suc.prems(3) l(2) by auto
  have "sector d1 x = (if x = ?s then take 128 buf else sector d x)" if "x \<in> set (file_sectors h)" for x
    using d1(3) Suc.prems(2) that by (simp add: hdr_ok_def list_all_iff)
  then have D1: "?D1 = take (128 * i) ?D @ take 128 buf @ drop (128 * Suc i) ?D"
    unfolding file_data_def
    by (intro replace_block) (use good_lengths [OF Suc.prems(1,2)] i Suc.prems(2) in \<open>auto simp: hdr_ok_def\<close>)
  have lD: "128 * i \<le> length ?D" using length_file_data [OF Suc.prems(1,2)] i by simp
  have p1: "take (128 * (i + 1)) ?D1 = take (128 * i) ?D @ take 128 buf"
    using lD l(1) unfolding D1 by simp
  have p2: "drop (128 * (i + 1 + n)) ?D1 = drop (128 * (i + Suc n)) ?D"
    using lD l(1) unfolding D1 by (simp add: algebra_simps)
  have "file_data (sector d2) h = take (128 * i) ?D @ buf @ drop (128 * (i + Suc n)) ?D"
    unfolding d2(3) p1 p2 by simp
  moreover have "sector d2 t = sector d t" if "0 \<le> t" "t < NumSectors" "t \<notin> set (file_sectors h)" for t
    using d2(4) d1(3) [of t] that i nth_mem by fastforce
  ultimately show ?case using b(1) d1(1) d2(1,2) by (simp add: add.commute SectorSize_def)
qed

lemma ReadAt_spec:
  assumes "good d" "hdr_ok (of_hdr f)" "0 \<le> position" "position + n < 2 ^ 31"
  shows "\<exists>d'. ReadAt rd f n position d
      = Inr (take (nat n) (drop (nat position) (file_content (sector d) (of_hdr f))), d') \<and>
    good d' \<and> same_sectors (sector d) (sector d')"
proof -
  let ?h = "of_hdr f" and ?L = "fh_numBytes (of_hdr f)" and ?D = "file_data (sector d) (of_hdr f)"
  show ?thesis
  proof (cases "n \<le> 0 \<or> position \<ge> ?L")
    case True
    then have "take (nat n) (drop (nat position) (file_content (sector d) ?h)) = []"
      using length_file_content [OF assms(1,2)] assms(3) by auto
    then show ?thesis using True assms(1) by (simp add: ReadAt_def FileLength_def)
  next
    case False
    then obtain p m a l where pm: "position = int p" and mm: "m = min (nat n) (nat ?L - p)"
      and m: "(if position + n > ?L then ?L - position else n) = int m"
      and first: "divRoundDown position SectorSize = int a"
      and last: "divRoundDown (position + int m - 1) SectorSize = int l"
      and r: "a \<le> l" "l < length (file_sectors ?h)" "128 * a \<le> p" "p < 128 * a + 128" "128 * l < p + m" "p + m \<le> 128 * l + 128"
      using request_split [OF assms(2) False assms(3)] by metis
    have num: "nat (1 + int l - int a) = l - a + 1" using r(1) by simp
    obtain d' where d': "read_sectors rd ?h (l - a + 1) (int a) d = Inr (take (128 * (l - a + 1)) (drop (128 * a) ?D), d')"
      "good d'" "same_sectors (sector d) (sector d')"
      using read_sectors_spec [OF assms(1,2), of a "l - a + 1"] r(1,2) by auto
    have len: "length (take (128 * (l - a + 1)) (drop (128 * a) ?D)) = 128 * (l - a + 1)"
      using length_file_data [OF assms(1,2)] r(1,2) by simp
    have off: "position - int a * SectorSize = int (p - 128 * a)" using r(3) pm by (simp add: SectorSize_def)
    have within: "int (p - 128 * a) + int m \<le> int (128 * (l - a + 1))" using r by simp
    have "copy_out (take (128 * (l - a + 1)) (drop (128 * a) ?D)) (position - int a * SectorSize) (int m)
        = Inr (take m (drop (p - 128 * a) (take (128 * (l - a + 1)) (drop (128 * a) ?D))))"
      unfolding copy_out_def len off using within by (simp only: nat_int of_nat_0_le_iff simp_thms if_True)
    moreover have "take m (drop (p - 128 * a) (take (128 * (l - a + 1)) (drop (128 * a) ?D))) = take m (drop p ?D)"
      using r by (intro take_drop_within) simp_all
    moreover have "take m (drop p ?D) = take (nat n) (drop p (file_content (sector d) ?h))"
      using mm by (simp add: file_content_def drop_take)
    moreover have "int_add position n = Inr (position + n)" using False assms(3,4) by (simp add: int_add_def)
    ultimately show ?thesis
      using False d' by (simp add: ReadAt_def FileLength_def Let_def m first last num) (simp add: pm)
  qed
qed

lemma read_into:
  assumes "good d" "hdr_ok (of_hdr f)" "off + 128 \<le> length buf" "128 * x + 128 < 2 ^ 31"
  shows "\<exists>buf' d'. andThen (ReadAt rd f SectorSize (int x * SectorSize) d) (\<lambda>(bs, d1).
      andThen (copy_in buf (int off) bs) (\<lambda>b. Inr (b, d1))) = Inr (buf', d') \<and> good d' \<and>
    same_sectors (sector d) (sector d') \<and> length buf' = length buf \<and>
    (\<forall>j < length buf. buf' ! j =
      (if off \<le> j \<and> j < off + 128 \<and> 128 * x + (j - off) < nat (fh_numBytes (of_hdr f))
       then file_data (sector d) (of_hdr f) ! (128 * x + (j - off)) else buf ! j))"
proof -
  let ?C = "file_content (sector d) (of_hdr f)"
  define bs where "bs = take 128 (drop (128 * x) ?C)"
  have x: "int x * SectorSize + SectorSize < 2 ^ 31" using assms(4) by (simp add: SectorSize_def)
  have nx: "nat (int x * 128) = 128 * x" by simp
  obtain d' where d': "ReadAt rd f SectorSize (int x * SectorSize) d = Inr (bs, d')" "good d'"
      "same_sectors (sector d) (sector d')"
    using ReadAt_spec [OF assms(1,2) _ x] by (auto simp: bs_def nx SectorSize_def)
  let ?b = "take off buf @ bs @ drop (off + length bs) buf"
  have lbs: "length bs = min (nat (fh_numBytes (of_hdr f)) - 128 * x) 128"
    by (simp add: bs_def length_file_content [OF assms(1,2)])
  then have c: "copy_in buf (int off) bs = Inr ?b" using assms(3) by (simp add: copy_in_def)
  have "?b ! j = (if off \<le> j \<and> j < off + 128 \<and> 128 * x + (j - off) < nat (fh_numBytes (of_hdr f))
       then file_data (sector d) (of_hdr f) ! (128 * x + (j - off)) else buf ! j)" if "j < length buf" for j
  proof -
    have "?b ! j = (if off \<le> j \<and> j < off + length bs then bs ! (j - off) else buf ! j)"
      using that assms(3) lbs by (auto simp: nth_append)
    moreover have "bs ! (j - off) = file_data (sector d) (of_hdr f) ! (128 * x + (j - off))"
      if "off \<le> j" "j < off + length bs"
      using that lbs length_file_content [OF assms(1,2)] by (simp add: bs_def file_content_def)
    ultimately show ?thesis using lbs by auto
  qed
  moreover have "length ?b = length buf" using assms(3) lbs by simp
  ultimately show ?thesis using d' c by auto
qed

text \<open>
  The sectors that a write covers only in part are read first: outside the bytes to be written the
  buffer then holds what the file holds.
\<close>

lemma WriteAt_buffer:
  fixes p m a l :: nat
  assumes good: "good d" and ok: "hdr_ok (of_hdr f)" and len: "length buf = 128 * (l - a + 1)"
    and r: "a \<le> l" "128 * a \<le> p" "p < 128 * a + 128" "128 * l < p + m" "p + m \<le> 128 * l + 128" "p + m < 2 ^ 30"
  shows "\<exists>buf1 d1 buf2 d2.
    (if p \<noteq> 128 * a then andThen (ReadAt rd f SectorSize (int a * SectorSize) d) (\<lambda>(bs, d1).
       andThen (copy_in buf 0 bs) (\<lambda>b. Inr (b, d1))) else Inr (buf, d)) = Inr (buf1, d1) \<and>
    (if p + m \<noteq> 128 * l + 128 \<and> (a \<noteq> l \<or> p = 128 * a) then
       andThen (ReadAt rd f SectorSize (int l * SectorSize) d1) (\<lambda>(bs, d2).
       andThen (copy_in buf1 (int (128 * (l - a))) bs) (\<lambda>b. Inr (b, d2))) else Inr (buf1, d1)) = Inr (buf2, d2) \<and>
    good d2 \<and> same_sectors (sector d) (sector d2) \<and> length buf2 = length buf \<and>
    (\<forall>j. 128 * a \<le> j \<longrightarrow> j < 128 * l + 128 \<longrightarrow> j < nat (fh_numBytes (of_hdr f)) \<longrightarrow> j < p \<or> p + m \<le> j \<longrightarrow>
       buf2 ! (j - 128 * a) = file_data (sector d) (of_hdr f) ! j)"
proof -
  let ?L = "nat (fh_numBytes (of_hdr f))" and ?D = "file_data (sector d) (of_hdr f)"
  obtain buf1 d1 where 1: "(if p \<noteq> 128 * a then andThen (ReadAt rd f SectorSize (int a * SectorSize) d) (\<lambda>(bs, d1).
       andThen (copy_in buf 0 bs) (\<lambda>b. Inr (b, d1))) else Inr (buf, d)) = Inr (buf1, d1)"
    "good d1" "same_sectors (sector d) (sector d1)" "length buf1 = length buf"
    "\<And>j. p \<noteq> 128 * a \<Longrightarrow> j < 128 \<Longrightarrow> 128 * a + j < ?L \<Longrightarrow> buf1 ! j = ?D ! (128 * a + j)"
    using read_into [OF good ok, of 0 buf a] r len good by (cases "p = 128 * a") auto
  let ?c = "p + m \<noteq> 128 * l + 128 \<and> (a \<noteq> l \<or> p = 128 * a)"
  have D1: "file_data (sector d1) (of_hdr f) = ?D" using file_data_same [OF ok 1(3)] .
  have l2: "128 * (l - a) + 128 \<le> length buf1" "128 * l + 128 < 2 ^ 31" using 1(4) len r by simp_all
  obtain buf2 d2 where 2: "(if ?c then andThen (ReadAt rd f SectorSize (int l * SectorSize) d1) (\<lambda>(bs, d2).
       andThen (copy_in buf1 (int (128 * (l - a))) bs) (\<lambda>b. Inr (b, d2))) else Inr (buf1, d1)) = Inr (buf2, d2)"
    "good d2" "same_sectors (sector d1) (sector d2)" "length buf2 = length buf1"
    "\<And>j. ?c \<Longrightarrow> j < 128 \<Longrightarrow> 128 * l + j < ?L \<Longrightarrow> buf2 ! (128 * (l - a) + j) = ?D ! (128 * l + j)"
    "\<And>j. j < 128 * (l - a) \<or> \<not> ?c \<Longrightarrow> j < length buf1 \<Longrightarrow> buf2 ! j = buf1 ! j"
    using read_into [OF 1(2) ok l2, unfolded D1] 1(2) l2 by (cases ?c) auto
  have "buf2 ! (j - 128 * a) = ?D ! j"
    if j: "128 * a \<le> j" "j < 128 * l + 128" "j < ?L" "j < p \<or> p + m \<le> j" for j
  proof (cases "128 * l \<le> j \<and> ?c")
    case True
    then have "j - 128 * a = 128 * (l - a) + (j - 128 * l)" using r(1) by simp
    then show ?thesis using 2(5) [of "j - 128 * l"] True j by simp
  next
    case False
    then have "j < p \<or> a = l" "p \<noteq> 128 * a" "j < 128 * a + 128" using j r by auto
    moreover have "j - 128 * a < 128 * (l - a) \<or> \<not> ?c" using False j r(1) by auto
    moreover have "j - 128 * a < length buf1" using j r(1) 1(4) len by simp
    ultimately show ?thesis using 2(6) [of "j - 128 * a"] 1(5) [of "j - 128 * a"] j by simp
  qed
  moreover have "length buf2 = length buf" using 1(4) 2(4) by simp
  ultimately show ?thesis
    using 1(1) 2(1,2) same_sectors_trans [OF 1(3) 2(3)]
    by (intro exI [of _ buf1] exI [of _ d1] exI [of _ buf2] exI [of _ d2] conjI) (assumption | simp)+
qed

lemma WriteAt_inside:
  assumes good: "good d" and ok: "hdr_ok (of_hdr f)" and req: "0 \<le> position" "position + n < 2 ^ 31"
    "\<not> (n \<le> 0 \<or> position \<ge> fh_numBytes (of_hdr f))" and src: "nat n \<le> length from"
  defines "p \<equiv> nat position" and "L \<equiv> nat (fh_numBytes (of_hdr f))"
  defines "m \<equiv> min (nat n) (L - p)"
  shows "\<exists>d'. WriteAt rd wr junk f from n position d = Inr (int m, d') \<and> good d' \<and>
    file_content (sector d') (of_hdr f) = take p (file_content (sector d) (of_hdr f)) @ take m from @
      drop (p + m) (file_content (sector d) (of_hdr f)) \<and>
    (\<forall>t. 0 \<le> t \<longrightarrow> t < NumSectors \<longrightarrow> t \<notin> set (file_sectors (of_hdr f)) \<longrightarrow> sector d' t = sector d t)"
proof -
  let ?h = "of_hdr f" and ?D = "file_data (sector d) (of_hdr f)"
  obtain p' m' a l where p': "position = int p'" "0 < m'" "m' = min (nat n) (nat (fh_numBytes ?h) - p')"
      "p' + m' \<le> nat (fh_numBytes ?h)"
    and m': "(if position + n > fh_numBytes ?h then fh_numBytes ?h - position else n) = int m'"
    and first: "divRoundDown position SectorSize = int a"
    and last': "divRoundDown (position + int m' - 1) SectorSize = int l"
    and r': "a \<le> l" "l < length (file_sectors ?h)" "128 * a \<le> p'" "p' < 128 * a + 128" "128 * l < p' + m'" "p' + m' \<le> 128 * l + 128"
    by (rule request_split [OF ok req(3,1)])
  have "p' = p" "m' = m" using p' by (simp_all add: p_def m_def L_def)
  note p = p'(1,2,4) [unfolded this, folded L_def] and m = m' [unfolded this]
    and last = last' [unfolded this] and r = r' [unfolded this]
  obtain k where k: "length (file_sectors ?h) = k" "L \<le> 128 * k" "k \<le> 30"
    using hdr_ok_sectors [OF ok] unfolding L_def by metis
  have pm: "p + m < 2 ^ 30" using p(3) k by simp
  let ?buf = "map junk [0..<nat ((1 + int l - int a) * SectorSize)]"
  have lb: "length ?buf = 128 * (l - a + 1)" using r(1) by (simp add: SectorSize_def nat_mult_distrib nat_diff_distrib)
  have num: "nat (1 + int l - int a) = l - a + 1" using r(1) by simp
  have al: "(position = int a * SectorSize) = (p = 128 * a)" "(position + int m = (int l + 1) * SectorSize) = (p + m = 128 * l + 128)"
    unfolding p(1) SectorSize_def by linarith presburger
  have off: "(int l - int a) * SectorSize = int (128 * (l - a))" using r(1) by (simp add: SectorSize_def)
  obtain buf1 d1 buf2 d2 where b: "(if p \<noteq> 128 * a then andThen (ReadAt rd f SectorSize (int a * SectorSize) d) (\<lambda>(bs, d1).
       andThen (copy_in ?buf 0 bs) (\<lambda>b. Inr (b, d1))) else Inr (?buf, d)) = Inr (buf1, d1)"
    "(if p + m \<noteq> 128 * l + 128 \<and> (a \<noteq> l \<or> p = 128 * a) then
       andThen (ReadAt rd f SectorSize (int l * SectorSize) d1) (\<lambda>(bs, d2).
       andThen (copy_in buf1 (int (128 * (l - a))) bs) (\<lambda>b. Inr (b, d2))) else Inr (buf1, d1)) = Inr (buf2, d2)"
    "good d2" "same_sectors (sector d) (sector d2)" "length buf2 = 128 * (l - a + 1)"
    "\<And>j. 128 * a \<le> j \<Longrightarrow> j < 128 * l + 128 \<Longrightarrow> j < L \<Longrightarrow> j < p \<or> p + m \<le> j \<Longrightarrow> buf2 ! (j - 128 * a) = ?D ! j"
    using WriteAt_buffer [OF good ok lb r(1,3-6) pm] unfolding lb L_def by blast
  let ?buf3 = "take (p - 128 * a) buf2 @ take m from @ drop (p - 128 * a + m) buf2"
  have lf: "length (take m from) = m" using src by (simp add: m_def)
  have o: "position - int a * SectorSize = int (p - 128 * a)" using r(3) p(1) by (simp add: SectorSize_def)
  have within: "int (p - 128 * a) + int m \<le> int (128 * (l - a + 1))" using r by simp
  have c1: "copy_out from 0 (int m) = Inr (take m from)" using src by (simp add: copy_out_def m_def)
  have c2: "copy_in buf2 (position - int a * SectorSize) (take m from) = Inr ?buf3"
    unfolding copy_in_def o lf b(5) using within by (simp only: nat_int of_nat_0_le_iff simp_thms if_True)
  have D2: "file_data (sector d2) ?h = ?D" using file_data_same [OF ok b(4)] .
  have l3: "length ?buf3 = 128 * (l - a + 1)" using r lf b(5) by simp
  obtain d3 where d3: "write_sectors wr ?h (l - a + 1) (int a) ?buf3 d2 = Inr d3" "good d3"
    "file_data (sector d3) ?h = take (128 * a) ?D @ ?buf3 @ drop (128 * (a + (l - a + 1))) ?D"
    "\<forall>t. 0 \<le> t \<longrightarrow> t < NumSectors \<longrightarrow> t \<notin> set (file_sectors ?h) \<longrightarrow> sector d3 t = sector d2 t"
    using write_sectors_spec [OF b(3) ok _ l3, of a] r(1,2) unfolding D2 by auto
  have "a + (l - a + 1) = l + 1" using r(1) by simp
  then have "file_content (sector d3) ?h = take p (file_content (sector d) ?h) @ take m from @ drop (p + m) (file_content (sector d) ?h)"
    unfolding file_content_def d3(3) L_def [symmetric]
    using splice_content [of ?D k L a l p m "take m from" buf2] k length_file_data [OF good ok] r p(3) lf b(5,6) by simp
  moreover have ia: "int_add position n = Inr (position + n)" using req by (simp add: int_add_def)
  have "WriteAt rd wr junk f from n position d = Inr (int m, d3)"
    unfolding WriteAt_def Let_def FileLength_def if_not_P [OF req(3)] ia andThen_Inr m first last al of_nat_eq_iff off
      b(1) prod.case b(2) c1 c2 num d3(1) ..
  moreover have "\<forall>t. 0 \<le> t \<longrightarrow> t < NumSectors \<longrightarrow> t \<notin> set (file_sectors ?h) \<longrightarrow> sector d3 t = sector d t"
    using d3(4) b(4) by (simp add: same_sectors_def)
  ultimately show ?thesis using d3(2) by blast
qed

lemma WriteAt_spec:
  assumes "good d" "hdr_ok (of_hdr f)" "0 \<le> position" "position + n < 2 ^ 31" "nat n \<le> length from"
  defines "p \<equiv> nat position" and "m \<equiv> min (nat n) (nat (fh_numBytes (of_hdr f)) - nat position)"
  shows "\<exists>d'. WriteAt rd wr junk f from n position d = Inr (int m, d') \<and> good d' \<and>
    file_content (sector d') (of_hdr f) = take p (file_content (sector d) (of_hdr f)) @ take m from @
      drop (p + m) (file_content (sector d) (of_hdr f)) \<and>
    (\<forall>t. 0 \<le> t \<longrightarrow> t < NumSectors \<longrightarrow> t \<notin> set (file_sectors (of_hdr f)) \<longrightarrow> sector d' t = sector d t)"
proof (cases "n \<le> 0 \<or> position \<ge> fh_numBytes (of_hdr f)")
  case True
  then have m: "m = 0" using assms(3) by (auto simp: m_def)
  have "take p (file_content (sector d) (of_hdr f)) @ drop p (file_content (sector d) (of_hdr f))
      = file_content (sector d) (of_hdr f)" by simp
  then show ?thesis using True assms(1) m by (simp add: WriteAt_def FileLength_def)
next
  case False
  show ?thesis unfolding p_def m_def by (rule WriteAt_inside [OF assms(1-4) False assms(5)])
qed

text \<open>A file whose sectors are disjoint from those of the file written keeps its contents.\<close>

lemma other_file_content:
  assumes "hdr_ok h" "set (file_sectors h) \<inter> S = {}"
    and "\<forall>t. 0 \<le> t \<longrightarrow> t < NumSectors \<longrightarrow> t \<notin> S \<longrightarrow> sector d' t = sector d t"
  shows "file_content (sector d') h = file_content (sector d) h"
proof -
  have "map (sector d') (file_sectors h) = map (sector d) (file_sectors h)"
    using assms by (auto simp: hdr_ok_def list_all_iff)
  then show ?thesis by (simp add: file_content_def file_data_def del: map_eq_conv)
qed

end

section \<open>Allocation\<close>

lemma Allocate_loop_spec:
  assumes "BitMap_ok fm" "n \<le> card ({0..<numBits fm} - BitMap_set fm)" "i + n \<le> length (dataSectors h)"
  shows "\<exists>ss fm'. Allocate_loop n i h fm
      = Inr (h\<lparr>dataSectors := take i (dataSectors h) @ ss @ drop (i + n) (dataSectors h)\<rparr>, fm') \<and>
    length ss = n \<and> distinct ss \<and> set ss \<subseteq> {0..<numBits fm} - BitMap_set fm \<and> BitMap_ok fm' \<and>
    numBits fm' = numBits fm \<and> BitMap_set fm' = BitMap_set fm \<union> set ss"
  using assms
proof (induction n arbitrary: i h fm)
  case 0
  then show ?case by simp
next
  case (Suc n)
  have "0 < int (card ({0..<numBits fm} - BitMap_set fm))" using Suc.prems(2) by simp
  then obtain j fm1 where j: "BitMap_Find fm = Inr (j, fm1)" "0 \<le> j" "j < numBits fm" "j \<notin> BitMap_set fm"
    "BitMap_ok fm1" "numBits fm1 = numBits fm" "BitMap_set fm1 = insert j (BitMap_set fm)"
    using bitmap.find_takes_one [OF Suc.prems(1) bitmap.num_clear_card] by blast
  let ?h = "h\<lparr>dataSectors := (dataSectors h)[i := j]\<rparr>"
  have "{0..<numBits fm1} - BitMap_set fm1 = ({0..<numBits fm} - BitMap_set fm) - {j}" using j by auto
  then have "n \<le> card ({0..<numBits fm1} - BitMap_set fm1)" using Suc.prems(2) j by simp
  then obtain ss fm2 where ss: "Allocate_loop n (i + 1) ?h fm1
      = Inr (?h\<lparr>dataSectors := take (i + 1) (dataSectors ?h) @ ss @ drop (i + 1 + n) (dataSectors ?h)\<rparr>, fm2)"
    "length ss = n" "distinct ss" "set ss \<subseteq> {0..<numBits fm1} - BitMap_set fm1" "BitMap_ok fm2"
    "numBits fm2 = numBits fm1" "BitMap_set fm2 = BitMap_set fm1 \<union> set ss"
    using Suc.IH [OF j(5), of "i + 1" ?h] Suc.prems(3) by auto
  have "take (i + 1) ((dataSectors h)[i := j]) @ ss @ drop (i + 1 + n) ((dataSectors h)[i := j])
      = take i (dataSectors h) @ (j # ss) @ drop (i + Suc n) (dataSectors h)"
    using Suc.prems(3) by (simp add: take_Suc_conv_app_nth)
  then have "Allocate_loop (Suc n) i h fm
      = Inr (h\<lparr>dataSectors := take i (dataSectors h) @ (j # ss) @ drop (i + Suc n) (dataSectors h)\<rparr>, fm2)"
    using Suc.prems(3) j(1) ss(1) by simp
  moreover have "distinct (j # ss)" "set (j # ss) \<subseteq> {0..<numBits fm} - BitMap_set fm"
    "BitMap_set fm2 = BitMap_set fm \<union> set (j # ss)"
    using j ss(3,4,7) by auto
  ultimately show ?case using ss(2,5,6) j(6) by (metis length_Cons)
qed

lemma Allocate_loop_overflow:
  assumes "BitMap_ok fm" "n \<le> card ({0..<numBits fm} - BitMap_set fm)" "length (dataSectors h) < i + n" "i \<le> length (dataSectors h)"
  shows "Allocate_loop n i h fm = Inl Undefined"
  using assms
proof (induction n arbitrary: i h fm)
  case 0
  then show ?case by simp
next
  case (Suc n)
  have "0 < int (card ({0..<numBits fm} - BitMap_set fm))" using Suc.prems(2) by simp
  then obtain j fm1 where j: "BitMap_Find fm = Inr (j, fm1)" "0 \<le> j" "j < numBits fm" "j \<notin> BitMap_set fm"
    "BitMap_ok fm1" "numBits fm1 = numBits fm" "BitMap_set fm1 = insert j (BitMap_set fm)"
    using bitmap.find_takes_one [OF Suc.prems(1) bitmap.num_clear_card] by blast
  have "{0..<numBits fm1} - BitMap_set fm1 = ({0..<numBits fm} - BitMap_set fm) - {j}" using j by auto
  then have "n \<le> card ({0..<numBits fm1} - BitMap_set fm1)" using Suc.prems(2) j by simp
  then show ?case using Suc.IH [OF j(5)] Suc.prems(3,4) j(1) by simp
qed

lemma Deallocate_loop_spec:
  assumes "BitMap_ok fm" "i + n \<le> length (dataSectors h)" "distinct (take n (drop i (dataSectors h)))"
    "set (take n (drop i (dataSectors h))) \<subseteq> BitMap_set fm"
  shows "\<exists>fm'. Deallocate_loop n i h fm = Inr fm' \<and> BitMap_ok fm' \<and> numBits fm' = numBits fm \<and>
    BitMap_set fm' = BitMap_set fm - set (take n (drop i (dataSectors h)))"
  using assms
proof (induction n arbitrary: i fm)
  case 0
  then show ?case by simp
next
  case (Suc n)
  let ?s = "dataSectors h ! i"
  have i: "i < length (dataSectors h)" using Suc.prems(2) by simp
  have t: "take (Suc n) (drop i (dataSectors h)) = ?s # take n (drop (i + 1) (dataSectors h))"
    using Cons_nth_drop_Suc [OF i] by (metis Suc_eq_plus1 take_Suc_Cons)
  have s: "?s \<in> BitMap_set fm" "0 \<le> ?s" "?s < numBits fm" using Suc.prems(4) BitMap_set_subset [of fm] unfolding t by auto
  obtain fm1 where fm1: "BitMap_Clear ?s fm = Inr fm1" "BitMap_ok fm1" "numBits fm1 = numBits fm"
    "BitMap_set fm1 = BitMap_set fm - {?s}"
    using BitMap_Clear_set [OF Suc.prems(1) s(2,3)] by blast
  obtain fm2 where "Deallocate_loop n (i + 1) h fm1 = Inr fm2" "BitMap_ok fm2" "numBits fm2 = numBits fm1"
    "BitMap_set fm2 = BitMap_set fm1 - set (take n (drop (i + 1) (dataSectors h)))"
    using Suc.IH [OF fm1(2), of "i + 1"] Suc.prems(2-4) fm1(4) unfolding t by auto
  then show ?case
    using i s fm1 unfolding t by (auto simp: BitMap_Test_set)
qed

abbreviation free_sectors :: "BitMap \<Rightarrow> int set" where
  "free_sectors fm \<equiv> {0..<numBits fm} - BitMap_set fm"

lemma divRoundUp_sector:
  assumes "0 \<le> fileSize"
  shows "0 \<le> divRoundUp fileSize SectorSize" "divRoundUp fileSize SectorSize \<le> NumDirect \<longleftrightarrow> fileSize \<le> MaxFileSize"
  using divRoundUp_bounds [OF assms, of 128] assms by (auto simp: SectorSize_def)

lemma Allocate_enough:
  assumes "BitMap_ok fm" "numBits fm = NumSectors" "hdr_rep h" "0 \<le> fileSize" "fileSize \<le> MaxFileSize"
    and "divRoundUp fileSize SectorSize \<le> int (card (free_sectors fm))"
  shows "\<exists>h' fm'. FileHeader_Allocate fileSize h fm = Inr (True, h', fm') \<and> hdr_ok h' \<and> hdr_rep h' \<and> fh_numBytes h' = fileSize \<and>
    set (file_sectors h') \<subseteq> free_sectors fm \<and> BitMap_ok fm' \<and> numBits fm' = NumSectors \<and>
    BitMap_set fm' = BitMap_set fm \<union> set (file_sectors h')"
proof -
  let ?h1 = "h\<lparr>fh_numBytes := fileSize, fh_numSectors := divRoundUp fileSize SectorSize\<rparr>"
  let ?n = "nat (divRoundUp fileSize SectorSize)"
  have n: "0 \<le> divRoundUp fileSize SectorSize" "?n \<le> 30" using divRoundUp_sector [OF assms(4)] assms(5) by simp_all
  have "?n \<le> card (free_sectors fm)" "0 + ?n \<le> length (dataSectors ?h1)" using assms(3,6) n by (simp_all add: hdr_rep_def)
  then obtain ss fm' where ss: "Allocate_loop ?n 0 ?h1 fm = Inr (?h1\<lparr>dataSectors := ss @ drop ?n (dataSectors h)\<rparr>, fm')"
    "length ss = ?n" "distinct ss" "set ss \<subseteq> free_sectors fm" "BitMap_ok fm'" "numBits fm' = numBits fm"
    "BitMap_set fm' = BitMap_set fm \<union> set ss"
    using Allocate_loop_spec [OF assms(1), of ?n 0 ?h1] by auto
  let ?h' = "?h1\<lparr>dataSectors := ss @ drop ?n (dataSectors h)\<rparr>"
  have fs: "file_sectors ?h' = ss" using ss(2) by (simp add: file_sectors_def)
  have range: "0 \<le> x \<and> x < 1024" if "x \<in> set ss" for x using ss(4) that assms(2) by auto
  have "hdr_ok ?h'"
    using fs ss(2,3) range n assms(3,4,5) by (simp add: hdr_ok_def hdr_rep_def list_all_iff)
  moreover have "hdr_rep ?h'"
  proof -
    have "list_all int32 ss" using range by (force simp: list_all_iff int32_def)
    moreover have "list_all int32 (drop ?n (dataSectors h))"
      using assms(3) by (auto simp: hdr_rep_def list_all_iff dest: in_set_dropD)
    moreover have "int32 fileSize" "int32 (divRoundUp fileSize SectorSize)" using assms(4,5) n by (simp_all add: int32_def)
    ultimately show ?thesis using ss(2) n assms(3) by (simp add: hdr_rep_def)
  qed
  moreover have "FileHeader_Allocate fileSize h fm = Inr (True, ?h', fm')"
    using ss(1) assms(6) by (simp add: FileHeader_Allocate_def BitMap_NumClear_card)
  ultimately show ?thesis using ss fs assms(2) by auto
qed

lemma Deallocate_spec:
  assumes "BitMap_ok fm" "hdr_ok h" "set (file_sectors h) \<subseteq> BitMap_set fm"
  shows "\<exists>fm'. FileHeader_Deallocate h fm = Inr fm' \<and> BitMap_ok fm' \<and> numBits fm' = numBits fm \<and>
    BitMap_set fm' = BitMap_set fm - set (file_sectors h)"
proof -
  obtain n where n: "fh_numSectors h = int n" "n \<le> 30" using hdr_ok_sectors [OF assms(2)] by metis
  have "length (dataSectors h) = 30" "distinct (take n (dataSectors h))"
    using assms(2) n by (simp_all add: hdr_ok_def file_sectors_def)
  then show ?thesis
    using Deallocate_loop_spec [OF assms(1), of 0 n h] assms(3) n
    by (simp add: FileHeader_Deallocate_def file_sectors_def)
qed

section \<open>Properties\<close>

definition demo_hdr :: FileHeader where
  "demo_hdr = \<lparr>fh_numBytes = 200, fh_numSectors = 2, dataSectors = 7 # 5 # replicate 28 0\<rparr>"

lemma demo_hdr_ok: "hdr_ok demo_hdr"
  by (simp add: demo_hdr_def hdr_ok_def file_sectors_def divRoundUp_def SectorSize_def)

text \<open>
  Property C37. An open file behaves as an array of bytes of fixed length, although the disk only
  moves whole sectors: \<^verbatim>\<open>WriteAt\<close> at any offset, aligned or not, replaces exactly the requested bytes
  that lie inside the file, returns how many these are, keeps every other byte of the file and every
  sector that does not belong to it; a file with other sectors keeps its contents. It never
  fails an assertion or leaves a buffer, whatever the fresh buffer held.
\<close>

theorem WriteAt_refines_splice:
  assumes "sd_ready d" "hdr_ok (of_hdr f)" "0 \<le> position" "position + n < 2 ^ 31" "nat n \<le> length from"
    and "hdr_ok h" "set (file_sectors h) \<inter> set (file_sectors (of_hdr f)) = {}"
  shows "\<exists>d'. let C = file_content (disk_sector (disk_file d)) (of_hdr f); p = nat position; m = min (nat n) (length C - p) in
    WriteAt ReadSector WriteSector junk f from n position d = Inr (int m, d') \<and> sd_ready d' \<and>
    file_content (disk_sector (disk_file d')) (of_hdr f) = take p C @ take m from @ drop (p + m) C \<and>
    file_content (disk_sector (disk_file d')) h = file_content (disk_sector (disk_file d)) h"
proof -
  have len: "length (file_content (disk_sector (disk_file d)) (of_hdr f)) = nat (fh_numBytes (of_hdr f))"
    by (rule synch_disk.length_file_content [OF assms(1,2)])
  from synch_disk.WriteAt_spec [OF assms(1-5), of junk] obtain d' where
    d': "WriteAt ReadSector WriteSector junk f from n position d
        = Inr (int (min (nat n) (nat (fh_numBytes (of_hdr f)) - nat position)), d')" "sd_ready d'"
      "file_content (disk_sector (disk_file d')) (of_hdr f)
        = take (nat position) (file_content (disk_sector (disk_file d)) (of_hdr f)) @
          take (min (nat n) (nat (fh_numBytes (of_hdr f)) - nat position)) from @
          drop (nat position + min (nat n) (nat (fh_numBytes (of_hdr f)) - nat position))
            (file_content (disk_sector (disk_file d)) (of_hdr f))"
      "\<forall>t. 0 \<le> t \<longrightarrow> t < NumSectors \<longrightarrow> t \<notin> set (file_sectors (of_hdr f)) \<longrightarrow>
        disk_sector (disk_file d') t = disk_sector (disk_file d) t"
    by blast
  then show ?thesis
    using synch_disk.other_file_content [OF assms(6,7), of d' d] unfolding Let_def len by blast
qed

theorem WriteAt_refines_splice_witness:
  "\<exists>d'. WriteAt ReadSector WriteSector (\<lambda>_. 99) \<lparr>of_hdr = demo_hdr, seekPosition = 0\<rparr> (replicate 90 7) 90 120 demo_synchdisk
      = Inr (80, d') \<and> sd_ready d'"
proof -
  let ?f = "\<lparr>of_hdr = demo_hdr, seekPosition = 0\<rparr>"
  let ?e = "\<lparr>fh_numBytes = 0, fh_numSectors = 0, dataSectors = replicate 30 0\<rparr>"
  have e: "hdr_ok ?e" "set (file_sectors ?e) = {}"
    by (simp_all add: hdr_ok_def file_sectors_def divRoundUp_def SectorSize_def)
  have len: "length (file_content (disk_sector (disk_file demo_synchdisk)) demo_hdr) = 200"
    using synch_disk.length_file_content [OF demo_synchdisk_ready demo_hdr_ok] by (simp add: demo_hdr_def)
  show ?thesis
    using WriteAt_refines_splice [OF demo_synchdisk_ready, of ?f 120 90 "replicate 90 7" ?e "\<lambda>_. 99"] e demo_hdr_ok len
    by (auto simp: Let_def)
qed

text \<open>
  \<^verbatim>\<open>ReadAt\<close> returns the window of the file the request names, cut at the end of the file,
  and changes nothing on the disk; a request at or after the end, or for no bytes, returns 0.
\<close>

theorem ReadAt_returns_window:
  assumes "sd_ready d" "hdr_ok (of_hdr f)" "0 \<le> position" "position + n < 2 ^ 31"
  shows "\<exists>d'. ReadAt ReadSector f n position d
      = Inr (take (nat n) (drop (nat position) (file_content (disk_sector (disk_file d)) (of_hdr f))), d') \<and> sd_ready d' \<and>
    (\<forall>t. 0 \<le> t \<longrightarrow> t < NumSectors \<longrightarrow> disk_sector (disk_file d') t = disk_sector (disk_file d) t)"
  using synch_disk.ReadAt_spec [OF assms] unfolding same_sectors_def by blast

theorem ReadAt_returns_window_witness:
  "\<exists>bs d'. ReadAt ReadSector \<lparr>of_hdr = demo_hdr, seekPosition = 0\<rparr> 50 190 demo_synchdisk = Inr (bs, d') \<and> length bs = 10"
proof -
  let ?f = "\<lparr>of_hdr = demo_hdr, seekPosition = 0\<rparr>"
  have len: "length (file_content (disk_sector (disk_file demo_synchdisk)) demo_hdr) = 200"
    using synch_disk.length_file_content [OF demo_synchdisk_ready demo_hdr_ok] by (simp add: demo_hdr_def)
  then show ?thesis
    using ReadAt_returns_window [OF demo_synchdisk_ready, of ?f 190 50] demo_hdr_ok by auto
qed

definition demo_map :: BitMap where
  "demo_map = \<lparr>numBits = 1024, numWords = 32, bmap = replicate 32 0\<rparr>"

lemma demo_map_ok: "BitMap_ok demo_map" "numBits demo_map = NumSectors" "BitMap_set demo_map = {}"
proof -
  show "BitMap_ok demo_map" "numBits demo_map = NumSectors"
    by (simp_all add: demo_map_def BitMap_ok_def divRoundUp_def BitsInWord_def)
  have "nat (i div 32) < 32" if "0 \<le> i" "i < 1024" for i :: int using that by simp
  then show "BitMap_set demo_map = {}" by (simp add: demo_map_def BitMap_set_def)
qed

lemma demo_hdr_rep: "hdr_rep demo_hdr"
  by (simp add: demo_hdr_def hdr_rep_def int32_def list_all_iff)

text \<open>
  Property C38. \<^verbatim>\<open>FileHeader::Allocate\<close> on every size: with too few free sectors it returns \<^verbatim>\<open>FALSE\<close> and
  takes none; otherwise, for a file of at most \<^verbatim>\<open>MaxFileSize\<close> bytes, it takes exactly as many
  sectors as the file needs, all of them free before, distinct and marked afterwards, and the header
  is well formed; for a larger file it writes past the array \<^verbatim>\<open>dataSectors\<close>, because nothing
  compares the size with \<^verbatim>\<open>MaxFileSize\<close>.
\<close>

theorem FileHeader_Allocate_cases:
  assumes "BitMap_ok fm" "numBits fm = NumSectors" "hdr_rep h" "0 \<le> fileSize"
  shows "if int (card (free_sectors fm)) < divRoundUp fileSize SectorSize
    then \<exists>h'. FileHeader_Allocate fileSize h fm = Inr (False, h', fm)
    else if fileSize \<le> MaxFileSize
    then \<exists>h' fm'. FileHeader_Allocate fileSize h fm = Inr (True, h', fm') \<and> hdr_ok h' \<and> hdr_rep h' \<and>
      FileLength h' = fileSize \<and> int (length (file_sectors h')) = divRoundUp fileSize SectorSize \<and>
      set (file_sectors h') \<subseteq> free_sectors fm \<and> BitMap_ok fm' \<and> numBits fm' = NumSectors \<and>
      BitMap_set fm' = BitMap_set fm \<union> set (file_sectors h')
    else FileHeader_Allocate fileSize h fm = Inl Undefined"
proof -
  let ?h1 = "h\<lparr>fh_numBytes := fileSize, fh_numSectors := divRoundUp fileSize SectorSize\<rparr>"
  let ?n = "nat (divRoundUp fileSize SectorSize)"
  consider "int (card (free_sectors fm)) < divRoundUp fileSize SectorSize"
    | "\<not> int (card (free_sectors fm)) < divRoundUp fileSize SectorSize" "fileSize \<le> MaxFileSize"
    | "\<not> int (card (free_sectors fm)) < divRoundUp fileSize SectorSize" "\<not> fileSize \<le> MaxFileSize" by blast
  then show ?thesis
  proof cases
    case 1 then show ?thesis by (simp add: FileHeader_Allocate_def BitMap_NumClear_card)
  next
    case 2
    then obtain h' fm' where h': "FileHeader_Allocate fileSize h fm = Inr (True, h', fm')" "hdr_ok h'" "hdr_rep h'"
      "fh_numBytes h' = fileSize" "set (file_sectors h') \<subseteq> free_sectors fm" "BitMap_ok fm'" "numBits fm' = NumSectors"
      "BitMap_set fm' = BitMap_set fm \<union> set (file_sectors h')"
      using Allocate_enough [OF assms 2(2)] by fastforce
    have "int (length (file_sectors h')) = fh_numSectors h'" using hdr_ok_sectors [OF h'(2)] by metis
    then show ?thesis using 2 h' by (simp add: hdr_ok_def FileLength_def)
  next
    case 3
    then have "\<not> divRoundUp fileSize SectorSize \<le> 30" using divRoundUp_sector(2) [OF assms(4)] by simp
    then have "Allocate_loop ?n 0 ?h1 fm = Inl Undefined"
      using 3 assms(3) by (intro Allocate_loop_overflow [OF assms(1)]) (auto simp: hdr_rep_def)
    then show ?thesis using 3 by (simp add: FileHeader_Allocate_def BitMap_NumClear_card)
  qed
qed

theorem FileHeader_Allocate_cases_witness:
  "(\<exists>h' fm'. FileHeader_Allocate 200 demo_hdr demo_map = Inr (True, h', fm') \<and> length (file_sectors h') = 2) \<and>
   FileHeader_Allocate 4000 demo_hdr demo_map = Inl Undefined \<and>
   (\<exists>h'. FileHeader_Allocate 200000 demo_hdr demo_map = Inr (False, h', demo_map))"
proof -
  have r: "divRoundUp 200 SectorSize = 2" "divRoundUp 4000 SectorSize = 32" "divRoundUp 200000 SectorSize = 1563"
    by (simp_all add: divRoundUp_def SectorSize_def)
  have c: "card (free_sectors demo_map) = 1024" by (simp add: demo_map_ok)
  show ?thesis
    using FileHeader_Allocate_cases [OF demo_map_ok(1,2) demo_hdr_rep, of 200]
      FileHeader_Allocate_cases [OF demo_map_ok(1,2) demo_hdr_rep, of 4000]
      FileHeader_Allocate_cases [OF demo_map_ok(1,2) demo_hdr_rep, of 200000]
    unfolding c r by auto
qed

text \<open>
  \<^verbatim>\<open>Deallocate\<close> after \<^verbatim>\<open>Allocate\<close>: the assertion that every data sector is marked holds, and
  the set of allocated sectors is what it was before.
\<close>

theorem Deallocate_undoes_Allocate:
  assumes "BitMap_ok fm" "numBits fm = NumSectors" "hdr_rep h" "0 \<le> fileSize" "fileSize \<le> MaxFileSize"
    and "FileHeader_Allocate fileSize h fm = Inr (True, h', fm')"
  shows "\<exists>fm''. FileHeader_Deallocate h' fm' = Inr fm'' \<and> BitMap_ok fm'' \<and> BitMap_set fm'' = BitMap_set fm"
proof -
  have "divRoundUp fileSize SectorSize \<le> int (card (free_sectors fm))"
    using assms(6) by (simp add: FileHeader_Allocate_def BitMap_NumClear_card Let_def split: if_splits)
  then have h': "hdr_ok h'" "set (file_sectors h') \<subseteq> free_sectors fm" "BitMap_ok fm'"
    "BitMap_set fm' = BitMap_set fm \<union> set (file_sectors h')"
    using Allocate_enough [OF assms(1-5)] assms(6) by auto
  then show ?thesis using Deallocate_spec [of fm' h'] by auto
qed

theorem Deallocate_undoes_Allocate_witness:
  "\<exists>h' fm' fm''. FileHeader_Allocate 200 demo_hdr demo_map = Inr (True, h', fm') \<and>
     FileHeader_Deallocate h' fm' = Inr fm'' \<and> BitMap_set fm'' = {}"
proof -
  have "divRoundUp 200 SectorSize \<le> int (card (free_sectors demo_map))"
    by (simp add: demo_map_ok divRoundUp_def SectorSize_def)
  then obtain h' fm' where "FileHeader_Allocate 200 demo_hdr demo_map = Inr (True, h', fm')"
    using Allocate_enough [OF demo_map_ok(1,2) demo_hdr_rep, of 200] by auto
  with Deallocate_undoes_Allocate [OF demo_map_ok(1,2) demo_hdr_rep _ _ this] show ?thesis
    by (auto simp: demo_map_ok)
qed

end
