(* ===== verification/Nachos_Directory.thy ===== *)
theory Nachos_Directory
  imports Nachos_OpenFile
begin

text \<open>
  \<^verbatim>\<open>filesys/directory.cc\<close>, \<^verbatim>\<open>filesys/directory.h\<close>: the table that maps file names to the sectors of
  their headers, and its image on disk. A \<^verbatim>\<open>char*\<close> is the list of bytes it points to, followed by
  zeros; a name counts up to its first zero and up to \<^verbatim>\<open>FileNameMaxLen\<close> bytes, the list
  \<open>cstr FileNameMaxLen name\<close>. The table is shown to be a partial map from these keys to sectors.
\<close>

section \<open>C strings\<close>

definition char0 :: "8 word list \<Rightarrow> 8 word" where
  "char0 s = (case s of [] \<Rightarrow> 0 | c # _ \<Rightarrow> c)"

text \<open>\<^verbatim>\<open>strncmp (a, b, n) == 0\<close> and the bytes \<^verbatim>\<open>strncpy (\<dots>, src, n)\<close> stores.\<close>

fun strncmp_eq :: "nat \<Rightarrow> 8 word list \<Rightarrow> 8 word list \<Rightarrow> bool" where
  "strncmp_eq 0 a b = True"
| "strncmp_eq (Suc n) a b = (char0 a = char0 b \<and> (char0 a = 0 \<or> strncmp_eq n (tl a) (tl b)))"

fun strncpy :: "nat \<Rightarrow> 8 word list \<Rightarrow> 8 word list" where
  "strncpy 0 src = []"
| "strncpy (Suc n) src = (if char0 src = 0 then replicate (Suc n) 0 else char0 src # strncpy n (tl src))"

definition cstr :: "nat \<Rightarrow> 8 word list \<Rightarrow> 8 word list" where
  "cstr n s = takeWhile (\<lambda>c. c \<noteq> 0) (take n s)"

lemma cstr_Suc: "cstr (Suc n) s = (if char0 s = 0 then [] else char0 s # cstr n (tl s))"
  by (cases s) (auto simp: cstr_def char0_def)

lemma strncmp_eq_cstr: "strncmp_eq n a b \<longleftrightarrow> cstr n a = cstr n b"
  by (induction n arbitrary: a b) (simp add: cstr_def, auto simp: cstr_Suc)

lemma length_strncpy [simp]: "length (strncpy n src) = n"
  by (induction n arbitrary: src) simp_all

lemma cstr_strncpy [simp]: "cstr n (strncpy n src @ rest) = cstr n src"
proof (induction n arbitrary: src)
  case (Suc n)
  then show ?case by (cases "char0 src = 0") (auto simp: cstr_Suc char0_def)
qed (simp add: cstr_def)

section \<open>The directory\<close>

definition FileNameMaxLen :: nat where "FileNameMaxLen = 9"

text \<open>
  An entry: one byte \<^verbatim>\<open>inUse\<close>, three of padding, the \<^verbatim>\<open>int\<close>, the ten characters and two more of
  padding; \<open>de_pad\<close> holds the padding.
\<close>

record DirectoryEntry =
  inUse :: bool
  de_sector :: int
  de_name :: "8 word list"
  de_pad :: "8 word list"

record Directory =
  table :: "DirectoryEntry list"

definition sizeof_DirectoryEntry :: nat where "sizeof_DirectoryEntry = 20"

definition Directory_new :: "nat \<Rightarrow> (nat \<Rightarrow> DirectoryEntry) \<Rightarrow> Directory" where
  "Directory_new n junk = \<lparr>table = map (\<lambda>i. (junk i)\<lparr>inUse := False\<rparr>) [0..<n]\<rparr>"

fun FindIndex_loop :: "int \<Rightarrow> DirectoryEntry list \<Rightarrow> 8 word list \<Rightarrow> int" where
  "FindIndex_loop i [] name = - 1"
| "FindIndex_loop i (e # es) name =
     (if inUse e \<and> strncmp_eq FileNameMaxLen (de_name e) name then i else FindIndex_loop (i + 1) es name)"

definition FindIndex :: "8 word list \<Rightarrow> Directory \<Rightarrow> int" where
  "FindIndex name dir = FindIndex_loop 0 (table dir) name"

definition Directory_Find :: "8 word list \<Rightarrow> Directory \<Rightarrow> int" where
  "Directory_Find name dir =
     (let i = FindIndex name dir in if i \<noteq> - 1 then de_sector (table dir ! nat i) else - 1)"

fun Add_loop :: "DirectoryEntry list \<Rightarrow> 8 word list \<Rightarrow> int \<Rightarrow> bool \<times> DirectoryEntry list" where
  "Add_loop [] name newSector = (False, [])"
| "Add_loop (e # es) name newSector =
     (if \<not> inUse e then
        (True, e\<lparr>inUse := True, de_name := strncpy FileNameMaxLen name @ drop FileNameMaxLen (de_name e),
                 de_sector := newSector\<rparr> # es)
      else let (success, es') = Add_loop es name newSector in (success, e # es'))"

definition Directory_Add :: "8 word list \<Rightarrow> int \<Rightarrow> Directory \<Rightarrow> bool \<times> Directory" where
  "Directory_Add name newSector dir =
     (if FindIndex name dir \<noteq> - 1 then (False, dir)
      else let (success, es) = Add_loop (table dir) name newSector in (success, dir\<lparr>table := es\<rparr>))"

definition Directory_Remove :: "8 word list \<Rightarrow> Directory \<Rightarrow> bool \<times> Directory" where
  "Directory_Remove name dir =
     (let i = FindIndex name dir in
      if i = - 1 then (False, dir)
      else (True, dir\<lparr>table := (table dir)[nat i := (table dir ! nat i)\<lparr>inUse := False\<rparr>]\<rparr>))"

text \<open>\<^verbatim>\<open>List\<close>: the arrays whose characters are printed, one line each.\<close>

definition Directory_List :: "Directory \<Rightarrow> 8 word list list" where
  "Directory_List dir = map de_name (filter inUse (table dir))"

section \<open>On disk\<close>

definition entry_bytes :: "bool \<Rightarrow> DirectoryEntry \<Rightarrow> 8 word list" where
  "entry_bytes big e = (if inUse e then 1 else 0) # take 3 (de_pad e) @ word_bytes big (word_of_int (de_sector e)) @
     de_name e @ drop 3 (de_pad e)"

definition entry_of_bytes :: "bool \<Rightarrow> 8 word list \<Rightarrow> DirectoryEntry" where
  "entry_of_bytes big bs =
     \<lparr>inUse = (bs ! 0 \<noteq> 0), de_sector = sint (bytes_word big (take 4 (drop 4 bs))),
      de_name = take 10 (drop 8 bs), de_pad = take 3 (drop 1 bs) @ take 2 (drop 18 bs)\<rparr>"

definition table_bytes :: "bool \<Rightarrow> Directory \<Rightarrow> 8 word list" where
  "table_bytes big dir = concat (map (entry_bytes big) (table dir))"

definition table_of_bytes :: "bool \<Rightarrow> nat \<Rightarrow> 8 word list \<Rightarrow> Directory" where
  "table_of_bytes big n bs = \<lparr>table = map (\<lambda>i. entry_of_bytes big (take 20 (drop (20 * i) bs))) [0..<n]\<rparr>"

definition Directory_FetchFrom ::
    "(int \<Rightarrow> 'd \<Rightarrow> (8 word list \<times> 'd) res) \<Rightarrow> bool \<Rightarrow> OpenFile \<Rightarrow> Directory \<Rightarrow> 'd \<Rightarrow> (Directory \<times> 'd) res" where
  "Directory_FetchFrom rd big file dir d =
     (let tableSize = length (table dir) in
      andThen (ReadAt rd file (int (tableSize * sizeof_DirectoryEntry)) 0 d) (\<lambda>(bs, d').
        Inr (table_of_bytes big tableSize (bs @ drop (length bs) (table_bytes big dir)), d')))"

definition Directory_WriteBack ::
    "(int \<Rightarrow> 'd \<Rightarrow> (8 word list \<times> 'd) res) \<Rightarrow> (int \<Rightarrow> 8 word list \<Rightarrow> 'd \<Rightarrow> 'd res) \<Rightarrow> (nat \<Rightarrow> 8 word) \<Rightarrow> bool \<Rightarrow>
     OpenFile \<Rightarrow> Directory \<Rightarrow> 'd \<Rightarrow> 'd res" where
  "Directory_WriteBack rd wr junk big file dir d =
     andThen (WriteAt rd wr junk file (table_bytes big dir) (int (length (table dir) * sizeof_DirectoryEntry)) 0 d)
       (\<lambda>(_, d'). Inr d')"

section \<open>The table as a map\<close>

definition entry_key :: "DirectoryEntry \<Rightarrow> 8 word list" where
  "entry_key e = cstr FileNameMaxLen (de_name e)"

definition used_entries :: "Directory \<Rightarrow> DirectoryEntry list" where
  "used_entries dir = filter inUse (table dir)"

definition dir_map :: "Directory \<Rightarrow> 8 word list \<Rightarrow> int option" where
  "dir_map dir = map_of (map (\<lambda>e. (entry_key e, de_sector e)) (used_entries dir))"

definition entry_rep :: "DirectoryEntry \<Rightarrow> bool" where
  "entry_rep e \<longleftrightarrow> length (de_name e) = 10 \<and> length (de_pad e) = 5 \<and> int32 (de_sector e)"

definition dir_ok :: "Directory \<Rightarrow> bool" where
  "dir_ok dir \<longleftrightarrow> list_all entry_rep (table dir) \<and> distinct (map entry_key (used_entries dir)) \<and>
     list_all (\<lambda>e. 0 \<le> de_sector e) (used_entries dir)"

lemma FindIndex_loop_spec:
  "FindIndex_loop i es name = - 1 \<and> (\<forall>e \<in> set es. inUse e \<longrightarrow> entry_key e \<noteq> cstr FileNameMaxLen name) \<or>
   (\<exists>j < length es. FindIndex_loop i es name = i + int j \<and> inUse (es ! j) \<and> entry_key (es ! j) = cstr FileNameMaxLen name)"
proof (induction es arbitrary: i)
  case (Cons e es)
  show ?case
  proof (cases "inUse e \<and> entry_key e = cstr FileNameMaxLen name")
    case True
    then show ?thesis by (intro disjI2 exI [of _ 0]) (simp add: strncmp_eq_cstr entry_key_def)
  next
    case False
    then have "FindIndex_loop i (e # es) name = FindIndex_loop (i + 1) es name"
      by (auto simp: strncmp_eq_cstr entry_key_def)
    then show ?thesis using Cons.IH [of "i + 1"] False by (force intro: exI [of _ "Suc _"])
  qed
qed simp

lemma dir_map_None: "dir_map dir k = None \<longleftrightarrow> k \<notin> entry_key ` set (used_entries dir)"
  by (simp add: dir_map_def map_of_eq_None_iff image_image)

lemma dir_map_entry:
  assumes "dir_ok dir" "e \<in> set (used_entries dir)"
  shows "dir_map dir (entry_key e) = Some (de_sector e)"
  unfolding dir_map_def using assms by (intro map_of_is_SomeI) (auto simp: dir_ok_def comp_def)

lemma FindIndex_spec:
  assumes "dir_ok dir"
  shows "FindIndex name dir = - 1 \<and> dir_map dir (cstr FileNameMaxLen name) = None \<or>
   (\<exists>j < length (table dir). FindIndex name dir = int j \<and> inUse (table dir ! j) \<and>
      entry_key (table dir ! j) = cstr FileNameMaxLen name \<and>
      dir_map dir (cstr FileNameMaxLen name) = Some (de_sector (table dir ! j)))"
  using FindIndex_loop_spec [of 0 "table dir" name]
proof
  assume "FindIndex_loop 0 (table dir) name = - 1 \<and> (\<forall>e \<in> set (table dir). inUse e \<longrightarrow> entry_key e \<noteq> cstr FileNameMaxLen name)"
  then show ?thesis by (auto simp: FindIndex_def dir_map_None used_entries_def)
next
  assume "\<exists>j < length (table dir). FindIndex_loop 0 (table dir) name = 0 + int j \<and> inUse (table dir ! j) \<and>
      entry_key (table dir ! j) = cstr FileNameMaxLen name"
  then obtain j where j: "j < length (table dir)" "FindIndex_loop 0 (table dir) name = int j" "inUse (table dir ! j)"
      "entry_key (table dir ! j) = cstr FileNameMaxLen name" by auto
  then have "table dir ! j \<in> set (used_entries dir)" by (simp add: used_entries_def)
  from dir_map_entry [OF assms this] show ?thesis using j by (auto simp: FindIndex_def)
qed

lemma Find_spec:
  assumes "dir_ok dir"
  shows "Directory_Find name dir = (case dir_map dir (cstr FileNameMaxLen name) of None \<Rightarrow> - 1 | Some s \<Rightarrow> s)"
  using FindIndex_spec [OF assms, of name] by (auto simp: Directory_Find_def)

lemma Add_loop_spec:
  "Add_loop es name s = (False, es) \<and> list_all inUse es \<or>
   (\<exists>as e bs. es = as @ e # bs \<and> list_all inUse as \<and> \<not> inUse e \<and>
     Add_loop es name s = (True, as @ e\<lparr>inUse := True, de_name := strncpy FileNameMaxLen name @ drop FileNameMaxLen (de_name e),
       de_sector := s\<rparr> # bs))"
proof (induction es)
  case (Cons e es)
  show ?case
  proof (cases "inUse e")
    case False
    then show ?thesis by (intro disjI2 exI [of _ "[]"]) auto
  next
    case True
    from Cons.IH show ?thesis
    proof
      assume "Add_loop es name s = (False, es) \<and> list_all inUse es"
      then show ?thesis using True by simp
    next
      assume "\<exists>as e bs. es = as @ e # bs \<and> list_all inUse as \<and> \<not> inUse e \<and> Add_loop es name s = (True, as @ e\<lparr>inUse := True,
        de_name := strncpy FileNameMaxLen name @ drop FileNameMaxLen (de_name e), de_sector := s\<rparr> # bs)"
      then obtain as x bs where "es = as @ x # bs" "list_all inUse as" "\<not> inUse x" "Add_loop es name s = (True, as @ x\<lparr>inUse := True,
        de_name := strncpy FileNameMaxLen name @ drop FileNameMaxLen (de_name x), de_sector := s\<rparr> # bs)" by blast
      then show ?thesis using True by (intro disjI2 exI [of _ "e # as"] exI [of _ x] exI [of _ bs]) simp
    qed
  qed
qed simp

lemma Add_spec:
  fixes name :: "8 word list"
  assumes "dir_ok dir" "0 \<le> s" "int32 s"
  defines "k \<equiv> cstr FileNameMaxLen name"
  shows "if dir_map dir k \<noteq> None \<or> list_all inUse (table dir) then Directory_Add name s dir = (False, dir)
    else \<exists>dir'. Directory_Add name s dir = (True, dir') \<and> dir_ok dir' \<and> dir_map dir' = (dir_map dir)(k \<mapsto> s) \<and>
      length (table dir') = length (table dir) \<and>
      (\<exists>e xs ys. used_entries dir = xs @ ys \<and> used_entries dir' = xs @ e # ys \<and> entry_key e = k \<and> de_sector e = s)"
proof (cases "dir_map dir k = None \<and> \<not> list_all inUse (table dir)")
  case False
  then show ?thesis
    using FindIndex_spec [OF assms(1), of name] Add_loop_spec [of "table dir" name s] unfolding k_def
    by (auto simp: Directory_Add_def)
next
  case True
  then have nf: "FindIndex name dir = - 1" using FindIndex_spec [OF assms(1), of name] by (auto simp: k_def)
  from True Add_loop_spec [of "table dir" name s] obtain as e bs where e: "table dir = as @ e # bs" "list_all inUse as"
    "\<not> inUse e" "Add_loop (table dir) name s = (True, as @ e\<lparr>inUse := True,
       de_name := strncpy FileNameMaxLen name @ drop FileNameMaxLen (de_name e), de_sector := s\<rparr> # bs)" by auto
  define e' where "e' = e\<lparr>inUse := True, de_name := strncpy FileNameMaxLen name @ drop FileNameMaxLen (de_name e), de_sector := s\<rparr>"
  have e': "inUse e'" "de_sector e' = s" "de_pad e' = de_pad e" "length (de_name e') = 9 + (length (de_name e) - 9)"
    by (simp_all add: e'_def FileNameMaxLen_def)
  let ?dir = "dir\<lparr>table := as @ e' # bs\<rparr>"
  have key: "entry_key e' = k" by (simp add: entry_key_def k_def e'_def)
  have u: "used_entries dir = filter inUse as @ filter inUse bs" "used_entries ?dir = filter inUse as @ e' # filter inUse bs"
    using e(1,3) e'(1) by (simp_all add: used_entries_def)
  have new: "k \<notin> entry_key ` set (used_entries dir)" using True by (auto simp: dir_map_None)
  have "dir_ok ?dir"
    unfolding dir_ok_def u
    using assms(1-3) e(1) e' key new unfolding dir_ok_def u by (auto simp: entry_rep_def)
  moreover have "dir_map ?dir = (dir_map dir)(k \<mapsto> s)"
  proof
    fix x show "dir_map ?dir x = ((dir_map dir)(k \<mapsto> s)) x"
      using True key e'(2) unfolding dir_map_def u by (auto simp: map_add_def split: option.splits)
  qed
  moreover have "Directory_Add name s dir = (True, ?dir)" using nf e(4) [folded e'_def] by (simp add: Directory_Add_def)
  ultimately show ?thesis using True u key e(1) e'(2) by auto
qed

lemma Remove_spec:
  fixes name :: "8 word list"
  assumes "dir_ok dir"
  defines "k \<equiv> cstr FileNameMaxLen name"
  shows "if dir_map dir k = None then Directory_Remove name dir = (False, dir)
    else \<exists>dir'. Directory_Remove name dir = (True, dir') \<and> dir_ok dir' \<and> dir_map dir' = (dir_map dir)(k := None) \<and>
      length (table dir') = length (table dir) \<and> \<not> list_all inUse (table dir') \<and>
      (\<exists>e xs ys. used_entries dir = xs @ e # ys \<and> used_entries dir' = xs @ ys \<and> entry_key e = k)"
proof (cases "dir_map dir k")
  case None
  then show ?thesis using FindIndex_spec [OF assms(1), of name] by (auto simp: k_def Directory_Remove_def)
next
  case (Some s)
  then obtain j where j: "j < length (table dir)" "FindIndex name dir = int j" "inUse (table dir ! j)" "entry_key (table dir ! j) = k"
    using FindIndex_spec [OF assms(1), of name] by (auto simp: k_def)
  define as where "as = take j (table dir)"
  define e where "e = table dir ! j"
  define bs where "bs = drop (Suc j) (table dir)"
  define e' where "e' = e\<lparr>inUse := False\<rparr>"
  have t: "table dir = as @ e # bs" "(table dir)[j := e'] = as @ e' # bs"
    using j(1) by (simp_all add: as_def e_def bs_def id_take_nth_drop [symmetric] upd_conv_take_nth_drop)
  let ?dir = "dir\<lparr>table := as @ e' # bs\<rparr>"
  have e': "\<not> inUse e'" "de_pad e' = de_pad e" "de_name e' = de_name e" "de_sector e' = de_sector e" by (simp_all add: e'_def)
  have u: "used_entries dir = filter inUse as @ e # filter inUse bs" "used_entries ?dir = filter inUse as @ filter inUse bs"
    using t(1) e'(1) j(3) [folded e_def] by (simp_all add: used_entries_def)
  have d: "distinct (map entry_key (used_entries dir))" using assms(1) by (simp add: dir_ok_def)
  have key: "entry_key e = k" using j(4) by (simp add: e_def)
  have "dir_ok ?dir" unfolding dir_ok_def u
    using assms(1) t(1) e' unfolding dir_ok_def u by (auto simp: entry_rep_def)
  moreover have "dir_map ?dir = (dir_map dir)(k := None)"
  proof
    fix x
    have "dir_map ?dir k = None" using d key unfolding u dir_map_None by auto
    moreover have "dir_map ?dir x = dir_map dir x" if "x \<noteq> k"
      using that key unfolding dir_map_def u by (auto simp: map_add_def split: option.splits)
    ultimately show "dir_map ?dir x = ((dir_map dir)(k := None)) x" by simp
  qed
  moreover have "Directory_Remove name dir = (True, ?dir)"
    using j(2) t(2) by (simp add: Directory_Remove_def Let_def e'_def e_def)
  moreover have "\<not> list_all inUse (table ?dir)" "length (table ?dir) = length (table dir)" using e'(1) t(1) by simp_all
  ultimately show ?thesis using Some u key by auto
qed

section \<open>Round trip to disk\<close>

lemma length_entry_bytes: "entry_rep e \<Longrightarrow> length (entry_bytes big e) = 20"
  by (simp add: entry_rep_def entry_bytes_def)

lemma entry_of_bytes_bytes:
  assumes "entry_rep e"
  shows "entry_of_bytes big (entry_bytes big e) = e"
proof -
  define w where "w = word_bytes big (word_of_int (de_sector e))"
  have l: "length (de_name e) = 10" "length (de_pad e) = 5" "length w = 4" "int32 (de_sector e)"
    using assms by (simp_all add: entry_rep_def w_def)
  have "bytes_word big w = word_of_int (de_sector e)" by (simp add: w_def)
  then have s: "sint (bytes_word big w) = de_sector e" using l(4) by (simp add: sint_word_of_int32)
  have "take 3 (de_pad e) @ drop 3 (de_pad e) = de_pad e" by simp
  then show ?thesis using l s by (simp add: entry_of_bytes_def entry_bytes_def flip: w_def)
qed

lemma length_table_bytes: "list_all entry_rep (table dir) \<Longrightarrow> length (table_bytes big dir) = 20 * length (table dir)"
  unfolding table_bytes_def by (rule length_blocks) (auto simp: list_all_iff length_entry_bytes)

lemma table_of_bytes_bytes:
  assumes "list_all entry_rep (table dir)"
  shows "table_of_bytes big (length (table dir)) (table_bytes big dir) = dir"
proof -
  have "take 20 (drop (20 * i) (table_bytes big dir)) = entry_bytes big (table dir ! i)" if "i < length (table dir)" for i
    unfolding table_bytes_def using assms that by (intro nth_block) (auto simp: list_all_iff length_entry_bytes)
  moreover have "entry_rep (table dir ! i)" if "i < length (table dir)" for i using assms that by (simp add: list_all_length)
  ultimately have "table (table_of_bytes big (length (table dir)) (table_bytes big dir)) = table dir"
    by (intro nth_equalityI) (simp_all add: table_of_bytes_def entry_of_bytes_bytes)
  then show ?thesis by simp
qed

lemma entry_of_bytes_rep: "length bs = 20 \<Longrightarrow> entry_rep (entry_of_bytes big bs)"
  by (simp add: entry_rep_def entry_of_bytes_def sint_int32)

section \<open>The interface of the directory\<close>

text \<open>
  What the file system relies on: a finite table from names to sectors in which two names are the
  same when they have the same key; a lookup finds what was added last under the key, -1 stands for a
  missing name, and an operation that fails changes nothing.
\<close>

locale name_table =
  fixes ok :: "'d \<Rightarrow> bool" and full :: "'d \<Rightarrow> bool" and contents :: "'d \<Rightarrow> 'k \<Rightarrow> int option" and key :: "'n \<Rightarrow> 'k"
    and valid :: "int \<Rightarrow> bool"
    and find :: "'n \<Rightarrow> 'd \<Rightarrow> int" and add :: "'n \<Rightarrow> int \<Rightarrow> 'd \<Rightarrow> bool \<times> 'd" and remove :: "'n \<Rightarrow> 'd \<Rightarrow> bool \<times> 'd"
  assumes find_contents: "ok d \<Longrightarrow> find n d = (case contents d (key n) of None \<Rightarrow> - 1 | Some s \<Rightarrow> s)"
    and contents_nonneg: "ok d \<Longrightarrow> contents d k = Some s \<Longrightarrow> 0 \<le> s"
    and add_refuses: "ok d \<Longrightarrow> valid s \<Longrightarrow> contents d (key n) \<noteq> None \<or> full d \<Longrightarrow> add n s d = (False, d)"
    and add_contents: "ok d \<Longrightarrow> valid s \<Longrightarrow> contents d (key n) = None \<Longrightarrow> \<not> full d \<Longrightarrow>
      \<exists>d'. add n s d = (True, d') \<and> ok d' \<and> contents d' = (contents d)(key n \<mapsto> s)"
    and remove_refuses: "ok d \<Longrightarrow> contents d (key n) = None \<Longrightarrow> remove n d = (False, d)"
    and remove_contents: "ok d \<Longrightarrow> contents d (key n) \<noteq> None \<Longrightarrow>
      \<exists>d'. remove n d = (True, d') \<and> ok d' \<and> contents d' = (contents d)(key n := None) \<and> \<not> full d'"
begin

lemma find_missing: "ok d \<Longrightarrow> find n d = - 1 \<longleftrightarrow> contents d (key n) = None"
  by (auto simp: find_contents dest: contents_nonneg split: option.splits)

lemma add_laws:
  assumes "ok d" "valid s"
  shows "if find n d \<noteq> - 1 \<or> full d then add n s d = (False, d)
    else \<exists>d'. add n s d = (True, d') \<and> ok d' \<and> (\<forall>n'. find n' d' = (if key n' = key n then s else find n' d)) \<and>
      (\<exists>d''. remove n d' = (True, d'') \<and> ok d'' \<and> (\<forall>n'. find n' d'' = find n' d))"
proof (cases "contents d (key n) \<noteq> None \<or> full d")
  case True
  then show ?thesis using add_refuses [OF assms] by (simp add: find_missing assms)
next
  case False
  then obtain d' where d': "add n s d = (True, d')" "ok d'" "contents d' = (contents d)(key n \<mapsto> s)"
    using add_contents [OF assms] by blast
  then obtain d'' where d'': "remove n d' = (True, d'')" "ok d''" "contents d'' = (contents d')(key n := None)"
    using remove_contents [OF d'(2), of n] by auto
  have "(contents d)(key n := None) = contents d" using False by auto
  then have "find n' d' = (if key n' = key n then s else find n' d)" "find n' d'' = find n' d" for n'
    using d' d'' assms(1) by (simp_all add: find_contents)
  then show ?thesis using False d' d'' by (auto simp: find_missing assms)
qed

lemma remove_laws:
  assumes "ok d"
  shows "if find n d = - 1 then remove n d = (False, d)
    else \<exists>d'. remove n d = (True, d') \<and> ok d' \<and> \<not> full d' \<and>
      (\<forall>n'. find n' d' = (if key n' = key n then - 1 else find n' d))"
proof (cases "contents d (key n) = None")
  case True
  then show ?thesis using remove_refuses [OF assms] by (simp add: find_missing assms)
next
  case False
  then obtain d' where "remove n d = (True, d')" "ok d'" "contents d' = (contents d)(key n := None)" "\<not> full d'"
    using remove_contents [OF assms] by blast
  then show ?thesis using False assms by (auto simp: find_missing) (simp add: find_contents)
qed

end

interpretation directory: name_table dir_ok "\<lambda>dir. list_all inUse (table dir)" dir_map "cstr FileNameMaxLen"
  "\<lambda>s. 0 \<le> s \<and> int32 s" Directory_Find Directory_Add Directory_Remove
proof unfold_locales
  fix d :: Directory assume ok: "dir_ok d"
  show "Directory_Find n d = (case dir_map d (cstr FileNameMaxLen n) of None \<Rightarrow> - 1 | Some s \<Rightarrow> s)" for n
    by (rule Find_spec [OF ok])
  show "0 \<le> s" if "dir_map d k = Some s" for k s
    using ok that by (auto simp: dir_map_def dir_ok_def list_all_iff dest!: map_of_SomeD)
  show "Directory_Add n s d = (False, d)"
    if "0 \<le> s \<and> int32 s" "dir_map d (cstr FileNameMaxLen n) \<noteq> None \<or> list_all inUse (table d)" for n s
    using Add_spec [OF ok, of s n] that by simp
  show "\<exists>d'. Directory_Add n s d = (True, d') \<and> dir_ok d' \<and> dir_map d' = (dir_map d)(cstr FileNameMaxLen n \<mapsto> s)"
    if "0 \<le> s \<and> int32 s" "dir_map d (cstr FileNameMaxLen n) = None" "\<not> list_all inUse (table d)" for n s
    using Add_spec [OF ok, of s n] that by auto
  show "Directory_Remove n d = (False, d)" if "dir_map d (cstr FileNameMaxLen n) = None" for n
    using Remove_spec [OF ok, of n] that by simp
  show "\<exists>d'. Directory_Remove n d = (True, d') \<and> dir_ok d' \<and>
      dir_map d' = (dir_map d)(cstr FileNameMaxLen n := None) \<and> \<not> list_all inUse (table d')"
    if "dir_map d (cstr FileNameMaxLen n) \<noteq> None" for n
    using Remove_spec [OF ok, of n] that by auto
qed

section \<open>Properties\<close>

text \<open>
  The directory is a table keyed by the first nine characters of a name: \<^verbatim>\<open>Add\<close> refuses a
  name whose key is present, or any name when all entries are in use, and then changes nothing;
  otherwise a lookup of any name with this key finds the new sector, every other name keeps its
  sector, and removing the name afterwards restores every lookup. \<^verbatim>\<open>Remove\<close> fails exactly on missing
  names and otherwise makes exactly this key disappear and leaves room for another file.
\<close>

theorem Directory_is_name_table:
  assumes "dir_ok dir" "0 \<le> s" "s < NumSectors"
  shows "(if Directory_Find name dir \<noteq> - 1 \<or> list_all inUse (table dir) then Directory_Add name s dir = (False, dir)
    else \<exists>dir'. Directory_Add name s dir = (True, dir') \<and> dir_ok dir' \<and>
      (\<forall>n. Directory_Find n dir' = (if cstr FileNameMaxLen n = cstr FileNameMaxLen name then s else Directory_Find n dir)) \<and>
      (\<exists>dir''. Directory_Remove name dir' = (True, dir'') \<and> dir_ok dir'' \<and> (\<forall>n. Directory_Find n dir'' = Directory_Find n dir))) \<and>
    (if Directory_Find name dir = - 1 then Directory_Remove name dir = (False, dir)
     else \<exists>dir'. Directory_Remove name dir = (True, dir') \<and> dir_ok dir' \<and> \<not> list_all inUse (table dir') \<and>
       (\<forall>n. Directory_Find n dir' = (if cstr FileNameMaxLen n = cstr FileNameMaxLen name then - 1 else Directory_Find n dir)))"
  using directory.add_laws [OF assms(1), of s name] directory.remove_laws [OF assms(1), of name] assms(2,3)
  by (simp add: int32_def)

definition demo_dir :: Directory where
  "demo_dir = Directory_new 2 (\<lambda>_. \<lparr>inUse = True, de_sector = 0, de_name = replicate 10 5, de_pad = replicate 5 0\<rparr>)"

lemma demo_dir_ok: "dir_ok demo_dir"
  by (simp add: demo_dir_def Directory_new_def dir_ok_def used_entries_def entry_rep_def int32_def numeral_2_eq_2)

theorem Directory_is_name_table_witness:
  "\<exists>dir'. Directory_Add [104, 105] 9 demo_dir = (True, dir') \<and> Directory_Find [104, 105] dir' = 9 \<and>
     Directory_Find [104] dir' = - 1"
proof -
  have "Directory_Find [104, 105] demo_dir = - 1" "Directory_Find [104] demo_dir = - 1" "\<not> list_all inUse (table demo_dir)"
    by (simp_all add: demo_dir_def Directory_new_def Directory_Find_def FindIndex_def numeral_2_eq_2)
  moreover have "cstr FileNameMaxLen [104] \<noteq> cstr FileNameMaxLen [104, 105]"
    by (simp add: cstr_def FileNameMaxLen_def)
  ultimately show ?thesis
    using Directory_is_name_table [OF demo_dir_ok, of 9 "[104, 105]"] by auto
qed

end
