(* ===== verification/Nachos_FileSys.thy ===== *)
theory Nachos_FileSys
  imports Nachos_Directory
begin

text \<open>
  \<^verbatim>\<open>filesys/filesys.cc\<close>, \<^verbatim>\<open>filesys/filesys.h\<close> and the disk operations of \<^verbatim>\<open>userprog/bitmap.cc\<close>: formatting,
  creating, opening, removing and listing files on top of the directory, the bitmap of free sectors
  and file headers. The file system is shown to be a partial map from names to byte arrays of fixed
  length; the invariant \<open>fs_ok\<close> says that the sectors of the headers and of the data are
  disjoint and are exactly the marked ones.
\<close>

section \<open>Bitmaps on disk\<close>

definition BitMap_bytes :: "bool \<Rightarrow> BitMap \<Rightarrow> 8 word list" where
  "BitMap_bytes big b = concat (map (word_bytes big) (bmap b))"

definition words_of_bytes :: "bool \<Rightarrow> nat \<Rightarrow> 8 word list \<Rightarrow> 32 word list" where
  "words_of_bytes big n bs = map (\<lambda>i. bytes_word big (take 4 (drop (4 * i) bs))) [0..<n]"

definition BitMap_FetchFrom ::
    "(int \<Rightarrow> 'd \<Rightarrow> (8 word list \<times> 'd) res) \<Rightarrow> bool \<Rightarrow> OpenFile \<Rightarrow> BitMap \<Rightarrow> 'd \<Rightarrow> (BitMap \<times> 'd) res" where
  "BitMap_FetchFrom rd big file b d =
     andThen (ReadAt rd file (numWords b * 4) 0 d) (\<lambda>(bs, d').
       Inr (b\<lparr>bmap := words_of_bytes big (nat (numWords b)) (bs @ drop (length bs) (BitMap_bytes big b))\<rparr>, d'))"

definition BitMap_WriteBack ::
    "(int \<Rightarrow> 'd \<Rightarrow> (8 word list \<times> 'd) res) \<Rightarrow> (int \<Rightarrow> 8 word list \<Rightarrow> 'd \<Rightarrow> 'd res) \<Rightarrow> (nat \<Rightarrow> 8 word) \<Rightarrow> bool \<Rightarrow>
     OpenFile \<Rightarrow> BitMap \<Rightarrow> 'd \<Rightarrow> 'd res" where
  "BitMap_WriteBack rd wr junk big file b d =
     andThen (WriteAt rd wr junk file (BitMap_bytes big b) (numWords b * 4) 0 d) (\<lambda>(_, d'). Inr d')"

section \<open>The file system\<close>

definition FreeMapSector :: int where "FreeMapSector = 0"
definition DirectorySector :: int where "DirectorySector = 1"
definition FreeMapFileSize :: int where "FreeMapFileSize = NumSectors div BitsInByte"
definition NumDirEntries :: nat where "NumDirEntries = 10"
definition DirectoryFileSize :: int where "DirectoryFileSize = int (sizeof_DirectoryEntry * NumDirEntries)"

record FileSystem =
  freeMapFile :: OpenFile
  directoryFile :: OpenFile

text \<open>What freshly allocated objects and buffers hold.\<close>

record fresh =
  fresh_entry :: "nat \<Rightarrow> DirectoryEntry"
  fresh_word :: "nat \<Rightarrow> 32 word"
  fresh_hdr :: FileHeader
  fresh_byte :: "nat \<Rightarrow> 8 word"

definition FileSystem_open ::
    "(int \<Rightarrow> 'd \<Rightarrow> (8 word list \<times> 'd) res) \<Rightarrow> bool \<Rightarrow> 'd \<Rightarrow> (FileSystem \<times> 'd) res" where
  "FileSystem_open rd big d =
     andThen (OpenFile_new rd big FreeMapSector d) (\<lambda>(mf, d1).
     andThen (OpenFile_new rd big DirectorySector d1) (\<lambda>(df, d2).
       Inr (\<lparr>freeMapFile = mf, directoryFile = df\<rparr>, d2)))"

definition FileSystem_new ::
    "(int \<Rightarrow> 'd \<Rightarrow> (8 word list \<times> 'd) res) \<Rightarrow> (int \<Rightarrow> 8 word list \<Rightarrow> 'd \<Rightarrow> 'd res) \<Rightarrow> fresh \<Rightarrow> bool \<Rightarrow>
     bool \<Rightarrow> 'd \<Rightarrow> (FileSystem \<times> 'd) res" where
  "FileSystem_new rd wr junk big format d =
     (if format then
        andThen (BitMap_new NumSectors (fresh_word junk)) (\<lambda>fm0.
        let directory = Directory_new NumDirEntries (fresh_entry junk) in
        andThen (BitMap_Mark FreeMapSector fm0) (\<lambda>fm1.
        andThen (BitMap_Mark DirectorySector fm1) (\<lambda>fm2.
        andThen (FileHeader_Allocate FreeMapFileSize (fresh_hdr junk) fm2) (\<lambda>(ok1, mapHdr, fm3).
        andThen (ASSERT ok1) (\<lambda>_.
        andThen (FileHeader_Allocate DirectoryFileSize (fresh_hdr junk) fm3) (\<lambda>(ok2, dirHdr, fm4).
        andThen (ASSERT ok2) (\<lambda>_.
        andThen (FileHeader_WriteBack wr big FreeMapSector mapHdr d) (\<lambda>d1.
        andThen (FileHeader_WriteBack wr big DirectorySector dirHdr d1) (\<lambda>d2.
        andThen (FileSystem_open rd big d2) (\<lambda>(fs, d3).
        andThen (BitMap_WriteBack rd wr (fresh_byte junk) big (freeMapFile fs) fm4 d3) (\<lambda>d4.
        andThen (Directory_WriteBack rd wr (fresh_byte junk) big (directoryFile fs) directory d4) (\<lambda>d5.
          Inr (fs, d5)))))))))))))
      else FileSystem_open rd big d)"

definition FileSystem_Create ::
    "(int \<Rightarrow> 'd \<Rightarrow> (8 word list \<times> 'd) res) \<Rightarrow> (int \<Rightarrow> 8 word list \<Rightarrow> 'd \<Rightarrow> 'd res) \<Rightarrow> fresh \<Rightarrow> bool \<Rightarrow>
     FileSystem \<Rightarrow> 8 word list \<Rightarrow> int \<Rightarrow> 'd \<Rightarrow> (bool \<times> 'd) res" where
  "FileSystem_Create rd wr junk big fs name initialSize d =
     andThen (Directory_FetchFrom rd big (directoryFile fs) (Directory_new NumDirEntries (fresh_entry junk)) d)
       (\<lambda>(directory, d1).
       if Directory_Find name directory \<noteq> - 1 then Inr (False, d1)
       else
         andThen (BitMap_new NumSectors (fresh_word junk)) (\<lambda>fm0.
         andThen (BitMap_FetchFrom rd big (freeMapFile fs) fm0 d1) (\<lambda>(fm1, d2).
         andThen (BitMap_Find fm1) (\<lambda>(sector, fm2).
         if sector = - 1 then Inr (False, d2)
         else case Directory_Add name sector directory of
           (False, _) \<Rightarrow> Inr (False, d2)
         | (True, directory') \<Rightarrow>
             andThen (FileHeader_Allocate initialSize (fresh_hdr junk) fm2) (\<lambda>(ok, hdr, fm3).
             if \<not> ok then Inr (False, d2)
             else
               andThen (FileHeader_WriteBack wr big sector hdr d2) (\<lambda>d3.
               andThen (Directory_WriteBack rd wr (fresh_byte junk) big (directoryFile fs) directory' d3) (\<lambda>d4.
               andThen (BitMap_WriteBack rd wr (fresh_byte junk) big (freeMapFile fs) fm3 d4) (\<lambda>d5.
                 Inr (True, d5)))))))))"

definition FileSystem_Open ::
    "(int \<Rightarrow> 'd \<Rightarrow> (8 word list \<times> 'd) res) \<Rightarrow> fresh \<Rightarrow> bool \<Rightarrow> FileSystem \<Rightarrow> 8 word list \<Rightarrow> 'd \<Rightarrow>
     (OpenFile option \<times> 'd) res" where
  "FileSystem_Open rd junk big fs name d =
     andThen (Directory_FetchFrom rd big (directoryFile fs) (Directory_new NumDirEntries (fresh_entry junk)) d)
       (\<lambda>(directory, d1).
       let sector = Directory_Find name directory in
       if sector \<ge> 0 then andThen (OpenFile_new rd big sector d1) (\<lambda>(f, d2). Inr (Some f, d2))
       else Inr (None, d1))"

definition FileSystem_Remove ::
    "(int \<Rightarrow> 'd \<Rightarrow> (8 word list \<times> 'd) res) \<Rightarrow> (int \<Rightarrow> 8 word list \<Rightarrow> 'd \<Rightarrow> 'd res) \<Rightarrow> fresh \<Rightarrow> bool \<Rightarrow>
     FileSystem \<Rightarrow> 8 word list \<Rightarrow> 'd \<Rightarrow> (bool \<times> 'd) res" where
  "FileSystem_Remove rd wr junk big fs name d =
     andThen (Directory_FetchFrom rd big (directoryFile fs) (Directory_new NumDirEntries (fresh_entry junk)) d)
       (\<lambda>(directory, d1).
       let sector = Directory_Find name directory in
       if sector = - 1 then Inr (False, d1)
       else
         andThen (FileHeader_FetchFrom rd big sector d1) (\<lambda>(fileHdr, d2).
         andThen (BitMap_new NumSectors (fresh_word junk)) (\<lambda>fm0.
         andThen (BitMap_FetchFrom rd big (freeMapFile fs) fm0 d2) (\<lambda>(fm1, d3).
         andThen (FileHeader_Deallocate fileHdr fm1) (\<lambda>fm2.
         andThen (BitMap_Clear sector fm2) (\<lambda>fm3.
         andThen (BitMap_WriteBack rd wr (fresh_byte junk) big (freeMapFile fs) fm3 d3) (\<lambda>d4.
         andThen (Directory_WriteBack rd wr (fresh_byte junk) big (directoryFile fs)
                    (snd (Directory_Remove name directory)) d4) (\<lambda>d5.
           Inr (True, d5)))))))))"

definition FileSystem_List ::
    "(int \<Rightarrow> 'd \<Rightarrow> (8 word list \<times> 'd) res) \<Rightarrow> fresh \<Rightarrow> bool \<Rightarrow> FileSystem \<Rightarrow> 'd \<Rightarrow> (8 word list list \<times> 'd) res" where
  "FileSystem_List rd junk big fs d =
     andThen (Directory_FetchFrom rd big (directoryFile fs) (Directory_new NumDirEntries (fresh_entry junk)) d)
       (\<lambda>(directory, d1). Inr (Directory_List directory, d1))"

section \<open>What the disk means\<close>

definition header_at :: "bool \<Rightarrow> (int \<Rightarrow> 8 word list) \<Rightarrow> int \<Rightarrow> FileHeader" where
  "header_at big sec s = FileHeader_of_bytes big (sec s)"

definition fs_dir :: "bool \<Rightarrow> (int \<Rightarrow> 8 word list) \<Rightarrow> FileSystem \<Rightarrow> Directory" where
  "fs_dir big sec fs = table_of_bytes big NumDirEntries (file_content sec (of_hdr (directoryFile fs)))"

definition fs_map :: "bool \<Rightarrow> (int \<Rightarrow> 8 word list) \<Rightarrow> FileSystem \<Rightarrow> BitMap" where
  "fs_map big sec fs = \<lparr>numBits = NumSectors, numWords = 32,
     bmap = words_of_bytes big 32 (file_content sec (of_hdr (freeMapFile fs)))\<rparr>"

definition system_sectors :: "FileSystem \<Rightarrow> int list" where
  "system_sectors fs = [FreeMapSector, DirectorySector] @ file_sectors (of_hdr (freeMapFile fs)) @
     file_sectors (of_hdr (directoryFile fs))"

definition entry_sectors :: "bool \<Rightarrow> (int \<Rightarrow> 8 word list) \<Rightarrow> DirectoryEntry \<Rightarrow> int list" where
  "entry_sectors big sec e = de_sector e # file_sectors (header_at big sec (de_sector e))"

definition fs_sectors :: "bool \<Rightarrow> (int \<Rightarrow> 8 word list) \<Rightarrow> FileSystem \<Rightarrow> int list" where
  "fs_sectors big sec fs = system_sectors fs @ concat (map (entry_sectors big sec) (used_entries (fs_dir big sec fs)))"

definition fs_ok :: "bool \<Rightarrow> (int \<Rightarrow> 8 word list) \<Rightarrow> FileSystem \<Rightarrow> bool" where
  "fs_ok big sec fs \<longleftrightarrow>
     hdr_ok (of_hdr (freeMapFile fs)) \<and> fh_numBytes (of_hdr (freeMapFile fs)) = FreeMapFileSize \<and>
     hdr_ok (of_hdr (directoryFile fs)) \<and> fh_numBytes (of_hdr (directoryFile fs)) = DirectoryFileSize \<and>
     header_at big sec FreeMapSector = of_hdr (freeMapFile fs) \<and>
     header_at big sec DirectorySector = of_hdr (directoryFile fs) \<and>
     dir_ok (fs_dir big sec fs) \<and>
     list_all (\<lambda>e. hdr_ok (header_at big sec (de_sector e))) (used_entries (fs_dir big sec fs)) \<and>
     distinct (fs_sectors big sec fs) \<and> set (fs_sectors big sec fs) = BitMap_set (fs_map big sec fs)"

definition meta_ok :: "FileSystem \<Rightarrow> bool" where
  "meta_ok fs \<longleftrightarrow>
     hdr_ok (of_hdr (freeMapFile fs)) \<and> fh_numBytes (of_hdr (freeMapFile fs)) = FreeMapFileSize \<and>
     hdr_ok (of_hdr (directoryFile fs)) \<and> fh_numBytes (of_hdr (directoryFile fs)) = DirectoryFileSize \<and>
     distinct (system_sectors fs)"

text \<open>The files, by the key of their name.\<close>

definition fs_files :: "bool \<Rightarrow> (int \<Rightarrow> 8 word list) \<Rightarrow> FileSystem \<Rightarrow> 8 word list \<Rightarrow> 8 word list option" where
  "fs_files big sec fs k = map_option (\<lambda>s. file_content sec (header_at big sec s)) (dir_map (fs_dir big sec fs) k)"

lemmas fs_constants = FreeMapSector_def DirectorySector_def FreeMapFileSize_def DirectoryFileSize_def
  NumDirEntries_def sizeof_DirectoryEntry_def BitsInByte_def

section \<open>Round trips\<close>

lemma length_BitMap_bytes [simp]: "length (BitMap_bytes big b) = 4 * length (bmap b)"
  unfolding BitMap_bytes_def by (rule length_blocks) simp

lemma words_of_bytes_bytes:
  assumes "length (bmap b) = n"
  shows "words_of_bytes big n (BitMap_bytes big b) = bmap b"
proof (rule nth_equalityI)
  fix i assume "i < length (words_of_bytes big n (BitMap_bytes big b))"
  then have i: "i < length (bmap b)" using assms by (simp add: words_of_bytes_def)
  have "take 4 (drop (4 * i) (BitMap_bytes big b)) = word_bytes big (bmap b ! i)"
    unfolding BitMap_bytes_def using i by (intro nth_block) simp_all
  then show "words_of_bytes big n (BitMap_bytes big b) ! i = bmap b ! i"
    using i assms by (simp add: words_of_bytes_def)
qed (simp add: words_of_bytes_def assms)

lemma words_of_bytes_prefix: "length bs = 4 * n \<Longrightarrow> words_of_bytes big n (bs @ rest) = words_of_bytes big n bs"
  by (simp add: words_of_bytes_def)

lemma table_of_bytes_prefix: "length bs = 20 * n \<Longrightarrow> table_of_bytes big n (bs @ rest) = table_of_bytes big n bs"
  by (simp add: table_of_bytes_def)

lemma numWords_disk: "BitMap_ok b \<Longrightarrow> numBits b = NumSectors \<Longrightarrow> numWords b = 32 \<and> length (bmap b) = 32"
  by (simp add: BitMap_ok_def BitsInWord_def divRoundUp_def)

lemma fs_map_ok: "BitMap_ok (fs_map big sec fs)" "numBits (fs_map big sec fs) = NumSectors"
  by (simp_all add: fs_map_def BitMap_ok_def BitsInWord_def divRoundUp_def words_of_bytes_def)

lemma fs_ok_range: "fs_ok big sec fs \<Longrightarrow> s \<in> set (fs_sectors big sec fs) \<Longrightarrow> 0 \<le> s \<and> s < NumSectors"
  using BitMap_set_subset [of "fs_map big sec fs"] fs_map_ok(2) [of big sec fs] by (auto simp: fs_ok_def)

lemma Find_sector:
  assumes "BitMap_ok fm" "numBits fm = NumSectors" "free_sectors fm \<noteq> {}"
  obtains s fm2 where "BitMap_Find fm = Inr (s, fm2)" "0 \<le> s" "s < NumSectors" "s \<notin> BitMap_set fm" "BitMap_ok fm2"
    "numBits fm2 = NumSectors" "BitMap_set fm2 = insert s (BitMap_set fm)"
    "int (card (free_sectors fm2)) = int (card (free_sectors fm)) - 1"
proof -
  have "0 < int (card (free_sectors fm))" using assms(3) by (simp add: card_gt_0_iff)
  with bitmap.find_takes_one [OF assms(1) bitmap.num_clear_card] show thesis
    using that assms(2) by (auto simp: BitMap_NumClear_card)
qed

lemma fs_ok_entry:
  assumes "fs_ok big sec fs" "e \<in> set (used_entries (fs_dir big sec fs))"
  shows "hdr_ok (header_at big sec (de_sector e))" "set (entry_sectors big sec e) \<subseteq> set (fs_sectors big sec fs)"
    "set (entry_sectors big sec e) \<inter> set (system_sectors fs) = {}"
  using assms by (auto simp: fs_ok_def fs_sectors_def list_all_iff)

lemma fs_ok_meta: "fs_ok big sec fs \<Longrightarrow> meta_ok fs"
  by (simp add: fs_ok_def meta_ok_def fs_sectors_def)

text \<open>A change outside a file's header and data leaves the file alone.\<close>

definition unchanged_but :: "int set \<Rightarrow> (int \<Rightarrow> 8 word list) \<Rightarrow> (int \<Rightarrow> 8 word list) \<Rightarrow> bool" where
  "unchanged_but X sec sec' \<longleftrightarrow> (\<forall>t. 0 \<le> t \<longrightarrow> t < NumSectors \<longrightarrow> t \<notin> X \<longrightarrow> sec' t = sec t)"

lemma unchanged_but_trans: "unchanged_but X a b \<Longrightarrow> unchanged_but Y b c \<Longrightarrow> unchanged_but (X \<union> Y) a c"
  by (simp add: unchanged_but_def)

lemma same_unchanged: "same_sectors a b \<longleftrightarrow> unchanged_but {} a b"
  by (simp add: same_sectors_def unchanged_but_def)

lemma unchanged_file:
  assumes "unchanged_but X sec sec'" "hdr_ok (header_at big sec s)" "0 \<le> s" "s < NumSectors"
    and "set (s # file_sectors (header_at big sec s)) \<inter> X = {}"
  shows "header_at big sec' s = header_at big sec s"
    "file_content sec' (header_at big sec s) = file_content sec (header_at big sec s)"
proof -
  show "header_at big sec' s = header_at big sec s" using assms by (simp add: header_at_def unchanged_but_def)
  have "map sec' (file_sectors (header_at big sec s)) = map sec (file_sectors (header_at big sec s))"
    using assms by (auto simp: hdr_ok_def list_all_iff unchanged_but_def)
  then show "file_content sec' (header_at big sec s) = file_content sec (header_at big sec s)"
    by (simp add: file_content_def file_data_def del: map_eq_conv)
qed

definition meta_sectors :: "FileSystem \<Rightarrow> int set" where
  "meta_sectors fs = set (file_sectors (of_hdr (freeMapFile fs))) \<union> set (file_sectors (of_hdr (directoryFile fs)))"

lemma fs_unchanged_entry:
  assumes "fs_ok big sec fs" "unchanged_but (X \<union> meta_sectors fs) sec sec'" "e \<in> set (used_entries (fs_dir big sec fs))"
    and "X \<inter> set (entry_sectors big sec e) = {}"
  shows "header_at big sec' (de_sector e) = header_at big sec (de_sector e)"
    "entry_sectors big sec' e = entry_sectors big sec e"
    "file_content sec' (header_at big sec (de_sector e)) = file_content sec (header_at big sec (de_sector e))"
proof -
  note f = fs_ok_entry [OF assms(1,3)]
  have r: "0 \<le> de_sector e" "de_sector e < NumSectors"
    using fs_ok_range [OF assms(1), of "de_sector e"] f(2) by (auto simp: entry_sectors_def)
  have "meta_sectors fs \<subseteq> set (system_sectors fs)" by (auto simp: meta_sectors_def system_sectors_def)
  then have "set (entry_sectors big sec e) \<inter> (X \<union> meta_sectors fs) = {}" using f(3) assms(4) by blast
  then have d: "set (de_sector e # file_sectors (header_at big sec (de_sector e))) \<inter> (X \<union> meta_sectors fs) = {}"
    by (simp add: entry_sectors_def)
  note u = unchanged_file [OF assms(2) f(1) r d]
  then show "header_at big sec' (de_sector e) = header_at big sec (de_sector e)"
    "file_content sec' (header_at big sec (de_sector e)) = file_content sec (header_at big sec (de_sector e))" by simp_all
  then show "entry_sectors big sec' e = entry_sectors big sec e" by (simp add: entry_sectors_def)
qed

lemma fs_unchanged_system:
  assumes "fs_ok big sec fs" "unchanged_but (X \<union> meta_sectors fs) sec sec'" "X \<inter> set (system_sectors fs) = {}"
  shows "header_at big sec' FreeMapSector = of_hdr (freeMapFile fs)" "header_at big sec' DirectorySector = of_hdr (directoryFile fs)"
proof -
  have "distinct (system_sectors fs)" using assms(1) by (simp add: fs_ok_def fs_sectors_def)
  then have "FreeMapSector \<notin> X \<union> meta_sectors fs" "DirectorySector \<notin> X \<union> meta_sectors fs"
    using assms(3) by (auto simp: system_sectors_def meta_sectors_def)
  then have "sec' FreeMapSector = sec FreeMapSector" "sec' DirectorySector = sec DirectorySector"
    using assms(2) by (simp_all add: unchanged_but_def FreeMapSector_def DirectorySector_def)
  then show "header_at big sec' FreeMapSector = of_hdr (freeMapFile fs)" "header_at big sec' DirectorySector = of_hdr (directoryFile fs)"
    using assms(1) by (simp_all add: header_at_def fs_ok_def)
qed

lemma dir_map_Some: "dir_map dir k = Some t \<Longrightarrow> \<exists>e \<in> set (used_entries dir). entry_key e = k \<and> de_sector e = t"
  by (auto simp: dir_map_def dest!: map_of_SomeD)

lemma fs_file_unchanged:
  assumes "fs_ok big sec fs" "unchanged_but (X \<union> meta_sectors fs) sec sec'" "X \<inter> set (fs_sectors big sec fs) = {}"
    and "dir_map (fs_dir big sec fs) k = Some t"
  shows "file_content sec' (header_at big sec' t) = file_content sec (header_at big sec t)"
proof -
  obtain e where e: "e \<in> set (used_entries (fs_dir big sec fs))" "de_sector e = t" using dir_map_Some [OF assms(4)] by blast
  have "X \<inter> set (entry_sectors big sec e) = {}" using assms(3) fs_ok_entry(2) [OF assms(1) e(1)] by blast
  from fs_unchanged_entry(1,3) [OF assms(1,2) e(1) this] show ?thesis using e(2) by simp
qed

lemma fs_ok_add:
  assumes ok: "fs_ok big sec fs"
    and u: "used_entries (fs_dir big sec fs) = xs @ ys" "used_entries (fs_dir big sec' fs) = xs @ e # ys" "dir_ok (fs_dir big sec' fs)"
    and e: "hdr_ok (header_at big sec' (de_sector e))"
    and new: "distinct (entry_sectors big sec' e)" "set (entry_sectors big sec' e) \<inter> set (fs_sectors big sec fs) = {}"
    and map: "BitMap_set (fs_map big sec' fs) = BitMap_set (fs_map big sec fs) \<union> set (entry_sectors big sec' e)"
    and same: "unchanged_but ({de_sector e} \<union> meta_sectors fs) sec sec'"
  shows "fs_ok big sec' fs"
proof -
  have X: "{de_sector e} \<inter> set (entry_sectors big sec x) = {}" if "x \<in> set (used_entries (fs_dir big sec fs))" for x
    using new(2) fs_ok_entry(2) [OF ok that] by (auto simp: entry_sectors_def)
  have Y: "{de_sector e} \<inter> set (system_sectors fs) = {}" using new(2) by (auto simp: entry_sectors_def fs_sectors_def)
  note h = fs_unchanged_entry [OF ok same _ X]
  have m: "map (entry_sectors big sec') (xs @ ys) = map (entry_sectors big sec) (xs @ ys)"
    using h(2) u(1) by (intro map_cong refl) simp
  then have s': "fs_sectors big sec' fs = system_sectors fs @ concat (map (entry_sectors big sec) xs) @
      entry_sectors big sec' e @ concat (map (entry_sectors big sec) ys)"
    by (simp add: fs_sectors_def u(2) del: map_eq_conv)
  have s: "fs_sectors big sec fs = system_sectors fs @ concat (map (entry_sectors big sec) xs) @ concat (map (entry_sectors big sec) ys)"
    by (simp add: fs_sectors_def u(1))
  have "distinct (fs_sectors big sec' fs)" using ok new unfolding fs_ok_def s s' by auto
  moreover have "set (fs_sectors big sec' fs) = BitMap_set (fs_map big sec' fs)" using ok map unfolding fs_ok_def s s' by auto
  moreover have "list_all (\<lambda>x. hdr_ok (header_at big sec' (de_sector x))) (used_entries (fs_dir big sec' fs))"
    using e h(1) fs_ok_entry(1) [OF ok] unfolding u by (auto simp: list_all_iff u(1))
  ultimately show ?thesis
    using ok u(3) fs_unchanged_system [OF ok same Y] by (simp add: fs_ok_def)
qed

lemma fs_ok_remove:
  assumes ok: "fs_ok big sec fs"
    and u: "used_entries (fs_dir big sec fs) = xs @ e # ys" "used_entries (fs_dir big sec' fs) = xs @ ys" "dir_ok (fs_dir big sec' fs)"
    and map: "BitMap_set (fs_map big sec' fs) = BitMap_set (fs_map big sec fs) - set (entry_sectors big sec e)"
    and same: "unchanged_but (meta_sectors fs) sec sec'"
  shows "fs_ok big sec' fs"
proof -
  have same': "unchanged_but ({} \<union> meta_sectors fs) sec sec'" using same by simp
  note h = fs_unchanged_entry [OF ok same']
  have m: "map (entry_sectors big sec') (xs @ ys) = map (entry_sectors big sec) (xs @ ys)"
    using h(2) u(1) by (intro map_cong refl) simp
  then have s': "fs_sectors big sec' fs = system_sectors fs @ concat (map (entry_sectors big sec) xs) @
      concat (map (entry_sectors big sec) ys)"
    by (simp add: fs_sectors_def u(2) del: map_eq_conv)
  have s: "fs_sectors big sec fs = system_sectors fs @ concat (map (entry_sectors big sec) xs) @ entry_sectors big sec e @
      concat (map (entry_sectors big sec) ys)"
    by (simp add: fs_sectors_def u(1))
  have d: "distinct (fs_sectors big sec fs)" "set (fs_sectors big sec fs) = BitMap_set (fs_map big sec fs)"
    using ok by (simp_all add: fs_ok_def)
  have "distinct (fs_sectors big sec' fs)" using d(1) unfolding s s' by simp blast
  moreover have "set (fs_sectors big sec' fs) = BitMap_set (fs_map big sec' fs)"
    unfolding map using d unfolding s s' by auto
  moreover have "list_all (\<lambda>x. hdr_ok (header_at big sec' (de_sector x))) (used_entries (fs_dir big sec' fs))"
    using h(1) fs_ok_entry(1) [OF ok] unfolding u by (auto simp: list_all_iff u(1))
  ultimately show ?thesis
    using ok u(3) fs_unchanged_system [OF ok same'] by (simp add: fs_ok_def)
qed

context sector_store
begin

lemma Directory_FetchFrom_spec:
  assumes "good d" "hdr_ok (of_hdr f)" "fh_numBytes (of_hdr f) = DirectoryFileSize"
  shows "\<exists>d'. Directory_FetchFrom rd big f (Directory_new NumDirEntries junk) d
      = Inr (table_of_bytes big NumDirEntries (file_content (sector d) (of_hdr f)), d') \<and> good d' \<and> same_sectors (sector d) (sector d')"
proof -
  let ?C = "file_content (sector d) (of_hdr f)"
  have len: "length ?C = 200" using length_file_content [OF assms(1,2)] assms(3) by (simp add: fs_constants)
  have n: "int (length (table (Directory_new NumDirEntries junk)) * sizeof_DirectoryEntry) = 200"
    by (simp add: Directory_new_def fs_constants)
  obtain d' where d': "ReadAt rd f 200 0 d = Inr (?C, d')" "good d'" "same_sectors (sector d) (sector d')"
    using ReadAt_spec [OF assms(1,2), of 0 200] len by auto
  have t: "length (table (Directory_new NumDirEntries junk)) = NumDirEntries" by (simp add: Directory_new_def)
  have "table_of_bytes big NumDirEntries (?C @ r) = table_of_bytes big NumDirEntries ?C" for r
    by (rule table_of_bytes_prefix) (simp add: len NumDirEntries_def)
  then show ?thesis using d' unfolding Directory_FetchFrom_def Let_def n by (simp add: t)
qed

lemma BitMap_FetchFrom_spec:
  assumes "good d" "hdr_ok (of_hdr (freeMapFile fs))" "fh_numBytes (of_hdr (freeMapFile fs)) = FreeMapFileSize"
    and "BitMap_ok b" "numBits b = NumSectors"
  shows "\<exists>d'. BitMap_FetchFrom rd big (freeMapFile fs) b d = Inr (fs_map big (sector d) fs, d') \<and> good d' \<and>
    same_sectors (sector d) (sector d')"
proof -
  let ?C = "file_content (sector d) (of_hdr (freeMapFile fs))"
  have len: "length ?C = 128" using length_file_content [OF assms(1,2)] assms(3) by (simp add: fs_constants)
  note w = numWords_disk [OF assms(4,5)]
  obtain d' where d': "ReadAt rd (freeMapFile fs) 128 0 d = Inr (?C, d')" "good d'" "same_sectors (sector d) (sector d')"
    using ReadAt_spec [OF assms(1,2), of 0 128] len by auto
  have "words_of_bytes big 32 (?C @ r) = words_of_bytes big 32 ?C" for r
    by (rule words_of_bytes_prefix) (simp add: len)
  then have "b\<lparr>bmap := words_of_bytes big 32 (?C @ r)\<rparr> = fs_map big (sector d) fs" for r
    using w assms(5) by (simp add: fs_map_def)
  then show ?thesis using d' w by (simp add: BitMap_FetchFrom_def)
qed

lemma whole_file_write:
  assumes "good d" "hdr_ok (of_hdr f)" "fh_numBytes (of_hdr f) = int (length bs)"
  shows "\<exists>d'. WriteAt rd wr junk f bs (int (length bs)) 0 d = Inr (int (length bs), d') \<and> good d' \<and>
    file_content (sector d') (of_hdr f) = bs \<and>
    (\<forall>t. 0 \<le> t \<longrightarrow> t < NumSectors \<longrightarrow> t \<notin> set (file_sectors (of_hdr f)) \<longrightarrow> sector d' t = sector d t)"
proof -
  have "length bs \<le> 3840" using assms(2,3) by (simp add: hdr_ok_def)
  moreover have "length (file_content (sector d) (of_hdr f)) = length bs"
    using length_file_content [OF assms(1,2)] assms(3) by simp
  ultimately show ?thesis using WriteAt_spec [OF assms(1,2), of 0 "int (length bs)" bs junk] assms(3) by auto
qed

lemma Directory_WriteBack_spec:
  assumes "good d" "hdr_ok (of_hdr (directoryFile fs))" "fh_numBytes (of_hdr (directoryFile fs)) = DirectoryFileSize"
    and "list_all entry_rep (table dir)" "length (table dir) = NumDirEntries"
  shows "\<exists>d'. Directory_WriteBack rd wr junk big (directoryFile fs) dir d = Inr d' \<and> good d' \<and>
    fs_dir big (sector d') fs = dir \<and>
    (\<forall>t. 0 \<le> t \<longrightarrow> t < NumSectors \<longrightarrow> t \<notin> set (file_sectors (of_hdr (directoryFile fs))) \<longrightarrow> sector d' t = sector d t)"
proof -
  have len: "length (table_bytes big dir) = 200"
    using length_table_bytes [OF assms(4)] assms(5) by (simp add: NumDirEntries_def)
  have "fh_numBytes (of_hdr (directoryFile fs)) = int (length (table_bytes big dir))"
    using assms(3) len by (simp add: fs_constants)
  from whole_file_write [OF assms(1,2) this, of junk] obtain d' where
    d': "WriteAt rd wr junk (directoryFile fs) (table_bytes big dir) 200 0 d = Inr (200, d')" "good d'"
      "file_content (sector d') (of_hdr (directoryFile fs)) = table_bytes big dir"
      "\<forall>t. 0 \<le> t \<longrightarrow> t < NumSectors \<longrightarrow> t \<notin> set (file_sectors (of_hdr (directoryFile fs))) \<longrightarrow> sector d' t = sector d t"
    unfolding len by auto
  have "fs_dir big (sector d') fs = dir"
    unfolding fs_dir_def d'(3) using table_of_bytes_bytes [OF assms(4)] assms(5) by simp
  then show ?thesis using d' assms(5) by (simp add: Directory_WriteBack_def fs_constants)
qed

lemma BitMap_WriteBack_spec:
  assumes "good d" "hdr_ok (of_hdr (freeMapFile fs))" "fh_numBytes (of_hdr (freeMapFile fs)) = FreeMapFileSize"
    and "BitMap_ok b" "numBits b = NumSectors"
  shows "\<exists>d'. BitMap_WriteBack rd wr junk big (freeMapFile fs) b d = Inr d' \<and> good d' \<and>
    fs_map big (sector d') fs = b \<and>
    (\<forall>t. 0 \<le> t \<longrightarrow> t < NumSectors \<longrightarrow> t \<notin> set (file_sectors (of_hdr (freeMapFile fs))) \<longrightarrow> sector d' t = sector d t)"
proof -
  note w = numWords_disk [OF assms(4,5)]
  have len: "length (BitMap_bytes big b) = 128" using w by simp
  have "fh_numBytes (of_hdr (freeMapFile fs)) = int (length (BitMap_bytes big b))"
    using assms(3) len by (simp add: fs_constants)
  from whole_file_write [OF assms(1,2) this, of junk] obtain d' where
    d': "WriteAt rd wr junk (freeMapFile fs) (BitMap_bytes big b) 128 0 d = Inr (128, d')" "good d'"
      "file_content (sector d') (of_hdr (freeMapFile fs)) = BitMap_bytes big b"
      "\<forall>t. 0 \<le> t \<longrightarrow> t < NumSectors \<longrightarrow> t \<notin> set (file_sectors (of_hdr (freeMapFile fs))) \<longrightarrow> sector d' t = sector d t"
    unfolding len by auto
  have "fs_map big (sector d') fs = b"
    unfolding fs_map_def d'(3) using words_of_bytes_bytes [of b 32 big] w assms(5) by simp
  then show ?thesis using d' w by (simp add: BitMap_WriteBack_def)
qed

lemma header_write:
  assumes "good d" "0 \<le> s" "s < NumSectors" "hdr_rep h"
  shows "\<exists>d'. FileHeader_WriteBack wr big s h d = Inr d' \<and> good d' \<and> header_at big (sector d') s = h \<and>
    (\<forall>t. 0 \<le> t \<longrightarrow> t < NumSectors \<longrightarrow> t \<noteq> s \<longrightarrow> sector d' t = sector d t)"
  using wr_law [OF assms(1-3) length_FileHeader_bytes [OF assms(4), of big]] assms(2,3)
  by (auto simp: FileHeader_WriteBack_def header_at_def FileHeader_of_bytes_bytes [OF assms(4)])

lemma header_read:
  assumes "good d" "0 \<le> s" "s < NumSectors"
  shows "\<exists>d'. FileHeader_FetchFrom rd big s d = Inr (header_at big (sector d) s, d') \<and> good d' \<and> same_sectors (sector d) (sector d')"
  using rd_law [OF assms] by (auto simp: FileHeader_FetchFrom_def header_at_def same_sectors_def)

lemma fs_same:
  assumes "fs_ok big sec fs" "same_sectors sec sec'"
  shows "fs_dir big sec' fs = fs_dir big sec fs" "fs_map big sec' fs = fs_map big sec fs"
  using assms by (simp_all add: fs_ok_def fs_dir_def fs_map_def file_content_same)

text \<open>The directory and the map of free sectors as every operation reads them first.\<close>

lemma fs_fetch:
  assumes "good d" "fs_ok big (sector d) fs"
  obtains d1 fm0 d2 where
    "Directory_FetchFrom rd big (directoryFile fs) (Directory_new NumDirEntries (fresh_entry junk)) d
       = Inr (fs_dir big (sector d) fs, d1)" "good d1" "same_sectors (sector d) (sector d1)"
    "BitMap_new NumSectors (fresh_word junk) = Inr fm0"
    "BitMap_FetchFrom rd big (freeMapFile fs) fm0 d1 = Inr (fs_map big (sector d) fs, d2)" "good d2"
    "same_sectors (sector d) (sector d2)"
proof -
  have h: "hdr_ok (of_hdr (directoryFile fs))" "fh_numBytes (of_hdr (directoryFile fs)) = DirectoryFileSize"
    "hdr_ok (of_hdr (freeMapFile fs))" "fh_numBytes (of_hdr (freeMapFile fs)) = FreeMapFileSize"
    using assms(2) by (simp_all add: fs_ok_def)
  obtain d1 where d1: "Directory_FetchFrom rd big (directoryFile fs) (Directory_new NumDirEntries (fresh_entry junk)) d
       = Inr (fs_dir big (sector d) fs, d1)" "good d1" "same_sectors (sector d) (sector d1)"
    using Directory_FetchFrom_spec [OF assms(1) h(1,2)] unfolding fs_dir_def by blast
  obtain fm0 where fm0: "BitMap_new NumSectors (fresh_word junk) = Inr fm0" "BitMap_ok fm0" "numBits fm0 = NumSectors"
    using BitMap_new_set [of NumSectors "fresh_word junk"] by auto
  obtain d2 where "BitMap_FetchFrom rd big (freeMapFile fs) fm0 d1 = Inr (fs_map big (sector d1) fs, d2)" "good d2"
    "same_sectors (sector d1) (sector d2)"
    using BitMap_FetchFrom_spec [OF d1(2) h(3,4) fm0(2,3)] by blast
  then show thesis
    using that [OF d1 fm0(1)] fs_same(2) [OF assms(2) d1(3)] same_sectors_trans [OF d1(3)] by simp
qed

lemma Create_fails:
  assumes "good d" "fs_ok big (sector d) fs" "0 \<le> initialSize"
    and "hdr_rep (fresh_hdr junk)"
    and "dir_map (fs_dir big (sector d) fs) (cstr FileNameMaxLen name) \<noteq> None \<or>
      list_all inUse (table (fs_dir big (sector d) fs)) \<or>
      int (card (free_sectors (fs_map big (sector d) fs))) < 1 + divRoundUp initialSize SectorSize"
  shows "\<exists>d'. FileSystem_Create rd wr junk big fs name initialSize d = Inr (False, d') \<and> good d' \<and>
    same_sectors (sector d) (sector d')"
proof -
  define dir where "dir = fs_dir big (sector d) fs"
  define fm where "fm = fs_map big (sector d) fs"
  obtain d1 fm0 d2 where f: "Directory_FetchFrom rd big (directoryFile fs) (Directory_new NumDirEntries (fresh_entry junk)) d
       = Inr (dir, d1)" "good d1" "same_sectors (sector d) (sector d1)" "BitMap_new NumSectors (fresh_word junk) = Inr fm0"
    "BitMap_FetchFrom rd big (freeMapFile fs) fm0 d1 = Inr (fm, d2)" "good d2" "same_sectors (sector d) (sector d2)"
    unfolding dir_def fm_def by (rule fs_fetch [OF assms(1,2)])
  have ok: "dir_ok dir" "BitMap_ok fm" "numBits fm = NumSectors"
    using assms(2) fs_map_ok by (simp_all add: fs_ok_def dir_def fm_def)
  show ?thesis
  proof (cases "Directory_Find name dir = - 1 \<and> free_sectors fm \<noteq> {}")
    case False
    then show ?thesis
      using f directory.find_missing [OF ok(1)] bitmap.find_full [OF ok(2)]
      unfolding FileSystem_Create_def f(1,4,5) andThen_Inr prod.case by auto
  next
    case True
    then obtain s fm2 where s: "BitMap_Find fm = Inr (s, fm2)" "0 \<le> s" "s < NumSectors"
      and c: "int (card (free_sectors fm2)) = int (card (free_sectors fm)) - 1"
      using Find_sector [OF ok(2,3)] by metis
    have v: "0 \<le> s \<and> int32 s" using s(2,3) by (simp add: int32_def)
    have "dir_map dir (cstr FileNameMaxLen name) = None" using True directory.find_missing [OF ok(1)] by simp
    then consider "list_all inUse (table dir)"
      | "\<not> list_all inUse (table dir)" "int (card (free_sectors fm2)) < divRoundUp initialSize SectorSize"
      using assms(5) c unfolding dir_def [symmetric] fm_def [symmetric] by linarith
    then show ?thesis
    proof cases
      case 1
      then have "Directory_Add name s dir = (False, dir)" using directory.add_refuses [OF ok(1) v] by simp
      then show ?thesis
        using True s(2) f unfolding FileSystem_Create_def f(1,4,5) s(1) andThen_Inr prod.case by simp
    next
      case 2
      obtain dir' where dir': "Directory_Add name s dir = (True, dir')"
        using directory.add_contents [OF ok(1) v, of name] 2 True directory.find_missing [OF ok(1)] by auto
      obtain h' where "FileHeader_Allocate initialSize (fresh_hdr junk) fm2 = Inr (False, h', fm2)"
        using 2 by (simp add: FileHeader_Allocate_def BitMap_NumClear_card Let_def)
      then show ?thesis
        using True s(2) f dir' unfolding FileSystem_Create_def f(1,4,5) s(1) andThen_Inr prod.case by simp
    qed
  qed
qed

text \<open>Storing a new header and the changed directory and map of free sectors.\<close>

lemma flush_meta:
  assumes "good d" "meta_ok fs" "dir_ok dir'" "length (table dir') = NumDirEntries" "BitMap_ok fm'" "numBits fm' = NumSectors"
  shows "\<exists>d1 d2. Directory_WriteBack rd wr junk big (directoryFile fs) dir' d = Inr d1 \<and>
    BitMap_WriteBack rd wr junk big (freeMapFile fs) fm' d1 = Inr d2 \<and> good d2 \<and>
    fs_dir big (sector d2) fs = dir' \<and> fs_map big (sector d2) fs = fm' \<and> unchanged_but (meta_sectors fs) (sector d) (sector d2)"
    (is ?A)
  and "\<exists>d1 d2. BitMap_WriteBack rd wr junk big (freeMapFile fs) fm' d = Inr d1 \<and>
    Directory_WriteBack rd wr junk big (directoryFile fs) dir' d1 = Inr d2 \<and> good d2 \<and>
    fs_dir big (sector d2) fs = dir' \<and> fs_map big (sector d2) fs = fm' \<and> unchanged_but (meta_sectors fs) (sector d) (sector d2)"
    (is ?B)
proof -
  let ?mh = "of_hdr (freeMapFile fs)" and ?dh = "of_hdr (directoryFile fs)"
  have h: "hdr_ok ?dh" "fh_numBytes ?dh = DirectoryFileSize" "hdr_ok ?mh" "fh_numBytes ?mh = FreeMapFileSize"
    and disj: "set (file_sectors ?dh) \<inter> set (file_sectors ?mh) = {}" "set (file_sectors ?mh) \<inter> set (file_sectors ?dh) = {}"
    using assms(2) by (auto simp: meta_ok_def system_sectors_def)
  have r: "list_all entry_rep (table dir')" using assms(3) by (simp add: dir_ok_def)
  obtain a1 where a1: "Directory_WriteBack rd wr junk big (directoryFile fs) dir' d = Inr a1" "good a1"
    "fs_dir big (sector a1) fs = dir'" "unchanged_but (set (file_sectors ?dh)) (sector d) (sector a1)"
    using Directory_WriteBack_spec [OF assms(1) h(1,2) r assms(4)] unfolding unchanged_but_def by blast
  obtain a2 where a2: "BitMap_WriteBack rd wr junk big (freeMapFile fs) fm' a1 = Inr a2" "good a2"
    "fs_map big (sector a2) fs = fm'" "unchanged_but (set (file_sectors ?mh)) (sector a1) (sector a2)"
    using BitMap_WriteBack_spec [OF a1(2) h(3,4) assms(5,6)] unfolding unchanged_but_def by blast
  have "fs_dir big (sector a2) fs = dir'"
    using other_file_content [OF h(1) disj(1), of a2 a1] a2(4) a1(3) by (simp add: unchanged_but_def fs_dir_def)
  then show ?A using a1 a2 unchanged_but_trans [OF a1(4) a2(4)] by (auto simp: meta_sectors_def Un_commute)
  obtain b1 where b1: "BitMap_WriteBack rd wr junk big (freeMapFile fs) fm' d = Inr b1" "good b1"
    "fs_map big (sector b1) fs = fm'" "unchanged_but (set (file_sectors ?mh)) (sector d) (sector b1)"
    using BitMap_WriteBack_spec [OF assms(1) h(3,4) assms(5,6)] unfolding unchanged_but_def by blast
  obtain b2 where b2: "Directory_WriteBack rd wr junk big (directoryFile fs) dir' b1 = Inr b2" "good b2"
    "fs_dir big (sector b2) fs = dir'" "unchanged_but (set (file_sectors ?dh)) (sector b1) (sector b2)"
    using Directory_WriteBack_spec [OF b1(2) h(1,2) r assms(4)] unfolding unchanged_but_def by blast
  have "fs_map big (sector b2) fs = fm'"
    using other_file_content [OF h(3) disj(2), of b2 b1] b2(4) b1(3) by (simp add: unchanged_but_def fs_map_def)
  then show ?B using b1 b2 unchanged_but_trans [OF b1(4) b2(4)] by (auto simp: meta_sectors_def)
qed

lemma length_fs_dir: "length (table (fs_dir big sec fs)) = NumDirEntries"
  by (simp add: fs_dir_def table_of_bytes_def)

lemma Create_succeeds:
  assumes "good d" "fs_ok big (sector d) fs" "0 \<le> initialSize" "initialSize \<le> MaxFileSize" "hdr_rep (fresh_hdr junk)"
    and new: "dir_map (fs_dir big (sector d) fs) (cstr FileNameMaxLen name) = None"
    and room: "\<not> list_all inUse (table (fs_dir big (sector d) fs))"
      "1 + divRoundUp initialSize SectorSize \<le> int (card (free_sectors (fs_map big (sector d) fs)))"
  shows "\<exists>d' C. FileSystem_Create rd wr junk big fs name initialSize d = Inr (True, d') \<and> good d' \<and>
    fs_ok big (sector d') fs \<and> length C = nat initialSize \<and>
    fs_files big (sector d') fs = (fs_files big (sector d) fs)(cstr FileNameMaxLen name \<mapsto> C)"
proof -
  define dir where "dir = fs_dir big (sector d) fs"
  define fm where "fm = fs_map big (sector d) fs"
  let ?k = "cstr FileNameMaxLen name"
  obtain d1 fm0 d2 where f: "Directory_FetchFrom rd big (directoryFile fs) (Directory_new NumDirEntries (fresh_entry junk)) d
       = Inr (dir, d1)" "good d1" "same_sectors (sector d) (sector d1)" "BitMap_new NumSectors (fresh_word junk) = Inr fm0"
    "BitMap_FetchFrom rd big (freeMapFile fs) fm0 d1 = Inr (fm, d2)" "good d2" "same_sectors (sector d) (sector d2)"
    unfolding dir_def fm_def by (rule fs_fetch [OF assms(1,2)])
  have ok: "dir_ok dir" "BitMap_ok fm" "numBits fm = NumSectors" "set (fs_sectors big (sector d) fs) = BitMap_set fm"
    using assms(2) fs_map_ok by (simp_all add: fs_ok_def dir_def fm_def)
  have "card (free_sectors fm) \<noteq> 0"
    using room(2) divRoundUp_sector(1) [OF assms(3)] unfolding fm_def [symmetric] by linarith
  then have "free_sectors fm \<noteq> {}" by (metis card.empty)
  then obtain s fm2 where s: "BitMap_Find fm = Inr (s, fm2)" "0 \<le> s" "s < NumSectors" "s \<notin> BitMap_set fm"
      "BitMap_ok fm2" "numBits fm2 = NumSectors" "BitMap_set fm2 = insert s (BitMap_set fm)"
      "int (card (free_sectors fm2)) = int (card (free_sectors fm)) - 1"
    by (rule Find_sector [OF ok(2,3)])
  have s32: "int32 s" using s(2,3) by (simp add: int32_def)
  obtain dir' e xs ys where dir': "Directory_Add name s dir = (True, dir')" "dir_ok dir'" "dir_map dir' = (dir_map dir)(?k \<mapsto> s)"
      "length (table dir') = NumDirEntries" "used_entries dir = xs @ ys" "used_entries dir' = xs @ e # ys" "de_sector e = s"
    using Add_spec [OF ok(1) s(2) s32, of name] new room(1) length_fs_dir [of big "sector d" fs] unfolding dir_def [symmetric] by auto
  have "divRoundUp initialSize SectorSize \<le> int (card (free_sectors fm2))" using room(2) s(8) by (simp add: fm_def [symmetric])
  then obtain h fm3 where h: "FileHeader_Allocate initialSize (fresh_hdr junk) fm2 = Inr (True, h, fm3)" "hdr_ok h" "hdr_rep h"
      "fh_numBytes h = initialSize" "set (file_sectors h) \<subseteq> free_sectors fm2" "BitMap_ok fm3" "numBits fm3 = NumSectors"
      "BitMap_set fm3 = BitMap_set fm2 \<union> set (file_sectors h)"
    using Allocate_enough [OF s(5,6) assms(5,3,4)] by blast
  obtain d3 where d3: "FileHeader_WriteBack wr big s h d2 = Inr d3" "good d3" "header_at big (sector d3) s = h"
      "unchanged_but {s} (sector d2) (sector d3)"
    using header_write [OF f(6) s(2,3) h(3)] unfolding unchanged_but_def by auto
  obtain d4 d5 where d5: "Directory_WriteBack rd wr (fresh_byte junk) big (directoryFile fs) dir' d3 = Inr d4"
      "BitMap_WriteBack rd wr (fresh_byte junk) big (freeMapFile fs) fm3 d4 = Inr d5" "good d5"
      "fs_dir big (sector d5) fs = dir'" "fs_map big (sector d5) fs = fm3" "unchanged_but (meta_sectors fs) (sector d3) (sector d5)"
    using flush_meta(1) [OF d3(2) fs_ok_meta [OF assms(2)] dir'(2,4) h(6,7)] by blast
  have same: "unchanged_but ({s} \<union> meta_sectors fs) (sector d) (sector d5)"
    using unchanged_but_trans [OF unchanged_but_trans [OF f(7) [unfolded same_unchanged] d3(4)] d5(6)] by simp
  have fresh_s: "s \<notin> set (fs_sectors big (sector d) fs)" using s(4) ok(4) by simp
  then have "s \<notin> meta_sectors fs" by (auto simp: fs_sectors_def system_sectors_def meta_sectors_def)
  then have hs: "header_at big (sector d5) s = h"
    using d5(6) s(2,3) d3(3) by (simp add: unchanged_but_def header_at_def)
  have es: "entry_sectors big (sector d5) e = s # file_sectors h" by (simp add: entry_sectors_def dir'(7) hs)
  have "fs_ok big (sector d5) fs"
  proof (rule fs_ok_add [OF assms(2)])
    show "used_entries (fs_dir big (sector d) fs) = xs @ ys" using dir'(5) by (simp add: dir_def)
    show "used_entries (fs_dir big (sector d5) fs) = xs @ e # ys" "dir_ok (fs_dir big (sector d5) fs)" using d5(4) dir'(2,6) by simp_all
    show "hdr_ok (header_at big (sector d5) (de_sector e))" using dir'(7) hs h(2) by simp
    show "distinct (entry_sectors big (sector d5) e)" using h(2,5) s(7) by (auto simp: es hdr_ok_def)
    show "set (entry_sectors big (sector d5) e) \<inter> set (fs_sectors big (sector d) fs) = {}"
      using h(5) s(4,7) ok(4) by (auto simp: es)
    show "BitMap_set (fs_map big (sector d5) fs) = BitMap_set (fs_map big (sector d) fs) \<union> set (entry_sectors big (sector d5) e)"
      unfolding es d5(5) h(8) s(7) fm_def [symmetric] by auto
    show "unchanged_but ({de_sector e} \<union> meta_sectors fs) (sector d) (sector d5)" using same dir'(7) by simp
  qed
  moreover have "length (file_content (sector d5) h) = nat initialSize" using length_file_content [OF d5(3) h(2)] h(4) by simp
  moreover have "fs_files big (sector d5) fs = (fs_files big (sector d) fs)(?k \<mapsto> file_content (sector d5) h)"
  proof
    fix x
    show "fs_files big (sector d5) fs x = ((fs_files big (sector d) fs)(?k \<mapsto> file_content (sector d5) h)) x"
      using fs_file_unchanged [OF assms(2) same] fresh_s
      by (cases "dir_map dir x") (auto simp: fs_files_def d5(4) dir'(3) hs dir_def [symmetric])
  qed
  moreover have "FileSystem_Create rd wr junk big fs name initialSize d = Inr (True, d5)"
    using directory.find_missing [OF ok(1)] new s(2)
    unfolding FileSystem_Create_def f(1,4,5) s(1) andThen_Inr prod.case dir'(1) h(1) d3(1) d5(1,2) dir_def [symmetric] by simp
  ultimately show ?thesis using d5(3) by blast
qed

lemma Open_spec:
  assumes "good d" "fs_ok big (sector d) fs"
  shows "\<exists>d'. FileSystem_Open rd junk big fs name d
      = Inr (map_option (\<lambda>s. \<lparr>of_hdr = header_at big (sector d) s, seekPosition = 0\<rparr>)
               (dir_map (fs_dir big (sector d) fs) (cstr FileNameMaxLen name)), d') \<and>
    good d' \<and> same_sectors (sector d) (sector d')"
proof -
  let ?dir = "fs_dir big (sector d) fs" and ?k = "cstr FileNameMaxLen name"
  obtain d1 where d1: "Directory_FetchFrom rd big (directoryFile fs) (Directory_new NumDirEntries (fresh_entry junk)) d
       = Inr (?dir, d1)" "good d1" "same_sectors (sector d) (sector d1)"
    using fs_fetch [OF assms] by metis
  have ok: "dir_ok ?dir" using assms(2) by (simp add: fs_ok_def)
  note find = directory.find_contents [OF ok, of name]
  show ?thesis
  proof (cases "dir_map ?dir ?k")
    case None
    then show ?thesis using find d1 unfolding FileSystem_Open_def d1(1) by simp
  next
    case (Some s)
    then obtain e where e: "e \<in> set (used_entries ?dir)" "de_sector e = s" using dir_map_Some by metis
    then have r: "0 \<le> s" "s < NumSectors"
      using fs_ok_range [OF assms(2), of s] fs_ok_entry(2) [OF assms(2) e(1)] by (auto simp: entry_sectors_def)
    obtain d2 where d2: "FileHeader_FetchFrom rd big s d1 = Inr (header_at big (sector d1) s, d2)" "good d2"
      "same_sectors (sector d1) (sector d2)"
      using header_read [OF d1(2) r] by blast
    have "header_at big (sector d1) s = header_at big (sector d) s"
      using d1(3) r by (simp add: header_at_def same_sectors_def)
    then show ?thesis
      using Some find d1 d2 r same_sectors_trans [OF d1(3) d2(3)]
      unfolding FileSystem_Open_def d1(1) by (simp add: OpenFile_new_def)
  qed
qed

lemma Remove_missing:
  assumes "good d" "fs_ok big (sector d) fs" "dir_map (fs_dir big (sector d) fs) (cstr FileNameMaxLen name) = None"
  shows "\<exists>d'. FileSystem_Remove rd wr junk big fs name d = Inr (False, d') \<and> good d' \<and> same_sectors (sector d) (sector d')"
proof -
  obtain d1 where d1: "Directory_FetchFrom rd big (directoryFile fs) (Directory_new NumDirEntries (fresh_entry junk)) d
       = Inr (fs_dir big (sector d) fs, d1)" "good d1" "same_sectors (sector d) (sector d1)"
    using fs_fetch [OF assms(1,2)] by metis
  have "dir_ok (fs_dir big (sector d) fs)" using assms(2) by (simp add: fs_ok_def)
  then show ?thesis
    using directory.find_contents [of _ name] assms(3) d1 unfolding FileSystem_Remove_def d1(1) by simp
qed

lemma Remove_present:
  assumes "good d" "fs_ok big (sector d) fs" "dir_map (fs_dir big (sector d) fs) (cstr FileNameMaxLen name) = Some s"
  shows "\<exists>d'. FileSystem_Remove rd wr junk big fs name d = Inr (True, d') \<and> good d' \<and> fs_ok big (sector d') fs \<and>
    fs_files big (sector d') fs = (fs_files big (sector d) fs)(cstr FileNameMaxLen name := None) \<and>
    BitMap_set (fs_map big (sector d') fs)
      = BitMap_set (fs_map big (sector d) fs) - set (s # file_sectors (header_at big (sector d) s))"
proof -
  define dir where "dir = fs_dir big (sector d) fs"
  define fm where "fm = fs_map big (sector d) fs"
  define h where "h = header_at big (sector d) s"
  let ?k = "cstr FileNameMaxLen name"
  obtain d1 fm0 dx where f: "Directory_FetchFrom rd big (directoryFile fs) (Directory_new NumDirEntries (fresh_entry junk)) d
       = Inr (dir, d1)" "good d1" "same_sectors (sector d) (sector d1)" "BitMap_new NumSectors (fresh_word junk) = Inr fm0"
    unfolding dir_def by (rule fs_fetch [OF assms(1,2)])
  have ok: "dir_ok dir" "BitMap_ok fm" "numBits fm = NumSectors" "set (fs_sectors big (sector d) fs) = BitMap_set fm"
    using assms(2) fs_map_ok by (simp_all add: fs_ok_def dir_def fm_def)
  obtain dir' e xs ys where dir': "Directory_Remove name dir = (True, dir')" "dir_ok dir'" "dir_map dir' = (dir_map dir)(?k := None)"
      "length (table dir') = NumDirEntries" "used_entries dir = xs @ e # ys" "used_entries dir' = xs @ ys" "entry_key e = ?k"
    using Remove_spec [OF ok(1), of name] assms(3) length_fs_dir [of big "sector d" fs] unfolding dir_def [symmetric] by auto
  have e: "e \<in> set (used_entries (fs_dir big (sector d) fs))" "de_sector e = s"
    using dir_map_entry [OF ok(1), of e] dir'(5,7) assms(3) by (auto simp: dir_def)
  note he = fs_ok_entry [OF assms(2) e(1), unfolded entry_sectors_def e(2) h_def [symmetric]]
  have r: "0 \<le> s" "s < NumSectors" using fs_ok_range [OF assms(2), of s] he(2) by auto
  obtain d2 where "FileHeader_FetchFrom rd big s d1 = Inr (header_at big (sector d1) s, d2)" "good d2" "same_sectors (sector d1) (sector d2)"
    using header_read [OF f(2) r] by blast
  moreover have "header_at big (sector d1) s = h" using f(3) r by (simp add: header_at_def same_sectors_def h_def)
  ultimately have d2: "FileHeader_FetchFrom rd big s d1 = Inr (h, d2)" "good d2" "same_sectors (sector d) (sector d2)"
    using same_sectors_trans [OF f(3)] by simp_all
  have "BitMap_ok fm0" "numBits fm0 = NumSectors" using BitMap_new_set [of NumSectors "fresh_word junk"] f(4) by auto
  then obtain d3 where "BitMap_FetchFrom rd big (freeMapFile fs) fm0 d2 = Inr (fs_map big (sector d2) fs, d3)" "good d3"
      "same_sectors (sector d2) (sector d3)"
    using BitMap_FetchFrom_spec [OF d2(2), of fs fm0 big] assms(2) by (auto simp: fs_ok_def)
  then have d3: "BitMap_FetchFrom rd big (freeMapFile fs) fm0 d2 = Inr (fm, d3)" "good d3" "unchanged_but {} (sector d) (sector d3)"
    using fs_same(2) [OF assms(2) d2(3)] same_sectors_trans [OF d2(3)] by (simp_all add: fm_def same_unchanged)
  have "distinct (entry_sectors big (sector d) e)"
    using assms(2) dir'(5) by (simp add: fs_ok_def fs_sectors_def dir_def [symmetric])
  then have ds: "s \<notin> set (file_sectors h)" by (simp add: entry_sectors_def e(2) h_def)
  have sub: "set (file_sectors h) \<subseteq> BitMap_set fm" "s \<in> BitMap_set fm" using he(2) ok(4) by auto
  obtain fm2 where fm2: "FileHeader_Deallocate h fm = Inr fm2" "BitMap_ok fm2" "numBits fm2 = NumSectors"
      "BitMap_set fm2 = BitMap_set fm - set (file_sectors h)"
    using Deallocate_spec [OF ok(2) he(1) sub(1)] ok(3) by auto
  obtain fm3 where fm3: "BitMap_Clear s fm2 = Inr fm3" "BitMap_ok fm3" "numBits fm3 = NumSectors" "BitMap_set fm3 = BitMap_set fm2 - {s}"
    using BitMap_Clear_set [OF fm2(2) r(1)] r(2) fm2(3) by auto
  obtain d4 d5 where d5: "BitMap_WriteBack rd wr (fresh_byte junk) big (freeMapFile fs) fm3 d3 = Inr d4"
      "Directory_WriteBack rd wr (fresh_byte junk) big (directoryFile fs) dir' d4 = Inr d5" "good d5"
      "fs_dir big (sector d5) fs = dir'" "fs_map big (sector d5) fs = fm3" "unchanged_but (meta_sectors fs) (sector d3) (sector d5)"
    using flush_meta(2) [OF d3(2) fs_ok_meta [OF assms(2)] dir'(2,4) fm3(2,3)] by blast
  have same: "unchanged_but (meta_sectors fs) (sector d) (sector d5)" using unchanged_but_trans [OF d3(3) d5(6)] by simp
  have set3: "BitMap_set fm3 = BitMap_set fm - set (s # file_sectors h)" using fm3(4) fm2(4) by auto
  have "fs_ok big (sector d5) fs"
    by (rule fs_ok_remove [OF assms(2), of xs e ys])
      (use dir' d5(4,5) same set3 in \<open>simp_all add: dir_def [symmetric] fm_def [symmetric] entry_sectors_def e(2) h_def [symmetric]\<close>)
  moreover have "fs_files big (sector d5) fs = (fs_files big (sector d) fs)(?k := None)"
  proof
    fix x
    show "fs_files big (sector d5) fs x = ((fs_files big (sector d) fs)(?k := None)) x"
      using fs_file_unchanged [OF assms(2), of "{}"] same
      by (cases "dir_map dir x") (auto simp: fs_files_def d5(4) dir'(3) dir_def [symmetric])
  qed
  moreover have "FileSystem_Remove rd wr junk big fs name d = Inr (True, d5)"
    using directory.find_contents [OF ok(1), of name] assms(3) r(1)
    unfolding FileSystem_Remove_def f(1,4) andThen_Inr prod.case dir'(1) Let_def dir_def [symmetric]
    by (simp add: d2(1) d3(1) fm2(1) fm3(1) d5(1,2))
  ultimately show ?thesis using d5(3,5) set3 by (auto simp: h_def fm_def)
qed

lemma open_spec:
  assumes "good d"
  shows "\<exists>d'. FileSystem_open rd big d
      = Inr (\<lparr>freeMapFile = \<lparr>of_hdr = header_at big (sector d) 0, seekPosition = 0\<rparr>,
              directoryFile = \<lparr>of_hdr = header_at big (sector d) 1, seekPosition = 0\<rparr>\<rparr>, d') \<and>
    good d' \<and> same_sectors (sector d) (sector d')"
proof -
  obtain d1 where d1: "FileHeader_FetchFrom rd big 0 d = Inr (header_at big (sector d) 0, d1)" "good d1" "same_sectors (sector d) (sector d1)"
    using header_read [OF assms, of 0 big] by auto
  obtain d2 where d2: "FileHeader_FetchFrom rd big 1 d1 = Inr (header_at big (sector d1) 1, d2)" "good d2" "same_sectors (sector d1) (sector d2)"
    using header_read [OF d1(2), of 1 big] by auto
  have "header_at big (sector d1) 1 = header_at big (sector d) 1" using d1(3) by (simp add: header_at_def same_sectors_def)
  then show ?thesis
    using d1 d2 same_sectors_trans [OF d1(3) d2(3)]
    by (simp add: FileSystem_open_def OpenFile_new_def FreeMapSector_def DirectorySector_def)
qed

end

text \<open>The sectors a fresh file system takes.\<close>

lemma format_sectors:
  assumes "hdr_rep h0"
  obtains fm0 fm1 fm2 mh fm3 dh fm4 where "BitMap_new NumSectors junk = Inr fm0" "BitMap_Mark FreeMapSector fm0 = Inr fm1"
    "BitMap_Mark DirectorySector fm1 = Inr fm2" "FileHeader_Allocate FreeMapFileSize h0 fm2 = Inr (True, mh, fm3)"
    "FileHeader_Allocate DirectoryFileSize h0 fm3 = Inr (True, dh, fm4)" "hdr_ok mh" "hdr_rep mh" "fh_numBytes mh = FreeMapFileSize"
    "hdr_ok dh" "hdr_rep dh" "fh_numBytes dh = DirectoryFileSize" "BitMap_ok fm4" "numBits fm4 = NumSectors"
    "distinct ([0, 1] @ file_sectors mh @ file_sectors dh)" "BitMap_set fm4 = set ([0, 1] @ file_sectors mh @ file_sectors dh)"
proof -
  obtain fm0 where 0: "BitMap_new NumSectors junk = Inr fm0" "BitMap_ok fm0" "numBits fm0 = NumSectors" "BitMap_set fm0 = {}"
    using BitMap_new_set [of NumSectors junk] by auto
  obtain fm1 where 1: "BitMap_Mark 0 fm0 = Inr fm1" "BitMap_ok fm1" "numBits fm1 = NumSectors" "BitMap_set fm1 = {0}"
    using BitMap_Mark_set [OF 0(2), of 0] 0(3,4) by auto
  obtain fm2 where 2: "BitMap_Mark 1 fm1 = Inr fm2" "BitMap_ok fm2" "numBits fm2 = NumSectors" "BitMap_set fm2 = {0, 1}"
    using BitMap_Mark_set [OF 1(2), of 1] 1(3,4) by auto
  have r: "divRoundUp FreeMapFileSize SectorSize = 1" "divRoundUp DirectoryFileSize SectorSize = 2"
    by (simp_all add: fs_constants divRoundUp_def SectorSize_def)
  have "card {0..<1024 :: int} - card {0, 1 :: int} \<le> card ({0..<1024} - {0, 1 :: int})" by (rule diff_card_le_card_Diff) simp
  then have "divRoundUp FreeMapFileSize SectorSize \<le> int (card (free_sectors fm2))" using 2(3,4) r by simp
  then obtain mh fm3 where m: "FileHeader_Allocate FreeMapFileSize h0 fm2 = Inr (True, mh, fm3)" "hdr_ok mh" "hdr_rep mh"
      "fh_numBytes mh = FreeMapFileSize" "set (file_sectors mh) \<subseteq> free_sectors fm2" "BitMap_ok fm3" "numBits fm3 = NumSectors"
      "BitMap_set fm3 = BitMap_set fm2 \<union> set (file_sectors mh)"
    using Allocate_enough [OF 2(2,3) assms, of FreeMapFileSize] by (auto simp: fs_constants)
  have "fh_numSectors mh = 1" using m(2,4) r by (simp add: hdr_ok_def)
  then have "length (file_sectors mh) \<le> 1" by (simp add: file_sectors_def)
  then have "card (set (file_sectors mh)) \<le> 1" using card_length order_trans by blast
  then have "card (BitMap_set fm3) \<le> 3" unfolding m(8) 2(4) using card_Un_le [of "{0, 1}" "set (file_sectors mh)"] by simp
  moreover have "card {0..<1024 :: int} - card (BitMap_set fm3) \<le> card ({0..<1024} - BitMap_set fm3)"
    by (rule diff_card_le_card_Diff) (simp add: m(8) 2(4))
  ultimately have "divRoundUp DirectoryFileSize SectorSize \<le> int (card (free_sectors fm3))" using m(7) r by simp
  then obtain dh fm4 where d: "FileHeader_Allocate DirectoryFileSize h0 fm3 = Inr (True, dh, fm4)" "hdr_ok dh" "hdr_rep dh"
      "fh_numBytes dh = DirectoryFileSize" "set (file_sectors dh) \<subseteq> free_sectors fm3" "BitMap_ok fm4" "numBits fm4 = NumSectors"
      "BitMap_set fm4 = BitMap_set fm3 \<union> set (file_sectors dh)"
    using Allocate_enough [OF m(6,7) assms, of DirectoryFileSize] by (auto simp: fs_constants)
  have "distinct (file_sectors mh)" "distinct (file_sectors dh)" using m(2) d(2) by (simp_all add: hdr_ok_def)
  then have "distinct ([0, 1] @ file_sectors mh @ file_sectors dh)" using m(5,8) d(5) 2(4) by auto
  moreover have "BitMap_set fm4 = set ([0, 1] @ file_sectors mh @ file_sectors dh)" unfolding d(8) m(8) 2(4) by auto
  ultimately show thesis
    using that [OF 0(1) _ _ m(1) d(1) m(2-4) d(2-4,6,7)] 1(1) 2(1) by (simp add: FreeMapSector_def DirectorySector_def)
qed

context sector_store
begin

lemma format_spec:
  assumes "good d" "hdr_rep (fresh_hdr junk)" "\<And>i. entry_rep (fresh_entry junk i)"
  shows "\<exists>fs d'. FileSystem_new rd wr junk big True d = Inr (fs, d') \<and> good d' \<and> fs_ok big (sector d') fs \<and>
    fs_files big (sector d') fs = Map.empty \<and>
    (\<forall>junk'. \<exists>d''. FileSystem_new rd wr junk' big False d' = Inr (fs, d'') \<and> good d'' \<and> same_sectors (sector d') (sector d''))"
proof -
  obtain fm0 fm1 fm2 mh fm3 dh fm4 where f: "BitMap_new NumSectors (fresh_word junk) = Inr fm0" "BitMap_Mark FreeMapSector fm0 = Inr fm1"
    "BitMap_Mark DirectorySector fm1 = Inr fm2" "FileHeader_Allocate FreeMapFileSize (fresh_hdr junk) fm2 = Inr (True, mh, fm3)"
    "FileHeader_Allocate DirectoryFileSize (fresh_hdr junk) fm3 = Inr (True, dh, fm4)" "hdr_ok mh" "hdr_rep mh" "fh_numBytes mh = FreeMapFileSize"
    "hdr_ok dh" "hdr_rep dh" "fh_numBytes dh = DirectoryFileSize" "BitMap_ok fm4" "numBits fm4 = NumSectors"
    "distinct ([0, 1] @ file_sectors mh @ file_sectors dh)" "BitMap_set fm4 = set ([0, 1] @ file_sectors mh @ file_sectors dh)"
    by (rule format_sectors [OF assms(2)])
  let ?fs = "\<lparr>freeMapFile = \<lparr>of_hdr = mh, seekPosition = 0\<rparr>, directoryFile = \<lparr>of_hdr = dh, seekPosition = 0\<rparr>\<rparr>"
  let ?dir = "Directory_new NumDirEntries (fresh_entry junk)"
  obtain d1 where d1: "FileHeader_WriteBack wr big 0 mh d = Inr d1" "good d1" "header_at big (sector d1) 0 = mh"
    using header_write [OF assms(1) _ _ f(7), of 0 big] by auto
  obtain d2 where d2: "FileHeader_WriteBack wr big 1 dh d1 = Inr d2" "good d2" "header_at big (sector d2) 1 = dh"
      "sector d2 0 = sector d1 0"
    using header_write [OF d1(2) _ _ f(10), of 1 big] by auto
  have "header_at big (sector d2) 0 = mh" using d1(3) d2(4) by (simp add: header_at_def)
  then obtain d3 where d3: "FileSystem_open rd big d2 = Inr (?fs, d3)" "good d3" "same_sectors (sector d2) (sector d3)"
    "header_at big (sector d3) 0 = mh" "header_at big (sector d3) 1 = dh"
    using open_spec [OF d2(2), of big] d2(3) by (auto simp: header_at_def same_sectors_def)
  have sys: "system_sectors ?fs = [0, 1] @ file_sectors mh @ file_sectors dh"
    by (simp add: system_sectors_def FreeMapSector_def DirectorySector_def)
  have meta: "meta_ok ?fs" using f(6,8,9,11,14) by (simp add: meta_ok_def sys)
  have u: "used_entries ?dir = []" by (simp add: used_entries_def Directory_new_def)
  have dir: "dir_ok ?dir" "length (table ?dir) = NumDirEntries"
    using assms(3) u by (auto simp: dir_ok_def Directory_new_def list_all_iff entry_rep_def)
  obtain d4 d5 where d5: "BitMap_WriteBack rd wr (fresh_byte junk) big (freeMapFile ?fs) fm4 d3 = Inr d4"
      "Directory_WriteBack rd wr (fresh_byte junk) big (directoryFile ?fs) ?dir d4 = Inr d5" "good d5"
      "fs_dir big (sector d5) ?fs = ?dir" "fs_map big (sector d5) ?fs = fm4" "unchanged_but (meta_sectors ?fs) (sector d3) (sector d5)"
    using flush_meta(2) [OF d3(2) meta dir f(12,13)] by blast
  have "0 \<notin> meta_sectors ?fs" "1 \<notin> meta_sectors ?fs" using f(14) by (simp_all add: meta_sectors_def)
  then have h5: "header_at big (sector d5) 0 = mh" "header_at big (sector d5) 1 = dh"
    using d5(6) d3(4,5) by (simp_all add: unchanged_but_def header_at_def)
  have "fs_ok big (sector d5) ?fs"
    using f h5 d5(4,5) u dir(1) by (simp add: fs_ok_def fs_sectors_def sys FreeMapSector_def DirectorySector_def)
  moreover have "fs_files big (sector d5) ?fs = Map.empty" by (simp add: fs_files_def d5(4) dir_map_def u fun_eq_iff)
  moreover have "FileSystem_new rd wr junk big True d = Inr (?fs, d5)"
    using d1(1) d2(1) unfolding FileSystem_new_def f(1-5) andThen_Inr Let_def prod.case
    by (simp add: FreeMapSector_def DirectorySector_def d3(1) d5(1,2) [simplified])
  moreover have "\<exists>d''. FileSystem_new rd wr junk' big False d5 = Inr (?fs, d'') \<and> good d'' \<and> same_sectors (sector d5) (sector d'')" for junk'
    using open_spec [OF d5(3), of big] h5 by (simp add: FileSystem_new_def)
  ultimately show ?thesis using d5(3) by blast
qed

end

section \<open>Writing to a file\<close>

lemma fs_ok_data:
  assumes ok: "fs_ok big sec fs" and e: "e \<in> set (used_entries (fs_dir big sec fs))"
    and same: "unchanged_but (set (file_sectors (header_at big sec (de_sector e)))) sec sec'"
  shows "fs_ok big sec' fs" "fs_dir big sec' fs = fs_dir big sec fs"
    "header_at big sec' (de_sector e) = header_at big sec (de_sector e)"
    "k \<noteq> entry_key e \<Longrightarrow> fs_files big sec' fs k = fs_files big sec fs k"
proof -
  let ?D = "set (file_sectors (header_at big sec (de_sector e)))"
  obtain xs ys where u: "used_entries (fs_dir big sec fs) = xs @ e # ys" using split_list [OF e] by blast
  have dist: "distinct (system_sectors fs @ concat (map (entry_sectors big sec) (xs @ e # ys)))"
    using ok u by (simp add: fs_ok_def fs_sectors_def)
  have sub: "?D \<subseteq> set (entry_sectors big sec e)" by (auto simp: entry_sectors_def)
  have X: "?D \<inter> set (system_sectors fs) = {}" using dist sub by auto
  have hdr: "hdr_ok (of_hdr (freeMapFile fs))" "hdr_ok (of_hdr (directoryFile fs))" using ok by (simp_all add: fs_ok_def)
  have c: "file_content sec' h = file_content sec h" if "hdr_ok h" "set (file_sectors h) \<subseteq> set (system_sectors fs)" for h
  proof -
    have "map sec' (file_sectors h) = map sec (file_sectors h)"
      using same that X by (auto simp: hdr_ok_def list_all_iff unchanged_but_def)
    then show ?thesis by (simp add: file_content_def file_data_def del: map_eq_conv)
  qed
  have m: "set (file_sectors (of_hdr (freeMapFile fs))) \<subseteq> set (system_sectors fs)"
    "set (file_sectors (of_hdr (directoryFile fs))) \<subseteq> set (system_sectors fs)" by (auto simp: system_sectors_def)
  show dir: "fs_dir big sec' fs = fs_dir big sec fs" using c [OF hdr(2) m(2)] by (simp add: fs_dir_def)
  have map: "fs_map big sec' fs = fs_map big sec fs" using c [OF hdr(1) m(1)] by (simp add: fs_map_def)
  have other: "header_at big sec' (de_sector x) = header_at big sec (de_sector x)"
      "file_content sec' (header_at big sec (de_sector x)) = file_content sec (header_at big sec (de_sector x))"
    if "x \<in> set (xs @ ys)" for x
  proof -
    have x: "x \<in> set (used_entries (fs_dir big sec fs))" using that u by auto
    have "?D \<inter> set (entry_sectors big sec x) = {}" using dist sub that by auto
    then show "header_at big sec' (de_sector x) = header_at big sec (de_sector x)"
      "file_content sec' (header_at big sec (de_sector x)) = file_content sec (header_at big sec (de_sector x))"
      using fs_unchanged_entry(1,3) [OF ok _ x, of ?D sec'] same by (auto simp: unchanged_but_def)
  qed
  have "distinct (entry_sectors big sec e)" using dist by simp
  then have "de_sector e \<notin> ?D" by (simp add: entry_sectors_def)
  then show self: "header_at big sec' (de_sector e) = header_at big sec (de_sector e)"
    using same fs_ok_range [OF ok, of "de_sector e"] fs_ok_entry(2) [OF ok e]
    by (simp add: unchanged_but_def header_at_def entry_sectors_def)
  have all: "header_at big sec' (de_sector x) = header_at big sec (de_sector x)" if "x \<in> set (used_entries (fs_dir big sec fs))" for x
    using that other(1) self unfolding u by auto
  then have es: "map (entry_sectors big sec') (used_entries (fs_dir big sec fs)) = map (entry_sectors big sec) (used_entries (fs_dir big sec fs))"
    by (intro map_cong refl) (simp add: entry_sectors_def)
  have same': "unchanged_but (?D \<union> meta_sectors fs) sec sec'" using same by (simp add: unchanged_but_def)
  show "fs_ok big sec' fs"
    using ok all fs_unchanged_system [OF ok same' X] es
    by (simp add: fs_ok_def dir map fs_sectors_def list_all_iff del: map_eq_conv)
  show "fs_files big sec' fs k = fs_files big sec fs k" if "k \<noteq> entry_key e"
  proof (cases "dir_map (fs_dir big sec fs) k")
    case (Some t)
    then obtain x where "x \<in> set (used_entries (fs_dir big sec fs))" "entry_key x = k" "de_sector x = t" using dir_map_Some by metis
    then have "x \<in> set (xs @ ys)" "de_sector x = t" using that u by auto
    then show ?thesis using other Some by (auto simp: fs_files_def dir)
  qed (simp add: fs_files_def dir)
qed

section \<open>Properties\<close>

abbreviation disk_image :: "SynchDisk \<Rightarrow> int \<Rightarrow> 8 word list" where
  "disk_image d \<equiv> disk_sector (disk_file d)"

text \<open>
  Property C12. Formatting a disk never fails an assertion and yields a well-formed file system
  without files, whatever the disk and the fresh memory held; starting Nachos again without
  formatting finds the same file system.
\<close>

theorem format_establishes_fs_ok:
  assumes "sd_ready d" "hdr_rep (fresh_hdr junk)" "\<And>i. entry_rep (fresh_entry junk i)"
  shows "\<exists>fs d'. FileSystem_new ReadSector WriteSector junk big True d = Inr (fs, d') \<and> sd_ready d' \<and>
    fs_ok big (disk_image d') fs \<and> fs_files big (disk_image d') fs = Map.empty \<and>
    (\<forall>junk'. \<exists>d''. FileSystem_new ReadSector WriteSector junk' big False d' = Inr (fs, d'') \<and> sd_ready d'' \<and>
       same_sectors (disk_image d') (disk_image d''))"
  by (rule synch_disk.format_spec [OF assms])

definition demo_fresh :: fresh where
  "demo_fresh = \<lparr>fresh_entry = (\<lambda>_. \<lparr>inUse = True, de_sector = 3, de_name = replicate 10 1, de_pad = replicate 5 1\<rparr>),
     fresh_word = (\<lambda>_. 5), fresh_hdr = demo_hdr, fresh_byte = (\<lambda>_. 9)\<rparr>"

lemma demo_fresh_ok: "hdr_rep (fresh_hdr demo_fresh)" "entry_rep (fresh_entry demo_fresh i)"
  by (simp_all add: demo_fresh_def demo_hdr_rep entry_rep_def int32_def)

lemma demo_formatted:
  obtains fs d' where "FileSystem_new ReadSector WriteSector demo_fresh True True demo_synchdisk = Inr (fs, d')" "sd_ready d'"
    "fs_ok True (disk_image d') fs" "fs_files True (disk_image d') fs = Map.empty"
  using synch_disk.format_spec [OF demo_synchdisk_ready demo_fresh_ok, of True] by blast

theorem format_establishes_fs_ok_witness:
  "\<exists>fs d'. FileSystem_new ReadSector WriteSector demo_fresh False True demo_synchdisk = Inr (fs, d') \<and> sd_ready d' \<and>
     fs_ok False (disk_image d') fs"
  using format_establishes_fs_ok [OF demo_synchdisk_ready demo_fresh_ok, of False] by blast

text \<open>
  Property C9. \<^verbatim>\<open>Create\<close> refines the insertion of a new byte array into the map of files: it fails
  exactly when a file with the same key exists, the directory is full or there are too few free
  sectors for the header and the data, and then no sector of the disk has changed; otherwise the
  file system is well formed again, the new file has exactly the requested length, and every other
  file keeps its contents. This holds for every size up to \<^verbatim>\<open>MaxFileSize\<close>.
\<close>

theorem Create_refines_insert:
  assumes "sd_ready d" "fs_ok big (disk_image d) fs" "0 \<le> initialSize" "initialSize \<le> MaxFileSize" "hdr_rep (fresh_hdr junk)"
  shows "if fs_files big (disk_image d) fs (cstr FileNameMaxLen name) \<noteq> None \<or> list_all inUse (table (fs_dir big (disk_image d) fs)) \<or>
      int (card (free_sectors (fs_map big (disk_image d) fs))) < 1 + divRoundUp initialSize SectorSize
    then \<exists>d'. FileSystem_Create ReadSector WriteSector junk big fs name initialSize d = Inr (False, d') \<and> sd_ready d' \<and>
      same_sectors (disk_image d) (disk_image d')
    else \<exists>d' C. FileSystem_Create ReadSector WriteSector junk big fs name initialSize d = Inr (True, d') \<and> sd_ready d' \<and>
      fs_ok big (disk_image d') fs \<and> length C = nat initialSize \<and>
      fs_files big (disk_image d') fs = (fs_files big (disk_image d) fs)(cstr FileNameMaxLen name \<mapsto> C)"
proof -
  have "fs_files big (disk_image d) fs (cstr FileNameMaxLen name) \<noteq> None \<longleftrightarrow>
      dir_map (fs_dir big (disk_image d) fs) (cstr FileNameMaxLen name) \<noteq> None" by (simp add: fs_files_def)
  then show ?thesis
    using synch_disk.Create_fails [OF assms(1-3,5), where name = name] synch_disk.Create_succeeds [OF assms, where name = name]
    by (auto simp del: not_None_eq)
qed

lemma empty_fs_room:
  assumes "fs_ok big sec fs" "fs_files big sec fs = Map.empty"
  shows "\<not> list_all inUse (table (fs_dir big sec fs))" "1000 \<le> int (card (free_sectors (fs_map big sec fs)))"
proof -
  have "dir_map (fs_dir big sec fs) k = None" for k using fun_cong [OF assms(2), of k] by (simp add: fs_files_def)
  then have "k \<notin> entry_key ` set (used_entries (fs_dir big sec fs))" for k unfolding dir_map_None .
  then have "entry_key ` set (used_entries (fs_dir big sec fs)) = {}" by (metis ex_in_conv)
  then have u: "used_entries (fs_dir big sec fs) = []" by simp
  have "table (fs_dir big sec fs) \<noteq> []" by (simp add: fs_dir_def table_of_bytes_def NumDirEntries_def)
  then show "\<not> list_all inUse (table (fs_dir big sec fs))" using u
    by (cases "table (fs_dir big sec fs)") (auto simp: used_entries_def)
  obtain a b where "length (file_sectors (of_hdr (freeMapFile fs))) = a" "length (file_sectors (of_hdr (directoryFile fs))) = b" "a \<le> 10" "b \<le> 10"
    using assms(1) by (auto simp: fs_ok_def file_sectors_def hdr_ok_def fs_constants divRoundUp_def SectorSize_def)
  then have "length (fs_sectors big sec fs) \<le> 22" by (simp add: fs_sectors_def u system_sectors_def)
  then have "card (set (fs_sectors big sec fs)) \<le> 22" using card_length le_trans by blast
  then have c: "card (BitMap_set (fs_map big sec fs)) \<le> 22" "finite (BitMap_set (fs_map big sec fs))"
    using assms(1) by (auto simp: fs_ok_def) (metis List.finite_set)
  then have "card {0..<1024 :: int} - card (BitMap_set (fs_map big sec fs)) \<le> card ({0..<1024} - BitMap_set (fs_map big sec fs))"
    by (intro diff_card_le_card_Diff)
  then show "1000 \<le> int (card (free_sectors (fs_map big sec fs)))" using c(1) by (simp add: fs_map_ok(2) [simplified])
qed

theorem Create_refines_insert_witness:
  "\<exists>fs d d' C. fs_ok True (disk_image d) fs \<and>
     FileSystem_Create ReadSector WriteSector demo_fresh True fs [97] 200 d = Inr (True, d') \<and>
     fs_files True (disk_image d') fs = [[97] \<mapsto> C] \<and> length C = 200"
proof -
  obtain fs d where d: "sd_ready d" "fs_ok True (disk_image d) fs" "fs_files True (disk_image d) fs = Map.empty"
    using demo_formatted by metis
  have k: "cstr FileNameMaxLen [97] = [97]" by (simp add: cstr_def FileNameMaxLen_def)
  have "divRoundUp 200 SectorSize = 2" by (simp add: divRoundUp_def SectorSize_def)
  then show ?thesis
    using Create_refines_insert [OF d(1,2), where initialSize = 200 and junk = demo_fresh and name = "[97]"] demo_fresh_ok(1)
      empty_fs_room [OF d(2,3)] d(2,3) unfolding k by auto
qed

text \<open>
  Property C10. \<^verbatim>\<open>Remove\<close> refines the deletion of a file from the map of files: a missing name is refused
  without any change; otherwise no assertion of \<^verbatim>\<open>Deallocate\<close> fails, exactly the sectors of the file's
  header and data become free, every other file keeps its contents and the file system is well formed.
\<close>

theorem Remove_refines_delete:
  assumes "sd_ready d" "fs_ok big (disk_image d) fs"
  shows "case dir_map (fs_dir big (disk_image d) fs) (cstr FileNameMaxLen name) of
      None \<Rightarrow> \<exists>d'. FileSystem_Remove ReadSector WriteSector junk big fs name d = Inr (False, d') \<and> sd_ready d' \<and>
        same_sectors (disk_image d) (disk_image d')
    | Some s \<Rightarrow> \<exists>d'. FileSystem_Remove ReadSector WriteSector junk big fs name d = Inr (True, d') \<and> sd_ready d' \<and>
        fs_ok big (disk_image d') fs \<and> fs_files big (disk_image d') fs = (fs_files big (disk_image d) fs)(cstr FileNameMaxLen name := None) \<and>
        BitMap_set (fs_map big (disk_image d') fs)
          = BitMap_set (fs_map big (disk_image d) fs) - set (s # file_sectors (header_at big (disk_image d) s))"
  using synch_disk.Remove_missing [OF assms, where name = name and junk = junk] synch_disk.Remove_present [OF assms, where name = name and junk = junk]
  by (cases "dir_map (fs_dir big (disk_image d) fs) (cstr FileNameMaxLen name)") (auto simp del: set_simps)

theorem Remove_refines_delete_witness:
  "\<exists>fs d d'. fs_ok True (disk_image d) fs \<and>
     FileSystem_Remove ReadSector WriteSector demo_fresh True fs [97] d = Inr (False, d') \<and> same_sectors (disk_image d) (disk_image d')"
proof -
  obtain fs d where d: "sd_ready d" "fs_ok True (disk_image d) fs" "fs_files True (disk_image d) fs = Map.empty"
    using demo_formatted by metis
  then have "dir_map (fs_dir True (disk_image d) fs) (cstr FileNameMaxLen [97]) = None"
    by (simp add: fs_files_def fun_eq_iff)
  with Remove_refines_delete [OF d(1,2), where name = "[97]" and junk = demo_fresh] d(2) show ?thesis by auto
qed

text \<open>
  Property C11. Opening, writing and reading compose: \<^verbatim>\<open>Open\<close> returns null exactly for missing names and
  otherwise the open file of this name; a write through it keeps the file system well formed,
  replaces the requested bytes of this file and leaves every other file alone; opening the file again
  and reading at the same place returns the bytes written.
\<close>

theorem open_write_reopen_read:
  assumes "sd_ready d" "fs_ok big (disk_image d) fs" "0 \<le> position" "position + n < 2 ^ 31" "nat n \<le> length from"
  shows "case fs_files big (disk_image d) fs (cstr FileNameMaxLen name) of
      None \<Rightarrow> \<exists>d1. FileSystem_Open ReadSector junk big fs name d = Inr (None, d1) \<and> same_sectors (disk_image d) (disk_image d1)
    | Some C \<Rightarrow> \<exists>f d1 d2 d3 d4. let p = nat position; m = min (nat n) (length C - p) in
        FileSystem_Open ReadSector junk big fs name d = Inr (Some f, d1) \<and> OpenFile_Length f = int (length C) \<and>
        WriteAt ReadSector WriteSector junk' f from n position d1 = Inr (int m, d2) \<and>
        sd_ready d2 \<and> fs_ok big (disk_image d2) fs \<and>
        fs_files big (disk_image d2) fs = (fs_files big (disk_image d) fs)(cstr FileNameMaxLen name \<mapsto> take p C @ take m from @ drop (p + m) C) \<and>
        FileSystem_Open ReadSector junk big fs name d2 = Inr (Some f, d3) \<and>
        ReadAt ReadSector f n position d3 = Inr (take m from, d4)"
proof (cases "dir_map (fs_dir big (disk_image d) fs) (cstr FileNameMaxLen name)")
  case None
  then show ?thesis
    using synch_disk.Open_spec [OF assms(1,2), where name = name and junk = junk] by (auto simp: fs_files_def)
next
  case (Some s)
  let ?k = "cstr FileNameMaxLen name" and ?h = "header_at big (disk_image d) s" and ?C = "file_content (disk_image d) (header_at big (disk_image d) s)"
  let ?f = "\<lparr>of_hdr = ?h, seekPosition = 0\<rparr>"
  let ?m = "min (nat n) (length ?C - nat position)"
  let ?C' = "take (nat position) ?C @ take ?m from @ drop (nat position + ?m) ?C"
  obtain d1 where d1: "FileSystem_Open ReadSector junk big fs name d = Inr (Some ?f, d1)" "sd_ready d1" "same_sectors (disk_image d) (disk_image d1)"
    using synch_disk.Open_spec [OF assms(1,2), where name = name and junk = junk] Some by auto
  obtain e where e: "e \<in> set (used_entries (fs_dir big (disk_image d) fs))" "entry_key e = ?k" "de_sector e = s"
    using dir_map_Some [OF Some] by blast
  have h: "hdr_ok ?h" using fs_ok_entry(1) [OF assms(2) e(1)] e(3) by simp
  have len: "length ?C = nat (fh_numBytes ?h)" by (rule synch_disk.length_file_content [OF assms(1) h])
  have C1: "file_content (disk_image d1) ?h = ?C" using file_content_same [OF h d1(3)] .
  obtain d2 where d2: "WriteAt ReadSector WriteSector junk' ?f from n position d1 = Inr (int ?m, d2)" "sd_ready d2"
      "file_content (disk_image d2) ?h = ?C'" "unchanged_but (set (file_sectors ?h)) (disk_image d1) (disk_image d2)"
    using synch_disk.WriteAt_spec [OF d1(2) _ assms(3-5), of ?f junk'] h unfolding unchanged_but_def len C1 OpenFile.select_convs by auto
  have same: "unchanged_but (set (file_sectors (header_at big (disk_image d) (de_sector e)))) (disk_image d) (disk_image d2)"
    using unchanged_but_trans [OF d1(3) [unfolded same_unchanged] d2(4)] e(3) by simp
  note fs2 = fs_ok_data [OF assms(2) e(1) same, unfolded e(2,3)]
  have files: "fs_files big (disk_image d2) fs = (fs_files big (disk_image d) fs)(?k \<mapsto> ?C')"
    using fs2(4) Some fs2(3) d2(3) by (auto simp: fun_eq_iff fs_files_def fs2(2))
  obtain d3 where d3: "FileSystem_Open ReadSector junk big fs name d2 = Inr (Some ?f, d3)" "sd_ready d3" "same_sectors (disk_image d2) (disk_image d3)"
    using synch_disk.Open_spec [OF d2(2) fs2(1), where name = name and junk = junk] Some fs2(2,3) by auto
  have "take (nat n) (drop (nat position) ?C') = take ?m from"
    using assms(5) by (auto simp: min_def)
  then obtain d4 where d4: "ReadAt ReadSector ?f n position d3 = Inr (take ?m from, d4)"
    using synch_disk.ReadAt_spec [OF d3(2) _ assms(3,4), of ?f] h file_content_same [OF h d3(3)] d2(3) by auto
  have "OpenFile_Length ?f = int (length ?C)" using len h by (simp add: OpenFile_Length_def FileLength_def hdr_ok_def)
  moreover have "fs_files big (disk_image d) fs ?k = Some ?C" using Some by (simp add: fs_files_def)
  ultimately show ?thesis using d1(1) d2(1,2) fs2(1) files d3(1) d4 by (auto simp: Let_def)
qed

theorem open_write_reopen_read_witness:
  "\<exists>fs d d1 C f d2 d3 d4. fs_files True (disk_image d) fs [97] = Some C \<and> length C = 200 \<and>
     FileSystem_Open ReadSector demo_fresh True fs [97] d = Inr (Some f, d1) \<and>
     WriteAt ReadSector WriteSector (\<lambda>_. 0) f [1, 2, 3] 3 126 d1 = Inr (3, d2) \<and>
     FileSystem_Open ReadSector demo_fresh True fs [97] d2 = Inr (Some f, d3) \<and>
     ReadAt ReadSector f 3 126 d3 = Inr ([1, 2, 3], d4)"
proof -
  obtain fs d0 where d0: "sd_ready d0" "fs_ok True (disk_image d0) fs" "fs_files True (disk_image d0) fs = Map.empty"
    using demo_formatted by metis
  have k: "cstr FileNameMaxLen [97] = [97]" by (simp add: cstr_def FileNameMaxLen_def)
  have "divRoundUp 200 SectorSize = 2" by (simp add: divRoundUp_def SectorSize_def)
  moreover have "dir_map (fs_dir True (disk_image d0) fs) (cstr FileNameMaxLen [97]) = None"
    using fun_cong [OF d0(3), of "cstr FileNameMaxLen [97]"] by (simp add: fs_files_def)
  ultimately obtain d C where d: "sd_ready d" "fs_ok True (disk_image d) fs" "length C = 200" "fs_files True (disk_image d) fs [97] = Some C"
    using synch_disk.Create_succeeds [OF d0(1,2), where initialSize = 200 and junk = demo_fresh and name = "[97]"] demo_fresh_ok(1)
      empty_fs_room [OF d0(2,3)] by (auto simp: k)
  obtain f d1 d2 d3 d4 where "FileSystem_Open ReadSector demo_fresh True fs [97] d = Inr (Some f, d1)"
     "WriteAt ReadSector WriteSector (\<lambda>_. 0) f [1, 2, 3] 3 126 d1 = Inr (3, d2)"
     "FileSystem_Open ReadSector demo_fresh True fs [97] d2 = Inr (Some f, d3)" "ReadAt ReadSector f 3 126 d3 = Inr ([1, 2, 3], d4)"
    using open_write_reopen_read [OF d(1,2), where position = 126 and n = 3 and ?from = "[1, 2, 3]" and name = "[97]"
        and junk = demo_fresh and junk' = "\<lambda>_. 0"] d(3,4)
    by (auto simp: k Let_def)
  then show ?thesis using d(3,4) by blast
qed

end
