(* ===== verification/Nachos_AddrSpace.thy ===== *)
theory Nachos_AddrSpace
  imports Nachos_FileSys
begin

text \<open>
  \<^verbatim>\<open>userprog/addrspace.cc\<close>, \<^verbatim>\<open>addrspace.h\<close>, \<^verbatim>\<open>table.h\<close> and the object format of \<^verbatim>\<open>bin/noff.h\<close>: the table of open
  files of a process and the loader that fills memory from an executable and sets up the page table.
  A table holds pointers; null is \<open>None\<close>. Its lock guards against other threads of the process and does
  not matter to the one thread considered here.
\<close>

section \<open>Tables of handles\<close>

record 'f Table =
  tmap :: BitMap
  table_slots :: "'f option list"
  tsize :: int

definition Table_new :: "int \<Rightarrow> (nat \<Rightarrow> 32 word) \<Rightarrow> (nat \<Rightarrow> 'f option) \<Rightarrow> 'f Table res" where
  "Table_new s junk junk_slot =
     andThen (BitMap_new s junk) (\<lambda>b. Inr \<lparr>tmap = b, table_slots = map junk_slot [0..<nat s], tsize = s\<rparr>)"

definition Table_Get :: "int \<Rightarrow> 'f Table \<Rightarrow> 'f option res" where
  "Table_Get i t =
     (if i \<ge> 0 \<and> i < tsize t then
        andThen (BitMap_Test i (tmap t)) (\<lambda>b. Inr (if b then table_slots t ! nat i else None))
      else Inr None)"

definition Table_Put :: "'f option \<Rightarrow> 'f Table \<Rightarrow> (int \<times> 'f Table) res" where
  "Table_Put f t =
     andThen (BitMap_Find (tmap t)) (\<lambda>(i, b).
       let t1 = t\<lparr>tmap := b\<rparr> in
       Inr (i, if i \<noteq> - 1 then t1\<lparr>table_slots := (table_slots t1)[nat i := f]\<rparr> else t1))"

definition Table_Remove :: "int \<Rightarrow> 'f Table \<Rightarrow> ('f option \<times> 'f Table) res" where
  "Table_Remove i t =
     (if i \<ge> 0 \<and> i < tsize t then
        andThen (BitMap_Test i (tmap t)) (\<lambda>used.
          if used then
            andThen (BitMap_Clear i (tmap t)) (\<lambda>b.
              Inr (table_slots t ! nat i, t\<lparr>tmap := b, table_slots := (table_slots t)[nat i := None]\<rparr>))
          else Inr (None, t))
      else Inr (None, t))"

definition Table_ok :: "'f Table \<Rightarrow> bool" where
  "Table_ok t \<longleftrightarrow> BitMap_ok (tmap t) \<and> numBits (tmap t) = tsize t \<and> length (table_slots t) = nat (tsize t)"

text \<open>The open handles and what they stand for.\<close>

definition Table_map :: "'f Table \<Rightarrow> int \<Rightarrow> 'f option option" where
  "Table_map t i = (if i \<in> BitMap_set (tmap t) then Some (table_slots t ! nat i) else None)"

lemma Table_map_range: "Table_ok t \<Longrightarrow> Table_map t i \<noteq> None \<Longrightarrow> 0 \<le> i \<and> i < tsize t"
  using BitMap_set_subset [of "tmap t"] by (auto simp: Table_ok_def Table_map_def split: if_splits)

lemma Table_Get_eq: "Table_ok t \<Longrightarrow> Table_Get i t = Inr (case Table_map t i of None \<Rightarrow> None | Some f \<Rightarrow> f)"
  using BitMap_set_subset [of "tmap t"] by (auto simp: Table_Get_def Table_ok_def Table_map_def BitMap_Test_set)

lemma other_slot: "0 \<le> i \<Longrightarrow> j \<in> BitMap_set b \<Longrightarrow> j \<noteq> i \<Longrightarrow> nat i \<noteq> nat j"
  using BitMap_set_subset [of b] by (metis atLeastLessThan_iff eq_nat_nat_iff subsetD)

lemma Table_Put_spec:
  assumes "Table_ok t"
  shows "if \<forall>i. 0 \<le> i \<longrightarrow> i < tsize t \<longrightarrow> Table_map t i \<noteq> None then Table_Put f t = Inr (- 1, t)
    else \<exists>i t'. Table_Put f t = Inr (i, t') \<and> 0 \<le> i \<and> i < tsize t \<and> Table_map t i = None \<and>
      (\<forall>j. 0 \<le> j \<longrightarrow> j < i \<longrightarrow> Table_map t j \<noteq> None) \<and>
      Table_ok t' \<and> tsize t' = tsize t \<and> Table_map t' = (Table_map t)(i \<mapsto> f)"
proof -
  have ok: "BitMap_ok (tmap t)" "numBits (tmap t) = tsize t" "length (table_slots t) = nat (tsize t)"
    using assms by (simp_all add: Table_ok_def)
  have full: "(\<forall>i. 0 \<le> i \<longrightarrow> i < tsize t \<longrightarrow> Table_map t i \<noteq> None) \<longleftrightarrow> {0..<numBits (tmap t)} \<subseteq> BitMap_set (tmap t)"
    by (auto simp: Table_map_def ok(2) split: if_splits)
  show ?thesis
  proof (cases "{0..<numBits (tmap t)} \<subseteq> BitMap_set (tmap t)")
    case True
    then show ?thesis unfolding full using bitmap.find_full [OF ok(1)] by (simp add: Table_Put_def)
  next
    case False
    then obtain i b where i: "BitMap_Find (tmap t) = Inr (i, b)" "0 \<le> i" "i < tsize t" "i \<notin> BitMap_set (tmap t)"
      "{0..<i} \<subseteq> BitMap_set (tmap t)" "BitMap_ok b" "numBits b = tsize t" "BitMap_set b = insert i (BitMap_set (tmap t))"
      using bitmap.find_free [OF ok(1)] ok(2) by auto
    let ?t = "t\<lparr>tmap := b, table_slots := (table_slots t)[nat i := f]\<rparr>"
    have "Table_map ?t j = ((Table_map t)(i \<mapsto> f)) j" for j
      using i ok other_slot [OF i(2), of j "tmap t"] by (auto simp: Table_map_def)
    then have "Table_map ?t = (Table_map t)(i \<mapsto> f)" by blast
    moreover have "Table_Put f t = Inr (i, ?t)" using i(1,2) by (simp add: Table_Put_def)
    moreover have "Table_ok ?t" using i ok by (simp add: Table_ok_def)
    moreover have "\<forall>j. 0 \<le> j \<longrightarrow> j < i \<longrightarrow> Table_map t j \<noteq> None" using i(5) by (auto simp: Table_map_def subset_iff)
    ultimately show ?thesis unfolding full using False i by (auto simp: Table_map_def)
  qed
qed

lemma Table_Put_least:
  assumes "Table_ok t" "0 \<le> i" "i < tsize t" "Table_map t i = None" "\<And>j. 0 \<le> j \<Longrightarrow> j < i \<Longrightarrow> Table_map t j \<noteq> None"
  shows "\<exists>t'. Table_Put f t = Inr (i, t') \<and> Table_ok t' \<and> tsize t' = tsize t \<and> Table_map t' = (Table_map t)(i \<mapsto> f)"
proof -
  have "\<not> (\<forall>i. 0 \<le> i \<longrightarrow> i < tsize t \<longrightarrow> Table_map t i \<noteq> None)" using assms(2-4) by blast
  then obtain k t' where k: "Table_Put f t = Inr (k, t')" "0 \<le> k" "Table_map t k = None" "\<forall>j. 0 \<le> j \<longrightarrow> j < k \<longrightarrow> Table_map t j \<noteq> None"
      "Table_ok t'" "tsize t' = tsize t" "Table_map t' = (Table_map t)(k \<mapsto> f)"
    using Table_Put_spec [OF assms(1), of f] by (simp only: if_False) blast
  have "k = i" using k(2-4) assms(2,4,5) by (metis linorder_neqE_linordered_idom)
  then show ?thesis using k by blast
qed

lemma Table_Remove_spec:
  assumes "Table_ok t"
  shows "case Table_map t i of None \<Rightarrow> Table_Remove i t = Inr (None, t)
    | Some f \<Rightarrow> \<exists>t'. Table_Remove i t = Inr (f, t') \<and> Table_ok t' \<and> tsize t' = tsize t \<and> Table_map t' = (Table_map t)(i := None)"
proof (cases "Table_map t i")
  case None
  then show ?thesis using assms by (auto simp: Table_Remove_def Table_map_def Table_ok_def BitMap_Test_set split: if_splits)
next
  case (Some f)
  have ok: "BitMap_ok (tmap t)" "numBits (tmap t) = tsize t" "length (table_slots t) = nat (tsize t)"
    using assms by (simp_all add: Table_ok_def)
  have i: "0 \<le> i" "i < tsize t" "i \<in> BitMap_set (tmap t)" "f = table_slots t ! nat i"
    using Some Table_map_range [OF assms, of i] by (auto simp: Table_map_def split: if_splits)
  obtain b where b: "BitMap_Clear i (tmap t) = Inr b" "BitMap_ok b" "numBits b = tsize t" "BitMap_set b = BitMap_set (tmap t) - {i}"
    using BitMap_Clear_set [OF ok(1) i(1)] i(2) ok(2) by auto
  let ?t = "t\<lparr>tmap := b, table_slots := (table_slots t)[nat i := None]\<rparr>"
  have "Table_map ?t j = ((Table_map t)(i := None)) j" for j
    using i b(4) other_slot [OF i(1), of j "tmap t"] ok by (auto simp: Table_map_def)
  then have "Table_map ?t = (Table_map t)(i := None)" by blast
  moreover have "Table_Remove i t = Inr (f, ?t)" using i b(1) ok(2) by (simp add: Table_Remove_def BitMap_Test_set)
  ultimately show ?thesis using Some b ok by (simp add: Table_ok_def)
qed

section \<open>Object files\<close>

definition NOFFMAGIC :: "32 word" where "NOFFMAGIC = 0xbadfad"

record Segment =
  virtualAddr :: "32 word"
  inFileAddr :: "32 word"
  seg_size :: "32 word"

record NoffHeader =
  noffMagic :: "32 word"
  noff_code :: Segment
  initData :: Segment
  uninitData :: Segment

definition sizeof_NoffHeader :: nat where "sizeof_NoffHeader = 40"

definition Segment_of_words :: "32 word list \<Rightarrow> Segment" where
  "Segment_of_words ws = \<lparr>virtualAddr = ws ! 0, inFileAddr = ws ! 1, seg_size = ws ! 2\<rparr>"

definition NoffHeader_of_bytes :: "bool \<Rightarrow> 8 word list \<Rightarrow> NoffHeader" where
  "NoffHeader_of_bytes big bs =
     (let ws = words_of_bytes big 10 bs in
      \<lparr>noffMagic = ws ! 0, noff_code = Segment_of_words (drop 1 ws), initData = Segment_of_words (drop 4 ws),
       uninitData = Segment_of_words (drop 7 ws)\<rparr>)"

definition swap_segment :: "bool \<Rightarrow> Segment \<Rightarrow> Segment" where
  "swap_segment big s = \<lparr>virtualAddr = WordToHost big (virtualAddr s), inFileAddr = WordToHost big (inFileAddr s),
     seg_size = WordToHost big (seg_size s)\<rparr>"

definition SwapHeader :: "bool \<Rightarrow> NoffHeader \<Rightarrow> NoffHeader" where
  "SwapHeader big h = \<lparr>noffMagic = WordToHost big (noffMagic h), noff_code = swap_segment big (noff_code h),
     initData = swap_segment big (initData h), uninitData = swap_segment big (uninitData h)\<rparr>"

section \<open>Address spaces\<close>

definition UserStackSize :: "32 word" where "UserStackSize = 1024"
definition MaxOpenFiles :: int where "MaxOpenFiles = 256"

record AddrSpace =
  fileTable :: "OpenFile Table"
  as_pageTable :: "TranslationEntry list"
  numPages :: "32 word"

text \<open>\<^verbatim>\<open>divRoundUp\<close> on unsigned operands.\<close>

definition divRoundUp_unsigned :: "32 word \<Rightarrow> 32 word \<Rightarrow> 32 word" where
  "divRoundUp_unsigned n s = n div s + (if n mod s > 0 then 1 else 0)"

text \<open>Bytes stored at an index of \<^verbatim>\<open>mainMemory\<close>; outside the array that is undefined.\<close>

definition store_bytes :: "int \<Rightarrow> 8 word list \<Rightarrow> (nat \<Rightarrow> 8 word) \<Rightarrow> (nat \<Rightarrow> 8 word) res" where
  "store_bytes a bs mem =
     (if bs = [] then Inr mem
      else if 0 \<le> a \<and> a + int (length bs) \<le> MemorySize
      then Inr (\<lambda>i. if nat a \<le> i \<and> i < nat a + length bs then bs ! (i - nat a) else mem i)
      else Inl Undefined)"

definition load_segment ::
    "(int \<Rightarrow> 'd \<Rightarrow> (8 word list \<times> 'd) res) \<Rightarrow> OpenFile \<Rightarrow> Segment \<Rightarrow> (nat \<Rightarrow> 8 word) \<Rightarrow> 'd \<Rightarrow>
     ((nat \<Rightarrow> 8 word) \<times> 'd) res" where
  "load_segment rd executable s mem d =
     (if sint (seg_size s) > 0 then
        andThen (ReadAt rd executable (sint (seg_size s)) (sint (inFileAddr s)) d) (\<lambda>(bs, d').
        andThen (store_bytes (sint (virtualAddr s)) bs mem) (\<lambda>mem'. Inr (mem', d')))
      else Inr (mem, d))"

definition page_entry :: "nat \<Rightarrow> TranslationEntry" where
  "page_entry i = \<lparr>virtualPage = of_nat i, physicalPage = of_nat i, te_valid = True, readOnly = False,
     te_use = False, dirty = False\<rparr>"

definition AddrSpace_new ::
    "(int \<Rightarrow> 'd \<Rightarrow> (8 word list \<times> 'd) res) \<Rightarrow> bool \<Rightarrow> (nat \<Rightarrow> 32 word) \<Rightarrow> (nat \<Rightarrow> OpenFile option) \<Rightarrow> 8 word list \<Rightarrow>
     OpenFile \<Rightarrow> 'x Machine_scheme \<Rightarrow> 'd \<Rightarrow> (AddrSpace \<times> 'x Machine_scheme \<times> 'd) res" where
  "AddrSpace_new rd big junk junk_slot junk_hdr executable m d =
     andThen (Table_new MaxOpenFiles junk junk_slot) (\<lambda>t0.
     andThen (Table_Put None t0) (\<lambda>(_, t1).
     andThen (Table_Put None t1) (\<lambda>(_, t2).
     andThen (ReadAt rd executable (int sizeof_NoffHeader) 0 d) (\<lambda>(bs, d1).
     let h0 = NoffHeader_of_bytes big (bs @ drop (length bs) junk_hdr);
         noffH = (if noffMagic h0 \<noteq> NOFFMAGIC \<and> WordToHost big (noffMagic h0) = NOFFMAGIC then SwapHeader big h0 else h0) in
     andThen (ASSERT (noffMagic noffH = NOFFMAGIC)) (\<lambda>_.
     let size0 = seg_size (noff_code noffH) + seg_size (initData noffH) + seg_size (uninitData noffH);
         np = divRoundUp_unsigned size0 128 + divRoundUp_unsigned UserStackSize 128;
         total = np * 128 in
     andThen (ASSERT (np \<le> 32)) (\<lambda>_.
     let mem0 = (\<lambda>i. if i < unat total then 0 else mainMemory m i) in
     andThen (load_segment rd executable (noff_code noffH) mem0 d1) (\<lambda>(mem1, d2).
     andThen (load_segment rd executable (initData noffH) mem1 d2) (\<lambda>(mem2, d3).
       Inr (\<lparr>fileTable = t2, as_pageTable = map page_entry [0..<unat np], numPages = np\<rparr>,
            m\<lparr>mainMemory := mem2\<rparr>, d3)))))))))"

definition InitRegisters :: "AddrSpace \<Rightarrow> 'x Machine_scheme \<Rightarrow> 'x Machine_scheme" where
  "InitRegisters sp m =
     (let m1 = m\<lparr>registers := replicate NumTotalRegs 0\<rparr>;
          m2 = set_reg NextPCReg 4 (set_reg PCReg 0 m1)
      in set_reg StackReg (numPages sp * 128 - 16) m2)"

definition RestoreState :: "AddrSpace \<Rightarrow> 'x Machine_scheme \<Rightarrow> 'x Machine_scheme" where
  "RestoreState sp m = m\<lparr>pageTable := Some (as_pageTable sp), pageTableSize := numPages sp\<rparr>"

section \<open>Loading\<close>

text \<open>The header the loader works with, and what it requires of a segment of an executable \<open>C\<close>.\<close>

definition noff_header :: "bool \<Rightarrow> 8 word list \<Rightarrow> NoffHeader" where
  "noff_header big C =
     (let h = NoffHeader_of_bytes big C in
      if noffMagic h \<noteq> NOFFMAGIC \<and> WordToHost big (noffMagic h) = NOFFMAGIC then SwapHeader big h else h)"

definition segment_ok :: "8 word list \<Rightarrow> Segment \<Rightarrow> bool" where
  "segment_ok C s \<longleftrightarrow> seg_size s = 0 \<or> 0 \<le> sint (seg_size s) \<and> 0 \<le> sint (inFileAddr s) \<and>
     sint (inFileAddr s) + sint (seg_size s) \<le> int (length C) \<and>
     0 \<le> sint (virtualAddr s) \<and> sint (virtualAddr s) + sint (seg_size s) \<le> MemorySize"

definition in_segment :: "Segment \<Rightarrow> nat \<Rightarrow> bool" where
  "in_segment s a \<longleftrightarrow> sint (virtualAddr s) \<le> int a \<and> int a < sint (virtualAddr s) + sint (seg_size s)"

definition segment_byte :: "8 word list \<Rightarrow> Segment \<Rightarrow> nat \<Rightarrow> 8 word" where
  "segment_byte C s a = C ! (nat (sint (inFileAddr s)) + (a - nat (sint (virtualAddr s))))"

definition program_pages :: "NoffHeader \<Rightarrow> 32 word" where
  "program_pages h = divRoundUp_unsigned (seg_size (noff_code h) + seg_size (initData h) + seg_size (uninitData h)) 128 +
     divRoundUp_unsigned UserStackSize 128"

definition program_memory :: "8 word list \<Rightarrow> NoffHeader \<Rightarrow> (nat \<Rightarrow> 8 word) \<Rightarrow> nat \<Rightarrow> 8 word" where
  "program_memory C h mem a =
     (if in_segment (initData h) a then segment_byte C (initData h) a
      else if in_segment (noff_code h) a then segment_byte C (noff_code h) a
      else if a < unat (program_pages h * 128) then 0 else mem a)"

lemma NoffHeader_of_bytes_prefix: "length bs = 40 \<Longrightarrow> NoffHeader_of_bytes big (bs @ rest) = NoffHeader_of_bytes big bs"
  by (simp add: NoffHeader_of_bytes_def words_of_bytes_prefix)

lemma NoffHeader_of_bytes_take: "40 \<le> length C \<Longrightarrow> NoffHeader_of_bytes big (take 40 C @ rest) = NoffHeader_of_bytes big C"
  using NoffHeader_of_bytes_prefix [of "take 40 C" big rest] NoffHeader_of_bytes_prefix [of "take 40 C" big "drop 40 C"] by simp

lemma fresh_table:
  obtains t0 t1 t2 i j where "Table_new MaxOpenFiles junk junk_slot = Inr t0" "Table_Put None t0 = Inr (i, t1)" "Table_Put None t1 = Inr (j, t2)"
    "Table_ok t2" "tsize t2 = MaxOpenFiles" "Table_map t2 = [0 \<mapsto> None, 1 \<mapsto> None]"
proof -
  obtain b where b: "BitMap_new MaxOpenFiles junk = Inr b" "BitMap_ok b" "numBits b = MaxOpenFiles" "BitMap_set b = {}"
    using BitMap_new_set [of MaxOpenFiles junk] by (auto simp: MaxOpenFiles_def)
  let ?t0 = "\<lparr>tmap = b, table_slots = map junk_slot [0..<nat MaxOpenFiles], tsize = MaxOpenFiles\<rparr>"
  have t0: "Table_new MaxOpenFiles junk junk_slot = Inr ?t0" "Table_ok ?t0" "Table_map ?t0 = Map.empty" "tsize ?t0 = 256"
    using b by (simp_all add: Table_new_def Table_ok_def Table_map_def fun_eq_iff MaxOpenFiles_def)
  obtain t1 where t1: "Table_Put None ?t0 = Inr (0, t1)" "Table_ok t1" "tsize t1 = 256" "Table_map t1 = [0 \<mapsto> None]"
    using Table_Put_least [OF t0(2), of 0 None] t0(3,4) by auto
  obtain t2 where t2: "Table_Put None t1 = Inr (1, t2)" "Table_ok t2" "tsize t2 = 256" "Table_map t2 = [0 \<mapsto> None, 1 \<mapsto> None]"
    using Table_Put_least [OF t1(2), of 1 None] t1(3,4) by auto
  show thesis using that [OF t0(1) t1(1) t2(1,2)] t2(3,4) by (simp add: MaxOpenFiles_def)
qed

context sector_store
begin

lemma load_segment_spec:
  assumes "good d" "hdr_ok (of_hdr f)" "segment_ok (file_content (sector d) (of_hdr f)) s"
  shows "\<exists>mem' d'. load_segment rd f s mem d = Inr (mem', d') \<and> good d' \<and> same_sectors (sector d) (sector d') \<and>
    mem' = (\<lambda>a. if in_segment s a then segment_byte (file_content (sector d) (of_hdr f)) s a else mem a)"
proof (cases "sint (seg_size s) > 0")
  case False
  then have "\<not> in_segment s a" for a by (simp add: in_segment_def)
  then show ?thesis using False assms(1) by (simp add: load_segment_def)
next
  case True
  let ?C = "file_content (sector d) (of_hdr f)"
  define n where "n = nat (sint (seg_size s))"
  define p where "p = nat (sint (inFileAddr s))"
  define v where "v = nat (sint (virtualAddr s))"
  have ok: "sint (seg_size s) = int n" "sint (inFileAddr s) = int p" "sint (virtualAddr s) = int v" "p + n \<le> length ?C" "0 < n"
    "int v + int n \<le> MemorySize"
    using True assms(3) by (auto simp: segment_ok_def n_def p_def v_def)
  have "length ?C \<le> 3840" using length_file_content [OF assms(1,2)] assms(2) by (simp add: hdr_ok_def nat_le_iff)
  then have b: "0 \<le> sint (inFileAddr s)" "sint (inFileAddr s) + sint (seg_size s) < 2 ^ 31" using ok by simp_all
  obtain d' where d': "ReadAt rd f (sint (seg_size s)) (sint (inFileAddr s)) d = Inr (take n (drop p ?C), d')" "good d'"
      "same_sectors (sector d) (sector d')"
    using ReadAt_spec [OF assms(1,2) b] by (auto simp: n_def p_def)
  let ?bs = "take n (drop p ?C)"
  have l: "length ?bs = n" using ok(4) by simp
  then have ne: "?bs \<noteq> []" using ok(5) by fastforce
  have "?bs ! (i - v) = segment_byte ?C s i" if "v \<le> i" "i < v + n" for i
    using that ok(4) by (simp add: segment_byte_def flip: p_def v_def)
  moreover have "in_segment s i \<longleftrightarrow> v \<le> i \<and> i < v + n" for i by (auto simp: in_segment_def ok(1,3))
  ultimately have eq: "(\<lambda>i. if v \<le> i \<and> i < v + n then ?bs ! (i - v) else mem i) = (\<lambda>a. if in_segment s a then segment_byte ?C s a else mem a)"
    by (intro ext if_cong) (simp_all only: simp_thms)
  have "store_bytes (sint (virtualAddr s)) ?bs mem = Inr (\<lambda>i. if v \<le> i \<and> i < v + n then ?bs ! (i - v) else mem i)"
    unfolding store_bytes_def l ok(3) nat_int if_not_P [OF ne] using ok(6) by simp
  then have "store_bytes (sint (virtualAddr s)) ?bs mem = Inr (\<lambda>a. if in_segment s a then segment_byte ?C s a else mem a)"
    unfolding eq .
  then show ?thesis using True d' by (simp add: load_segment_def)
qed

lemma AddrSpace_new_spec:
  fixes big :: bool
  assumes "good d" "hdr_ok (of_hdr f)" "40 \<le> length (file_content (sector d) (of_hdr f))"
  defines "C \<equiv> file_content (sector d) (of_hdr f)"
  defines "h \<equiv> noff_header big (file_content (sector d) (of_hdr f))"
  shows "noffMagic h \<noteq> NOFFMAGIC \<or> program_pages h > 32 \<Longrightarrow>
      AddrSpace_new rd big junk junk_slot junk_hdr f m d = Inl AssertFail" (is "?bad \<Longrightarrow> ?A")
    and "noffMagic h = NOFFMAGIC \<Longrightarrow> program_pages h \<le> 32 \<Longrightarrow> segment_ok C (noff_code h) \<Longrightarrow> segment_ok C (initData h) \<Longrightarrow>
      \<exists>t d'. AddrSpace_new rd big junk junk_slot junk_hdr f m d
        = Inr (\<lparr>fileTable = t, as_pageTable = map page_entry [0..<unat (program_pages h)], numPages = program_pages h\<rparr>,
               m\<lparr>mainMemory := program_memory C h (mainMemory m)\<rparr>, d') \<and> good d' \<and> same_sectors (sector d) (sector d') \<and>
      Table_ok t \<and> Table_map t = [0 \<mapsto> None, 1 \<mapsto> None]" (is "_ \<Longrightarrow> _ \<Longrightarrow> _ \<Longrightarrow> _ \<Longrightarrow> ?B")
proof -
  obtain t0 t1 t2 i j where t: "Table_new MaxOpenFiles junk junk_slot = Inr t0" "Table_Put None t0 = Inr (i, t1)"
    "Table_Put None t1 = Inr (j, t2)" "Table_ok t2" "Table_map t2 = [0 \<mapsto> None, 1 \<mapsto> None]"
    by (rule fresh_table)
  obtain d1 where d1: "ReadAt rd f (int sizeof_NoffHeader) 0 d = Inr (take 40 C, d1)" "good d1" "same_sectors (sector d) (sector d1)"
    using ReadAt_spec [OF assms(1,2), of 0 40] by (auto simp: sizeof_NoffHeader_def C_def)
  have len: "40 \<le> length C" using assms(3) by (simp add: C_def)
  have hd: "(let h0 = NoffHeader_of_bytes big (take 40 C @ r) in
      if noffMagic h0 \<noteq> NOFFMAGIC \<and> WordToHost big (noffMagic h0) = NOFFMAGIC then SwapHeader big h0 else h0) = h" for r
    unfolding NoffHeader_of_bytes_take [OF len] h_def noff_header_def C_def [symmetric] ..
  note start = AddrSpace_new_def [of rd big junk junk_slot junk_hdr f m d] t(1-3) andThen_Inr prod.case d1(1)
  show ?A if ?bad
    unfolding start hd [unfolded Let_def] Let_def program_pages_def [symmetric] using that
    by (cases "noffMagic h = NOFFMAGIC") (auto simp: ASSERT_def)
  assume ok: "noffMagic h = NOFFMAGIC" "program_pages h \<le> 32" "segment_ok C (noff_code h)" "segment_ok C (initData h)"
  let ?mem0 = "\<lambda>i. if i < unat (program_pages h * 128) then 0 else mainMemory m i"
  have C1: "file_content (sector d1) (of_hdr f) = C" using file_content_same [OF assms(2) d1(3)] by (simp add: C_def)
  let ?mem1 = "\<lambda>a. if in_segment (noff_code h) a then segment_byte C (noff_code h) a else ?mem0 a"
  obtain d2 where d2: "load_segment rd f (noff_code h) ?mem0 d1 = Inr (?mem1, d2)" "good d2" "same_sectors (sector d1) (sector d2)"
    using load_segment_spec [OF d1(2) assms(2), of "noff_code h" ?mem0] ok(3) unfolding C1 by blast
  have C2: "file_content (sector d2) (of_hdr f) = C" using file_content_same [OF assms(2) d2(3)] C1 by simp
  obtain d3 where d3: "load_segment rd f (initData h) ?mem1 d2
      = Inr (\<lambda>a. if in_segment (initData h) a then segment_byte C (initData h) a else ?mem1 a, d3)" "good d3"
      "same_sectors (sector d2) (sector d3)"
    using load_segment_spec [OF d2(2) assms(2), of "initData h" ?mem1] ok(4) unfolding C2 by blast
  have mem: "(\<lambda>a. if in_segment (initData h) a then segment_byte C (initData h) a else ?mem1 a) = program_memory C h (mainMemory m)"
    by (simp add: program_memory_def fun_eq_iff)
  have "AddrSpace_new rd big junk junk_slot junk_hdr f m d
      = Inr (\<lparr>fileTable = t2, as_pageTable = map page_entry [0..<unat (program_pages h)], numPages = program_pages h\<rparr>,
               m\<lparr>mainMemory := program_memory C h (mainMemory m)\<rparr>, d3)"
    unfolding start hd [unfolded Let_def] Let_def program_pages_def [symmetric] using ok(1,2) d2(1) d3(1) [unfolded mem]
    by simp
  then show ?B using t(4,5) d3(2) same_sectors_trans [OF same_sectors_trans [OF d1(3) d2(3)] d3(3)] by blast
qed

end

text \<open>The pages of a process are mapped one to one.\<close>

lemma Translate_identity:
  fixes sp :: AddrSpace and va :: "32 word"
  assumes "as_pageTable sp = map page_entry [0..<unat (numPages sp)]" "numPages sp \<le> 32" "tlb m = None"
  shows "xlate_ok (RestoreState sp m)"
    "unat va < 128 * unat (numPages sp) \<Longrightarrow> \<exists>m'. Translate va 1 w (RestoreState sp m) = Inr (NoException, unat va, m')"
    "128 * unat (numPages sp) \<le> unat va \<Longrightarrow> Translate va 1 w (RestoreState sp m) = Inr (AddressErrorException, 0, RestoreState sp m)"
proof -
  let ?m = "RestoreState sp m"
  show "xlate_ok ?m" using assms(1,3) by (simp add: xlate_ok_def RestoreState_def)
  have vpn: "unat (va div 128) = unat va div 128" by (simp add: unat_div)
  have np: "unat (numPages sp) \<le> 32" using assms(2) by (simp add: word_le_nat_alt)
  show "\<exists>m'. Translate va 1 w ?m = Inr (NoException, unat va, m')" if "unat va < 128 * unat (numPages sp)"
  proof -
    have lt: "unat (va div 128) < unat (numPages sp)" using that unfolding vpn by simp
    then have "va div 128 < numPages sp" by (simp add: word_less_nat_alt)
    then have f: "find_entry (va div 128) ?m = Inr (Inr (InTable (unat (va div 128)), page_entry (unat (va div 128))))"
      using lt assms(1,3) by (simp add: find_entry_def RestoreState_def page_entry_def not_le)
    have va: "unat va < 4096" using that np by simp
    then have "sint va = int (unat va)" by (intro sint_small) simp
    then have "0 \<le> sint va \<and> sint va + int 1 \<le> 4096" using va by linarith
    then have s: "0 \<le> sint va \<and> sint va + int 1 \<le> MemorySize" by (simp add: page_defs)
    have "\<not> (32::32 word) \<le> va div 128" using lt np by (simp add: word_le_nat_alt)
    moreover have "va div 128 * 128 + va mod 128 = va" by (rule div_mult_mod_eq)
    ultimately show ?thesis using f s assms(3) by (simp add: Translate_def Let_def page_entry_def RestoreState_def)
  qed
  show "Translate va 1 w ?m = Inr (AddressErrorException, 0, ?m)" if "128 * unat (numPages sp) \<le> unat va"
  proof -
    have "unat (numPages sp) \<le> unat (va div 128)" using that unfolding vpn by simp
    then have "numPages sp \<le> va div 128" by (simp add: word_le_nat_alt)
    then show ?thesis using assms(3) by (simp add: Translate_def Let_def find_entry_def RestoreState_def)
  qed
qed

section \<open>Properties\<close>

text \<open>
  A table hands out handles: \<^verbatim>\<open>Put\<close> on a full table returns -1 and changes nothing;
  otherwise it returns the least handle not in use, the element is found under it, every other handle
  keeps its element, and \<^verbatim>\<open>Remove\<close> of the handle returns the element and restores the table.
\<close>

theorem Table_hands_out_handles:
  assumes "Table_ok t"
  shows "if \<forall>i. 0 \<le> i \<longrightarrow> i < tsize t \<longrightarrow> Table_map t i \<noteq> None then Table_Put f t = Inr (- 1, t)
    else \<exists>i t' t''. Table_Put f t = Inr (i, t') \<and> 0 \<le> i \<and> i < tsize t \<and> Table_map t i = None \<and>
      (\<forall>j. 0 \<le> j \<longrightarrow> j < i \<longrightarrow> Table_map t j \<noteq> None) \<and> Table_ok t' \<and>
      (\<forall>j. Table_Get j t' = (if j = i then Inr f else Table_Get j t)) \<and>
      Table_Remove i t' = Inr (f, t'') \<and> Table_ok t'' \<and> (\<forall>j. Table_Get j t'' = Table_Get j t)"
proof (cases "\<forall>i. 0 \<le> i \<longrightarrow> i < tsize t \<longrightarrow> Table_map t i \<noteq> None")
  case True
  then show ?thesis using Table_Put_spec [OF assms, of f] by simp
next
  case False
  then obtain i t' where i: "Table_Put f t = Inr (i, t')" "0 \<le> i" "i < tsize t" "Table_map t i = None"
      "\<forall>j. 0 \<le> j \<longrightarrow> j < i \<longrightarrow> Table_map t j \<noteq> None" "Table_ok t'" "Table_map t' = (Table_map t)(i \<mapsto> f)"
    using Table_Put_spec [OF assms, of f] by (simp only: if_False) blast
  then obtain t'' where t'': "Table_Remove i t' = Inr (f, t'')" "Table_ok t''" "Table_map t'' = (Table_map t')(i := None)"
    using Table_Remove_spec [OF i(6), of i] by auto
  have "Table_map t'' = Table_map t" using t''(3) i(4,7) by auto
  then show ?thesis using False i t'' Table_Get_eq [OF assms] by (simp add: Table_Get_eq)
qed

theorem Table_hands_out_handles_witness:
  "\<exists>t i t' :: nat Table. Table_new 4 (\<lambda>_. 7) (\<lambda>_. Some 9) = Inr t \<and> Table_Put (Some 5) t = Inr (i, t') \<and> Table_Get i t' = Inr (Some 5)"
proof -
  obtain b where b: "BitMap_new 4 (\<lambda>_. 7) = Inr b" "BitMap_ok b" "numBits b = 4" "BitMap_set b = {}"
    using BitMap_new_set [of 4 "\<lambda>_. 7"] by auto
  let ?t = "\<lparr>tmap = b, table_slots = map (\<lambda>_. Some (9::nat)) [0..<4], tsize = 4\<rparr>"
  have "Table_ok ?t" "Table_map ?t 0 = None" using b by (simp_all add: Table_ok_def Table_map_def)
  moreover have "Table_new 4 (\<lambda>_. 7) (\<lambda>_. Some 9) = Inr ?t" using b(1) by (simp add: Table_new_def)
  ultimately show ?thesis
    using Table_hands_out_handles [of ?t "Some 5"] by (auto split: if_splits)
qed

text \<open>
  The loader: an executable without the magic number in either byte order, or one that
  needs more pages than the machine has, stops Nachos by an assertion. Otherwise, when the code and
  data segments lie inside the file and inside memory, memory holds the segments at their
  addresses and zeros in the rest of the address space and is unchanged outside it; the handles of the
  console are taken; and once \<^verbatim>\<open>RestoreState\<close> has installed the page table exactly the addresses of the
  program and its stack can be accessed, each at the physical address of the same number.
\<close>

theorem AddrSpace_loads_program:
  assumes "sd_ready d" "hdr_ok (of_hdr f)" "40 \<le> length (file_content (disk_image d) (of_hdr f))"
  shows "let C = file_content (disk_image d) (of_hdr f); h = noff_header big C in
    (noffMagic h \<noteq> NOFFMAGIC \<or> program_pages h > 32 \<longrightarrow>
      AddrSpace_new ReadSector big junk junk_slot junk_hdr f m d = Inl AssertFail) \<and>
    (noffMagic h = NOFFMAGIC \<and> program_pages h \<le> 32 \<and> segment_ok C (noff_code h) \<and> segment_ok C (initData h) \<longrightarrow>
      (\<exists>sp m' d'. AddrSpace_new ReadSector big junk junk_slot junk_hdr f m d = Inr (sp, m', d') \<and> sd_ready d' \<and>
        same_sectors (disk_image d) (disk_image d') \<and> numPages sp = program_pages h \<and>
        m' = m\<lparr>mainMemory := program_memory C h (mainMemory m)\<rparr> \<and>
        Table_map (fileTable sp) = [0 \<mapsto> None, 1 \<mapsto> None] \<and>
        (tlb m = None \<longrightarrow> xlate_ok (RestoreState sp m') \<and>
          (\<forall>va w. if unat va < 128 * unat (program_pages h)
             then \<exists>m''. Translate va 1 w (RestoreState sp m') = Inr (NoException, unat va, m'')
             else Translate va 1 w (RestoreState sp m') = Inr (AddressErrorException, 0, RestoreState sp m')))))"
proof -
  let ?C = "file_content (disk_image d) (of_hdr f)"
  let ?h = "noff_header big ?C"
  note spec = synch_disk.AddrSpace_new_spec [OF assms, of big junk junk_slot junk_hdr m]
  have "\<exists>sp m' d'. AddrSpace_new ReadSector big junk junk_slot junk_hdr f m d = Inr (sp, m', d') \<and> sd_ready d' \<and>
        same_sectors (disk_image d) (disk_image d') \<and> numPages sp = program_pages ?h \<and>
        m' = m\<lparr>mainMemory := program_memory ?C ?h (mainMemory m)\<rparr> \<and>
        Table_map (fileTable sp) = [0 \<mapsto> None, 1 \<mapsto> None] \<and>
        (tlb m = None \<longrightarrow> xlate_ok (RestoreState sp m') \<and>
          (\<forall>va w. if unat va < 128 * unat (program_pages ?h)
             then \<exists>m''. Translate va 1 w (RestoreState sp m') = Inr (NoException, unat va, m'')
             else Translate va 1 w (RestoreState sp m') = Inr (AddressErrorException, 0, RestoreState sp m')))"
    if ok: "noffMagic ?h = NOFFMAGIC" "program_pages ?h \<le> 32" "segment_ok ?C (noff_code ?h)" "segment_ok ?C (initData ?h)"
  proof -
    define M where "M = m\<lparr>mainMemory := program_memory ?C ?h (mainMemory m)\<rparr>"
    define pp where "pp = program_pages ?h"
    obtain sp d' where t: "AddrSpace_new ReadSector big junk junk_slot junk_hdr f m d = Inr (sp, M, d')" "sd_ready d'"
      "same_sectors (disk_image d) (disk_image d')" "Table_map (fileTable sp) = [0 \<mapsto> None, 1 \<mapsto> None]"
      "as_pageTable sp = map page_entry [0..<unat (numPages sp)]" "numPages sp = pp"
      using spec(2) [OF ok] unfolding M_def pp_def by fastforce
    have "xlate_ok (RestoreState sp M) \<and>
          (\<forall>va w. if unat va < 128 * unat pp
             then \<exists>m''. Translate va 1 w (RestoreState sp M) = Inr (NoException, unat va, m'')
             else Translate va 1 w (RestoreState sp M) = Inr (AddressErrorException, 0, RestoreState sp M))" if "tlb m = None"
    proof -
      have "tlb M = None" "numPages sp \<le> 32" using that ok(2) t(6) by (simp_all add: M_def pp_def)
      note T = Translate_identity [OF t(5) this(2,1), unfolded t(6)]
      show ?thesis using T(1) T(2,3) by (metis not_less)
    qed
    then show ?thesis
      unfolding M_def [symmetric] pp_def [symmetric]
      by (intro exI [of _ sp] exI [of _ M] exI [of _ d'] conjI t impI refl) blast+
  qed
  then show ?thesis using spec(1) unfolding Let_def by blast
qed

definition demo_exe :: "bool \<Rightarrow> 8 word list" where
  "demo_exe big = BitMap_bytes big \<lparr>numBits = 0, numWords = 0, bmap = [NOFFMAGIC, 0, 40, 8, 8, 48, 4, 0, 0, 100]\<rparr>"

lemma demo_exe_header:
  "noff_header big (demo_exe big @ rest) = \<lparr>noffMagic = NOFFMAGIC, noff_code = \<lparr>virtualAddr = 0, inFileAddr = 40, seg_size = 8\<rparr>,
     initData = \<lparr>virtualAddr = 8, inFileAddr = 48, seg_size = 4\<rparr>, uninitData = \<lparr>virtualAddr = 0, inFileAddr = 0, seg_size = 100\<rparr>\<rparr>"
proof -
  let ?b = "\<lparr>numBits = 0, numWords = 0, bmap = [NOFFMAGIC, 0, 40, 8, 8, 48, 4, 0, 0, 100]\<rparr>"
  have "words_of_bytes big 10 (demo_exe big @ rest) = bmap ?b"
    using words_of_bytes_prefix [of "demo_exe big" 10 big rest] words_of_bytes_bytes [of ?b 10 big] by (simp add: demo_exe_def)
  then show ?thesis by (simp add: noff_header_def NoffHeader_of_bytes_def Segment_of_words_def Let_def)
qed

theorem AddrSpace_loads_program_witness:
  "\<exists>d sp m' d'. AddrSpace_new ReadSector False (\<lambda>_. 1) (\<lambda>_. None) [] \<lparr>of_hdr = demo_hdr, seekPosition = 0\<rparr> demo_machine d
     = Inr (sp, m', d') \<and> numPages sp = 9 \<and> sd_ready d"
proof -
  let ?f = "\<lparr>of_hdr = demo_hdr, seekPosition = 0\<rparr>"
  have len: "length (demo_exe False) = 40" "length (file_content (disk_image demo_synchdisk) demo_hdr) = 200"
    using synch_disk.length_file_content [OF demo_synchdisk_ready demo_hdr_ok] by (simp_all add: demo_exe_def demo_hdr_def)
  obtain d where d: "sd_ready d" "file_content (disk_image d) demo_hdr
      = demo_exe False @ drop 40 (file_content (disk_image demo_synchdisk) demo_hdr)"
    using synch_disk.WriteAt_spec [OF demo_synchdisk_ready, of ?f 0 40 "demo_exe False" "\<lambda>_. 0"] demo_hdr_ok len
    by (auto simp: demo_hdr_def)
  let ?C = "demo_exe False @ drop 40 (file_content (disk_image demo_synchdisk) demo_hdr)"
  let ?h = "noff_header False ?C"
  have h: "program_pages ?h = 9" "segment_ok ?C (noff_code ?h)" "segment_ok ?C (initData ?h)" "noffMagic ?h = NOFFMAGIC"
    using len by (simp_all add: demo_exe_header program_pages_def divRoundUp_unsigned_def UserStackSize_def segment_ok_def page_defs)
  show ?thesis
    using AddrSpace_loads_program [OF d(1), where f = ?f and big = False and junk = "\<lambda>_. 1" and junk_slot = "\<lambda>_. None"
        and junk_hdr = "[]" and m = demo_machine] demo_hdr_ok d h len by (auto simp: Let_def)
qed

end
