(* ===== verification/Nachos_Syscall.thy ===== *)
theory Nachos_Syscall
  imports Nachos_AddrSpace
begin

text \<open>
  \<^verbatim>\<open>userprog/exception.cc\<close>, \<^verbatim>\<open>userprog/syscall.h\<close>: the exception handler and the system calls, on top of the
  machine, the open-file table of the process and the file system. The machine and the disk share one
  interrupt controller: a disk operation runs with the controller of the machine and hands it back. A
  pointer to an open file occurs in one slot of one table only, so the table holds the object itself.
  Messages to the operator are left out; \<open>p_stdout\<close> is what programs write to the console.
\<close>

section \<open>State\<close>

record Process =
  p_machine :: Machine
  p_space :: AddrSpace
  p_fs :: FileSystem
  p_disk :: SynchDisk
  p_stdin :: "8 word list list"
  p_stdout :: "8 word list"

definition share :: "'x Interrupt_scheme \<Rightarrow> 'y Interrupt_scheme \<Rightarrow> 'y Interrupt_scheme" where
  "share a b = b\<lparr>level := level a, pending := pending a, inHandler := inHandler a, yieldOnReturn := yieldOnReturn a,
     status := status a, stats := stats a\<rparr>"

definition on_disk :: "(SynchDisk \<Rightarrow> ('a \<times> SynchDisk) res) \<Rightarrow> Process \<Rightarrow> ('a \<times> Process) res" where
  "on_disk op P =
     andThen (op (share (p_machine P) (p_disk P))) (\<lambda>(x, d).
       Inr (x, P\<lparr>p_disk := d, p_machine := share d (p_machine P)\<rparr>))"

definition SC_Halt :: "32 word" where "SC_Halt = 0"
definition SC_Create :: "32 word" where "SC_Create = 4"
definition SC_Open :: "32 word" where "SC_Open = 5"
definition SC_Read :: "32 word" where "SC_Read = 6"
definition SC_Write :: "32 word" where "SC_Write = 7"
definition SC_Close :: "32 word" where "SC_Close = 8"
definition ConsoleInput :: int where "ConsoleInput = 0"
definition ConsoleOutput :: int where "ConsoleOutput = 1"

lemmas sc_defs = SC_Halt_def SC_Create_def SC_Open_def SC_Read_def SC_Write_def SC_Close_def

section \<open>Copying between user and kernel\<close>

text \<open>
  The branch of \<^verbatim>\<open>ExceptionHandler\<close> for everything but a system call: it shuts Nachos down. An address
  error inside \<^verbatim>\<open>copyin\<close> or \<^verbatim>\<open>copyout\<close> ends here, so their own retry loop and error branch are not reached.
\<close>

definition user_fault :: "Machine \<Rightarrow> Machine res" where
  "user_fault m = andThen (ReadRegister 2 m) (\<lambda>_. Halt)"

abbreviation fault_handler :: "ExceptionType \<Rightarrow> Machine \<Rightarrow> Machine res" where
  "fault_handler \<equiv> \<lambda>_. user_fault"

text \<open>\<open>None\<close> would start the retry loop of \<^verbatim>\<open>copyin\<close>, which repeats the access that failed.\<close>

fun copyin_loop :: "bool \<Rightarrow> nat \<Rightarrow> 32 word \<Rightarrow> Machine \<Rightarrow> (8 word list \<times> Machine) res" where
  "copyin_loop big 0 vaddr m = Inr ([], m)"
| "copyin_loop big (Suc n) vaddr m =
     andThen (ReadMem fault_handler big vaddr 1 m) (\<lambda>(r, m1).
       case r of None \<Rightarrow> Inl Diverges
       | Some v \<Rightarrow> andThen (copyin_loop big n (vaddr + 1) m1) (\<lambda>(bs, m2). Inr (ucast v # bs, m2)))"

definition copyin :: "bool \<Rightarrow> 32 word \<Rightarrow> int \<Rightarrow> Process \<Rightarrow> (int \<times> 8 word list \<times> Process) res" where
  "copyin big vaddr len P =
     andThen (copyin_loop big (nat len) vaddr (p_machine P)) (\<lambda>(bs, m). Inr (len, bs, P\<lparr>p_machine := m\<rparr>))"

fun copyout_loop :: "bool \<Rightarrow> 8 word list \<Rightarrow> 32 word \<Rightarrow> Machine \<Rightarrow> (bool \<times> Machine) res" where
  "copyout_loop big [] vaddr m = Inr (True, m)"
| "copyout_loop big (b # bs) vaddr m =
     andThen (WriteMem fault_handler big vaddr 1 (scast b) m) (\<lambda>(r, m1).
       if \<not> r then Inr (False, m1) else copyout_loop big bs (vaddr + 1) m1)"

definition copyout :: "bool \<Rightarrow> 32 word \<Rightarrow> 8 word list \<Rightarrow> Process \<Rightarrow> (int \<times> Process) res" where
  "copyout big vaddr buf P =
     andThen (copyout_loop big buf vaddr (p_machine P)) (\<lambda>(ok, m).
       Inr (if ok then int (length buf) else - 1, P\<lparr>p_machine := m\<rparr>))"

section \<open>System calls\<close>

text \<open>
  \<^verbatim>\<open>new char[n]\<close> with a negative \<^verbatim>\<open>n\<close> throws, and nobody catches it; the sum \<^verbatim>\<open>len+1\<close> may leave the range of \<^verbatim>\<open>int\<close>.
\<close>

definition new_chars :: "int \<Rightarrow> unit res" where
  "new_chars n = (if n < 0 \<or> \<not> int32 n then Inl Undefined else Inr ())"

definition set_file :: "int \<Rightarrow> OpenFile \<Rightarrow> Process \<Rightarrow> Process" where
  "set_file fd f P =
     P\<lparr>p_space := (p_space P)\<lparr>fileTable := (fileTable (p_space P))\<lparr>table_slots :=
         (table_slots (fileTable (p_space P)))[nat fd := Some f]\<rparr>\<rparr>\<rparr>"

definition Create_Syscall :: "fresh \<Rightarrow> bool \<Rightarrow> 32 word \<Rightarrow> int \<Rightarrow> Process \<Rightarrow> Process res" where
  "Create_Syscall junk big vaddr len P =
     andThen (new_chars (len + 1)) (\<lambda>_.
     andThen (copyin big vaddr len P) (\<lambda>(r, buf, P1).
       if r = - 1 then Inr P1
       else andThen (on_disk (FileSystem_Create ReadSector WriteSector junk big (p_fs P1) buf 0) P1) (\<lambda>(_, P2). Inr P2)))"

definition Open_Syscall :: "fresh \<Rightarrow> bool \<Rightarrow> 32 word \<Rightarrow> int \<Rightarrow> Process \<Rightarrow> (int \<times> Process) res" where
  "Open_Syscall junk big vaddr len P =
     andThen (new_chars (len + 1)) (\<lambda>_.
     andThen (copyin big vaddr len P) (\<lambda>(r, buf, P1).
       if r = - 1 then Inr (- 1, P1)
       else
         andThen (on_disk (FileSystem_Open ReadSector junk big (p_fs P1) buf) P1) (\<lambda>(f, P2).
           case f of None \<Rightarrow> Inr (- 1, P2)
           | Some f \<Rightarrow>
               andThen (Table_Put (Some f) (fileTable (p_space P2))) (\<lambda>(fd, t).
                 Inr (fd, P2\<lparr>p_space := (p_space P2)\<lparr>fileTable := t\<rparr>\<rparr>)))))"

definition Write_Syscall :: "fresh \<Rightarrow> bool \<Rightarrow> 32 word \<Rightarrow> int \<Rightarrow> int \<Rightarrow> Process \<Rightarrow> Process res" where
  "Write_Syscall junk big vaddr len fd P =
     (if fd = ConsoleInput then Inr P
      else
        andThen (new_chars len) (\<lambda>_.
        andThen (copyin big vaddr len P) (\<lambda>(r, buf, P1).
          if r = - 1 then Inr P1
          else if fd = ConsoleOutput then Inr (P1\<lparr>p_stdout := p_stdout P1 @ buf\<rparr>)
          else
            andThen (Table_Get fd (fileTable (p_space P1))) (\<lambda>f.
              case f of None \<Rightarrow> Inr P1
              | Some f \<Rightarrow>
                  andThen (on_disk (\<lambda>d. andThen (OpenFile_Write ReadSector WriteSector (fresh_byte junk) f buf len d)
                             (\<lambda>(n, f', d'). Inr ((n, f'), d'))) P1) (\<lambda>((n, f'), P2).
                    Inr (set_file fd f' P2))))))"

text \<open>\<^verbatim>\<open>scanf("%s")\<close> stores the next word of the input and a zero, without a bound.\<close>

definition scan_word :: "(nat \<Rightarrow> 8 word) \<Rightarrow> int \<Rightarrow> Process \<Rightarrow> (8 word list \<times> Process) res" where
  "scan_word junk len P =
     (case p_stdin P of [] \<Rightarrow> Inr (map junk [0..<nat len], P)
      | w # ws \<Rightarrow>
          if int (length w) + 1 > len then Inl Undefined
          else Inr (w @ 0 # map junk [length w + 1..<nat len], P\<lparr>p_stdin := ws\<rparr>))"

definition Read_Syscall :: "fresh \<Rightarrow> bool \<Rightarrow> 32 word \<Rightarrow> int \<Rightarrow> int \<Rightarrow> Process \<Rightarrow> (int \<times> Process) res" where
  "Read_Syscall junk big vaddr len fd P =
     (if fd = ConsoleOutput then Inr (- 1, P)
      else
        andThen (new_chars len) (\<lambda>_.
          if fd = ConsoleInput then
            andThen (scan_word (fresh_byte junk) len P) (\<lambda>(buf, P1).
            andThen (copyout big vaddr buf P1) (\<lambda>(_, P2). Inr (len, P2)))
          else
            andThen (Table_Get fd (fileTable (p_space P))) (\<lambda>f.
              case f of None \<Rightarrow> Inr (- 1, P)
              | Some f \<Rightarrow>
                  andThen (on_disk (\<lambda>d. andThen (OpenFile_Read ReadSector f len d) (\<lambda>(bs, f', d'). Inr ((bs, f'), d'))) P)
                    (\<lambda>((bs, f'), P1).
                     let P2 = set_file fd f' P1; n = int (length bs) in
                     if n > 0 then andThen (copyout big vaddr bs P2) (\<lambda>(_, P3). Inr (n, P3))
                     else Inr (n, P2)))))"

definition Close_Syscall :: "int \<Rightarrow> Process \<Rightarrow> Process res" where
  "Close_Syscall fd P =
     andThen (Table_Remove fd (fileTable (p_space P))) (\<lambda>(_, t).
       Inr (P\<lparr>p_space := (p_space P)\<lparr>fileTable := t\<rparr>\<rparr>))"

text \<open>The return value and the program counters.\<close>

definition finish_syscall :: "int \<Rightarrow> Machine \<Rightarrow> Machine res" where
  "finish_syscall rv m =
     andThen (WriteRegister 2 (word_of_int rv) m) (\<lambda>m1.
     andThen (ReadRegister (int PCReg) m1) (\<lambda>pc.
     andThen (WriteRegister (int PrevPCReg) pc m1) (\<lambda>m2.
     andThen (ReadRegister (int NextPCReg) m2) (\<lambda>npc.
     andThen (WriteRegister (int PCReg) npc m2) (\<lambda>m3.
     andThen (ReadRegister (int PCReg) m3) (\<lambda>pc'.
       WriteRegister (int NextPCReg) (pc' + 4) m3))))))"

definition ExceptionHandler :: "fresh \<Rightarrow> bool \<Rightarrow> ExceptionType \<Rightarrow> Process \<Rightarrow> Process res" where
  "ExceptionHandler junk big which P =
     andThen (ReadRegister 2 (p_machine P)) (\<lambda>type.
       if which = SyscallException then
         let a1 = reg (p_machine P) 4; a2 = sint (reg (p_machine P) 5); a3 = sint (reg (p_machine P) 6) in
         andThen (if type = SC_Create then andThen (Create_Syscall junk big a1 a2 P) (\<lambda>P1. Inr (0, P1))
                  else if type = SC_Open then Open_Syscall junk big a1 a2 P
                  else if type = SC_Write then andThen (Write_Syscall junk big a1 a2 a3 P) (\<lambda>P1. Inr (0, P1))
                  else if type = SC_Read then Read_Syscall junk big a1 a2 a3 P
                  else if type = SC_Close then andThen (Close_Syscall (sint a1) P) (\<lambda>P1. Inr (0, P1))
                  else Halt) (\<lambda>(rv, P1).
         andThen (finish_syscall rv (p_machine P1)) (\<lambda>m. Inr (P1\<lparr>p_machine := m\<rparr>)))
       else Halt)"

text \<open>
  \<^verbatim>\<open>StartProcess\<close> of \<^verbatim>\<open>userprog/progtest.cc\<close> up to the call of \<^verbatim>\<open>machine->Run()\<close>, which does not return; \<open>None\<close> when
  the executable cannot be opened.
\<close>

definition StartProcess ::
    "fresh \<Rightarrow> (nat \<Rightarrow> 32 word) \<Rightarrow> (nat \<Rightarrow> OpenFile option) \<Rightarrow> 8 word list \<Rightarrow> bool \<Rightarrow> 8 word list \<Rightarrow> Process \<Rightarrow> Process option res" where
  "StartProcess junk junk_bits junk_slot junk_hdr big filename P =
     andThen (on_disk (FileSystem_Open ReadSector junk big (p_fs P) filename) P) (\<lambda>(executable, P1).
       case executable of None \<Rightarrow> Inr None
       | Some f \<Rightarrow>
           andThen (on_disk (\<lambda>d. andThen (AddrSpace_new ReadSector big junk_bits junk_slot junk_hdr f (p_machine P1) d)
               (\<lambda>(sp, m, d'). Inr ((sp, m), d'))) P1) (\<lambda>((sp, m), P2).
             let m1 = share (p_machine P2) (RestoreState sp (InitRegisters sp m)) in
             Inr (Some (P2\<lparr>p_space := sp, p_machine := m1\<rparr>))))"

section \<open>User memory\<close>

text \<open>
  The machine as a running program sees it: \<open>np\<close> pages, each mapped to the frame of the same number, as
  \<^verbatim>\<open>RestoreState\<close> installs them, and registers in their ranges.
\<close>

definition user_ok :: "32 word \<Rightarrow> Machine \<Rightarrow> bool" where
  "user_ok np m \<longleftrightarrow> tlb m = None \<and> np \<le> 32 \<and> pageTableSize m = np \<and> length (registers m) = NumTotalRegs \<and>
     unat (reg m LoadReg) < NumTotalRegs \<and>
     (case pageTable m of None \<Rightarrow> False
      | Some pt \<Rightarrow> length pt = unat np \<and>
          (\<forall>i < unat np. te_valid (pt ! i) \<and> \<not> readOnly (pt ! i) \<and> physicalPage (pt ! i) = of_nat i))"

text \<open>What an access to user memory leaves alone.\<close>

definition user_frame :: "Machine \<Rightarrow> Machine \<Rightarrow> bool" where
  "user_frame m m' \<longleftrightarrow> m' = m\<lparr>mainMemory := mainMemory m', pageTable := pageTable m', lastUsed := lastUsed m'\<rparr>"

lemma user_frame_refl [simp]: "user_frame m m"
  by (simp add: user_frame_def)

lemma user_frame_sel:
  assumes "user_frame m m'"
  shows "registers m' = registers m" "level m' = level m" "pending m' = pending m" "inHandler m' = inHandler m"
    "yieldOnReturn m' = yieldOnReturn m" "status m' = status m" "stats m' = stats m" "share m' d = share m d"
proof -
  obtain mem pt lu where "m' = m\<lparr>mainMemory := mem, pageTable := pt, lastUsed := lu\<rparr>"
    using assms unfolding user_frame_def by blast
  then show "registers m' = registers m" "level m' = level m" "pending m' = pending m" "inHandler m' = inHandler m"
    "yieldOnReturn m' = yieldOnReturn m" "status m' = status m" "stats m' = stats m" "share m' d = share m d"
    by (simp_all add: share_def)
qed

lemma user_frame_trans: "user_frame a b \<Longrightarrow> user_frame b c \<Longrightarrow> user_frame a c"
  unfolding user_frame_def by (cases a; cases b; cases c) simp

lemma user_Translate:
  assumes "user_ok np m" "unat va < 128 * unat np"
  shows "\<exists>pt'. Translate va 1 w m = Inr (NoException, unat va, m\<lparr>pageTable := Some pt'\<rparr>) \<and> user_ok np (m\<lparr>pageTable := Some pt'\<rparr>)"
proof -
  obtain pt where pt: "pageTable m = Some pt" "length pt = unat np"
    "\<forall>i < unat np. te_valid (pt ! i) \<and> \<not> readOnly (pt ! i) \<and> physicalPage (pt ! i) = of_nat i"
    and tlb: "tlb m = None" "pageTableSize m = np"
    using assms(1) by (auto simp: user_ok_def split: option.splits)
  have np: "unat np \<le> 32" using assms(1) by (simp add: user_ok_def word_le_nat_alt)
  have vpn: "unat (va div 128) = unat va div 128" by (simp add: unat_div)
  then have lt: "unat (va div 128) < unat np" using assms(2) by simp
  let ?e = "pt ! unat (va div 128)"
  have e: "te_valid ?e" "\<not> readOnly ?e" "physicalPage ?e = va div 128" using pt(3) lt by simp_all
  have lt': "va div 128 < np" using lt by (simp add: word_less_nat_alt)
  then have f: "find_entry (va div 128) m = Inr (Inr (InTable (unat (va div 128)), ?e))"
    using lt pt(1,2) tlb e(1) by (simp add: find_entry_def not_le)
  have va: "unat va < 4096" using assms(2) np by simp
  then have "sint va = int (unat va)" by (intro sint_small) simp
  then have "0 \<le> sint va \<and> sint va + int 1 \<le> 4096" using va by linarith
  then have s: "0 \<le> sint va \<and> sint va + int 1 \<le> MemorySize" by (simp add: page_defs)
  have "\<not> (32::32 word) \<le> va div 128" using lt np by (simp add: word_le_nat_alt)
  moreover have "va div 128 * 128 + va mod 128 = va" by (rule div_mult_mod_eq)
  ultimately have "Translate va 1 w m = Inr (NoException, unat va,
      m\<lparr>pageTable := Some (pt[unat (va div 128) := ?e\<lparr>te_use := True, dirty := (w \<or> dirty ?e)\<rparr>])\<rparr>)"
    using f s e tlb pt(1) by (simp add: Translate_def Let_def)
  moreover have "user_ok np (m\<lparr>pageTable := Some (pt[unat (va div 128) := ?e\<lparr>te_use := True, dirty := (w \<or> dirty ?e)\<rparr>])\<rparr>)"
    using assms(1) pt(3) lt e unfolding user_ok_def pt(1) by (simp add: nth_list_update pt(2))
  ultimately show ?thesis by blast
qed

lemma user_Translate_fault:
  assumes "user_ok np m" "128 * unat np \<le> unat va"
  shows "Translate va 1 w m = Inr (AddressErrorException, 0, m)"
proof -
  have "unat (va div 128) = unat va div 128" by (simp add: unat_div)
  then have "np \<le> va div 128" using assms(2) by (simp add: word_le_nat_alt)
  then show ?thesis using assms(1) by (auto simp: Translate_def find_entry_def user_ok_def split: option.splits)
qed

lemma fault_halts: "user_ok np m \<Longrightarrow> RaiseException fault_handler exc va m = Inl Halted"
  by (simp add: RaiseException_def DelayedLoad_def user_ok_def set_reg_def reg_defs user_fault_def ReadRegister_def Halt_def Let_def)

lemma user_ok_touch [simp]:
  "user_ok np (touch_page pa m) = user_ok np m" "user_ok np (m\<lparr>mainMemory := mem\<rparr>) = user_ok np m"
  by (simp_all add: user_ok_def touch_page_def)

lemma ucast_scast_byte: "ucast (scast b :: 32 word) = b" for b :: "8 word"
  by (rule bit_word_eqI) (simp add: bit_simps)

lemma user_read:
  assumes "user_ok np m"
  shows "if unat va < 128 * unat np
    then \<exists>m'. ReadMem fault_handler big va 1 m = Inr (Some (scast (mainMemory m (unat va))), m') \<and> user_ok np m' \<and>
      user_frame m m' \<and> mainMemory m' = mainMemory m
    else ReadMem fault_handler big va 1 m = Inl Halted"
  using user_Translate [OF assms, of va False] user_Translate_fault [OF assms, of va False] fault_halts [OF assms]
  by (auto simp: ReadMem_def touch_page_def user_frame_def user_ok_def)

lemma user_write:
  assumes "user_ok np m"
  shows "if unat va < 128 * unat np
    then \<exists>m'. WriteMem fault_handler big va 1 (scast b) m = Inr (True, m') \<and> user_ok np m' \<and>
      user_frame m m' \<and> mainMemory m' = (mainMemory m)(unat va := b)
    else WriteMem fault_handler big va 1 (scast b) m = Inl Halted"
  using user_Translate [OF assms, of va True] user_Translate_fault [OF assms, of va True] fault_halts [OF assms]
  by (auto simp: WriteMem_def touch_page_def user_frame_def user_ok_def ucast_and_ff ucast_scast_byte)

definition poke_bytes :: "nat \<Rightarrow> 8 word list \<Rightarrow> (nat \<Rightarrow> 8 word) \<Rightarrow> nat \<Rightarrow> 8 word" where
  "poke_bytes a bs mem = (\<lambda>i. if a \<le> i \<and> i < a + length bs then bs ! (i - a) else mem i)"

lemma poke_bytes_Nil [simp]: "poke_bytes a [] mem = mem"
  by (rule ext) (auto simp: poke_bytes_def)

lemma poke_bytes_Cons: "poke_bytes (Suc a) bs (mem(a := b)) = poke_bytes a (b # bs) mem"
  by (rule ext) (auto simp: poke_bytes_def nth_Cons' not_less_eq_eq Suc_diff_le)

lemma user_ok_next:
  fixes va :: "32 word"
  assumes "user_ok np m" "unat va < 128 * unat np"
  shows "unat (va + 1) = Suc (unat va)"
proof -
  have "unat np \<le> 32" using assms(1) by (simp add: user_ok_def word_le_nat_alt)
  then have "unat va < 4096" using assms(2) by linarith
  then have "unat va + unat (1 :: 32 word) < 2 ^ LENGTH(32)" by simp
  then have "unat (va + 1) = unat va + unat (1 :: 32 word)" by (rule unat_add_lem [THEN iffD1])
  then show ?thesis by simp
qed

lemma copyin_loop_inside:
  assumes "user_ok np m" "n = 0 \<or> unat va + n \<le> 128 * unat np"
  shows "\<exists>m'. copyin_loop big n va m = Inr (map (mainMemory m) [unat va..<unat va + n], m') \<and> user_ok np m' \<and>
    user_frame m m' \<and> mainMemory m' = mainMemory m"
  using assms
proof (induction n arbitrary: va m)
  case (Suc n)
  have va: "unat va < 128 * unat np" using Suc.prems(2) by simp
  then obtain m1 where m1: "ReadMem fault_handler big va 1 m = Inr (Some (scast (mainMemory m (unat va))), m1)" "user_ok np m1"
    "user_frame m m1" "mainMemory m1 = mainMemory m"
    using user_read [OF Suc.prems(1), of va big] by auto
  note next_va = user_ok_next [OF Suc.prems(1) va]
  then obtain m2 where m2: "copyin_loop big n (va + 1) m1 = Inr (map (mainMemory m) [Suc (unat va)..<Suc (unat va) + n], m2)"
    "user_ok np m2" "user_frame m1 m2" "mainMemory m2 = mainMemory m"
    using Suc.IH [OF m1(2), of "va + 1"] Suc.prems(2) m1(4) by auto
  have "[unat va..<unat va + Suc n] = unat va # [Suc (unat va)..<Suc (unat va) + n]" by (simp add: upt_conv_Cons)
  then show ?case using m1(1) m2 user_frame_trans [OF m1(3) m2(3)] by (simp add: ucast_scast_byte)
qed simp

lemma copyin_loop_outside:
  assumes "user_ok np m" "0 < n" "128 * unat np < unat va + n"
  shows "copyin_loop big n va m = Inl Halted"
  using assms
proof (induction n arbitrary: va m)
  case (Suc n)
  show ?case
  proof (cases "unat va < 128 * unat np")
    case True
    then obtain v m1 where m1: "ReadMem fault_handler big va 1 m = Inr (Some v, m1)" "user_ok np m1"
      using user_read [OF Suc.prems(1), of va big] by auto
    have "0 < n" "128 * unat np < unat (va + 1) + n"
      using user_ok_next [OF Suc.prems(1) True] True Suc.prems(3) by simp_all
    then show ?thesis using m1(1) Suc.IH [OF m1(2), of "va + 1"] by simp
  next
    case False
    then show ?thesis using user_read [OF Suc.prems(1), of va big] by simp
  qed
qed simp

lemma copyout_loop_inside:
  assumes "user_ok np m" "bs = [] \<or> unat va + length bs \<le> 128 * unat np"
  shows "\<exists>m'. copyout_loop big bs va m = Inr (True, m') \<and> user_ok np m' \<and> user_frame m m' \<and>
    mainMemory m' = poke_bytes (unat va) bs (mainMemory m)"
  using assms
proof (induction bs arbitrary: va m)
  case (Cons b bs)
  have va: "unat va < 128 * unat np" using Cons.prems(2) by simp
  then obtain m1 where m1: "WriteMem fault_handler big va 1 (scast b) m = Inr (True, m1)" "user_ok np m1"
    "user_frame m m1" "mainMemory m1 = (mainMemory m)(unat va := b)"
    using user_write [OF Cons.prems(1), of va big b] by auto
  note next_va = user_ok_next [OF Cons.prems(1) va]
  obtain m2 where m2: "copyout_loop big bs (va + 1) m1 = Inr (True, m2)"
    "user_ok np m2" "user_frame m1 m2" "mainMemory m2 = poke_bytes (Suc (unat va)) bs (mainMemory m1)"
    using Cons.IH [OF m1(2), of "va + 1"] Cons.prems(2) next_va by auto
  show ?case using m1(1) m2 user_frame_trans [OF m1(3) m2(3)] by (simp add: m1(4) poke_bytes_Cons)
qed simp

lemma copyout_loop_outside:
  assumes "user_ok np m" "bs \<noteq> []" "128 * unat np < unat va + length bs"
  shows "copyout_loop big bs va m = Inl Halted"
  using assms
proof (induction bs arbitrary: va m)
  case (Cons b bs)
  show ?case
  proof (cases "unat va < 128 * unat np")
    case True
    then obtain m1 where m1: "WriteMem fault_handler big va 1 (scast b) m = Inr (True, m1)" "user_ok np m1"
      using user_write [OF Cons.prems(1), of va big b] by auto
    have "bs \<noteq> []" "128 * unat np < unat (va + 1) + length bs"
      using user_ok_next [OF Cons.prems(1) True] True Cons.prems(3) by auto
    then show ?thesis using m1(1) Cons.IH [OF m1(2), of "va + 1"] by simp
  next
    case False
    then show ?thesis using user_write [OF Cons.prems(1), of va big b] by simp
  qed
qed simp

section \<open>Processes\<close>

abbreviation proc_disk :: "Process \<Rightarrow> SynchDisk" where
  "proc_disk P \<equiv> share (p_machine P) (p_disk P)"

definition proc_ok :: "32 word \<Rightarrow> Process \<Rightarrow> bool" where
  "proc_ok np P \<longleftrightarrow> user_ok np (p_machine P) \<and> Table_ok (fileTable (p_space P)) \<and> sd_ready (proc_disk P)"

abbreviation handles :: "Process \<Rightarrow> int \<Rightarrow> OpenFile option option" where
  "handles P \<equiv> Table_map (fileTable (p_space P))"

lemma user_ok_share [simp]: "user_ok np (share d m) = user_ok np m"
  by (simp add: user_ok_def share_def)

lemma share_share [simp]: "share (share d m) d = d"
  by (simp add: share_def)

lemma disk_file_share [simp]: "disk_file (share m d) = disk_file d"
  by (simp add: share_def)

lemma on_disk_Inr: "op (proc_disk P) = Inr (x, d) \<Longrightarrow> on_disk op P = Inr (x, P\<lparr>p_disk := d, p_machine := share d (p_machine P)\<rparr>)"
  by (simp add: on_disk_def)

lemma copyin_spec:
  assumes "user_ok np (p_machine P)" "0 \<le> len"
  shows "if len = 0 \<or> unat va + nat len \<le> 128 * unat np
    then \<exists>m. copyin big va len P = Inr (len, map (mainMemory (p_machine P)) [unat va..<unat va + nat len], P\<lparr>p_machine := m\<rparr>) \<and>
      user_ok np m \<and> user_frame (p_machine P) m \<and> mainMemory m = mainMemory (p_machine P)
    else copyin big va len P = Inl Halted"
proof (cases "len = 0 \<or> unat va + nat len \<le> 128 * unat np")
  case True
  then have "nat len = 0 \<or> unat va + nat len \<le> 128 * unat np" by auto
  from copyin_loop_inside [OF assms(1) this, of big] obtain m where
    m: "copyin_loop big (nat len) va (p_machine P) = Inr (map (mainMemory (p_machine P)) [unat va..<unat va + nat len], m)"
      "user_ok np m" "user_frame (p_machine P) m" "mainMemory m = mainMemory (p_machine P)"
    by blast
  then have "copyin big va len P = Inr (len, map (mainMemory (p_machine P)) [unat va..<unat va + nat len], P\<lparr>p_machine := m\<rparr>)"
    by (simp add: copyin_def)
  then show ?thesis using True m by auto
next
  case False
  then have "0 < nat len" "128 * unat np < unat va + nat len" using assms(2) by auto
  from copyin_loop_outside [OF assms(1) this, of big] show ?thesis using False by (simp add: copyin_def)
qed

lemma copyout_spec:
  assumes "user_ok np (p_machine P)"
  shows "if bs = [] \<or> unat va + length bs \<le> 128 * unat np
    then \<exists>m. copyout big va bs P = Inr (int (length bs), P\<lparr>p_machine := m\<rparr>) \<and>
      user_ok np m \<and> user_frame (p_machine P) m \<and> mainMemory m = poke_bytes (unat va) bs (mainMemory (p_machine P))
    else copyout big va bs P = Inl Halted"
proof (cases "bs = [] \<or> unat va + length bs \<le> 128 * unat np")
  case True
  from copyout_loop_inside [OF assms True, of big] obtain m where m: "copyout_loop big bs va (p_machine P) = Inr (True, m)"
      "user_ok np m" "user_frame (p_machine P) m" "mainMemory m = poke_bytes (unat va) bs (mainMemory (p_machine P))"
    by blast
  then have "copyout big va bs P = Inr (int (length bs), P\<lparr>p_machine := m\<rparr>)" by (simp add: copyout_def)
  then show ?thesis using True m by auto
next
  case False
  then show ?thesis using copyout_loop_outside [OF assms, of bs va big] by (simp add: copyout_def)
qed

lemma finish_syscall_eq:
  assumes "length (registers m) = NumTotalRegs"
  shows "finish_syscall rv m = Inr (m\<lparr>registers := (registers m)[2 := word_of_int rv, PrevPCReg := reg m PCReg,
     PCReg := reg m NextPCReg, NextPCReg := reg m NextPCReg + 4]\<rparr>)"
  using assms by (simp add: finish_syscall_def WriteRegister_def ReadRegister_def set_reg_def reg_defs nth_list_update)

lemma replace_slot:
  assumes "Table_ok t" "Table_map t i \<noteq> None"
  shows "Table_ok (t\<lparr>table_slots := (table_slots t)[nat i := x]\<rparr>)"
    "Table_map (t\<lparr>table_slots := (table_slots t)[nat i := x]\<rparr>) = (Table_map t)(i \<mapsto> x)"
proof -
  have i: "0 \<le> i" "i < tsize t" "i \<in> BitMap_set (tmap t)"
    using Table_map_range [OF assms] assms(2) by (auto simp: Table_map_def split: if_splits)
  show "Table_ok (t\<lparr>table_slots := (table_slots t)[nat i := x]\<rparr>)" using assms(1) by (simp add: Table_ok_def)
  have "Table_map (t\<lparr>table_slots := (table_slots t)[nat i := x]\<rparr>) j = ((Table_map t)(i \<mapsto> x)) j" for j
    using i assms(1) other_slot [OF i(1), of j "tmap t"] by (auto simp: Table_map_def Table_ok_def)
  then show "Table_map (t\<lparr>table_slots := (table_slots t)[nat i := x]\<rparr>) = (Table_map t)(i \<mapsto> x)" by blast
qed

lemma set_file_spec:
  assumes "Table_ok (fileTable (p_space P))" "handles P fd \<noteq> None"
  shows "Table_ok (fileTable (p_space (set_file fd f P)))" "handles (set_file fd f P) = (handles P)(fd \<mapsto> Some f)"
  using replace_slot [OF assms, of "Some f"] by (simp_all add: set_file_def)

lemma set_file_frame [simp]:
  "p_machine (set_file fd f P) = p_machine P" "p_disk (set_file fd f P) = p_disk P" "p_fs (set_file fd f P) = p_fs P"
  "p_stdout (set_file fd f P) = p_stdout P" "p_stdin (set_file fd f P) = p_stdin P"
  by (simp_all add: set_file_def)

lemma proc_ok_handle:
  assumes "proc_ok np P" "handles P fd = Some (Some f)"
  shows "Table_Get fd (fileTable (p_space P)) = Inr (Some f)"
  using assms by (simp add: proc_ok_def Table_Get_eq)

text \<open>What a system call on files leaves alone: registers, the file system object and the terminal.\<close>

definition call_frame :: "Process \<Rightarrow> Process \<Rightarrow> bool" where
  "call_frame P P' \<longleftrightarrow> registers (p_machine P') = registers (p_machine P) \<and> p_fs P' = p_fs P \<and> p_stdin P' = p_stdin P \<and>
     p_stdout P' = p_stdout P"

lemma registers_share [simp]: "registers (share d m) = registers m"
  by (simp add: share_def)

lemma mainMemory_share [simp]: "mainMemory (share d m) = mainMemory m"
  by (simp add: share_def)

lemma Read_Syscall_file:
  fixes va :: "32 word"
  assumes P: "proc_ok np P" and fd: "fd \<noteq> ConsoleInput" "fd \<noteq> ConsoleOutput" "handles P fd = Some (Some f)" "hdr_ok (of_hdr f)"
    and pos: "0 \<le> seekPosition f" "0 \<le> len" "seekPosition f + len < 2 ^ 31"
  defines "bs \<equiv> take (nat len) (drop (nat (seekPosition f)) (file_content (disk_image (p_disk P)) (of_hdr f)))"
  shows "if bs = [] \<or> unat va + length bs \<le> 128 * unat np
    then \<exists>P'. Read_Syscall junk big va len fd P = Inr (int (length bs), P') \<and> proc_ok np P' \<and> call_frame P P' \<and>
      same_sectors (disk_image (p_disk P)) (disk_image (p_disk P')) \<and>
      mainMemory (p_machine P') = poke_bytes (unat va) bs (mainMemory (p_machine P)) \<and>
      handles P' = (handles P)(fd \<mapsto> Some (f\<lparr>seekPosition := seekPosition f + int (length bs)\<rparr>))
    else Read_Syscall junk big va len fd P = Inl Halted"
proof -
  let ?f = "f\<lparr>seekPosition := seekPosition f + int (length bs)\<rparr>"
  have ok: "user_ok np (p_machine P)" "Table_ok (fileTable (p_space P))" "sd_ready (proc_disk P)"
    using P by (simp_all add: proc_ok_def)
  obtain d where d: "ReadAt ReadSector f len (seekPosition f) (proc_disk P) = Inr (bs, d)" "sd_ready d"
    "same_sectors (disk_image (p_disk P)) (disk_image d)"
    using synch_disk.ReadAt_spec [OF ok(3) fd(4) pos(1,3)] unfolding bs_def by auto
  define P1 where "P1 = P\<lparr>p_disk := d, p_machine := share d (p_machine P)\<rparr>"
  define P2 where "P2 = set_file fd ?f P1"
  have rd: "on_disk (\<lambda>d. andThen (OpenFile_Read ReadSector f len d) (\<lambda>(bs, f', d'). Inr ((bs, f'), d'))) P = Inr ((bs, ?f), P1)"
    unfolding P1_def by (rule on_disk_Inr) (simp add: OpenFile_Read_def d(1))
  have "new_chars len = Inr ()" using pos by (simp add: new_chars_def int32_def)
  then have R: "Read_Syscall junk big va len fd P =
      (if bs = [] then Inr (int (length bs), P2) else andThen (copyout big va bs P2) (\<lambda>(_, P3). Inr (int (length bs), P3)))"
    using fd(1,2) proc_ok_handle [OF P fd(3)] by (simp add: Read_Syscall_def rd Let_def P2_def)
  have P2: "user_ok np (p_machine P2)" "p_machine P2 = share d (p_machine P)" "p_disk P2 = d" "call_frame P P2"
      "Table_ok (fileTable (p_space P2))" "handles P2 = (handles P)(fd \<mapsto> Some ?f)"
    using ok(1) set_file_spec [of P1 fd ?f] ok(2) fd(3) by (simp_all add: P2_def P1_def call_frame_def)
  show ?thesis
  proof (cases "bs = []")
    case True
    then show ?thesis using R P2 d by (auto simp: proc_ok_def)
  next
    case False
    have fin: "Read_Syscall junk big va len fd P = Inr (int (length bs), P2\<lparr>p_machine := m\<rparr>) \<and>
        proc_ok np (P2\<lparr>p_machine := m\<rparr>) \<and> call_frame P (P2\<lparr>p_machine := m\<rparr>)"
      if "copyout big va bs P2 = Inr (int (length bs), P2\<lparr>p_machine := m\<rparr>)" "user_ok np m" "user_frame (p_machine P2) m" for m
    proof -
      have "share m d = d" "registers m = registers (p_machine P)"
        using user_frame_sel(8) [OF that(3), of d] user_frame_sel(1) [OF that(3)] P2(2) by simp_all
      then show ?thesis using that P2 d(2) R False by (simp add: proc_ok_def call_frame_def)
    qed
    show ?thesis using copyout_spec [OF P2(1), of bs va big] fin False P2 d(3) R
      by (cases "unat va + length bs \<le> 128 * unat np") auto
  qed
qed

lemma copyin_proc:
  assumes "proc_ok np P" "0 \<le> len" "len = 0 \<or> unat va + nat len \<le> 128 * unat np"
  shows "\<exists>m. copyin big va len P = Inr (len, map (mainMemory (p_machine P)) [unat va..<unat va + nat len], P\<lparr>p_machine := m\<rparr>) \<and>
      proc_ok np (P\<lparr>p_machine := m\<rparr>) \<and> registers m = registers (p_machine P) \<and>
      share m (p_disk P) = proc_disk P \<and> mainMemory m = mainMemory (p_machine P)"
proof -
  have "user_ok np (p_machine P)" using assms(1) by (simp add: proc_ok_def)
  from copyin_spec [OF this assms(2), of va big] assms(3) obtain m where
    m: "copyin big va len P = Inr (len, map (mainMemory (p_machine P)) [unat va..<unat va + nat len], P\<lparr>p_machine := m\<rparr>)"
      "user_ok np m" "user_frame (p_machine P) m" "mainMemory m = mainMemory (p_machine P)" by auto
  have "share m (p_disk P) = proc_disk P" by (rule user_frame_sel(8) [OF m(3)])
  then show ?thesis using m assms(1) user_frame_sel(1) [OF m(3)] by (auto simp: proc_ok_def)
qed


lemma Write_Syscall_file:
  fixes va :: "32 word"
  assumes P: "proc_ok np P" and fd: "fd \<noteq> ConsoleInput" "fd \<noteq> ConsoleOutput" "handles P fd = Some (Some f)" "hdr_ok (of_hdr f)"
    and pos: "0 \<le> seekPosition f" "0 \<le> len" "seekPosition f + len < 2 ^ 31" "len = 0 \<or> unat va + nat len \<le> 128 * unat np"
  defines "p \<equiv> nat (seekPosition f)" and "k \<equiv> min (nat len) (nat (fh_numBytes (of_hdr f)) - nat (seekPosition f))"
    and "C \<equiv> file_content (disk_image (p_disk P)) (of_hdr f)"
  shows "\<exists>P'. Write_Syscall junk big va len fd P = Inr P' \<and> proc_ok np P' \<and> call_frame P P' \<and>
      mainMemory (p_machine P') = mainMemory (p_machine P) \<and>
      file_content (disk_image (p_disk P')) (of_hdr f)
        = take p C @ map (mainMemory (p_machine P)) [unat va..<unat va + k] @ drop (p + k) C \<and>
      (\<forall>t. 0 \<le> t \<longrightarrow> t < NumSectors \<longrightarrow> t \<notin> set (file_sectors (of_hdr f)) \<longrightarrow>
        disk_image (p_disk P') t = disk_image (p_disk P) t) \<and>
      handles P' = (handles P)(fd \<mapsto> Some (f\<lparr>seekPosition := seekPosition f + int k\<rparr>))"
proof -
  let ?f = "f\<lparr>seekPosition := seekPosition f + int k\<rparr>"
  define buf where "buf = map (mainMemory (p_machine P)) [unat va..<unat va + nat len]"
  obtain m where m: "copyin big va len P = Inr (len, buf, P\<lparr>p_machine := m\<rparr>)" "proc_ok np (P\<lparr>p_machine := m\<rparr>)"
      "registers m = registers (p_machine P)" "share m (p_disk P) = proc_disk P" "mainMemory m = mainMemory (p_machine P)"
    using copyin_proc [OF P pos(2,4), of big] unfolding buf_def by blast
  have sd: "sd_ready (proc_disk P)" using P by (simp add: proc_ok_def)
  have kbuf: "take k buf = map (mainMemory (p_machine P)) [unat va..<unat va + k]"
    by (simp add: buf_def k_def take_map min_def)
  have len: "nat len \<le> length buf" by (simp add: buf_def)
  obtain d where d: "WriteAt ReadSector WriteSector (fresh_byte junk) f buf len (seekPosition f) (proc_disk P) = Inr (int k, d)"
      "sd_ready d" "file_content (disk_image d) (of_hdr f) = take p C @ take k buf @ drop (p + k) C"
      "\<forall>t. 0 \<le> t \<longrightarrow> t < NumSectors \<longrightarrow> t \<notin> set (file_sectors (of_hdr f)) \<longrightarrow> disk_image d t = disk_image (p_disk P) t"
    using synch_disk.WriteAt_spec [OF sd fd(4) pos(1,3) len, of "fresh_byte junk"] unfolding k_def p_def C_def by auto
  define P2 where "P2 = P\<lparr>p_disk := d, p_machine := share d m\<rparr>"
  have wr: "on_disk (\<lambda>d. andThen (OpenFile_Write ReadSector WriteSector (fresh_byte junk) f buf len d)
      (\<lambda>(n, f', d'). Inr ((n, f'), d'))) (P\<lparr>p_machine := m\<rparr>) = Inr ((int k, ?f), P2)"
    unfolding P2_def by (subst on_disk_Inr [of _ _ _ d]) (simp_all add: OpenFile_Write_def m(4) d(1))
  have "new_chars len = Inr ()" using pos by (simp add: new_chars_def int32_def)
  then have "Write_Syscall junk big va len fd P = Inr (set_file fd ?f P2)"
    using fd(1,2) pos(2) proc_ok_handle [OF m(2), of fd f] fd(3) by (simp add: Write_Syscall_def m(1) wr)
  moreover have "proc_ok np (set_file fd ?f P2)" "handles (set_file fd ?f P2) = (handles P)(fd \<mapsto> Some ?f)"
    using set_file_spec [of P2 fd ?f] m(2) fd(3) d(2) by (simp_all add: P2_def proc_ok_def)
  ultimately show ?thesis using d(3,4) m(3,5) kbuf by (auto simp: P2_def call_frame_def)
qed

text \<open>The registers after a system call that returns \<open>rv\<close>.\<close>

definition after_call :: "int \<Rightarrow> 32 word list \<Rightarrow> 32 word list" where
  "after_call rv rs = rs[2 := word_of_int rv, PrevPCReg := rs ! PCReg, PCReg := rs ! NextPCReg, NextPCReg := rs ! NextPCReg + 4]"

lemma after_call_result: "length rs = NumTotalRegs \<Longrightarrow> after_call rv rs ! 2 = word_of_int rv"
  by (simp add: after_call_def reg_defs)

lemma proc_ok_registers:
  assumes "proc_ok np P"
  shows "length (registers (p_machine P)) = NumTotalRegs"
    "proc_ok np (P\<lparr>p_machine := (p_machine P)\<lparr>registers := after_call rv (registers (p_machine P))\<rparr>\<rparr>)"
  using assms by (simp_all add: proc_ok_def user_ok_def after_call_def reg_defs share_def)

lemma handler_finishes:
  assumes "proc_ok np P1" "registers (p_machine P1) = registers (p_machine P)"
  shows "andThen (finish_syscall rv (p_machine P1)) (\<lambda>m. Inr (P1\<lparr>p_machine := m\<rparr>))
    = Inr (P1\<lparr>p_machine := (p_machine P1)\<lparr>registers := after_call rv (registers (p_machine P))\<rparr>\<rparr>)"
    "proc_ok np (P1\<lparr>p_machine := (p_machine P1)\<lparr>registers := after_call rv (registers (p_machine P))\<rparr>\<rparr>)"
  using finish_syscall_eq [OF proc_ok_registers(1) [OF assms(1)]] proc_ok_registers(2) [OF assms(1), of rv] assms(2)
  by (simp_all add: after_call_def)

lemma handler_cases:
  fixes P :: Process
  defines "a1 \<equiv> reg (p_machine P) 4" and "a2 \<equiv> sint (reg (p_machine P) 5)" and "a3 \<equiv> sint (reg (p_machine P) 6)"
    and "fin \<equiv> \<lambda>(rv, P1). andThen (finish_syscall rv (p_machine P1)) (\<lambda>m. Inr (P1\<lparr>p_machine := m\<rparr>))"
  shows "which \<noteq> SyscallException \<Longrightarrow> ExceptionHandler junk big which P = Inl Halted"
    "reg (p_machine P) 2 \<notin> {SC_Create, SC_Open, SC_Write, SC_Read, SC_Close} \<Longrightarrow>
      ExceptionHandler junk big SyscallException P = Inl Halted"
    "reg (p_machine P) 2 = SC_Create \<Longrightarrow> ExceptionHandler junk big SyscallException P
      = andThen (andThen (Create_Syscall junk big a1 a2 P) (\<lambda>P1. Inr (0, P1))) fin"
    "reg (p_machine P) 2 = SC_Open \<Longrightarrow> ExceptionHandler junk big SyscallException P = andThen (Open_Syscall junk big a1 a2 P) fin"
    "reg (p_machine P) 2 = SC_Write \<Longrightarrow> ExceptionHandler junk big SyscallException P
      = andThen (andThen (Write_Syscall junk big a1 a2 a3 P) (\<lambda>P1. Inr (0, P1))) fin"
    "reg (p_machine P) 2 = SC_Read \<Longrightarrow> ExceptionHandler junk big SyscallException P = andThen (Read_Syscall junk big a1 a2 a3 P) fin"
    "reg (p_machine P) 2 = SC_Close \<Longrightarrow> ExceptionHandler junk big SyscallException P
      = andThen (andThen (Close_Syscall (sint a1) P) (\<lambda>P1. Inr (0, P1))) fin"
  unfolding ExceptionHandler_def ReadRegister_def fin_def a1_def a2_def a3_def Let_def
  by (simp_all add: NumTotalRegs_def sc_defs Halt_def)

lemma Open_Syscall_spec:
  assumes P: "proc_ok np P" and fs: "fs_ok big (disk_image (p_disk P)) (p_fs P)"
    and len: "0 \<le> len" "len < 2 ^ 31 - 1" "len = 0 \<or> unat va + nat len \<le> 128 * unat np"
  defines "name \<equiv> cstr FileNameMaxLen (map (mainMemory (p_machine P)) [unat va..<unat va + nat len])"
  shows "\<exists>r P'. Open_Syscall junk big va len P = Inr (r, P') \<and> proc_ok np P' \<and> call_frame P P' \<and>
    same_sectors (disk_image (p_disk P)) (disk_image (p_disk P')) \<and>
    mainMemory (p_machine P') = mainMemory (p_machine P) \<and>
    (case dir_map (fs_dir big (disk_image (p_disk P)) (p_fs P)) name of
       None \<Rightarrow> r = - 1 \<and> handles P' = handles P
     | Some s \<Rightarrow>
         if \<forall>i. 0 \<le> i \<longrightarrow> i < tsize (fileTable (p_space P)) \<longrightarrow> handles P i \<noteq> None then r = - 1 \<and> handles P' = handles P
         else 0 \<le> r \<and> handles P r = None \<and> (\<forall>j. 0 \<le> j \<longrightarrow> j < r \<longrightarrow> handles P j \<noteq> None) \<and>
           handles P' = (handles P)(r \<mapsto> Some \<lparr>of_hdr = header_at big (disk_image (p_disk P)) s, seekPosition = 0\<rparr>))"
proof -
  define buf where "buf = map (mainMemory (p_machine P)) [unat va..<unat va + nat len]"
  obtain m where m: "copyin big va len P = Inr (len, buf, P\<lparr>p_machine := m\<rparr>)" "proc_ok np (P\<lparr>p_machine := m\<rparr>)"
      "registers m = registers (p_machine P)" "share m (p_disk P) = proc_disk P" "mainMemory m = mainMemory (p_machine P)"
    using copyin_proc [OF P len(1,3), of big] unfolding buf_def by blast
  have sd: "sd_ready (proc_disk P)" "fs_ok big (disk_image (proc_disk P)) (p_fs P)" using P fs by (simp_all add: proc_ok_def)
  let ?s = "dir_map (fs_dir big (disk_image (p_disk P)) (p_fs P)) name"
  let ?o = "map_option (\<lambda>s. \<lparr>of_hdr = header_at big (disk_image (p_disk P)) s, seekPosition = 0\<rparr>) ?s"
  obtain d where d: "FileSystem_Open ReadSector junk big (p_fs P) buf (proc_disk P) = Inr (?o, d)" "sd_ready d"
      "same_sectors (disk_image (p_disk P)) (disk_image d)"
    using synch_disk.Open_spec [OF sd, where name = buf and junk = junk] unfolding name_def buf_def by auto
  define P2 where "P2 = P\<lparr>p_disk := d, p_machine := share d m\<rparr>"
  have op: "on_disk (FileSystem_Open ReadSector junk big (p_fs P) buf) (P\<lparr>p_machine := m\<rparr>) = Inr (?o, P2)"
    unfolding P2_def by (subst on_disk_Inr [of _ _ ?o d]) (simp_all add: m(4) d(1))
  have P2: "proc_ok np P2" "call_frame P P2" "disk_image (p_disk P2) = disk_image d" "handles P2 = handles P"
      "mainMemory (p_machine P2) = mainMemory (p_machine P)" "fileTable (p_space P2) = fileTable (p_space P)"
    using m(2,3,5) d(2) by (simp_all add: P2_def proc_ok_def call_frame_def)
  have t: "Table_ok (fileTable (p_space P))" using P by (simp add: proc_ok_def)
  have nc: "new_chars (len + 1) = Inr ()" using len by (simp add: new_chars_def int32_def)
  have O: "Open_Syscall junk big va len P = (case ?o of None \<Rightarrow> Inr (- 1, P2)
      | Some f \<Rightarrow> andThen (Table_Put (Some f) (fileTable (p_space P))) (\<lambda>(fd, t). Inr (fd, P2\<lparr>p_space := (p_space P2)\<lparr>fileTable := t\<rparr>\<rparr>)))"
    using len(1) by (simp add: Open_Syscall_def nc m(1) op P2(6) split: option.split)
  show ?thesis
  proof (cases ?s)
    case None
    then show ?thesis using O P2 d(3) by auto
  next
    case (Some s)
    let ?f = "\<lparr>of_hdr = header_at big (disk_image (p_disk P)) s, seekPosition = 0\<rparr>"
    define full where "full = (\<forall>i. 0 \<le> i \<longrightarrow> i < tsize (fileTable (p_space P)) \<longrightarrow> handles P i \<noteq> None)"
    obtain r t' where put: "Table_Put (Some ?f) (fileTable (p_space P)) = Inr (r, t')" "Table_ok t'"
        "if full then r = - 1 \<and> Table_map t' = handles P
         else 0 \<le> r \<and> handles P r = None \<and> (\<forall>j. 0 \<le> j \<longrightarrow> j < r \<longrightarrow> handles P j \<noteq> None) \<and>
           Table_map t' = (handles P)(r \<mapsto> Some ?f)"
      using Table_Put_spec [OF t, of "Some ?f", folded full_def] t by (cases full; simp only: if_True if_False) blast+
    let ?P = "P2\<lparr>p_space := (p_space P2)\<lparr>fileTable := t'\<rparr>\<rparr>"
    have "Open_Syscall junk big va len P = Inr (r, ?P)" using O Some put(1) by simp
    moreover have "proc_ok np ?P" "call_frame P ?P" using P2(1,2) put(2) by (simp_all add: proc_ok_def call_frame_def)
    ultimately show ?thesis using put(3) P2(3,5) d(3) Some unfolding full_def [symmetric]
      by (intro exI [of _ r] exI [of _ ?P]) simp
  qed
qed

definition no_room :: "bool \<Rightarrow> (int \<Rightarrow> 8 word list) \<Rightarrow> FileSystem \<Rightarrow> 8 word list \<Rightarrow> bool" where
  "no_room big sec fs name \<longleftrightarrow> fs_files big sec fs name \<noteq> None \<or> list_all inUse (table (fs_dir big sec fs)) \<or>
     free_sectors (fs_map big sec fs) = {}"

lemma Create_empty:
  assumes "sd_ready d" "fs_ok big (disk_image d) fs" "hdr_rep (fresh_hdr junk)"
  shows "\<exists>r d'. FileSystem_Create ReadSector WriteSector junk big fs name 0 d = Inr (r, d') \<and> sd_ready d' \<and>
      (if no_room big (disk_image d) fs (cstr FileNameMaxLen name) then same_sectors (disk_image d) (disk_image d')
       else fs_ok big (disk_image d') fs \<and>
         fs_files big (disk_image d') fs = (fs_files big (disk_image d) fs)(cstr FileNameMaxLen name \<mapsto> []))"
proof -
  have z: "divRoundUp 0 SectorSize = 0" by (simp add: divRoundUp_def SectorSize_def)
  have "finite (free_sectors (fs_map big (disk_image d) fs))" by simp
  then have c: "int (card (free_sectors (fs_map big (disk_image d) fs))) < 1 + divRoundUp 0 SectorSize \<longleftrightarrow>
      free_sectors (fs_map big (disk_image d) fs) = {}"
    unfolding z by (simp add: card_eq_0_iff)
  show ?thesis
  proof (cases "no_room big (disk_image d) fs (cstr FileNameMaxLen name)")
    case True
    then have "dir_map (fs_dir big (disk_image d) fs) (cstr FileNameMaxLen name) \<noteq> None \<or>
        list_all inUse (table (fs_dir big (disk_image d) fs)) \<or>
        int (card (free_sectors (fs_map big (disk_image d) fs))) < 1 + divRoundUp 0 SectorSize"
      unfolding no_room_def fs_files_def c by auto
    from synch_disk.Create_fails [OF assms(1,2) order_refl assms(3) this] show ?thesis using True by auto
  next
    case False
    then have "dir_map (fs_dir big (disk_image d) fs) (cstr FileNameMaxLen name) = None"
        "\<not> list_all inUse (table (fs_dir big (disk_image d) fs))"
        "1 + divRoundUp 0 SectorSize \<le> int (card (free_sectors (fs_map big (disk_image d) fs)))"
      using c unfolding no_room_def fs_files_def by (simp_all add: not_less)
    from synch_disk.Create_succeeds [OF assms(1,2) order_refl _ assms(3) this] False show ?thesis by auto
  qed
qed

lemma Create_Syscall_spec:
  assumes P: "proc_ok np P" and fs: "fs_ok big (disk_image (p_disk P)) (p_fs P)" and rep: "hdr_rep (fresh_hdr junk)"
    and len: "0 \<le> len" "len < 2 ^ 31 - 1" "len = 0 \<or> unat va + nat len \<le> 128 * unat np"
  defines "name \<equiv> cstr FileNameMaxLen (map (mainMemory (p_machine P)) [unat va..<unat va + nat len])"
  shows "\<exists>P'. Create_Syscall junk big va len P = Inr P' \<and> proc_ok np P' \<and> call_frame P P' \<and>
    mainMemory (p_machine P') = mainMemory (p_machine P) \<and> handles P' = handles P \<and>
    (if no_room big (disk_image (p_disk P)) (p_fs P) name then same_sectors (disk_image (p_disk P)) (disk_image (p_disk P'))
     else fs_ok big (disk_image (p_disk P')) (p_fs P) \<and>
       fs_files big (disk_image (p_disk P')) (p_fs P) = (fs_files big (disk_image (p_disk P)) (p_fs P))(name \<mapsto> []))"
proof -
  define buf where "buf = map (mainMemory (p_machine P)) [unat va..<unat va + nat len]"
  obtain m where m: "copyin big va len P = Inr (len, buf, P\<lparr>p_machine := m\<rparr>)" "proc_ok np (P\<lparr>p_machine := m\<rparr>)"
      "registers m = registers (p_machine P)" "share m (p_disk P) = proc_disk P" "mainMemory m = mainMemory (p_machine P)"
    using copyin_proc [OF P len(1,3), of big] unfolding buf_def by blast
  have sd: "sd_ready (proc_disk P)" "fs_ok big (disk_image (proc_disk P)) (p_fs P)" using P fs by (simp_all add: proc_ok_def)
  define bad where "bad \<longleftrightarrow> no_room big (disk_image (p_disk P)) (p_fs P) name"
  obtain r d where d: "FileSystem_Create ReadSector WriteSector junk big (p_fs P) buf 0 (proc_disk P) = Inr (r, d)" "sd_ready d"
      "if bad then same_sectors (disk_image (p_disk P)) (disk_image d)
       else fs_ok big (disk_image d) (p_fs P) \<and>
         fs_files big (disk_image d) (p_fs P) = (fs_files big (disk_image (p_disk P)) (p_fs P))(name \<mapsto> [])"
    using Create_empty [OF sd rep, of buf] unfolding bad_def name_def buf_def disk_file_share by blast
  define P2 where "P2 = P\<lparr>p_disk := d, p_machine := share d m\<rparr>"
  have op: "on_disk (FileSystem_Create ReadSector WriteSector junk big (p_fs P) buf 0) (P\<lparr>p_machine := m\<rparr>) = Inr (r, P2)"
    unfolding P2_def by (subst on_disk_Inr [of _ _ r d]) (simp_all add: m(4) d(1))
  have nc: "new_chars (len + 1) = Inr ()" using len by (simp add: new_chars_def int32_def)
  have "Create_Syscall junk big va len P = Inr P2" using len(1) by (simp add: Create_Syscall_def nc m(1) op)
  moreover have "proc_ok np P2" "call_frame P P2" "handles P2 = handles P"
      "mainMemory (p_machine P2) = mainMemory (p_machine P)" "p_disk P2 = d"
    using m(2,3,5) d(2) by (simp_all add: P2_def proc_ok_def call_frame_def)
  ultimately show ?thesis using d(3) unfolding bad_def [symmetric] by auto
qed

lemma Close_Syscall_spec:
  assumes "proc_ok np P"
  shows "\<exists>P'. Close_Syscall fd P = Inr P' \<and> proc_ok np P' \<and> call_frame P P' \<and> p_machine P' = p_machine P \<and>
    p_disk P' = p_disk P \<and> handles P' = (handles P)(fd := None)"
proof -
  have "Table_ok (fileTable (p_space P))" using assms by (simp add: proc_ok_def)
  from Table_Remove_spec [OF this, of fd] this obtain f t where t: "Table_Remove fd (fileTable (p_space P)) = Inr (f, t)" "Table_ok t"
      "Table_map t = (handles P)(fd := None)"
    by (cases "handles P fd") (auto simp: fun_upd_idem)
  let ?P = "P\<lparr>p_space := (p_space P)\<lparr>fileTable := t\<rparr>\<rparr>"
  have "Close_Syscall fd P = Inr ?P" by (simp add: Close_Syscall_def t(1))
  then show ?thesis using assms t(2,3) by (auto simp: proc_ok_def call_frame_def)
qed

lemma Write_Syscall_console:
  assumes "proc_ok np P" "0 \<le> len" "len < 2 ^ 31" "len = 0 \<or> unat va + nat len \<le> 128 * unat np"
  shows "\<exists>P'. Write_Syscall junk big va len ConsoleOutput P = Inr P' \<and> proc_ok np P' \<and> handles P' = handles P \<and>
    p_stdout P' = p_stdout P @ map (mainMemory (p_machine P)) [unat va..<unat va + nat len]"
proof -
  obtain m where m: "copyin big va len P = Inr (len, map (mainMemory (p_machine P)) [unat va..<unat va + nat len], P\<lparr>p_machine := m\<rparr>)"
      "proc_ok np (P\<lparr>p_machine := m\<rparr>)"
    using copyin_proc [OF assms(1,2,4), of big] by blast
  have "new_chars len = Inr ()" using assms(2,3) by (simp add: new_chars_def int32_def)
  then show ?thesis using m assms(2)
    by (auto simp: Write_Syscall_def ConsoleInput_def ConsoleOutput_def proc_ok_def)
qed

lemma Read_Syscall_console:
  assumes "proc_ok np P" "p_stdin P = w # ws" "len < 2 ^ 31" "int (length w) < len" "unat va + nat len \<le> 128 * unat np"
  shows "\<exists>P' rest. Read_Syscall junk big va len ConsoleInput P = Inr (len, P') \<and> proc_ok np P' \<and> handles P' = handles P \<and>
    p_stdin P' = ws \<and> length (w @ 0 # rest) = nat len \<and>
    mainMemory (p_machine P') = poke_bytes (unat va) (w @ 0 # rest) (mainMemory (p_machine P))"
proof -
  let ?rest = "map (fresh_byte junk) [length w + 1..<nat len]"
  let ?P1 = "P\<lparr>p_stdin := ws\<rparr>"
  have len: "length (w @ 0 # ?rest) = nat len" using assms(4) by auto
  then obtain m where m: "copyout big va (w @ 0 # ?rest) ?P1 = Inr (int (nat len), ?P1\<lparr>p_machine := m\<rparr>)" "user_ok np m"
      "user_frame (p_machine P) m" "mainMemory m = poke_bytes (unat va) (w @ 0 # ?rest) (mainMemory (p_machine P))"
    using copyout_spec [of np ?P1 "w @ 0 # ?rest" va big] assms(1,5) by (auto simp: proc_ok_def)
  have "scan_word (fresh_byte junk) len P = Inr (w @ 0 # ?rest, ?P1)" using assms(2,4) by (simp add: scan_word_def)
  moreover have "new_chars len = Inr ()" using assms(3,4) by (simp add: new_chars_def int32_def)
  ultimately have "Read_Syscall junk big va len ConsoleInput P = Inr (len, ?P1\<lparr>p_machine := m\<rparr>)"
    by (simp add: Read_Syscall_def ConsoleInput_def ConsoleOutput_def m(1) [simplified])
  moreover have "proc_ok np (?P1\<lparr>p_machine := m\<rparr>)"
    using assms(1) m(2) user_frame_sel(8) [OF m(3), of "p_disk P"] by (simp add: proc_ok_def)
  ultimately show ?thesis using m(4) len by (intro exI [of _ "?P1\<lparr>p_machine := m\<rparr>"] exI [of _ ?rest]) simp
qed

lemma load_program:
  fixes P1 :: Process and f :: OpenFile and big :: bool
  assumes "sd_ready (proc_disk P1)" "tlb (p_machine P1) = None" "hdr_ok (of_hdr f)"
  defines "C \<equiv> file_content (disk_image (p_disk P1)) (of_hdr f)"
  defines "h \<equiv> noff_header big (file_content (disk_image (p_disk P1)) (of_hdr f))"
  assumes pre: "40 \<le> length C" "noffMagic h = NOFFMAGIC" "program_pages h \<le> 32" "segment_ok C (noff_code h)" "segment_ok C (initData h)"
  shows "\<exists>P'. andThen (on_disk (\<lambda>d. andThen (AddrSpace_new ReadSector big jb js jh f (p_machine P1) d)
               (\<lambda>(sp, m, d'). Inr ((sp, m), d'))) P1) (\<lambda>((sp, m), P2).
             let m1 = share (p_machine P2) (RestoreState sp (InitRegisters sp m)) in
             Inr (Some (P2\<lparr>p_space := sp, p_machine := m1\<rparr>))) = Inr (Some P') \<and> proc_ok (program_pages h) P' \<and>
    same_sectors (disk_image (p_disk P1)) (disk_image (p_disk P')) \<and>
    mainMemory (p_machine P') = program_memory C h (mainMemory (p_machine P1)) \<and>
    handles P' = [0 \<mapsto> None, 1 \<mapsto> None] \<and> reg (p_machine P') PCReg = 0 \<and> reg (p_machine P') NextPCReg = 4 \<and>
    reg (p_machine P') StackReg = program_pages h * 128 - 16"
proof -
  define np where "np = program_pages h"
  define m where "m = (p_machine P1)\<lparr>mainMemory := program_memory C h (mainMemory (p_machine P1))\<rparr>"
  obtain t d' where t: "AddrSpace_new ReadSector big jb js jh f (p_machine P1) (proc_disk P1)
      = Inr (\<lparr>fileTable = t, as_pageTable = map page_entry [0..<unat np], numPages = np\<rparr>, m, d')"
      "sd_ready d'" "same_sectors (disk_image (p_disk P1)) (disk_image d')" "Table_ok t" "Table_map t = [0 \<mapsto> None, 1 \<mapsto> None]"
    using synch_disk.AddrSpace_new_spec(2) [OF assms(1,3), of big jb js jh "p_machine P1"] pre
    unfolding np_def m_def C_def h_def by auto
  define sp where "sp = \<lparr>fileTable = t, as_pageTable = map page_entry [0..<unat np], numPages = np\<rparr>"
  define m1 where "m1 = RestoreState sp (InitRegisters sp m)"
  define P2 where "P2 = P1\<lparr>p_disk := d', p_machine := share d' (p_machine P1)\<rparr>"
  have ld: "on_disk (\<lambda>d. andThen (AddrSpace_new ReadSector big jb js jh f (p_machine P1) d)
      (\<lambda>(sp, m, d'). Inr ((sp, m), d'))) P1 = Inr ((sp, m), P2)"
    unfolding P2_def by (rule on_disk_Inr) (simp add: t(1) sp_def)
  have u: "user_ok np m1" using pre(3) assms(2)
    by (simp add: user_ok_def m1_def m_def sp_def np_def RestoreState_def InitRegisters_def set_reg_def reg_defs page_entry_def Let_def)
  have "share (share (p_machine P2) m1) d' = d'" by (simp add: P2_def share_def)
  then have "proc_ok np (P2\<lparr>p_space := sp, p_machine := share (p_machine P2) m1\<rparr>)"
    using u t(2,4) by (simp add: proc_ok_def P2_def sp_def)
  moreover have "mainMemory m1 = program_memory C h (mainMemory (p_machine P1))" "reg m1 PCReg = 0" "reg m1 NextPCReg = 4"
      "reg m1 StackReg = np * 128 - 16"
    by (simp_all add: m1_def m_def sp_def RestoreState_def InitRegisters_def set_reg_def reg_defs Let_def)
  ultimately show ?thesis unfolding ld using t(3,5)
    by (intro exI [of _ "P2\<lparr>p_space := sp, p_machine := share (p_machine P2) m1\<rparr>"]) (simp add: P2_def sp_def m1_def Let_def np_def)
qed

lemma write_named_file:
  fixes position n :: int and s :: int and big :: bool
  assumes "sd_ready d" "fs_ok big (disk_image d) fs" "dir_map (fs_dir big (disk_image d) fs) k = Some s"
    and "0 \<le> position" "position + n < 2 ^ 31" "nat n \<le> length from"
  defines "C \<equiv> file_content (disk_image d) (header_at big (disk_image d) s)"
  defines "m \<equiv> min (nat n) (length (file_content (disk_image d) (header_at big (disk_image d) s)) - nat position)"
  shows "\<exists>d'. WriteAt ReadSector WriteSector junk \<lparr>of_hdr = header_at big (disk_image d) s, seekPosition = q\<rparr> from n position d
      = Inr (int m, d') \<and> sd_ready d' \<and> fs_ok big (disk_image d') fs \<and>
    fs_files big (disk_image d') fs = (fs_files big (disk_image d) fs)(k \<mapsto>
      take (nat position) C @ take m from @ drop (nat position + m) C)"
proof -
  let ?h = "header_at big (disk_image d) s"
  let ?f = "\<lparr>of_hdr = ?h, seekPosition = q\<rparr>"
  obtain e where e: "e \<in> set (used_entries (fs_dir big (disk_image d) fs))" "entry_key e = k" "de_sector e = s"
    using dir_map_Some [OF assms(3)] by blast
  have h: "hdr_ok ?h" using fs_ok_entry(1) [OF assms(2) e(1)] e(3) by simp
  have len: "length C = nat (fh_numBytes ?h)" unfolding C_def by (rule synch_disk.length_file_content [OF assms(1) h])
  obtain d' where d': "WriteAt ReadSector WriteSector junk ?f from n position d = Inr (int m, d')" "sd_ready d'"
      "file_content (disk_image d') ?h = take (nat position) C @ take m from @ drop (nat position + m) C"
      "unchanged_but (set (file_sectors ?h)) (disk_image d) (disk_image d')"
    using synch_disk.WriteAt_spec [OF assms(1) _ assms(4-6), of ?f junk] h
    unfolding unchanged_but_def m_def C_def [symmetric] len OpenFile.select_convs by auto
  have same: "unchanged_but (set (file_sectors (header_at big (disk_image d) (de_sector e)))) (disk_image d) (disk_image d')"
    using d'(4) e(3) by simp
  note fs2 = fs_ok_data [OF assms(2) e(1) same, unfolded e(2,3)]
  have "fs_files big (disk_image d') fs = (fs_files big (disk_image d) fs)(k \<mapsto> take (nat position) C @ take m from @ drop (nat position + m) C)"
    using fs2(4) assms(3) fs2(3) d'(3) by (auto simp: fun_eq_iff fs_files_def fs2(2))
  then show ?thesis using d' fs2(1) by blast
qed

text \<open>A process with nine pages, one open file at handle 2 and one handle left.\<close>

definition demo_proc :: "FileSystem \<Rightarrow> SynchDisk \<Rightarrow> 32 word list \<Rightarrow> Process" where
  "demo_proc fs d args = \<lparr>
     p_machine = share d (demo_machine\<lparr>registers := (replicate 40 0)[2 := args ! 0, 4 := args ! 1, 5 := args ! 2, 6 := args ! 3],
       pageTable := Some (map page_entry [0..<9]), pageTableSize := 9, mainMemory := (\<lambda>i. 97)\<rparr>),
     p_space = \<lparr>fileTable = \<lparr>tmap = \<lparr>numBits = 4, numWords = 1, bmap = [7]\<rparr>,
         table_slots = [None, None, Some \<lparr>of_hdr = demo_hdr, seekPosition = 190\<rparr>, None], tsize = 4\<rparr>,
       as_pageTable = [], numPages = 9\<rparr>,
     p_fs = fs, p_disk = d, p_stdin = [], p_stdout = []\<rparr>"

lemma demo_proc_ok:
  assumes "sd_ready d"
  shows "proc_ok 9 (demo_proc fs d args)" "reg (p_machine (demo_proc fs d args)) 2 = args ! 0"
    "reg (p_machine (demo_proc fs d args)) 4 = args ! 1" "reg (p_machine (demo_proc fs d args)) 5 = args ! 2"
    "reg (p_machine (demo_proc fs d args)) 6 = args ! 3"
    "handles (demo_proc fs d args) 2 = Some (Some \<lparr>of_hdr = demo_hdr, seekPosition = 190\<rparr>)"
    "handles (demo_proc fs d args) 3 = None" "p_disk (demo_proc fs d args) = d" "p_fs (demo_proc fs d args) = fs"
    "tsize (fileTable (p_space (demo_proc fs d args))) = 4" "mainMemory (p_machine (demo_proc fs d args)) = (\<lambda>_. 97)"
proof -
  have seven: "(7 :: 32 word) = mask 3" by (simp add: mask_eq_exp_minus_1)
  have b: "bit (7 :: 32 word) 2" "\<not> bit (7 :: 32 word) 3" unfolding seven by (simp_all add: bit_mask_iff)
  have "user_ok 9 (demo_machine\<lparr>registers := (replicate 40 0)[2 := args ! 0, 4 := args ! 1, 5 := args ! 2, 6 := args ! 3],
      pageTable := Some (map page_entry [0..<9]), pageTableSize := 9, mainMemory := (\<lambda>i. 97)\<rparr>)"
    by (simp add: user_ok_def demo_machine_def reg_defs page_entry_def)
  then show "proc_ok 9 (demo_proc fs d args)"
    using assms by (simp add: proc_ok_def demo_proc_def Table_ok_def BitMap_ok_def BitsInWord_def divRoundUp_def)
  show "handles (demo_proc fs d args) 2 = Some (Some \<lparr>of_hdr = demo_hdr, seekPosition = 190\<rparr>)"
    "handles (demo_proc fs d args) 3 = None"
    using b by (simp_all add: demo_proc_def Table_map_def BitMap_set_def)
qed (simp_all add: demo_proc_def demo_machine_def)

definition demo_fs :: FileSystem where
  "demo_fs = \<lparr>freeMapFile = \<lparr>of_hdr = demo_hdr, seekPosition = 0\<rparr>, directoryFile = \<lparr>of_hdr = demo_hdr, seekPosition = 0\<rparr>\<rparr>"

abbreviation demo_call :: "32 word list \<Rightarrow> Process" where
  "demo_call \<equiv> demo_proc demo_fs demo_synchdisk"

lemmas demo_call_ok = demo_proc_ok [OF demo_synchdisk_ready, of demo_fs]

lemma empty_fs_no_room:
  assumes "fs_ok big sec fs" "fs_files big sec fs = Map.empty"
  shows "\<not> no_room big sec fs name"
proof -
  have "free_sectors (fs_map big sec fs) \<noteq> {}"
  proof
    assume "free_sectors (fs_map big sec fs) = {}"
    then show False using empty_fs_room(2) [OF assms] by (simp only: card.empty)
  qed
  then show ?thesis using empty_fs_room(1) [OF assms] assms(2) by (simp add: no_room_def)
qed

lemma demo_content_length: "length (file_content (disk_image demo_synchdisk) demo_hdr) = 200"
  using synch_disk.length_file_content [OF demo_synchdisk_ready demo_hdr_ok] by (simp add: demo_hdr_def)

lemma demo_hdr_bytes: "fh_numBytes demo_hdr = 200"
  by (simp add: demo_hdr_def)

section \<open>Properties\<close>

text \<open>
  Property C13. Starting a program: when the file system has the executable and its header and segments
  are sound, \<^verbatim>\<open>StartProcess\<close> reaches \<^verbatim>\<open>machine->Run()\<close> with the state that the system calls rely on: memory
  holds the program, the page table maps its pages and its stack, the program counters stand at the
  first instruction and the stack pointer 16 bytes below the end, only the handles of the console are
  taken and the disk is unchanged. A missing executable is reported and changes no sector.
\<close>

theorem StartProcess_enters_program:
  fixes P :: Process
  assumes "sd_ready (proc_disk P)" "tlb (p_machine P) = None" "fs_ok big (disk_image (p_disk P)) (p_fs P)"
  shows "case fs_files big (disk_image (p_disk P)) (p_fs P) (cstr FileNameMaxLen name) of
      None \<Rightarrow> StartProcess junk jb js jh big name P = Inr None
    | Some C \<Rightarrow> let h = noff_header big C; np = program_pages h in
        40 \<le> length C \<and> noffMagic h = NOFFMAGIC \<and> np \<le> 32 \<and> segment_ok C (noff_code h) \<and> segment_ok C (initData h) \<longrightarrow>
        (\<exists>P'. StartProcess junk jb js jh big name P = Inr (Some P') \<and> proc_ok np P' \<and>
          same_sectors (disk_image (p_disk P)) (disk_image (p_disk P')) \<and>
          mainMemory (p_machine P') = program_memory C h (mainMemory (p_machine P)) \<and>
          handles P' = [0 \<mapsto> None, 1 \<mapsto> None] \<and> reg (p_machine P') PCReg = 0 \<and> reg (p_machine P') NextPCReg = 4 \<and>
          reg (p_machine P') StackReg = np * 128 - 16)"
proof -
  let ?sec = "disk_image (p_disk P)"
  let ?s = "dir_map (fs_dir big ?sec (p_fs P)) (cstr FileNameMaxLen name)"
  let ?o = "map_option (\<lambda>s. \<lparr>of_hdr = header_at big ?sec s, seekPosition = 0\<rparr>) ?s"
  have fs: "fs_ok big (disk_image (proc_disk P)) (p_fs P)" using assms(3) by simp
  obtain d where d: "FileSystem_Open ReadSector junk big (p_fs P) name (proc_disk P) = Inr (?o, d)" "sd_ready d"
      "same_sectors ?sec (disk_image d)"
    using synch_disk.Open_spec [OF assms(1) fs, where name = name and junk = junk] by auto
  define P1 where "P1 = P\<lparr>p_disk := d, p_machine := share d (p_machine P)\<rparr>"
  have op: "on_disk (FileSystem_Open ReadSector junk big (p_fs P) name) P = Inr (?o, P1)"
    unfolding P1_def by (rule on_disk_Inr) (rule d(1))
  have P1: "proc_disk P1 = d" "mainMemory (p_machine P1) = mainMemory (p_machine P)" "tlb (p_machine P1) = None"
    using assms(2) by (simp_all add: P1_def share_def)
  show ?thesis
  proof (cases ?s)
    case None
    then show ?thesis by (simp add: fs_files_def StartProcess_def op)
  next
    case (Some s)
    let ?f = "\<lparr>of_hdr = header_at big ?sec s, seekPosition = 0\<rparr>"
    obtain e where "e \<in> set (used_entries (fs_dir big ?sec (p_fs P)))" "de_sector e = s"
      using dir_map_Some [OF Some] by blast
    then have hdr: "hdr_ok (of_hdr ?f)" using fs_ok_entry(1) [OF assms(3)] by auto
    have C: "file_content (disk_image (p_disk P1)) (of_hdr ?f) = file_content ?sec (header_at big ?sec s)"
      using file_content_same [OF hdr d(3)] by (simp add: P1_def)
    have same: "same_sectors ?sec (disk_image (p_disk P1))" using d(3) by (simp add: P1_def)
    have "sd_ready (proc_disk P1)" using d(2) P1(1) by simp
    note load = load_program [OF this P1(3) hdr, where big = big and jb = jb and js = js and jh = jh, unfolded C P1(2)]
    show ?thesis using load same_sectors_trans [OF same]
      by (auto simp: fs_files_def Some Let_def StartProcess_def op)
  qed
qed

theorem StartProcess_enters_program_witness:
  "\<exists>fs d P'. StartProcess demo_fresh (\<lambda>_. 1) (\<lambda>_. None) [] True [97] (demo_proc fs d [0, 0, 0, 0]) = Inr (Some P') \<and>
     proc_ok 9 P' \<and> reg (p_machine P') PCReg = 0 \<and> reg (p_machine P') StackReg = 1136"
proof -
  obtain fs d0 where d0: "sd_ready d0" "fs_ok True (disk_image d0) fs" "fs_files True (disk_image d0) fs = Map.empty"
    using demo_formatted by metis
  have k: "cstr FileNameMaxLen [97] = [97]" by (simp add: cstr_def FileNameMaxLen_def)
  have "divRoundUp 200 SectorSize = 2" by (simp add: divRoundUp_def SectorSize_def)
  moreover have "dir_map (fs_dir True (disk_image d0) fs) (cstr FileNameMaxLen [97]) = None"
    using fun_cong [OF d0(3), of "cstr FileNameMaxLen [97]"] by (simp add: fs_files_def)
  ultimately obtain d1 C where d1: "sd_ready d1" "fs_ok True (disk_image d1) fs" "length C = 200" "fs_files True (disk_image d1) fs [97] = Some C"
    using synch_disk.Create_succeeds [OF d0(1,2), where initialSize = 200 and junk = demo_fresh and name = "[97]"] demo_fresh_ok(1)
      empty_fs_room [OF d0(2,3)] by (auto simp: k)
  then obtain s where s: "dir_map (fs_dir True (disk_image d1) fs) [97] = Some s" "file_content (disk_image d1) (header_at True (disk_image d1) s) = C"
    by (auto simp: fs_files_def)
  have len: "length (demo_exe True) = 40" by (simp add: demo_exe_def)
  obtain d where d: "sd_ready d" "fs_ok True (disk_image d) fs" "fs_files True (disk_image d) fs [97] = Some (demo_exe True @ drop 40 C)"
    using write_named_file [OF d1(1,2) s(1), of 0 40 "demo_exe True" "\<lambda>_. 0" 0] len s(2) d1(3) by auto
  let ?C = "demo_exe True @ drop 40 C"
  let ?h = "noff_header True ?C"
  let ?P = "demo_proc fs d [0, 0, 0, 0]"
  have h: "program_pages ?h = 9" "segment_ok ?C (noff_code ?h)" "segment_ok ?C (initData ?h)" "noffMagic ?h = NOFFMAGIC" "40 \<le> length ?C"
    using len d1(3) by (simp_all add: demo_exe_header program_pages_def divRoundUp_unsigned_def UserStackSize_def segment_ok_def page_defs)
  have P: "sd_ready (proc_disk ?P)" "tlb (p_machine ?P) = None" "fs_ok True (disk_image (p_disk ?P)) (p_fs ?P)"
      "fs_files True (disk_image (p_disk ?P)) (p_fs ?P) (cstr FileNameMaxLen [97]) = Some ?C"
    using d k by (simp_all add: demo_proc_def demo_machine_def share_def)
  from StartProcess_enters_program [OF P(1-3), where name = "[97]" and junk = demo_fresh and jb = "\<lambda>_. 1" and js = "\<lambda>_. None" and jh = "[]"]
  have "\<exists>P'. StartProcess demo_fresh (\<lambda>_. 1) (\<lambda>_. None) [] True [97] ?P = Inr (Some P') \<and> proc_ok 9 P' \<and>
      reg (p_machine P') PCReg = 0 \<and> reg (p_machine P') StackReg = 9 * 128 - 16"
    unfolding P(4) option.case Let_def h(1) using h by auto
  then show ?thesis by auto
qed



text \<open>
  Property C14. The system call \<^verbatim>\<open>Read\<close> on an open file: the bytes of the file from the position of the
  handle on, as many as asked for and there, appear in the buffer of the program and their number in
  register 2; the position moves past them, the program goes on after the system call, and the disk, the
  other handles and the rest of memory are as before. When these bytes do not fit into the address
  space, Nachos shuts down.
\<close>

theorem Read_call_copies_file:
  fixes P :: Process and f :: OpenFile
  assumes "proc_ok np P" "reg (p_machine P) 2 = SC_Read"
  defines "fd \<equiv> sint (reg (p_machine P) 6)" and "len \<equiv> sint (reg (p_machine P) 5)" and "va \<equiv> reg (p_machine P) 4"
  assumes "fd \<noteq> ConsoleInput" "fd \<noteq> ConsoleOutput" "handles P fd = Some (Some f)" "hdr_ok (of_hdr f)"
    and "0 \<le> seekPosition f" "0 \<le> len" "seekPosition f + len < 2 ^ 31"
  defines "bs \<equiv> take (nat len) (drop (nat (seekPosition f)) (file_content (disk_image (p_disk P)) (of_hdr f)))"
  shows "if bs = [] \<or> unat va + length bs \<le> 128 * unat np
    then \<exists>P'. ExceptionHandler junk big SyscallException P = Inr P' \<and> proc_ok np P' \<and>
      registers (p_machine P') = after_call (int (length bs)) (registers (p_machine P)) \<and>
      same_sectors (disk_image (p_disk P)) (disk_image (p_disk P')) \<and>
      mainMemory (p_machine P') = poke_bytes (unat va) bs (mainMemory (p_machine P)) \<and>
      handles P' = (handles P)(fd \<mapsto> Some (f\<lparr>seekPosition := seekPosition f + int (length bs)\<rparr>))
    else ExceptionHandler junk big SyscallException P = Inl Halted"
proof -
  note R = Read_Syscall_file [OF assms(1,6-12), of va junk big, folded bs_def]
  note H = handler_cases(6) [OF assms(2), of junk big, folded va_def len_def fd_def]
  show ?thesis
  proof (cases "bs = [] \<or> unat va + length bs \<le> 128 * unat np")
    case True
    then obtain P1 where P1: "Read_Syscall junk big va len fd P = Inr (int (length bs), P1)" "proc_ok np P1" "call_frame P P1"
      "same_sectors (disk_image (p_disk P)) (disk_image (p_disk P1))"
      "mainMemory (p_machine P1) = poke_bytes (unat va) bs (mainMemory (p_machine P))"
      "handles P1 = (handles P)(fd \<mapsto> Some (f\<lparr>seekPosition := seekPosition f + int (length bs)\<rparr>))"
      using R by (simp only: if_True) blast
    have "registers (p_machine P1) = registers (p_machine P)" using P1(3) by (simp add: call_frame_def)
    note fin = handler_finishes [OF P1(2) this, of "int (length bs)"]
    show ?thesis using True H P1(1,4-6) fin by simp
  next
    case False
    then show ?thesis using R H by simp
  qed
qed

theorem Read_call_copies_file_witness:
  "\<exists>P'. ExceptionHandler demo_fresh False SyscallException (demo_call [SC_Read, 100, 20, 2]) = Inr P' \<and>
     reg (p_machine P') 2 = 10 \<and> handles P' 2 = Some (Some \<lparr>of_hdr = demo_hdr, seekPosition = 200\<rparr>)"
  using Read_call_copies_file [OF demo_call_ok(1), of "[SC_Read, 100, 20, 2]" "\<lparr>of_hdr = demo_hdr, seekPosition = 190\<rparr>" demo_fresh False]
  by (auto simp: demo_call_ok demo_hdr_ok demo_content_length ConsoleInput_def ConsoleOutput_def
      after_call_result [OF proc_ok_registers(1) [OF demo_call_ok(1)]])

text \<open>
  Property C21. The system call \<^verbatim>\<open>Write\<close> on an open file with its buffer inside the address space: the file
  has the bytes of the program's memory at the position of the handle, cut off at the end of the file,
  and its other bytes as before; no sector of another file changes; the position moves past what was
  written, register 2 is 0 and the program goes on after the system call.
\<close>

theorem Write_call_updates_file:
  fixes P :: Process and f :: OpenFile
  assumes "proc_ok np P" "reg (p_machine P) 2 = SC_Write"
  defines "fd \<equiv> sint (reg (p_machine P) 6)" and "len \<equiv> sint (reg (p_machine P) 5)" and "va \<equiv> reg (p_machine P) 4"
  assumes "fd \<noteq> ConsoleInput" "fd \<noteq> ConsoleOutput" "handles P fd = Some (Some f)" "hdr_ok (of_hdr f)"
    and "0 \<le> seekPosition f" "0 \<le> len" "seekPosition f + len < 2 ^ 31" "len = 0 \<or> unat va + nat len \<le> 128 * unat np"
  defines "p \<equiv> nat (seekPosition f)" and "k \<equiv> min (nat len) (nat (fh_numBytes (of_hdr f)) - nat (seekPosition f))"
    and "C \<equiv> file_content (disk_image (p_disk P)) (of_hdr f)"
  shows "\<exists>P'. ExceptionHandler junk big SyscallException P = Inr P' \<and> proc_ok np P' \<and>
      registers (p_machine P') = after_call 0 (registers (p_machine P)) \<and>
      mainMemory (p_machine P') = mainMemory (p_machine P) \<and>
      file_content (disk_image (p_disk P')) (of_hdr f)
        = take p C @ map (mainMemory (p_machine P)) [unat va..<unat va + k] @ drop (p + k) C \<and>
      (\<forall>t. 0 \<le> t \<longrightarrow> t < NumSectors \<longrightarrow> t \<notin> set (file_sectors (of_hdr f)) \<longrightarrow>
        disk_image (p_disk P') t = disk_image (p_disk P) t) \<and>
      handles P' = (handles P)(fd \<mapsto> Some (f\<lparr>seekPosition := seekPosition f + int k\<rparr>))"
proof -
  obtain P1 where P1: "Write_Syscall junk big va len fd P = Inr P1" "proc_ok np P1" "call_frame P P1"
      "mainMemory (p_machine P1) = mainMemory (p_machine P)"
      "file_content (disk_image (p_disk P1)) (of_hdr f)
        = take p C @ map (mainMemory (p_machine P)) [unat va..<unat va + k] @ drop (p + k) C"
      "\<forall>t. 0 \<le> t \<longrightarrow> t < NumSectors \<longrightarrow> t \<notin> set (file_sectors (of_hdr f)) \<longrightarrow>
        disk_image (p_disk P1) t = disk_image (p_disk P) t"
      "handles P1 = (handles P)(fd \<mapsto> Some (f\<lparr>seekPosition := seekPosition f + int k\<rparr>))"
    using Write_Syscall_file [OF assms(1,6-13), of junk big] unfolding p_def k_def C_def by blast
  have "registers (p_machine P1) = registers (p_machine P)" using P1(3) by (simp add: call_frame_def)
  note fin = handler_finishes [OF P1(2) this, of 0]
  show ?thesis
    using handler_cases(5) [OF assms(2), of junk big, folded va_def len_def fd_def] P1(1,4-7) fin by simp
qed

theorem Write_call_updates_file_witness:
  "\<exists>P'. ExceptionHandler demo_fresh False SyscallException (demo_call [SC_Write, 100, 20, 2]) = Inr P' \<and>
     file_content (disk_image (p_disk P')) demo_hdr
       = take 190 (file_content (disk_image demo_synchdisk) demo_hdr) @ [97, 97, 97, 97, 97, 97, 97, 97, 97, 97]"
  using Write_call_updates_file [OF demo_call_ok(1), of "[SC_Write, 100, 20, 2]" "\<lparr>of_hdr = demo_hdr, seekPosition = 190\<rparr>" demo_fresh False]
  by (auto simp: demo_call_ok demo_hdr_ok demo_content_length ConsoleInput_def ConsoleOutput_def map_replicate_const demo_hdr_bytes)

text \<open>
  Property C22. The system call \<^verbatim>\<open>Create\<close> with the name inside the address space adds an empty file under the
  name, the first nine bytes of the buffer up to a zero, and leaves the disk alone when the name is taken
  or there is no room; it returns 0 either way. Memory and handles stay as they are, and the file system
  stays consistent.
\<close>

theorem Create_call_adds_empty_file:
  fixes P :: Process
  assumes "proc_ok np P" "reg (p_machine P) 2 = SC_Create" "fs_ok big (disk_image (p_disk P)) (p_fs P)" "hdr_rep (fresh_hdr junk)"
  defines "len \<equiv> sint (reg (p_machine P) 5)" and "va \<equiv> reg (p_machine P) 4"
  assumes "0 \<le> len" "len < 2 ^ 31 - 1" "len = 0 \<or> unat va + nat len \<le> 128 * unat np"
  defines "name \<equiv> cstr FileNameMaxLen (map (mainMemory (p_machine P)) [unat va..<unat va + nat len])"
  shows "\<exists>P'. ExceptionHandler junk big SyscallException P = Inr P' \<and> proc_ok np P' \<and>
    registers (p_machine P') = after_call 0 (registers (p_machine P)) \<and>
    mainMemory (p_machine P') = mainMemory (p_machine P) \<and> handles P' = handles P \<and>
    (if no_room big (disk_image (p_disk P)) (p_fs P) name then same_sectors (disk_image (p_disk P)) (disk_image (p_disk P'))
     else fs_ok big (disk_image (p_disk P')) (p_fs P) \<and>
       fs_files big (disk_image (p_disk P')) (p_fs P) = (fs_files big (disk_image (p_disk P)) (p_fs P))(name \<mapsto> []))"
proof -
  obtain P1 where P1: "Create_Syscall junk big va len P = Inr P1" "proc_ok np P1" "call_frame P P1"
      "mainMemory (p_machine P1) = mainMemory (p_machine P)" "handles P1 = handles P"
      "if no_room big (disk_image (p_disk P)) (p_fs P) name then same_sectors (disk_image (p_disk P)) (disk_image (p_disk P1))
       else fs_ok big (disk_image (p_disk P1)) (p_fs P) \<and>
         fs_files big (disk_image (p_disk P1)) (p_fs P) = (fs_files big (disk_image (p_disk P)) (p_fs P))(name \<mapsto> [])"
    using Create_Syscall_spec [OF assms(1,3,4,7-9)] unfolding name_def by blast
  have r1: "registers (p_machine P1) = registers (p_machine P)" using P1(3) by (simp add: call_frame_def)
  show ?thesis
    using handler_cases(3) [OF assms(2), of junk big, folded va_def len_def] P1 handler_finishes [OF P1(2) r1, of 0] by simp
qed

theorem Create_call_adds_empty_file_witness:
  "\<exists>fs d P'. ExceptionHandler demo_fresh True SyscallException (demo_proc fs d [SC_Create, 100, 2, 0]) = Inr P' \<and>
     fs_files True (disk_image (p_disk P')) fs = [[97, 97] \<mapsto> []]"
proof -
  obtain fs d where d: "sd_ready d" "fs_ok True (disk_image d) fs" "fs_files True (disk_image d) fs = Map.empty"
    using demo_formatted by metis
  have k: "cstr FileNameMaxLen [97, 97] = [97, 97]" by (simp add: cstr_def FileNameMaxLen_def)
  have "\<not> no_room True (disk_image d) fs [97, 97]" by (rule empty_fs_no_room [OF d(2,3)])
  then show ?thesis
    using Create_call_adds_empty_file [OF demo_proc_ok(1) [OF d(1)], of fs "[SC_Create, 100, 2, 0]" True demo_fresh] d demo_fresh_ok(1)
    by (auto simp: demo_proc_ok [OF d(1)] upt_rec k)
qed

text \<open>
  Property C23. The system call \<^verbatim>\<open>Open\<close> with the name inside the address space returns -1 when there is no
  such file or no handle left; otherwise it returns the least free handle, which then stands for the
  contents of the file at position 0, and no other handle changes. Memory and disk stay as they are.
\<close>

theorem Open_call_hands_out_handle:
  fixes P :: Process
  assumes "proc_ok np P" "reg (p_machine P) 2 = SC_Open" "fs_ok big (disk_image (p_disk P)) (p_fs P)"
  defines "len \<equiv> sint (reg (p_machine P) 5)" and "va \<equiv> reg (p_machine P) 4"
  assumes "0 \<le> len" "len < 2 ^ 31 - 1" "len = 0 \<or> unat va + nat len \<le> 128 * unat np"
  defines "name \<equiv> cstr FileNameMaxLen (map (mainMemory (p_machine P)) [unat va..<unat va + nat len])"
    and "full \<equiv> \<forall>i. 0 \<le> i \<longrightarrow> i < tsize (fileTable (p_space P)) \<longrightarrow> handles P i \<noteq> None"
  shows "\<exists>r P'. ExceptionHandler junk big SyscallException P = Inr P' \<and> proc_ok np P' \<and>
    registers (p_machine P') = after_call r (registers (p_machine P)) \<and>
    mainMemory (p_machine P') = mainMemory (p_machine P) \<and>
    same_sectors (disk_image (p_disk P)) (disk_image (p_disk P')) \<and>
    (case fs_files big (disk_image (p_disk P)) (p_fs P) name of
       None \<Rightarrow> r = - 1 \<and> handles P' = handles P
     | Some C \<Rightarrow>
         if full then r = - 1 \<and> handles P' = handles P
         else \<exists>f. 0 \<le> r \<and> handles P r = None \<and> (\<forall>j. 0 \<le> j \<longrightarrow> j < r \<longrightarrow> handles P j \<noteq> None) \<and>
           handles P' = (handles P)(r \<mapsto> Some f) \<and> seekPosition f = 0 \<and>
           file_content (disk_image (p_disk P)) (of_hdr f) = C)"
proof -
  obtain r P1 where P1: "Open_Syscall junk big va len P = Inr (r, P1)" "proc_ok np P1" "call_frame P P1"
      "same_sectors (disk_image (p_disk P)) (disk_image (p_disk P1))" "mainMemory (p_machine P1) = mainMemory (p_machine P)"
      "case dir_map (fs_dir big (disk_image (p_disk P)) (p_fs P)) name of
       None \<Rightarrow> r = - 1 \<and> handles P1 = handles P
     | Some s \<Rightarrow>
         if full then r = - 1 \<and> handles P1 = handles P
         else 0 \<le> r \<and> handles P r = None \<and> (\<forall>j. 0 \<le> j \<longrightarrow> j < r \<longrightarrow> handles P j \<noteq> None) \<and>
           handles P1 = (handles P)(r \<mapsto> Some \<lparr>of_hdr = header_at big (disk_image (p_disk P)) s, seekPosition = 0\<rparr>)"
    using Open_Syscall_spec [OF assms(1,3,6-8), of junk] unfolding name_def full_def by blast
  have r1: "registers (p_machine P1) = registers (p_machine P)" using P1(3) by (simp add: call_frame_def)
  let ?P = "P1\<lparr>p_machine := (p_machine P1)\<lparr>registers := after_call r (registers (p_machine P))\<rparr>\<rparr>"
  have "ExceptionHandler junk big SyscallException P = Inr ?P" "proc_ok np ?P"
    using handler_cases(4) [OF assms(2), of junk big, folded va_def len_def] P1(1) handler_finishes [OF P1(2) r1, of r] by simp_all
  moreover have "case fs_files big (disk_image (p_disk P)) (p_fs P) name of
       None \<Rightarrow> r = - 1 \<and> handles ?P = handles P
     | Some C \<Rightarrow>
         if full then r = - 1 \<and> handles ?P = handles P
         else \<exists>f. 0 \<le> r \<and> handles P r = None \<and> (\<forall>j. 0 \<le> j \<longrightarrow> j < r \<longrightarrow> handles P j \<noteq> None) \<and>
           handles ?P = (handles P)(r \<mapsto> Some f) \<and> seekPosition f = 0 \<and>
           file_content (disk_image (p_disk P)) (of_hdr f) = C"
    using P1(6) by (auto simp: fs_files_def simp del: not_None_eq split: option.splits if_splits)
  ultimately show ?thesis using P1(4,5) by (intro exI [of _ r] exI [of _ ?P]) simp
qed

theorem Open_call_hands_out_handle_witness:
  "\<exists>fs d P' r f. ExceptionHandler demo_fresh True SyscallException (demo_proc fs d [SC_Open, 100, 2, 0]) = Inr P' \<and>
     handles P' r = Some (Some f) \<and> seekPosition f = 0"
proof -
  obtain fs d0 where d0: "sd_ready d0" "fs_ok True (disk_image d0) fs" "fs_files True (disk_image d0) fs = Map.empty"
    using demo_formatted by metis
  have k: "cstr FileNameMaxLen [97, 97] = [97, 97]" by (simp add: cstr_def FileNameMaxLen_def)
  have "\<not> no_room True (disk_image d0) fs [97, 97]" by (rule empty_fs_no_room [OF d0(2,3)])
  then obtain d where d: "sd_ready d" "fs_ok True (disk_image d) fs" "fs_files True (disk_image d) fs = [[97, 97] \<mapsto> []]"
    using Create_empty [OF d0(1,2) demo_fresh_ok(1), of "[97, 97]"] d0(3) unfolding k by auto
  let ?P = "demo_proc fs d [SC_Open, 100, 2, 0]"
  have nf: "\<not> (\<forall>i. 0 \<le> i \<longrightarrow> i < tsize (fileTable (p_space ?P)) \<longrightarrow> handles ?P i \<noteq> None)"
    by (intro notI) (drule spec [of _ 3], simp add: demo_proc_ok [OF d(1)])
  have name: "cstr FileNameMaxLen (map (mainMemory (p_machine ?P)) [unat (reg (p_machine ?P) 4)..<
      unat (reg (p_machine ?P) 4) + nat (sint (reg (p_machine ?P) 5))]) = [97, 97]"
    by (simp add: demo_proc_ok [OF d(1)] upt_rec k)
  have found: "fs_files True (disk_image (p_disk ?P)) (p_fs ?P) [97, 97] = Some []" by (simp add: demo_proc_ok [OF d(1)] d(3))
  have pre: "reg (p_machine ?P) 2 = SC_Open" "fs_ok True (disk_image (p_disk ?P)) (p_fs ?P)" "0 \<le> sint (reg (p_machine ?P) 5)"
      "sint (reg (p_machine ?P) 5) < 2 ^ 31 - 1"
      "sint (reg (p_machine ?P) 5) = 0 \<or> unat (reg (p_machine ?P) 4) + nat (sint (reg (p_machine ?P) 5)) \<le> 128 * unat (9 :: 32 word)"
    using d(2) by (simp_all add: demo_proc_ok [OF d(1)])
  from Open_call_hands_out_handle [OF demo_proc_ok(1) [OF d(1)] pre, of demo_fresh]
  have "\<exists>P' r f. ExceptionHandler demo_fresh True SyscallException ?P = Inr P' \<and> handles P' r = Some (Some f) \<and> seekPosition f = 0"
    unfolding name found option.case if_not_P [OF nf] by auto
  then show ?thesis by blast
qed

end
