(* ===== verification/Nachos_Coff.thy ===== *)
theory Nachos_Coff
  imports Nachos_AddrSpace
begin

text \<open>
  \<^verbatim>\<open>bin/coff2noff.c\<close> and \<^verbatim>\<open>bin/coff.h\<close>: the tool that turns the MIPS compiler's COFF files into the executables of Nachos. It runs
  on the host, with 32-bit \<^verbatim>\<open>long\<close> as \<^verbatim>\<open>coff.h\<close> supposes and byte order \<open>big\<close>. Files are byte lists with positions; \<open>room\<close> is how long the
  host lets the output get (0 if it could not be opened). An exit with status 1 is an error value; it removes the output.
\<close>

section \<open>COFF files\<close>

definition MIPSELMAGIC :: "16 word" where "MIPSELMAGIC = 0x0162"
definition OMAGIC :: "16 word" where "OMAGIC = 263"

record filehdr =
  f_magic :: "16 word"
  f_nscns :: "16 word"
  f_timdat :: "32 word"
  f_symptr :: "32 word"
  f_nsyms :: "32 word"
  f_opthdr :: "16 word"
  f_flags :: "16 word"

record aouthdr =
  a_magic :: "16 word"
  a_vstamp :: "16 word"
  a_longs :: "32 word list" \<comment> \<open>\<^verbatim>\<open>tsize\<close>, \<^verbatim>\<open>dsize\<close>, \<^verbatim>\<open>bsize\<close>, \<^verbatim>\<open>entry\<close>, \<^verbatim>\<open>text_start\<close>, \<^verbatim>\<open>data_start\<close>, \<^verbatim>\<open>bss_start\<close>, \<^verbatim>\<open>gprmask\<close>, \<^verbatim>\<open>cprmask[4]\<close>, \<^verbatim>\<open>gp_value\<close>\<close>

record scnhdr =
  s_name :: "8 word list"
  s_paddr :: "32 word"
  s_vaddr :: "32 word"
  s_size :: "32 word"
  s_scnptr :: "32 word"
  s_relptr :: "32 word"
  s_lnnoptr :: "32 word"
  s_nreloc :: "16 word"
  s_nlnno :: "16 word"
  s_flags :: "32 word"

definition sizeof_filehdr :: nat where "sizeof_filehdr = 20"
definition sizeof_aouthdr :: nat where "sizeof_aouthdr = 56"
definition sizeof_scnhdr :: nat where "sizeof_scnhdr = 40"

lemmas coff_sizes = sizeof_filehdr_def sizeof_aouthdr_def sizeof_scnhdr_def sizeof_NoffHeader_def

definition bytes_short :: "bool \<Rightarrow> 8 word list \<Rightarrow> 16 word" where
  "bytes_short big bs = host_short big (\<lambda>i. bs ! i) 0"

definition filehdr_of_bytes :: "bool \<Rightarrow> 8 word list \<Rightarrow> filehdr" where
  "filehdr_of_bytes big bs = \<lparr>f_magic = bytes_short big bs, f_nscns = bytes_short big (drop 2 bs), f_timdat = bytes_word big (drop 4 bs),
     f_symptr = bytes_word big (drop 8 bs), f_nsyms = bytes_word big (drop 12 bs), f_opthdr = bytes_short big (drop 16 bs),
     f_flags = bytes_short big (drop 18 bs)\<rparr>"

definition aouthdr_of_bytes :: "bool \<Rightarrow> 8 word list \<Rightarrow> aouthdr" where
  "aouthdr_of_bytes big bs = \<lparr>a_magic = bytes_short big bs, a_vstamp = bytes_short big (drop 2 bs), a_longs = words_of_bytes big 13 (drop 4 bs)\<rparr>"

definition scnhdr_of_bytes :: "bool \<Rightarrow> 8 word list \<Rightarrow> scnhdr" where
  "scnhdr_of_bytes big bs = \<lparr>s_name = take 8 bs, s_paddr = bytes_word big (drop 8 bs), s_vaddr = bytes_word big (drop 12 bs),
     s_size = bytes_word big (drop 16 bs), s_scnptr = bytes_word big (drop 20 bs), s_relptr = bytes_word big (drop 24 bs),
     s_lnnoptr = bytes_word big (drop 28 bs), s_nreloc = bytes_short big (drop 32 bs), s_nlnno = bytes_short big (drop 34 bs),
     s_flags = bytes_word big (drop 36 bs)\<rparr>"

text \<open>The tool's own copies of the conversions of \<^verbatim>\<open>machine/machine.cc\<close>.\<close>

definition coff_WordToHost :: "bool \<Rightarrow> 32 word \<Rightarrow> 32 word" where
  "coff_WordToHost big w =
     (if big then (drop_bit 24 w AND 0x000000ff) OR (drop_bit 8 w AND 0x0000ff00) OR
                  (push_bit 8 w AND 0x00ff0000) OR (push_bit 24 w AND 0xff000000)
      else w)"

definition coff_ShortToHost :: "bool \<Rightarrow> 16 word \<Rightarrow> 16 word" where
  "coff_ShortToHost big w =
     (if big then (push_bit 8 w AND 0xff00) OR (drop_bit 8 w AND 0x00ff) else w)"

definition swap_scnhdr :: "bool \<Rightarrow> scnhdr \<Rightarrow> scnhdr" where
  "swap_scnhdr big s = s\<lparr>s_paddr := coff_WordToHost big (s_paddr s), s_size := coff_WordToHost big (s_size s),
     s_scnptr := coff_WordToHost big (s_scnptr s)\<rparr>"

section \<open>The tool\<close>

datatype coff_error = Usage | No_coff_file | File_too_short | Cannot_write | Not_MIPSEL | Not_OMAGIC
  | Data_and_rdata | Bss_and_sbss | Unknown_segment | Negative_size

text \<open>The two open files.\<close>

record Tool =
  fdIn :: "8 word list"
  in_pos :: nat
  fdOut :: "8 word list"
  out_pos :: nat
  room :: nat

text \<open>
  \<^verbatim>\<open>read\<close> and \<^verbatim>\<open>write\<close> with a negative number of bytes, that is with more than \<^verbatim>\<open>SSIZE_MAX\<close>, do what the host likes.
  \<^verbatim>\<open>lseek\<close> to a negative position fails, which nobody checks.
\<close>

definition Read :: "int \<Rightarrow> Tool \<Rightarrow> coff_error + (8 word list \<times> Tool)" where
  "Read nBytes t =
     (if nBytes < 0 then Inl Negative_size
      else
        let bs = take (nat nBytes) (drop (in_pos t) (fdIn t)) in
        if int (length bs) \<noteq> nBytes then Inl File_too_short else Inr (bs, t\<lparr>in_pos := in_pos t + length bs\<rparr>))"

definition Write :: "8 word list \<Rightarrow> Tool \<Rightarrow> coff_error + Tool" where
  "Write bs t =
     (if out_pos t + length bs \<le> room t
      then Inr (t\<lparr>fdOut := unix_write (fdOut t) (out_pos t) bs, out_pos := out_pos t + length bs\<rparr>)
      else Inl Cannot_write)"

definition seek_in :: "int \<Rightarrow> Tool \<Rightarrow> Tool" where
  "seek_in off t = (if 0 \<le> off then t\<lparr>in_pos := nat off\<rparr> else t)"

text \<open>\<^verbatim>\<open>strcmp\<close> of a section name with a string shorter than the array.\<close>

definition named :: "scnhdr \<Rightarrow> string \<Rightarrow> bool" where
  "named s n \<longleftrightarrow> take (Suc (length n)) (s_name s) = map (\<lambda>c. of_nat (of_char c)) n @ [0]"

definition is_data :: "scnhdr \<Rightarrow> bool" where "is_data s \<longleftrightarrow> named s ''.data'' \<or> named s ''.rdata''"
definition is_bss :: "scnhdr \<Rightarrow> bool" where "is_bss s \<longleftrightarrow> named s ''.bss'' \<or> named s ''.sbss''"

text \<open>Copying the bytes of a section: \<^verbatim>\<open>lseek\<close>, \<^verbatim>\<open>Read\<close>, \<^verbatim>\<open>Write\<close>.\<close>

definition copy_bytes :: "scnhdr \<Rightarrow> Tool \<Rightarrow> coff_error + Tool" where
  "copy_bytes s t = andThen (Read (sint (s_size s)) (seek_in (sint (s_scnptr s)) t)) (\<lambda>(buffer, t1). Write buffer t1)"

text \<open>One section: the tool, \<^verbatim>\<open>inNoffFile\<close> and the header so far.\<close>

definition copy_section :: "scnhdr \<Rightarrow> Tool \<times> 32 word \<times> NoffHeader \<Rightarrow> coff_error + (Tool \<times> 32 word \<times> NoffHeader)" where
  "copy_section s = (\<lambda>(t, inNoffFile, h).
     if s_size s = 0 then Inr (t, inNoffFile, h)
     else if named s ''.text'' then
       andThen (copy_bytes s t) (\<lambda>t1.
         Inr (t1, inNoffFile + s_size s, h\<lparr>noff_code := \<lparr>virtualAddr = s_paddr s, inFileAddr = inNoffFile, seg_size = s_size s\<rparr>\<rparr>))
     else if is_data s then
       if seg_size (initData h) \<noteq> 0 then Inl Data_and_rdata
       else
         andThen (copy_bytes s t) (\<lambda>t1.
           Inr (t1, inNoffFile + s_size s, h\<lparr>initData := \<lparr>virtualAddr = s_paddr s, inFileAddr = inNoffFile, seg_size = s_size s\<rparr>\<rparr>))
     else if is_bss s then
       if seg_size (uninitData h) \<noteq> 0 then
         if s_paddr s = virtualAddr (uninitData h) + seg_size (uninitData h) then Inl Bss_and_sbss
         else Inr (t, inNoffFile, h\<lparr>uninitData := (uninitData h)\<lparr>seg_size := seg_size (uninitData h) + s_size s\<rparr>\<rparr>)
       else Inr (t, inNoffFile, h\<lparr>uninitData := (uninitData h)\<lparr>virtualAddr := s_paddr s, seg_size := s_size s\<rparr>\<rparr>)
     else Inl Unknown_segment)"

fun copy_sections :: "scnhdr list \<Rightarrow> Tool \<times> 32 word \<times> NoffHeader \<Rightarrow> coff_error + (Tool \<times> 32 word \<times> NoffHeader)" where
  "copy_sections [] x = Inr x"
| "copy_sections (s # ss) x = andThen (copy_section s x) (copy_sections ss)"

definition segment_words :: "Segment \<Rightarrow> 32 word list" where
  "segment_words s = [virtualAddr s, inFileAddr s, seg_size s]"

definition noff_bytes :: "bool \<Rightarrow> NoffHeader \<Rightarrow> 8 word list" where
  "noff_bytes big h = concat (map (word_bytes big)
     (noffMagic h # segment_words (noff_code h) @ segment_words (initData h) @ segment_words (uninitData h)))"

text \<open>The header before the loop; what is not set is whatever the stack holds (\<open>junk\<close>).\<close>

definition noff_start :: "NoffHeader \<Rightarrow> NoffHeader" where
  "noff_start junk = junk\<lparr>noffMagic := NOFFMAGIC, noff_code := (noff_code junk)\<lparr>seg_size := 0\<rparr>, initData := (initData junk)\<lparr>seg_size := 0\<rparr>,
     uninitData := (uninitData junk)\<lparr>seg_size := 0\<rparr>\<rparr>"

text \<open>\<^verbatim>\<open>main\<close>: the contents of the output file when the tool exits with status 0.\<close>

definition coff2noff :: "bool \<Rightarrow> NoffHeader \<Rightarrow> nat \<Rightarrow> nat \<Rightarrow> 8 word list option \<Rightarrow> coff_error + 8 word list" where
  "coff2noff big junk cap argc coffFile =
     (if argc < 2 then Inl Usage
      else case coffFile of
        None \<Rightarrow> Inl No_coff_file
      | Some coff \<Rightarrow>
          andThen (Read (int sizeof_filehdr) \<lparr>fdIn = coff, in_pos = 0, fdOut = [], out_pos = 0, room = cap\<rparr>) (\<lambda>(bs, t1).
          let fileh = filehdr_of_bytes big bs; magic = coff_ShortToHost big (f_magic fileh); numsections = unat (coff_ShortToHost big (f_nscns fileh)) in
          if magic \<noteq> MIPSELMAGIC then Inl Not_MIPSEL
          else
            andThen (Read (int sizeof_aouthdr) t1) (\<lambda>(bs, t2).
            if coff_ShortToHost big (a_magic (aouthdr_of_bytes big bs)) \<noteq> OMAGIC then Inl Not_OMAGIC
            else
              andThen (Read (int (numsections * sizeof_scnhdr)) t2) (\<lambda>(bs, t3).
              let sections = map (\<lambda>i. swap_scnhdr big (scnhdr_of_bytes big (drop (i * sizeof_scnhdr) bs))) [0..<numsections] in
              andThen (copy_sections sections (t3\<lparr>out_pos := sizeof_NoffHeader\<rparr>, of_nat sizeof_NoffHeader, noff_start junk)) (\<lambda>(t4, _, h).
              andThen (Write (noff_bytes big h) (t4\<lparr>out_pos := 0\<rparr>)) (\<lambda>t5. Inr (fdOut t5)))))))"

section \<open>Sections and segments\<close>

text \<open>The sections of a COFF file, and which of them the tool uses: the last text and the only data that are not empty.\<close>

definition coff_sections :: "bool \<Rightarrow> 8 word list \<Rightarrow> scnhdr list" where
  "coff_sections big coff =
     (let n = unat (coff_ShortToHost big (f_nscns (filehdr_of_bytes big (take 20 coff)))); bs = take (n * 40) (drop 76 coff) in
      map (\<lambda>i. swap_scnhdr big (scnhdr_of_bytes big (drop (i * 40) bs))) [0..<n])"

definition last_section :: "(scnhdr \<Rightarrow> bool) \<Rightarrow> scnhdr list \<Rightarrow> scnhdr option" where
  "last_section P ss = (case filter (\<lambda>s. s_size s \<noteq> 0 \<and> P s) ss of [] \<Rightarrow> None | xs \<Rightarrow> Some (last xs))"

abbreviation text_section :: "scnhdr list \<Rightarrow> scnhdr option" where "text_section \<equiv> last_section (\<lambda>s. named s ''.text'')"
abbreviation data_section :: "scnhdr list \<Rightarrow> scnhdr option" where "data_section \<equiv> last_section is_data"

definition bss_size :: "scnhdr list \<Rightarrow> 32 word" where "bss_size ss = sum_list (map s_size (filter is_bss ss))"

lemma last_section_snoc:
  "last_section P (ss @ [s]) = (if s_size s \<noteq> 0 \<and> P s then Some s else last_section P ss)"
  by (cases "filter (\<lambda>s. s_size s \<noteq> 0 \<and> P s) ss") (simp_all add: last_section_def)

lemma bss_size_snoc: "bss_size (ss @ [s]) = bss_size ss + (if is_bss s then s_size s else 0)"
  by (simp add: bss_size_def)

lemma named_second: "named s n \<Longrightarrow> 1 < length n \<Longrightarrow> s_name s ! 1 = of_nat (of_char (n ! 1))"
  unfolding named_def by (metis (no_types, lifting) One_nat_def Suc_lessD length_map lessI less_SucI nth_append nth_map nth_take)

lemma names_differ: "named s ''.text'' \<Longrightarrow> \<not> is_data s \<and> \<not> is_bss s" "is_data s \<Longrightarrow> \<not> is_bss s"
  using named_second [of s "''.text''"] named_second [of s "''.data''"] named_second [of s "''.rdata''"] named_second [of s "''.bss''"]
    named_second [of s "''.sbss''"] by (auto simp: is_data_def is_bss_def)

text \<open>\<open>placed coff out s p\<close>: the bytes of section \<open>s\<close> are at position \<open>p\<close> of the output.\<close>

definition section_bytes :: "8 word list \<Rightarrow> scnhdr \<Rightarrow> 8 word list" where
  "section_bytes coff s = take (nat (sint (s_size s))) (drop (nat (sint (s_scnptr s))) coff)"

definition placed :: "8 word list \<Rightarrow> 8 word list \<Rightarrow> scnhdr \<Rightarrow> nat \<Rightarrow> bool" where
  "placed coff out s p \<longleftrightarrow> 0 \<le> sint (s_size s) \<and> length (section_bytes coff s) = nat (sint (s_size s)) \<and> 40 \<le> p \<and>
     p + nat (sint (s_size s)) \<le> length out \<and> take (nat (sint (s_size s))) (drop p out) = section_bytes coff s"

definition segment_for :: "8 word list \<Rightarrow> 8 word list \<Rightarrow> Segment \<Rightarrow> scnhdr option \<Rightarrow> bool" where
  "segment_for coff out seg so = (case so of None \<Rightarrow> seg_size seg = 0
     | Some s \<Rightarrow> \<exists>p. seg = \<lparr>virtualAddr = s_paddr s, inFileAddr = of_nat p, seg_size = s_size s\<rparr> \<and> placed coff out s p)"

definition out_ok :: "Tool \<Rightarrow> bool" where
  "out_ok t \<longleftrightarrow> 40 \<le> out_pos t \<and> (fdOut t = [] \<and> out_pos t = 40 \<or> length (fdOut t) = out_pos t)"

fun converted :: "8 word list \<Rightarrow> scnhdr list \<Rightarrow> Tool \<times> 32 word \<times> NoffHeader \<Rightarrow> bool" where
  "converted coff ss (t, pos, h) \<longleftrightarrow> fdIn t = coff \<and> pos = of_nat (out_pos t) \<and> out_ok t \<and> noffMagic h = NOFFMAGIC \<and>
     segment_for coff (fdOut t) (noff_code h) (text_section ss) \<and> segment_for coff (fdOut t) (initData h) (data_section ss) \<and>
     seg_size (uninitData h) = bss_size ss"

lemma unix_write_append: "length f \<le> p \<Longrightarrow> unix_write f p bs = f @ replicate (p - length f) 0 @ bs"
  by (simp add: unix_write_def Let_def)

lemma placed_append: "placed coff out s p \<Longrightarrow> placed coff (out @ rest) s p"
  by (auto simp: placed_def)

lemma segment_for_append: "segment_for coff out seg so \<Longrightarrow> segment_for coff (out @ rest) seg so"
  using placed_append by (fastforce simp: segment_for_def split: option.splits)

lemma copy_bytes_ok:
  assumes "copy_bytes s t = Inr t'" "0 \<le> sint (s_scnptr s)" "out_ok t"
  shows "fdIn t' = fdIn t \<and> out_ok t' \<and> (\<exists>rest. fdOut t' = fdOut t @ rest) \<and> placed (fdIn t) (fdOut t') s (out_pos t) \<and>
    of_nat (out_pos t') = of_nat (out_pos t) + s_size s"
proof -
  let ?n = "nat (sint (s_size s))" and ?bs = "section_bytes (fdIn t) s"
  have t': "0 \<le> sint (s_size s)" "length ?bs = ?n" "fdIn t' = fdIn t" "out_pos t' = out_pos t + ?n" "fdOut t' = unix_write (fdOut t) (out_pos t) ?bs"
    using assms(1,2) by (auto simp: copy_bytes_def res_simps Read_def Write_def seek_in_def section_bytes_def Let_def split: if_splits)
  have l: "length (fdOut t) \<le> out_pos t" "40 \<le> out_pos t" using assms(3) by (auto simp: out_ok_def)
  have out: "fdOut t' = fdOut t @ replicate (out_pos t - length (fdOut t)) 0 @ ?bs" using t'(5) unix_write_append [OF l(1)] by simp
  then have "length (fdOut t') = out_pos t'" "drop (out_pos t) (fdOut t') = ?bs" using l t'(2,4) by simp_all
  moreover have "(of_nat ?n :: 32 word) = s_size s" using t'(1) by (simp add: of_nat_nat)
  moreover have "\<exists>rest. fdOut t' = fdOut t @ rest" using out by blast
  ultimately show ?thesis using t'(1-4) l by (auto simp: out_ok_def placed_def)
qed

lemma copy_section_converted:
  assumes ok: "converted coff ss x" and s: "0 \<le> sint (s_scnptr s)" and run: "copy_section s x = Inr x'"
  shows "converted coff (ss @ [s]) x'"
proof -
  obtain t pos h where x: "x = (t, pos, h)" by (cases x)
  note o = ok [unfolded x converted.simps]
  show ?thesis
  proof (cases "s_size s = 0")
    case True
    then have "x' = x" using run x by (simp add: copy_section_def)
    then show ?thesis using True ok x by (simp add: last_section_snoc bss_size_snoc)
  next
    case ne: False
    consider (code) "named s ''.text''" | (data) "is_data s" | (bss) "is_bss s" | (other) "\<not> named s ''.text''" "\<not> is_data s" "\<not> is_bss s" by blast
    then show ?thesis
    proof cases
      case code
      then obtain t1 where t1: "copy_bytes s t = Inr t1"
        "x' = (t1, pos + s_size s, h\<lparr>noff_code := \<lparr>virtualAddr = s_paddr s, inFileAddr = pos, seg_size = s_size s\<rparr>\<rparr>)"
        using run ne x by (auto simp: copy_section_def res_simps)
      then show ?thesis using copy_bytes_ok [OF t1(1) s] o code ne names_differ(1) [OF code]
        by (auto simp: last_section_snoc bss_size_snoc segment_for_append) (auto simp: segment_for_def)
    next
      case data
      then obtain t1 where t1: "copy_bytes s t = Inr t1"
        "x' = (t1, pos + s_size s, h\<lparr>initData := \<lparr>virtualAddr = s_paddr s, inFileAddr = pos, seg_size = s_size s\<rparr>\<rparr>)"
        using run ne x names_differ(1) [of s] by (auto simp: copy_section_def res_simps split: if_splits)
      then show ?thesis using copy_bytes_ok [OF t1(1) s] o data ne names_differ(1) [of s] names_differ(2) [OF data]
        by (auto simp: last_section_snoc bss_size_snoc segment_for_append) (auto simp: segment_for_def)
    next
      case bss
      then show ?thesis using run o x ne names_differ [of s]
        by (auto simp: copy_section_def last_section_snoc bss_size_snoc split: if_splits)
    next
      case other
      then show ?thesis using run ne x by (simp add: copy_section_def)
    qed
  qed
qed

lemma copy_sections_converted:
  "converted coff ss x \<Longrightarrow> \<forall>s \<in> set rs. 0 \<le> sint (s_scnptr s) \<Longrightarrow> copy_sections rs x = Inr x' \<Longrightarrow> converted coff (ss @ rs) x'"
proof (induction rs arbitrary: ss x)
  case (Cons s rs)
  obtain y where y: "copy_section s x = Inr y" "copy_sections rs y = Inr x'" using Cons.prems(3) by (auto simp: res_simps)
  have "converted coff (ss @ [s]) y" using copy_section_converted [OF Cons.prems(1) _ y(1)] Cons.prems(2) by simp
  from Cons.IH [OF this _ y(2)] show ?case using Cons.prems(2) by simp
qed simp

text \<open>The header that the loader finds in the output is the header the tool has built.\<close>

lemma noff_bytes_header: "noffMagic h = NOFFMAGIC \<Longrightarrow> noff_header big (noff_bytes big h @ rest) = h"
proof -
  assume m: "noffMagic h = NOFFMAGIC"
  let ?ws = "noffMagic h # segment_words (noff_code h) @ segment_words (initData h) @ segment_words (uninitData h)"
  let ?b = "\<lparr>numBits = 0, numWords = 0, bmap = ?ws\<rparr>"
  have "length (noff_bytes big h) = 40" by (simp add: noff_bytes_def segment_words_def)
  then have "words_of_bytes big 10 (noff_bytes big h @ rest) = ?ws"
    using words_of_bytes_prefix [of "noff_bytes big h" 10 big rest] words_of_bytes_bytes [of ?b 10 big]
    by (simp add: noff_bytes_def BitMap_bytes_def segment_words_def)
  then have "NoffHeader_of_bytes big (noff_bytes big h @ rest) = h"
    by (simp add: NoffHeader_of_bytes_def Segment_of_words_def segment_words_def Let_def)
  then show ?thesis using m by (simp add: noff_header_def Let_def)
qed

lemma Read_Inr: "Read (int n) t = Inr (bs, t') \<longleftrightarrow> bs = take n (drop (in_pos t) (fdIn t)) \<and> length bs = n \<and> t' = t\<lparr>in_pos := in_pos t + n\<rparr>"
  by (auto simp: Read_def Let_def)

lemmas Read_numeral = Read_Inr [of "numeral k" for k, simplified of_nat_numeral]

lemma coff2noff_converts:
  assumes run: "coff2noff big junk cap argc (Some coff) = Inr noff" and ptrs: "\<forall>s \<in> set (coff_sections big coff). 0 \<le> sint (s_scnptr s)"
  shows "let C = noff @ rest; h = noff_header big C; ss = coff_sections big coff in
    40 \<le> length C \<and> noffMagic h = NOFFMAGIC \<and> segment_for coff C (noff_code h) (text_section ss) \<and>
    segment_for coff C (initData h) (data_section ss) \<and> seg_size (uninitData h) = bss_size ss"
proof -
  let ?ss = "coff_sections big coff"
  let ?n = "unat (coff_ShortToHost big (f_nscns (filehdr_of_bytes big (take 20 coff))))"
  let ?x = "(\<lparr>fdIn = coff, in_pos = 76 + ?n * 40, fdOut = [], out_pos = 40, room = cap\<rparr>, 40, noff_start junk)"
  obtain t pos h where t: "copy_sections ?ss ?x = Inr (t, pos, h)" "noff = unix_write (fdOut t) 0 (noff_bytes big h)"
    using run by (auto simp: coff2noff_def Read_Inr Read_numeral Write_def coff_sections_def andThen_eq_Inr Let_def coff_sizes
        simp del: of_nat_unat of_nat_mult split: if_splits)
  have "converted coff [] ?x" by (simp add: out_ok_def noff_start_def segment_for_def last_section_def bss_size_def)
  then have c: "converted coff ?ss (t, pos, h)" using copy_sections_converted [of coff "[]" ?x ?ss, OF _ ptrs t(1)] by simp
  have l: "length (noff_bytes big h) = 40" by (simp add: noff_bytes_def segment_words_def)
  then have noff: "noff = noff_bytes big h @ drop 40 (fdOut t)" using t(2) by (simp add: unix_write_def Let_def)
  have "placed coff noff s p" if "placed coff (fdOut t) s p" for s p using that l unfolding noff placed_def by auto
  then have "segment_for coff noff g so" if "segment_for coff (fdOut t) g so" for g so
    using that by (fastforce simp: segment_for_def split: option.splits)
  moreover have "noff_header big (noff @ rest) = h" using noff_bytes_header [of h big "drop 40 (fdOut t) @ rest"] c unfolding noff by simp
  moreover have "40 \<le> length (noff @ rest)" using l noff by simp
  ultimately show ?thesis using c segment_for_append by (simp add: Let_def)
qed

section \<open>Properties\<close>

text \<open>What a COFF file asks of memory.\<close>

definition in_section :: "scnhdr \<Rightarrow> nat \<Rightarrow> bool" where
  "in_section s a \<longleftrightarrow> sint (s_paddr s) \<le> int a \<and> int a < sint (s_paddr s) + sint (s_size s)"

definition section_byte :: "8 word list \<Rightarrow> scnhdr \<Rightarrow> nat \<Rightarrow> 8 word" where
  "section_byte coff s a = coff ! (nat (sint (s_scnptr s)) + (a - nat (sint (s_paddr s))))"

definition section_size :: "scnhdr option \<Rightarrow> 32 word" where
  "section_size so = (case so of None \<Rightarrow> 0 | Some s \<Rightarrow> s_size s)"

definition coff_pages :: "scnhdr list \<Rightarrow> 32 word" where
  "coff_pages ss = divRoundUp_unsigned (section_size (text_section ss) + section_size (data_section ss) + bss_size ss) 128 +
     divRoundUp_unsigned UserStackSize 128"

definition overlay :: "8 word list \<Rightarrow> scnhdr option \<Rightarrow> (nat \<Rightarrow> 8 word) \<Rightarrow> nat \<Rightarrow> 8 word" where
  "overlay coff so mem a = (case so of None \<Rightarrow> mem a | Some s \<Rightarrow> if in_section s a then section_byte coff s a else mem a)"

definition coff_memory :: "8 word list \<Rightarrow> scnhdr list \<Rightarrow> (nat \<Rightarrow> 8 word) \<Rightarrow> nat \<Rightarrow> 8 word" where
  "coff_memory coff ss mem =
     overlay coff (data_section ss) (overlay coff (text_section ss) (\<lambda>a. if a < unat (coff_pages ss * 128) then 0 else mem a))"

definition section_ok :: "scnhdr \<Rightarrow> bool" where
  "section_ok s \<longleftrightarrow> 0 \<le> sint (s_scnptr s) \<and> 0 \<le> sint (s_paddr s) \<and> sint (s_paddr s) + sint (s_size s) \<le> MemorySize"

lemma last_section_in: "last_section P ss = Some s \<Longrightarrow> s \<in> set ss"
proof -
  let ?xs = "filter (\<lambda>s. s_size s \<noteq> 0 \<and> P s) ss"
  assume "last_section P ss = Some s"
  then have "?xs \<noteq> []" "s = last ?xs" by (cases ?xs; simp add: last_section_def)+
  then have "s \<in> set ?xs" using last_in_set by blast
  then show ?thesis by simp
qed

lemma segment_loads:
  assumes seg: "segment_for coff C g so" and len: "length C < 2 ^ 31" and ok: "\<And>s. so = Some s \<Longrightarrow> section_ok s"
  shows "segment_ok C g \<and> seg_size g = section_size so \<and> (\<lambda>a. if in_segment g a then segment_byte C g a else mem a) = overlay coff so mem"
proof (cases so)
  case None
  then show ?thesis using seg by (auto simp: segment_for_def segment_ok_def in_segment_def overlay_def section_size_def fun_eq_iff)
next
  case (Some s)
  let ?n = "nat (sint (s_size s))"
  obtain p where p: "g = \<lparr>virtualAddr = s_paddr s, inFileAddr = of_nat p, seg_size = s_size s\<rparr>" "placed coff C s p"
    using seg Some by (auto simp: segment_for_def)
  have s: "section_ok s" by (rule ok [OF Some])
  have "p < 2 ^ 31" using p(2) len by (simp add: placed_def)
  then have "unat (of_nat p :: 32 word) = p" by (simp add: unat_of_nat take_bit_nat_eq_self)
  then have ptr: "sint (of_nat p :: 32 word) = int p" using sint_small [of "of_nat p :: 32 word"] \<open>p < 2 ^ 31\<close> by simp
  have bytes: "C ! (p + i) = coff ! (nat (sint (s_scnptr s)) + i)" if "i < ?n" for i
  proof -
    have "take ?n (drop p C) ! i = section_bytes coff s ! i" "length (section_bytes coff s) = ?n" "p + ?n \<le> length C" using p(2) by (simp_all add: placed_def)
    then show ?thesis using that by (simp add: section_bytes_def)
  qed
  have seg: "in_segment g a = in_section s a" for a using p(1) by (simp add: in_segment_def in_section_def)
  have "segment_byte C g a = section_byte coff s a" if "in_section s a" for a
  proof -
    have "a - nat (sint (s_paddr s)) < ?n" using that s by (auto simp: in_section_def section_ok_def)
    then show ?thesis unfolding segment_byte_def section_byte_def using bytes p(1) ptr by simp
  qed
  then have "(\<lambda>a. if in_segment g a then segment_byte C g a else mem a) = overlay coff so mem" using Some seg by (auto simp: overlay_def fun_eq_iff)
  moreover have "segment_ok C g" using p s ptr by (auto simp: segment_ok_def section_ok_def placed_def)
  ultimately show ?thesis using p(1) Some by (simp add: section_size_def)
qed

text \<open>
  Property C17. A program survives its conversion and loading. When \<^verbatim>\<open>coff2noff\<close> accepts a COFF file whose sections lie inside memory and a file of the
  file system begins with its output, the loader of Nachos on the same host fills memory with the last text section and the data
  section of the COFF file, each at the address that the COFF file names, zeros in the rest of the address space, and leaves memory beyond it alone; the
  address space has room for text, data, uninitialised data and the stack.
\<close>

theorem coff2noff_then_load:
  assumes "coff2noff big junk cap argc (Some coff) = Inr noff" "file_content (disk_image d) (of_hdr f) = noff @ rest"
    and "sd_ready d" "hdr_ok (of_hdr f)" "\<forall>s \<in> set (coff_sections big coff). section_ok s" "coff_pages (coff_sections big coff) \<le> 32"
  shows "\<exists>sp m' d'. AddrSpace_new ReadSector big junk_words junk_slot junk_hdr f m d = Inr (sp, m', d') \<and>
    numPages sp = coff_pages (coff_sections big coff) \<and> m' = m\<lparr>mainMemory := coff_memory coff (coff_sections big coff) (mainMemory m)\<rparr>"
proof -
  let ?C = "noff @ rest" and ?ss = "coff_sections big coff"
  define h where "h = noff_header big ?C"
  have "\<forall>s \<in> set ?ss. 0 \<le> sint (s_scnptr s)" using assms(5) by (simp add: section_ok_def)
  note c = coff2noff_converts [OF assms(1) this, of rest, unfolded Let_def, folded h_def]
  have len: "length ?C < 2 ^ 31"
    using synch_disk.length_file_content [OF assms(3,4)] assms(2,4) by (auto simp: hdr_ok_def)
  have ok: "section_ok s" if "last_section P ?ss = Some s" for P s using last_section_in [OF that] assms(5) by blast
  have code: "segment_ok ?C (noff_code h)" "seg_size (noff_code h) = section_size (text_section ?ss)"
    "(\<lambda>a. if in_segment (noff_code h) a then segment_byte ?C (noff_code h) a else mem a) = overlay coff (text_section ?ss) mem" for mem
    using segment_loads [of coff ?C "noff_code h" "text_section ?ss" mem] len ok c by blast+
  have data: "segment_ok ?C (initData h)" "seg_size (initData h) = section_size (data_section ?ss)"
    "(\<lambda>a. if in_segment (initData h) a then segment_byte ?C (initData h) a else mem a) = overlay coff (data_section ?ss) mem" for mem
    using segment_loads [of coff ?C "initData h" "data_section ?ss" mem] len ok c by blast+
  have pages: "program_pages h = coff_pages ?ss" using c code data by (simp add: program_pages_def coff_pages_def)
  have mem: "program_memory ?C h mem = coff_memory coff ?ss mem" for mem
    unfolding coff_memory_def data(3) [symmetric] code(3) [symmetric] pages [symmetric] by (simp add: program_memory_def fun_eq_iff)
  obtain sp d' where "AddrSpace_new ReadSector big junk_words junk_slot junk_hdr f m d
      = Inr (sp, m\<lparr>mainMemory := program_memory ?C h (mainMemory m)\<rparr>, d')" "numPages sp = program_pages h"
    using synch_disk.AddrSpace_new_spec(2) [OF assms(3,4), of big junk_words junk_slot junk_hdr m, unfolded assms(2), folded h_def]
      assms(6) c code(1) data(1) pages by fastforce
  then show ?thesis using mem pages by simp
qed

text \<open>A small COFF file: 4 bytes of text at 0.\<close>

definition demo_coff :: "8 word list" where
  "demo_coff = [0x62, 1, 1, 0] @ replicate 16 0 @ [7, 1] @ replicate 54 0 @
     [46, 116, 101, 120, 116, 0, 0, 0] @ concat (map (word_bytes False) [0, 0, 4, 116, 0, 0, 0, 0]) @ [1, 2, 3, 4]"

definition demo_junk :: NoffHeader where
  "demo_junk = (let s = \<lparr>virtualAddr = - 1, inFileAddr = - 1, seg_size = - 1\<rparr> in \<lparr>noffMagic = 0, noff_code = s, initData = s, uninitData = s\<rparr>)"

lemma demo_coff_converted:
  "(case coff2noff False demo_junk 100 3 (Some demo_coff) of Inl e \<Rightarrow> False | Inr noff \<Rightarrow> length noff = 44)"
  by code_simp

lemma demo_coff_sections: "list_all section_ok (coff_sections False demo_coff)" "coff_pages (coff_sections False demo_coff) = 9"
  "coff_memory demo_coff (coff_sections False demo_coff) mem 2 = 3"
  by code_simp+

theorem coff2noff_then_load_witness:
  "\<exists>d sp m' d'. AddrSpace_new ReadSector False (\<lambda>_. 1) (\<lambda>_. None) [] \<lparr>of_hdr = demo_hdr, seekPosition = 0\<rparr> demo_machine d = Inr (sp, m', d') \<and>
     numPages sp = 9 \<and> mainMemory m' 2 = 3"
proof -
  let ?f = "\<lparr>of_hdr = demo_hdr, seekPosition = 0\<rparr>" and ?ss = "coff_sections False demo_coff"
  obtain noff where noff: "coff2noff False demo_junk 100 3 (Some demo_coff) = Inr noff" "length noff = 44"
    using demo_coff_converted by (auto split: sum.splits)
  have len: "length (file_content (disk_image demo_synchdisk) demo_hdr) = 200"
    using synch_disk.length_file_content [OF demo_synchdisk_ready demo_hdr_ok] by (simp add: demo_hdr_def)
  obtain d where d: "sd_ready d" "file_content (disk_image d) demo_hdr = noff @ drop 44 (file_content (disk_image demo_synchdisk) demo_hdr)"
    using synch_disk.WriteAt_spec [OF demo_synchdisk_ready, of ?f 0 44 noff "\<lambda>_. 0"] demo_hdr_ok len noff(2) by (auto simp: demo_hdr_def)
  have "\<forall>s \<in> set ?ss. section_ok s" "coff_pages ?ss \<le> 32" using demo_coff_sections(1,2) by (simp_all add: list_all_iff)
  then obtain sp m' d' where "AddrSpace_new ReadSector False (\<lambda>_. 1) (\<lambda>_. None) [] ?f demo_machine d = Inr (sp, m', d')" "numPages sp = coff_pages ?ss"
      "m' = demo_machine\<lparr>mainMemory := coff_memory demo_coff ?ss (mainMemory demo_machine)\<rparr>"
    using coff2noff_then_load [OF noff(1), where d = d and f = ?f and m = demo_machine] d demo_hdr_ok by fastforce
  then show ?thesis using demo_coff_sections(2,3) by fastforce
qed

end
