(* ===== verification/Nachos_FsTest.thy ===== *)
theory Nachos_FsTest
  imports Nachos_FileSys
begin

text \<open>
  \<^verbatim>\<open>filesys/fstest.cc\<close>: the commands of Nachos that copy a UNIX file into the file system, print a file, and write and read a file in
  small pieces. A UNIX file is its contents, \<open>None\<close> if it cannot be opened. What is printed to report a failure is a value.
\<close>

section \<open>Commands\<close>

definition TransferSize :: nat where "TransferSize = 10"

datatype fstest_report = Copy_no_input | Copy_no_output | Print_no_file | Perf_no_create | Perf_no_open | Perf_no_write | Perf_no_read | Perf_no_remove

function copy_loop ::
    "(int \<Rightarrow> 'd \<Rightarrow> (8 word list \<times> 'd) res) \<Rightarrow> (int \<Rightarrow> 8 word list \<Rightarrow> 'd \<Rightarrow> 'd res) \<Rightarrow> (nat \<Rightarrow> 8 word) \<Rightarrow> OpenFile \<Rightarrow> 8 word list \<Rightarrow>
     'd \<Rightarrow> (OpenFile \<times> 'd) res" where
  "copy_loop rd wr junk openFile fp d =
     (let buffer = take TransferSize fp; amountRead = length buffer in
      if amountRead > 0 then
        andThen (OpenFile_Write rd wr junk openFile buffer (int amountRead) d) (\<lambda>(_, openFile', d').
          copy_loop rd wr junk openFile' (drop amountRead fp) d')
      else Inr (openFile, d))"
  by pat_completeness auto
termination by (relation "measure (\<lambda>(_, _, _, _, fp, _). length fp)") auto

declare copy_loop.simps [simp del]

definition Copy ::
    "(int \<Rightarrow> 'd \<Rightarrow> (8 word list \<times> 'd) res) \<Rightarrow> (int \<Rightarrow> 8 word list \<Rightarrow> 'd \<Rightarrow> 'd res) \<Rightarrow> fresh \<Rightarrow> bool \<Rightarrow> FileSystem \<Rightarrow>
     8 word list option \<Rightarrow> 8 word list \<Rightarrow> 'd \<Rightarrow> (fstest_report option \<times> 'd) res" where
  "Copy rd wr junk big fs from_file to_name d =
     (case from_file of
        None \<Rightarrow> Inr (Some Copy_no_input, d)
      | Some fp \<Rightarrow>
          andThen (FileSystem_Create rd wr junk big fs to_name (int (length fp)) d) (\<lambda>(created, d1).
          if \<not> created then Inr (Some Copy_no_output, d1)
          else
            andThen (FileSystem_Open rd junk big fs to_name d1) (\<lambda>(openFile, d2).
            case openFile of
              None \<Rightarrow> Inl AssertFail
            | Some f \<Rightarrow> andThen (copy_loop rd wr (fresh_byte junk) f fp d2) (\<lambda>(_, d3). Inr (None, d3)))))"

text \<open>The loop of \<^verbatim>\<open>Print\<close>, with a bound on the number of rounds.\<close>

primrec print_loop :: "nat \<Rightarrow> (int \<Rightarrow> 'd \<Rightarrow> (8 word list \<times> 'd) res) \<Rightarrow> OpenFile \<Rightarrow> 'd \<Rightarrow> (8 word list \<times> 'd) res" where
  "print_loop 0 rd openFile d = Inl Diverges"
| "print_loop (Suc n) rd openFile d =
     andThen (OpenFile_Read rd openFile (int TransferSize) d) (\<lambda>(buffer, openFile', d').
       if length buffer > 0 then andThen (print_loop n rd openFile' d') (\<lambda>(out, d''). Inr (buffer @ out, d'')) else Inr ([], d'))"

definition Print ::
    "nat \<Rightarrow> (int \<Rightarrow> 'd \<Rightarrow> (8 word list \<times> 'd) res) \<Rightarrow> fresh \<Rightarrow> bool \<Rightarrow> FileSystem \<Rightarrow> 8 word list \<Rightarrow> 'd \<Rightarrow>
     ((fstest_report + 8 word list) \<times> 'd) res" where
  "Print n rd junk big fs name d =
     andThen (FileSystem_Open rd junk big fs name d) (\<lambda>(openFile, d1).
     case openFile of
       None \<Rightarrow> Inr (Inl Print_no_file, d1)
     | Some f \<Rightarrow> andThen (print_loop n rd f d1) (\<lambda>(out, d2). Inr (Inr out, d2)))"

definition Perf_FileName :: "8 word list" where "Perf_FileName = [84, 101, 115, 116, 70, 105, 108, 101]" \<comment> \<open>\<^verbatim>\<open>TestFile\<close>\<close>
definition Contents :: "8 word list" where "Contents = [49, 50, 51, 52, 53, 54, 55, 56, 57, 48]"
definition Perf_FileSize :: nat where "Perf_FileSize = length Contents * 5000"

primrec write_loop ::
    "nat \<Rightarrow> (int \<Rightarrow> 'd \<Rightarrow> (8 word list \<times> 'd) res) \<Rightarrow> (int \<Rightarrow> 8 word list \<Rightarrow> 'd \<Rightarrow> 'd res) \<Rightarrow> (nat \<Rightarrow> 8 word) \<Rightarrow> OpenFile \<Rightarrow> 'd \<Rightarrow>
     (fstest_report option \<times> 'd) res" where
  "write_loop 0 rd wr junk openFile d = Inr (None, d)"
| "write_loop (Suc n) rd wr junk openFile d =
     andThen (OpenFile_Write rd wr junk openFile Contents (int (length Contents)) d) (\<lambda>(numBytes, openFile', d').
       if numBytes < 10 then Inr (Some Perf_no_write, d') else write_loop n rd wr junk openFile' d')"

definition FileWrite ::
    "(int \<Rightarrow> 'd \<Rightarrow> (8 word list \<times> 'd) res) \<Rightarrow> (int \<Rightarrow> 8 word list \<Rightarrow> 'd \<Rightarrow> 'd res) \<Rightarrow> fresh \<Rightarrow> bool \<Rightarrow> FileSystem \<Rightarrow>
     'd \<Rightarrow> (fstest_report option \<times> 'd) res" where
  "FileWrite rd wr junk big fs d =
     andThen (FileSystem_Create rd wr junk big fs Perf_FileName 0 d) (\<lambda>(created, d1).
     if \<not> created then Inr (Some Perf_no_create, d1)
     else
       andThen (FileSystem_Open rd junk big fs Perf_FileName d1) (\<lambda>(openFile, d2).
       case openFile of
         None \<Rightarrow> Inr (Some Perf_no_open, d2)
       | Some f \<Rightarrow> write_loop (Perf_FileSize div length Contents) rd wr (fresh_byte junk) f d2))"

primrec read_loop :: "nat \<Rightarrow> (int \<Rightarrow> 'd \<Rightarrow> (8 word list \<times> 'd) res) \<Rightarrow> OpenFile \<Rightarrow> 'd \<Rightarrow> (fstest_report option \<times> 'd) res" where
  "read_loop 0 rd openFile d = Inr (None, d)"
| "read_loop (Suc n) rd openFile d =
     andThen (OpenFile_Read rd openFile (int (length Contents)) d) (\<lambda>(buffer, openFile', d').
       if length buffer < 10 \<or> buffer \<noteq> Contents then Inr (Some Perf_no_read, d') else read_loop n rd openFile' d')"

definition FileRead ::
    "(int \<Rightarrow> 'd \<Rightarrow> (8 word list \<times> 'd) res) \<Rightarrow> fresh \<Rightarrow> bool \<Rightarrow> FileSystem \<Rightarrow> 'd \<Rightarrow> (fstest_report option \<times> 'd) res" where
  "FileRead rd junk big fs d =
     andThen (FileSystem_Open rd junk big fs Perf_FileName d) (\<lambda>(openFile, d1).
     case openFile of
       None \<Rightarrow> Inr (Some Perf_no_open, d1)
     | Some f \<Rightarrow> read_loop (Perf_FileSize div length Contents) rd f d1)"

text \<open>The reports of the three parts, in order.\<close>

definition PerformanceTest ::
    "(int \<Rightarrow> 'd \<Rightarrow> (8 word list \<times> 'd) res) \<Rightarrow> (int \<Rightarrow> 8 word list \<Rightarrow> 'd \<Rightarrow> 'd res) \<Rightarrow> fresh \<Rightarrow> bool \<Rightarrow> FileSystem \<Rightarrow>
     'd \<Rightarrow> (fstest_report option list \<times> 'd) res" where
  "PerformanceTest rd wr junk big fs d =
     andThen (FileWrite rd wr junk big fs d) (\<lambda>(w, d1).
     andThen (FileRead rd junk big fs d1) (\<lambda>(r, d2).
     andThen (FileSystem_Remove rd wr junk big fs Perf_FileName d2) (\<lambda>(removed, d3).
       Inr ([w, r, if removed then None else Some Perf_no_remove], d3))))"

section \<open>Files through a handle\<close>

text \<open>The open file \<open>f\<close> is the file under key \<open>k\<close>.\<close>

definition handle_for :: "bool \<Rightarrow> (int \<Rightarrow> 8 word list) \<Rightarrow> FileSystem \<Rightarrow> 8 word list \<Rightarrow> OpenFile \<Rightarrow> bool" where
  "handle_for big sec fs k f \<longleftrightarrow> (\<exists>s. dir_map (fs_dir big sec fs) k = Some s \<and> of_hdr f = header_at big sec s)"

lemma handle_content: "handle_for big sec fs k f \<Longrightarrow> fs_files big sec fs k = Some (file_content sec (of_hdr f))"
  by (auto simp: handle_for_def fs_files_def)

lemma handle_hdr: "fs_ok big sec fs \<Longrightarrow> handle_for big sec fs k f \<Longrightarrow> hdr_ok (of_hdr f)"
  using dir_map_Some fs_ok_entry(1) by (fastforce simp: handle_for_def)

lemma handle_seek: "handle_for big sec fs k (f\<lparr>seekPosition := p\<rparr>) = handle_for big sec fs k f"
  by (simp add: handle_for_def)

lemma fs_files_same:
  assumes ok: "fs_ok big sec fs" and same: "same_sectors sec sec'"
  shows "fs_ok big sec' fs" "fs_files big sec' fs = fs_files big sec fs" "handle_for big sec fs k f \<Longrightarrow> handle_for big sec' fs k f"
proof -
  have dir: "fs_dir big sec' fs = fs_dir big sec fs" and fm: "fs_map big sec' fs = fs_map big sec fs"
    using ok same by (simp_all add: fs_ok_def fs_dir_def fs_map_def file_content_same)
  have u: "unchanged_but ({} \<union> meta_sectors fs) sec sec'" using same by (simp add: same_sectors_def unchanged_but_def)
  note e = fs_unchanged_entry [OF ok u] fs_unchanged_system [OF ok u]
  have "map (entry_sectors big sec') (used_entries (fs_dir big sec fs)) = map (entry_sectors big sec) (used_entries (fs_dir big sec fs))"
    by (intro map_cong refl e(2)) simp_all
  then show "fs_ok big sec' fs" using ok e by (simp add: fs_ok_def dir fm fs_sectors_def list_all_iff del: map_eq_conv)
  have same': "header_at big sec' s = header_at big sec s" "file_content sec' (header_at big sec s) = file_content sec (header_at big sec s)"
    if "dir_map (fs_dir big sec fs) j = Some s" for j s
    using dir_map_Some [OF that] e(1,3) by auto
  have "fs_files big sec' fs j = fs_files big sec fs j" for j
    using same' [of j] by (cases "dir_map (fs_dir big sec fs) j") (simp_all add: fs_files_def dir)
  then show "fs_files big sec' fs = fs_files big sec fs" by blast
  show "handle_for big sec fs k f \<Longrightarrow> handle_for big sec' fs k f" using same'(1) by (auto simp: handle_for_def dir)
qed

context sector_store
begin

lemma handle_read:
  assumes "good d" "hdr_ok (of_hdr f)" "seekPosition f = int p" "int p + int n < 2 ^ 31"
  shows "\<exists>d'. OpenFile_Read rd f (int n) d = Inr (take n (drop p (file_content (sector d) (of_hdr f))),
      f\<lparr>seekPosition := int (p + min n (nat (fh_numBytes (of_hdr f)) - p))\<rparr>, d') \<and> good d' \<and> same_sectors (sector d) (sector d')"
  using ReadAt_spec [OF assms(1,2) _ assms(4)] assms(3) length_file_content [OF assms(1,2)] unfolding OpenFile_Read_def by (auto simp: min.commute)

lemma handle_write:
  assumes "good d" "fs_ok big (sector d) fs" "handle_for big (sector d) fs k f" "seekPosition f = int p" "int p + n < 2 ^ 31" "nat n \<le> length bs"
    and C: "fs_files big (sector d) fs k = Some C"
  defines "m \<equiv> min (nat n) (length C - p)"
  shows "\<exists>d'. OpenFile_Write rd wr junk f bs n d = Inr (int m, f\<lparr>seekPosition := int (p + m)\<rparr>, d') \<and> good d' \<and>
    fs_ok big (sector d') fs \<and> handle_for big (sector d') fs k f \<and>
    fs_files big (sector d') fs = (fs_files big (sector d) fs)(k \<mapsto> take p C @ take m bs @ drop (p + m) C)"
proof -
  obtain e where e: "e \<in> set (used_entries (fs_dir big (sector d) fs))" "entry_key e = k" and s: "dir_map (fs_dir big (sector d) fs) k = Some (de_sector e)"
      and h: "of_hdr f = header_at big (sector d) (de_sector e)"
    using assms(3) dir_map_Some unfolding handle_for_def by metis
  have ok: "hdr_ok (of_hdr f)" by (rule handle_hdr [OF assms(2,3)])
  have C': "file_content (sector d) (of_hdr f) = C" using handle_content [OF assms(3)] C by simp
  have len: "length C = nat (fh_numBytes (of_hdr f))" using length_file_content [OF assms(1) ok] C' by simp
  obtain d' where d': "WriteAt rd wr junk f bs n (int p) d = Inr (int m, d')" "good d'"
      "file_content (sector d') (of_hdr f) = take p C @ take m bs @ drop (p + m) C"
      "unchanged_but (set (file_sectors (of_hdr f))) (sector d) (sector d')"
    using WriteAt_spec [OF assms(1) ok _ assms(5,6), of junk] unfolding unchanged_but_def m_def len C' by auto
  note fs2 = fs_ok_data [OF assms(2) e(1) d'(4) [unfolded h], unfolded e(2)]
  have "fs_files big (sector d') fs = (fs_files big (sector d) fs)(k \<mapsto> take p C @ take m bs @ drop (p + m) C)"
    using fs2(4) s fs2(3) d'(3) h by (auto simp: fun_eq_iff fs_files_def fs2(2))
  moreover have "handle_for big (sector d') fs k f" using s h fs2(2,3) by (simp add: handle_for_def)
  ultimately show ?thesis using d'(1,2) fs2(1) assms(4) by (simp add: OpenFile_Write_def)
qed

lemma copy_loop_copies:
  assumes "good d" "fs_ok big (sector d) fs" "handle_for big (sector d) fs k f" "seekPosition f = int p" "fs_files big (sector d) fs k = Some C"
    and "p + length fp \<le> length C"
  shows "\<exists>f' d'. copy_loop rd wr junk f fp d = Inr (f', d') \<and> good d' \<and> fs_ok big (sector d') fs \<and>
    fs_files big (sector d') fs = (fs_files big (sector d) fs)(k \<mapsto> take p C @ fp @ drop (p + length fp) C)"
  using assms
proof (induction fp arbitrary: f d p C rule: measure_induct_rule [of length])
  case (less fp)
  define a where "a = length (take TransferSize fp)"
  show ?case
  proof (cases "fp = []")
    case True
    then show ?thesis using less.prems by (auto simp: copy_loop.simps fun_upd_idem)
  next
    case False
    have a: "0 < a" "a \<le> length fp" "take TransferSize fp = take a fp" "length (take a fp) = a" using False by (simp_all add: a_def TransferSize_def min_def)
    have ok: "hdr_ok (of_hdr f)" by (rule handle_hdr [OF less.prems(2,3)])
    have len: "length C = nat (fh_numBytes (of_hdr f))"
      using length_file_content [OF less.prems(1) ok] handle_content [OF less.prems(3)] less.prems(5) by simp
    have small: "int p + int a < 2 ^ 31" using ok len less.prems(6) a(2) by (auto simp: hdr_ok_def)
    let ?C1 = "take p C @ take a fp @ drop (p + a) C"
    have m: "min a (length C - p) = a" using less.prems(6) a(2) by linarith
    obtain d1 where d1: "OpenFile_Write rd wr junk f (take a fp) (int a) d = Inr (int a, f\<lparr>seekPosition := int (p + a)\<rparr>, d1)" "good d1"
        "fs_ok big (sector d1) fs" "handle_for big (sector d1) fs k f" "fs_files big (sector d1) fs = (fs_files big (sector d) fs)(k \<mapsto> ?C1)"
      using handle_write [OF less.prems(1-4) small _ less.prems(5), of "take a fp" junk] m a(2) by auto
    have C1: "take (p + a) ?C1 = take p C @ take a fp" "drop (p + a + length (drop a fp)) ?C1 = drop (p + length fp) C" "length ?C1 = length C"
      using less.prems(6) a(2) by (auto simp: add.commute)
    have len': "length (drop a fp) < length fp" "p + a + length (drop a fp) \<le> length ?C1" using a(1,2) less.prems(6) C1(3) by simp_all
    have files: "fs_files big (sector d1) fs k = Some ?C1" using d1(5) by simp
    have h: "handle_for big (sector d1) fs k (f\<lparr>seekPosition := int (p + a)\<rparr>)" "seekPosition (f\<lparr>seekPosition := int (p + a)\<rparr>) = int (p + a)"
      using d1(4) by (simp_all add: handle_seek)
    obtain f' d' where d': "copy_loop rd wr junk (f\<lparr>seekPosition := int (p + a)\<rparr>) (drop a fp) d1 = Inr (f', d')" "good d'" "fs_ok big (sector d') fs"
        "fs_files big (sector d') fs = (fs_files big (sector d1) fs)(k \<mapsto> take (p + a) ?C1 @ drop a fp @ drop (p + a + length (drop a fp)) ?C1)"
      using less.IH [OF len'(1) d1(2,3) h files len'(2)] by blast
    have "take p C @ fp @ drop (p + length fp) C = take (p + a) ?C1 @ drop a fp @ drop (p + a + length (drop a fp)) ?C1" unfolding C1(1,2) by simp
    moreover have "copy_loop rd wr junk f fp d = Inr (f', d')"
      unfolding copy_loop.simps [of rd wr junk f fp] Let_def a(3,4) d1(1) andThen_Inr prod.case using a(1) d'(1) by simp
    ultimately show ?thesis using d' d1(5) by (metis fun_upd_upd)
  qed
qed

lemma print_loop_prints:
  assumes "good d" "hdr_ok (of_hdr f)" "seekPosition f = int p" "nat (fh_numBytes (of_hdr f)) < p + n" "p \<le> nat (fh_numBytes (of_hdr f))"
  shows "\<exists>d'. print_loop n rd f d = Inr (drop p (file_content (sector d) (of_hdr f)), d') \<and> good d' \<and> same_sectors (sector d) (sector d')"
  using assms
proof (induction n arbitrary: f d p)
  case 0
  then show ?case by simp
next
  case (Suc n)
  let ?C = "file_content (sector d) (of_hdr f)" and ?L = "nat (fh_numBytes (of_hdr f))"
  have len: "length ?C = ?L" by (rule length_file_content [OF Suc.prems(1,2)])
  have small: "int p + int TransferSize < 2 ^ 31" using Suc.prems(2,5) by (auto simp: hdr_ok_def TransferSize_def)
  obtain d1 where d1: "OpenFile_Read rd f (int TransferSize) d = Inr (take TransferSize (drop p ?C), f\<lparr>seekPosition := int (p + min TransferSize (?L - p))\<rparr>, d1)"
      "good d1" "same_sectors (sector d) (sector d1)"
    using handle_read [OF Suc.prems(1-3) small] by blast
  show ?case
  proof (cases "p = ?L")
    case True
    then show ?thesis using d1 len by (simp add: TransferSize_def)
  next
    case False
    let ?q = "p + min TransferSize (?L - p)"
    have q: "p < ?q" "?q \<le> ?L" using False Suc.prems(5) by (auto simp: TransferSize_def)
    obtain d' where d': "print_loop n rd (f\<lparr>seekPosition := int ?q\<rparr>) d1 = Inr (drop ?q (file_content (sector d1) (of_hdr f)), d')" "good d'"
        "same_sectors (sector d1) (sector d')"
      using Suc.IH [of d1 "f\<lparr>seekPosition := int ?q\<rparr>" ?q] d1(2) Suc.prems(2,4) q by auto
    have "take TransferSize (drop p ?C) @ drop ?q ?C = drop p ?C"
      using append_take_drop_id [of TransferSize "drop p ?C"] len by (auto simp: min_def add.commute)
    moreover have "take TransferSize (drop p ?C) \<noteq> []" using False Suc.prems(5) len by (simp add: TransferSize_def)
    ultimately show ?thesis
      using d1(1) d' file_content_same [OF Suc.prems(2) d1(3)] same_sectors_trans [OF d1(3) d'(3)] by simp
  qed
qed

lemma Open_handle:
  assumes "good d" "fs_ok big (sector d) fs" "fs_files big (sector d) fs (cstr FileNameMaxLen name) = Some C"
  shows "\<exists>f d'. FileSystem_Open rd junk big fs name d = Inr (Some f, d') \<and> seekPosition f = int 0 \<and> good d' \<and> fs_ok big (sector d') fs \<and>
    same_sectors (sector d) (sector d') \<and> handle_for big (sector d') fs (cstr FileNameMaxLen name) f \<and>
    fs_files big (sector d') fs = fs_files big (sector d) fs"
proof -
  let ?k = "cstr FileNameMaxLen name"
  obtain s where s: "dir_map (fs_dir big (sector d) fs) ?k = Some s" using assms(3) by (auto simp: fs_files_def)
  let ?f = "\<lparr>of_hdr = header_at big (sector d) s, seekPosition = 0\<rparr>"
  obtain d' where d': "FileSystem_Open rd junk big fs name d = Inr (Some ?f, d')" "good d'" "same_sectors (sector d) (sector d')"
    using Open_spec [OF assms(1,2), of junk name] s by auto
  have "handle_for big (sector d) fs ?k ?f" using s by (simp add: handle_for_def)
  then have "handle_for big (sector d') fs ?k ?f" by (rule fs_files_same(3) [OF assms(2) d'(3)])
  then show ?thesis using d' fs_files_same(1,2) [OF assms(2) d'(3)] by (intro exI [of _ ?f] exI [of _ d']) simp
qed

lemma Open_missing:
  assumes "good d" "fs_ok big (sector d) fs" "fs_files big (sector d) fs (cstr FileNameMaxLen name) = None"
  shows "\<exists>d'. FileSystem_Open rd junk big fs name d = Inr (None, d') \<and> good d' \<and> same_sectors (sector d) (sector d')"
  using Open_spec [OF assms(1,2), of junk name] assms(3) by (simp add: fs_files_def)

lemma Copy_spec:
  assumes "good d" "fs_ok big (sector d) fs" "int (length fp) \<le> MaxFileSize" "hdr_rep (fresh_hdr junk)"
    and "fs_files big (sector d) fs (cstr FileNameMaxLen to_name) = None" "\<not> list_all inUse (table (fs_dir big (sector d) fs))"
      "1 + divRoundUp (int (length fp)) SectorSize \<le> int (card (free_sectors (fs_map big (sector d) fs)))"
  shows "\<exists>d'. Copy rd wr junk big fs (Some fp) to_name d = Inr (None, d') \<and> good d' \<and> fs_ok big (sector d') fs \<and>
    fs_files big (sector d') fs = (fs_files big (sector d) fs)(cstr FileNameMaxLen to_name \<mapsto> fp)"
proof -
  let ?k = "cstr FileNameMaxLen to_name"
  have "dir_map (fs_dir big (sector d) fs) ?k = None" using assms(5) by (simp add: fs_files_def)
  then obtain d1 C where d1: "FileSystem_Create rd wr junk big fs to_name (int (length fp)) d = Inr (True, d1)" "good d1" "fs_ok big (sector d1) fs"
      "length C = length fp" "fs_files big (sector d1) fs = (fs_files big (sector d) fs)(?k \<mapsto> C)"
    using Create_succeeds [OF assms(1,2) _ assms(3,4) _ assms(6,7), where name = to_name] by auto
  have C: "fs_files big (sector d1) fs ?k = Some C" using d1(5) by simp
  obtain f d2 where d2: "FileSystem_Open rd junk big fs to_name d1 = Inr (Some f, d2)" "seekPosition f = int 0" "good d2" "fs_ok big (sector d2) fs"
      "handle_for big (sector d2) fs ?k f" "fs_files big (sector d2) fs = fs_files big (sector d1) fs"
    using Open_handle [OF d1(2,3) C, of junk] by blast
  obtain f' d3 where "copy_loop rd wr (fresh_byte junk) f fp d2 = Inr (f', d3)" "good d3" "fs_ok big (sector d3) fs"
      "fs_files big (sector d3) fs = (fs_files big (sector d2) fs)(?k \<mapsto> fp)"
    using copy_loop_copies [OF d2(3,4,5,2), of C fp "fresh_byte junk"] C d2(6) d1(4) by auto
  then show ?thesis using d1(1,5) d2(1,6) by (simp add: Copy_def)
qed

lemma Print_spec:
  assumes "good d" "fs_ok big (sector d) fs" "fs_files big (sector d) fs (cstr FileNameMaxLen name) = Some C" "length C < n"
  shows "\<exists>d'. Print n rd junk big fs name d = Inr (Inr C, d') \<and> good d' \<and> same_sectors (sector d) (sector d')"
proof -
  obtain f d1 where d1: "FileSystem_Open rd junk big fs name d = Inr (Some f, d1)" "seekPosition f = int 0" "good d1" "fs_ok big (sector d1) fs"
      "same_sectors (sector d) (sector d1)" "handle_for big (sector d1) fs (cstr FileNameMaxLen name) f" "fs_files big (sector d1) fs = fs_files big (sector d) fs"
    using Open_handle [OF assms(1-3), of junk] by blast
  have C: "file_content (sector d1) (of_hdr f) = C" using handle_content [OF d1(6)] d1(7) assms(3) by simp
  have ok: "hdr_ok (of_hdr f)" by (rule handle_hdr [OF d1(4,6)])
  obtain d2 where "print_loop n rd f d1 = Inr (C, d2)" "good d2" "same_sectors (sector d1) (sector d2)"
    using print_loop_prints [OF d1(3) ok d1(2), of n] length_file_content [OF d1(3) ok] C assms(4) by auto
  then show ?thesis using d1(1) same_sectors_trans [OF d1(5)] by (auto simp: Print_def)
qed

lemma divRoundUp_0: "divRoundUp 0 SectorSize = 0" by (simp add: divRoundUp_def SectorSize_def)

lemma Perf_rounds: obtains n where "Perf_FileSize div length Contents = Suc n"
proof
  show "Perf_FileSize div length Contents = Suc 4999" by (simp add: Perf_FileSize_def Contents_def)
qed

lemma PerformanceTest_no_room:
  assumes "good d" "fs_ok big (sector d) fs" "hdr_rep (fresh_hdr junk)" "fs_files big (sector d) fs (cstr FileNameMaxLen Perf_FileName) = None"
    and "list_all inUse (table (fs_dir big (sector d) fs)) \<or> card (free_sectors (fs_map big (sector d) fs)) = 0"
  shows "\<exists>d'. PerformanceTest rd wr junk big fs d = Inr ([Some Perf_no_create, Some Perf_no_open, Some Perf_no_remove], d') \<and> good d' \<and>
    same_sectors (sector d) (sector d')"
proof -
  have room: "list_all inUse (table (fs_dir big (sector d) fs)) \<or>
      int (card (free_sectors (fs_map big (sector d) fs))) < 1 + divRoundUp 0 SectorSize"
    using assms(5) unfolding divRoundUp_0 by linarith
  obtain d1 where d1: "FileSystem_Create rd wr junk big fs Perf_FileName 0 d = Inr (False, d1)" "good d1" "same_sectors (sector d) (sector d1)"
    using Create_fails [OF assms(1,2) _ assms(3), of 0 Perf_FileName] room by auto
  note fs1 = fs_files_same [OF assms(2) d1(3)]
  obtain d2 where d2: "FileSystem_Open rd junk big fs Perf_FileName d1 = Inr (None, d2)" "good d2" "same_sectors (sector d1) (sector d2)"
    using Open_missing [OF d1(2) fs1(1)] fs1(2) assms(4) by metis
  note fs2 = fs_files_same [OF fs1(1) d2(3)]
  have "fs_files big (sector d2) fs (cstr FileNameMaxLen Perf_FileName) = None" using assms(4) fs2(2) fs1(2) by simp
  then have "dir_map (fs_dir big (sector d2) fs) (cstr FileNameMaxLen Perf_FileName) = None" by (simp add: fs_files_def)
  then obtain d3 where "FileSystem_Remove rd wr junk big fs Perf_FileName d2 = Inr (False, d3)" "good d3" "same_sectors (sector d2) (sector d3)"
    using Remove_missing [OF d2(2) fs2(1)] by blast
  then show ?thesis using d1(1) d2(1) same_sectors_trans [OF same_sectors_trans [OF d1(3) d2(3)]]
    by (auto simp: PerformanceTest_def FileWrite_def FileRead_def)
qed

lemma FileWrite_fails:
  assumes "good d" "fs_ok big (sector d) fs" "hdr_rep (fresh_hdr junk)" "fs_files big (sector d) fs (cstr FileNameMaxLen Perf_FileName) = None"
    and "\<not> list_all inUse (table (fs_dir big (sector d) fs))" "card (free_sectors (fs_map big (sector d) fs)) \<noteq> 0"
  shows "\<exists>d'. FileWrite rd wr junk big fs d = Inr (Some Perf_no_write, d') \<and> good d' \<and> fs_ok big (sector d') fs \<and>
    fs_files big (sector d') fs = (fs_files big (sector d) fs)(cstr FileNameMaxLen Perf_FileName \<mapsto> [])"
proof -
  let ?k = "cstr FileNameMaxLen Perf_FileName"
  have "1 + divRoundUp 0 SectorSize \<le> int (card (free_sectors (fs_map big (sector d) fs)))" using assms(6) unfolding divRoundUp_0 by linarith
  moreover have "dir_map (fs_dir big (sector d) fs) ?k = None" using assms(4) by (simp add: fs_files_def)
  ultimately obtain d1 where d1: "FileSystem_Create rd wr junk big fs Perf_FileName 0 d = Inr (True, d1)" "good d1" "fs_ok big (sector d1) fs"
      "fs_files big (sector d1) fs = (fs_files big (sector d) fs)(?k \<mapsto> [])"
    using Create_succeeds [OF assms(1,2) _ _ assms(3) _ assms(5), where name = Perf_FileName and initialSize = 0] by auto
  have C: "fs_files big (sector d1) fs ?k = Some []" using d1(4) by simp
  obtain f d2 where d2: "FileSystem_Open rd junk big fs Perf_FileName d1 = Inr (Some f, d2)" "seekPosition f = int 0" "good d2" "fs_ok big (sector d2) fs"
      "handle_for big (sector d2) fs ?k f" "fs_files big (sector d2) fs = fs_files big (sector d1) fs"
    using Open_handle [OF d1(2,3) C, of junk] by blast
  obtain d3 where "OpenFile_Write rd wr (fresh_byte junk) f Contents (int (length Contents)) d2 = Inr (0, f\<lparr>seekPosition := 0\<rparr>, d3)" "good d3"
      "fs_ok big (sector d3) fs" "fs_files big (sector d3) fs = fs_files big (sector d2) fs"
    using handle_write [OF d2(3,4,5,2), of "int (length Contents)" Contents "[]" "fresh_byte junk"] C d2(6) by (auto simp: Contents_def fun_upd_idem)
  moreover obtain n where "Perf_FileSize div length Contents = Suc n" by (rule Perf_rounds)
  ultimately show ?thesis using d1 d2(1,6) by (auto simp: FileWrite_def)
qed

lemma PerformanceTest_room:
  assumes "good d" "fs_ok big (sector d) fs" "hdr_rep (fresh_hdr junk)" "fs_files big (sector d) fs (cstr FileNameMaxLen Perf_FileName) = None"
    and "\<not> list_all inUse (table (fs_dir big (sector d) fs))" "card (free_sectors (fs_map big (sector d) fs)) \<noteq> 0"
  shows "\<exists>d'. PerformanceTest rd wr junk big fs d = Inr ([Some Perf_no_write, Some Perf_no_read, None], d') \<and> good d' \<and>
    fs_ok big (sector d') fs \<and> fs_files big (sector d') fs = fs_files big (sector d) fs"
proof -
  let ?k = "cstr FileNameMaxLen Perf_FileName"
  obtain d1 where d1: "FileWrite rd wr junk big fs d = Inr (Some Perf_no_write, d1)" "good d1" "fs_ok big (sector d1) fs"
      "fs_files big (sector d1) fs = (fs_files big (sector d) fs)(?k \<mapsto> [])"
    using FileWrite_fails [OF assms] by blast
  have C: "fs_files big (sector d1) fs ?k = Some []" using d1(4) by simp
  obtain f d2 where d2: "FileSystem_Open rd junk big fs Perf_FileName d1 = Inr (Some f, d2)" "seekPosition f = int 0" "good d2" "fs_ok big (sector d2) fs"
      "handle_for big (sector d2) fs ?k f" "fs_files big (sector d2) fs = fs_files big (sector d1) fs"
    using Open_handle [OF d1(2,3) C, of junk] by blast
  have "file_content (sector d2) (of_hdr f) = []" using handle_content [OF d2(5)] d2(6) C by simp
  then obtain g d3 where d3: "OpenFile_Read rd f (int (length Contents)) d2 = Inr ([], g, d3)" "good d3" "same_sectors (sector d2) (sector d3)"
    using handle_read [OF d2(3) handle_hdr [OF d2(4,5)] d2(2), of "length Contents"] by (auto simp: Contents_def)
  obtain n where "Perf_FileSize div length Contents = Suc n" by (rule Perf_rounds)
  then have read: "FileRead rd junk big fs d1 = Inr (Some Perf_no_read, d3)" using d2(1) d3(1) by (simp add: FileRead_def)
  note fs3 = fs_files_same [OF d2(4) d3(3)]
  have "fs_files big (sector d3) fs ?k = Some []" using fs3(2) d2(6) C by simp
  then obtain s where "dir_map (fs_dir big (sector d3) fs) ?k = Some s" by (auto simp: fs_files_def)
  then obtain d4 where "FileSystem_Remove rd wr junk big fs Perf_FileName d3 = Inr (True, d4)" "good d4" "fs_ok big (sector d4) fs"
      "fs_files big (sector d4) fs = (fs_files big (sector d3) fs)(?k := None)"
    using Remove_present [OF d3(2) fs3(1)] by blast
  then show ?thesis using d1(1,4) read fs3(2) d2(6) assms(4) by (auto simp: PerformanceTest_def fun_upd_idem)
qed

end

section \<open>Properties\<close>

text \<open>
  Property C18. Copying a UNIX file of at most \<^verbatim>\<open>MaxFileSize\<close> bytes into Nachos, ten bytes at a time, and printing it gives the file back: unless the
  name is taken, the directory is full or the disk has too few free sectors, which \<^verbatim>\<open>Copy\<close> reports without changing the disk, the file system is
  well formed afterwards, it has the new file with exactly these bytes and all other files as before, and \<^verbatim>\<open>Print\<close> outputs the bytes and stops. No assertion
  fails.
\<close>

theorem copy_then_print:
  assumes "sd_ready d" "fs_ok big (disk_image d) fs" "int (length bytes) \<le> MaxFileSize" "hdr_rep (fresh_hdr junk)" "length bytes < rounds"
  shows "if fs_files big (disk_image d) fs (cstr FileNameMaxLen name) \<noteq> None \<or> list_all inUse (table (fs_dir big (disk_image d) fs)) \<or>
      int (card (free_sectors (fs_map big (disk_image d) fs))) < 1 + divRoundUp (int (length bytes)) SectorSize
    then \<exists>d'. Copy ReadSector WriteSector junk big fs (Some bytes) name d = Inr (Some Copy_no_output, d') \<and> sd_ready d' \<and>
      same_sectors (disk_image d) (disk_image d')
    else \<exists>d' d''. Copy ReadSector WriteSector junk big fs (Some bytes) name d = Inr (None, d') \<and> sd_ready d' \<and> fs_ok big (disk_image d') fs \<and>
      fs_files big (disk_image d') fs = (fs_files big (disk_image d) fs)(cstr FileNameMaxLen name \<mapsto> bytes) \<and>
      Print rounds ReadSector junk big fs name d' = Inr (Inr bytes, d'') \<and> sd_ready d'' \<and> same_sectors (disk_image d') (disk_image d'')"
    (is "if ?none then ?fail else ?success")
proof -
  have dir: "fs_files big (disk_image d) fs (cstr FileNameMaxLen name) = None \<longleftrightarrow>
      dir_map (fs_dir big (disk_image d) fs) (cstr FileNameMaxLen name) = None" by (simp add: fs_files_def)
  have ?fail if ?none
    using synch_disk.Create_fails [OF assms(1,2) _ assms(4), of "int (length bytes)" name] that [unfolded dir] by (auto simp: Copy_def)
  moreover have ?success if room: "\<not> ?none"
  proof -
    obtain d' where d': "Copy ReadSector WriteSector junk big fs (Some bytes) name d = Inr (None, d')" "sd_ready d'" "fs_ok big (disk_image d') fs"
        "fs_files big (disk_image d') fs = (fs_files big (disk_image d) fs)(cstr FileNameMaxLen name \<mapsto> bytes)"
      using synch_disk.Copy_spec [OF assms(1-4), of name] room unfolding de_Morgan_disj not_not not_less by metis
    then show ?thesis using synch_disk.Print_spec [OF d'(2,3), of name bytes rounds junk] assms(5) by fastforce
  qed
  ultimately show ?thesis by simp
qed

theorem copy_then_print_witness:
  "\<exists>fs d d' d''. Copy ReadSector WriteSector demo_fresh True fs (Some (replicate 2000 7)) [97] d = Inr (None, d') \<and>
     Print 3000 ReadSector demo_fresh True fs [97] d' = Inr (Inr (replicate 2000 7), d'')"
proof -
  obtain fs d where d: "sd_ready d" "fs_ok True (disk_image d) fs" "fs_files True (disk_image d) fs = Map.empty"
    using demo_formatted by metis
  have "divRoundUp 2000 SectorSize = 16" by (simp add: divRoundUp_def SectorSize_def)
  then show ?thesis
    using copy_then_print [OF d(1,2), where bytes = "replicate 2000 7" and junk = demo_fresh and name = "[97]" and rounds = 3000]
      demo_fresh_ok(1) empty_fs_room [OF d(2,3)] d(3) by auto
qed

text \<open>
  The performance test cannot succeed on this file system: files do not grow, so after creating \<^verbatim>\<open>TestFile\<close> with 0 bytes the first write is
  refused, the first read finds nothing, and only the removal works; all three reports are printed and the files are as before. If the file
  cannot be created, all three parts report a failure and the disk is unchanged.
\<close>

theorem performance_test_fails:
  assumes "sd_ready d" "fs_ok big (disk_image d) fs" "hdr_rep (fresh_hdr junk)" "fs_files big (disk_image d) fs (cstr FileNameMaxLen Perf_FileName) = None"
  shows "if list_all inUse (table (fs_dir big (disk_image d) fs)) \<or> card (free_sectors (fs_map big (disk_image d) fs)) = 0
    then \<exists>d'. PerformanceTest ReadSector WriteSector junk big fs d = Inr ([Some Perf_no_create, Some Perf_no_open, Some Perf_no_remove], d') \<and>
      sd_ready d' \<and> same_sectors (disk_image d) (disk_image d')
    else \<exists>d'. PerformanceTest ReadSector WriteSector junk big fs d = Inr ([Some Perf_no_write, Some Perf_no_read, None], d') \<and>
      sd_ready d' \<and> fs_ok big (disk_image d') fs \<and> fs_files big (disk_image d') fs = fs_files big (disk_image d) fs"
  using synch_disk.PerformanceTest_no_room [OF assms] synch_disk.PerformanceTest_room [OF assms] by simp

theorem performance_test_fails_witness:
  "\<exists>fs d d'. PerformanceTest ReadSector WriteSector demo_fresh True fs d = Inr ([Some Perf_no_write, Some Perf_no_read, None], d') \<and>
     fs_files True (disk_image d') fs = Map.empty"
proof -
  obtain fs d where d: "sd_ready d" "fs_ok True (disk_image d) fs" "fs_files True (disk_image d) fs = Map.empty"
    using demo_formatted by metis
  have "\<not> list_all inUse (table (fs_dir True (disk_image d) fs))" "card (free_sectors (fs_map True (disk_image d) fs)) \<noteq> 0"
    using empty_fs_room [OF d(2,3)] by linarith+
  then show ?thesis using performance_test_fails [OF d(1,2) demo_fresh_ok(1)] unfolding d(3) if_False de_Morgan_disj by metis
qed

end
