(* ===== verification/Nachos_Console.thy ===== *)
theory Nachos_Console
  imports Nachos_Interrupt
begin

text \<open>
  \<^verbatim>\<open>machine/console.cc\<close>: the console device, a keyboard that is polled and a display that takes one character at a
  time, both with interrupts. \<^verbatim>\<open>userprog/synchconsole.cc\<close>: lines are written and read by threads that wait for these
  interrupts, one writer and one reader at a time. What the host's keyboard file holds is a list of what
  successive polls find (\<open>key\<close>). A \<^verbatim>\<open>char\<close> is a byte, and \<^verbatim>\<open>EOF\<close>, the mark of an empty buffer, is the byte 0xFF.
\<close>

section \<open>The device\<close>

text \<open>What a poll finds: nothing, a character, or the end of the file, which is readable but has no character.\<close>

datatype key = No_key | Key "8 word" | End_of_file

record Console = Interrupt +
  keyboard :: "key list"
  display :: "8 word list"
  putBusy :: bool
  incoming :: "8 word"

definition EOF :: "8 word" where "EOF = - 1"

text \<open>Numbers that stand for the addresses of \<^verbatim>\<open>ConsoleReadPoll\<close>, \<^verbatim>\<open>ConsoleWriteDone\<close> and of the device.\<close>

definition ConsoleReadPoll :: VoidFunctionPtr where "ConsoleReadPoll = 20"
definition ConsoleWriteDone :: VoidFunctionPtr where "ConsoleWriteDone = 21"
definition this_console :: int where "this_console = 0"

definition Console_new :: "key list \<Rightarrow> Interrupt \<Rightarrow> Console res" where
  "Console_new keys ic =
     Schedule ConsoleReadPoll this_console ConsoleTime ConsoleReadInt
       (Interrupt.extend ic \<lparr>keyboard = keys, display = [], putBusy = False, incoming = EOF\<rparr>)"

text \<open>\<open>handler\<close> is the handler given to the constructor. \<^verbatim>\<open>Read\<close> aborts at the end of the file.\<close>

definition CheckCharAvail :: "('x Console_scheme \<Rightarrow> 'x Console_scheme res) \<Rightarrow> 'x Console_scheme \<Rightarrow> 'x Console_scheme res" where
  "CheckCharAvail handler c0 =
     andThen (Schedule ConsoleReadPoll this_console ConsoleTime ConsoleReadInt c0) (\<lambda>c.
       if incoming c \<noteq> EOF then Inr c
       else
         case keyboard c of
           [] \<Rightarrow> Inr c
         | No_key # ks \<Rightarrow> Inr (c\<lparr>keyboard := ks\<rparr>)
         | End_of_file # ks \<Rightarrow> Inl AssertFail
         | Key ch # ks \<Rightarrow>
             handler (c\<lparr>keyboard := ks, incoming := ch,
               stats := (stats c)\<lparr>numConsoleCharsRead := numConsoleCharsRead (stats c) + 1\<rparr>\<rparr>))"

definition Console_WriteDone :: "('x Console_scheme \<Rightarrow> 'x Console_scheme res) \<Rightarrow> 'x Console_scheme \<Rightarrow> 'x Console_scheme res" where
  "Console_WriteDone handler c =
     handler (c\<lparr>putBusy := False, stats := (stats c)\<lparr>numConsoleCharsWritten := numConsoleCharsWritten (stats c) + 1\<rparr>\<rparr>)"

definition GetChar :: "'x Console_scheme \<Rightarrow> 8 word \<times> 'x Console_scheme" where
  "GetChar c = (incoming c, c\<lparr>incoming := EOF\<rparr>)"

definition PutChar :: "8 word \<Rightarrow> 'x Console_scheme \<Rightarrow> 'x Console_scheme res" where
  "PutChar ch c =
     andThen (ASSERT (\<not> putBusy c)) (\<lambda>_.
       Schedule ConsoleWriteDone this_console ConsoleTime ConsoleWriteInt (c\<lparr>display := display c @ [ch], putBusy := True\<rparr>))"

section \<open>Lines\<close>

text \<open>
  The threads inside \<^verbatim>\<open>WriteLine\<close> and \<^verbatim>\<open>ReadLine\<close> between two kernel calls. \<open>WL_wait line i n\<close> has put \<open>i\<close> characters and
  \<open>n\<close> is left of \<open>size\<close>; \<open>RL_wait acc size\<close> has stored \<open>acc\<close>. The semaphores and locks stand for their contract.
\<close>

datatype console_pc =
    Away
  | WL_lock "8 word list" int
  | WL_wait "8 word list" nat int
  | WL_unlock "8 word list" nat
  | RL_lock int
  | RL_wait "8 word list" int
  | RL_unlock "8 word list" int
  | RL_done "8 word list"

record SynchConsole = Console +
  inputMutex :: "nat option"
  outputMutex :: "nat option"
  inputAvailable :: int
  outputDone :: int
  users :: "nat \<Rightarrow> console_pc"

definition SynchConsole_new :: "key list \<Rightarrow> Interrupt \<Rightarrow> SynchConsole res" where
  "SynchConsole_new keys ic =
     andThen (Console_new keys ic) (\<lambda>c.
       Inr (Console.extend c \<lparr>inputMutex = None, outputMutex = None, inputAvailable = 0, outputDone = 0, users = (\<lambda>_. Away)\<rparr>))"

definition SynchConsole_WriteDone :: "SynchConsole \<Rightarrow> SynchConsole res" where
  "SynchConsole_WriteDone c = Inr (c\<lparr>outputDone := outputDone c + 1\<rparr>)"

definition SynchConsole_ReadAvail :: "SynchConsole \<Rightarrow> SynchConsole res" where
  "SynchConsole_ReadAvail c = Inr (c\<lparr>inputAvailable := inputAvailable c + 1\<rparr>)"

definition become :: "nat \<Rightarrow> console_pc \<Rightarrow> SynchConsole \<Rightarrow> SynchConsole" where
  "become t p c = c\<lparr>users := (users c)(t := p)\<rparr>"

text \<open>The test \<^verbatim>\<open>while (size --)\<close> and the body of \<^verbatim>\<open>WriteLine\<close> up to \<^verbatim>\<open>P\<close>; a negative size runs past the end of the line.\<close>

definition WriteLine_test :: "nat \<Rightarrow> 8 word list \<Rightarrow> nat \<Rightarrow> int \<Rightarrow> SynchConsole \<Rightarrow> SynchConsole res" where
  "WriteLine_test t line i n c =
     (if n = 0 then Inr (become t (WL_unlock line i) c)
      else if length line \<le> i then Inl Undefined
      else andThen (PutChar (line ! i) c) (\<lambda>c1. Inr (become t (WL_wait line (i + 1) (n - 1)) c1)))"

definition newline :: "8 word" where "newline = 10"

text \<open>The test of the loop of \<^verbatim>\<open>ReadLine\<close>; the last character read is the last one of \<open>acc\<close>.\<close>

definition ReadLine_test :: "nat \<Rightarrow> 8 word list \<Rightarrow> int \<Rightarrow> SynchConsole \<Rightarrow> SynchConsole" where
  "ReadLine_test t acc n c =
     (if (acc = [] \<or> last acc \<noteq> newline) \<and> int (length acc) < n then become t (RL_wait acc n) c
      else become t (RL_unlock acc n) c)"

definition sc_run :: "PendingInterrupt \<Rightarrow> SynchConsole \<Rightarrow> SynchConsole res" where
  "sc_run p c = (if pi_type p = ConsoleWriteInt then Console_WriteDone SynchConsole_WriteDone c
     else CheckCharAvail SynchConsole_ReadAvail c)"

text \<open>
  What can happen: a thread calls \<^verbatim>\<open>WriteLine\<close> or \<^verbatim>\<open>ReadLine\<close>, comes back from a kernel call inside (\<open>T_go\<close>) or returns
  to its caller, the clock ticks, or the next interrupt is looked at. \<open>None\<close> says that the thread has to wait.
\<close>

datatype console_event = T_write nat "8 word list" int | T_read nat int | T_go nat | T_clock bool | T_tick

primrec sc_step :: "console_event \<Rightarrow> SynchConsole \<Rightarrow> SynchConsole res option" where
  "sc_step (T_write t line n) c = (if users c t = Away then Some (Inr (become t (WL_lock line n) c)) else None)"
| "sc_step (T_read t n) c = (if users c t = Away then Some (Inr (become t (RL_lock n) c)) else None)"
| "sc_step (T_go t) c =
     (case users c t of
        Away \<Rightarrow> None
      | WL_lock line n \<Rightarrow> if outputMutex c = None then Some (WriteLine_test t line 0 n (c\<lparr>outputMutex := Some t\<rparr>)) else None
      | WL_wait line i n \<Rightarrow> if outputDone c > 0 then Some (WriteLine_test t line i n (c\<lparr>outputDone := outputDone c - 1\<rparr>)) else None
      | WL_unlock line i \<Rightarrow> Some (Inr (become t Away (c\<lparr>outputMutex := None\<rparr>)))
      | RL_lock n \<Rightarrow> if inputMutex c = None then Some (Inr (ReadLine_test t [] n (c\<lparr>inputMutex := Some t\<rparr>))) else None
      | RL_wait acc n \<Rightarrow>
          if inputAvailable c > 0 then
            let (ch, c1) = GetChar (c\<lparr>inputAvailable := inputAvailable c - 1\<rparr>) in Some (Inr (ReadLine_test t (acc @ [ch]) n c1))
          else None
      | RL_unlock acc n \<Rightarrow> Some (Inr (become t (RL_done acc) (c\<lparr>inputMutex := None\<rparr>)))
      | RL_done acc \<Rightarrow> Some (Inr (become t Away c)))"
| "sc_step (T_clock advance) c =
     Some (andThen (CheckIfDue sc_run Inr advance (c\<lparr>level := IntOff\<rparr>)) (\<lambda>(_, c1). Inr (c1\<lparr>level := level c\<rparr>)))"
| "sc_step T_tick c = Some (Inr (count_tick c))"

text \<open>
  The console with a record of what has happened: the lines whose writer has got the lock, and the lines that
  have been read to the end, with the sizes asked for.
\<close>

record Terminal =
  console :: SynchConsole
  lines_begun :: "8 word list list"
  lines_read :: "(8 word list \<times> int) list"

definition key_chars :: "key list \<Rightarrow> 8 word list" where
  "key_chars ks = concat (map (\<lambda>k. case k of Key ch \<Rightarrow> [ch] | _ \<Rightarrow> []) ks)"

definition beginning :: "console_event \<Rightarrow> SynchConsole \<Rightarrow> 8 word list list" where
  "beginning e c = (case e of T_go t \<Rightarrow> (case users c t of WL_lock line n \<Rightarrow> [take (nat n) line] | _ \<Rightarrow> []) | _ \<Rightarrow> [])"

definition finished_read :: "console_event \<Rightarrow> SynchConsole \<Rightarrow> (8 word list \<times> int) list" where
  "finished_read e c = (case e of T_go t \<Rightarrow> (case users c t of RL_unlock acc n \<Rightarrow> [(acc, n)] | _ \<Rightarrow> []) | _ \<Rightarrow> [])"

definition terminal_step :: "console_event \<Rightarrow> Terminal \<Rightarrow> Terminal res option" where
  "terminal_step e T =
     (case sc_step e (console T) of
        None \<Rightarrow> None
      | Some r \<Rightarrow> Some (andThen r (\<lambda>c. Inr (T\<lparr>console := c, lines_begun := lines_begun T @ beginning e (console T),
          lines_read := lines_read T @ finished_read e (console T)\<rparr>))))"

definition terminal_init :: "key list \<Rightarrow> Interrupt \<Rightarrow> Terminal" where
  "terminal_init keys ic = \<lparr>console = projr (SynchConsole_new keys ic), lines_begun = [], lines_read = []\<rparr>"

text \<open>Callers pass a size within the line.\<close>

definition legal_line :: "console_event \<Rightarrow> bool" where
  "legal_line e = (case e of T_write t line n \<Rightarrow> 0 \<le> n \<and> n \<le> int (length line) | _ \<Rightarrow> True)"

inductive terminal_reaches :: "Terminal \<Rightarrow> Terminal \<Rightarrow> bool" for T0 where
  start: "terminal_reaches T0 T0"
| step: "terminal_reaches T0 T \<Longrightarrow> legal_line e \<Longrightarrow> terminal_step e T = Some (Inr T') \<Longrightarrow> terminal_reaches T0 T'"

section \<open>Invariants\<close>

primrec writer :: "console_pc \<Rightarrow> bool" where
  "writer Away = False"
| "writer (WL_lock line n) = False"
| "writer (WL_wait line i n) = True"
| "writer (WL_unlock line i) = True"
| "writer (RL_lock n) = False"
| "writer (RL_wait acc n) = False"
| "writer (RL_unlock acc n) = False"
| "writer (RL_done acc) = False"

primrec reader :: "console_pc \<Rightarrow> bool" where
  "reader Away = False"
| "reader (WL_lock line n) = False"
| "reader (WL_wait line i n) = False"
| "reader (WL_unlock line i) = False"
| "reader (RL_lock n) = False"
| "reader (RL_wait acc n) = True"
| "reader (RL_unlock acc n) = True"
| "reader (RL_done acc) = False"

primrec putting :: "console_pc \<Rightarrow> bool" where
  "putting Away = False"
| "putting (WL_lock line n) = False"
| "putting (WL_wait line i n) = True"
| "putting (WL_unlock line i) = False"
| "putting (RL_lock n) = False"
| "putting (RL_wait acc n) = False"
| "putting (RL_unlock acc n) = False"
| "putting (RL_done acc) = False"

text \<open>What a line that has been read looks like.\<close>

definition line_of :: "8 word list \<Rightarrow> int \<Rightarrow> bool" where
  "line_of acc n \<longleftrightarrow> newline \<notin> set (butlast acc) \<and> int (length acc) \<le> max 0 n \<and>
     (acc \<noteq> [] \<and> last acc = newline \<or> int (length acc) = max 0 n)"

primrec user_ok :: "console_pc \<Rightarrow> bool" where
  "user_ok Away = True"
| "user_ok (WL_lock line n) = (0 \<le> n \<and> n \<le> int (length line))"
| "user_ok (WL_wait line i n) = (0 \<le> n \<and> int i + n \<le> int (length line))"
| "user_ok (WL_unlock line i) = True"
| "user_ok (RL_lock n) = True"
| "user_ok (RL_wait acc n) = (newline \<notin> set acc \<and> int (length acc) < n)"
| "user_ok (RL_unlock acc n) = line_of acc n"
| "user_ok (RL_done acc) = True"

definition writes_pending :: "SynchConsole \<Rightarrow> int" where
  "writes_pending c = int (length (filter (\<lambda>e. pi_type (fst e) = ConsoleWriteInt) (pending c)))"

definition sc_ok :: "SynchConsole \<Rightarrow> bool" where
  "sc_ok c \<longleftrightarrow> (\<forall>t. writer (users c t) = (outputMutex c = Some t)) \<and> (\<forall>t. reader (users c t) = (inputMutex c = Some t)) \<and>
     (\<forall>t. user_ok (users c t)) \<and> writes_pending c = of_bool (putBusy c) \<and> 0 \<le> outputDone c \<and>
     of_bool (putBusy c) + outputDone c = of_bool (\<exists>t. putting (users c t)) \<and>
     inputAvailable c = of_bool (incoming c \<noteq> EOF) \<and> End_of_file \<notin> set (keyboard c) \<and> Key EOF \<notin> set (keyboard c)"

text \<open>The rest of the line that is being written, the part of a line that has been read, the character in the buffer.\<close>

definition writing :: "SynchConsole \<Rightarrow> 8 word list" where
  "writing c = (case outputMutex c of None \<Rightarrow> []
     | Some t \<Rightarrow> (case users c t of WL_wait line i n \<Rightarrow> take (nat n) (drop i line) | _ \<Rightarrow> []))"

definition reading :: "SynchConsole \<Rightarrow> 8 word list" where
  "reading c = (case inputMutex c of None \<Rightarrow> []
     | Some t \<Rightarrow> (case users c t of RL_wait acc n \<Rightarrow> acc | RL_unlock acc n \<Rightarrow> acc | _ \<Rightarrow> []))"

definition buffered :: "SynchConsole \<Rightarrow> 8 word list" where
  "buffered c = (if incoming c = EOF then [] else [incoming c])"

definition keeps :: "console_event \<Rightarrow> SynchConsole \<Rightarrow> SynchConsole \<Rightarrow> bool" where
  "keeps e c c' \<longleftrightarrow> sc_ok c' \<and> display c' @ writing c' = display c @ writing c @ concat (beginning e c) \<and>
     concat (map fst (finished_read e c)) @ reading c' @ buffered c' @ key_chars (keyboard c') =
       reading c @ buffered c @ key_chars (keyboard c) \<and>
     (\<forall>x \<in> set (finished_read e c). line_of (fst x) (snd x))"

lemma writing_eq: "(\<forall>t. writer (users c t) = (outputMutex c = Some t)) \<Longrightarrow> users c t = WL_wait line i n \<Longrightarrow> writing c = take (nat n) (drop i line)"
  by (force simp: writing_def dest: spec [of _ t])

lemma putting_writer: "putting p \<Longrightarrow> writer p"
  by (cases p) simp_all

lemma one_putting:
  assumes "sc_ok c" "putting (users c t)"
  shows "outputMutex c = Some t" "\<And>u. putting (users c u) = (u = t)"
proof -
  have w: "writer (users c u) = (outputMutex c = Some u)" for u using assms(1) by (simp add: sc_ok_def)
  note p = putting_writer
  show "outputMutex c = Some t" using w [of t] p assms(2) by blast
  then show "\<And>u. putting (users c u) = (u = t)" using w p assms(2) by (metis option.inject)
qed

text \<open>One thread changes its location and perhaps a lock.\<close>

lemma Schedule_console: "Schedule h x ConsoleTime k c =
    Inr (c\<lparr>pending := seq_insert (PendingInterrupt_new h x (now c + ConsoleTime) k) (now c + ConsoleTime) (pending c)\<rparr>)"
  by (simp add: Schedule_def ConsoleTime_def Let_def)

lemma filter_insert_length:
  "length (filter f (seq_insert x k xs)) = of_bool (f (x, k)) + length (filter f xs)"
proof -
  have "length (filter f ys) = size (filter_mset f (mset ys))" for ys by (metis mset_filter size_mset)
  then show ?thesis by (simp add: mset_seq_insert)
qed

text \<open>The input side, and the output side just before \<open>t\<close> puts its next character.\<close>

definition input_ok :: "SynchConsole \<Rightarrow> bool" where
  "input_ok c \<longleftrightarrow> (\<forall>t. reader (users c t) = (inputMutex c = Some t)) \<and> inputAvailable c = of_bool (incoming c \<noteq> EOF) \<and>
     End_of_file \<notin> set (keyboard c) \<and> Key EOF \<notin> set (keyboard c)"

definition output_free :: "nat \<Rightarrow> SynchConsole \<Rightarrow> bool" where
  "output_free t c \<longleftrightarrow> outputMutex c = Some t \<and> (\<forall>u. u \<noteq> t \<longrightarrow> \<not> writer (users c u)) \<and> (\<forall>u. user_ok (users c u)) \<and>
     \<not> reader (users c t) \<and> writes_pending c = 0 \<and> \<not> putBusy c \<and> outputDone c = 0"

lemma PutChar_free:
  assumes "\<not> putBusy c"
  shows "\<exists>ps. PutChar ch c = Inr (c\<lparr>display := display c @ [ch], putBusy := True, pending := ps\<rparr>) \<and>
    int (length (filter (\<lambda>e. pi_type (fst e) = ConsoleWriteInt) ps)) = writes_pending c + 1"
  using assms
  by (intro exI [of _ "seq_insert (PendingInterrupt_new ConsoleWriteDone this_console (now c + ConsoleTime) ConsoleWriteInt)
        (now c + ConsoleTime) (pending c)"])
    (simp add: PutChar_def Schedule_console writes_pending_def filter_insert_length PendingInterrupt_new_def)

lemma WriteLine_test_keeps:
  assumes i: "input_ok c" and o: "output_free t c" and n: "0 \<le> n" "int i + n \<le> int (length line)"
  shows "\<exists>c'. WriteLine_test t line i n c = Inr c' \<and> sc_ok c' \<and> display c' @ writing c' = display c @ take (nat n) (drop i line) \<and>
    reading c' = reading c \<and> buffered c' = buffered c \<and> keyboard c' = keyboard c"
proof (cases "n = 0")
  case True
  have "sc_ok (become t (WL_unlock line i) c)"
    using i o by (auto simp: sc_ok_def input_ok_def output_free_def become_def writes_pending_def
        dest: putting_writer split: if_splits)
  moreover have "reading (become t (WL_unlock line i) c) = reading c"
    using i o by (auto simp: reading_def become_def output_free_def input_ok_def split: option.splits)
  ultimately show ?thesis
    using True o by (auto simp: WriteLine_test_def writing_def become_def buffered_def output_free_def)
next
  case False
  then have lt: "i < length line" using n by linarith
  obtain ps where ps: "PutChar (line ! i) c = Inr (c\<lparr>display := display c @ [line ! i], putBusy := True, pending := ps\<rparr>)"
    "int (length (filter (\<lambda>e. pi_type (fst e) = ConsoleWriteInt) ps)) = 1"
    using PutChar_free [of c "line ! i"] o by (auto simp: output_free_def)
  let ?c = "become t (WL_wait line (i + 1) (n - 1)) (c\<lparr>display := display c @ [line ! i], putBusy := True, pending := ps\<rparr>)"
  have ok: "sc_ok ?c"
    using i o ps(2) n False
    by (auto simp: sc_ok_def input_ok_def output_free_def become_def writes_pending_def
        split: if_splits)
  have "take (nat n) (drop i line) = line ! i # take (nat (n - 1)) (drop (i + 1) line)"
    using lt False n(1) Cons_nth_drop_Suc [OF lt] by (metis Suc_eq_plus1 Suc_nat_eq_nat_zadd1 diff_add_cancel diff_ge_0_iff_ge
        int_one_le_iff_zero_less order_le_less take_Suc_Cons add.commute)
  then have "display ?c @ writing ?c = display c @ take (nat n) (drop i line)"
    using o by (simp add: writing_def become_def output_free_def)
  moreover have "reading ?c = reading c"
    using i o by (auto simp: reading_def become_def output_free_def input_ok_def split: option.splits)
  ultimately show ?thesis
    using ok ps(1) lt False by (auto simp: WriteLine_test_def become_def buffered_def)
qed

lemma WriteLine_test_step:
  assumes "input_ok c1" "output_free t c1" "0 \<le> n" "int i + n \<le> int (length line)"
    and "display c1 = display c" "keyboard c1 = keyboard c" "reading c1 = reading c" "buffered c1 = buffered c"
    and "finished_read e c = []" "writing c @ concat (beginning e c) = take (nat n) (drop i line)"
  shows "\<exists>c'. WriteLine_test t line i n c1 = Inr c' \<and> keeps e c c'"
proof -
  obtain c' where c': "WriteLine_test t line i n c1 = Inr c'" "sc_ok c'" "display c' @ writing c' = display c1 @ take (nat n) (drop i line)"
    "reading c' = reading c1" "buffered c' = buffered c1" "keyboard c' = keyboard c1"
    using WriteLine_test_keeps [OF assms(1-4)] by blast
  have "keeps e c c'" using c'(2-) assms(5-) by (simp add: keeps_def)
  with c'(1) show ?thesis by blast
qed

text \<open>The same for the input side, when \<open>t\<close> has the input lock and has stored \<open>acc\<close>.\<close>

definition output_ok :: "SynchConsole \<Rightarrow> bool" where
  "output_ok c \<longleftrightarrow> (\<forall>t. writer (users c t) = (outputMutex c = Some t)) \<and> writes_pending c = of_bool (putBusy c) \<and> 0 \<le> outputDone c \<and>
     of_bool (putBusy c) + outputDone c = of_bool (\<exists>t. putting (users c t))"

lemma sc_ok_iff: "sc_ok c \<longleftrightarrow> input_ok c \<and> output_ok c \<and> (\<forall>t. user_ok (users c t))"
  unfolding sc_ok_def input_ok_def output_ok_def by blast

lemma output_ok_become:
  assumes "output_ok c" "\<not> writer (users c t)" "\<not> writer p"
  shows "output_ok (become t p c)"
proof -
  have "\<not> putting (users c t)" "\<not> putting p" using assms(2,3) putting_writer by blast+
  then have "(\<exists>u. putting (users (become t p c) u)) = (\<exists>u. putting (users c u))" by (auto simp: become_def)
  then show ?thesis using assms by (auto simp: output_ok_def become_def writes_pending_def)
qed

lemma writing_become: "\<not> writer (users c t) \<Longrightarrow> \<not> writer p \<Longrightarrow> writing (become t p c) = writing c"
  by (auto simp: writing_def become_def split: option.splits console_pc.splits)

lemma line_of_stop:
  assumes "newline \<notin> set (butlast acc)" "int (length acc) \<le> max 0 n" "\<not> ((acc = [] \<or> last acc \<noteq> newline) \<and> int (length acc) < n)"
  shows "line_of acc n"
  using assms by (auto simp: line_of_def)

lemma ReadLine_test_keeps:
  assumes "input_ok (become t (RL_lock 0) (c\<lparr>inputMutex := None\<rparr>))" "inputMutex c = Some t"
    and o: "output_ok c" "\<not> writer (users c t)" and u: "\<forall>u. u \<noteq> t \<longrightarrow> user_ok (users c u)"
    and l: "newline \<notin> set (butlast acc)" "int (length acc) \<le> max 0 n"
  shows "sc_ok (ReadLine_test t acc n c)" "reading (ReadLine_test t acc n c) = acc" "writing (ReadLine_test t acc n c) = writing c"
proof -
  define p where "p = (if (acc = [] \<or> last acc \<noteq> newline) \<and> int (length acc) < n then RL_wait acc n else RL_unlock acc n)"
  have c': "ReadLine_test t acc n c = become t p c" by (simp add: ReadLine_test_def p_def)
  have "newline \<notin> set acc" if "acc = [] \<or> last acc \<noteq> newline"
    using that l(1) by (metis append_butlast_last_id set_append Un_iff set_ConsD empty_iff list.set(1))
  then have "user_ok p" using line_of_stop [OF l] by (auto simp: p_def)
  moreover have "reader p" "\<not> writer p" by (auto simp: p_def)
  moreover have "input_ok (become t p c)"
    using assms(1,2) \<open>reader p\<close> by (auto simp: input_ok_def become_def split: if_splits)
  ultimately show "sc_ok (ReadLine_test t acc n c)"
    using output_ok_become [OF o] u unfolding c' sc_ok_iff by (auto simp: become_def)
  show "reading (ReadLine_test t acc n c) = acc" unfolding c' by (simp add: reading_def become_def assms(2) p_def)
  show "writing (ReadLine_test t acc n c) = writing c" unfolding c' by (rule writing_become [OF o(2) \<open>\<not> writer p\<close>])
qed

lemma writing_input [simp]: "writing (c\<lparr>inputMutex := m\<rparr>) = writing c" "writing (c\<lparr>inputAvailable := a, incoming := b\<rparr>) = writing c"
  by (simp_all add: writing_def cong: option.case_cong)

lemma reading_output [simp]: "reading (c\<lparr>outputMutex := m\<rparr>) = reading c" "reading (c\<lparr>outputDone := k\<rparr>) = reading c"
    "buffered (c\<lparr>outputMutex := m\<rparr>) = buffered c" "buffered (c\<lparr>outputDone := k\<rparr>) = buffered c"
  by (simp_all add: reading_def buffered_def cong: option.case_cong)

lemmas event_lines = beginning_def finished_read_def

lemma T_call_keeps:
  assumes "sc_ok c" "users c t = Away" "p = WL_lock line n \<and> 0 \<le> n \<and> n \<le> int (length line) \<or> p = RL_lock n"
    and e: "beginning e c = []" "finished_read e c = []"
  shows "keeps e c (become t p c)"
proof -
  have "\<not> writer p" "\<not> reader p" "user_ok p" using assms(3) by auto
  moreover have "reading (become t p c) = reading c"
    using assms(2,3) by (auto simp: reading_def become_def split: option.splits)
  moreover have "writing (become t p c) = writing c" using assms(2) \<open>\<not> writer p\<close> by (intro writing_become) simp_all
  moreover have "output_ok (become t p c)" using assms(1,2) \<open>\<not> writer p\<close> by (intro output_ok_become) (simp_all add: sc_ok_iff)
  moreover have "inputMutex c \<noteq> Some t" using assms(1,2) by (auto simp: sc_ok_def dest: spec [of _ t])
  with assms(1) \<open>\<not> reader p\<close> have "input_ok (become t p c)"
    by (auto simp: sc_ok_def input_ok_def become_def split: if_splits)
  ultimately show ?thesis
    using assms(1) e by (auto simp: keeps_def sc_ok_iff become_def buffered_def)
qed

lemma T_go_output:
  assumes ok: "sc_ok c" and w: "users c t = WL_lock line n \<or> users c t = WL_wait line i n" and r: "sc_step (T_go t) c = Some r"
  shows "\<exists>c'. r = Inr c' \<and> keeps (T_go t) c c'"
  using w
proof
  assume u: "users c t = WL_lock line n"
  let ?c = "c\<lparr>outputMutex := Some t\<rparr>"
  have free: "outputMutex c = None" and run: "r = WriteLine_test t line 0 n ?c" using r u by (auto split: if_splits)
  have "user_ok (users c t)" using ok by (simp add: sc_ok_def)
  then have n: "0 \<le> n" "int 0 + n \<le> int (length line)" using u by simp_all
  have nw: "\<not> writer (users c v)" for v using ok free by (simp add: sc_ok_def)
  then have "\<not> putting (users c v)" for v using putting_writer by blast
  then have "of_bool (putBusy c) + outputDone c = 0" "0 \<le> outputDone c" using ok by (simp_all add: sc_ok_def)
  then have "putBusy c = False" "outputDone c = 0" by (cases "putBusy c"; simp)+
  then have "output_free t ?c" "input_ok ?c"
    using ok nw u by (auto simp: sc_ok_def output_free_def input_ok_def writes_pending_def)
  from WriteLine_test_step [OF this(2,1) n, of c "T_go t"] show ?thesis
    using run u free by (simp add: event_lines writing_def)
next
  assume u: "users c t = WL_wait line i n"
  let ?c = "c\<lparr>outputDone := outputDone c - 1\<rparr>"
  have pos: "outputDone c > 0" and run: "r = WriteLine_test t line i n ?c" using r u by (auto split: if_splits)
  have "user_ok (users c t)" using ok by (simp add: sc_ok_def)
  then have n: "0 \<le> n" "int i + n \<le> int (length line)" using u by simp_all
  have o: "outputMutex c = Some t" using one_putting [OF ok, of t] u by simp
  have nw: "v \<noteq> t \<Longrightarrow> \<not> writer (users c v)" for v using ok o by (simp add: sc_ok_def)
  have "putBusy c = False" "outputDone c = 1" using ok pos by (auto simp: sc_ok_def of_bool_def split: if_splits)
  then have "output_free t ?c" "input_ok ?c"
    using ok nw u o by (auto simp: sc_ok_def output_free_def input_ok_def writes_pending_def)
  from WriteLine_test_step [OF this(2,1) n, of c "T_go t"] show ?thesis
    using run u o by (simp add: event_lines writing_def)
qed

lemma T_go_input:
  assumes ok: "sc_ok c" and u: "users c t = RL_lock n \<or> users c t = RL_wait acc n" and r: "sc_step (T_go t) c = Some r"
  shows "\<exists>c'. r = Inr c' \<and> keeps (T_go t) c c'"
  using u
proof
  assume u: "users c t = RL_lock n"
  let ?c = "c\<lparr>inputMutex := Some t\<rparr>"
  have free: "inputMutex c = None" and run: "r = Inr (ReadLine_test t [] n ?c)" using r u by (auto split: if_splits)
  have "input_ok (become t (RL_lock 0) (?c\<lparr>inputMutex := None\<rparr>))" "output_ok ?c" "\<forall>v. v \<noteq> t \<longrightarrow> user_ok (users ?c v)"
    using ok free by (auto simp: sc_ok_iff input_ok_def output_ok_def become_def writes_pending_def)
  from ReadLine_test_keeps [OF this(1) _ this(2) _ this(3), of "[]" n] have "sc_ok (ReadLine_test t [] n ?c)"
    "reading (ReadLine_test t [] n ?c) = []" "writing (ReadLine_test t [] n ?c) = writing c"
    using u by simp_all
  then have "keeps (T_go t) c (ReadLine_test t [] n ?c)"
    using u free by (simp add: keeps_def event_lines ReadLine_test_def become_def reading_def buffered_def)
  then show ?thesis using run by blast
next
  assume u: "users c t = RL_wait acc n"
  let ?c = "c\<lparr>inputAvailable := inputAvailable c - 1, incoming := EOF\<rparr>"
  let ?acc = "acc @ [incoming c]"
  have pos: "inputAvailable c > 0" and run: "r = Inr (ReadLine_test t ?acc n ?c)" using r u by (auto simp: GetChar_def split: if_splits)
  have full: "incoming c \<noteq> EOF" "inputAvailable c = 1" using ok pos by (auto simp: sc_ok_def split: if_splits)
  have "user_ok (users c t)" "reader (users c t) = (inputMutex c = Some t)" using ok by (simp_all add: sc_ok_def)
  then have l: "newline \<notin> set (butlast ?acc)" "int (length ?acc) \<le> max 0 n" and m: "inputMutex c = Some t" using u by simp_all
  have "input_ok (become t (RL_lock 0) (?c\<lparr>inputMutex := None\<rparr>))" "output_ok ?c" "\<forall>v. v \<noteq> t \<longrightarrow> user_ok (users ?c v)"
    using ok m full by (auto simp: sc_ok_iff input_ok_def output_ok_def become_def writes_pending_def)
  from ReadLine_test_keeps [OF this(1) _ this(2) _ this(3) l] have "sc_ok (ReadLine_test t ?acc n ?c)"
    "reading (ReadLine_test t ?acc n ?c) = ?acc" "writing (ReadLine_test t ?acc n ?c) = writing c"
    using u m by simp_all
  moreover have "reading c = acc" "buffered c = [incoming c]" using u m full by (simp_all add: reading_def buffered_def)
  ultimately have "keeps (T_go t) c (ReadLine_test t ?acc n ?c)"
    using u by (simp add: keeps_def event_lines ReadLine_test_def become_def buffered_def)
  then show ?thesis using run by blast
qed

lemma T_go_return:
  assumes ok: "sc_ok c" and u: "users c t = WL_unlock line i \<or> users c t = RL_unlock acc n \<or> users c t = RL_done acc"
    and r: "sc_step (T_go t) c = Some r"
  shows "\<exists>c'. r = Inr c' \<and> keeps (T_go t) c c'"
proof -
  have w: "writer (users c v) = (outputMutex c = Some v)" and rd: "reader (users c v) = (inputMutex c = Some v)"
    and uo: "user_ok (users c v)" for v using ok by (simp_all add: sc_ok_def)
  consider (out) "users c t = WL_unlock line i" | (inp) "users c t = RL_unlock acc n" | (don) "users c t = RL_done acc" using u by blast
  then show ?thesis
  proof cases
    case out
    then have m: "outputMutex c = Some t" "inputMutex c \<noteq> Some t" using w [of t] rd [of t] by simp_all
    let ?c = "become t Away (c\<lparr>outputMutex := None\<rparr>)"
    have "\<not> putting (users c v)" for v
      using w [of v] m putting_writer [of "users c v"] out by (cases "v = t") auto
    then have "sc_ok ?c" using ok m by (auto simp: sc_ok_def become_def writes_pending_def split: if_splits)
    then have "keeps (T_go t) c ?c"
      using out m by (auto simp: keeps_def event_lines become_def reading_def buffered_def writing_def split: option.splits)
    then show ?thesis using r out by auto
  next
    case inp
    then have m: "inputMutex c = Some t" "outputMutex c \<noteq> Some t" using w [of t] rd [of t] by simp_all
    let ?c = "become t (RL_done acc) (c\<lparr>inputMutex := None\<rparr>)"
    have "output_ok ?c"
      using ok inp by (intro output_ok_become) (auto simp: sc_ok_iff output_ok_def writes_pending_def)
    then have "sc_ok ?c" using ok m by (auto simp: sc_ok_iff input_ok_def become_def split: if_splits)
    moreover have "writing ?c = writing c"
      using m inp by (auto simp: writing_def become_def split: option.splits)
    ultimately have "keeps (T_go t) c ?c"
      using inp m uo [of t] by (simp add: keeps_def event_lines become_def reading_def buffered_def)
    then show ?thesis using r inp by auto
  next
    case don
    then have m: "inputMutex c \<noteq> Some t" "outputMutex c \<noteq> Some t" using w [of t] rd [of t] by simp_all
    let ?c = "become t Away c"
    have "output_ok ?c" using ok don by (intro output_ok_become) (auto simp: sc_ok_iff)
    then have "sc_ok ?c" using ok m by (auto simp: sc_ok_iff input_ok_def become_def split: if_splits)
    then have "keeps (T_go t) c ?c"
      using don m by (auto simp: keeps_def event_lines become_def reading_def buffered_def writing_def split: option.splits)
    then show ?thesis using r don by auto
  qed
qed

text \<open>An interrupt: what the interrupt controller changes does not matter, but the entry of the interrupt is gone.\<close>

definition console_frame :: "SynchConsole \<Rightarrow> SynchConsole \<Rightarrow> bool" where
  "console_frame c c' \<longleftrightarrow> keyboard c' = keyboard c \<and> display c' = display c \<and> putBusy c' = putBusy c \<and> incoming c' = incoming c \<and>
     inputMutex c' = inputMutex c \<and> outputMutex c' = outputMutex c \<and> inputAvailable c' = inputAvailable c \<and>
     outputDone c' = outputDone c \<and> users c' = users c"

lemma console_frame_views:
  assumes "console_frame c c'"
  shows "reading c' = reading c" "writing c' = writing c" "buffered c' = buffered c" "input_ok c' = input_ok c"
  using assms by (simp_all add: console_frame_def reading_def writing_def buffered_def input_ok_def cong: option.case_cong)

lemma console_frame_ok: "console_frame c c' \<Longrightarrow> writes_pending c' = writes_pending c \<Longrightarrow> sc_ok c' = sc_ok c"
  by (simp add: console_frame_def sc_ok_def)

lemma keeps_frame_right:
  assumes "keeps e c q" "console_frame q c'" "writes_pending c' = writes_pending q"
  shows "keeps e c c'"
proof -
  have "keyboard c' = keyboard q" "display c' = display q" using assms(2) by (simp_all add: console_frame_def)
  then show ?thesis using assms(1) console_frame_views [OF assms(2)] console_frame_ok [OF assms(2,3)] by (simp add: keeps_def)
qed

lemma keeps_self: "sc_ok c \<Longrightarrow> beginning e c = [] \<Longrightarrow> finished_read e c = [] \<Longrightarrow> keeps e c c"
  by (simp add: keeps_def)

lemma CheckCharAvail_keeps:
  assumes ok: "sc_ok c" and fr: "console_frame c s" "writes_pending s = writes_pending c"
    and e: "beginning e c = []" "finished_read e c = []"
  shows "\<exists>c'. CheckCharAvail SynchConsole_ReadAvail s = Inr c' \<and> keeps e c c'"
proof -
  define s1 where "s1 = s\<lparr>pending := seq_insert (PendingInterrupt_new ConsoleReadPoll this_console (now s + ConsoleTime) ConsoleReadInt)
    (now s + ConsoleTime) (pending s)\<rparr>"
  have wp: "writes_pending s1 = writes_pending c"
    using fr(2) by (simp add: s1_def writes_pending_def filter_insert_length PendingInterrupt_new_def)
  have fr1: "console_frame c s1" using fr(1) by (simp add: s1_def console_frame_def)
  have same: "keeps e c s1" by (rule keeps_frame_right [OF keeps_self [OF ok e] fr1 wp])
  have kb: "keyboard s1 = keyboard c" "incoming s1 = incoming c" using fr1 by (simp_all add: console_frame_def)
  have run: "CheckCharAvail SynchConsole_ReadAvail s = (if incoming c \<noteq> EOF then Inr s1 else
      (case keyboard c of [] \<Rightarrow> Inr s1 | No_key # ks \<Rightarrow> Inr (s1\<lparr>keyboard := ks\<rparr>) | End_of_file # ks \<Rightarrow> Inl AssertFail
       | Key ch # ks \<Rightarrow> SynchConsole_ReadAvail (s1\<lparr>keyboard := ks, incoming := ch,
               stats := (stats s1)\<lparr>numConsoleCharsRead := numConsoleCharsRead (stats s1) + 1\<rparr>\<rparr>)))"
    by (simp add: CheckCharAvail_def Schedule_console kb flip: s1_def)
  show ?thesis
  proof (cases "incoming c \<noteq> EOF \<or> keyboard c = []")
    case True
    then show ?thesis using run same by auto
  next
    case False
    then obtain k ks where k: "keyboard c = k # ks" "incoming c = EOF" by (cases "keyboard c") auto
    then have k': "keyboard s1 = k # ks" "incoming s1 = EOF" using kb by simp_all
    have ok1: "sc_ok s1" using console_frame_ok [OF fr1 wp] ok by simp
    note v = console_frame_views [OF fr1]
    have d: "display s1 = display c" using fr1 by (simp add: console_frame_def)
    have "k \<noteq> End_of_file" "k \<noteq> Key EOF" using ok k by (auto simp: sc_ok_def)
    then consider (no) "k = No_key" | (key) ch where "k = Key ch" "ch \<noteq> EOF" by (cases k) auto
    then show ?thesis
    proof cases
      case no
      let ?c = "s1\<lparr>keyboard := ks\<rparr>"
      have "sc_ok ?c" using ok1 k' by (simp add: sc_ok_def writes_pending_def)
      moreover have "reading ?c = reading s1" "writing ?c = writing s1" "buffered ?c = buffered s1"
        by (simp_all add: reading_def writing_def buffered_def cong: option.case_cong)
      ultimately have "keeps e c ?c" using e v d k no by (simp add: keeps_def key_chars_def)
      then show ?thesis using run k no by simp
    next
      case key
      let ?c = "s1\<lparr>keyboard := ks, incoming := ch, stats := (stats s1)\<lparr>numConsoleCharsRead := numConsoleCharsRead (stats s1) + 1\<rparr>,
        inputAvailable := inputAvailable s1 + 1\<rparr>"
      have "sc_ok ?c" using ok1 k' key by (simp add: sc_ok_def writes_pending_def)
      moreover have "reading ?c = reading s1" "writing ?c = writing s1" "buffered ?c = [ch]" "buffered c = []"
        using key k by (simp_all add: reading_def writing_def buffered_def cong: option.case_cong)
      ultimately have "keeps e c ?c" using e v d k key by (simp add: keeps_def key_chars_def)
      then show ?thesis using run k key by (simp add: SynchConsole_ReadAvail_def)
    qed
  qed
qed

lemma WriteDone_keeps:
  assumes ok: "sc_ok c" and fr: "console_frame c s" "writes_pending s = writes_pending c - 1"
    and e: "beginning e c = []" "finished_read e c = []"
  shows "\<exists>c'. Console_WriteDone SynchConsole_WriteDone s = Inr c' \<and> keeps e c c'"
proof -
  let ?c = "s\<lparr>putBusy := False, stats := (stats s)\<lparr>numConsoleCharsWritten := numConsoleCharsWritten (stats s) + 1\<rparr>,
    outputDone := outputDone s + 1\<rparr>"
  have "0 \<le> writes_pending s" by (simp add: writes_pending_def)
  then have busy: "putBusy c" "writes_pending s = 0" using ok fr(2) by (auto simp: sc_ok_def split: if_splits)
  have eq: "keyboard s = keyboard c" "display s = display c" "incoming s = incoming c" "users s = users c"
     "inputMutex s = inputMutex c" "outputMutex s = outputMutex c" "inputAvailable s = inputAvailable c"
     "outputDone s = outputDone c" using fr(1) by (simp_all add: console_frame_def)
  have "writes_pending ?c = writes_pending s" by (simp add: writes_pending_def)
  then have "sc_ok ?c" using ok busy eq by (simp add: sc_ok_def)
  moreover have "reading ?c = reading c" "writing ?c = writing c" "buffered ?c = buffered c"
    using eq by (simp_all add: reading_def writing_def buffered_def cong: option.case_cong)
  ultimately have "keeps e c ?c" using e eq by (simp add: keeps_def)
  then show ?thesis by (simp add: Console_WriteDone_def SynchConsole_WriteDone_def)
qed

lemma sc_run_keeps:
  assumes "sc_ok c" "console_frame c s" "writes_pending s = writes_pending c - of_bool (pi_type p = ConsoleWriteInt)"
    and "beginning e c = []" "finished_read e c = []"
  shows "\<exists>c'. sc_run p s = Inr c' \<and> keeps e c c'"
  using assms WriteDone_keeps [of c s e] CheckCharAvail_keeps [of c s e] by (simp add: sc_run_def)

lemma T_clock_keeps:
  assumes ok: "sc_ok c" and r: "sc_step (T_clock adv) c = Some r"
  shows "\<exists>c'. r = Inr c' \<and> keeps (T_clock adv) c c'"
proof -
  have e: "beginning (T_clock adv) c = []" "finished_read (T_clock adv) c = []" by (simp_all add: event_lines)
  have same: "keeps (T_clock adv) c c'" if "console_frame c c'" "writes_pending c' = writes_pending c" for c'
    by (rule keeps_frame_right [OF keeps_self [OF ok e] that])
  have "\<exists>f c'. CheckIfDue sc_run Inr adv (c\<lparr>level := IntOff\<rparr>) = Inr (f, c') \<and> (\<forall>l. keeps (T_clock adv) c (c'\<lparr>level := l\<rparr>))"
  proof (cases "pending c")
    case Nil
    then show ?thesis using same by (auto simp: CheckIfDue_def console_frame_def writes_pending_def)
  next
    case (Cons x rest)
    obtain p due_at where x: "x = (p, due_at)" by (cases x)
    define s1 where "s1 = c\<lparr>level := IntOff, pending := rest\<rparr>"
    define s2 where "s2 = (if adv then advance_clock due_at s1 else s1)"
    define s3 where "s3 = s2\<lparr>inHandler := True, status := SystemMode\<rparr>"
    have pend: "pending s1 = rest" "pending s2 = rest" "pending s3 = rest"
      by (simp_all add: s1_def s2_def s3_def advance_clock_def)
    have fr: "console_frame c s1" "console_frame c s2" "console_frame c s3"
      by (simp_all add: s1_def s2_def s3_def advance_clock_def console_frame_def)
    have "writes_pending s3 = writes_pending c - of_bool (pi_type p = ConsoleWriteInt)"
      using Cons x pend by (simp add: writes_pending_def)
    then obtain q where q: "sc_run p s3 = Inr q" "keeps (T_clock adv) c q" using sc_run_keeps [OF ok fr(3) _ e] by blast
    have fired: "keeps (T_clock adv) c (q\<lparr>status := st, inHandler := False, level := l\<rparr>)" for st l
      by (rule keeps_frame_right [OF q(2)]) (simp_all add: console_frame_def writes_pending_def)
    have kept: "keeps (T_clock adv) c (s\<lparr>pending := seq_insert p due_at rest, level := l\<rparr>)" if "s = s1 \<or> s = s2" for s l
      by (rule same) (use fr that Cons x in \<open>auto simp: console_frame_def writes_pending_def filter_insert_length\<close>)
    have "CheckIfDue sc_run Inr adv (c\<lparr>level := IntOff\<rparr>) =
        (if \<not> adv \<and> due_at > now s1 then Inr (False, s1\<lparr>pending := seq_insert p due_at (pending s1)\<rparr>)
         else if status s2 = IdleMode \<and> pi_type p = TimerInt \<and> pending s2 = []
         then Inr (False, s2\<lparr>pending := seq_insert p due_at (pending s2)\<rparr>)
         else andThen (call_handler sc_run Inr p s2) (\<lambda>s. Inr (True, s)))"
      using Cons x by (simp add: CheckIfDue_def Let_def s1_def s2_def)
    moreover have "call_handler sc_run Inr p s2 = Inr (q\<lparr>status := status s2, inHandler := False\<rparr>)"
      using q(1) by (simp add: call_handler_def s3_def)
    ultimately show ?thesis using fired kept pend by auto
  qed
  then show ?thesis using r by auto
qed

lemma sc_step_keeps:
  assumes ok: "sc_ok c" and l: "legal_line e" and r: "sc_step e c = Some r"
  shows "\<exists>c'. r = Inr c' \<and> keeps e c c'"
proof (cases e)
  case (T_write t line n)
  then have "users c t = Away" "r = Inr (become t (WL_lock line n) c)" "0 \<le> n \<and> n \<le> int (length line)"
    using l r by (auto simp: legal_line_def split: if_splits)
  then show ?thesis using T_call_keeps [OF ok, of t "WL_lock line n" line n e] T_write by (simp add: event_lines)
next
  case (T_read t n)
  then have "users c t = Away" "r = Inr (become t (RL_lock n) c)" using r by (auto split: if_splits)
  then show ?thesis using T_call_keeps [OF ok, of t "RL_lock n" "[]" n e] T_read by (simp add: event_lines)
next
  case (T_go t)
  note go = r [unfolded T_go]
  show ?thesis unfolding T_go
  proof (cases "users c t")
    case Away
    then show "\<exists>c'. r = Inr c' \<and> keeps (T_go t) c c'" using go by simp
  qed (use T_go_output [OF ok _ go] T_go_input [OF ok _ go] T_go_return [OF ok _ go] in blast)+
next
  case (T_clock adv)
  then show ?thesis using T_clock_keeps [OF ok] r by blast
next
  case T_tick
  have "console_frame c (count_tick c)" "writes_pending (count_tick c) = writes_pending c"
    by (simp_all add: count_tick_def console_frame_def writes_pending_def Let_def)
  from keeps_frame_right [OF keeps_self [OF ok] this, of T_tick] show ?thesis using r T_tick by (auto simp: event_lines)
qed

section \<open>Every run\<close>

definition terminal_ok :: "key list \<Rightarrow> Terminal \<Rightarrow> bool" where
  "terminal_ok keys T \<longleftrightarrow> sc_ok (console T) \<and> concat (lines_begun T) = display (console T) @ writing (console T) \<and>
     concat (map fst (lines_read T)) @ reading (console T) @ buffered (console T) @ key_chars (keyboard (console T)) = key_chars keys \<and>
     (\<forall>x \<in> set (lines_read T). line_of (fst x) (snd x))"

lemma terminal_step_ok:
  assumes ok: "terminal_ok keys T" and l: "legal_line e" and r: "terminal_step e T = Some r"
  shows "\<exists>T'. r = Inr T' \<and> terminal_ok keys T'"
proof -
  obtain q where q: "sc_step e (console T) = Some q" using r by (auto simp: terminal_step_def split: option.splits)
  obtain c' where c': "q = Inr c'" "keeps e (console T) c'" using sc_step_keeps [OF _ l q] ok by (auto simp: terminal_ok_def)
  let ?T = "T\<lparr>console := c', lines_begun := lines_begun T @ beginning e (console T),
    lines_read := lines_read T @ finished_read e (console T)\<rparr>"
  have "r = Inr ?T" using r q c'(1) by (simp add: terminal_step_def)
  moreover have "terminal_ok keys ?T"
  proof -
    have k: "concat (map fst (finished_read e (console T))) @ reading c' @ buffered c' @ key_chars (keyboard c') =
        reading (console T) @ buffered (console T) @ key_chars (keyboard (console T))"
      "display c' @ writing c' = display (console T) @ writing (console T) @ concat (beginning e (console T))" "sc_ok c'"
      "\<forall>x \<in> set (finished_read e (console T)). line_of (fst x) (snd x)"
      using c'(2) by (simp_all add: keeps_def)
    then show ?thesis using ok by (auto simp: terminal_ok_def)
  qed
  ultimately show ?thesis by blast
qed

lemma terminal_init_ok:
  assumes "pending ic = []" "End_of_file \<notin> set keys" "Key EOF \<notin> set keys"
  shows "terminal_ok keys (terminal_init keys ic)"
proof -
  have "\<exists>c. SynchConsole_new keys ic = Inr c \<and> sc_ok c \<and> display c = [] \<and> writing c = [] \<and> reading c = [] \<and> buffered c = [] \<and>
      keyboard c = keys"
    using assms by (simp add: SynchConsole_new_def Console_new_def Schedule_console Console.defs Interrupt.defs sc_ok_def writes_pending_def
        filter_insert_length PendingInterrupt_new_def writing_def reading_def buffered_def)
  then show ?thesis by (auto simp: terminal_init_def terminal_ok_def)
qed

lemma terminal_reaches_ok: "terminal_reaches T0 T \<Longrightarrow> terminal_ok keys T0 \<Longrightarrow> terminal_ok keys T"
  by (induction rule: terminal_reaches.induct) (use terminal_step_ok in blast)+

primrec terminal_run :: "console_event list \<Rightarrow> Terminal \<Rightarrow> Terminal res option" where
  "terminal_run [] T = Some (Inr T)"
| "terminal_run (e # es) T = (case terminal_step e T of Some (Inr T') \<Rightarrow> terminal_run es T' | r \<Rightarrow> r)"

lemma terminal_run_reaches:
  "terminal_run es T = Some (Inr T') \<Longrightarrow> list_all legal_line es \<Longrightarrow> terminal_reaches T0 T \<Longrightarrow> terminal_reaches T0 T'"
proof (induction es arbitrary: T)
  case (Cons e es)
  then obtain T1 where "terminal_step e T = Some (Inr T1)" "terminal_run es T1 = Some (Inr T')"
    by (auto split: option.splits sum.splits)
  then show ?case using Cons terminal_reaches.step by auto
qed simp

text \<open>Two threads write at the same time while a third one reads a line of at most three characters.\<close>

definition demo_terminal :: "key list \<Rightarrow> Terminal" where
  "demo_terminal keys = terminal_init keys (Interrupt_new Statistics_new)"

definition demo_keys :: "key list" where "demo_keys = [Key 97, No_key, Key 10]"

definition demo_events :: "console_event list" where
  "demo_events = [T_write 1 [72, 105] 2, T_write 2 [33] 1, T_read 3 3, T_go 1, T_go 3, T_clock True, T_clock True, T_go 3, T_go 1,
     T_clock True, T_clock True, T_clock True, T_go 1, T_go 1, T_go 2, T_go 3, T_go 3]"

lemma demo_terminal_run:
  "\<exists>T. terminal_run demo_events (demo_terminal demo_keys) = Some (Inr T) \<and> lines_begun T = [[72, 105], [33]] \<and>
     display (console T) = [72, 105, 33] \<and> lines_read T = [([97, 10], 3)]"
proof -
  have "map_option (map_sum id (\<lambda>T. (lines_begun T, display (console T), lines_read T)))
      (terminal_run demo_events (demo_terminal demo_keys)) = Some (Inr ([[72, 105], [33]], [72, 105, 33], [([97, 10], 3)]))"
    by code_simp
  then show ?thesis
    by (cases "terminal_run demo_events (demo_terminal demo_keys)") (auto simp: map_sum_def split: sum.splits)
qed

lemma demo_terminal_reaches:
  "terminal_run demo_events (demo_terminal demo_keys) = Some (Inr T) \<Longrightarrow>
    terminal_reaches (terminal_init demo_keys (Interrupt_new Statistics_new)) T"
  by (erule terminal_run_reaches [of demo_events "demo_terminal demo_keys"])
    (code_simp, simp add: demo_terminal_def terminal_reaches.start)

lemma demo_keys_plain: "End_of_file \<notin> set demo_keys" "Key EOF \<notin> set demo_keys" "pending (Interrupt_new Statistics_new) = []"
  by (simp_all add: demo_keys_def EOF_def Interrupt_new_def)

text \<open>
  Property C19. Lines on the synchronised console stay whole, whatever the interleaving of the threads. The display holds
  the lines in the order in which their writers got the lock, each written to its end before the next begins;
  \<open>writing\<close> is what the present writer still has to put. The lines that readers got, in order, followed by the
  part of the present reader, the buffer and the rest of the keyboard, are exactly what the keyboard delivers;
  and each line ends with its first newline or fills its buffer.
\<close>

theorem synch_console_keeps_lines:
  assumes "terminal_reaches (terminal_init keys ic) T" "pending ic = []" "End_of_file \<notin> set keys" "Key EOF \<notin> set keys"
  shows "concat (lines_begun T) = display (console T) @ writing (console T) \<and>
     key_chars keys = concat (map fst (lines_read T)) @ reading (console T) @ buffered (console T) @ key_chars (keyboard (console T)) \<and>
     (\<forall>(acc, n) \<in> set (lines_read T). line_of acc n)"
proof -
  have "terminal_ok keys T" by (rule terminal_reaches_ok [OF assms(1) terminal_init_ok [OF assms(2-4)]])
  then show ?thesis unfolding terminal_ok_def by auto
qed

theorem synch_console_keeps_lines_witness:
  "\<exists>T. terminal_run demo_events (demo_terminal demo_keys) = Some (Inr T) \<and> [72, 105, 33] = [72, 105, 33] @ writing (console T) \<and>
     key_chars demo_keys = [97, 10] @ reading (console T) @ buffered (console T) @ key_chars (keyboard (console T)) \<and> line_of [97, 10] 3"
proof -
  obtain T where T: "terminal_run demo_events (demo_terminal demo_keys) = Some (Inr T)" "lines_begun T = [[72, 105], [33]]"
    "display (console T) = [72, 105, 33]" "lines_read T = [([97, 10], 3)]"
    using demo_terminal_run by blast
  show ?thesis using T synch_console_keeps_lines [OF demo_terminal_reaches [OF T(1)] demo_keys_plain(3,1,2)] by simp
qed

text \<open>
  Property C20. The assertion of \<^verbatim>\<open>Console::PutChar\<close> that the display is not busy never fails, and \<^verbatim>\<open>WriteLine\<close> never reads
  past its line: when the sizes passed are within the lines and the keyboard does not end, every event that can
  happen leads to a next state.
\<close>

theorem synch_console_never_faults:
  assumes "terminal_reaches (terminal_init keys ic) T" "pending ic = []" "End_of_file \<notin> set keys" "Key EOF \<notin> set keys"
    and "legal_line e"
  shows "terminal_step e T = None \<or> (\<exists>T'. terminal_step e T = Some (Inr T'))"
proof -
  have "terminal_ok keys T" by (rule terminal_reaches_ok [OF assms(1) terminal_init_ok [OF assms(2-4)]])
  from terminal_step_ok [OF this assms(5)] show ?thesis by (cases "terminal_step e T") auto
qed

theorem synch_console_never_faults_witness:
  "\<exists>T. terminal_run demo_events (demo_terminal demo_keys) = Some (Inr T) \<and> (\<exists>T'. terminal_step (T_clock True) T = Some (Inr T'))"
proof -
  obtain T where T: "terminal_run demo_events (demo_terminal demo_keys) = Some (Inr T)" using demo_terminal_run by blast
  have "terminal_step (T_clock True) T \<noteq> None" by (simp add: terminal_step_def)
  with synch_console_never_faults [OF demo_terminal_reaches [OF T] demo_keys_plain(3,1,2), of "T_clock True"] T show ?thesis
    by (auto simp: legal_line_def)
qed

text \<open>
  The byte 0xFF is taken for an empty buffer. When it is typed and no reader takes it before the next poll,
  the next character overtakes it: the keyboard delivers 0xFF and then 65, and a thread that reads two
  characters gets 65 and then 0xFF.
\<close>

theorem eof_byte_is_overtaken:
  "\<exists>T. terminal_reaches (demo_terminal [Key 255, Key 65]) T \<and> key_chars [Key 255, Key 65] = [255, 65] \<and> lines_read T = [([65, 255], 2)]"
proof -
  let ?es = "[T_clock True, T_clock True, T_read 1 2, T_go 1, T_go 1, T_go 1, T_go 1]"
  have "map_option (map_sum id lines_read) (terminal_run ?es (demo_terminal [Key 255, Key 65])) = Some (Inr [([65, 255], 2)])"
    by code_simp
  then obtain T where T: "terminal_run ?es (demo_terminal [Key 255, Key 65]) = Some (Inr T)" "lines_read T = [([65, 255], 2)]"
    by (cases "terminal_run ?es (demo_terminal [Key 255, Key 65])") (auto simp: map_sum_def split: sum.splits)
  have "terminal_reaches (demo_terminal [Key 255, Key 65]) T"
    by (rule terminal_run_reaches [OF T(1) _ terminal_reaches.start]) code_simp
  then show ?thesis using T(2) by (auto simp: key_chars_def)
qed

end
