(* ===== verification/Nachos_Network.thy ===== *)
theory Nachos_Network
  imports Nachos_Disk Complex_Main
begin

text \<open>
  \<^verbatim>\<open>machine/network.cc\<close> and \<^verbatim>\<open>network/post.cc\<close>: the network device, which exchanges packets of fixed size with the
  devices of other machines, and the post office, which sends mail to the mailboxes of other machines and
  sorts what arrives. The host's datagram sockets (\<^verbatim>\<open>machine/sysdep.cc\<close>) are a queue of packets for every address
  that has been opened. \<open>big\<close> is the byte order of the host, \<open>junk\<close> what an uninitialised buffer holds, \<open>rnd\<close> what
  \<^verbatim>\<open>Random()\<close> returns; the reliability, a \<^verbatim>\<open>double\<close>, is a real number.
\<close>

section \<open>Packets\<close>

record PacketHeader =
  pkt_to :: int
  pkt_from :: int
  pkt_length :: int

record MailHeader =
  mail_to :: int
  mail_from :: int
  mail_length :: int

definition sizeof_PacketHeader :: nat where "sizeof_PacketHeader = 12"
definition sizeof_MailHeader :: nat where "sizeof_MailHeader = 12"
definition MaxWireSize :: nat where "MaxWireSize = 64"
definition MaxPacketSize :: nat where "MaxPacketSize = MaxWireSize - sizeof_PacketHeader"
definition MaxMailSize :: nat where "MaxMailSize = MaxPacketSize - sizeof_MailHeader"

lemmas packet_sizes = sizeof_PacketHeader_def sizeof_MailHeader_def MaxWireSize_def MaxPacketSize_def MaxMailSize_def

text \<open>The two headers in memory: two \<^verbatim>\<open>int\<close> and one \<^verbatim>\<open>unsigned\<close>.\<close>

definition header_bytes :: "bool \<Rightarrow> int \<Rightarrow> int \<Rightarrow> int \<Rightarrow> 8 word list" where
  "header_bytes big a b n = word_bytes big (word_of_int a) @ word_bytes big (word_of_int b) @ word_bytes big (word_of_int n)"

definition PacketHeader_of_bytes :: "bool \<Rightarrow> 8 word list \<Rightarrow> PacketHeader" where
  "PacketHeader_of_bytes big bs = \<lparr>pkt_to = sint (bytes_word big bs), pkt_from = sint (bytes_word big (drop 4 bs)),
     pkt_length = uint (bytes_word big (drop 8 bs))\<rparr>"

definition MailHeader_of_bytes :: "bool \<Rightarrow> 8 word list \<Rightarrow> MailHeader" where
  "MailHeader_of_bytes big bs = \<lparr>mail_to = sint (bytes_word big bs), mail_from = sint (bytes_word big (drop 4 bs)),
     mail_length = uint (bytes_word big (drop 8 bs))\<rparr>"

definition PacketHeader_bytes :: "bool \<Rightarrow> PacketHeader \<Rightarrow> 8 word list" where
  "PacketHeader_bytes big h = header_bytes big (pkt_to h) (pkt_from h) (pkt_length h)"

definition MailHeader_bytes :: "bool \<Rightarrow> MailHeader \<Rightarrow> 8 word list" where
  "MailHeader_bytes big h = header_bytes big (mail_to h) (mail_from h) (mail_length h)"

section \<open>Sockets\<close>

type_synonym wire = "int \<Rightarrow> 8 word list list option"

text \<open>\<^verbatim>\<open>OpenSocket\<close> with \<^verbatim>\<open>AssignNameToSocket\<close>, \<^verbatim>\<open>PollSocket\<close>, \<^verbatim>\<open>ReadFromSocket\<close> and \<^verbatim>\<open>SendToSocket\<close>.\<close>

definition open_socket :: "int \<Rightarrow> wire \<Rightarrow> wire" where
  "open_socket addr w = w(addr \<mapsto> [])"

definition PollSocket :: "int \<Rightarrow> wire \<Rightarrow> bool" where
  "PollSocket addr w = (case w addr of Some (p # ps) \<Rightarrow> True | _ \<Rightarrow> False)"

definition ReadFromSocket :: "int \<Rightarrow> nat \<Rightarrow> wire \<Rightarrow> (8 word list \<times> wire) res" where
  "ReadFromSocket addr packetSize w =
     (case w addr of
        Some (p # ps) \<Rightarrow> andThen (ASSERT (packetSize \<le> length p)) (\<lambda>_. Inr (take packetSize p, w(addr \<mapsto> ps)))
      | _ \<Rightarrow> Inl Diverges)"

definition SendToSocket :: "int \<Rightarrow> 8 word list \<Rightarrow> wire \<Rightarrow> bool \<times> wire" where
  "SendToSocket addr buffer w = (case w addr of None \<Rightarrow> (False, w) | Some ps \<Rightarrow> (True, w(addr \<mapsto> ps @ [buffer])))"

section \<open>The network device\<close>

record Network = Interrupt +
  ident :: int
  chanceToWork :: real
  sendBusy :: bool
  inHdr :: PacketHeader
  inbox :: "8 word list"
  sockets :: wire

text \<open>Numbers that stand for the addresses of \<^verbatim>\<open>NetworkReadPoll\<close>, \<^verbatim>\<open>NetworkSendDone\<close> and of the device.\<close>

definition NetworkReadPoll :: VoidFunctionPtr where "NetworkReadPoll = 10"
definition NetworkSendDone :: VoidFunctionPtr where "NetworkSendDone = 11"
definition this_network :: int where "this_network = 0"

definition Network_new :: "int \<Rightarrow> real \<Rightarrow> PacketHeader \<Rightarrow> (nat \<Rightarrow> 8 word) \<Rightarrow> wire \<Rightarrow> Interrupt \<Rightarrow> Network res" where
  "Network_new addr reliability junk_header junk w ic =
     Schedule NetworkReadPoll this_network NetworkTime NetworkRecvInt
       (Interrupt.extend ic \<lparr>ident = addr,
          chanceToWork = (if reliability < 0 then 0 else if reliability > 1 then 1 else reliability),
          sendBusy = False, inHdr = junk_header\<lparr>pkt_length := 0\<rparr>, inbox = map junk [0..<MaxPacketSize], sockets = open_socket addr w\<rparr>)"

text \<open>\<open>handler\<close> is the handler given to the constructor.\<close>

definition CheckPktAvail :: "bool \<Rightarrow> ('x Network_scheme \<Rightarrow> 'x Network_scheme res) \<Rightarrow> 'x Network_scheme \<Rightarrow> 'x Network_scheme res" where
  "CheckPktAvail big handler n0 =
     andThen (Schedule NetworkReadPoll this_network NetworkTime NetworkRecvInt n0) (\<lambda>n.
       if pkt_length (inHdr n) \<noteq> 0 then Inr n
       else if \<not> PollSocket (ident n) (sockets n) then Inr n
       else
         andThen (ReadFromSocket (ident n) MaxWireSize (sockets n)) (\<lambda>(buffer, w).
           let hdr = PacketHeader_of_bytes big buffer; len = nat (pkt_length hdr) in
           andThen (ASSERT (pkt_to hdr = ident n \<and> len \<le> MaxPacketSize)) (\<lambda>_.
             handler (n\<lparr>sockets := w, inHdr := hdr,
               inbox := take len (drop sizeof_PacketHeader buffer) @ drop len (inbox n),
               stats := (stats n)\<lparr>numPacketsRecvd := numPacketsRecvd (stats n) + 1\<rparr>\<rparr>))))"

definition SendDone :: "('x Network_scheme \<Rightarrow> 'x Network_scheme res) \<Rightarrow> 'x Network_scheme \<Rightarrow> 'x Network_scheme res" where
  "SendDone handler n =
     handler (n\<lparr>sendBusy := False, stats := (stats n)\<lparr>numPacketsSent := numPacketsSent (stats n) + 1\<rparr>\<rparr>)"

text \<open>A packet is padded to \<^verbatim>\<open>MaxWireSize\<close> with what the buffer held.\<close>

definition packet_bytes :: "bool \<Rightarrow> (nat \<Rightarrow> 8 word) \<Rightarrow> PacketHeader \<Rightarrow> 8 word list \<Rightarrow> 8 word list" where
  "packet_bytes big junk hdr data =
     take MaxWireSize (PacketHeader_bytes big hdr @ take (nat (pkt_length hdr)) data @ map junk [0..<MaxWireSize])"

definition Network_Send ::
    "bool \<Rightarrow> nat \<Rightarrow> (nat \<Rightarrow> 8 word) \<Rightarrow> PacketHeader \<Rightarrow> 8 word list \<Rightarrow> 'x Network_scheme \<Rightarrow> (bool \<times> 'x Network_scheme) res" where
  "Network_Send big rnd junk hdr data n =
     andThen (ASSERT (\<not> sendBusy n \<and> pkt_length hdr > 0 \<and> pkt_length hdr \<le> int MaxPacketSize \<and> pkt_from hdr = ident n)) (\<lambda>_.
     andThen (Schedule NetworkSendDone this_network NetworkTime NetworkSendInt n) (\<lambda>n1.
       if real (rnd mod 100) \<ge> chanceToWork n1 * 100 then Inr (True, n1)
       else if length data < nat (pkt_length hdr) then Inl Undefined
       else
         let (ok, w) = SendToSocket (pkt_to hdr) (packet_bytes big junk hdr data) (sockets n1)
         in Inr (ok, n1\<lparr>sockets := w\<rparr>)))"

text \<open>\<^verbatim>\<open>Receive\<close>: the header, and the caller's buffer \<open>data\<close> with the packet copied into it.\<close>

definition Network_Receive :: "8 word list \<Rightarrow> 'x Network_scheme \<Rightarrow> PacketHeader \<times> 8 word list \<times> 'x Network_scheme" where
  "Network_Receive data n =
     (let hdr = inHdr n; len = nat (pkt_length hdr)
      in (hdr, take len (inbox n) @ drop len data, n\<lparr>inHdr := hdr\<lparr>pkt_length := 0\<rparr>\<rparr>))"

section \<open>The post office\<close>

record Mail =
  mail_pktHdr :: PacketHeader
  mail_mailHdr :: MailHeader
  mail_data :: "8 word list"

definition Mail_new :: "PacketHeader \<Rightarrow> MailHeader \<Rightarrow> 8 word list \<Rightarrow> Mail res" where
  "Mail_new pktH mailH msgData =
     andThen (ASSERT (mail_length mailH \<le> int MaxMailSize)) (\<lambda>_.
       if length msgData < nat (mail_length mailH) then Inl Undefined
       else Inr \<lparr>mail_pktHdr = pktH, mail_mailHdr = mailH, mail_data = take (nat (mail_length mailH)) msgData\<rparr>)"

text \<open>
  The threads of a post office between two kernel calls: the postal worker, and clients that send or
  receive. \<open>S_lock\<close> is about to acquire the lock, \<open>S_wait\<close> waits for the interrupt, \<open>S_unlock\<close> is about to release
  the lock; \<open>R_get box\<close> waits for mail in \<open>box\<close>; \<open>C_sent\<close> and \<open>C_got\<close> have their result.
\<close>

datatype worker_pc = W_wait | W_got | W_put Mail

datatype client_pc =
    C_idle
  | S_lock PacketHeader MailHeader "8 word list"
  | S_wait bool
  | S_unlock bool
  | R_get int
  | C_sent bool
  | C_got Mail

text \<open>
  Semaphores and the lock stand for their contract: the value of a semaphore, the owner of a lock. A
  mailbox is a synchronised list of messages.
\<close>

record PostOffice = Network +
  netAddr :: int
  numBoxes :: int
  boxes :: "Mail list list"
  messageAvailable :: int
  messageSent :: int
  sendLock :: "nat option"
  worker :: worker_pc
  worker_buffer :: "8 word list"
  clients :: "nat \<Rightarrow> client_pc"

definition PostOffice_new ::
    "int \<Rightarrow> real \<Rightarrow> int \<Rightarrow> PacketHeader \<Rightarrow> (nat \<Rightarrow> 8 word) \<Rightarrow> wire \<Rightarrow> Interrupt \<Rightarrow> PostOffice res" where
  "PostOffice_new addr reliability nBoxes junk_header junk w ic =
     andThen (Network_new addr reliability junk_header junk w ic) (\<lambda>n.
       Inr (Network.extend n \<lparr>netAddr = addr, numBoxes = nBoxes, boxes = replicate (nat nBoxes) [],
         messageAvailable = 0, messageSent = 0, sendLock = None, worker = W_wait, worker_buffer = map junk [0..<MaxPacketSize],
         clients = (\<lambda>_. C_idle)\<rparr>))"

definition IncomingPacket :: "PostOffice \<Rightarrow> PostOffice res" where
  "IncomingPacket po = Inr (po\<lparr>messageAvailable := messageAvailable po + 1\<rparr>)"

definition PacketSent :: "PostOffice \<Rightarrow> PostOffice res" where
  "PacketSent po = Inr (po\<lparr>messageSent := messageSent po + 1\<rparr>)"

definition MailBox_Put :: "int \<Rightarrow> Mail \<Rightarrow> PostOffice \<Rightarrow> PostOffice res" where
  "MailBox_Put b m po =
     (if 0 \<le> b \<and> b < int (length (boxes po)) then Inr (po\<lparr>boxes := (boxes po)[nat b := boxes po ! nat b @ [m]]\<rparr>)
      else Inl Undefined)"

text \<open>\<^verbatim>\<open>PostalDelivery\<close> from the return of \<^verbatim>\<open>P\<close> to the call of \<^verbatim>\<open>Put\<close>.\<close>

definition PostalDelivery :: "bool \<Rightarrow> PostOffice \<Rightarrow> PostOffice res" where
  "PostalDelivery big po =
     (let (pktHdr, buffer, po1) = Network_Receive (worker_buffer po) po; mailHdr = MailHeader_of_bytes big buffer in
      andThen (ASSERT (0 \<le> mail_to mailHdr \<and> mail_to mailHdr < numBoxes po1)) (\<lambda>_.
      andThen (ASSERT (mail_length mailHdr \<le> int MaxMailSize)) (\<lambda>_.
      andThen (Mail_new pktHdr mailHdr (drop sizeof_MailHeader buffer)) (\<lambda>m.
        Inr (po1\<lparr>worker := W_put m, worker_buffer := buffer\<rparr>)))))"

text \<open>\<^verbatim>\<open>Send\<close> up to the call of \<^verbatim>\<open>Acquire\<close>.\<close>

definition PostOffice_Send :: "bool \<Rightarrow> nat \<Rightarrow> PacketHeader \<Rightarrow> MailHeader \<Rightarrow> 8 word list \<Rightarrow> PostOffice \<Rightarrow> PostOffice res" where
  "PostOffice_Send big t pktHdr mailHdr data po =
     andThen (ASSERT (mail_length mailHdr \<le> int MaxMailSize)) (\<lambda>_.
     andThen (ASSERT (0 \<le> mail_to mailHdr \<and> mail_to mailHdr < numBoxes po)) (\<lambda>_.
       if length data < nat (mail_length mailHdr) then Inl Undefined
       else
         let hdr = pktHdr\<lparr>pkt_from := netAddr po, pkt_length := mail_length mailHdr + int sizeof_MailHeader\<rparr>;
             buffer = MailHeader_bytes big mailHdr @ take (nat (mail_length mailHdr)) data
         in Inr (po\<lparr>clients := (clients po)(t := S_lock hdr mailHdr buffer)\<rparr>)))"

definition PostOffice_Receive :: "nat \<Rightarrow> int \<Rightarrow> PostOffice \<Rightarrow> PostOffice res" where
  "PostOffice_Receive t b po =
     andThen (ASSERT (b \<ge> 0 \<and> b < numBoxes po)) (\<lambda>_. Inr (po\<lparr>clients := (clients po)(t := R_get b)\<rparr>))"

section \<open>A cluster of machines\<close>

text \<open>The interrupts of the network device.\<close>

definition po_run :: "bool \<Rightarrow> PendingInterrupt \<Rightarrow> PostOffice \<Rightarrow> PostOffice res" where
  "po_run big p po = (if pi_type p = NetworkSendInt then SendDone PacketSent po else CheckPktAvail big IncomingPacket po)"

text \<open>
  What can happen on one machine: a client enters \<^verbatim>\<open>Send\<close> or \<^verbatim>\<open>Receive\<close> or comes back from a kernel call inside,
  the postal worker does, the clock ticks, or the next interrupt is looked at (\<open>E_clock True\<close> when the
  machine idles). \<open>None\<close> says that the thread has to wait.
\<close>

datatype event =
    E_send nat PacketHeader MailHeader "8 word list"
  | E_acquire nat nat
  | E_sent nat
  | E_release nat
  | E_receive nat int
  | E_get nat
  | E_next nat
  | E_work
  | E_clock bool
  | E_tick

primrec po_step :: "bool \<Rightarrow> (nat \<Rightarrow> 8 word) \<Rightarrow> event \<Rightarrow> PostOffice \<Rightarrow> PostOffice res option" where
  "po_step big junk (E_send t pktHdr mailHdr data) po =
     (if clients po t = C_idle then Some (PostOffice_Send big t pktHdr mailHdr data po) else None)"
| "po_step big junk (E_acquire t rnd) po =
     (case clients po t of
        S_lock hdr mailHdr buffer \<Rightarrow>
          if sendLock po = None then
            Some (andThen (Network_Send big rnd junk hdr buffer (po\<lparr>sendLock := Some t\<rparr>)) (\<lambda>(success, po1).
              Inr (po1\<lparr>clients := (clients po1)(t := S_wait success)\<rparr>)))
          else None
      | _ \<Rightarrow> None)"
| "po_step big junk (E_sent t) po =
     (case clients po t of
        S_wait success \<Rightarrow>
          if messageSent po > 0 then Some (Inr (po\<lparr>messageSent := messageSent po - 1, clients := (clients po)(t := S_unlock success)\<rparr>))
          else None
      | _ \<Rightarrow> None)"
| "po_step big junk (E_release t) po =
     (case clients po t of
        S_unlock success \<Rightarrow> Some (Inr (po\<lparr>sendLock := None, clients := (clients po)(t := C_sent success)\<rparr>))
      | _ \<Rightarrow> None)"
| "po_step big junk (E_receive t b) po =
     (if clients po t = C_idle then Some (PostOffice_Receive t b po) else None)"
| "po_step big junk (E_get t) po =
     (case clients po t of
        R_get b \<Rightarrow>
          (case boxes po ! nat b of
             [] \<Rightarrow> None
           | m # ms \<Rightarrow>
               Some (andThen (ASSERT (mail_length (mail_mailHdr m) \<le> int MaxMailSize)) (\<lambda>_.
                 Inr (po\<lparr>boxes := (boxes po)[nat b := ms], clients := (clients po)(t := C_got m)\<rparr>))))
      | _ \<Rightarrow> None)"
| "po_step big junk (E_next t) po =
     (case clients po t of
        C_sent success \<Rightarrow> Some (Inr (po\<lparr>clients := (clients po)(t := C_idle)\<rparr>))
      | C_got m \<Rightarrow> Some (Inr (po\<lparr>clients := (clients po)(t := C_idle)\<rparr>))
      | _ \<Rightarrow> None)"
| "po_step big junk E_work po =
     (case worker po of
        W_wait \<Rightarrow>
          if messageAvailable po > 0 then Some (Inr (po\<lparr>messageAvailable := messageAvailable po - 1, worker := W_got\<rparr>)) else None
      | W_got \<Rightarrow> Some (PostalDelivery big po)
      | W_put m \<Rightarrow> Some (MailBox_Put (mail_to (mail_mailHdr m)) m (po\<lparr>worker := W_wait\<rparr>)))"
| "po_step big junk (E_clock advance) po =
     Some (andThen (CheckIfDue (po_run big) Inr advance (po\<lparr>level := IntOff\<rparr>)) (\<lambda>(_, po1). Inr (po1\<lparr>level := level po\<rparr>)))"
| "po_step big junk E_tick po = Some (Inr (count_tick po))"

text \<open>
  Several machines share the wire. The last three fields record what has happened: the mail that the
  wire has accepted for an address, the mail that has been put into the boxes there, and the mail that
  clients there have taken out of each box.
\<close>

record Cluster =
  offices :: "int \<Rightarrow> PostOffice"
  started :: "int set"
  net :: wire
  posted :: "int \<Rightarrow> Mail list"
  arrived :: "int \<Rightarrow> Mail list"
  taken :: "int \<Rightarrow> int \<Rightarrow> Mail list"

text \<open>The mail that an event of a machine adds to the record.\<close>

definition posting :: "event \<Rightarrow> PostOffice \<Rightarrow> wire \<Rightarrow> int \<Rightarrow> Mail list" where
  "posting e po w b =
     (case e of
        E_acquire t rnd \<Rightarrow>
          (case clients po t of
             S_lock hdr mailHdr buffer \<Rightarrow>
               if b = pkt_to hdr \<and> w b \<noteq> sockets po b then
                 [\<lparr>mail_pktHdr = hdr, mail_mailHdr = mailHdr, mail_data = drop sizeof_MailHeader buffer\<rparr>]
               else []
           | _ \<Rightarrow> [])
      | _ \<Rightarrow> [])"

definition arriving :: "event \<Rightarrow> PostOffice \<Rightarrow> Mail list" where
  "arriving e po = (case e of E_work \<Rightarrow> (case worker po of W_put m \<Rightarrow> [m] | _ \<Rightarrow> []) | _ \<Rightarrow> [])"

definition taking :: "event \<Rightarrow> PostOffice \<Rightarrow> int \<Rightarrow> Mail list" where
  "taking e po b =
     (case e of E_get t \<Rightarrow> (case clients po t of R_get c \<Rightarrow> if b = c then take 1 (boxes po ! nat b) else [] | _ \<Rightarrow> []) | _ \<Rightarrow> [])"

definition cluster_step :: "bool \<Rightarrow> (nat \<Rightarrow> 8 word) \<Rightarrow> int \<Rightarrow> event \<Rightarrow> Cluster \<Rightarrow> Cluster res option" where
  "cluster_step big junk a e C =
     (if a \<notin> started C then None
      else
        let po = (offices C a)\<lparr>sockets := net C\<rparr> in
        case po_step big junk e po of
          None \<Rightarrow> None
        | Some r \<Rightarrow> Some (andThen r (\<lambda>po1. Inr (C\<lparr>offices := (offices C)(a := po1), net := sockets po1,
            posted := (\<lambda>b. posted C b @ posting e po (sockets po1) b),
            arrived := (arrived C)(a := arrived C a @ arriving e po),
            taken := (taken C)(a := (\<lambda>b. taken C a b @ taking e po b))\<rparr>))))"

text \<open>
  A set of machines that have just been started; \<open>N a\<close> is the number of mailboxes, \<open>rel a\<close> the reliability
  of the machine \<open>a\<close>.
\<close>

definition cluster_init :: "PacketHeader \<Rightarrow> (nat \<Rightarrow> 8 word) \<Rightarrow> (int \<Rightarrow> real) \<Rightarrow> (int \<Rightarrow> int) \<Rightarrow> int set \<Rightarrow> Interrupt \<Rightarrow> Cluster" where
  "cluster_init jh junk rel N A ic = \<lparr>
     offices = (\<lambda>a. projr (PostOffice_new a (rel a) (N a) jh junk (\<lambda>_. None) ic)),
     started = A, net = (\<lambda>a. if a \<in> A then Some [] else None), posted = (\<lambda>_. []), arrived = (\<lambda>_. []), taken = (\<lambda>_ _. [])\<rparr>"

text \<open>Calls with arguments of the C types, within the limits \<^verbatim>\<open>Send\<close> and \<^verbatim>\<open>Receive\<close> state.\<close>

definition int32 :: "int \<Rightarrow> bool" where
  "int32 n \<longleftrightarrow> - (2 ^ 31) \<le> n \<and> n < 2 ^ 31"

definition legal_event :: "int \<Rightarrow> event \<Rightarrow> bool" where
  "legal_event n e =
     (case e of
        E_send t pktHdr mailHdr data \<Rightarrow> int32 (pkt_to pktHdr) \<and> int32 (mail_to mailHdr) \<and> int32 (mail_from mailHdr) \<and>
          0 \<le> mail_length mailHdr \<and> mail_length mailHdr \<le> int MaxMailSize \<and> nat (mail_length mailHdr) \<le> length data \<and>
          0 \<le> mail_to mailHdr \<and> mail_to mailHdr < n
      | E_receive t b \<Rightarrow> 0 \<le> b \<and> b < n
      | _ \<Rightarrow> True)"

inductive cluster_reaches :: "bool \<Rightarrow> (nat \<Rightarrow> 8 word) \<Rightarrow> (int \<Rightarrow> int) \<Rightarrow> Cluster \<Rightarrow> Cluster \<Rightarrow> bool" for big junk N C0 where
  boot: "cluster_reaches big junk N C0 C0"
| event: "cluster_reaches big junk N C0 C \<Longrightarrow> legal_event (N a) e \<Longrightarrow> cluster_step big junk a e C = Some (Inr C') \<Longrightarrow>
    cluster_reaches big junk N C0 C'"

section \<open>Encoding and decoding\<close>

lemma length_header_bytes [simp]: "length (header_bytes big a b n) = 12"
  by (simp add: header_bytes_def)

lemma sint_of_int32: "int32 n \<Longrightarrow> sint (word_of_int n :: 32 word) = n"
  using to_int32_id [of n] by (simp add: int32_def to_int32_def)

lemma uint_32: "0 \<le> n \<Longrightarrow> n < 2 ^ 32 \<Longrightarrow> uint (word_of_int n :: 32 word) = n"
  by (simp add: uint_word_of_int_eq take_bit_int_eq_self)

lemma PacketHeader_round_trip:
  assumes "int32 (pkt_to h)" "int32 (pkt_from h)" "0 \<le> pkt_length h" "pkt_length h < 2 ^ 32"
  shows "PacketHeader_of_bytes big (PacketHeader_bytes big h @ bs) = h"
  using assms by (simp add: PacketHeader_of_bytes_def PacketHeader_bytes_def header_bytes_def sint_of_int32 uint_32)

lemma MailHeader_round_trip:
  assumes "int32 (mail_to h)" "int32 (mail_from h)" "0 \<le> mail_length h" "mail_length h < 2 ^ 32"
  shows "MailHeader_of_bytes big (MailHeader_bytes big h @ bs) = h"
  using assms by (simp add: MailHeader_of_bytes_def MailHeader_bytes_def header_bytes_def sint_of_int32 uint_32)

lemma bytes_word_cong: "take 4 bs = take 4 cs \<Longrightarrow> 4 \<le> length bs \<Longrightarrow> 4 \<le> length cs \<Longrightarrow> bytes_word big bs = bytes_word big cs"
proof -
  assume a: "take 4 bs = take 4 cs" "4 \<le> length bs" "4 \<le> length cs"
  have "bs ! i = cs ! i" if "i < 4" for i
    using arg_cong [OF a(1), of "\<lambda>xs. xs ! i"] that by (metis nth_take)
  then show ?thesis by (simp add: bytes_word_def host_word_def)
qed

lemma MailHeader_of_bytes_take:
  assumes "12 \<le> n" "n \<le> length bs"
  shows "MailHeader_of_bytes big (take n bs @ rest) = MailHeader_of_bytes big bs"
proof -
  have "bytes_word big (drop k (take n bs @ rest)) = bytes_word big (drop k bs)" if "k \<le> 8" for k
    using assms that by (intro bytes_word_cong) (auto simp: drop_take min_def)
  from this [of 0] this [of 4] this [of 8] show ?thesis by (simp add: MailHeader_of_bytes_def)
qed

text \<open>The mail in the data of a packet, and in a packet.\<close>

definition body_mail :: "bool \<Rightarrow> PacketHeader \<Rightarrow> 8 word list \<Rightarrow> Mail" where
  "body_mail big h body = (let mh = MailHeader_of_bytes big body in
     \<lparr>mail_pktHdr = h, mail_mailHdr = mh, mail_data = take (nat (mail_length mh)) (drop sizeof_MailHeader body)\<rparr>)"

definition packet_mail :: "bool \<Rightarrow> 8 word list \<Rightarrow> Mail" where
  "packet_mail big pkt = body_mail big (PacketHeader_of_bytes big pkt) (drop sizeof_PacketHeader pkt)"

definition mail_ok :: "int \<Rightarrow> int \<Rightarrow> Mail \<Rightarrow> bool" where
  "mail_ok n a m \<longleftrightarrow> pkt_to (mail_pktHdr m) = a \<and> 0 \<le> mail_to (mail_mailHdr m) \<and> mail_to (mail_mailHdr m) < n \<and>
     0 \<le> mail_length (mail_mailHdr m) \<and> mail_length (mail_mailHdr m) \<le> int MaxMailSize \<and>
     pkt_length (mail_pktHdr m) = mail_length (mail_mailHdr m) + int sizeof_MailHeader"

lemma body_mail_take:
  assumes "mail_ok n a (body_mail big h body)" "nat (pkt_length h) \<le> length body"
  shows "body_mail big h (take (nat (pkt_length h)) body @ rest) = body_mail big h body"
proof -
  let ?mh = "MailHeader_of_bytes big body"
  have l: "pkt_length h = mail_length ?mh + 12" "0 \<le> mail_length ?mh"
    using assms(1) by (simp_all add: mail_ok_def body_mail_def Let_def packet_sizes)
  then have "MailHeader_of_bytes big (take (nat (pkt_length h)) body @ rest) = ?mh"
    using assms(2) by (intro MailHeader_of_bytes_take) simp_all
  moreover have "nat (pkt_length h) = 12 + nat (mail_length ?mh)" using l by simp
  ultimately show ?thesis using assms(2) by (simp add: body_mail_def Let_def packet_sizes drop_take)
qed

lemma packet_round_trip:
  assumes "int32 (pkt_to h)" "int32 (pkt_from h)" "int32 (mail_to mh)" "int32 (mail_from mh)"
    and "mail_length mh = int (length data)" "length data \<le> MaxMailSize"
    and "pkt_length h = mail_length mh + int sizeof_MailHeader"
  shows "packet_mail big (packet_bytes big junk h (MailHeader_bytes big mh @ data)) =
      \<lparr>mail_pktHdr = h, mail_mailHdr = mh, mail_data = data\<rparr>"
    "length (packet_bytes big junk h (MailHeader_bytes big mh @ data)) = MaxWireSize"
proof -
  let ?tail = "take (52 - (12 + length data)) (map junk [0..<MaxWireSize])"
  have len: "nat (pkt_length h) = 12 + length data" using assms(5,7) by (simp add: packet_sizes)
  have mhl: "length (MailHeader_bytes big mh) = 12" by (simp add: MailHeader_bytes_def)
  have p: "packet_bytes big junk h (MailHeader_bytes big mh @ data) = PacketHeader_bytes big h @ MailHeader_bytes big mh @ data @ ?tail"
    using assms(6) len mhl by (simp add: packet_bytes_def PacketHeader_bytes_def packet_sizes)
  have "PacketHeader_of_bytes big (packet_bytes big junk h (MailHeader_bytes big mh @ data)) = h"
    unfolding p using assms by (intro PacketHeader_round_trip) (simp_all add: packet_sizes)
  moreover have "drop 12 (packet_bytes big junk h (MailHeader_bytes big mh @ data)) = MailHeader_bytes big mh @ data @ ?tail"
    unfolding p by (simp add: PacketHeader_bytes_def)
  moreover have "MailHeader_of_bytes big (MailHeader_bytes big mh @ data @ ?tail) = mh"
    using assms by (intro MailHeader_round_trip) (simp_all add: packet_sizes)
  ultimately show "packet_mail big (packet_bytes big junk h (MailHeader_bytes big mh @ data)) =
      \<lparr>mail_pktHdr = h, mail_mailHdr = mh, mail_data = data\<rparr>"
    using assms(5) mhl by (simp add: packet_mail_def body_mail_def Let_def packet_sizes)
  show "length (packet_bytes big junk h (MailHeader_bytes big mh @ data)) = MaxWireSize"
    unfolding p using assms(6) mhl by (simp add: PacketHeader_bytes_def packet_sizes)
qed

section \<open>Invariants\<close>

text \<open>What the clients and the postal worker of a machine \<open>a\<close> with \<open>n\<close> mailboxes can be doing.\<close>

definition client_ok :: "bool \<Rightarrow> int \<Rightarrow> int \<Rightarrow> client_pc \<Rightarrow> bool" where
  "client_ok big n a c =
     (case c of
        S_lock h mh buffer \<Rightarrow> int32 (pkt_to h) \<and> pkt_from h = a \<and> int32 (mail_to mh) \<and> int32 (mail_from mh) \<and>
          0 \<le> mail_to mh \<and> mail_to mh < n \<and> pkt_length h = mail_length mh + int sizeof_MailHeader \<and>
          (\<exists>data. buffer = MailHeader_bytes big mh @ data \<and> mail_length mh = int (length data) \<and> length data \<le> MaxMailSize)
      | R_get b \<Rightarrow> 0 \<le> b \<and> b < n
      | _ \<Rightarrow> True)"

definition worker_mail :: "worker_pc \<Rightarrow> Mail list" where
  "worker_mail w = (case w of W_put m \<Rightarrow> [m] | _ \<Rightarrow> [])"

definition inbox_mail :: "bool \<Rightarrow> PostOffice \<Rightarrow> Mail list" where
  "inbox_mail big po = (if pkt_length (inHdr po) \<noteq> 0 then [body_mail big (inHdr po) (inbox po)] else [])"

definition office_ok :: "bool \<Rightarrow> int \<Rightarrow> int \<Rightarrow> PostOffice \<Rightarrow> bool" where
  "office_ok big n a po \<longleftrightarrow> int32 a \<and> ident po = a \<and> netAddr po = a \<and> numBoxes po = n \<and> length (boxes po) = nat n \<and> \<not> sendBusy po \<and>
     length (inbox po) = MaxPacketSize \<and> length (worker_buffer po) = MaxPacketSize \<and> 0 \<le> messageAvailable po \<and>
     messageAvailable po + of_bool (worker po = W_got) = of_bool (pkt_length (inHdr po) \<noteq> 0) \<and>
     (\<forall>t. client_ok big n a (clients po t)) \<and> list_all (mail_ok n a) (worker_mail (worker po) @ inbox_mail big po) \<and>
     (\<forall>b < nat n. list_all (mail_ok n a) (boxes po ! b))"

definition wire_ok :: "bool \<Rightarrow> int \<Rightarrow> wire \<Rightarrow> bool" where
  "wire_ok big n w \<longleftrightarrow> (\<forall>a ps. w a = Some ps \<longrightarrow> list_all (\<lambda>p. length p = MaxWireSize \<and> mail_ok n a (packet_mail big p)) ps)"

definition queued :: "wire \<Rightarrow> int \<Rightarrow> 8 word list list" where
  "queued w a = (case w a of None \<Rightarrow> [] | Some ps \<Rightarrow> ps)"

text \<open>The mail on its way to the boxes of \<open>a\<close>, and the accounts of a cluster.\<close>

definition en_route :: "bool \<Rightarrow> int \<Rightarrow> PostOffice \<Rightarrow> wire \<Rightarrow> Mail list" where
  "en_route big a po w = worker_mail (worker po) @ inbox_mail big po @ map (packet_mail big) (queued w a)"

definition box_mail :: "int \<Rightarrow> Mail list \<Rightarrow> Mail list" where
  "box_mail b = filter (\<lambda>m. mail_to (mail_mailHdr m) = b)"

definition accounts_ok :: "bool \<Rightarrow> int \<Rightarrow> Cluster \<Rightarrow> bool" where
  "accounts_ok big n C \<longleftrightarrow> (\<forall>a \<in> started C. posted C a = arrived C a @ en_route big a (offices C a) (net C) \<and>
     (\<forall>b. 0 \<le> b \<and> b < n \<longrightarrow> taken C a b @ boxes (offices C a) ! nat b = box_mail b (arrived C a)))"

definition cluster_ok :: "bool \<Rightarrow> int \<Rightarrow> Cluster \<Rightarrow> bool" where
  "cluster_ok big n C \<longleftrightarrow> (\<forall>a \<in> started C. office_ok big n a (offices C a)) \<and> wire_ok big n (net C) \<and>
     dom (net C) = started C \<and> accounts_ok big n C"

text \<open>\<open>fits e po po'\<close>: the new state is well formed and its mail is the old mail with what the event adds and removes.\<close>

definition fits :: "bool \<Rightarrow> int \<Rightarrow> int \<Rightarrow> event \<Rightarrow> PostOffice \<Rightarrow> PostOffice \<Rightarrow> bool" where
  "fits big n a e po po' \<longleftrightarrow> office_ok big n a po' \<and> wire_ok big n (sockets po') \<and> dom (sockets po') = dom (sockets po) \<and>
     (\<forall>b. b \<noteq> a \<longrightarrow> map (packet_mail big) (queued (sockets po') b) = map (packet_mail big) (queued (sockets po) b) @ posting e po (sockets po') b) \<and>
     en_route big a po (sockets po) @ posting e po (sockets po') a = arriving e po @ en_route big a po' (sockets po') \<and>
     (\<forall>b. 0 \<le> b \<and> b < n \<longrightarrow> taking e po b @ boxes po' ! nat b = boxes po ! nat b @ box_mail b (arriving e po))"

text \<open>Events that only touch clients, semaphores, the lock or the clock.\<close>

lemma fits_local:
  assumes "office_ok big n a po'" "wire_ok big n (sockets po)" "sockets po' = sockets po" "boxes po' = boxes po"
    "worker_mail (worker po') = worker_mail (worker po)" "inHdr po' = inHdr po" "inbox po' = inbox po"
    "posting e po (sockets po') = (\<lambda>_. [])" "arriving e po = []" "taking e po = (\<lambda>_. [])"
  shows "fits big n a e po po'"
  using assms by (simp add: fits_def en_route_def inbox_mail_def box_mail_def)

lemmas event_mail = posting_def arriving_def taking_def fun_eq_iff

lemma office_ok_client:
  "office_ok big n a po \<Longrightarrow> client_ok big n a c \<Longrightarrow> office_ok big n a (po\<lparr>clients := (clients po)(t := c)\<rparr>)"
  by (auto simp: office_ok_def inbox_mail_def)

lemma office_ok_frame [simp]:
  "office_ok big n a (po\<lparr>sendLock := l\<rparr>) = office_ok big n a po" "office_ok big n a (po\<lparr>messageSent := x\<rparr>) = office_ok big n a po"
  "office_ok big n a (po\<lparr>level := lv\<rparr>) = office_ok big n a po" "office_ok big n a (po\<lparr>pending := ps\<rparr>) = office_ok big n a po"
  "office_ok big n a (po\<lparr>stats := st\<rparr>) = office_ok big n a po" "office_ok big n a (po\<lparr>status := x1\<rparr>) = office_ok big n a po"
  "office_ok big n a (po\<lparr>inHandler := x2\<rparr>) = office_ok big n a po" "office_ok big n a (po\<lparr>sockets := w\<rparr>) = office_ok big n a po"
  by (simp_all add: office_ok_def inbox_mail_def)

lemma fits_client:
  assumes "office_ok big n a po" "wire_ok big n (sockets po)" "client_ok big n a c"
    "posting e po (sockets po) = (\<lambda>_. [])" "arriving e po = []" "taking e po = (\<lambda>_. [])"
  shows "fits big n a e po (po\<lparr>clients := (clients po)(t := c)\<rparr>)"
  using assms by (intro fits_local office_ok_client) simp_all

lemma E_send_fits:
  assumes "office_ok big n a po" "wire_ok big n (sockets po)" "legal_event n (E_send t pktHdr mailHdr data)"
  shows "\<exists>po'. PostOffice_Send big t pktHdr mailHdr data po = Inr po' \<and> fits big n a (E_send t pktHdr mailHdr data) po po'"
proof -
  let ?hdr = "pktHdr\<lparr>pkt_from := netAddr po, pkt_length := mail_length mailHdr + int sizeof_MailHeader\<rparr>"
  let ?c = "S_lock ?hdr mailHdr (MailHeader_bytes big mailHdr @ take (nat (mail_length mailHdr)) data)"
  have "client_ok big n a ?c"
    using assms by (auto simp: client_ok_def legal_event_def office_ok_def)
  then have "fits big n a (E_send t pktHdr mailHdr data) po (po\<lparr>clients := (clients po)(t := ?c)\<rparr>)"
    using assms(1,2) by (intro fits_client) (simp_all add: event_mail)
  moreover have "PostOffice_Send big t pktHdr mailHdr data po = Inr (po\<lparr>clients := (clients po)(t := ?c)\<rparr>)"
    using assms by (simp add: PostOffice_Send_def legal_event_def office_ok_def)
  ultimately show ?thesis by blast
qed

lemma Schedule_network: "Schedule h x NetworkTime k po = Inr (po\<lparr>pending := seq_insert (PendingInterrupt_new h x (now po + NetworkTime) k) (now po + NetworkTime) (pending po)\<rparr>)"
  by (simp add: Schedule_def NetworkTime_def Let_def)

lemma queued_upd: "queued (w(a \<mapsto> ps)) b = (if b = a then ps else queued w b)"
  by (simp add: queued_def)

lemma E_acquire_fits:
  assumes "office_ok big n a po" "wire_ok big n (sockets po)" "po_step big junk (E_acquire t rnd) po = Some r"
  shows "\<exists>po'. r = Inr po' \<and> fits big n a (E_acquire t rnd) po po'"
proof -
  obtain h mh buffer where c: "clients po t = S_lock h mh buffer" "sendLock po = None"
    using assms(3) by (auto split: client_pc.splits if_splits)
  then obtain data where h: "int32 (pkt_to h)" "pkt_from h = a" "int32 (mail_to mh)" "int32 (mail_from mh)" "0 \<le> mail_to mh" "mail_to mh < n"
      "pkt_length h = mail_length mh + int sizeof_MailHeader"
      "buffer = MailHeader_bytes big mh @ data" "mail_length mh = int (length data)" "length data \<le> MaxMailSize"
    using assms(1) unfolding office_ok_def client_ok_def by (force split: client_pc.splits)
  have a: "int32 a" "ident po = a" "\<not> sendBusy po" using assms(1) by (simp_all add: office_ok_def)
  have len: "length buffer = nat (pkt_length h)" using h by (simp add: MailHeader_bytes_def packet_sizes)
  let ?p = "packet_bytes big junk h buffer"
  let ?m = "\<lparr>mail_pktHdr = h, mail_mailHdr = mh, mail_data = data\<rparr>"
  have p: "packet_mail big ?p = ?m" "length ?p = MaxWireSize"
    using packet_round_trip [of h mh data big junk] h a(1) by simp_all
  have m: "mail_ok n (pkt_to h) ?m" using h by (simp add: mail_ok_def)
  have d: "drop sizeof_MailHeader buffer = data" using h(8) by (simp add: MailHeader_bytes_def packet_sizes)
  define po1 where "po1 = po\<lparr>sendLock := Some t,
      pending := seq_insert (PendingInterrupt_new NetworkSendDone this_network (now po + NetworkTime) NetworkSendInt) (now po + NetworkTime) (pending po)\<rparr>"
  define lost where "lost \<longleftrightarrow> real (rnd mod 100) \<ge> chanceToWork po * 100"
  have r: "r = (let (ok, w) = (if lost then (True, sockets po) else SendToSocket (pkt_to h) ?p (sockets po))
      in Inr (po1\<lparr>sockets := w, clients := (clients po)(t := S_wait ok)\<rparr>))"
    using assms(3) c h a len
    by (auto simp: Network_Send_def Schedule_network lost_def po1_def packet_sizes Let_def split: prod.splits)
  have ok: "office_ok big n a (po1\<lparr>sockets := w, clients := (clients po)(t := S_wait b)\<rparr>)" for w b
    using office_ok_client [of big n a "po1\<lparr>sockets := w\<rparr>" "S_wait b" t] assms(1) by (simp add: po1_def client_ok_def)
  show ?thesis
  proof (cases "lost \<or> sockets po (pkt_to h) = None")
    case True
    have "r = Inr (po1\<lparr>sockets := sockets po, clients := (clients po)(t := S_wait lost)\<rparr>)"
      using r True by (simp add: SendToSocket_def split: if_splits)
    moreover have "fits big n a (E_acquire t rnd) po (po1\<lparr>sockets := sockets po, clients := (clients po)(t := S_wait lost)\<rparr>)"
      by (rule fits_local [OF ok assms(2)]) (simp_all add: po1_def event_mail c)
    ultimately show ?thesis by blast
  next
    case False
    then obtain ps where ps: "sockets po (pkt_to h) = Some ps" by blast
    let ?w = "(sockets po)(pkt_to h \<mapsto> ps @ [?p])"
    let ?po = "po1\<lparr>sockets := ?w, clients := (clients po)(t := S_wait True)\<rparr>"
    have "r = Inr ?po" using r False ps by (simp add: SendToSocket_def)
    moreover have "posting (E_acquire t rnd) po ?w b = (if b = pkt_to h then [?m] else [])" for b
      using c(1) ps d by (simp add: posting_def)
    moreover have "wire_ok big n ?w" using assms(2) p m ps by (auto simp: wire_ok_def)
    ultimately show ?thesis
      using ok ps p(1) by (auto simp: fits_def queued_def en_route_def inbox_mail_def po1_def arriving_def taking_def box_mail_def)
  qed
qed

text \<open>Mail leaves a box, or reaches it.\<close>

lemma E_get_fits:
  assumes "office_ok big n a po" "wire_ok big n (sockets po)" "po_step big junk (E_get t) po = Some r"
  shows "\<exists>po'. r = Inr po' \<and> fits big n a (E_get t) po po'"
proof -
  obtain b m ms where c: "clients po t = R_get b" "boxes po ! nat b = m # ms"
    using assms(3) by (auto split: client_pc.splits list.splits)
  have "client_ok big n a (clients po t)" using assms(1) by (simp add: office_ok_def)
  then have b: "0 \<le> b" "b < n" using c(1) by (simp_all add: client_ok_def)
  have len: "length (boxes po) = nat n" and m: "list_all (mail_ok n a) (boxes po ! nat b)"
    using assms(1) b by (simp_all add: office_ok_def)
  let ?po = "po\<lparr>boxes := (boxes po)[nat b := ms], clients := (clients po)(t := C_got m)\<rparr>"
  have "r = Inr ?po" using assms(3) c m by (simp add: mail_ok_def)
  moreover have "office_ok big n a ?po"
    using assms(1) b len m c(2) by (auto simp: office_ok_def inbox_mail_def client_ok_def nth_list_update)
  moreover have "taking (E_get t) po b' @ boxes ?po ! nat b' = boxes po ! nat b'" if "0 \<le> b'" "b' < n" for b'
    using c b that len by (auto simp: taking_def nth_list_update)
  ultimately show ?thesis
    using assms(2) by (simp add: fits_def en_route_def inbox_mail_def posting_def arriving_def box_mail_def)
qed

lemma body_mail_sel [simp]: "mail_pktHdr (body_mail big h body) = h" "mail_mailHdr (body_mail big h body) = MailHeader_of_bytes big body"
  by (simp_all add: body_mail_def Let_def)

lemma PostalDelivery_fits:
  assumes "office_ok big n a po" "wire_ok big n (sockets po)" "worker po = W_got"
  shows "\<exists>po'. PostalDelivery big po = Inr po' \<and> fits big n a E_work po po'"
proof -
  let ?h = "inHdr po" and ?m = "body_mail big (inHdr po) (inbox po)"
  have o: "numBoxes po = n" "length (inbox po) = 52" "length (worker_buffer po) = 52" "pkt_length ?h \<noteq> 0"
    "messageAvailable po = 0" "list_all (mail_ok n a) (inbox_mail big po)"
    using assms(1,3) by (auto simp: office_ok_def packet_sizes of_bool_def split: if_splits)
  have m: "mail_ok n a ?m" using o(4,6) by (simp add: inbox_mail_def)
  then have l: "0 \<le> mail_length (MailHeader_of_bytes big (inbox po))" "mail_length (MailHeader_of_bytes big (inbox po)) \<le> 40"
      "pkt_length ?h = mail_length (MailHeader_of_bytes big (inbox po)) + 12"
    by (simp_all add: mail_ok_def packet_sizes)
  define buf where "buf = take (nat (pkt_length ?h)) (inbox po) @ drop (nat (pkt_length ?h)) (worker_buffer po)"
  have buf: "body_mail big ?h buf = ?m" unfolding buf_def using m l o(2) by (intro body_mail_take) simp_all
  then have mh: "MailHeader_of_bytes big buf = MailHeader_of_bytes big (inbox po)" by (metis body_mail_sel(2))
  have blen: "length buf = 52" using l o by (simp add: buf_def)
  let ?po = "po\<lparr>inHdr := ?h\<lparr>pkt_length := 0\<rparr>, worker := W_put ?m, worker_buffer := buf\<rparr>"
  have "Mail_new ?h (MailHeader_of_bytes big buf) (drop 12 buf) = Inr ?m"
    using l blen buf by (simp add: Mail_new_def mh packet_sizes) (simp add: body_mail_def Let_def packet_sizes mh)
  moreover have "Network_Receive (worker_buffer po) po = (?h, buf, po\<lparr>inHdr := ?h\<lparr>pkt_length := 0\<rparr>\<rparr>)"
    by (simp add: Network_Receive_def Let_def buf_def)
  moreover have "0 \<le> mail_to (MailHeader_of_bytes big buf)" "mail_to (MailHeader_of_bytes big buf) < n"
    using m by (simp_all add: mail_ok_def mh)
  ultimately have "PostalDelivery big po = Inr ?po"
    using l(2) o(1) by (simp add: PostalDelivery_def Let_def mh packet_sizes)
  moreover have "office_ok big n a ?po"
    using assms(1,3) m blen o(5) by (auto simp: office_ok_def worker_mail_def inbox_mail_def packet_sizes)
  moreover have "en_route big a po (sockets po) = en_route big a ?po (sockets po)"
    using assms(3) o(4) by (simp add: en_route_def worker_mail_def inbox_mail_def)
  ultimately show ?thesis
    using assms(2,3) by (simp add: fits_def posting_def arriving_def taking_def box_mail_def)
qed

lemma E_work_fits:
  assumes "office_ok big n a po" "wire_ok big n (sockets po)" "po_step big junk E_work po = Some r"
  shows "\<exists>po'. r = Inr po' \<and> fits big n a E_work po po'"
proof (cases "worker po")
  case W_wait
  then have r: "messageAvailable po > 0" "r = Inr (po\<lparr>messageAvailable := messageAvailable po - 1, worker := W_got\<rparr>)"
    using assms(3) by (auto split: if_splits)
  moreover have "office_ok big n a (po\<lparr>messageAvailable := messageAvailable po - 1, worker := W_got\<rparr>)"
    using assms(1) W_wait r(1) by (auto simp: office_ok_def worker_mail_def inbox_mail_def)
  then have "fits big n a E_work po (po\<lparr>messageAvailable := messageAvailable po - 1, worker := W_got\<rparr>)"
    using assms(2) W_wait by (intro fits_local) (simp_all add: event_mail worker_mail_def)
  ultimately show ?thesis by blast
next
  case W_got
  then show ?thesis using PostalDelivery_fits [OF assms(1,2)] assms(3) by auto
next
  case (W_put m)
  let ?b = "mail_to (mail_mailHdr m)"
  have m: "mail_ok n a m" and len: "length (boxes po) = nat n"
    using assms(1) W_put by (simp_all add: office_ok_def worker_mail_def)
  then have b: "0 \<le> ?b" "?b < n" by (simp_all add: mail_ok_def)
  let ?po = "po\<lparr>worker := W_wait, boxes := (boxes po)[nat ?b := boxes po ! nat ?b @ [m]]\<rparr>"
  have "r = Inr ?po" using assms(3) W_put b len by (simp add: MailBox_Put_def)
  moreover have "office_ok big n a ?po"
    using assms(1) W_put m b len by (auto simp: office_ok_def worker_mail_def inbox_mail_def nth_list_update)
  moreover have "boxes ?po ! nat b' = boxes po ! nat b' @ box_mail b' [m]" if "0 \<le> b'" "b' < n" for b'
    using b that len by (auto simp: box_mail_def nth_list_update)
  ultimately show ?thesis
    using assms(2) W_put by (simp add: fits_def en_route_def worker_mail_def inbox_mail_def posting_def arriving_def taking_def)
qed

text \<open>Interrupts.\<close>

lemma SendDone_fits:
  assumes "office_ok big n a po" "wire_ok big n (sockets po)"
  shows "\<exists>po'. SendDone PacketSent po = Inr po' \<and> fits big n a (E_clock x) po po'"
proof -
  let ?po = "po\<lparr>sendBusy := False, stats := (stats po)\<lparr>numPacketsSent := numPacketsSent (stats po) + 1\<rparr>, messageSent := messageSent po + 1\<rparr>"
  have "office_ok big n a ?po" using assms(1) by (auto simp: office_ok_def inbox_mail_def)
  then have "fits big n a (E_clock x) po ?po" using assms(2) by (intro fits_local) (simp_all add: event_mail)
  then show ?thesis by (simp add: SendDone_def PacketSent_def)
qed

lemma CheckPktAvail_fits:
  assumes "office_ok big n a po" "wire_ok big n (sockets po)"
  shows "\<exists>po'. CheckPktAvail big IncomingPacket po = Inr po' \<and> fits big n a (E_clock x) po po'"
proof -
  define po1 where "po1 = po\<lparr>pending :=
    seq_insert (PendingInterrupt_new NetworkReadPoll this_network (now po + NetworkTime) NetworkRecvInt) (now po + NetworkTime) (pending po)\<rparr>"
  have po1: "office_ok big n a po1" "sockets po1 = sockets po" "inHdr po1 = inHdr po" "inbox po1 = inbox po" "boxes po1 = boxes po"
    "worker po1 = worker po" "ident po1 = a" "messageAvailable po1 = messageAvailable po"
    using assms(1) by (auto simp: po1_def office_ok_def inbox_mail_def)
  have idle: "fits big n a (E_clock x) po po1" by (rule fits_local [OF po1(1) assms(2)]) (simp_all add: po1 event_mail)
  show ?thesis
  proof (cases "pkt_length (inHdr po) \<noteq> 0 \<or> \<not> PollSocket a (sockets po)")
    case True
    then have "CheckPktAvail big IncomingPacket po = Inr po1"
      by (auto simp: CheckPktAvail_def Schedule_network po1_def [symmetric] po1)
    then show ?thesis using idle by blast
  next
    case False
    then obtain p ps where p: "sockets po a = Some (p # ps)" and h0: "pkt_length (inHdr po) = 0"
      by (auto simp: PollSocket_def split: option.splits list.splits)
    have pok: "length p = 64" "mail_ok n a (packet_mail big p)" "list_all (\<lambda>p. length p = 64 \<and> mail_ok n a (packet_mail big p)) ps"
      using assms(2) [unfolded wire_ok_def, rule_format, OF p] by (simp_all add: MaxWireSize_def)
    let ?h = "PacketHeader_of_bytes big p"
    let ?len = "nat (pkt_length ?h)"
    have h: "pkt_to ?h = a" "?len \<le> 52" "0 < pkt_length ?h"
      using pok(2) by (auto simp: packet_mail_def mail_ok_def packet_sizes)
    let ?w = "(sockets po)(a \<mapsto> ps)"
    let ?in = "take ?len (drop 12 p) @ drop ?len (inbox po)"
    let ?po = "po1\<lparr>sockets := ?w, inHdr := ?h, inbox := ?in,
        stats := (stats po1)\<lparr>numPacketsRecvd := numPacketsRecvd (stats po1) + 1\<rparr>, messageAvailable := messageAvailable po + 1\<rparr>"
    have run: "CheckPktAvail big IncomingPacket po = Inr ?po"
      using p h0 h pok(1)
      by (simp add: CheckPktAvail_def Schedule_network po1_def [symmetric] po1 PollSocket_def ReadFromSocket_def IncomingPacket_def
          packet_sizes Let_def)
    have m: "body_mail big ?h ?in = packet_mail big p"
      unfolding packet_mail_def sizeof_PacketHeader_def
      using pok(1,2) h(2) by (intro body_mail_take) (simp_all add: packet_mail_def sizeof_PacketHeader_def)
    have idle_worker: "worker po \<noteq> W_got" "messageAvailable po = 0"
      using assms(1) h0 by (auto simp: office_ok_def of_bool_def split: if_splits)
    have il: "length ?in = 52" using assms(1) pok(1) h(2) by (simp add: office_ok_def packet_sizes)
    have ok: "office_ok big n a ?po"
      using po1(1) idle_worker il m pok(2) h(3) by (auto simp: office_ok_def inbox_mail_def po1 packet_sizes)
    have "wire_ok big n ?w" using assms(2) pok(3) by (auto simp: wire_ok_def MaxWireSize_def)
    moreover have "en_route big a po (sockets po) = en_route big a ?po ?w"
      using p h0 h(3) m by (simp add: en_route_def inbox_mail_def po1 queued_def)
    ultimately have "fits big n a (E_clock x) po ?po"
      using ok p by (auto simp: fits_def po1 queued_def posting_def arriving_def taking_def box_mail_def)
    then show ?thesis using run by blast
  qed
qed

lemma po_run_fits:
  "office_ok big n a po \<Longrightarrow> wire_ok big n (sockets po) \<Longrightarrow> \<exists>po'. po_run big p po = Inr po' \<and> fits big n a (E_clock x) po po'"
  using SendDone_fits CheckPktAvail_fits by (simp add: po_run_def)

text \<open>The fields of the interrupt controller do not matter.\<close>

definition ic_frame :: "PostOffice \<Rightarrow> PostOffice \<Rightarrow> bool" where
  "ic_frame po po' \<longleftrightarrow> sockets po' = sockets po \<and> worker po' = worker po \<and> inHdr po' = inHdr po \<and> inbox po' = inbox po \<and>
     boxes po' = boxes po \<and> clients po' = clients po \<and> ident po' = ident po \<and> netAddr po' = netAddr po \<and> numBoxes po' = numBoxes po \<and>
     sendBusy po' = sendBusy po \<and> worker_buffer po' = worker_buffer po \<and> messageAvailable po' = messageAvailable po"

lemma ic_frame_fields:
  assumes "ic_frame po po'"
  shows "sockets po' = sockets po" "worker po' = worker po" "inHdr po' = inHdr po" "inbox po' = inbox po" "boxes po' = boxes po"
    "clients po' = clients po" "office_ok big n a po' = office_ok big n a po"
  using assms by (simp_all add: ic_frame_def office_ok_def inbox_mail_def)

lemma fits_clock_cong:
  assumes "fits big n a (E_clock x) q q'" "ic_frame po q" "ic_frame q' po'"
  shows "fits big n a (E_clock x) po po'"
proof -
  have "inbox_mail big q = inbox_mail big po" "inbox_mail big po' = inbox_mail big q'"
    using assms(2,3) by (simp_all add: ic_frame_def inbox_mail_def)
  then show ?thesis
    using assms(1) ic_frame_fields [OF assms(2)] ic_frame_fields [OF assms(3)]
    by (simp add: fits_def en_route_def posting_def arriving_def taking_def)
qed

lemma E_clock_fits:
  assumes "office_ok big n a po" "wire_ok big n (sockets po)" "po_step big junk (E_clock adv) po = Some r"
  shows "\<exists>po'. r = Inr po' \<and> fits big n a (E_clock adv) po po'"
proof -
  have ic: "fits big n a (E_clock adv) po po'" if "ic_frame po po'" for po'
    using ic_frame_fields [OF that] assms(1,2) by (intro fits_local) (simp_all add: event_mail)
  have "\<exists>f po'. CheckIfDue (po_run big) Inr adv (po\<lparr>level := IntOff\<rparr>) = Inr (f, po') \<and>
      (\<forall>l. fits big n a (E_clock adv) po (po'\<lparr>level := l\<rparr>))"
  proof (cases "pending po")
    case Nil
    then show ?thesis using ic by (auto simp: CheckIfDue_def ic_frame_def)
  next
    case (Cons e rest)
    obtain p due_at where e: "e = (p, due_at)" by (cases e)
    define s1 where "s1 = po\<lparr>level := IntOff, pending := rest\<rparr>"
    define s2 where "s2 = (if adv then advance_clock due_at s1 else s1)"
    define s3 where "s3 = s2\<lparr>inHandler := True, status := SystemMode\<rparr>"
    have fr: "ic_frame po s3" by (auto simp: s3_def s2_def s1_def advance_clock_def ic_frame_def)
    obtain q where q: "po_run big p s3 = Inr q" "fits big n a (E_clock adv) s3 q"
      using po_run_fits [of big n a s3 p adv] ic_frame_fields(1) [OF fr] ic_frame_fields(7) [OF fr, of big n a] assms(1,2) by auto
    have fired: "fits big n a (E_clock adv) po (q\<lparr>status := status s2, inHandler := False, level := l\<rparr>)" for l
      using fits_clock_cong [OF q(2) fr] by (auto simp: ic_frame_def)
    have kept: "fits big n a (E_clock adv) po ((s\<lparr>pending := x\<rparr>)\<lparr>level := l\<rparr>)" if "s = s1 \<or> s = s2" for s l x
    proof (rule ic)
      have "ic_frame po s1" "ic_frame po s2" by (simp_all add: s2_def s1_def advance_clock_def ic_frame_def)
      then show "ic_frame po (s\<lparr>pending := x, level := l\<rparr>)" using that by (auto simp: ic_frame_def)
    qed
    have "CheckIfDue (po_run big) Inr adv (po\<lparr>level := IntOff\<rparr>) =
        (if \<not> adv \<and> due_at > now s1 then Inr (False, s1\<lparr>pending := seq_insert p due_at (pending s1)\<rparr>)
         else if status s2 = IdleMode \<and> pi_type p = TimerInt \<and> pending s2 = []
         then Inr (False, s2\<lparr>pending := seq_insert p due_at (pending s2)\<rparr>)
         else andThen (call_handler (po_run big) Inr p s2) (\<lambda>s. Inr (True, s)))"
      using Cons e by (simp add: CheckIfDue_def Let_def s1_def s2_def)
    moreover have "call_handler (po_run big) Inr p s2 = Inr (q\<lparr>status := status s2, inHandler := False\<rparr>)"
      using q(1) by (simp add: call_handler_def s3_def)
    ultimately show ?thesis using fired kept by auto
  qed
  then show ?thesis using assms(3) by auto
qed

lemma po_step_fits:
  assumes "office_ok big n a po" "wire_ok big n (sockets po)" "legal_event n e" "po_step big junk e po = Some r"
  shows "\<exists>po'. r = Inr po' \<and> fits big n a e po po'"
proof (cases e)
  case (E_send t pktHdr mailHdr data)
  then show ?thesis using E_send_fits [OF assms(1,2)] assms(3,4) by (auto split: if_splits)
next
  case (E_acquire t rnd)
  then show ?thesis using E_acquire_fits [OF assms(1,2)] assms(4) by blast
next
  case (E_sent t)
  then obtain ok where c: "clients po t = S_wait ok"
    "r = Inr (po\<lparr>messageSent := messageSent po - 1, clients := (clients po)(t := S_unlock ok)\<rparr>)"
    using assms(4) by (auto split: client_pc.splits if_splits)
  moreover have "office_ok big n a (po\<lparr>messageSent := messageSent po - 1, clients := (clients po)(t := S_unlock ok)\<rparr>)"
    using office_ok_client [of big n a "po\<lparr>messageSent := messageSent po - 1\<rparr>"] assms(1) by (simp add: client_ok_def)
  then have "fits big n a e po (po\<lparr>messageSent := messageSent po - 1, clients := (clients po)(t := S_unlock ok)\<rparr>)"
    using assms(2) E_sent by (intro fits_local) (simp_all add: event_mail)
  ultimately show ?thesis by blast
next
  case (E_release t)
  then obtain ok where c: "clients po t = S_unlock ok" "r = Inr (po\<lparr>sendLock := None, clients := (clients po)(t := C_sent ok)\<rparr>)"
    using assms(4) by (auto split: client_pc.splits if_splits)
  moreover have "office_ok big n a (po\<lparr>sendLock := None, clients := (clients po)(t := C_sent ok)\<rparr>)"
    using office_ok_client [of big n a "po\<lparr>sendLock := None\<rparr>"] assms(1) by (simp add: client_ok_def)
  then have "fits big n a e po (po\<lparr>sendLock := None, clients := (clients po)(t := C_sent ok)\<rparr>)"
    using assms(2) E_release by (intro fits_local) (simp_all add: event_mail)
  ultimately show ?thesis by blast
next
  case (E_receive t b)
  then have b: "0 \<le> b" "b < n" "r = PostOffice_Receive t b po" using assms(3,4) by (auto simp: legal_event_def split: if_splits)
  then have "fits big n a e po (po\<lparr>clients := (clients po)(t := R_get b)\<rparr>)"
    using assms(1,2) E_receive by (intro fits_client) (simp_all add: event_mail client_ok_def)
  moreover have "r = Inr (po\<lparr>clients := (clients po)(t := R_get b)\<rparr>)" using b assms(1) by (simp add: PostOffice_Receive_def office_ok_def)
  ultimately show ?thesis by blast
next
  case (E_get t)
  then show ?thesis using E_get_fits [OF assms(1,2)] assms(4) by blast
next
  case (E_next t)
  then have "r = Inr (po\<lparr>clients := (clients po)(t := C_idle)\<rparr>)" using assms(4) by (auto split: client_pc.splits)
  moreover have "fits big n a e po (po\<lparr>clients := (clients po)(t := C_idle)\<rparr>)"
    using assms(1,2) E_next by (intro fits_client) (simp_all add: event_mail client_ok_def)
  ultimately show ?thesis by blast
next
  case E_work
  then show ?thesis using E_work_fits [OF assms(1,2)] assms(4) by blast
next
  case (E_clock adv)
  then show ?thesis using E_clock_fits [OF assms(1,2)] assms(4) by blast
next
  case E_tick
  have "office_ok big n a (count_tick po)" using assms(1) by (simp add: count_tick_def)
  then have "fits big n a e po (count_tick po)"
    using assms(2) E_tick by (intro fits_local) (simp_all add: event_mail count_tick_def)
  then show ?thesis using E_tick assms(4) by auto
qed

section \<open>Clusters\<close>

lemma en_route_sockets [simp]: "en_route big a (po\<lparr>sockets := v\<rparr>) w = en_route big a po w"
  by (simp add: en_route_def inbox_mail_def)

lemma cluster_step_ok:
  assumes C: "cluster_ok big n C" and e: "legal_event n e" "cluster_step big junk a e C = Some r"
  shows "\<exists>C'. r = Inr C' \<and> cluster_ok big n C' \<and> started C' = started C"
proof -
  let ?po = "(offices C a)\<lparr>sockets := net C\<rparr>"
  have a: "a \<in> started C" using e(2) by (auto simp: cluster_step_def split: if_splits)
  obtain x where x: "po_step big junk e ?po = Some x" using e(2) a by (auto simp: cluster_step_def Let_def split: option.splits)
  have c: "office_ok big n a ?po" "wire_ok big n (sockets ?po)" "dom (net C) = started C" "accounts_ok big n C"
    "\<And>b. b \<in> started C \<Longrightarrow> office_ok big n b (offices C b)"
    using C a by (simp_all add: cluster_ok_def)
  obtain po' where po': "x = Inr po'" "fits big n a e ?po po'" using po_step_fits [OF c(1,2) e(1) x] by blast
  define C' where "C' = C\<lparr>offices := (offices C)(a := po'), net := sockets po',
      posted := (\<lambda>b. posted C b @ posting e ?po (sockets po') b), arrived := (arrived C)(a := arrived C a @ arriving e ?po),
      taken := (taken C)(a := (\<lambda>b. taken C a b @ taking e ?po b))\<rparr>"
  have r: "r = Inr C'" using e(2) a x po'(1) by (simp add: cluster_step_def Let_def C'_def)
  have f: "office_ok big n a po'" "wire_ok big n (sockets po')" "dom (sockets po') = dom (net C)"
      "\<And>b. b \<noteq> a \<Longrightarrow> map (packet_mail big) (queued (sockets po') b) = map (packet_mail big) (queued (net C) b) @ posting e ?po (sockets po') b"
      "en_route big a (offices C a) (net C) @ posting e ?po (sockets po') a = arriving e ?po @ en_route big a po' (sockets po')"
      "\<And>b. 0 \<le> b \<Longrightarrow> b < n \<Longrightarrow> taking e ?po b @ boxes po' ! nat b = boxes (offices C a) ! nat b @ box_mail b (arriving e ?po)"
    using po'(2) by (simp_all add: fits_def)
  have acc: "posted C b = arrived C b @ en_route big b (offices C b) (net C)"
      "0 \<le> i \<Longrightarrow> i < n \<Longrightarrow> taken C b i @ boxes (offices C b) ! nat i = box_mail i (arrived C b)" if "b \<in> started C" for b i
    using c(4) that by (simp_all add: accounts_ok_def)
  have "posted C' b = arrived C' b @ en_route big b (offices C' b) (net C')" if "b \<in> started C" for b
  proof (cases "b = a")
    case True
    then show ?thesis using f(5) acc(1) [OF that] by (simp add: C'_def)
  next
    case False
    then show ?thesis using f(4) [of b] acc(1) [OF that] by (simp add: C'_def en_route_def)
  qed
  moreover have "taken C' b i @ boxes (offices C' b) ! nat i = box_mail i (arrived C' b)" if "b \<in> started C" "0 \<le> i" "i < n" for b i
  proof (cases "b = a")
    case True
    have "taken C' a i @ boxes (offices C' a) ! nat i = taken C a i @ boxes (offices C a) ! nat i @ box_mail i (arriving e ?po)"
      using f(6) [OF that(2,3)] by (simp add: C'_def)
    also have "\<dots> = box_mail i (arrived C a) @ box_mail i (arriving e ?po)" using acc(2) [OF that(1-3)] True by (metis append.assoc)
    finally show ?thesis using True by (simp add: C'_def box_mail_def)
  next
    case False
    then show ?thesis using acc(2) [OF that] by (simp add: C'_def)
  qed
  ultimately have "accounts_ok big n C'" by (simp add: accounts_ok_def C'_def)
  then have "cluster_ok big n C'" using f(1-3) c(3,5) by (simp add: cluster_ok_def C'_def)
  then show ?thesis using r by (simp add: C'_def)
qed

lemma PostOffice_new_ok:
  assumes "int32 a" "0 \<le> n"
  shows "office_ok big n a (projr (PostOffice_new a rel n jh junk w ic))"
    "worker (projr (PostOffice_new a rel n jh junk w ic)) = W_wait"
    "boxes (projr (PostOffice_new a rel n jh junk w ic)) = replicate (nat n) []"
    "inbox_mail big (projr (PostOffice_new a rel n jh junk w ic)) = []"
  using assms
  by (auto simp: PostOffice_new_def Network_new_def Schedule_network office_ok_def Interrupt.extend_def Network.extend_def
      client_ok_def worker_mail_def inbox_mail_def packet_sizes Let_def)

lemma cluster_init_ok:
  assumes "\<And>a. a \<in> A \<Longrightarrow> int32 a" "0 \<le> n"
  shows "cluster_ok big n (cluster_init jh junk rel (\<lambda>_. n) A ic)"
  using assms PostOffice_new_ok [OF assms(1,2)]
  by (auto simp: cluster_ok_def cluster_init_def wire_ok_def accounts_ok_def en_route_def worker_mail_def queued_def box_mail_def
      dom_def split: if_splits)

lemma cluster_reaches_ok:
  assumes "cluster_reaches big junk (\<lambda>_. n) (cluster_init jh junk rel (\<lambda>_. n) A ic) C" "\<And>a. a \<in> A \<Longrightarrow> int32 a" "0 \<le> n"
  shows "cluster_ok big n C \<and> started C = A"
  using assms(1)
proof induction
  case boot
  then show ?case using cluster_init_ok [OF assms(2,3)] by (simp add: cluster_init_def)
next
  case (event C a e C')
  then show ?case using cluster_step_ok [of big n C e junk a "Inr C'"] by auto
qed

section \<open>Properties\<close>

text \<open>Runs that are given by the list of their events, for examples.\<close>

primrec cluster_run :: "bool \<Rightarrow> (nat \<Rightarrow> 8 word) \<Rightarrow> (int \<times> event) list \<Rightarrow> Cluster \<Rightarrow> Cluster res option" where
  "cluster_run big junk [] C = Some (Inr C)"
| "cluster_run big junk (x # xs) C =
     (case cluster_step big junk (fst x) (snd x) C of Some (Inr C') \<Rightarrow> cluster_run big junk xs C' | r \<Rightarrow> r)"

lemma cluster_run_reaches:
  "cluster_run big junk es C = Some (Inr C') \<Longrightarrow> list_all (\<lambda>(a, e). legal_event (N a) e) es \<Longrightarrow> cluster_reaches big junk N C0 C \<Longrightarrow>
    cluster_reaches big junk N C0 C'"
proof (induction es arbitrary: C)
  case (Cons x es)
  obtain a e where x: "x = (a, e)" by (cases x)
  then obtain C1 where "cluster_step big junk a e C = Some (Inr C1)" "cluster_run big junk es C1 = Some (Inr C')"
    using Cons.prems(1) by (auto split: option.splits sum.splits)
  then show ?case using Cons.IH [of C1] Cons.prems(2,3) x cluster_reaches.event [of big junk N C0 C a e C1] by simp
qed simp

text \<open>Two machines, 0 and 1, and a letter from the first to box 1 of the second.\<close>

definition demo_header :: PacketHeader where "demo_header = \<lparr>pkt_to = 1, pkt_from = 0, pkt_length = 0\<rparr>"
definition demo_mail :: MailHeader where "demo_mail = \<lparr>mail_to = 1, mail_from = 0, mail_length = 2\<rparr>"

definition demo_cluster :: "(int \<Rightarrow> int) \<Rightarrow> Cluster" where
  "demo_cluster N = cluster_init demo_header (\<lambda>_. 7) (\<lambda>_. 1) N {0, 1} (Interrupt_new Statistics_new)"

definition demo_letter :: "(int \<times> event) list" where
  "demo_letter = [(0, E_send 5 demo_header demo_mail [72, 105]), (0, E_acquire 5 42), (1, E_clock True), (1, E_work)]"

definition demo_pickup :: "(int \<times> event) list" where
  "demo_pickup = demo_letter @ [(1, E_work), (1, E_work), (1, E_receive 3 1), (1, E_get 3)]"

definition demo_letter_mail :: Mail where
  "demo_letter_mail = \<lparr>mail_pktHdr = demo_header\<lparr>pkt_length := 14\<rparr>, mail_mailHdr = demo_mail, mail_data = [72, 105]\<rparr>"

lemma demo_pickup_run:
  "\<exists>C. cluster_run False (\<lambda>_. 7) demo_pickup (demo_cluster (\<lambda>_. 2)) = Some (Inr C) \<and> taken C 1 1 = [demo_letter_mail]"
proof -
  have "map_option (map_sum id (\<lambda>C. taken C 1 1)) (cluster_run False (\<lambda>_. 7) demo_pickup (demo_cluster (\<lambda>_. 2))) =
      Some (Inr [demo_letter_mail])"
    by code_simp
  then show ?thesis by (cases "cluster_run False (\<lambda>_. 7) demo_pickup (demo_cluster (\<lambda>_. 2))") (auto simp: map_sum_def split: sum.splits)
qed

lemma demo_pickup_legal: "list_all (\<lambda>(a, e). legal_event ((\<lambda>_. 2) a) e) demo_pickup"
  by code_simp

text \<open>
  Property C15. The post office delivers. In a cluster of machines with \<open>n\<close> mailboxes each, at every moment and for every
  box, the mail that clients have taken out of it, followed by the mail that lies in it and the mail for it that is
  still on its way, is exactly the mail that the wire has accepted for it, in that order. So mail that is not
  lost when it is sent arrives once, unchanged, with its headers, in its box and in the order of sending.
\<close>

theorem post_office_delivers:
  assumes "cluster_reaches big junk (\<lambda>_. n) (cluster_init jh junk rel (\<lambda>_. n) A ic) C" "\<forall>a \<in> A. int32 a" "0 \<le> n"
    and "a \<in> A" "0 \<le> b" "b < n"
  shows "box_mail b (posted C a) = taken C a b @ boxes (offices C a) ! nat b @ box_mail b (en_route big a (offices C a) (net C))"
proof -
  have C: "cluster_ok big n C" "started C = A" using cluster_reaches_ok [OF assms(1)] assms(2,3) by blast+
  then have "posted C a = arrived C a @ en_route big a (offices C a) (net C)"
    "taken C a b @ boxes (offices C a) ! nat b = box_mail b (arrived C a)"
    using assms(4-6) by (simp_all add: cluster_ok_def accounts_ok_def)
  then show ?thesis by (simp add: box_mail_def)
qed

theorem post_office_delivers_witness:
  "\<exists>C. cluster_run False (\<lambda>_. 7) demo_pickup (demo_cluster (\<lambda>_. 2)) = Some (Inr C) \<and> taken C 1 1 = [demo_letter_mail] \<and>
     box_mail 1 (posted C 1) = [demo_letter_mail] @ boxes (offices C 1) ! 1 @ box_mail 1 (en_route False 1 (offices C 1) (net C))"
proof -
  obtain C where C: "cluster_run False (\<lambda>_. 7) demo_pickup (demo_cluster (\<lambda>_. 2)) = Some (Inr C)" "taken C 1 1 = [demo_letter_mail]"
    using demo_pickup_run by blast
  have "cluster_reaches False (\<lambda>_. 7) (\<lambda>_. 2) (demo_cluster (\<lambda>_. 2)) C"
    by (rule cluster_run_reaches [OF C(1) demo_pickup_legal]) (rule cluster_reaches.boot)
  from post_office_delivers [OF this [unfolded demo_cluster_def], of 1 1] C show ?thesis by (simp add: int32_def)
qed

text \<open>
  Property C16. No assertion of the network device or the post office fails, and no buffer is read beyond its end, in a
  cluster whose machines have the same number of mailboxes, as long as clients pass addresses and sizes within
  the documented limits: every event that can happen leads to a next state.
\<close>

theorem post_office_never_faults:
  assumes "cluster_reaches big junk (\<lambda>_. n) (cluster_init jh junk rel (\<lambda>_. n) A ic) C" "\<forall>a \<in> A. int32 a" "0 \<le> n"
    and "legal_event n e"
  shows "cluster_step big junk a e C = None \<or> (\<exists>C'. cluster_step big junk a e C = Some (Inr C'))"
proof -
  have "cluster_ok big n C" using cluster_reaches_ok [OF assms(1)] assms(2,3) by blast
  then show ?thesis using cluster_step_ok [OF _ assms(4)] by (cases "cluster_step big junk a e C") blast+
qed

theorem post_office_never_faults_witness:
  "\<exists>C. cluster_run False (\<lambda>_. 7) demo_pickup (demo_cluster (\<lambda>_. 2)) = Some (Inr C) \<and>
     (\<exists>C'. cluster_step False (\<lambda>_. 7) 0 (E_clock True) C = Some (Inr C'))"
proof -
  obtain C where C: "cluster_run False (\<lambda>_. 7) demo_pickup (demo_cluster (\<lambda>_. 2)) = Some (Inr C)" using demo_pickup_run by blast
  have r: "cluster_reaches False (\<lambda>_. 7) (\<lambda>_. 2) (demo_cluster (\<lambda>_. 2)) C"
    by (rule cluster_run_reaches [OF C demo_pickup_legal]) (rule cluster_reaches.boot)
  have "\<And>a. a \<in> {0, 1} \<Longrightarrow> int32 a" by (auto simp: int32_def)
  then have "started C = {0, 1}" using cluster_reaches_ok [OF r [unfolded demo_cluster_def]] by simp
  then have "cluster_step False (\<lambda>_. 7) 0 (E_clock True) C \<noteq> None" by (simp add: cluster_step_def Let_def)
  with post_office_never_faults [OF r [unfolded demo_cluster_def], of "E_clock True" 0] C show ?thesis
    by (auto simp: int32_def legal_event_def)
qed

text \<open>
  A letter can abort the machine that receives it. \<^verbatim>\<open>PostOffice::Send\<close> compares the box of the addressee with the
  number of boxes of the sender; when the addressee has fewer, the assertion in \<^verbatim>\<open>PostalDelivery\<close> fails there.
\<close>

theorem small_post_office_aborts:
  "\<exists>C. cluster_reaches False (\<lambda>_. 7) (\<lambda>a. 2 - a) (demo_cluster (\<lambda>a. 2 - a)) C \<and>
     cluster_step False (\<lambda>_. 7) 1 E_work C = Some (Inl AssertFail)"
proof -
  have "map_option (map_sum id (\<lambda>C. case cluster_step False (\<lambda>_. 7) 1 E_work C of Some (Inl f) \<Rightarrow> f = AssertFail | _ \<Rightarrow> False))
      (cluster_run False (\<lambda>_. 7) demo_letter (demo_cluster (\<lambda>a. 2 - a))) = Some (Inr True)"
    by code_simp
  then obtain C where C: "cluster_run False (\<lambda>_. 7) demo_letter (demo_cluster (\<lambda>a. 2 - a)) = Some (Inr C)"
    "cluster_step False (\<lambda>_. 7) 1 E_work C = Some (Inl AssertFail)"
    by (cases "cluster_run False (\<lambda>_. 7) demo_letter (demo_cluster (\<lambda>a. 2 - a))") (auto simp: map_sum_def split: sum.splits option.splits)
  have "list_all (\<lambda>(a, e). legal_event ((\<lambda>a. 2 - a) a) e) demo_letter" by code_simp
  from cluster_run_reaches [OF C(1) this cluster_reaches.boot] C(2) show ?thesis by blast
qed

end
