(* ===== verification/Nachos_Stacks.thy ===== *)
theory Nachos_Stacks
  imports Nachos_Prelude
begin

text \<open>
  The example programs under \<^verbatim>\<open>c++example\<close> (beside \<^verbatim>\<open>code\<close>): stacks of integers as an array (\<^verbatim>\<open>stack.cc\<close>), of any type (\<^verbatim>\<open>templatestack.cc\<close>), and an
  abstract stack with two implementations, by an array and by a linked list (\<^verbatim>\<open>inheritstack.cc\<close>, \<^verbatim>\<open>list.cc\<close>). The locale
  \<open>lifo\<close> is the contract of the abstract class; it is interpreted on the four implementations. A test prints a list of lines;
  the headings of the main programs are left out.
\<close>

datatype 'a stack_line = Pushing 'a | Popping 'a

text \<open>An array allocated by \<^verbatim>\<open>new\<close> holds what memory held (\<open>junk\<close>).\<close>

definition new_array :: "(nat \<Rightarrow> 'a) \<Rightarrow> int \<Rightarrow> 'a list" where
  "new_array junk sz = map junk [0..<nat sz]"

definition array_store :: "int \<Rightarrow> 'a \<Rightarrow> 'a list \<Rightarrow> 'a list res" where
  "array_store i v a = (if 0 \<le> i \<and> i < int (length a) then Inr (a[nat i := v]) else Inl Undefined)"

definition array_load :: "int \<Rightarrow> 'a list \<Rightarrow> 'a res" where
  "array_load i a = (if 0 \<le> i \<and> i < int (length a) then Inr (a ! nat i) else Inl Undefined)"

section \<open>The tests\<close>

text \<open>
  The loops of the self tests, for any stack: fill it, or push a given number of times, and empty it. The loops that run until
  the stack is full or empty have a bound on their rounds.
\<close>

primrec fill_loop :: "nat \<Rightarrow> ('s \<Rightarrow> bool) \<Rightarrow> ('a \<Rightarrow> 's \<Rightarrow> 's res) \<Rightarrow> ('a \<Rightarrow> 'a) \<Rightarrow> 'a \<Rightarrow> 's \<Rightarrow> ('a stack_line list \<times> 's) res" where
  "fill_loop 0 full push incr count s = Inl Diverges"
| "fill_loop (Suc n) full push incr count s =
     (if full s then Inr ([], s)
      else andThen (push count s) (\<lambda>s1. andThen (fill_loop n full push incr (incr count) s1) (\<lambda>(out, s2). Inr (Pushing count # out, s2))))"

primrec push_loop :: "nat \<Rightarrow> ('s \<Rightarrow> bool) \<Rightarrow> ('a \<Rightarrow> 's \<Rightarrow> 's res) \<Rightarrow> ('a \<Rightarrow> 'a) \<Rightarrow> 'a \<Rightarrow> 's \<Rightarrow> ('a stack_line list \<times> 's) res" where
  "push_loop 0 full push incr count s = Inr ([], s)"
| "push_loop (Suc n) full push incr count s =
     andThen (ASSERT (\<not> full s)) (\<lambda>_.
     andThen (push count s) (\<lambda>s1. andThen (push_loop n full push incr (incr count) s1) (\<lambda>(out, s2). Inr (Pushing count # out, s2))))"

primrec drain_loop :: "nat \<Rightarrow> ('s \<Rightarrow> bool) \<Rightarrow> ('s \<Rightarrow> ('a \<times> 's) res) \<Rightarrow> 's \<Rightarrow> ('a stack_line list \<times> 's) res" where
  "drain_loop 0 is_empty pop s = Inl Diverges"
| "drain_loop (Suc n) is_empty pop s =
     (if is_empty s then Inr ([], s)
      else andThen (pop s) (\<lambda>(v, s1). andThen (drain_loop n is_empty pop s1) (\<lambda>(out, s2). Inr (Popping v # out, s2))))"

section \<open>The stack of \<^verbatim>\<open>stack.cc\<close>\<close>

record IntStack =
  is_size :: int
  is_top :: int
  is_stack :: "int list"

definition IntStack_new :: "(nat \<Rightarrow> int) \<Rightarrow> int \<Rightarrow> IntStack res" where
  "IntStack_new junk sz = andThen (ASSERT (sz \<ge> 1)) (\<lambda>_. Inr \<lparr>is_size = sz, is_top = 0, is_stack = new_array junk sz\<rparr>)"

definition IntStack_Full :: "IntStack \<Rightarrow> bool" where "IntStack_Full s \<longleftrightarrow> is_top s = is_size s"
definition IntStack_Empty :: "IntStack \<Rightarrow> bool" where "IntStack_Empty s \<longleftrightarrow> is_top s = 0"

definition IntStack_Push :: "int \<Rightarrow> IntStack \<Rightarrow> IntStack res" where
  "IntStack_Push value s =
     andThen (ASSERT (\<not> IntStack_Full s)) (\<lambda>_.
     andThen (array_store (is_top s) value (is_stack s)) (\<lambda>a. Inr (s\<lparr>is_top := is_top s + 1, is_stack := a\<rparr>)))"

definition IntStack_Pop :: "IntStack \<Rightarrow> (int \<times> IntStack) res" where
  "IntStack_Pop s =
     andThen (ASSERT (\<not> IntStack_Empty s)) (\<lambda>_.
     andThen (array_load (is_top s - 1) (is_stack s)) (\<lambda>v. Inr (v, s\<lparr>is_top := is_top s - 1\<rparr>)))"

definition IntStack_SelfTest :: "nat \<Rightarrow> IntStack \<Rightarrow> (int stack_line list \<times> IntStack) res" where
  "IntStack_SelfTest n s =
     andThen (fill_loop n IntStack_Full IntStack_Push (\<lambda>c. c + 1) 17 s) (\<lambda>(out1, s1).
     andThen (drain_loop n IntStack_Empty IntStack_Pop s1) (\<lambda>(out2, s2). Inr (out1 @ out2, s2)))"

definition stack_main :: "nat \<Rightarrow> (nat \<Rightarrow> int) \<Rightarrow> int stack_line list res" where
  "stack_main n junk = andThen (IntStack_new junk 10) (\<lambda>s. andThen (IntStack_SelfTest n s) (\<lambda>(out, _). Inr out))"

section \<open>The stack of \<^verbatim>\<open>templatestack.cc\<close>\<close>

record 'a TStack =
  ts_size :: int
  ts_top :: int
  ts_stack :: "'a list"

definition TStack_new :: "(nat \<Rightarrow> 'a) \<Rightarrow> int \<Rightarrow> 'a TStack res" where
  "TStack_new junk sz = andThen (ASSERT (sz \<ge> 1)) (\<lambda>_. Inr \<lparr>ts_size = sz, ts_top = 0, ts_stack = new_array junk sz\<rparr>)"

definition TStack_Full :: "'a TStack \<Rightarrow> bool" where "TStack_Full s \<longleftrightarrow> ts_top s = ts_size s"
definition TStack_Empty :: "'a TStack \<Rightarrow> bool" where "TStack_Empty s \<longleftrightarrow> ts_top s = 0"

definition TStack_Push :: "'a \<Rightarrow> 'a TStack \<Rightarrow> 'a TStack res" where
  "TStack_Push value s =
     andThen (ASSERT (\<not> TStack_Full s)) (\<lambda>_.
     andThen (array_store (ts_top s) value (ts_stack s)) (\<lambda>a. Inr (s\<lparr>ts_top := ts_top s + 1, ts_stack := a\<rparr>)))"

definition TStack_Pop :: "'a TStack \<Rightarrow> ('a \<times> 'a TStack) res" where
  "TStack_Pop s =
     andThen (ASSERT (\<not> TStack_Empty s)) (\<lambda>_.
     andThen (array_load (ts_top s - 1) (ts_stack s)) (\<lambda>v. Inr (v, s\<lparr>ts_top := ts_top s - 1\<rparr>)))"

text \<open>\<^verbatim>\<open>incr\<close> is the \<^verbatim>\<open>++\<close> of the type.\<close>

definition TStack_SelfTest :: "nat \<Rightarrow> ('a \<Rightarrow> 'a) \<Rightarrow> 'a \<Rightarrow> 'a TStack \<Rightarrow> ('a stack_line list \<times> 'a TStack) res" where
  "TStack_SelfTest n incr start s =
     andThen (fill_loop n TStack_Full TStack_Push incr start s) (\<lambda>(out1, s1).
     andThen (drain_loop n TStack_Empty TStack_Pop s1) (\<lambda>(out2, s2). Inr (out1 @ out2, s2)))"

definition template_main ::
    "nat \<Rightarrow> (nat \<Rightarrow> int) \<Rightarrow> (nat \<Rightarrow> 8 word) \<Rightarrow> (int stack_line list \<times> 8 word stack_line list) res" where
  "template_main n junk junk' =
     andThen (TStack_new junk 10) (\<lambda>s1. andThen (TStack_new junk' 10) (\<lambda>s2.
     andThen (TStack_SelfTest n (\<lambda>c. c + 1) 17 s1) (\<lambda>(out1, _).
     andThen (TStack_SelfTest n (\<lambda>c. c + 1) 97 s2) (\<lambda>(out2, _). Inr (out1, out2)))))"

section \<open>The list of \<^verbatim>\<open>list.cc\<close>\<close>

record IntElement =
  ie_next :: "nat option"
  ie_item :: int

record IntList =
  il_cells :: "nat \<rightharpoonup> IntElement" \<comment> \<open>the elements allocated\<close>
  il_brk :: nat \<comment> \<open>addresses from here on have never been allocated\<close>
  il_first :: "nat option"
  il_last :: "nat option"

definition IntList_new :: IntList where
  "IntList_new = \<lparr>il_cells = Map.empty, il_brk = 0, il_first = None, il_last = None\<rparr>"

definition IntList_Empty :: "IntList \<Rightarrow> bool" where "IntList_Empty l \<longleftrightarrow> il_first l = None"

definition IntElement_new :: "int \<Rightarrow> IntElement" where "IntElement_new value = \<lparr>ie_next = None, ie_item = value\<rparr>"

definition IntList_Prepend :: "int \<Rightarrow> IntList \<Rightarrow> IntList" where
  "IntList_Prepend value l =
     (let element = il_brk l; e = IntElement_new value in
      if IntList_Empty l then l\<lparr>il_cells := (il_cells l)(element \<mapsto> e), il_brk := Suc element, il_first := Some element, il_last := Some element\<rparr>
      else l\<lparr>il_cells := (il_cells l)(element \<mapsto> e\<lparr>ie_next := il_first l\<rparr>), il_brk := Suc element, il_first := Some element\<rparr>)"

definition IntList_Remove :: "IntList \<Rightarrow> (int \<times> IntList) res" where
  "IntList_Remove l =
     andThen (ASSERT (\<not> IntList_Empty l)) (\<lambda>_.
     case il_first l of
       None \<Rightarrow> Inl Undefined
     | Some element \<Rightarrow>
         case il_cells l element of
           None \<Rightarrow> Inl Undefined
         | Some e \<Rightarrow>
             let l1 = (if il_first l = il_last l then l\<lparr>il_first := None, il_last := None\<rparr> else l\<lparr>il_first := ie_next e\<rparr>) in
             Inr (ie_item e, l1\<lparr>il_cells := (il_cells l1)(element := None)\<rparr>))"

text \<open>The destructor.\<close>

primrec IntList_delete :: "nat \<Rightarrow> IntList \<Rightarrow> IntList res" where
  "IntList_delete 0 l = Inl Diverges"
| "IntList_delete (Suc n) l = (if IntList_Empty l then Inr l else andThen (IntList_Remove l) (\<lambda>(_, l1). IntList_delete n l1))"

section \<open>The stacks of \<^verbatim>\<open>inheritstack.cc\<close>\<close>

text \<open>The test of the abstract class: the virtual functions are arguments.\<close>

definition Stack_SelfTest ::
    "nat \<Rightarrow> ('s \<Rightarrow> bool) \<Rightarrow> ('s \<Rightarrow> bool) \<Rightarrow> (int \<Rightarrow> 's \<Rightarrow> 's res) \<Rightarrow> ('s \<Rightarrow> (int \<times> 's) res) \<Rightarrow> int \<Rightarrow> 's \<Rightarrow> (int stack_line list \<times> 's) res" where
  "Stack_SelfTest n full is_empty push pop numToPush s =
     andThen (push_loop (nat numToPush) full push (\<lambda>c. c + 1) 17 s) (\<lambda>(out1, s1).
     andThen (drain_loop n is_empty pop s1) (\<lambda>(out2, s2). Inr (out1 @ out2, s2)))"

record ArrayStack =
  as_size :: int
  as_top :: int
  as_stack :: "int list"

definition ArrayStack_new :: "(nat \<Rightarrow> int) \<Rightarrow> int \<Rightarrow> ArrayStack res" where
  "ArrayStack_new junk sz = andThen (ASSERT (sz \<ge> 1)) (\<lambda>_. Inr \<lparr>as_size = sz, as_top = 0, as_stack = new_array junk sz\<rparr>)"

definition ArrayStack_Full :: "ArrayStack \<Rightarrow> bool" where "ArrayStack_Full s \<longleftrightarrow> as_top s = as_size s"
definition ArrayStack_Empty :: "ArrayStack \<Rightarrow> bool" where "ArrayStack_Empty s \<longleftrightarrow> as_top s = 0"

definition ArrayStack_Push :: "int \<Rightarrow> ArrayStack \<Rightarrow> ArrayStack res" where
  "ArrayStack_Push value s =
     andThen (ASSERT (\<not> ArrayStack_Full s)) (\<lambda>_.
     andThen (array_store (as_top s) value (as_stack s)) (\<lambda>a. Inr (s\<lparr>as_top := as_top s + 1, as_stack := a\<rparr>)))"

definition ArrayStack_Pop :: "ArrayStack \<Rightarrow> (int \<times> ArrayStack) res" where
  "ArrayStack_Pop s =
     andThen (ASSERT (\<not> ArrayStack_Empty s)) (\<lambda>_.
     andThen (array_load (as_top s - 1) (as_stack s)) (\<lambda>v. Inr (v, s\<lparr>as_top := as_top s - 1\<rparr>)))"

text \<open>A \<^verbatim>\<open>ListStack\<close> is its list.\<close>

definition ListStack_new :: IntList where "ListStack_new = IntList_new"
definition ListStack_Push :: "int \<Rightarrow> IntList \<Rightarrow> IntList res" where "ListStack_Push value s = Inr (IntList_Prepend value s)"
definition ListStack_Empty :: "IntList \<Rightarrow> bool" where "ListStack_Empty s = IntList_Empty s"
definition ListStack_Full :: "IntList \<Rightarrow> bool" where "ListStack_Full s = False"
definition ListStack_Pop :: "IntList \<Rightarrow> (int \<times> IntList) res" where
  "ListStack_Pop s = andThen (ASSERT (\<not> ListStack_Empty s)) (\<lambda>_. IntList_Remove s)"

abbreviation ArrayStack_SelfTest :: "nat \<Rightarrow> int \<Rightarrow> ArrayStack \<Rightarrow> (int stack_line list \<times> ArrayStack) res" where
  "ArrayStack_SelfTest n \<equiv> Stack_SelfTest n ArrayStack_Full ArrayStack_Empty ArrayStack_Push ArrayStack_Pop"

abbreviation ListStack_SelfTest :: "nat \<Rightarrow> int \<Rightarrow> IntList \<Rightarrow> (int stack_line list \<times> IntList) res" where
  "ListStack_SelfTest n \<equiv> Stack_SelfTest n ListStack_Full ListStack_Empty ListStack_Push ListStack_Pop"

definition inherit_main :: "nat \<Rightarrow> (nat \<Rightarrow> int) \<Rightarrow> (int stack_line list \<times> int stack_line list) res" where
  "inherit_main n junk =
     andThen (ArrayStack_new junk 10) (\<lambda>s1.
     andThen (ArrayStack_SelfTest n 10 s1) (\<lambda>(out1, _).
     andThen (ListStack_SelfTest n 10 ListStack_new) (\<lambda>(out2, s2).
     andThen (IntList_delete n s2) (\<lambda>_. Inr (out1, out2)))))"

section \<open>The contract of a stack\<close>

text \<open>Sequences of operations, on a stack and on the list of its items; the result is what is popped.\<close>

datatype 'a stack_op = Op_push 'a | Op_pop

fun run_ops :: "('a \<Rightarrow> 's \<Rightarrow> 's res) \<Rightarrow> ('s \<Rightarrow> ('a \<times> 's) res) \<Rightarrow> 'a stack_op list \<Rightarrow> 's \<Rightarrow> 'a list res" where
  "run_ops push pop [] s = Inr []"
| "run_ops push pop (Op_push x # ops) s = andThen (push x s) (run_ops push pop ops)"
| "run_ops push pop (Op_pop # ops) s = andThen (pop s) (\<lambda>(x, s1). andThen (run_ops push pop ops s1) (\<lambda>xs. Inr (x # xs)))"

fun list_ops :: "nat option \<Rightarrow> 'a stack_op list \<Rightarrow> 'a list \<Rightarrow> 'a list res" where
  "list_ops m [] xs = Inr []"
| "list_ops m (Op_push x # ops) xs = (if m = Some (length xs) then Inl AssertFail else list_ops m ops (x # xs))"
| "list_ops m (Op_pop # ops) [] = Inl AssertFail"
| "list_ops m (Op_pop # ops) (x # xs) = andThen (list_ops m ops xs) (\<lambda>ys. Inr (x # ys))"

text \<open>A sequence of operations that never holds more than \<open>c\<close> items, starting with \<open>k\<close>.\<close>

fun within :: "nat \<Rightarrow> nat \<Rightarrow> 'a stack_op list \<Rightarrow> bool" where
  "within c k [] = True"
| "within c k (Op_push x # ops) \<longleftrightarrow> k < c \<and> within c (Suc k) ops"
| "within c k (Op_pop # ops) \<longleftrightarrow> within c (k - 1) ops"

lemma within_list_ops: "within c (length xs) ops \<Longrightarrow> list_ops (Some c) ops xs = list_ops None ops xs"
proof (induction ops arbitrary: xs)
  case (Cons x ops)
  show ?case by (cases x; cases xs) (use Cons in auto)
qed simp

text \<open>\<open>rep s m xs\<close>: the stack \<open>s\<close> has room for \<open>m\<close> items, any number if \<open>m = None\<close>, and holds \<open>xs\<close>, the top first.\<close>

locale lifo =
  fixes rep :: "'s \<Rightarrow> nat option \<Rightarrow> 'a list \<Rightarrow> bool"
    and full is_empty :: "'s \<Rightarrow> bool" and push :: "'a \<Rightarrow> 's \<Rightarrow> 's res" and pop :: "'s \<Rightarrow> ('a \<times> 's) res"
  assumes full: "rep s m xs \<Longrightarrow> full s \<longleftrightarrow> m = Some (length xs)"
    and empty: "rep s m xs \<Longrightarrow> is_empty s \<longleftrightarrow> xs = []"
    and push: "rep s m xs \<Longrightarrow> m \<noteq> Some (length xs) \<Longrightarrow> \<exists>s'. push x s = Inr s' \<and> rep s' m (x # xs)"
    and push_full: "rep s (Some (length xs)) xs \<Longrightarrow> push x s = Inl AssertFail"
    and pop: "rep s m (x # xs) \<Longrightarrow> \<exists>s'. pop s = Inr (x, s') \<and> rep s' m xs"
    and pop_empty: "rep s m [] \<Longrightarrow> pop s = Inl AssertFail"
begin

lemma run_ops_spec: "rep s m xs \<Longrightarrow> run_ops push pop ops s = list_ops m ops xs"
proof (induction m ops xs arbitrary: s rule: list_ops.induct)
  case (2 m x ops xs)
  show ?case
  proof (cases "m = Some (length xs)")
    case True
    then show ?thesis using push_full 2 by simp
  next
    case False
    then show ?thesis using push [OF "2.prems", of x] "2.IH" by auto
  qed
next
  case (4 m ops x xs)
  then show ?case using pop [OF "4.prems"] by auto
qed (simp_all add: pop_empty)

lemma drain_loop_spec:
  "rep s m xs \<Longrightarrow> length xs < n \<Longrightarrow> \<exists>s'. drain_loop n is_empty pop s = Inr (map Popping xs, s') \<and> rep s' m []"
proof (induction n arbitrary: s xs)
  case (Suc n)
  show ?case
  proof (cases xs)
    case Nil
    then show ?thesis using Suc.prems(1) empty by auto
  next
    case (Cons x ys)
    then obtain s1 where s1: "pop s = Inr (x, s1)" "rep s1 m ys" using pop Suc.prems(1) by blast
    then show ?thesis using Suc.IH [OF s1(2)] Suc.prems Cons empty by fastforce
  qed
qed simp

lemma push_loop_spec:
  assumes "rep s m xs" "\<And>c. m = Some c \<Longrightarrow> length xs + n \<le> c"
  shows "\<exists>s'. push_loop n full push incr count s = Inr (map (\<lambda>i. Pushing ((incr ^^ i) count)) [0..<n], s') \<and>
    rep s' m (rev (map (\<lambda>i. (incr ^^ i) count) [0..<n]) @ xs)"
  using assms
proof (induction n arbitrary: s xs count)
  case (Suc n)
  have room: "m \<noteq> Some (length xs)" using Suc.prems(2) by fastforce
  then obtain s1 where s1: "push count s = Inr s1" "rep s1 m (count # xs)" using push Suc.prems(1) by blast
  have range: "[0..<Suc n] = 0 # map Suc [0..<n]" by (simp add: upt_conv_Cons map_Suc_upt del: upt_Suc)
  have pows: "(incr ^^ Suc i) count = (incr ^^ i) (incr count)" for i by (simp add: funpow_swap1)
  obtain s' where "push_loop n full push incr (incr count) s1 = Inr (map (\<lambda>i. Pushing ((incr ^^ i) (incr count))) [0..<n], s')"
      "rep s' m (rev (map (\<lambda>i. (incr ^^ i) (incr count)) [0..<n]) @ count # xs)"
    using Suc.IH [OF s1(2)] Suc.prems(2) by fastforce
  then show ?case using s1(1) full [OF Suc.prems(1)] room unfolding range by (simp add: pows o_def del: funpow.simps)
qed simp

lemma push_loop_overflow:
  assumes "rep s (Some c) xs" "length xs \<le> c" "c < length xs + n"
  shows "push_loop n full push incr count s = Inl AssertFail"
  using assms
proof (induction n arbitrary: s xs count)
  case (Suc n)
  show ?case
  proof (cases "c = length xs")
    case True
    then show ?thesis using full [OF Suc.prems(1)] by simp
  next
    case False
    then obtain s1 where s1: "push count s = Inr s1" "rep s1 (Some c) (count # xs)" using push [OF Suc.prems(1)] by auto
    then show ?thesis using Suc.IH [OF s1(2)] Suc.prems full [OF Suc.prems(1)] False by simp
  qed
qed simp

lemma fill_loop_spec:
  assumes "rep s (Some c) xs" "length xs \<le> c" "c - length xs < n"
  shows "\<exists>s'. fill_loop n full push incr count s = Inr (map (\<lambda>i. Pushing ((incr ^^ i) count)) [0..<c - length xs], s') \<and>
    rep s' (Some c) (rev (map (\<lambda>i. (incr ^^ i) count) [0..<c - length xs]) @ xs)"
  using assms
proof (induction n arbitrary: s xs count)
  case (Suc n)
  show ?case
  proof (cases "c = length xs")
    case True
    then show ?thesis using full [OF Suc.prems(1)] Suc.prems(1) by simp
  next
    case False
    then obtain s1 where s1: "push count s = Inr s1" "rep s1 (Some c) (count # xs)" using push [OF Suc.prems(1)] by auto
    define k where "k = c - length (count # xs)"
    have range: "[0..<c - length xs] = 0 # map Suc [0..<k]"
      using False Suc.prems(2) by (simp add: k_def upt_conv_Cons map_Suc_upt Suc_diff_Suc)
    have pows: "(incr ^^ Suc i) count = (incr ^^ i) (incr count)" for i by (simp add: funpow_swap1)
    obtain s' where "fill_loop n full push incr (incr count) s1 = Inr (map (\<lambda>i. Pushing ((incr ^^ i) (incr count))) [0..<k], s')"
        "rep s' (Some c) (rev (map (\<lambda>i. (incr ^^ i) (incr count)) [0..<k]) @ count # xs)"
      using Suc.IH [OF s1(2)] Suc.prems False unfolding k_def by fastforce
    then show ?thesis using s1(1) full [OF Suc.prems(1)] False unfolding range by (simp add: pows o_def del: funpow.simps)
  qed
qed simp

end

section \<open>The implementations\<close>

text \<open>An array with its size and the index of the next free place.\<close>

definition array_rep :: "int \<Rightarrow> int \<Rightarrow> 'a list \<Rightarrow> nat option \<Rightarrow> 'a list \<Rightarrow> bool" where
  "array_rep sz t a m xs \<longleftrightarrow> m = Some (length a) \<and> sz = int (length a) \<and> t = int (length xs) \<and> length xs \<le> length a \<and> take (length xs) a = rev xs"

lemma array_rep_tests: "array_rep sz t a m xs \<Longrightarrow> t = sz \<longleftrightarrow> m = Some (length xs)" "array_rep sz t a m xs \<Longrightarrow> t = 0 \<longleftrightarrow> xs = []"
  by (auto simp: array_rep_def)

lemma array_rep_store:
  assumes "array_rep sz t a m xs" "m \<noteq> Some (length xs)"
  shows "\<exists>a'. array_store t x a = Inr a' \<and> array_rep sz (t + 1) a' m (x # xs)"
  using assms by (auto simp: array_rep_def array_store_def take_Suc_conv_app_nth)

lemma array_rep_load: "array_rep sz t a m (x # xs) \<Longrightarrow> array_load (t - 1) a = Inr x \<and> array_rep sz (t - 1) a m xs"
  by (auto simp: array_rep_def array_load_def take_Suc_conv_app_nth)

lemma array_rep_new: "1 \<le> sz \<Longrightarrow> array_rep sz 0 (new_array junk sz) (Some (nat sz)) []"
  by (simp add: array_rep_def new_array_def)

definition IntStack_rep :: "IntStack \<Rightarrow> nat option \<Rightarrow> int list \<Rightarrow> bool" where
  "IntStack_rep s = array_rep (is_size s) (is_top s) (is_stack s)"

definition TStack_rep :: "'a TStack \<Rightarrow> nat option \<Rightarrow> 'a list \<Rightarrow> bool" where
  "TStack_rep s = array_rep (ts_size s) (ts_top s) (ts_stack s)"

definition ArrayStack_rep :: "ArrayStack \<Rightarrow> nat option \<Rightarrow> int list \<Rightarrow> bool" where
  "ArrayStack_rep s = array_rep (as_size s) (as_top s) (as_stack s)"

lemmas int_stack_defs = IntStack_rep_def IntStack_Full_def IntStack_Empty_def IntStack_Push_def IntStack_Pop_def
lemmas template_stack_defs = TStack_rep_def TStack_Full_def TStack_Empty_def TStack_Push_def TStack_Pop_def
lemmas array_stack_defs = ArrayStack_rep_def ArrayStack_Full_def ArrayStack_Empty_def ArrayStack_Push_def ArrayStack_Pop_def

interpretation int_stack: lifo IntStack_rep IntStack_Full IntStack_Empty IntStack_Push IntStack_Pop
proof (unfold_locales, goal_cases)
  case (3 s m xs x)
  then show ?case using array_rep_store [of _ _ _ m xs x] array_rep_tests(1) by (fastforce simp: int_stack_defs)
qed (auto simp: int_stack_defs array_rep_tests dest: array_rep_load)

interpretation template_stack: lifo TStack_rep TStack_Full TStack_Empty TStack_Push TStack_Pop
proof (unfold_locales, goal_cases)
  case (3 s m xs x)
  then show ?case using array_rep_store [of _ _ _ m xs x] array_rep_tests(1) by (fastforce simp: template_stack_defs)
qed (auto simp: template_stack_defs array_rep_tests dest: array_rep_load)

interpretation array_stack: lifo ArrayStack_rep ArrayStack_Full ArrayStack_Empty ArrayStack_Push ArrayStack_Pop
proof (unfold_locales, goal_cases)
  case (3 s m xs x)
  then show ?case using array_rep_store [of _ _ _ m xs x] array_rep_tests(1) by (fastforce simp: array_stack_defs)
qed (auto simp: array_stack_defs array_rep_tests dest: array_rep_load)

text \<open>A linked list: the elements reached from \<open>p\<close>, with their addresses.\<close>

fun path :: "(nat \<rightharpoonup> IntElement) \<Rightarrow> nat option \<Rightarrow> nat list \<Rightarrow> int list \<Rightarrow> bool" where
  "path h p [] xs \<longleftrightarrow> p = None \<and> xs = []"
| "path h p (a # as) xs \<longleftrightarrow> p = Some a \<and> (\<exists>q y ys. xs = y # ys \<and> h a = Some \<lparr>ie_next = q, ie_item = y\<rparr> \<and> path h q as ys)"

definition IntList_rep :: "IntList \<Rightarrow> nat option \<Rightarrow> int list \<Rightarrow> bool" where
  "IntList_rep l m xs \<longleftrightarrow> m = None \<and> (\<exists>as. path (il_cells l) (il_first l) as xs \<and> distinct as \<and> dom (il_cells l) = set as \<and>
     list_all (\<lambda>a. a < il_brk l) as \<and> il_last l = (if as = [] then None else Some (last as)))"

lemma path_other: "a \<notin> set as \<Longrightarrow> path (h(a := v)) p as xs = path h p as xs"
  by (induction as arbitrary: p xs) auto

lemma path_empty: "path h p as xs \<Longrightarrow> (p = None \<longleftrightarrow> xs = []) \<and> (as = [] \<longleftrightarrow> xs = [])"
  by (cases as) auto

lemma IntList_rep_empty: "IntList_rep l m xs \<Longrightarrow> IntList_Empty l \<longleftrightarrow> xs = []"
  by (auto simp: IntList_rep_def IntList_Empty_def dest: path_empty)

lemma IntList_rep_Prepend:
  assumes "IntList_rep l m xs"
  shows "IntList_rep (IntList_Prepend x l) m (x # xs)"
proof -
  obtain as where as: "path (il_cells l) (il_first l) as xs" "distinct as" "dom (il_cells l) = set as" "list_all (\<lambda>a. a < il_brk l) as"
      "il_last l = (if as = [] then None else Some (last as))" "m = None"
    using assms by (auto simp: IntList_rep_def)
  have new: "il_brk l \<notin> set as" using as(4) by (auto simp: list_all_iff)
  have brk: "list_all (\<lambda>a. a < Suc (il_brk l)) (il_brk l # as)" using as(4) by (auto simp: list_all_iff)
  have "as = [] \<longleftrightarrow> il_first l = None" using path_empty [OF as(1)] by auto
  then show ?thesis unfolding IntList_rep_def IntList_Prepend_def IntList_Empty_def Let_def IntElement_new_def
    using as new brk path_empty [OF as(1)] path_other [OF new] by (intro conjI exI [of _ "il_brk l # as"]) auto
qed

lemma IntList_rep_Remove:
  assumes "IntList_rep l m (x # xs)"
  shows "\<exists>l'. IntList_Remove l = Inr (x, l') \<and> IntList_rep l' m xs"
proof -
  obtain as where as: "path (il_cells l) (il_first l) as (x # xs)" "distinct as" "dom (il_cells l) = set as" "list_all (\<lambda>a. a < il_brk l) as"
      "il_last l = (if as = [] then None else Some (last as))" "m = None"
    using assms by (auto simp: IntList_rep_def)
  obtain a bs q where bs: "as = a # bs" "il_first l = Some a" "il_cells l a = Some \<lparr>ie_next = q, ie_item = x\<rparr>" "path (il_cells l) q bs xs"
    using as(1) by (cases as) auto
  have new: "a \<notin> set bs" using as(2) bs(1) by simp
  have last: "il_first l = il_last l \<longleftrightarrow> bs = []" using as(2,5) bs(1,2) by (auto simp: last_in_set)
  have "bs = [] \<Longrightarrow> xs = [] \<and> q = None" using bs(4) by simp
  then show ?thesis unfolding IntList_rep_def IntList_Remove_def IntList_Empty_def Let_def
    using as bs new last path_other [OF new, of "il_cells l" None q xs]
    by (cases "bs = []") (auto intro!: exI [of _ bs])
qed

interpretation list_stack: lifo IntList_rep ListStack_Full ListStack_Empty ListStack_Push ListStack_Pop
proof (unfold_locales, goal_cases)
  case (1 s m xs)
  then show ?case by (simp add: ListStack_Full_def IntList_rep_def)
next
  case (2 s m xs)
  then show ?case by (simp add: ListStack_Empty_def IntList_rep_empty)
next
  case (3 s m xs x)
  then show ?case using IntList_rep_Prepend by (auto simp: ListStack_Push_def)
next
  case (4 s xs x)
  then show ?case by (simp add: IntList_rep_def)
next
  case (5 s m x xs)
  then show ?case using IntList_rep_Remove IntList_rep_empty by (fastforce simp: ListStack_Pop_def ListStack_Empty_def)
next
  case (6 s m)
  then show ?case using IntList_rep_empty by (fastforce simp: ListStack_Pop_def ListStack_Empty_def)
qed

lemma IntList_delete_spec: "IntList_rep l m xs \<Longrightarrow> length xs < n \<Longrightarrow> \<exists>l'. IntList_delete n l = Inr l' \<and> il_cells l' = Map.empty"
proof (induction n arbitrary: l xs)
  case (Suc n)
  show ?case
  proof (cases xs)
    case Nil
    then have "dom (il_cells l) = {}" using Suc.prems(1) path_empty by (fastforce simp: IntList_rep_def)
    then show ?thesis using Nil IntList_rep_empty [OF Suc.prems(1)] by simp
  next
    case (Cons y ys)
    then obtain l1 where "IntList_Remove l = Inr (y, l1)" "IntList_rep l1 m ys" using IntList_rep_Remove Suc.prems(1) by blast
    then show ?thesis using Suc Cons IntList_rep_empty [OF Suc.prems(1)] by simp
  qed
qed simp

lemma new_stacks:
  "1 \<le> sz \<Longrightarrow> \<exists>s. IntStack_new junk sz = Inr s \<and> IntStack_rep s (Some (nat sz)) []"
  "1 \<le> sz \<Longrightarrow> \<exists>s. TStack_new junk' sz = Inr s \<and> TStack_rep s (Some (nat sz)) []"
  "1 \<le> sz \<Longrightarrow> \<exists>s. ArrayStack_new junk sz = Inr s \<and> ArrayStack_rep s (Some (nat sz)) []"
  "IntList_rep ListStack_new None []"
  by (auto simp: IntStack_new_def IntStack_rep_def TStack_new_def TStack_rep_def ArrayStack_new_def ArrayStack_rep_def array_rep_new
      ListStack_new_def IntList_new_def IntList_rep_def)

section \<open>Properties\<close>

text \<open>
  Property C40. The two implementations of the abstract stack can replace each other: every sequence of pushes and pops that keeps within the size of the
  array pops the same values, or fails at the same place because the stack is empty, on an \<^verbatim>\<open>ArrayStack\<close> and on a \<^verbatim>\<open>ListStack\<close>.
\<close>

theorem stacks_interchangeable:
  assumes "1 \<le> sz" "within (nat sz) 0 ops"
  shows "\<exists>s. ArrayStack_new junk sz = Inr s \<and>
    run_ops ArrayStack_Push ArrayStack_Pop ops s = run_ops ListStack_Push ListStack_Pop ops ListStack_new"
proof -
  obtain s where s: "ArrayStack_new junk sz = Inr s" "ArrayStack_rep s (Some (nat sz)) []" using new_stacks(3) [OF assms(1)] by blast
  show ?thesis using s(1) array_stack.run_ops_spec [OF s(2), of ops] list_stack.run_ops_spec [OF new_stacks(4), of ops]
      within_list_ops [of "nat sz" "[]" ops] assms(2) by auto
qed

theorem stacks_interchangeable_witness:
  "\<exists>s. ArrayStack_new (\<lambda>_. 0) 2 = Inr s \<and> run_ops ArrayStack_Push ArrayStack_Pop [Op_push 5, Op_push 6, Op_pop, Op_push 7, Op_pop, Op_pop] s = Inr [6, 7, 5]"
proof -
  let ?ops = "[Op_push 5, Op_push 6, Op_pop, Op_push 7, Op_pop, Op_pop] :: int stack_op list"
  have "run_ops ListStack_Push ListStack_Pop ?ops ListStack_new = Inr [6, 7, 5]" by code_simp
  then show ?thesis using stacks_interchangeable [of 2 ?ops "\<lambda>_. 0"] by simp
qed

text \<open>What a self test prints.\<close>

definition test_lines :: "int \<Rightarrow> nat \<Rightarrow> int stack_line list" where
  "test_lines c n = map (\<lambda>i. Pushing (c + int i)) [0..<n] @ map (\<lambda>i. Popping (c + int i)) (rev [0..<n])"

lemma incr_int: "((\<lambda>c. c + 1) ^^ i) c = c + int i" for c :: int by (induction i) auto

text \<open>
  The self test of the abstract class does not depend on the implementation: it prints the numbers pushed and then the same numbers in reverse
  order, and the list is freed afterwards. Only an array that is too small makes a difference: the assertion in the test fails.
\<close>

theorem self_test_generic:
  assumes "1 \<le> sz" "nat k < n"
  shows "(\<exists>s. ArrayStack_new junk sz = Inr s \<and>
      (if k \<le> sz then \<exists>s'. ArrayStack_SelfTest n k s = Inr (test_lines 17 (nat k), s') else ArrayStack_SelfTest n k s = Inl AssertFail)) \<and>
    (\<exists>s' l. ListStack_SelfTest n k ListStack_new = Inr (test_lines 17 (nat k), s') \<and> IntList_delete n s' = Inr l \<and> il_cells l = Map.empty)"
proof -
  let ?xs = "rev (map (\<lambda>i. ((\<lambda>c. c + 1) ^^ i) (17 :: int)) [0..<nat k])"
  have lines: "map (\<lambda>i. Pushing (((\<lambda>c. c + 1) ^^ i) 17)) [0..<nat k] @ map Popping ?xs = test_lines 17 (nat k)"
    by (simp add: test_lines_def incr_int rev_map o_def)
  obtain s where s: "ArrayStack_new junk sz = Inr s" "ArrayStack_rep s (Some (nat sz)) []" using new_stacks(3) [OF assms(1)] by blast
  have "\<exists>s'. ArrayStack_SelfTest n k s = Inr (test_lines 17 (nat k), s')" if k: "k \<le> sz"
  proof -
    obtain s1 where s1: "push_loop (nat k) ArrayStack_Full ArrayStack_Push (\<lambda>c. c + 1) 17 s = Inr (map (\<lambda>i. Pushing (((\<lambda>c. c + 1) ^^ i) 17)) [0..<nat k], s1)"
        "ArrayStack_rep s1 (Some (nat sz)) (?xs @ [])"
      using array_stack.push_loop_spec [OF s(2), of "nat k" "\<lambda>c. c + 1" 17] nat_mono [OF k] by auto
    then show ?thesis using array_stack.drain_loop_spec [OF s1(2), of n] assms(2) lines by (auto simp: Stack_SelfTest_def)
  qed
  moreover have "ArrayStack_SelfTest n k s = Inl AssertFail" if "\<not> k \<le> sz"
    using array_stack.push_loop_overflow [OF s(2), of "nat k"] that assms(1) by (simp add: Stack_SelfTest_def)
  moreover have "\<exists>s' l. ListStack_SelfTest n k ListStack_new = Inr (test_lines 17 (nat k), s') \<and> IntList_delete n s' = Inr l \<and> il_cells l = Map.empty"
  proof -
    obtain s1 where s1: "push_loop (nat k) ListStack_Full ListStack_Push (\<lambda>c. c + 1) 17 ListStack_new =
        Inr (map (\<lambda>i. Pushing (((\<lambda>c. c + 1) ^^ i) 17)) [0..<nat k], s1)" "IntList_rep s1 None (?xs @ [])"
      using list_stack.push_loop_spec [OF new_stacks(4), of "nat k" "\<lambda>c. c + 1" 17] by auto
    then obtain s' where "ListStack_SelfTest n k ListStack_new = Inr (test_lines 17 (nat k), s')" "IntList_rep s' None []"
      using list_stack.drain_loop_spec [OF s1(2), of n] assms(2) lines by (auto simp: Stack_SelfTest_def)
    then show ?thesis using IntList_delete_spec [of s' None "[]" n] assms(2) by auto
  qed
  ultimately show ?thesis using s(1) by auto
qed

lemma TStack_SelfTest_spec:
  assumes "TStack_rep s (Some c) []" "c < n"
  shows "\<exists>s'. TStack_SelfTest n incr start s = Inr (map (\<lambda>i. Pushing ((incr ^^ i) start)) [0..<c] @ map (\<lambda>i. Popping ((incr ^^ i) start)) (rev [0..<c]), s')"
proof -
  obtain s1 where s1: "fill_loop n TStack_Full TStack_Push incr start s = Inr (map (\<lambda>i. Pushing ((incr ^^ i) start)) [0..<c], s1)"
      "TStack_rep s1 (Some c) (rev (map (\<lambda>i. (incr ^^ i) start) [0..<c]))"
    using template_stack.fill_loop_spec [OF assms(1), of n incr start] assms(2) by auto
  then show ?thesis using template_stack.drain_loop_spec [OF s1(2), of n] assms(2) by (auto simp: TStack_SelfTest_def rev_map o_def)
qed

lemma IntStack_SelfTest_spec:
  assumes "IntStack_rep s (Some c) []" "c < n"
  shows "\<exists>s'. IntStack_SelfTest n s = Inr (test_lines 17 c, s')"
proof -
  obtain s1 where s1: "fill_loop n IntStack_Full IntStack_Push (\<lambda>c. c + 1) 17 s = Inr (map (\<lambda>i. Pushing (((\<lambda>c. c + 1) ^^ i) 17)) [0..<c], s1)"
      "IntStack_rep s1 (Some c) (rev (map (\<lambda>i. ((\<lambda>c. c + 1) ^^ i) 17) [0..<c]))"
    using int_stack.fill_loop_spec [OF assms(1), of n "\<lambda>c. c + 1" 17] assms(2) by auto
  then show ?thesis using int_stack.drain_loop_spec [OF s1(2), of n] assms(2)
    by (auto simp: IntStack_SelfTest_def test_lines_def incr_int rev_map o_def)
qed

lemma incr_byte: "((\<lambda>c. c + 1) ^^ i) c = c + of_nat i" for c :: "8 word" by (induction i) auto

text \<open>The example programs run to their end and print each number or letter when it is pushed and again, in reverse order, when it is popped.\<close>

theorem example_programs_print:
  assumes "10 < n"
  shows "stack_main n junk = Inr (test_lines 17 10)"
    and "template_main n junk junk' =
      Inr (test_lines 17 10, map (\<lambda>i. Pushing (97 + of_nat i)) [0..<10] @ map (\<lambda>i. Popping (97 + of_nat i)) (rev [0..<10]))"
    and "inherit_main n junk = Inr (test_lines 17 10, test_lines 17 10)"
proof -
  show "stack_main n junk = Inr (test_lines 17 10)"
    using new_stacks(1) [of 10 junk] IntStack_SelfTest_spec [of _ 10 n] assms by (fastforce simp: stack_main_def)
  obtain s1 s2 where s: "TStack_new junk 10 = Inr s1" "TStack_rep s1 (Some 10) []" "TStack_new junk' 10 = Inr s2" "TStack_rep s2 (Some 10) []"
    using new_stacks(2) [of 10 junk] new_stacks(2) [of 10 junk'] by auto
  show "template_main n junk junk' =
      Inr (test_lines 17 10, map (\<lambda>i. Pushing (97 + of_nat i)) [0..<10] @ map (\<lambda>i. Popping (97 + of_nat i)) (rev [0..<10]))"
    using TStack_SelfTest_spec [OF s(2) assms, of "\<lambda>c. c + 1" 17] TStack_SelfTest_spec [OF s(4) assms, of "\<lambda>c. c + 1" 97] s(1,3)
    by (auto simp: template_main_def test_lines_def incr_int incr_byte)
  show "inherit_main n junk = Inr (test_lines 17 10, test_lines 17 10)"
    using self_test_generic [of 10 10 n junk] assms by (auto simp: inherit_main_def)
qed

end
