(* ===== verification/Spec2Isabelle.thy ===== *)
theory Spec2Isabelle
  imports Nachos_Mips Nachos_TestSuite Nachos_Tokens Nachos_Syscall Nachos_Coff Nachos_FsTest Nachos_Console Nachos_Network Nachos_Stacks
begin

text \<open>
  A verification library for Kolsh, an instance of the instructional operating system Nachos: the
  sources under \<^verbatim>\<open>src/nachos-csci402/code\<close>, to which all file names below are relative. Nachos is a
  kernel in C++ that runs inside a simulator of a MIPS machine with an interrupt controller, a clock,
  a disk, a console and a network, also in C++. The library models the simulator and the kernel.

  \<^bold>\<open>Conventions.\<close> A routine of the source is a function of the same name, with the class name in front
  where two classes share it. State is passed explicitly: an object is a \<^verbatim>\<open>record\<close>, a routine returns
  the changed record. A routine that can abort (a failed \<^verbatim>\<open>ASSERT\<close>), run into undefined behaviour of
  C++ (an access outside an array, a dangling pointer, a signed overflow that matters), never return,
  or shut the machine down returns a value of the sum type \<open>'a res\<close>, whose left summand names
  which of the four happened; \<open>andThen\<close> sequences such calls. The register file, memory and bitmaps are
  lists and functions of \<open>32 word\<close> and \<open>8 word\<close>; an \<^verbatim>\<open>int\<close> whose overflow is out of reach of the program is
  an \<open>int\<close>, one that can be cut to 32 bits (times stored by the disk) is cut by \<open>to_int32\<close>. The
  content of freshly allocated memory is an argument (\<open>junk\<close>, \<open>fresh\<close>); so is the byte order of the
  host (\<open>big\<close>). Debugging output and statistics that nobody reads back are left out.

  \<^bold>\<open>The parts and their theories.\<close>

  \<^item> \<open>Nachos_Prelude\<close>: faults and sequencing, C division (\<^verbatim>\<open>threads/utility.h\<close>), the geometry of the disk.

  \<^item> \<open>Nachos_List\<close>: \<^verbatim>\<open>threads/list.cc\<close>, the linked list, on a heap of cells. A list is shown to refine
    a sequence of keyed items; the locale \<open>kernel_queue\<close> states what the queues of the kernel promise
    (first in first out, stable sorting by key) and is interpreted on the heap and on sequences, so the
    later theories use sequences. Its destructor terminates and frees every cell once.

  \<^item> \<open>Nachos_Bitmap\<close>: \<^verbatim>\<open>userprog/bitmap.cc\<close>; the locale \<open>slot_allocator\<close> is the contract of an allocator of
    numbered slots, interpreted on the bitmap.

  \<^item> \<open>Nachos_Interrupt\<close>: \<^verbatim>\<open>machine/interrupt.cc\<close>, \<^verbatim>\<open>stats.cc\<close>, \<^verbatim>\<open>timer.cc\<close> and the timer handler of
    \<^verbatim>\<open>threads/system.cc\<close>. The locale \<open>device_contract\<close> says what a device handler may do; under it one tick
    of the clock fires every due interrupt and terminates, and an idle machine advances to the next
    interrupt. It is interpreted on the timer here and on the handlers of the kernel below.

  \<^item> \<open>Nachos_Machine\<close>: \<^verbatim>\<open>machine/machine.cc\<close>, \<^verbatim>\<open>machine/translate.cc\<close>: registers, memory and address translation by
    page table or TLB. Translation only lets valid, permitted pages through, writes are confined to one
    page frame, and memory behaves alike on hosts of either byte order.

  \<^item> \<open>Nachos_Mips\<close>: \<^verbatim>\<open>machine/mipssim.cc\<close>: decoding and all instructions, with branch and load delay
    slots. Each instruction keeps the machine well formed, with the exceptions the property lists; the
    64-bit product and the overflow traps are exact; two instructions deviate from the architecture.

  \<^item> \<open>Nachos_Threads\<close>: \<^verbatim>\<open>threads/thread.cc\<close>, \<^verbatim>\<open>scheduler.cc\<close>, \<^verbatim>\<open>synch.cc\<close>, \<^verbatim>\<open>synchlist.cc\<close>. A thread is a stack of code
    locations, the points at which the kernel can switch away from it; \<open>kstep\<close> is one step of the running
    thread, \<open>reachable\<close> the states the kernel can reach under every sequence of calls, interrupts and
    switches. \<open>Nachos_Kernel\<close> proves the invariant \<open>kinv\<close> by rule induction and from it that locks exclude, that
    no assertion fails and no thread is lost between queues, that the synchronisation objects are
    consistent, and that a synchronised list is touched only under its lock; its locale \<open>kernel_devices\<close>
    extends \<open>device_contract\<close> and is interpreted on the handlers of the kernel.

  \<^item> \<open>Nachos_Program\<close>: programs on the thread system, given by their code between kernel calls. The locale
    \<open>lock_typing\<close> is a type system for locks, \<open>lock_order\<close> adds an order in which they are taken and excludes
    circular waiting, \<open>monitor\<close> gives every condition a lock and reduces an invariant of all runs on the
    kernel to an invariant of the code with one queue per condition. \<open>Nachos_Hospital\<close>: \<^verbatim>\<open>threads/threadtest.cc\<close>, the
    hospital simulation, 31 threads in eight roles. \<open>Nachos_Wards\<close> interprets the three locales on it. The next seven theories follow its
    data through all runs: \<open>Nachos_Desk\<close> is the meeting of a colleague and a visitor at a desk under one lock and one condition,
    \<open>Nachos_Rounds\<close>, \<open>Nachos_Door\<close> and \<open>Nachos_Reception\<close> are the parts of the invariant for each kind of colleague, \<open>Nachos_Simulation\<close> puts
    them together (\<open>hospital_ok\<close>), \<open>Nachos_Rota\<close> concludes that no assertion of the program fails and no index leaves its array, and
    \<open>Nachos_Tokens\<close> that tokens are unique and fees need no lock.

  \<^item> \<open>Nachos_TestSuite\<close>: the test suite at the top of \<^verbatim>\<open>threads/threadtest.cc\<close>, which the simplifier runs on the model of the kernel to its end (309 steps).

  \<^item> \<open>Nachos_Disk\<close>: \<^verbatim>\<open>machine/disk.cc\<close>, the device with its latencies and its backing file.
    \<open>Nachos_SynchDisk\<close>: \<^verbatim>\<open>filesys/synchdisk.cc\<close>, requests that wait for their interrupt; the locale
    \<open>sector_store\<close> is the interface the file system relies on, interpreted on the synchronous disk.

  \<^item> \<open>Nachos_OpenFile\<close>: \<^verbatim>\<open>filesys/filehdr.cc\<close>, \<^verbatim>\<open>filesys/openfile.cc\<close>; \<open>Nachos_Directory\<close>: \<^verbatim>\<open>filesys/directory.cc\<close>, with
    the locale \<open>name_table\<close>; \<open>Nachos_FileSys\<close>: \<^verbatim>\<open>filesys/filesys.cc\<close>. The operations work on the bytes of the
    disk. The lemmas, proved in \<open>sector_store\<close> from its laws, lead from sectors to byte arrays (\<open>file_content\<close>), to
    a table of names (\<open>dir_map\<close>) and to a map from names to byte arrays (\<open>fs_files\<close>), which \<^verbatim>\<open>Create\<close>,
    \<^verbatim>\<open>Remove\<close> and writing refine; the invariant \<open>fs_ok\<close> says that headers and data occupy disjoint sectors
    and exactly the marked ones. \<open>Nachos_FsTest\<close>: \<^verbatim>\<open>filesys/fstest.cc\<close>, the commands that copy a file in, print a file and test the speed of the
    file system: a copied file is printed as it was, and the speed test fails because files cannot grow.

  \<^item> \<open>Nachos_AddrSpace\<close>: \<^verbatim>\<open>userprog/addrspace.cc\<close>, \<^verbatim>\<open>userprog/table.h\<close>, \<^verbatim>\<open>bin/noff.h\<close>: the table of open files, an
    application of the locale \<open>slot_allocator\<close> to handles (\<open>Table_map\<close>), and the loader, on any
    \<open>sector_store\<close>. \<open>Nachos_Syscall\<close>: \<^verbatim>\<open>userprog/exception.cc\<close> and \<^verbatim>\<open>StartProcess\<close> of \<^verbatim>\<open>progtest.cc\<close>, on a record \<open>Process\<close> that
    joins machine, address space, file system and disk. Starting a program establishes the invariant
    \<open>proc_ok\<close>, every system call keeps it, and the calls move bytes between files and user memory as
    documented, except that a bad buffer halts the machine.

  \<^item> \<open>Nachos_Coff\<close>: \<^verbatim>\<open>bin/coff2noff.c\<close>, \<^verbatim>\<open>bin/coff.h\<close>: the tool on the host that turns a COFF file of the compiler into an executable of
    Nachos. Its output, read by the loader, fills memory as the COFF file says.

  \<^item> \<open>Nachos_Console\<close>: \<^verbatim>\<open>machine/console.cc\<close>, \<^verbatim>\<open>userprog/synchconsole.cc\<close>: the device and lines written and read by any
    number of threads; \<open>sc_step\<close> is one step of a thread, of the clock or of an interrupt. Lines stay whole.
    \<open>Nachos_Network\<close>: \<^verbatim>\<open>machine/network.cc\<close>, \<^verbatim>\<open>network/post.cc\<close> and the sockets of \<^verbatim>\<open>machine/sysdep.cc\<close>: packets as bytes, the post
    office of a machine (\<open>po_step\<close>) and a cluster of machines on one wire (\<open>cluster_reaches\<close>). Mail that is not lost arrives
    once, unchanged and in order. In both, a lock is its owner, a semaphore its value and a synchronised
    list its items: the contracts that \<open>Nachos_Kernel\<close> proves of the kernel's own objects.

  \<^item> \<open>Nachos_Stacks\<close>: the example programs of \<^verbatim>\<open>src/nachos-csci402/c++example\<close>. The locale \<open>lifo\<close> is the contract of their abstract class \<^verbatim>\<open>Stack\<close>,
    interpreted on four implementations; the implementations can replace each other and the self tests print what they should.

  \<^bold>\<open>How the parts interact.\<close> The machine raises exceptions and ticks the clock, the clock fires
  device handlers, a handler wakes a thread by \<^verbatim>\<open>V\<close> or asks for a yield, the scheduler switches stacks;
  these calls are arguments (\<open>run\<close>, \<open>delayed\<close>, \<open>yield\<close>, the exception handler) of the lower component and are supplied
  by the upper one. The file system calls the synchronous disk through the arguments \<open>rd\<close> and \<open>wr\<close>. Machine
  and disk share one interrupt controller: in \<open>Nachos_Syscall\<close> a disk operation runs on the controller of
  the machine and hands it back (\<open>share\<close>, \<open>on_disk\<close>).

  \<^bold>\<open>Loops and fuel.\<close> Loops over arrays and lists are structural or have a measure. Fuel appears in five
  places: the walk along a linked list (the number of cells bounds it), the loop that fires due
  interrupts (one more than the number of pending interrupts; the contract of the devices forbids
  handlers to schedule for the present), the wait of the synchronous disk (one more than the
  number of pending interrupts), the loop that prints a file (one more than its length) and the
  loops that fill and empty the example stacks (more than the items). In each case a lemma shows that this much is enough. \<^verbatim>\<open>Sleep\<close> and
  \<^verbatim>\<open>Broadcast\<close> are loops over code locations and need none.

  \<^bold>\<open>Not modelled.\<close> The test suite under time slices (it is run without), and the synchronous disk and the table
  of open files under several threads (their locks are only taken by one thread here). Left out for good: the host interface
  \<^verbatim>\<open>machine/sysdep.cc\<close> beyond files, polling and sockets (it only calls UNIX), \<^verbatim>\<open>threads/switch.s\<close> (assembly; a
  switch is the change of the running stack), \<^verbatim>\<open>threads/main.cc\<close> and \<^verbatim>\<open>utility.cc\<close> (argument parsing and debug
  output), the test drivers \<^verbatim>\<open>nettest.cc\<close> and the console test of \<^verbatim>\<open>progtest.cc\<close>, the other C tools under \<^verbatim>\<open>bin\<close> (the Makefile builds none), user programs under
  \<^verbatim>\<open>test\<close>, and the variants of the file system that forward to UNIX (\<^verbatim>\<open>FILESYS_STUB\<close>).
\<close>

end
